(* ===== verification/Prelude.thy ===== *)
theory Prelude
  imports Main "HOL-Library.Word" "HOL-Library.AList"
begin

text \<open>
  Shared vocabulary of the development: results of fallible Go functions, Go strings and
  their runes, big-endian integers, times and durations, and the generic lemmas the component
  theories use. Nothing in this theory is specific to one component of the program.

  A Go \<^verbatim>\<open>string\<close> is a sequence of bytes, and so is an Isabelle \<^typ>\<open>string\<close> (a list of
  8-bit characters). A Go \<^verbatim>\<open>[]byte\<close> is a list of 8-bit words. A function of the source that
  returns \<^verbatim>\<open>(T, error)\<close> returns a value of \<open>'e + 'a\<close>: \<open>Inl\<close> the error, \<open>Inr\<close> the value.
\<close>

named_theorems codec_simps \<open>unfolding rules of the wire codecs\<close>
named_theorems result_simps \<open>rules for results of fallible functions\<close>

section \<open>Results\<close>

type_synonym byte = "8 word"
type_synonym bytes = "byte list"
type_synonym error = string

definition bindE :: "'e + 'a \<Rightarrow> ('a \<Rightarrow> 'e + 'b) \<Rightarrow> 'e + 'b" where
  "bindE r f = (case r of Inl e \<Rightarrow> Inl e | Inr x \<Rightarrow> f x)"

definition checkE :: "bool \<Rightarrow> 'e \<Rightarrow> 'e + unit" where
  "checkE ok e = (if ok then Inr () else Inl e)"

lemma bindE_simps [simp, result_simps]:
  "bindE (Inl e) f = Inl e" "bindE (Inr x) f = f x"
  by (simp_all add: bindE_def)

lemma bindE_eq_Inr [result_simps]: "bindE r f = Inr y \<longleftrightarrow> (\<exists>x. r = Inr x \<and> f x = Inr y)"
  by (cases r) auto

lemma bindE_eq_Inl [result_simps]:
  "bindE r f = Inl e \<longleftrightarrow> r = Inl e \<or> (\<exists>x. r = Inr x \<and> f x = Inl e)"
  by (cases r) auto

lemma bindE_cong [fundef_cong]:
  "r = r' \<Longrightarrow> (\<And>x. r' = Inr x \<Longrightarrow> f x = g x) \<Longrightarrow> bindE r f = bindE r' g"
  by (cases r') auto

lemma checkE_simps [simp, result_simps]: "checkE True e = Inr ()" "checkE False e = Inl e"
  by (simp_all add: checkE_def)

lemma checkE_eq [simp, result_simps]:
  "checkE ok e = Inr u \<longleftrightarrow> ok" "checkE ok e = Inl e' \<longleftrightarrow> \<not> ok \<and> e' = e"
  by (auto simp: checkE_def)

section \<open>Cutting lists\<close>

lemma drop_split: "drop m xs = take n (drop m xs) @ drop (n + m) xs"
  by (metis append_take_drop_id drop_drop)

section \<open>Big-endian integers\<close>

text \<open>
  \<open>be_bytes n k\<close> is what \<^verbatim>\<open>binary.BigEndian.PutUintXX\<close> writes into \<open>n\<close> bytes, and \<open>be_val\<close>
  what \<^verbatim>\<open>binary.BigEndian.UintXX\<close> reads.
\<close>

primrec be_bytes :: "nat \<Rightarrow> nat \<Rightarrow> bytes" where
  "be_bytes 0 k = []"
| "be_bytes (Suc n) k = be_bytes n (k div 256) @ [of_nat (k mod 256)]"

lemma be_bytes_numeral:
  "be_bytes (numeral k) n = be_bytes (pred_numeral k) (n div 256) @ [of_nat (n mod 256)]"
  by (subst numeral_eq_Suc) (rule be_bytes.simps(2))

definition be_val :: "bytes \<Rightarrow> nat" where
  "be_val bs = foldl (\<lambda>acc b. acc * 256 + unat b) 0 bs"

lemma length_be_bytes [simp]: "length (be_bytes n k) = n"
  by (induction n arbitrary: k) auto

lemma be_val_Nil [simp]: "be_val [] = 0"
  by (simp add: be_val_def)

lemma be_val_snoc [simp]: "be_val (bs @ [b]) = be_val bs * 256 + unat b"
  by (simp add: be_val_def)

lemma unat_byte_less [simp]: "unat (b :: byte) < 256"
  using unsigned_less [of b, where ?'a = nat] by simp

lemma be_val_bound: "be_val bs < 256 ^ length bs"
proof (induction bs rule: rev_induct)
  case (snoc b bs)
  then have "be_val bs * 256 + 256 \<le> 256 ^ length bs * 256" by simp
  moreover have "unat b < 256" by simp
  ultimately have "be_val bs * 256 + unat b < 256 ^ length bs * 256" by linarith
  then show ?case by (simp add: mult.commute)
qed simp

lemma be_val_be_bytes: "be_val (be_bytes n k) = k mod 256 ^ n"
proof (induction n arbitrary: k)
  case (Suc n)
  have "unat (of_nat (k mod 256) :: byte) = k mod 256"
    by (simp add: unat_of_nat)
  then have "be_val (be_bytes (Suc n) k) = (k div 256) mod 256 ^ n * 256 + k mod 256"
    by (simp add: Suc)
  also have "\<dots> = k mod (256 * 256 ^ n)"
    by (simp add: mod_mult2_eq mult.commute)
  finally show ?case by simp
qed simp

lemma be_bytes_be_val: "be_bytes (length bs) (be_val bs) = bs"
proof (induction bs rule: rev_induct)
  case (snoc b bs)
  have "(be_val bs * 256 + unat b) div 256 = be_val bs" by simp
  moreover have "(be_val bs * 256 + unat b) mod 256 = unat b" by simp
  ultimately show ?case using snoc by simp
qed simp

lemma be_bytes_be_val_n: "length bs = n \<Longrightarrow> be_bytes n (be_val bs) = bs"
  using be_bytes_be_val [of bs] by simp

definition put_uint :: "nat \<Rightarrow> 'a::len word \<Rightarrow> bytes" where
  "put_uint n w = be_bytes n (unat w)"

definition get_uint :: "bytes \<Rightarrow> 'a::len word" where
  "get_uint bs = of_nat (be_val bs)"

lemma length_put_uint [simp]: "length (put_uint n w) = n"
  by (simp add: put_uint_def)

lemma power_256: "(256::nat) ^ n = 2 ^ (8 * n)"
  by (simp add: power_mult)

lemma get_put_uint [simp]:
  fixes w :: "'a::len word"
  assumes "LENGTH('a) \<le> 8 * n"
  shows "get_uint (put_uint n w) = w"
proof -
  have "unat w < 2 ^ LENGTH('a)" by simp
  also have "(2::nat) ^ LENGTH('a) \<le> 256 ^ n" using assms by (simp add: power_256)
  finally have "unat w mod 256 ^ n = unat w" by simp
  then show ?thesis by (simp add: get_uint_def put_uint_def be_val_be_bytes)
qed

lemma put_get_uint [simp]:
  assumes "length bs = n" "8 * n \<le> LENGTH('a::len)"
  shows "put_uint n (get_uint bs :: 'a word) = bs"
proof -
  have "be_val bs < 2 ^ (8 * n)" using be_val_bound [of bs] assms by (simp add: power_256)
  also have "(2::nat) ^ (8 * n) \<le> 2 ^ LENGTH('a)" using assms by simp
  finally have "unat (of_nat (be_val bs) :: 'a word) = be_val bs" by (simp add: unat_of_nat)
  then show ?thesis using assms by (simp add: put_uint_def get_uint_def be_bytes_be_val_n)
qed

section \<open>Sorting with a comparison function\<close>

text \<open>
  \<^verbatim>\<open>slices.SortFunc\<close> as insertion sort: a negative result of the comparison puts its first argument
  first.
\<close>

fun insertFunc :: "('a \<Rightarrow> 'a \<Rightarrow> int) \<Rightarrow> 'a \<Rightarrow> 'a list \<Rightarrow> 'a list" where
  "insertFunc cmp x [] = [x]"
| "insertFunc cmp x (y # ys) = (if cmp x y \<le> 0 then x # y # ys else y # insertFunc cmp x ys)"

fun SortFunc :: "('a \<Rightarrow> 'a \<Rightarrow> int) \<Rightarrow> 'a list \<Rightarrow> 'a list" where
  "SortFunc cmp [] = []"
| "SortFunc cmp (x # xs) = insertFunc cmp x (SortFunc cmp xs)"

lemma set_insertFunc [simp]: "set (insertFunc cmp x xs) = insert x (set xs)"
  by (induction xs) auto

lemma set_SortFunc [simp]: "set (SortFunc cmp xs) = set xs"
  by (induction xs) auto

lemma length_insertFunc [simp]: "length (insertFunc cmp x xs) = Suc (length xs)"
  by (induction xs) auto

lemma length_SortFunc [simp]: "length (SortFunc cmp xs) = length xs"
  by (induction xs) auto

lemma SortFunc_eq_Nil [simp]: "SortFunc cmp xs = [] \<longleftrightarrow> xs = []"
  by (metis length_0_conv length_SortFunc)

text \<open>A comparison that orders by a key sorts by that key.\<close>

lemma sorted_insertFunc:
  fixes key :: "'a \<Rightarrow> 'k::linorder"
  assumes "\<And>y. y \<in> set ys \<Longrightarrow> cmp x y \<le> 0 \<longleftrightarrow> key x \<le> key y"
    and "sorted (map key ys)"
  shows "sorted (map key (insertFunc cmp x ys))"
  using assms
proof (induction ys)
  case (Cons y ys)
  then show ?case by (cases "cmp x y \<le> 0") fastforce+
qed simp

lemma sorted_SortFunc:
  fixes key :: "'a \<Rightarrow> 'k::linorder"
  assumes "\<And>x y. x \<in> set xs \<Longrightarrow> y \<in> set xs \<Longrightarrow> cmp x y \<le> 0 \<longleftrightarrow> key x \<le> key y"
  shows "sorted (map key (SortFunc cmp xs))"
  using assms
proof (induction xs)
  case (Cons x xs)
  then have "sorted (map key (SortFunc cmp xs))" by simp
  then show ?case using Cons(2) by (auto intro: sorted_insertFunc)
qed simp

lemma hd_SortFunc_least:
  fixes key :: "'a \<Rightarrow> 'k::linorder"
  assumes "\<And>x y. x \<in> set xs \<Longrightarrow> y \<in> set xs \<Longrightarrow> cmp x y \<le> 0 \<longleftrightarrow> key x \<le> key y"
    and "x \<in> set xs"
  shows "hd (SortFunc cmp xs) \<in> set xs \<and> key (hd (SortFunc cmp xs)) \<le> key x"
proof -
  obtain y ys where s: "SortFunc cmp xs = y # ys"
    using assms(2) by (metis SortFunc_eq_Nil empty_iff list.exhaust list.set(1))
  have "sorted (map key (SortFunc cmp xs))" by (rule sorted_SortFunc) (rule assms(1))
  then have "sorted (map key (y # ys))" unfolding s .
  moreover have "x \<in> set (y # ys)" "y \<in> set xs" using assms(2) s set_SortFunc [of cmp xs] by auto
  ultimately show ?thesis using s by auto
qed

section \<open>Association lists\<close>

lemma length_filter_delete:
  assumes "distinct (map fst xs)" and "map_of xs k = Some v"
  shows "length (filter P xs) = length (filter P (AList.delete k xs)) + (if P (k, v) then 1 else 0)"
  using assms
proof (induction xs)
  case (Cons x xs)
  then show ?case
    by (cases x) (auto simp: AList.delete_simps AList.delete_idem split: if_splits)
qed simp

lemma length_filter_update:
  assumes "distinct (map fst xs)"
  shows "length (filter P (AList.update k v xs)) =
    length (filter P (AList.delete k xs)) + (if P (k, v) then 1 else 0)"
  using assms
proof (induction xs)
  case (Cons x xs)
  then show ?case
    by (cases x) (auto simp: AList.delete_simps AList.delete_idem split: if_splits)
qed simp

section \<open>Step functions and their invariants\<close>

text \<open>
  A component whose operations are steps \<open>step s op\<close> of a state: an invariant that every operation keeps
  holds after every sequence of operations.
\<close>

locale step_invariant =
  fixes step :: "'s \<Rightarrow> 'o \<Rightarrow> 's"
    and inv :: "'s \<Rightarrow> bool"
    and allowed :: "'o \<Rightarrow> bool"
  assumes step_inv: "inv s \<Longrightarrow> allowed op \<Longrightarrow> inv (step s op)"
begin

lemma run_inv: "inv s \<Longrightarrow> list_all allowed ops \<Longrightarrow> inv (foldl step s ops)"
  by (induction ops arbitrary: s) (auto intro: step_inv)

lemma run_prefix_inv:
  "inv s \<Longrightarrow> list_all allowed (ops @ ops') \<Longrightarrow> inv (foldl step s ops)"
  using run_inv by simp

end

end
