(* ===== verification/FrameCodec.thy ===== *)
theory FrameCodec
  imports Prelude
begin

text \<open>
  The contract every frame codec of \<^verbatim>\<open>internal/protocol\<close> keeps with the relay loops that use it:
  encoding succeeds exactly on the valid frames, decoding inverts encoding, and whatever decodes
  is the encoding of the frame it decodes to. The clients' facts (no two frames share an encoding,
  a decoded frame is valid, a sequence of frames survives the wire) follow once and for all.
\<close>

primrec mapE :: "('a \<Rightarrow> 'e + 'b) \<Rightarrow> 'a list \<Rightarrow> 'e + 'b list" where
  "mapE f [] = Inr []"
| "mapE f (x # xs) = bindE (f x) (\<lambda>y. bindE (mapE f xs) (\<lambda>ys. Inr (y # ys)))"

lemma mapE_length: "mapE f xs = Inr ys \<Longrightarrow> length ys = length xs"
  by (induction xs arbitrary: ys) (auto simp: bindE_eq_Inr)

locale frame_codec =
  fixes enc :: "'f \<Rightarrow> error + bytes"
    and dec :: "bytes \<Rightarrow> error + 'f"
    and valid :: "'f \<Rightarrow> bool"
  assumes enc_valid: "enc f = Inr bs \<Longrightarrow> valid f"
    and enc_total: "valid f \<Longrightarrow> \<exists>bs. enc f = Inr bs"
    and dec_enc: "enc f = Inr bs \<Longrightarrow> dec bs = Inr f"
    and enc_dec: "dec bs = Inr f \<Longrightarrow> enc f = Inr bs"
begin

lemma dec_iff: "dec bs = Inr f \<longleftrightarrow> enc f = Inr bs"
  using dec_enc enc_dec by blast

lemma dec_valid: "dec bs = Inr f \<Longrightarrow> valid f"
  using enc_dec enc_valid by blast

lemma enc_inject: "enc f = Inr bs \<Longrightarrow> enc g = Inr bs \<Longrightarrow> f = g"
  by (metis Inr_inject dec_enc)

lemma dec_inject: "dec bs = Inr f \<Longrightarrow> dec cs = Inr f \<Longrightarrow> bs = cs"
  by (metis Inr_inject enc_dec)

lemma enc_ok_iff: "(\<exists>bs. enc f = Inr bs) \<longleftrightarrow> valid f"
  using enc_valid enc_total by blast

lemma roundtrip: "valid f \<Longrightarrow> bindE (enc f) dec = Inr f"
  using enc_total dec_enc by (fastforce simp: bindE_eq_Inr)

lemma sequence_roundtrip: "list_all valid fs \<Longrightarrow> bindE (mapE enc fs) (mapE dec) = Inr fs"
proof (induction fs)
  case (Cons f fs)
  then obtain bs where bs: "enc f = Inr bs" using enc_total by auto
  from Cons obtain bss where "mapE enc fs = Inr bss" "mapE dec bss = Inr fs"
    by (auto simp: bindE_eq_Inr)
  with bs dec_enc [OF bs] show ?case by simp
qed simp

end

end
