(* ===== verification/GoText.thy ===== *)
theory GoText
  imports Prelude
begin

text \<open>
  The text operations of Go that the source uses, on byte strings: the runes a \<^verbatim>\<open>range\<close> loop
  visits, \<^verbatim>\<open>strings.TrimSpace\<close>, \<^verbatim>\<open>TrimPrefix\<close>, \<^verbatim>\<open>TrimSuffix\<close>, \<^verbatim>\<open>TrimRight\<close>, \<^verbatim>\<open>HasPrefix\<close>,
  \<^verbatim>\<open>HasSuffix\<close>, \<^verbatim>\<open>Contains\<close>, \<^verbatim>\<open>ContainsAny\<close>, \<^verbatim>\<open>Split\<close>, \<^verbatim>\<open>ToLower\<close>, decimal printing, and
  \<^verbatim>\<open>internal/utils/text.go\<close>. The lower-case mapping of letters outside ASCII is a table of the
  Unicode standard; it is the parameter \<open>ul\<close> of \<open>ToLower\<close>.
\<close>

section \<open>Bytes, strings and runes\<close>

abbreviation code :: "char \<Rightarrow> nat" where
  "code c \<equiv> of_char c"

definition str_of_bytes :: "bytes \<Rightarrow> string" where
  "str_of_bytes bs = map (\<lambda>b. char_of (unat b)) bs"

definition bytes_of_str :: "string \<Rightarrow> bytes" where
  "bytes_of_str s = map (\<lambda>c. of_nat (code c)) s"

lemma length_str_of_bytes [simp]: "length (str_of_bytes bs) = length bs"
  by (simp add: str_of_bytes_def)

lemma length_bytes_of_str [simp]: "length (bytes_of_str s) = length s"
  by (simp add: bytes_of_str_def)

lemma str_of_bytes_of_str [simp]: "str_of_bytes (bytes_of_str s) = s"
proof -
  have "char_of (unat (of_nat (code c) :: byte)) = c" for c
    by (simp add: unat_of_nat)
  then show ?thesis by (simp add: str_of_bytes_def bytes_of_str_def comp_def)
qed

lemma bytes_of_str_of_bytes [simp]: "bytes_of_str (str_of_bytes bs) = bs"
  by (simp add: str_of_bytes_def bytes_of_str_def comp_def)

text \<open>
  \<^verbatim>\<open>utf8.DecodeRune\<close>: the first rune of a non-empty string and the number of bytes it takes.
  An invalid sequence is the replacement character and takes one byte.
\<close>

definition rune_error :: nat where "rune_error = 65533"

definition cont_byte :: "char \<Rightarrow> bool" where
  "cont_byte c \<longleftrightarrow> 128 \<le> code c \<and> code c \<le> 191"

definition second_lo :: "nat \<Rightarrow> nat" where
  "second_lo b = (if b = 224 then 160 else if b = 240 then 144 else 128)"

definition second_hi :: "nat \<Rightarrow> nat" where
  "second_hi b = (if b = 237 then 159 else if b = 244 then 143 else 191)"

definition second_ok :: "nat \<Rightarrow> char \<Rightarrow> bool" where
  "second_ok b c \<longleftrightarrow> second_lo b \<le> code c \<and> code c \<le> second_hi b"

fun decode2 :: "nat \<Rightarrow> string \<Rightarrow> nat \<times> nat" where
  "decode2 b (c1 # _) =
     (if second_ok b c1 then ((b - 192) * 64 + (code c1 - 128), 2) else (rune_error, 1))"
| "decode2 b [] = (rune_error, 1)"

fun decode3 :: "nat \<Rightarrow> string \<Rightarrow> nat \<times> nat" where
  "decode3 b (c1 # c2 # _) =
     (if second_ok b c1 \<and> cont_byte c2
      then ((b - 224) * 4096 + (code c1 - 128) * 64 + (code c2 - 128), 3) else (rune_error, 1))"
| "decode3 b _ = (rune_error, 1)"

fun decode4 :: "nat \<Rightarrow> string \<Rightarrow> nat \<times> nat" where
  "decode4 b (c1 # c2 # c3 # _) =
     (if second_ok b c1 \<and> cont_byte c2 \<and> cont_byte c3
      then ((b - 240) * 262144 + (code c1 - 128) * 4096 + (code c2 - 128) * 64 + (code c3 - 128), 4)
      else (rune_error, 1))"
| "decode4 b _ = (rune_error, 1)"

definition decode_rune :: "char \<Rightarrow> string \<Rightarrow> nat \<times> nat" where
  "decode_rune c s =
     (let b = code c in
      if b < 128 then (b, 1)
      else if 194 \<le> b \<and> b \<le> 223 then decode2 b s
      else if 224 \<le> b \<and> b \<le> 239 then decode3 b s
      else if 240 \<le> b \<and> b \<le> 244 then decode4 b s
      else (rune_error, 1))"

text \<open>The runes of a string in order, each with the bytes it was decoded from.\<close>

function rune_chunks :: "string \<Rightarrow> (nat \<times> string) list" where
  "rune_chunks [] = []"
| "rune_chunks (c # s) =
     (let (r, w) = decode_rune c s in (r, c # take (w - 1) s) # rune_chunks (drop (w - 1) s))"
  by pat_completeness auto
termination
  by (relation "measure length") auto

definition runes :: "string \<Rightarrow> nat list" where
  "runes s = map fst (rune_chunks s)"

lemma concat_rune_chunks [simp]: "concat (map snd (rune_chunks s)) = s"
  by (induction s rule: rune_chunks.induct) (auto simp: Let_def split: prod.split)

lemma decode_rune_ascii: "code c < 128 \<Longrightarrow> decode_rune c s = (code c, 1)"
  by (simp add: decode_rune_def)

lemma rune_chunks_ascii [simp]:
  "code c < 128 \<Longrightarrow> rune_chunks (c # s) = (code c, [c]) # rune_chunks s"
  by (simp add: decode_rune_ascii)

text \<open>
  A rune that is not ASCII is decoded from bytes that are not ASCII, and the other way round:
  a test on runes that every non-ASCII rune fails can be made byte by byte.
\<close>

lemma second_ok_high: "second_ok b c \<Longrightarrow> 128 \<le> code c"
  by (auto simp: second_ok_def second_lo_def split: if_splits)

lemma decode2_high:
  "192 \<le> b - 2 \<Longrightarrow> decode2 b s = (r, w) \<Longrightarrow> 128 \<le> r \<and> (\<forall>x\<in>set (take (w - 1) s). 128 \<le> code x)"
  by (cases s) (auto simp: rune_error_def dest: second_ok_high split: if_splits)

lemma decode3_rune:
  assumes "224 \<le> b" "second_ok b c1"
  shows "256 \<le> (b - 224) * 4096 + (code c1 - 128) * 64"
proof (cases "b = 224")
  case True
  then have "160 \<le> code c1" using assms by (simp add: second_ok_def second_lo_def)
  then show ?thesis by simp
next
  case False
  then have "1 \<le> b - 224" using assms by simp
  then have "4096 \<le> (b - 224) * 4096" by simp
  then show ?thesis by linarith
qed

lemma decode3_high:
  "224 \<le> b \<Longrightarrow> decode3 b s = (r, w) \<Longrightarrow> 128 \<le> r \<and> (\<forall>x\<in>set (take (w - 1) s). 128 \<le> code x)"
  by (cases "(b, s)" rule: decode3.cases)
     (auto simp: rune_error_def cont_byte_def numeral_2_eq_2 dest: second_ok_high decode3_rune
       split: if_splits)

lemma decode4_rune:
  assumes "240 \<le> b" "second_ok b c1"
  shows "256 \<le> (b - 240) * 262144 + (code c1 - 128) * 4096"
proof (cases "b = 240")
  case True
  then have "144 \<le> code c1" using assms by (simp add: second_ok_def second_lo_def)
  then show ?thesis by simp
next
  case False
  then have "1 \<le> b - 240" using assms by simp
  then have "262144 \<le> (b - 240) * 262144" by simp
  then show ?thesis by linarith
qed

lemma decode4_high:
  assumes "240 \<le> b" "decode4 b s = (r, w)"
  shows "128 \<le> r \<and> (\<forall>x\<in>set (take (w - 1) s). 128 \<le> code x)"
proof (cases "(b, s)" rule: decode4.cases)
  case (1 _ c1 c2 c3 t)
  show ?thesis
  proof (cases "second_ok b c1 \<and> cont_byte c2 \<and> cont_byte c3")
    case True
    then have "256 \<le> (b - 240) * 262144 + (code c1 - 128) * 4096" "128 \<le> code c1"
      using assms(1) decode4_rune second_ok_high by blast+
    moreover have "r = (b - 240) * 262144 + (code c1 - 128) * 4096 + (code c2 - 128) * 64
        + (code c3 - 128)" "w = 4"
      using 1 True assms(2) by auto
    ultimately have "256 \<le> r" "w = 4" "128 \<le> code c1"
      by (simp_all only: trans_le_add1)
    then show ?thesis using 1 True by (auto simp: cont_byte_def numeral_3_eq_3)
  qed (use 1 assms in \<open>auto simp: rune_error_def\<close>)
qed (use assms in \<open>auto simp: rune_error_def\<close>)

lemma decode_rune_high:
  assumes "128 \<le> code c" "decode_rune c s = (r, w)"
  shows "128 \<le> r \<and> (\<forall>x\<in>set (take (w - 1) s). 128 \<le> code x)"
  using assms decode2_high [of "code c" s r w] decode3_high [of "code c" s r w]
    decode4_high [of "code c" s r w]
  by (auto simp: decode_rune_def Let_def rune_error_def split: if_splits)

lemma list_all_runes_iff:
  assumes "\<And>r. P r \<Longrightarrow> r < 128"
  shows "list_all P (runes s) \<longleftrightarrow> list_all (\<lambda>c. P (code c)) s"
proof (induction s rule: rune_chunks.induct)
  case 1
  then show ?case by (simp add: runes_def)
next
  case (2 c s)
  show ?case
  proof (cases "code c < 128")
    case True
    with 2 [of "(code c, 1)" "code c" 1] show ?thesis
      by (simp add: runes_def decode_rune_ascii)
  next
    case False
    obtain r w where rw: "decode_rune c s = (r, w)" by fastforce
    with False have "\<not> P r" using assms decode_rune_high [of c s r w] by fastforce
    moreover have "\<not> P (code c)" using assms False by blast
    ultimately show ?thesis using rw by (simp add: runes_def)
  qed
qed

lemma list_ex_runes_iff:
  assumes "\<And>r. P r \<Longrightarrow> r < 128"
  shows "list_ex P (runes s) \<longleftrightarrow> list_ex (\<lambda>c. P (code c)) s"
proof (induction s rule: rune_chunks.induct)
  case 1
  then show ?case by (simp add: runes_def)
next
  case (2 c s)
  obtain r w where rw: "decode_rune c s = (r, w)" by fastforce
  have IH: "list_ex P (runes (drop (w - 1) s)) = list_ex (\<lambda>c. P (code c)) (drop (w - 1) s)"
    using 2 [of "(r, w)" r w] rw by simp
  show ?case
  proof (cases "code c < 128")
    case True
    with IH rw show ?thesis by (simp add: runes_def decode_rune_ascii)
  next
    case False
    with rw have high: "128 \<le> r" "\<forall>x\<in>set (take (w - 1) s). 128 \<le> code x"
      using decode_rune_high [of c s r w] by auto
    have "\<not> P r" "\<not> P (code c)" using assms high False by (meson not_le)+
    moreover have "\<not> list_ex (\<lambda>c. P (code c)) (take (w - 1) s)"
      using assms high(2) by (meson list_ex_iff not_le)
    then have "list_ex (\<lambda>c. P (code c)) s = list_ex (\<lambda>c. P (code c)) (drop (w - 1) s)"
      by (metis append_take_drop_id list_ex_append)
    ultimately show ?thesis using rw IH by (simp add: runes_def)
  qed
qed

section \<open>White space\<close>

text \<open>\<^verbatim>\<open>unicode.IsSpace\<close> and \<^verbatim>\<open>strings.TrimSpace\<close>.\<close>

definition is_space :: "nat \<Rightarrow> bool" where
  "is_space r \<longleftrightarrow> 9 \<le> r \<and> r \<le> 13 \<or> r = 32 \<or> r = 133 \<or> r = 160 \<or> r = 5760
     \<or> 8192 \<le> r \<and> r \<le> 8202 \<or> r = 8232 \<or> r = 8233 \<or> r = 8239 \<or> r = 8287 \<or> r = 12288"

definition trim_chunks :: "(nat \<times> string) list \<Rightarrow> (nat \<times> string) list" where
  "trim_chunks cs =
     rev (dropWhile (\<lambda>c. is_space (fst c)) (rev (dropWhile (\<lambda>c. is_space (fst c)) cs)))"

definition TrimSpace :: "string \<Rightarrow> string" where
  "TrimSpace s = concat (map snd (trim_chunks (rune_chunks s)))"

lemma rune_chunks_append_drop:
  "rune_chunks s = cs @ ds \<Longrightarrow> rune_chunks (concat (map snd ds)) = ds"
proof (induction s arbitrary: cs rule: rune_chunks.induct)
  case (2 c s)
  obtain r w where rw: "decode_rune c s = (r, w)" by fastforce
  show ?case
  proof (cases cs)
    case Nil
    with 2 have "concat (map snd ds) = c # s"
      by (metis append_Nil concat_rune_chunks)
    with 2(2) Nil show ?thesis by simp
  next
    case (Cons d cs')
    with 2 rw show ?thesis by (auto simp: Let_def)
  qed
qed simp

lemma decode2_append: "decode2 b (s @ t) = (r, w) \<Longrightarrow> w - 1 \<le> length s \<Longrightarrow> decode2 b s = (r, w)"
  by (cases s; cases t) (auto split: if_splits)

lemma decode3_short: "length s < 2 \<Longrightarrow> decode3 b s = (rune_error, 1)"
  by (cases "(b, s)" rule: decode3.cases) auto

lemma decode3_width: "decode3 b s = (r, w) \<Longrightarrow> w = 3 \<or> r = rune_error \<and> w = 1"
  by (cases "(b, s)" rule: decode3.cases) (auto split: if_splits)

lemma decode3_append: "decode3 b (s @ t) = (r, w) \<Longrightarrow> w - 1 \<le> length s \<Longrightarrow> decode3 b s = (r, w)"
  using decode3_width [of b "s @ t" r w] decode3_short [of s b]
  by (cases "(b, s)" rule: decode3.cases) auto

lemma decode4_short: "length s < 3 \<Longrightarrow> decode4 b s = (rune_error, 1)"
  by (cases "(b, s)" rule: decode4.cases) auto

lemma decode4_width: "decode4 b s = (r, w) \<Longrightarrow> w = 4 \<or> r = rune_error \<and> w = 1"
  by (cases "(b, s)" rule: decode4.cases) (auto split: if_splits)

lemma decode4_append: "decode4 b (s @ t) = (r, w) \<Longrightarrow> w - 1 \<le> length s \<Longrightarrow> decode4 b s = (r, w)"
  using decode4_width [of b "s @ t" r w] decode4_short [of s b]
  by (cases "(b, s)" rule: decode4.cases) auto

lemma decode_rune_append:
  "decode_rune c (s @ t) = (r, w) \<Longrightarrow> w - 1 \<le> length s \<Longrightarrow> decode_rune c s = (r, w)"
  unfolding decode_rune_def Let_def
  using decode2_append [of "code c" s t r w] decode3_append [of "code c" s t r w]
    decode4_append [of "code c" s t r w]
  by (cases "code c < 128"; cases "194 \<le> code c \<and> code c \<le> 223";
      cases "224 \<le> code c \<and> code c \<le> 239"; cases "240 \<le> code c \<and> code c \<le> 244") auto

lemma rune_chunks_append_take:
  "rune_chunks s = cs @ ds \<Longrightarrow> rune_chunks (concat (map snd cs)) = cs"
proof (induction s arbitrary: cs rule: rune_chunks.induct)
  case (2 c s)
  obtain r w where rw: "decode_rune c s = (r, w)" by fastforce
  show ?case
  proof (cases cs)
    case (Cons d cs')
    with 2(2) rw have d: "d = (r, c # take (w - 1) s)"
      and rest: "rune_chunks (drop (w - 1) s) = cs' @ ds"
      by (auto simp: Let_def)
    from 2(1) [of "(r, w)" r w, OF rw [symmetric] refl rest]
    have IH: "rune_chunks (concat (map snd cs')) = cs'" .
    have s: "s = take (w - 1) s @ concat (map snd cs') @ concat (map snd ds)"
      using rest by (metis append_take_drop_id concat_append concat_rune_chunks map_append)
    have "decode_rune c (take (w - 1) s @ concat (map snd cs')) = (r, w)" if "w - 1 \<le> length s"
      using rw s decode_rune_append [of c "take (w - 1) s @ concat (map snd cs')"
          "concat (map snd ds)" r w] that by simp
    moreover have "w - 1 \<le> length s"
      using rw by (cases s; cases "tl s"; cases "tl (tl s)")
        (auto simp: decode_rune_def Let_def split: if_splits)
    ultimately show ?thesis using Cons d IH by (simp add: Let_def)
  qed simp
qed simp

lemma trim_chunks_sublist: "\<exists>xs ys. cs = xs @ trim_chunks cs @ ys"
proof -
  let ?P = "\<lambda>c :: nat \<times> string. is_space (fst c)"
  have "cs = takeWhile ?P cs @ dropWhile ?P cs" by simp
  moreover have "dropWhile ?P cs = trim_chunks cs @ rev (takeWhile ?P (rev (dropWhile ?P cs)))"
    unfolding trim_chunks_def by (metis rev_append rev_rev_ident takeWhile_dropWhile_id)
  ultimately show ?thesis by metis
qed

lemma rune_chunks_trim [simp]: "rune_chunks (TrimSpace s) = trim_chunks (rune_chunks s)"
proof -
  obtain xs ys where "rune_chunks s = xs @ trim_chunks (rune_chunks s) @ ys"
    using trim_chunks_sublist by metis
  then have "rune_chunks (concat (map snd (trim_chunks (rune_chunks s) @ ys)))
      = trim_chunks (rune_chunks s) @ ys"
    by (rule rune_chunks_append_drop)
  then show ?thesis unfolding TrimSpace_def by (rule rune_chunks_append_take)
qed

lemma dropWhile_idem: "xs \<noteq> [] \<Longrightarrow> \<not> P (hd xs) \<Longrightarrow> dropWhile P xs = xs"
  by (cases xs) auto

lemma trim_chunks_idem [simp]: "trim_chunks (trim_chunks cs) = trim_chunks cs"
proof (cases "trim_chunks cs = []")
  case True
  show ?thesis unfolding True by (simp add: trim_chunks_def)
next
  case False
  let ?P = "\<lambda>c :: nat \<times> string. is_space (fst c)"
  let ?d = "dropWhile ?P cs"
  have ne: "?d \<noteq> []" "dropWhile ?P (rev ?d) \<noteq> []"
    using False unfolding trim_chunks_def by (metis dropWhile.simps(1) rev.simps(1))+
  have last: "\<not> ?P (last (trim_chunks cs))"
    using hd_dropWhile [OF ne(2)] ne(2) by (simp add: trim_chunks_def last_rev)
  have d: "?d = trim_chunks cs @ rev (takeWhile ?P (rev ?d))"
    unfolding trim_chunks_def by (metis rev_append rev_rev_ident takeWhile_dropWhile_id)
  have "hd (trim_chunks cs) = hd ?d" using False by (subst d) (simp add: hd_append)
  then have hd: "\<not> ?P (hd (trim_chunks cs))" using hd_dropWhile [OF ne(1)] by simp
  have "dropWhile ?P (trim_chunks cs) = trim_chunks cs"
    using False hd by (rule dropWhile_idem)
  moreover have "dropWhile ?P (rev (trim_chunks cs)) = rev (trim_chunks cs)"
    using False last by (intro dropWhile_idem) (auto simp: hd_rev)
  ultimately show ?thesis by (simp add: trim_chunks_def [of "trim_chunks cs"])
qed

lemma TrimSpace_idem [simp]: "TrimSpace (TrimSpace s) = TrimSpace s"
  unfolding TrimSpace_def [of "TrimSpace s"] rune_chunks_trim trim_chunks_idem
  by (simp add: TrimSpace_def)

definition visible_ascii :: "char \<Rightarrow> bool" where
  "visible_ascii c \<longleftrightarrow> 32 < code c \<and> code c < 127"

lemma rune_chunks_visible: "list_all visible_ascii s \<Longrightarrow> rune_chunks s = map (\<lambda>c. (code c, [c])) s"
  by (induction s) (auto simp: visible_ascii_def simp del: rune_chunks.simps(2))

lemma not_is_space_visible: "visible_ascii c \<Longrightarrow> \<not> is_space (code c)"
  by (auto simp: visible_ascii_def is_space_def)

lemma dropWhile_none: "list_all (\<lambda>x. \<not> P x) xs \<Longrightarrow> dropWhile P xs = xs"
  by (cases xs) auto

lemma TrimSpace_visible: "list_all visible_ascii s \<Longrightarrow> TrimSpace s = s"
proof -
  assume v: "list_all visible_ascii s"
  let ?cs = "map (\<lambda>c. (code c, [c])) s"
  have "list_all (\<lambda>c. \<not> is_space (fst c)) ?cs"
    using v by (induction s) (auto simp: not_is_space_visible)
  moreover from this have "list_all (\<lambda>c. \<not> is_space (fst c)) (rev ?cs)"
    by (simp add: list_all_iff)
  ultimately have "trim_chunks ?cs = ?cs"
    by (simp add: trim_chunks_def dropWhile_none del: map_map)
  then show ?thesis using v by (simp add: TrimSpace_def rune_chunks_visible comp_def)
qed

lemma runes_visible: "list_all visible_ascii s \<Longrightarrow> runes s = map code s"
  by (simp add: runes_def rune_chunks_visible comp_def)
text \<open>Evaluation of text operations on visible ASCII text.\<close>

lemmas text_eval = TrimSpace_visible runes_visible visible_ascii_def

section \<open>Prefixes, suffixes, splitting, case, decimal numbers\<close>

definition HasPrefix :: "string \<Rightarrow> string \<Rightarrow> bool" where
  "HasPrefix s p \<longleftrightarrow> take (length p) s = p"

definition HasSuffix :: "string \<Rightarrow> string \<Rightarrow> bool" where
  "HasSuffix s p \<longleftrightarrow> length p \<le> length s \<and> drop (length s - length p) s = p"

definition TrimPrefix :: "string \<Rightarrow> string \<Rightarrow> string" where
  "TrimPrefix s p = (if HasPrefix s p then drop (length p) s else s)"

definition TrimSuffix :: "string \<Rightarrow> string \<Rightarrow> string" where
  "TrimSuffix s p = (if HasSuffix s p then take (length s - length p) s else s)"

text \<open>\<^verbatim>\<open>strings.TrimRight\<close> with a cutset of one ASCII character.\<close>

definition TrimRight :: "string \<Rightarrow> char \<Rightarrow> string" where
  "TrimRight s c = rev (dropWhile (\<lambda>x. x = c) (rev s))"

fun Contains :: "string \<Rightarrow> string \<Rightarrow> bool" where
  "Contains [] sub \<longleftrightarrow> sub = []"
| "Contains (c # s) sub \<longleftrightarrow> HasPrefix (c # s) sub \<or> Contains s sub"

text \<open>\<^verbatim>\<open>strings.ContainsAny\<close> with an ASCII character set.\<close>

definition ContainsAny :: "string \<Rightarrow> string \<Rightarrow> bool" where
  "ContainsAny s chars \<longleftrightarrow> list_ex (\<lambda>c. c \<in> set chars) s"

text \<open>\<^verbatim>\<open>strings.Split\<close> and \<^verbatim>\<open>strings.SplitSeq\<close> with a separator of one character.\<close>

fun Split :: "string \<Rightarrow> char \<Rightarrow> string list" where
  "Split [] sep = [[]]"
| "Split (c # s) sep =
     (if c = sep then [] # Split s sep
      else (case Split s sep of [] \<Rightarrow> [[c]] | w # ws \<Rightarrow> (c # w) # ws))"

definition is_ascii :: "string \<Rightarrow> bool" where
  "is_ascii s \<longleftrightarrow> list_all (\<lambda>c. code c < 128) s"

definition lower_char :: "char \<Rightarrow> char" where
  "lower_char c = (if 65 \<le> code c \<and> code c \<le> 90 then char_of (code c + 32) else c)"

definition ToLower :: "(string \<Rightarrow> string) \<Rightarrow> string \<Rightarrow> string" where
  "ToLower ul s = (if is_ascii s then map lower_char s else ul s)"

text \<open>\<^verbatim>\<open>strconv.Itoa\<close> and \<^verbatim>\<open>strconv.FormatUint\<close> in base 10, on the non-negative numbers the source prints.\<close>

function FormatUint :: "nat \<Rightarrow> string" where
  "FormatUint n = (if n < 10 then [char_of (48 + n)] else FormatUint (n div 10) @ [char_of (48 + n mod 10)])"
  by pat_completeness auto
termination
  by (relation "measure id") auto

declare FormatUint.simps [simp del]

lemma Split_not_Nil [simp]: "Split s sep \<noteq> []"
  by (induction s) (auto split: list.splits)

lemma Split_append_sep: "sep \<notin> set u \<Longrightarrow> Split (u @ sep # v) sep = u # Split v sep"
  by (induction u) (auto split: list.splits)

lemma Split_no_sep: "sep \<notin> set u \<Longrightarrow> Split u sep = [u]"
  by (induction u) auto

lemma Split_words: "w \<in> set (Split s sep) \<Longrightarrow> sep \<notin> set w"
  by (induction s arbitrary: w) (fastforce split: list.splits if_splits)+

text \<open>The words of a string, joined by the separator again, give the string back.\<close>

fun join_with :: "char \<Rightarrow> string list \<Rightarrow> string" where
  "join_with sep [] = []"
| "join_with sep [w] = w"
| "join_with sep (w # v # ws) = w @ sep # join_with sep (v # ws)"

lemma join_with_Cons: "ws \<noteq> [] \<Longrightarrow> join_with sep (w # ws) = w @ sep # join_with sep ws"
  by (cases ws) auto

lemma join_Split: "join_with sep (Split s sep) = s"
proof (induction s)
  case (Cons c s)
  obtain w ws where "Split s sep = w # ws" by (cases "Split s sep") auto
  with Cons show ?case by (cases ws) auto
qed simp

definition FormatInt :: "int \<Rightarrow> string" where
  "FormatInt i = (if i < 0 then ''-'' @ FormatUint (nat (- i)) else FormatUint (nat i))"

definition ContainsControl :: "string \<Rightarrow> bool" where
  "ContainsControl s \<longleftrightarrow> list_ex (\<lambda>r. r < 32 \<or> r = 127) (runes s)"

definition NormalizeUsername :: "(string \<Rightarrow> string) \<Rightarrow> string \<Rightarrow> string" where
  "NormalizeUsername ul s = ToLower ul (TrimSpace s)"

definition ContainsParentPathComponent :: "string \<Rightarrow> bool" where
  "ContainsParentPathComponent s \<longleftrightarrow> list_ex (\<lambda>c. c = ''..'') (Split s CHR ''/'')"

lemma ContainsControl_bytes:
  "ContainsControl s \<longleftrightarrow> list_ex (\<lambda>c. code c < 32 \<or> code c = 127) s"
  unfolding ContainsControl_def by (rule list_ex_runes_iff) auto

lemma lower_char_idem [simp]: "lower_char (lower_char c) = lower_char c"
  by (auto simp: lower_char_def)

lemma code_lower_char: "code c < 128 \<Longrightarrow> code (lower_char c) < 128"
  by (auto simp: lower_char_def)

lemma ToLower_ascii_idem: "is_ascii s \<Longrightarrow> ToLower ul (ToLower ul s) = ToLower ul s"
proof -
  assume a: "is_ascii s"
  then have "is_ascii (map lower_char s)"
    by (auto simp: is_ascii_def list_all_iff code_lower_char)
  then show ?thesis using a by (simp add: ToLower_def)
qed

section \<open>Hexadecimal text\<close>

text \<open>\<^verbatim>\<open>hex.EncodeToString\<close> and \<^verbatim>\<open>hex.DecodeString\<close> (which accepts both cases of the digits a to f).\<close>

definition hexDigit :: "nat \<Rightarrow> char" where
  "hexDigit n = char_of (if n < 10 then 48 + n else 87 + n)"

definition hexVal :: "char \<Rightarrow> nat option" where
  "hexVal c =
     (if 48 \<le> code c \<and> code c \<le> 57 then Some (code c - 48)
      else if 97 \<le> code c \<and> code c \<le> 102 then Some (code c - 87)
      else if 65 \<le> code c \<and> code c \<le> 70 then Some (code c - 55)
      else None)"

definition hexByte :: "byte \<Rightarrow> string" where
  "hexByte b = [hexDigit (unat b div 16), hexDigit (unat b mod 16)]"

definition hexEncode :: "bytes \<Rightarrow> string" where
  "hexEncode bs = concat (map hexByte bs)"

fun hexDecode :: "string \<Rightarrow> bytes option" where
  "hexDecode [] = Some []"
| "hexDecode [c] = None"
| "hexDecode (c # d # s) =
     (case (hexVal c, hexVal d, hexDecode s) of
        (Some x, Some y, Some bs) \<Rightarrow> Some (of_nat (x * 16 + y) # bs)
      | _ \<Rightarrow> None)"

lemma hexVal_hexDigit: "n < 16 \<Longrightarrow> hexVal (hexDigit n) = Some n"
  by (auto simp: hexVal_def hexDigit_def)

lemma hexDecode_hexEncode: "hexDecode (hexEncode bs) = Some bs"
proof (induction bs)
  case (Cons b bs)
  have "unat b div 16 < 16" using unat_byte_less [of b] by linarith
  then have "hexVal (hexDigit (unat b div 16)) = Some (unat b div 16)" by (rule hexVal_hexDigit)
  moreover have "hexVal (hexDigit (unat b mod 16)) = Some (unat b mod 16)"
    by (rule hexVal_hexDigit) simp
  moreover have "of_nat (unat b div 16 * 16 + unat b mod 16) = b" by simp
  ultimately show ?case using Cons by (simp add: hexEncode_def hexByte_def del: of_nat_add of_nat_mult)
qed (simp add: hexEncode_def)

lemma length_hexEncode [simp]: "length (hexEncode bs) = 2 * length bs"
  by (induction bs) (auto simp: hexEncode_def hexByte_def)

lemma hexDecode_length: "hexDecode s = Some bs \<Longrightarrow> length s = 2 * length bs"
  by (induction s arbitrary: bs rule: hexDecode.induct) (auto split: option.splits prod.splits)

section \<open>Unpadded URL-safe base64\<close>

text \<open>
  \<^verbatim>\<open>base64.RawURLEncoding\<close>. The decoder skips line breaks, as Go's decoder does, and in strict mode
  refuses non-zero trailing bits.
\<close>

definition b64Digit :: "nat \<Rightarrow> char" where
  "b64Digit n = char_of (if n < 26 then 65 + n else if n < 52 then 71 + n else if n < 62 then n - 4
     else if n = 62 then 45 else 95)"

definition b64Val :: "char \<Rightarrow> nat option" where
  "b64Val c =
     (if 65 \<le> code c \<and> code c \<le> 90 then Some (code c - 65)
      else if 97 \<le> code c \<and> code c \<le> 122 then Some (code c - 71)
      else if 48 \<le> code c \<and> code c \<le> 57 then Some (code c + 4)
      else if code c = 45 then Some 62
      else if code c = 95 then Some 63
      else None)"

fun sextets :: "nat list \<Rightarrow> nat list" where
  "sextets [] = []"
| "sextets [a] = [a div 4, a mod 4 * 16]"
| "sextets [a, b] = [a div 4, a mod 4 * 16 + b div 16, b mod 16 * 4]"
| "sextets (a # b # c # r) = [a div 4, a mod 4 * 16 + b div 16, b mod 16 * 4 + c div 64, c mod 64] @ sextets r"

fun octets :: "nat list \<Rightarrow> nat list option" where
  "octets [] = Some []"
| "octets [s] = None"
| "octets [s, t] = (if t mod 16 \<noteq> 0 then None else Some [s * 4 + t div 16])"
| "octets [s, t, u] = (if u mod 4 \<noteq> 0 then None else Some [s * 4 + t div 16, t mod 16 * 16 + u div 4])"
| "octets (s # t # u # v # r) =
     (case octets r of None \<Rightarrow> None
      | Some bs \<Rightarrow> Some ([s * 4 + t div 16, t mod 16 * 16 + u div 4, u mod 4 * 64 + v] @ bs))"

definition b64Encode :: "bytes \<Rightarrow> string" where
  "b64Encode bs = map b64Digit (sextets (map unat bs))"

fun b64Vals :: "string \<Rightarrow> nat list option" where
  "b64Vals [] = Some []"
| "b64Vals (c # s) =
     (if c = CHR 0x0A \<or> c = CHR 0x0D then b64Vals s
      else case (b64Val c, b64Vals s) of (Some v, Some vs) \<Rightarrow> Some (v # vs) | _ \<Rightarrow> None)"

definition b64Decode :: "string \<Rightarrow> bytes option" where
  "b64Decode s = (case b64Vals s of None \<Rightarrow> None | Some vs \<Rightarrow> map_option (map of_nat) (octets vs))"

lemma b64Val_b64Digit: "n < 64 \<Longrightarrow> b64Val (b64Digit n) = Some n"
  by (auto simp: b64Val_def b64Digit_def)

lemma b64Digit_no_break: "n < 64 \<Longrightarrow> b64Digit n \<noteq> CHR 0x0A \<and> b64Digit n \<noteq> CHR 0x0D"
  using b64Val_b64Digit [of n] by (auto simp: b64Val_def)

lemma sextets_less: "list_all (\<lambda>b. b < 256) bs \<Longrightarrow> list_all (\<lambda>s. s < 64) (sextets bs)"
  by (induction bs rule: sextets.induct) auto

lemma octets_sextets: "list_all (\<lambda>b. b < 256) bs \<Longrightarrow> octets (sextets bs) = Some bs"
proof (induction bs rule: sextets.induct)
  case (4 a b c r)
  have "a div 4 * 4 + (a mod 4 * 16 + b div 16) div 16 = a" using 4(2) by auto
  moreover have "(a mod 4 * 16 + b div 16) mod 16 * 16 + (b mod 16 * 4 + c div 64) div 4 = b"
    using 4(2) by auto
  moreover have "(b mod 16 * 4 + c div 64) mod 4 * 64 + c mod 64 = c" using 4(2) by auto
  ultimately show ?case using 4 by simp
qed auto

lemma b64Vals_map: "list_all (\<lambda>s. s < 64) vs \<Longrightarrow> b64Vals (map b64Digit vs) = Some vs"
  by (induction vs) (auto simp: b64Val_b64Digit b64Digit_no_break)

lemma b64Decode_b64Encode [simp]: "b64Decode (b64Encode bs) = Some bs"
proof -
  have all: "list_all (\<lambda>b. b < 256) (map unat bs)" by (simp add: list_all_iff)
  then have "b64Vals (b64Encode bs) = Some (sextets (map unat bs))"
    by (simp add: b64Encode_def b64Vals_map sextets_less)
  then show ?thesis using all by (simp add: b64Decode_def octets_sextets comp_def)
qed

lemma b64Encode_visible: "list_all (\<lambda>c. visible_ascii c \<and> c \<noteq> CHR ''.'') (b64Encode bs)"
proof -
  have "list_all (\<lambda>s. s < 64) (sextets (map unat bs))"
    by (rule sextets_less) (simp add: list_all_iff)
  moreover have "visible_ascii (b64Digit n) \<and> b64Digit n \<noteq> CHR ''.''" if "n < 64" for n
    using b64Val_b64Digit [OF that] by (auto simp: b64Val_def visible_ascii_def split: if_splits)
  ultimately show ?thesis by (auto simp: b64Encode_def list_all_iff)
qed

lemma length_sextets: "length (sextets bs) \<le> 2 * length bs \<and> (bs \<noteq> [] \<longrightarrow> length bs < length (sextets bs))"
  by (induction bs rule: sextets.induct) auto

lemma b64Encode_nonempty: "bs \<noteq> [] \<Longrightarrow> b64Encode bs \<noteq> ''''"
  using length_sextets [of "map unat bs"] by (auto simp: b64Encode_def)

end
