(* ===== verification/Streamframe.thy ===== *)
theory Streamframe
  imports FrameCodec GoText
begin

text \<open>
  The multiplexed frame layout of \<^verbatim>\<open>internal/protocol/streamframe/frame.go\<close> and the two contracts
  built on it, \<^verbatim>\<open>internal/protocol/exchangestream/protocol.go\<close> and
  \<^verbatim>\<open>internal/protocol/mirrorstream/protocol.go\<close>: a 14-byte header (type, stream, service port,
  protocol) followed by the payload.
\<close>

section \<open>Frames\<close>

definition sfReady :: byte where "sfReady = 1"
definition sfOpen :: byte where "sfOpen = 2"
definition sfData :: byte where "sfData = 3"
definition sfCloseWrite :: byte where "sfCloseWrite = 4"
definition sfClose :: byte where "sfClose = 5"
definition sfDatagram :: byte where "sfDatagram = 6"
definition sfStop :: byte where "sfStop = 7"
definition ProtocolTCP :: byte where "ProtocolTCP = 1"
definition ProtocolUDP :: byte where "ProtocolUDP = 2"
definition sfMaximumData :: nat where "sfMaximumData = 262144"
definition sfMaximumError :: nat where "sfMaximumError = 4096"
definition sfMaximumDatagram :: nat where "sfMaximumDatagram = 65507"
definition headerSize :: nat where "headerSize = 14"

lemmas sf_types = sfReady_def sfOpen_def sfData_def sfCloseWrite_def sfClose_def sfDatagram_def
  sfStop_def ProtocolTCP_def ProtocolUDP_def
lemmas sf_limits = sfMaximumData_def sfMaximumError_def sfMaximumDatagram_def headerSize_def

record stream_frame =
  Type :: byte
  StreamID :: "64 word"
  ServicePort :: "32 word"
  Protocol :: byte
  Payload :: bytes

definition validControlFrame :: "stream_frame \<Rightarrow> bool \<Rightarrow> bool" where
  "validControlFrame f streamRequired \<longleftrightarrow> (StreamID f \<noteq> 0) = streamRequired \<and> ServicePort f = 0 \<and>
     Protocol f = 0 \<and> length (Payload f) = 0"

definition validPayloadFrame :: "stream_frame \<Rightarrow> nat \<Rightarrow> bool" where
  "validPayloadFrame f maximum \<longleftrightarrow> StreamID f \<noteq> 0 \<and> ServicePort f = 0 \<and> Protocol f = 0 \<and>
     length (Payload f) > 0 \<and> length (Payload f) \<le> maximum"

definition validTerminalFrame :: "stream_frame \<Rightarrow> bool \<Rightarrow> bool" where
  "validTerminalFrame f streamRequired \<longleftrightarrow> (StreamID f \<noteq> 0) = streamRequired \<and> ServicePort f = 0 \<and>
     Protocol f = 0 \<and> length (Payload f) \<le> sfMaximumError"

text \<open>\<^verbatim>\<open>Codec.Validate\<close>; the codec's only field, its name, is the first argument.\<close>

definition sfValidate :: "string \<Rightarrow> stream_frame \<Rightarrow> error + unit" where
  "sfValidate name f =
     (let invalid = (\<lambda>kind. name @ '' '' @ kind @ '' frame is invalid'') in
      if Type f = sfReady then checkE (validControlFrame f False) (invalid ''ready'')
      else if Type f = sfOpen then
        checkE (StreamID f \<noteq> 0 \<and> ServicePort f \<noteq> 0 \<and> Protocol f = ProtocolTCP \<and>
          length (Payload f) = 0) (invalid ''open'')
      else if Type f = sfData then checkE (validPayloadFrame f sfMaximumData) (invalid ''data'')
      else if Type f = sfCloseWrite then checkE (validControlFrame f True) (invalid ''half-close'')
      else if Type f = sfClose then checkE (validTerminalFrame f True) (invalid ''close'')
      else if Type f = sfDatagram then
        checkE (StreamID f \<noteq> 0 \<and> ServicePort f \<noteq> 0 \<and> Protocol f = ProtocolUDP \<and>
          length (Payload f) > 0 \<and> length (Payload f) \<le> sfMaximumDatagram) (invalid ''datagram'')
      else if Type f = sfStop then checkE (validTerminalFrame f False) (invalid ''stop'')
      else Inl (''unsupported '' @ name @ '' frame type '' @ FormatUint (unat (Type f))))"

definition sfEncode :: "string \<Rightarrow> stream_frame \<Rightarrow> error + bytes" where
  "sfEncode name f =
     bindE (sfValidate name f) (\<lambda>_.
       Inr ([Type f] @ put_uint 8 (StreamID f) @ put_uint 4 (ServicePort f) @ [Protocol f] @
         Payload f))"

definition sfDecode :: "string \<Rightarrow> bytes \<Rightarrow> error + stream_frame" where
  "sfDecode name encoded =
     (if length encoded < headerSize then Inl (name @ '' frame is truncated'')
      else let f = \<lparr> Type = encoded ! 0,
                     StreamID = get_uint (take 8 (drop 1 encoded)),
                     ServicePort = get_uint (take 4 (drop 9 encoded)),
                     Protocol = encoded ! 13,
                     Payload = drop headerSize encoded \<rparr>
           in bindE (sfValidate name f) (\<lambda>_. Inr f))"

section \<open>The codec keeps its contract\<close>

definition sf_header :: "stream_frame \<Rightarrow> bytes" where
  "sf_header f = [Type f] @ put_uint 8 (StreamID f) @ put_uint 4 (ServicePort f) @ [Protocol f]"

lemma length_sf_header [simp]: "length (sf_header f) = headerSize"
  by (simp add: sf_header_def headerSize_def)

lemma sfEncode_header: "sfEncode name f = Inr bs \<longleftrightarrow> sfValidate name f = Inr () \<and> bs = sf_header f @ Payload f"
  by (auto simp: sfEncode_def sf_header_def bindE_eq_Inr)

text \<open>A list of at least 14 bytes splits into the header fields and the payload.\<close>

lemma take_drop_split:
  assumes "headerSize \<le> length bs"
  shows "bs = [bs ! 0] @ take 8 (drop 1 bs) @ take 4 (drop 9 bs) @ [bs ! 13] @ drop headerSize bs"
proof -
  obtain a b c d e where bs: "bs = a @ b @ c @ d @ e" and
    len: "length a = 1" "length b = 8" "length c = 4" "length d = 1"
  proof
    show "bs = take 1 bs @ take 8 (drop 1 bs) @ take 4 (drop 9 bs) @ take 1 (drop 13 bs) @ drop 14 bs"
      using drop_split [of 0 bs 1] drop_split [of 1 bs 8] drop_split [of 9 bs 4]
        drop_split [of 13 bs 1] by simp
  qed (use assms in \<open>auto simp: headerSize_def\<close>)
  obtain x y where "a = [x]" "d = [y]" using len by (auto simp: length_Suc_conv)
  with bs len show ?thesis by (simp add: headerSize_def nth_append)
qed

lemma decoded_header:
  assumes "headerSize \<le> length bs"
  shows "sf_header \<lparr> Type = bs ! 0, StreamID = get_uint (take 8 (drop 1 bs)),
      ServicePort = get_uint (take 4 (drop 9 bs)), Protocol = bs ! 13,
      Payload = drop headerSize bs \<rparr> @ drop headerSize bs = bs"
proof -
  have "length (take 8 (drop 1 bs)) = 8" "length (take 4 (drop 9 bs)) = 4"
    using assms by (auto simp: headerSize_def)
  then show ?thesis using take_drop_split [OF assms] by (simp add: sf_header_def)
qed

lemma sfDecode_sf_header:
  "sfDecode name (sf_header f @ Payload f) = bindE (sfValidate name f) (\<lambda>_. Inr f)"
proof -
  have "\<lparr> Type = (sf_header f @ Payload f) ! 0,
      StreamID = get_uint (take 8 (drop 1 (sf_header f @ Payload f))),
      ServicePort = get_uint (take 4 (drop 9 (sf_header f @ Payload f))),
      Protocol = (sf_header f @ Payload f) ! 13,
      Payload = drop headerSize (sf_header f @ Payload f) \<rparr> = f"
    by (cases f) (simp add: sf_header_def headerSize_def nth_append)
  then show ?thesis by (simp add: sfDecode_def)
qed

lemma sfDecode_Inr:
  assumes "sfDecode name bs = Inr f"
  shows "sfValidate name f = Inr () \<and> bs = sf_header f @ Payload f"
proof -
  have len: "headerSize \<le> length bs" using assms by (auto simp: sfDecode_def split: if_splits)
  then show ?thesis using assms decoded_header [OF len]
    by (auto simp: sfDecode_def Let_def bindE_eq_Inr)
qed

interpretation sf: frame_codec "sfEncode name" "sfDecode name" "\<lambda>f. sfValidate name f = Inr ()" for name
  by unfold_locales
     (auto simp: sfEncode_header sfDecode_sf_header dest: sfDecode_Inr)

section \<open>The exchange and mirror contracts\<close>

definition exchangeEncode :: "stream_frame \<Rightarrow> error + bytes" where
  "exchangeEncode f = sfEncode ''exchange'' f"

definition exchangeDecode :: "bytes \<Rightarrow> error + stream_frame" where
  "exchangeDecode encoded = bindE (sfDecode ''exchange'' encoded) Inr"

definition mirrorEncode :: "stream_frame \<Rightarrow> error + bytes" where
  "mirrorEncode f = sfEncode ''mirror'' f"

definition mirrorDecode :: "bytes \<Rightarrow> error + stream_frame" where
  "mirrorDecode encoded = bindE (sfDecode ''mirror'' encoded) Inr"

lemma bindE_Inr [simp]: "bindE r Inr = r"
  by (cases r) auto

interpretation exchange: frame_codec exchangeEncode exchangeDecode "\<lambda>f. sfValidate ''exchange'' f = Inr ()"
  unfolding exchangeEncode_def [abs_def] exchangeDecode_def [abs_def] bindE_Inr
  by (rule sf.frame_codec_axioms)

interpretation mirror: frame_codec mirrorEncode mirrorDecode "\<lambda>f. sfValidate ''mirror'' f = Inr ()"
  unfolding mirrorEncode_def [abs_def] mirrorDecode_def [abs_def] bindE_Inr
  by (rule sf.frame_codec_axioms)

section \<open>Properties\<close>

text \<open>C32. Decoding a byte string with a stream-frame codec yields a frame exactly when encoding that
  frame yields the byte string, and a frame can be encoded exactly when it is valid: the wire format
  is a bijection between valid frames and accepted byte strings.\<close>

theorem stream_frame_wire_bijection:
  "(sfDecode name bs = Inr f \<longleftrightarrow> sfEncode name f = Inr bs) \<and>
   ((\<exists>cs. sfEncode name f = Inr cs) \<longleftrightarrow> sfValidate name f = Inr ())"
  using sf.dec_iff sf.enc_ok_iff by blast

text \<open>A sequence of valid frames written with the exchange or the mirror contract, frame by frame,
  is read back as the same sequence.\<close>

theorem relay_frames_roundtrip:
  assumes "list_all (\<lambda>f. sfValidate name f = Inr ()) fs"
  shows "bindE (mapE exchangeEncode fs) (mapE exchangeDecode) = Inr fs \<and>
         bindE (mapE mirrorEncode fs) (mapE mirrorDecode) = Inr fs"
proof -
  have "sfValidate a f = Inr () \<longleftrightarrow> sfValidate b f = Inr ()" for a b f
    by (simp add: sfValidate_def Let_def)
  then have "list_all (\<lambda>f. sfValidate ''exchange'' f = Inr ()) fs"
    "list_all (\<lambda>f. sfValidate ''mirror'' f = Inr ()) fs"
    using assms by (auto simp: list_all_iff)
  then show ?thesis using exchange.sequence_roundtrip mirror.sequence_roundtrip by blast
qed

theorem relay_frames_roundtrip_witness:
  "bindE (mapE exchangeEncode [\<lparr>Type = 2, StreamID = 7, ServicePort = 80, Protocol = 1, Payload = []\<rparr>,
       \<lparr>Type = 3, StreamID = 7, ServicePort = 0, Protocol = 0, Payload = [1, 2]\<rparr>]) (mapE exchangeDecode)
     = Inr [\<lparr>Type = 2, StreamID = 7, ServicePort = 80, Protocol = 1, Payload = []\<rparr>,
       \<lparr>Type = 3, StreamID = 7, ServicePort = 0, Protocol = 0, Payload = [1, 2]\<rparr>]"
proof -
  let ?fs = "[\<lparr>Type = 2, StreamID = 7, ServicePort = 80, Protocol = 1, Payload = []\<rparr>,
       \<lparr>Type = 3, StreamID = 7, ServicePort = 0, Protocol = 0, Payload = [1, 2]\<rparr>]"
  have "list_all (\<lambda>f. sfValidate ''exchange'' f = Inr ()) ?fs"
    by (simp add: sfValidate_def sf_types sf_limits validPayloadFrame_def)
  then show ?thesis using relay_frames_roundtrip [of "''exchange''" ?fs] by blast
qed

text \<open>Every frame on the wire is at least the 14-byte header and at most the header and the 256 KiB
  data limit; a frame that belongs to a stream (open, data, half-close, close, datagram) carries a non-zero
  stream identifier, and only open and datagram frames carry a service port.\<close>

theorem stream_frame_wire_bounds:
  assumes "sfDecode name bs = Inr f"
  shows "headerSize \<le> length bs \<and> length bs \<le> headerSize + sfMaximumData \<and>
    (StreamID f = 0 \<longleftrightarrow> Type f = sfReady \<or> Type f = sfStop) \<and>
    (ServicePort f \<noteq> 0 \<longleftrightarrow> Type f = sfOpen \<or> Type f = sfDatagram)"
  using sfDecode_Inr [OF assms]
  by (auto simp: sfValidate_def Let_def validControlFrame_def validPayloadFrame_def
      validTerminalFrame_def sf_types sf_limits split: if_splits)

theorem stream_frame_wire_bounds_witness:
  "headerSize \<le> length ([7, 0,0,0,0,0,0,0,0, 0,0,0,0, 0, 33] :: bytes) \<and>
   StreamID \<lparr>Type = 7, StreamID = 0, ServicePort = 0, Protocol = 0, Payload = [33]\<rparr> = 0"
proof -
  let ?f = "\<lparr>Type = 7, StreamID = 0, ServicePort = 0, Protocol = 0, Payload = [33]\<rparr> :: stream_frame"
  have "sfDecode ''exchange'' [7, 0,0,0,0,0,0,0,0, 0,0,0,0, 0, 33] = Inr ?f"
    by (simp add: sfDecode_def headerSize_def get_uint_def be_val_def sfValidate_def sf_types
        sf_limits validTerminalFrame_def)
  from stream_frame_wire_bounds [OF this] show ?thesis by simp
qed

end
