(* ===== verification/Execstream.thy ===== *)
theory Execstream
  imports FrameCodec GoText
begin

text \<open>
  The exec stream of \<^verbatim>\<open>internal/protocol/execstream/protocol.go\<close>: typed frames with a size limit,
  the terminal resize payload and the exit status payload.
\<close>

section \<open>Frames\<close>

definition exStdin :: byte where "exStdin = 1"
definition exStdout :: byte where "exStdout = 2"
definition exStderr :: byte where "exStderr = 3"
definition exResize :: byte where "exResize = 4"
definition exCloseStdin :: byte where "exCloseStdin = 5"
definition exExit :: byte where "exExit = 6"
definition exMaximumPayload :: nat where "exMaximumPayload = 1048576"
definition exMaximumError :: nat where "exMaximumError = 4096"

lemmas ex_types = exStdin_def exStdout_def exStderr_def exResize_def exCloseStdin_def exExit_def
lemmas ex_limits = exMaximumPayload_def exMaximumError_def

record exec_frame =
  ex_Type :: byte
  ex_Payload :: bytes

record TerminalSize =
  Width :: "16 word"
  Height :: "16 word"

record ExitStatus =
  Code :: "32 word"
  Cancelled :: bool
  ExitError :: string

definition exValidate :: "exec_frame \<Rightarrow> error + unit" where
  "exValidate f =
     (if length (ex_Payload f) > exMaximumPayload then Inl ''exec frame exceeds 1 MiB''
      else if ex_Type f = exStdin \<or> ex_Type f = exStdout \<or> ex_Type f = exStderr then
        (if length (ex_Payload f) = 0 then Inl ''exec data frame is empty'' else Inr ())
      else if ex_Type f = exResize then
        (if length (ex_Payload f) \<noteq> 4 then Inl ''terminal resize payload must be four bytes'' else Inr ())
      else if ex_Type f = exCloseStdin then
        (if length (ex_Payload f) \<noteq> 0 then Inl ''close-stdin frame must be empty'' else Inr ())
      else if ex_Type f = exExit then
        (if length (ex_Payload f) < 5 then Inl ''exec exit payload is incomplete'' else Inr ())
      else Inl (''unsupported exec frame type '' @ FormatUint (unat (ex_Type f))))"

definition exEncode :: "exec_frame \<Rightarrow> error + bytes" where
  "exEncode f = bindE (exValidate f) (\<lambda>_. Inr (ex_Type f # ex_Payload f))"

definition exDecode :: "bytes \<Rightarrow> error + exec_frame" where
  "exDecode encoded =
     (case encoded of
        [] \<Rightarrow> Inl ''exec frame is empty''
      | t # payload \<Rightarrow>
          let f = \<lparr>ex_Type = t, ex_Payload = payload\<rparr> in bindE (exValidate f) (\<lambda>_. Inr f))"

definition EncodeResize :: "TerminalSize \<Rightarrow> error + bytes" where
  "EncodeResize sz =
     (if Width sz = 0 \<or> Height sz = 0 then Inl ''terminal width and height are required''
      else exEncode \<lparr>ex_Type = exResize, ex_Payload = put_uint 2 (Width sz) @ put_uint 2 (Height sz)\<rparr>)"

definition DecodeResize :: "exec_frame \<Rightarrow> error + TerminalSize" where
  "DecodeResize f =
     (if ex_Type f \<noteq> exResize \<or> length (ex_Payload f) \<noteq> 4 then Inl ''invalid terminal resize frame''
      else let sz = \<lparr>Width = get_uint (take 2 (ex_Payload f)),
                       Height = get_uint (take 2 (drop 2 (ex_Payload f)))\<rparr>
           in if Width sz = 0 \<or> Height sz = 0 then Inl ''terminal width and height are required''
              else Inr sz)"

definition EncodeExit :: "ExitStatus \<Rightarrow> error + bytes" where
  "EncodeExit status =
     (let message = (if length (ExitError status) > exMaximumError
                     then take exMaximumError (ExitError status) else ExitError status)
      in exEncode \<lparr>ex_Type = exExit,
                   ex_Payload = put_uint 4 (Code status) @ [if Cancelled status then 1 else 0] @
                     bytes_of_str message\<rparr>)"

definition DecodeExit :: "exec_frame \<Rightarrow> error + ExitStatus" where
  "DecodeExit f =
     (if ex_Type f \<noteq> exExit \<or> length (ex_Payload f) < 5 \<or>
         length (ex_Payload f) - 5 > exMaximumError \<or> ex_Payload f ! 4 > 1
      then Inl ''invalid exec exit frame''
      else Inr \<lparr>Code = get_uint (take 4 (ex_Payload f)), Cancelled = (ex_Payload f ! 4 = 1),
                ExitError = str_of_bytes (drop 5 (ex_Payload f))\<rparr>)"

section \<open>The codec keeps its contract\<close>

lemma exEncode_Inr: "exEncode f = Inr bs \<longleftrightarrow> exValidate f = Inr () \<and> bs = ex_Type f # ex_Payload f"
  by (auto simp: exEncode_def bindE_eq_Inr)

lemma exDecode_Inr: "exDecode bs = Inr f \<longleftrightarrow> exValidate f = Inr () \<and> bs = ex_Type f # ex_Payload f"
  by (cases bs; cases f) (auto simp: exDecode_def bindE_eq_Inr Let_def)

interpretation ex: frame_codec exEncode exDecode "\<lambda>f. exValidate f = Inr ()"
  by unfold_locales (auto simp: exEncode_Inr exDecode_Inr)

lemma EncodeExit_Inr:
  "EncodeExit status = exEncode \<lparr>ex_Type = exExit, ex_Payload = put_uint 4 (Code status) @
     [if Cancelled status then 1 else 0] @ bytes_of_str (take exMaximumError (ExitError status))\<rparr>"
  by (simp add: EncodeExit_def Let_def)

section \<open>Properties\<close>

text \<open>A terminal size with both dimensions positive survives encoding, the wire and decoding; a size
  with a zero dimension is refused by the encoder.\<close>

theorem resize_roundtrip:
  "bindE (bindE (EncodeResize sz) exDecode) DecodeResize =
     (if Width sz = 0 \<or> Height sz = 0 then Inl ''terminal width and height are required''
      else Inr sz)"
proof (cases "Width sz = 0 \<or> Height sz = 0")
  case True
  then show ?thesis by (simp add: EncodeResize_def)
next
  case False
  let ?f = "\<lparr>ex_Type = exResize, ex_Payload = put_uint 2 (Width sz) @ put_uint 2 (Height sz)\<rparr>"
  have "exValidate ?f = Inr ()" by (simp add: exValidate_def ex_types ex_limits)
  then have "bindE (exEncode ?f) exDecode = Inr ?f" by (rule ex.roundtrip)
  then show ?thesis using False by (simp add: EncodeResize_def DecodeResize_def)
qed

text \<open>An exit status survives encoding, the wire and decoding, with its message cut to the first 4096
  bytes: the code and the cancellation flag are never lost, whatever the message.\<close>

theorem exit_status_roundtrip:
  "bindE (bindE (EncodeExit status) exDecode) DecodeExit =
     Inr (status\<lparr>ExitError := take exMaximumError (ExitError status)\<rparr>)"
proof -
  let ?f = "\<lparr>ex_Type = exExit, ex_Payload = put_uint 4 (Code status) @
     [if Cancelled status then 1 else 0] @ bytes_of_str (take exMaximumError (ExitError status))\<rparr>"
  have "exValidate ?f = Inr ()" by (simp add: exValidate_def ex_types ex_limits)
  then have "bindE (exEncode ?f) exDecode = Inr ?f" by (rule ex.roundtrip)
  moreover have "DecodeExit ?f = Inr (status\<lparr>ExitError := take exMaximumError (ExitError status)\<rparr>)"
    by (cases status) (simp add: DecodeExit_def nth_append exMaximumError_def)
  ultimately show ?thesis by (simp add: EncodeExit_Inr)
qed

end
