(* ===== verification/Filestream.thy ===== *)
theory Filestream
  imports FrameCodec GoText
begin

text \<open>
  The file transfer stream of \<^verbatim>\<open>internal/protocol/filestream/protocol.go\<close>: typed frames, the progress
  payload, the result payload with its optional SHA-256 checksum, and the checksum's text form. The Go
  type \<^verbatim>\<open>[32]byte\<close> is a list of 32 bytes.
\<close>

section \<open>Frames\<close>

definition ftData :: byte where "ftData = 1"
definition ftComplete :: byte where "ftComplete = 2"
definition ftProgress :: byte where "ftProgress = 3"
definition ftResult :: byte where "ftResult = 4"
definition ftCancel :: byte where "ftCancel = 5"
definition ResultSucceeded :: byte where "ResultSucceeded = 0"
definition ResultFailed :: byte where "ResultFailed = 1"
definition ResultCancelled :: byte where "ResultCancelled = 2"
definition ftMaximumData :: nat where "ftMaximumData = 262144"
definition ftMaximumError :: nat where "ftMaximumError = 4096"
definition resultHeader :: nat where "resultHeader = 41"

lemmas ft_types = ftData_def ftComplete_def ftProgress_def ftResult_def ftCancel_def
  ResultSucceeded_def ResultFailed_def ResultCancelled_def
lemmas ft_limits = ftMaximumData_def ftMaximumError_def resultHeader_def

record file_frame =
  ft_Type :: byte
  ft_Payload :: bytes

record ProgressStatus =
  Transferred :: "64 word"
  Total :: "64 word"

record TransferResult =
  Status :: byte
  ResultTransferred :: "64 word"
  Checksum :: bytes
  HasChecksum :: bool
  ResultError :: string

definition ftValidate :: "file_frame \<Rightarrow> error + unit" where
  "ftValidate f =
     (if ft_Type f = ftData then
        checkE (\<not> (length (ft_Payload f) = 0 \<or> length (ft_Payload f) > ftMaximumData))
          (''file transfer data frame must contain 1 to '' @ FormatUint ftMaximumData @ '' bytes'')
      else if ft_Type f = ftComplete \<or> ft_Type f = ftCancel then
        checkE (length (ft_Payload f) = 0) ''file transfer control frame must be empty''
      else if ft_Type f = ftProgress then
        checkE (length (ft_Payload f) = 16) ''file transfer progress payload must be 16 bytes''
      else if ft_Type f = ftResult then
        checkE (\<not> (length (ft_Payload f) < resultHeader \<or>
                   length (ft_Payload f) - resultHeader > ftMaximumError))
          ''file transfer result payload is invalid''
      else Inl (''unsupported file transfer frame type '' @ FormatUint (unat (ft_Type f))))"

definition ftEncode :: "file_frame \<Rightarrow> error + bytes" where
  "ftEncode f = bindE (ftValidate f) (\<lambda>_. Inr (ft_Type f # ft_Payload f))"

definition ftDecode :: "bytes \<Rightarrow> error + file_frame" where
  "ftDecode encoded =
     (case encoded of
        [] \<Rightarrow> Inl ''file transfer frame is empty''
      | t # payload \<Rightarrow>
          let f = \<lparr>ft_Type = t, ft_Payload = payload\<rparr> in bindE (ftValidate f) (\<lambda>_. Inr f))"

definition EncodeProgress :: "ProgressStatus \<Rightarrow> error + bytes" where
  "EncodeProgress status =
     (if Total status \<noteq> 0 \<and> Transferred status > Total status then Inl ''file transfer progress is invalid''
      else ftEncode \<lparr>ft_Type = ftProgress,
                     ft_Payload = put_uint 8 (Transferred status) @ put_uint 8 (Total status)\<rparr>)"

definition DecodeProgress :: "file_frame \<Rightarrow> error + ProgressStatus" where
  "DecodeProgress f =
     (if ft_Type f \<noteq> ftProgress \<or> length (ft_Payload f) \<noteq> 16
      then Inl ''invalid file transfer progress frame''
      else let status = \<lparr>Transferred = get_uint (take 8 (ft_Payload f)),
                         Total = get_uint (take 8 (drop 8 (ft_Payload f)))\<rparr>
           in if Total status \<noteq> 0 \<and> Transferred status > Total status
              then Inl ''file transfer progress is invalid'' else Inr status)"

definition zeroChecksum :: bytes where "zeroChecksum = replicate 32 0"

definition EncodeResult :: "TransferResult \<Rightarrow> error + bytes" where
  "EncodeResult result =
     (if Status result > ResultCancelled then Inl ''file transfer result status is invalid''
      else let message = (if length (ResultError result) > ftMaximumError
                          then take ftMaximumError (ResultError result) else ResultError result)
           in if Status result = ResultSucceeded \<and> message \<noteq> ''''
              then Inl ''successful file transfer result cannot contain an error''
              else ftEncode \<lparr>ft_Type = ftResult,
                     ft_Payload = [Status result] @ put_uint 8 (ResultTransferred result) @
                       (if HasChecksum result then Checksum result else zeroChecksum) @
                       bytes_of_str message\<rparr>)"

definition DecodeResult :: "file_frame \<Rightarrow> error + TransferResult" where
  "DecodeResult f =
     (if ft_Type f \<noteq> ftResult \<or> length (ft_Payload f) < resultHeader \<or>
         length (ft_Payload f) - resultHeader > ftMaximumError
      then Inl ''invalid file transfer result frame''
      else let status = ft_Payload f ! 0;
               message = str_of_bytes (drop resultHeader (ft_Payload f));
               checksum = take 32 (drop 9 (ft_Payload f))
           in if status > ResultCancelled \<or> status = ResultSucceeded \<and> message \<noteq> ''''
              then Inl ''file transfer result status is invalid''
              else Inr \<lparr>Status = status,
                        ResultTransferred = get_uint (take 8 (drop 1 (ft_Payload f))),
                        Checksum = checksum, HasChecksum = list_ex (\<lambda>v. v \<noteq> 0) checksum,
                        ResultError = message\<rparr>)"

definition ParseChecksum :: "string \<Rightarrow> error + bytes" where
  "ParseChecksum value =
     (case hexDecode value of
        None \<Rightarrow> Inl ''SHA-256 checksum must contain 64 hexadecimal characters''
      | Some decoded \<Rightarrow>
          if length decoded \<noteq> 32 then Inl ''SHA-256 checksum must contain 64 hexadecimal characters''
          else Inr decoded)"

definition FormatChecksum :: "bytes \<Rightarrow> string" where
  "FormatChecksum checksum = hexEncode checksum"

section \<open>The codec keeps its contract\<close>

lemma ftEncode_Inr: "ftEncode f = Inr bs \<longleftrightarrow> ftValidate f = Inr () \<and> bs = ft_Type f # ft_Payload f"
  by (auto simp: ftEncode_def bindE_eq_Inr)

lemma ftDecode_Inr: "ftDecode bs = Inr f \<longleftrightarrow> ftValidate f = Inr () \<and> bs = ft_Type f # ft_Payload f"
  by (cases bs; cases f) (auto simp: ftDecode_def bindE_eq_Inr Let_def)

interpretation ft: frame_codec ftEncode ftDecode "\<lambda>f. ftValidate f = Inr ()"
  by unfold_locales (auto simp: ftEncode_Inr ftDecode_Inr)

definition result_payload :: "TransferResult \<Rightarrow> bytes" where
  "result_payload result = [Status result] @ put_uint 8 (ResultTransferred result) @
     (if HasChecksum result then Checksum result else zeroChecksum) @
     bytes_of_str (take ftMaximumError (ResultError result))"

definition wf_result :: "TransferResult \<Rightarrow> bool" where
  "wf_result result \<longleftrightarrow> length (Checksum result) = 32 \<and> Status result \<le> ResultCancelled \<and>
     (if Status result = ResultSucceeded then ResultError result = '''' else True)"

text \<open>What a receiver can know of a result: the message cut to its limit, and the checksum only when one
  was sent that is not all zero.\<close>

definition received_result :: "TransferResult \<Rightarrow> TransferResult" where
  "received_result result = result\<lparr>
     Checksum := (if HasChecksum result then Checksum result else zeroChecksum),
     HasChecksum := HasChecksum result \<and> Checksum result \<noteq> zeroChecksum,
     ResultError := take ftMaximumError (ResultError result)\<rparr>"

lemma zeroChecksum_iff: "length c = 32 \<Longrightarrow> list_ex (\<lambda>v. v \<noteq> 0) c \<longleftrightarrow> c \<noteq> zeroChecksum"
  unfolding zeroChecksum_def list_ex_iff
  by (metis in_set_replicate replicate_eqI)

lemma EncodeResult_wf:
  "wf_result result \<Longrightarrow> EncodeResult result = ftEncode \<lparr>ft_Type = ftResult, ft_Payload = result_payload result\<rparr>"
  by (auto simp: EncodeResult_def wf_result_def result_payload_def Let_def not_less split: if_splits)

lemma result_payload_valid:
  "wf_result result \<Longrightarrow> ftValidate \<lparr>ft_Type = ftResult, ft_Payload = result_payload result\<rparr> = Inr ()"
  by (auto simp: ftValidate_def ft_types ft_limits result_payload_def wf_result_def zeroChecksum_def)

lemma DecodeResult_payload:
  assumes "wf_result result"
  shows "DecodeResult \<lparr>ft_Type = ftResult, ft_Payload = result_payload result\<rparr> = Inr (received_result result)"
proof -
  let ?c = "if HasChecksum result then Checksum result else zeroChecksum"
  let ?m = "take ftMaximumError (ResultError result)"
  have c: "length ?c = 32" using assms by (simp add: wf_result_def zeroChecksum_def)
  have pay: "result_payload result = Status result # put_uint 8 (ResultTransferred result) @ ?c @ bytes_of_str ?m"
    by (simp add: result_payload_def)
  have len: "length (result_payload result) = resultHeader + length ?m"
    using c by (simp add: pay resultHeader_def)
  have parts: "take 8 (drop 1 (result_payload result)) = put_uint 8 (ResultTransferred result)"
    "take 32 (drop 9 (result_payload result)) = ?c"
    "drop resultHeader (result_payload result) = bytes_of_str ?m"
    using c by (simp_all add: pay resultHeader_def)
  have first: "result_payload result ! 0 = Status result" by (simp add: pay)
  have status: "\<not> (Status result > ResultCancelled \<or> Status result = ResultSucceeded \<and> ?m \<noteq> '''')"
    using assms by (auto simp: wf_result_def not_less split: if_splits)
  have zero: "list_ex (\<lambda>v. v \<noteq> 0) ?c = (HasChecksum result \<and> Checksum result \<noteq> zeroChecksum)"
    using c by (simp add: zeroChecksum_iff)
  have "received_result result = \<lparr>Status = Status result, ResultTransferred = ResultTransferred result,
      Checksum = ?c, HasChecksum = list_ex (\<lambda>v. v \<noteq> 0) ?c, ResultError = ?m\<rparr>"
    using zero by (cases result) (simp add: received_result_def)
  then show ?thesis
    using status by (simp add: DecodeResult_def len parts Let_def first ftMaximumError_def
        del: One_nat_def)
qed

section \<open>Properties\<close>

text \<open>A transfer result that the encoder accepts reaches the receiver with the same status and byte
  count, its message cut to 4096 bytes, and its checksum exactly when one was sent that is not all zero.\<close>

theorem transfer_result_roundtrip:
  assumes "wf_result result"
  shows "bindE (bindE (EncodeResult result) ftDecode) DecodeResult = Inr (received_result result)"
proof -
  have "bindE (ftEncode \<lparr>ft_Type = ftResult, ft_Payload = result_payload result\<rparr>) ftDecode
      = Inr \<lparr>ft_Type = ftResult, ft_Payload = result_payload result\<rparr>"
    using result_payload_valid [OF assms] by (rule ft.roundtrip)
  then show ?thesis using assms by (simp add: EncodeResult_wf DecodeResult_payload)
qed

theorem transfer_result_roundtrip_witness:
  "bindE (bindE (EncodeResult \<lparr>Status = 1, ResultTransferred = 5, Checksum = replicate 32 9,
       HasChecksum = True, ResultError = ''disk full''\<rparr>) ftDecode) DecodeResult
     = Inr \<lparr>Status = 1, ResultTransferred = 5, Checksum = replicate 32 9,
       HasChecksum = True, ResultError = ''disk full''\<rparr>"
proof -
  let ?r = "\<lparr>Status = 1, ResultTransferred = 5, Checksum = replicate 32 9,
       HasChecksum = True, ResultError = ''disk full''\<rparr> :: TransferResult"
  have "wf_result ?r" by (simp add: wf_result_def ft_types)
  moreover have "received_result ?r = ?r"
    by (simp add: received_result_def zeroChecksum_def ftMaximumError_def)
  ultimately show ?thesis using transfer_result_roundtrip [of ?r] by simp
qed

text \<open>A receiver is never told of an impossible transfer: a decoded progress report has a total of
  zero (unknown) or a transferred count within the total, and a decoded result has one of the three
  statuses, a checksum of 32 bytes, and no message when it reports success. The sender's encoder accepts
  exactly the progress reports the decoder accepts, and they survive the wire.\<close>

theorem transfer_reports_sound:
  "bindE (bindE (EncodeProgress p) ftDecode) DecodeProgress =
     (if Total p = 0 \<or> Transferred p \<le> Total p then Inr p else Inl ''file transfer progress is invalid'')
   \<and> (DecodeProgress f = Inr q \<longrightarrow> Total q = 0 \<or> Transferred q \<le> Total q)
   \<and> (DecodeResult f = Inr r \<longrightarrow> wf_result r)"
proof (intro conjI impI)
  let ?f = "\<lparr>ft_Type = ftProgress, ft_Payload = put_uint 8 (Transferred p) @ put_uint 8 (Total p)\<rparr>"
  have "ftValidate ?f = Inr ()" by (simp add: ftValidate_def ft_types)
  then have "bindE (ftEncode ?f) ftDecode = Inr ?f" by (rule ft.roundtrip)
  then show "bindE (bindE (EncodeProgress p) ftDecode) DecodeProgress =
      (if Total p = 0 \<or> Transferred p \<le> Total p then Inr p else Inl ''file transfer progress is invalid'')"
    by (auto simp: EncodeProgress_def DecodeProgress_def not_less)
next
  assume "DecodeProgress f = Inr q"
  then show "Total q = 0 \<or> Transferred q \<le> Total q"
    by (auto simp: DecodeProgress_def Let_def not_less split: if_splits)
next
  assume "DecodeResult f = Inr r"
  then show "wf_result r"
    by (auto simp: DecodeResult_def wf_result_def Let_def resultHeader_def not_less split: if_splits)
qed

theorem transfer_reports_sound_witness:
  "bindE (bindE (EncodeProgress \<lparr>Transferred = 3, Total = 10\<rparr>) ftDecode) DecodeProgress
     = Inr \<lparr>Transferred = 3, Total = 10\<rparr>"
  using transfer_reports_sound [of "\<lparr>Transferred = 3, Total = 10\<rparr>"] by simp

text \<open>The text form of a SHA-256 checksum parses back to the checksum, and whatever parses has 64
  characters and yields 32 bytes.\<close>

theorem checksum_text_roundtrip:
  "(length c = 32 \<longrightarrow> ParseChecksum (FormatChecksum c) = Inr c) \<and>
   (ParseChecksum value = Inr d \<longrightarrow> length value = 64 \<and> length d = 32)"
  by (auto simp: ParseChecksum_def FormatChecksum_def hexDecode_hexEncode
      split: option.splits if_splits dest: hexDecode_length)

theorem checksum_text_roundtrip_witness:
  "ParseChecksum (FormatChecksum (replicate 32 171)) = Inr (replicate 32 171)"
  using checksum_text_roundtrip [of "replicate 32 171"] by simp

end
