(* ===== verification/Tunnel.thy ===== *)
theory Tunnel
  imports GoText
begin

text \<open>
  The tunnel handshake of \<^verbatim>\<open>internal/protocol/tunnel\<close> (\<^verbatim>\<open>protocol.go\<close>, \<^verbatim>\<open>session.go\<close>, \<^verbatim>\<open>open.go\<close>,
  \<^verbatim>\<open>status.go\<close>, \<^verbatim>\<open>control.go\<close>) and \<^verbatim>\<open>utils.WriteAll\<close>. A reader is the list of bytes it still has to
  deliver; a function that reads returns the rest of the list. A writer is given by what its calls to
  \<^verbatim>\<open>Write\<close> return. The UUID parser, SHA-256 and the NetworkSpec JSON codec are arguments:
  \<open>uuid_canon\<close> is \<^verbatim>\<open>uuid.Parse\<close> followed by \<^verbatim>\<open>String\<close>.
\<close>

section \<open>Readers and writers\<close>

definition ReadFull :: "nat \<Rightarrow> bytes \<Rightarrow> error + bytes \<times> bytes" where
  "ReadFull n r =
     (if n \<le> length r then Inr (take n r, drop n r)
      else if r = [] then Inl ''EOF'' else Inl ''unexpected EOF'')"

lemma ReadFull_append [simp]: "length b = n \<Longrightarrow> ReadFull n (b @ rest) = Inr (b, rest)"
  by (auto simp: ReadFull_def)

lemma ReadFull_Inr: "ReadFull n r = Inr (b, rest) \<longleftrightarrow> length b = n \<and> r = b @ rest"
  by (auto simp: ReadFull_def)

text \<open>
  \<open>w i p\<close> is what the writer's \<open>i\<close>-th \<^verbatim>\<open>Write\<close> call returns for the payload \<open>p\<close>: the number of bytes
  it took and its error. The model returns the error of \<^verbatim>\<open>WriteAll\<close> and the bytes the writer took.
\<close>

type_synonym writer = "nat \<Rightarrow> bytes \<Rightarrow> nat \<times> error option"

function WriteAll :: "writer \<Rightarrow> nat \<Rightarrow> bytes \<Rightarrow> error option \<times> bytes" where
  "WriteAll w i payload =
     (if payload = [] then (None, [])
      else case w i payload of
             (written, Some err) \<Rightarrow> (Some err, take written payload)
           | (written, None) \<Rightarrow>
               if written = 0 then (Some ''short write'', [])
               else let (err, out) = WriteAll w (Suc i) (drop written payload)
                    in (err, take written payload @ out))"
  by pat_completeness auto
termination
  by (relation "measure (\<lambda>(w, i, p). length p)") auto

declare WriteAll.simps [simp del]

lemma WriteAll_Nil [simp]: "WriteAll w i [] = (None, [])"
  by (simp add: WriteAll.simps)

lemma WriteAll_error:
  "payload \<noteq> [] \<Longrightarrow> w i payload = (n, Some e) \<Longrightarrow> WriteAll w i payload = (Some e, take n payload)"
  by (simp add: WriteAll.simps)

lemma WriteAll_stuck:
  "payload \<noteq> [] \<Longrightarrow> w i payload = (0, None) \<Longrightarrow> WriteAll w i payload = (Some ''short write'', [])"
  by (simp add: WriteAll.simps)

lemma WriteAll_step:
  "payload \<noteq> [] \<Longrightarrow> w i payload = (Suc n, None) \<Longrightarrow>
   WriteAll w i payload = (fst (WriteAll w (Suc i) (drop (Suc n) payload)),
     take (Suc n) payload @ snd (WriteAll w (Suc i) (drop (Suc n) payload)))"
  by (subst WriteAll.simps) (simp add: split_beta)

text \<open>The four ways a call of \<^verbatim>\<open>WriteAll\<close> goes.\<close>

lemma WriteAll_cases:
  obtains (empty) "payload = []"
  | (error) n e where "payload \<noteq> []" "w i payload = (n, Some e)"
  | (stuck) "payload \<noteq> []" "w i payload = (0, None)"
  | (step) n where "payload \<noteq> []" "w i payload = (Suc n, None)"
  by (metis not0_implies_Suc not_None_eq surj_pair)

lemma WriteAll_prefix: "\<exists>rest. payload = snd (WriteAll w i payload) @ rest"
proof (induction w i payload rule: WriteAll.induct)
  case (1 w i payload)
  show ?case
  proof (cases rule: WriteAll_cases [where payload = payload and w = w and i = i])
    case (step n)
    then obtain rest where "drop (Suc n) payload = snd (WriteAll w (Suc i) (drop (Suc n) payload)) @ rest"
      using 1 by fastforce
    then have "payload = take (Suc n) payload @ snd (WriteAll w (Suc i) (drop (Suc n) payload)) @ rest"
      by (metis append_take_drop_id)
    then show ?thesis using step by (auto simp: WriteAll_step)
  next
    case (error n e)
    then show ?thesis using append_take_drop_id [of n payload] by (metis WriteAll_error snd_conv)
  qed (simp_all add: WriteAll_stuck)
qed

lemma WriteAll_complete: "fst (WriteAll w i payload) = None \<Longrightarrow> snd (WriteAll w i payload) = payload"
proof (induction w i payload rule: WriteAll.induct)
  case (1 w i payload)
  show ?case
  proof (cases rule: WriteAll_cases [where payload = payload and w = w and i = i])
    case (step n)
    then show ?thesis using 1 by (simp add: WriteAll_step)
  qed (use 1 in \<open>simp_all add: WriteAll_stuck WriteAll_error\<close>)
qed

lemma WriteAll_progress:
  "(\<And>j p. \<exists>n. w j p = (Suc n, None)) \<Longrightarrow> fst (WriteAll w i payload) = None"
proof (induction w i payload rule: WriteAll.induct)
  case (1 w i payload)
  obtain n where n: "w i payload = (Suc n, None)" using 1(2) by blast
  show ?case
  proof (cases "payload = []")
    case False
    then show ?thesis using 1(1) [OF False n [symmetric]] 1(2) n by (simp add: WriteAll_step)
  qed simp
qed

section \<open>Protocol constants and the session header\<close>

definition CommandControl :: byte where "CommandControl = 3"
definition CommandTraffic :: byte where "CommandTraffic = 4"
definition StatusOK :: byte where "StatusOK = 0"
definition StatusError :: byte where "StatusError = 1"
definition maxErrorSize :: nat where "maxErrorSize = 4096"
definition trafficModeExchange :: byte where "trafficModeExchange = 1"
definition trafficModeMirror :: byte where "trafficModeMirror = 2"
definition trafficModePreview :: byte where "trafficModePreview = 3"
definition trafficTaskIDSize :: nat where "trafficTaskIDSize = 36"
definition trafficOpenBodySize :: nat where "trafficOpenBodySize = 1 + trafficTaskIDSize"
definition magic :: bytes where "magic = [75, 67, 71, 2]"

lemmas tunnel_consts = CommandControl_def CommandTraffic_def StatusOK_def StatusError_def
  maxErrorSize_def trafficModeExchange_def trafficModeMirror_def trafficModePreview_def
  trafficTaskIDSize_def trafficOpenBodySize_def

record SessionHeader =
  Command :: byte
  Token :: bytes

definition zeroToken :: bytes where "zeroToken = replicate 32 0"

definition appendSessionHeader :: "bytes \<Rightarrow> byte \<Rightarrow> bytes \<Rightarrow> error + bytes" where
  "appendSessionHeader val command token =
     (if token = zeroToken then Inl ''gateway session token is required''
      else Inr (val @ magic @ [command] @ token))"

definition ReadSessionHeader :: "bytes \<Rightarrow> error + SessionHeader \<times> bytes" where
  "ReadSessionHeader r =
     bindE (ReadFull 37 r) (\<lambda>(header, rest).
       if take 4 header \<noteq> magic then Inl ''invalid tunnel protocol magic''
       else if drop 5 header = zeroToken then Inl ''gateway session token is required''
       else Inr (\<lparr>Command = header ! 4, Token = drop 5 header\<rparr>, rest))"

definition RelaySessionToken ::
  "(string \<Rightarrow> string option) \<Rightarrow> (string \<Rightarrow> bytes) \<Rightarrow> string \<Rightarrow> 64 word \<Rightarrow> error + bytes" where
  "RelaySessionToken uuid_canon sha256 sessionID generation =
     (let sid = TrimSpace sessionID in
      if uuid_canon sid \<noteq> Some sid then Inl ''relay session ID must be a canonical UUID''
      else if generation = 0 then Inl ''relay session generation is required''
      else Inr (sha256 (''kubeloop-relay-session-v2'' @ [CHR 0x00] @ sid @ [CHR 0x00] @
                        FormatUint (unat generation))))"

section \<open>Opening a traffic task\<close>

record TrafficOpenRequest =
  Mode :: string
  TaskID :: string

definition encodeTrafficMode :: "string \<Rightarrow> error + byte" where
  "encodeTrafficMode mode =
     (if mode = ''exchange'' then Inr trafficModeExchange
      else if mode = ''mirror'' then Inr trafficModeMirror
      else if mode = ''preview'' then Inr trafficModePreview
      else Inl ''traffic mode is invalid'')"

definition decodeTrafficMode :: "byte \<Rightarrow> error + string" where
  "decodeTrafficMode mode =
     (if mode = trafficModeExchange then Inr ''exchange''
      else if mode = trafficModeMirror then Inr ''mirror''
      else if mode = trafficModePreview then Inr ''preview''
      else Inl ''traffic mode is invalid'')"

definition validateCanonicalTaskID :: "(string \<Rightarrow> string option) \<Rightarrow> string \<Rightarrow> error + unit" where
  "validateCanonicalTaskID uuid_canon taskID =
     (case uuid_canon taskID of
        None \<Rightarrow> Inl ''traffic Task ID must be a canonical UUID''
      | Some parsed \<Rightarrow>
          if parsed \<noteq> taskID then Inl ''traffic Task ID must be a canonical UUID'' else Inr ())"

text \<open>The bytes \<^verbatim>\<open>WriteTrafficOpen\<close> hands to \<^verbatim>\<open>WriteAll\<close>.\<close>

definition WriteTrafficOpen ::
  "(string \<Rightarrow> string option) \<Rightarrow> TrafficOpenRequest \<Rightarrow> bytes \<Rightarrow> error + bytes" where
  "WriteTrafficOpen uuid_canon request token =
     bindE (encodeTrafficMode (Mode request)) (\<lambda>mode.
     bindE (validateCanonicalTaskID uuid_canon (TaskID request)) (\<lambda>_.
     bindE (appendSessionHeader [] CommandTraffic token) (\<lambda>val.
       Inr (val @ [mode] @ bytes_of_str (TaskID request)))))"

definition ReadTrafficOpenBody ::
  "(string \<Rightarrow> string option) \<Rightarrow> bytes \<Rightarrow> error + TrafficOpenRequest \<times> bytes" where
  "ReadTrafficOpenBody uuid_canon r =
     bindE (ReadFull trafficOpenBodySize r) (\<lambda>(body, rest).
     bindE (decodeTrafficMode (body ! 0)) (\<lambda>mode.
       let taskID = str_of_bytes (drop 1 body) in
       bindE (validateCanonicalTaskID uuid_canon taskID) (\<lambda>_.
         Inr (\<lparr>Mode = mode, TaskID = taskID\<rparr>, rest))))"

definition ReadTrafficOpen ::
  "(string \<Rightarrow> string option) \<Rightarrow> bytes \<Rightarrow> error + TrafficOpenRequest \<times> bytes" where
  "ReadTrafficOpen uuid_canon r =
     bindE (ReadSessionHeader r) (\<lambda>(header, rest).
       if Command header \<noteq> CommandTraffic
       then Inl (''unsupported command '' @ FormatUint (unat (Command header)))
       else ReadTrafficOpenBody uuid_canon rest)"

section \<open>Status replies\<close>

text \<open>The bytes \<^verbatim>\<open>WriteStatus\<close> hands to \<^verbatim>\<open>WriteAll\<close>; \<^verbatim>\<open>None\<close> is the nil error.\<close>

definition WriteStatus :: "error option \<Rightarrow> bytes" where
  "WriteStatus err =
     (case err of
        None \<Rightarrow> [StatusOK]
      | Some e \<Rightarrow>
          let message = (if length e > maxErrorSize then take maxErrorSize e else e) in
          [StatusError] @ put_uint 2 (of_nat (length message) :: 16 word) @ bytes_of_str message)"

definition ReadStatus :: "bytes \<Rightarrow> error + bytes" where
  "ReadStatus r =
     bindE (ReadFull 1 r) (\<lambda>(status, r1).
       if status ! 0 = StatusOK then Inr r1
       else if status ! 0 = StatusError then
         bindE (ReadFull 2 r1) (\<lambda>(sz, r2).
           let messageSize = unat (get_uint sz :: 16 word) in
           if messageSize > maxErrorSize then Inl ''gateway error message is too large''
           else bindE (ReadFull messageSize r2) (\<lambda>(message, r3). Inl (str_of_bytes message)))
       else Inl (''invalid gateway status '' @ FormatUint (unat (status ! 0))))"

section \<open>Authorized control sessions\<close>

text \<open>
  \<open>canonicalJSON\<close> is \<^verbatim>\<open>networkspec.CanonicalJSON\<close> and \<open>decodeSpec\<close> is \<^verbatim>\<open>networkspec.Decode\<close>.
\<close>

definition MaximumJSONSize :: nat where "MaximumJSONSize = 262144"

definition WriteAuthorizedControlSession ::
  "('spec \<Rightarrow> error + bytes) \<Rightarrow> bytes \<Rightarrow> 'spec \<Rightarrow> error + bytes" where
  "WriteAuthorizedControlSession canonicalJSON token spec =
     bindE (canonicalJSON spec) (\<lambda>contents.
     bindE (appendSessionHeader [] CommandControl token) (\<lambda>val.
       Inr (val @ put_uint 4 (of_nat (length contents) :: 32 word) @ contents)))"

definition ReadAuthorizedControlSpec ::
  "(bytes \<Rightarrow> error + 'spec) \<Rightarrow> bytes \<Rightarrow> error + 'spec \<times> bytes" where
  "ReadAuthorizedControlSpec decodeSpec r =
     bindE (ReadFull 4 r) (\<lambda>(sizeRaw, r1).
       let n = unat (get_uint sizeRaw :: 32 word) in
       if n = 0 \<or> n > MaximumJSONSize then Inl ''authorized NetworkSpec size is invalid''
       else bindE (ReadFull n r1) (\<lambda>(contents, r2).
              bindE (decodeSpec contents) (\<lambda>spec. Inr (spec, r2))))"

section \<open>Properties\<close>

lemma encode_decode_mode: "encodeTrafficMode m = Inr b \<longleftrightarrow> decodeTrafficMode b = Inr m"
  by (auto simp: encodeTrafficMode_def decodeTrafficMode_def tunnel_consts split: if_splits)

lemma validateCanonicalTaskID_iff:
  "validateCanonicalTaskID uuid_canon s = Inr () \<longleftrightarrow> uuid_canon s = Some s"
  by (auto simp: validateCanonicalTaskID_def split: option.splits if_splits)

lemma ReadSessionHeader_append:
  assumes "appendSessionHeader [] command token = Inr hdr" "length token = 32"
  shows "ReadSessionHeader (hdr @ rest) = Inr (\<lparr>Command = command, Token = token\<rparr>, rest)"
proof -
  have hdr: "hdr = magic @ [command] @ token" "token \<noteq> zeroToken"
    using assms(1) by (auto simp: appendSessionHeader_def split: if_splits)
  then have "ReadFull 37 (hdr @ rest) = Inr (hdr, rest)"
    using assms(2) by (intro ReadFull_append) (simp add: magic_def)
  then show ?thesis using hdr assms(2) by (simp add: ReadSessionHeader_def magic_def)
qed

text \<open>A traffic-open request that a client writes on a tunnel stream is read by the gateway as the
  same request, consuming exactly the bytes written, for every UUID parser whose canonical form has 36
  characters.\<close>

theorem traffic_open_roundtrip:
  assumes uuid_length: "\<And>s t. uuid_canon s = Some t \<Longrightarrow> length t = 36"
    and "length token = 32"
    and "WriteTrafficOpen uuid_canon request token = Inr out"
  shows "ReadTrafficOpen uuid_canon (out @ rest) = Inr (request, rest)"
proof -
  obtain m hdr where m: "encodeTrafficMode (Mode request) = Inr m"
    and id: "uuid_canon (TaskID request) = Some (TaskID request)"
    and hdr: "appendSessionHeader [] CommandTraffic token = Inr hdr"
    and out: "out = hdr @ [m] @ bytes_of_str (TaskID request)"
    using assms(3) by (auto simp: WriteTrafficOpen_def bindE_eq_Inr validateCanonicalTaskID_iff)
  have "length (TaskID request) = 36" using uuid_length [OF id] .
  then have body: "ReadFull trafficOpenBodySize ((m # bytes_of_str (TaskID request)) @ rest)
      = Inr (m # bytes_of_str (TaskID request), rest)"
    by (intro ReadFull_append) (simp add: tunnel_consts)
  have "decodeTrafficMode m = Inr (Mode request)" using m by (simp add: encode_decode_mode)
  then have "ReadTrafficOpenBody uuid_canon ((m # bytes_of_str (TaskID request)) @ rest) = Inr (request, rest)"
    unfolding ReadTrafficOpenBody_def body using id
    by (cases request) (simp add: validateCanonicalTaskID_def)
  moreover have "ReadSessionHeader (hdr @ (m # bytes_of_str (TaskID request)) @ rest)
      = Inr (\<lparr>Command = CommandTraffic, Token = token\<rparr>, (m # bytes_of_str (TaskID request)) @ rest)"
    using hdr assms(2) by (rule ReadSessionHeader_append)
  ultimately show ?thesis by (simp add: ReadTrafficOpen_def out)
qed

definition sample_uuid :: string where "sample_uuid = ''0f8fad5b-d9cb-469f-a165-70867728950e''"

theorem traffic_open_roundtrip_witness:
  "ReadTrafficOpen (\<lambda>s. if s = sample_uuid then Some s else None)
     (magic @ [4] @ replicate 32 1 @ [2] @ bytes_of_str sample_uuid @ [9])
   = Inr (\<lparr>Mode = ''mirror'', TaskID = sample_uuid\<rparr>, [9])"
proof -
  let ?u = "\<lambda>s. if s = sample_uuid then Some s else None"
  have "length t = 36" if "?u s = Some t" for s t
    using that by (auto simp: sample_uuid_def split: if_splits)
  moreover have "WriteTrafficOpen ?u \<lparr>Mode = ''mirror'', TaskID = sample_uuid\<rparr> (replicate 32 1)
      = Inr (magic @ [4] @ replicate 32 1 @ [2] @ bytes_of_str sample_uuid)"
    by (simp add: WriteTrafficOpen_def encodeTrafficMode_def tunnel_consts validateCanonicalTaskID_def
        appendSessionHeader_def zeroToken_def)
  ultimately show ?thesis
    using traffic_open_roundtrip [of ?u "replicate 32 1" "\<lparr>Mode = ''mirror'', TaskID = sample_uuid\<rparr>"
        "magic @ [4] @ replicate 32 1 @ [2] @ bytes_of_str sample_uuid" "[9]"]
    by simp
qed

text \<open>A status reply is read back as written: success as success with the following bytes untouched,
  an error as an error with the message cut to 4096 bytes. The 16-bit length field never wraps.\<close>

theorem status_roundtrip:
  "ReadStatus (WriteStatus err @ rest) =
     (case err of None \<Rightarrow> Inr rest | Some e \<Rightarrow> Inl (take maxErrorSize e))"
proof (cases err)
  case None
  then show ?thesis by (simp add: WriteStatus_def ReadStatus_def StatusOK_def ReadFull_def)
next
  case (Some e)
  let ?m = "take maxErrorSize e"
  let ?n = "put_uint 2 (of_nat (length ?m) :: 16 word)"
  have len: "length ?m < 65536" by (simp add: maxErrorSize_def)
  then have size_rt: "unat (get_uint ?n :: 16 word) = length ?m"
    by (simp add: unat_of_nat)
  have out: "WriteStatus err @ rest = [StatusError] @ ?n @ bytes_of_str ?m @ rest"
    using Some by (simp add: WriteStatus_def Let_def)
  have "ReadFull 1 (WriteStatus err @ rest) = Inr ([StatusError], ?n @ bytes_of_str ?m @ rest)"
    unfolding out by (rule ReadFull_append) simp
  moreover have "ReadFull 2 (?n @ bytes_of_str ?m @ rest) = Inr (?n, bytes_of_str ?m @ rest)"
    by (rule ReadFull_append) simp
  moreover have "ReadFull (length ?m) (bytes_of_str ?m @ rest) = Inr (bytes_of_str ?m, rest)"
    by (rule ReadFull_append) simp
  ultimately show ?thesis
    using Some size_rt by (simp add: ReadStatus_def StatusOK_def StatusError_def Let_def)
qed

text \<open>A control session written by a client is read by the gateway as the same NetworkSpec, consuming
  exactly the bytes written, for every JSON codec whose decoder inverts the encoder and whose output stays
  within the limit \<^verbatim>\<open>networkspec.Normalize\<close> enforces.\<close>

theorem control_session_roundtrip:
  assumes json_roundtrip: "\<And>sp c. canonicalJSON sp = Inr c \<Longrightarrow> decodeSpec c = Inr sp"
    and json_bounded: "\<And>sp c. canonicalJSON sp = Inr c \<Longrightarrow> c \<noteq> [] \<and> length c \<le> MaximumJSONSize"
    and "length token = 32"
    and "WriteAuthorizedControlSession canonicalJSON token spec = Inr out"
  shows "\<exists>body. ReadSessionHeader (out @ rest) = Inr (\<lparr>Command = CommandControl, Token = token\<rparr>, body) \<and>
    ReadAuthorizedControlSpec decodeSpec body = Inr (spec, rest)"
proof -
  obtain c hdr where c: "canonicalJSON spec = Inr c"
    and hdr: "appendSessionHeader [] CommandControl token = Inr hdr"
    and out: "out = hdr @ put_uint 4 (of_nat (length c) :: 32 word) @ c"
    using assms(4) by (auto simp: WriteAuthorizedControlSession_def bindE_eq_Inr)
  let ?n = "put_uint 4 (of_nat (length c) :: 32 word)"
  have bound: "0 < length c" "length c \<le> MaximumJSONSize" using json_bounded [OF c] by auto
  then have n: "unat (get_uint ?n :: 32 word) = length c"
    by (simp add: unat_of_nat MaximumJSONSize_def)
  have "ReadFull 4 (?n @ c @ rest) = Inr (?n, c @ rest)" by (rule ReadFull_append) simp
  then have "ReadAuthorizedControlSpec decodeSpec (?n @ c @ rest) = Inr (spec, rest)"
    using n bound json_roundtrip [OF c] by (simp add: ReadAuthorizedControlSpec_def not_less)
  moreover have "ReadSessionHeader (hdr @ ?n @ c @ rest)
      = Inr (\<lparr>Command = CommandControl, Token = token\<rparr>, ?n @ c @ rest)"
    using hdr assms(3) by (rule ReadSessionHeader_append)
  ultimately show ?thesis by (simp add: out)
qed

theorem control_session_roundtrip_witness:
  "\<exists>body. ReadSessionHeader ((magic @ [3] @ replicate 32 1 @ [0, 0, 0, 1] @ [5]) @ [9])
       = Inr (\<lparr>Command = CommandControl, Token = replicate 32 1\<rparr>, body) \<and>
     ReadAuthorizedControlSpec (\<lambda>c. if length c = 1 then Inr (hd c) else Inl '''') body = Inr (5, [9])"
proof -
  let ?c = "\<lambda>b :: byte. Inr [b] :: error + bytes"
  let ?d = "\<lambda>c :: bytes. if length c = 1 then Inr (hd c) else Inl ''''"
  have be_1: "be_bytes 4 (Suc 0) = [0, 0, 0, 1]" by (simp add: be_bytes_numeral)
  have "WriteAuthorizedControlSession ?c (replicate 32 1) 5
      = Inr (magic @ [3] @ replicate 32 1 @ [0, 0, 0, 1] @ [5])"
    using be_1 by (simp add: WriteAuthorizedControlSession_def appendSessionHeader_def zeroToken_def
        CommandControl_def put_uint_def)
  then show ?thesis
    using control_session_roundtrip [of ?c ?d "replicate 32 1" 5
        "magic @ [3] @ replicate 32 1 @ [0, 0, 0, 1] @ [5]" "[9]"]
    by (simp add: MaximumJSONSize_def)
qed

text \<open>\<^verbatim>\<open>WriteAll\<close> always returns. What the writer has taken is a prefix of the payload, all of it when
  no error is returned, and a writer that takes at least one byte per call without error gets the whole
  payload.\<close>

theorem WriteAll_delivers:
  "(\<exists>rest. payload = snd (WriteAll w i payload) @ rest) \<and>
   (fst (WriteAll w i payload) = None \<longrightarrow> snd (WriteAll w i payload) = payload) \<and>
   ((\<forall>j p. \<exists>n. w j p = (Suc n, None)) \<longrightarrow> WriteAll w i payload = (None, payload))"
  using WriteAll_prefix WriteAll_complete WriteAll_progress by (metis prod.collapse)

theorem WriteAll_delivers_witness: "WriteAll (\<lambda>j p. (Suc 1, None)) 0 [1, 2, 3] = (None, [1, 2, 3])"
  using WriteAll_delivers [of "[1, 2, 3]" "\<lambda>j p. (Suc 1, None)" 0] by blast

end
