(* ===== verification/GoTime.thy ===== *)
theory GoTime
  imports Main
begin

text \<open>
  Times and durations. A \<^verbatim>\<open>time.Time\<close> is the number of nanoseconds since the zero time of Go (January 1 of
  year 1, UTC), an integer without bounds, so \<^verbatim>\<open>IsZero\<close> is equality with 0 and \<^verbatim>\<open>UTC\<close> is the identity.
  A \<^verbatim>\<open>time.Duration\<close> is a number of nanoseconds; where the source's 64-bit arithmetic on it can wrap, the
  model of that function uses words.
\<close>

type_synonym time = int
type_synonym duration = int

definition Second :: duration where "Second = 1000000000"
definition Minute :: duration where "Minute = 60 * Second"
definition Millisecond :: duration where "Millisecond = 1000000"
definition Hour :: duration where "Hour = 60 * Minute"

definition IsZero :: "time \<Rightarrow> bool" where "IsZero t \<longleftrightarrow> t = 0"

text \<open>Seconds from the zero time to the Unix epoch, \<^verbatim>\<open>Time.Unix\<close> and \<^verbatim>\<open>Time.Truncate\<close>.\<close>

definition unixToInternal :: int where "unixToInternal = 62135596800"

definition Unix :: "time \<Rightarrow> int" where "Unix t = t div Second - unixToInternal"

definition Truncate :: "time \<Rightarrow> duration \<Rightarrow> time" where "Truncate t d = t - t mod d"

lemmas duration_defs = Second_def Minute_def Millisecond_def Hour_def

lemma Unix_mono: "s \<le> t \<Longrightarrow> Unix s \<le> Unix t"
  by (simp add: Unix_def zdiv_mono1 Second_def)

lemma Unix_Truncate [simp]: "Unix (Truncate t Second) = Unix t"
  by (simp add: Unix_def Truncate_def Second_def minus_mod_eq_mult_div)

lemma Truncate_le: "0 < d \<Longrightarrow> Truncate t d \<le> t"
  by (simp add: Truncate_def)

lemma Truncate_multiple: "Truncate t d = d * (t div d)"
  by (simp add: Truncate_def minus_mod_eq_mult_div)

end
