(* ===== verification/RelayControl.thy ===== *)
theory RelayControl
  imports GoText GoTime "HOL-Library.AList" "HOL-Library.List_Lexorder" "HOL-Library.Char_ord"
begin

text \<open>
  The relay control contract of \<^verbatim>\<open>internal/protocol/relaycontrol\<close>: the messages between a Data Plane relay
  and the Control Plane (\<^verbatim>\<open>types.go\<close>), the validation each side applies to them (\<^verbatim>\<open>validate.go\<close>), the
  authenticated peer identity and the relay ID derived from it (\<^verbatim>\<open>identity.go\<close>), version negotiation
  (\<^verbatim>\<open>version.go\<close>) and the message codec (\<^verbatim>\<open>codec.go\<close>).

  Parameters: \<open>urlParse\<close> is \<^verbatim>\<open>url.Parse\<close> (\<open>None\<close> when it returns an error, and then a nil URL),
  \<open>uuidOk\<close> tells whether \<^verbatim>\<open>uuid.Parse\<close> succeeds, \<open>parseKey\<close> is \<^verbatim>\<open>pem.Decode\<close> followed by
  \<^verbatim>\<open>x509.ParsePKIXPublicKey\<close>, \<open>sha256\<close> is \<^verbatim>\<open>sha256.Sum256\<close>. Iterated Go maps are association lists with
  distinct keys. \<open>Panic\<close> is a nil dereference of the source.
\<close>

section \<open>Messages\<close>

datatype failure = Error string | Panic

definition APIVersionV1 :: string where "APIVersionV1 = ''relay.kubeloop.io/v1''"
definition APIVersionV2 :: string where "APIVersionV2 = ''relay.kubeloop.io/v2''"
definition MaximumBodyBytes :: nat where "MaximumBodyBytes = 65536"
definition StateReady :: string where "StateReady = ''ready''"
definition StateDraining :: string where "StateDraining = ''draining''"

record Envelope =
  APIVersion :: string
  Kind :: string

record Capacity =
  MaximumPhysicalConnections :: "32 word"
  MaximumLogicalStreams :: "32 word"
  ActivePhysicalConnections :: "32 word"
  ActiveLogicalStreams :: "32 word"

record VerificationKey =
  vk_ID :: string
  vk_Algorithm :: string
  vk_PublicKey :: string
  vk_NotBefore :: time
  vk_NotAfter :: time

record VerificationKeySet =
  vs_Generation :: "64 word"
  vs_Keys :: "VerificationKey list"

record RegistrationRequest = Envelope +
  SupportedVersions :: "string list"
  rr_Endpoint :: string
  rr_State :: string
  rr_Capacity :: Capacity

record RegistrationResponse = Envelope +
  SelectedVersion :: string
  TicketIssuer :: string
  rp_RelayID :: string
  rp_LeaseID :: string
  rp_LeaseExpiresAt :: time
  rp_HeartbeatAfter :: duration
  rp_Keys :: VerificationKeySet

record HeartbeatRequest = Envelope +
  hr_LeaseID :: string
  hr_State :: string
  hr_Capacity :: Capacity
  AppliedKeyGeneration :: "64 word"
  hr_TrafficEncryption :: "bool option"
  hr_NoisePublicKey :: string

record HeartbeatResponse = Envelope +
  hp_LeaseExpiresAt :: time
  hp_HeartbeatAfter :: duration

record AllocationRequest = Envelope +
  al_SessionID :: string
  al_Generation :: "64 word"
  al_NetworkSpecHash :: string
  al_Topology :: "(string \<times> string) list"
  al_TrafficEncryption :: "bool option"

record AllocationResponse = Envelope +
  ar_RelayID :: string
  ar_LeaseID :: string
  ar_Endpoint :: string
  ar_AssignedAt :: time
  ar_TrafficEncryption :: bool
  ar_NoisePublicKey :: string

record URL =
  Scheme :: string
  Host :: string
  HasUser :: bool
  RawQuery :: string
  Fragment :: string
  Path :: string
  Hostname :: string

record PeerIdentity =
  TrustDomain :: string
  pi_Namespace :: string
  ServiceAccount :: string
  PodUID :: string
  pi_Topology :: "(string \<times> string) list"

section \<open>Identities\<close>

definition identity_rune :: "nat \<Rightarrow> bool" where
  "identity_rune r \<longleftrightarrow> 97 \<le> r \<and> r \<le> 122 \<or> 65 \<le> r \<and> r \<le> 90 \<or> 48 \<le> r \<and> r \<le> 57 \<or>
     r \<in> code ` set ''-._:/''"

definition safeIdentityValue :: "string \<Rightarrow> nat \<Rightarrow> bool" where
  "safeIdentityValue s maximum \<longleftrightarrow>
     \<not> (s = '''' \<or> length s > maximum \<or> TrimSpace s \<noteq> s) \<and> list_all identity_rune (runes s)"

definition validTopology :: "(string \<times> string) list \<Rightarrow> bool" where
  "validTopology topology \<longleftrightarrow> length topology \<le> 16 \<and>
     list_all (\<lambda>(key, val). safeIdentityValue key 128 \<and> safeIdentityValue val 128) topology"

definition PeerIdentity_Validate :: "PeerIdentity \<Rightarrow> failure + unit" where
  "PeerIdentity_Validate identity =
     (let bad = (\<lambda>name. Error (''relay peer '' @ name @ '' is invalid'')) in
      bindE (checkE (safeIdentityValue (TrustDomain identity) 253) (bad ''trust domain'')) (\<lambda>_.
      bindE (checkE (safeIdentityValue (pi_Namespace identity) 63) (bad ''namespace'')) (\<lambda>_.
      bindE (checkE (safeIdentityValue (ServiceAccount identity) 63) (bad ''service account'')) (\<lambda>_.
      bindE (checkE (safeIdentityValue (PodUID identity) 128) (bad ''Pod UID'')) (\<lambda>_.
        checkE (validTopology (pi_Topology identity)) (Error ''relay peer topology is invalid''))))))"

definition RelayID ::
  "(string \<Rightarrow> string) \<Rightarrow> (string \<Rightarrow> bytes) \<Rightarrow> PeerIdentity \<Rightarrow> failure + string" where
  "RelayID ul sha256 identity =
     bindE (PeerIdentity_Validate identity) (\<lambda>_.
       Inr (''relay-'' @ hexEncode (sha256 (ToLower ul (TrustDomain identity) @ [CHR 0x00] @
              pi_Namespace identity @ [CHR 0x00] @ ServiceAccount identity @ [CHR 0x00] @
              PodUID identity))))"

section \<open>Versions\<close>

definition version_ok :: "string \<Rightarrow> bool" where
  "version_ok version \<longleftrightarrow> \<not> (version = '''' \<or> length version > 64 \<or> TrimSpace version \<noteq> version \<or>
     \<not> HasPrefix version ''relay.kubeloop.io/v'')"

text \<open>The loop over the versions with its set of versions seen so far.\<close>

fun validVersions_loop :: "string list \<Rightarrow> string list \<Rightarrow> bool" where
  "validVersions_loop seen [] = True"
| "validVersions_loop seen (v # vs) =
     (if \<not> version_ok v then False
      else if v \<in> set seen then False
      else validVersions_loop (v # seen) vs)"

definition validVersionList :: "string list \<Rightarrow> bool" where
  "validVersionList versions \<longleftrightarrow>
     \<not> (length versions = 0 \<or> length versions > 8) \<and> validVersions_loop [] versions"

fun NegotiateVersion_loop :: "string list \<Rightarrow> string list \<Rightarrow> failure + string" where
  "NegotiateVersion_loop peer [] = Inl (Error ''relay protocol versions are incompatible'')"
| "NegotiateVersion_loop peer (v # vs) =
     (if v \<in> set peer then Inr v else NegotiateVersion_loop peer vs)"

definition NegotiateVersion :: "string list \<Rightarrow> string list \<Rightarrow> failure + string" where
  "NegotiateVersion localPreference peerSupported =
     (if \<not> validVersionList localPreference \<or> \<not> validVersionList peerSupported
      then Inl (Error ''relay protocol version list is invalid'')
      else NegotiateVersion_loop peerSupported localPreference)"

definition validateVersions :: "('a Envelope_scheme) \<Rightarrow> string \<Rightarrow> string list \<Rightarrow> failure + unit" where
  "validateVersions envelope kind versions =
     (if APIVersion envelope \<notin> set versions
      then Inl (Error (''unsupported relay control API version '' @ APIVersion envelope))
      else if Kind envelope \<noteq> kind then Inl (Error (''relay control kind must be '' @ kind))
      else Inr ())"

lemma versions_ok [simp]: "version_ok APIVersionV1" "version_ok APIVersionV2" "APIVersionV1 \<noteq> APIVersionV2" "APIVersionV2 \<noteq> APIVersionV1"
  by (simp_all add: version_ok_def APIVersionV1_def APIVersionV2_def text_eval HasPrefix_def)

section \<open>Validation\<close>

definition validNoisePublicKey :: "string \<Rightarrow> bool" where
  "validNoisePublicKey s \<longleftrightarrow> (case b64Decode s of None \<Rightarrow> False | Some decoded \<Rightarrow> length decoded = 32)"

definition Capacity_validate :: "Capacity \<Rightarrow> failure + unit" where
  "Capacity_validate c =
     (if MaximumPhysicalConnections c = 0 \<or> MaximumPhysicalConnections c > 1048576 \<or>
         MaximumLogicalStreams c = 0 \<or> MaximumLogicalStreams c > 16777216 \<or>
         ActivePhysicalConnections c > MaximumPhysicalConnections c \<or>
         ActiveLogicalStreams c > MaximumLogicalStreams c
      then Inl (Error ''relay capacity is invalid'') else Inr ())"

definition validRelayID :: "string \<Rightarrow> bool" where
  "validRelayID s \<longleftrightarrow> \<not> (\<not> HasPrefix s ''relay-'' \<or> length s \<noteq> 6 + 64) \<and> hexDecode (drop 6 s) \<noteq> None"

definition validateLeaseTiming :: "time \<Rightarrow> duration \<Rightarrow> time \<Rightarrow> failure + unit" where
  "validateLeaseTiming expiresAt heartbeat now =
     (if IsZero expiresAt \<or> \<not> expiresAt > now \<or> expiresAt > now + 5 * Minute \<or>
         heartbeat < Second \<or> heartbeat > Minute \<or> heartbeat \<ge> expiresAt - now
      then Inl (Error ''relay lease is invalid'') else Inr ())"

definition validateLease :: "(string \<Rightarrow> bool) \<Rightarrow> string \<Rightarrow> time \<Rightarrow> duration \<Rightarrow> time \<Rightarrow> failure + unit" where
  "validateLease uuidOk leaseID expiresAt heartbeat now =
     (if \<not> uuidOk leaseID then Inl (Error ''relay lease is invalid'')
      else validateLeaseTiming expiresAt heartbeat now)"

definition validateEndpoint :: "(string \<Rightarrow> URL option) \<Rightarrow> string \<Rightarrow> failure + unit" where
  "validateEndpoint urlParse s =
     (case urlParse (TrimSpace s) of
        None \<Rightarrow> Inl (Error ''relay endpoint must be an absolute WS or WSS URL with a fixed path'')
      | Some parsed \<Rightarrow>
          if Scheme parsed \<noteq> ''ws'' \<and> Scheme parsed \<noteq> ''wss'' \<or> Host parsed = '''' \<or> HasUser parsed \<or>
             RawQuery parsed \<noteq> '''' \<or> Fragment parsed \<noteq> '''' \<or> Path parsed = '''' \<or>
             TrimRight (Path parsed) CHR ''/'' \<noteq> Path parsed
          then Inl (Error ''relay endpoint must be an absolute WS or WSS URL with a fixed path'')
          else Inr ())"

text \<open>\<^verbatim>\<open>validTicketIssuer\<close> reads \<^verbatim>\<open>parsed.Scheme\<close> before it looks at \<^verbatim>\<open>err\<close>: a URL that does not parse is a
  nil dereference.\<close>

definition validTicketIssuer :: "(string \<Rightarrow> URL option) \<Rightarrow> string \<Rightarrow> failure + bool" where
  "validTicketIssuer urlParse s =
     (case urlParse s of
        None \<Rightarrow> Inl Panic
      | Some parsed \<Rightarrow>
          let validScheme = (Scheme parsed = ''http'' \<or> Scheme parsed = ''https'') in
          Inr (validScheme \<and> Host parsed \<noteq> '''' \<and> \<not> HasUser parsed \<and> RawQuery parsed = '''' \<and>
               Fragment parsed = ''''))"

text \<open>
  \<open>parseKey\<close> maps the PEM text to the block type, the parsed key (\<open>None\<close> unless it is an Ed25519 public
  key) and the rest after the block; \<open>None\<close> when there is no block.
\<close>

type_synonym key_parser = "string \<Rightarrow> (string \<times> bytes option \<times> string) option"

fun keys_loop :: "key_parser \<Rightarrow> time \<Rightarrow> string list \<Rightarrow> bool \<Rightarrow> VerificationKey list \<Rightarrow> failure + bool" where
  "keys_loop parseKey now seen usable [] = Inr usable"
| "keys_loop parseKey now seen usable (key # keys) =
     (if \<not> safeIdentityValue (vk_ID key) 128 \<or> vk_Algorithm key \<noteq> ''EdDSA'' \<or>
         IsZero (vk_NotBefore key) \<or> IsZero (vk_NotAfter key) \<or> \<not> vk_NotAfter key > vk_NotBefore key
      then Inl (Error ''RelayTicket verification key is invalid'')
      else if vk_ID key \<in> set seen then Inl (Error ''RelayTicket verification key ID is duplicated'')
      else case parseKey (vk_PublicKey key) of
             None \<Rightarrow> Inl (Error ''RelayTicket verification public key is invalid'')
           | Some (blockType, publicKey, rest) \<Rightarrow>
               if blockType \<noteq> ''PUBLIC KEY'' \<or> rest \<noteq> ''''
               then Inl (Error ''RelayTicket verification public key is invalid'')
               else (case publicKey of
                       None \<Rightarrow> Inl (Error ''RelayTicket verification public key is invalid'')
                     | Some k \<Rightarrow>
                         if length k \<noteq> 32
                         then Inl (Error ''RelayTicket verification public key is invalid'')
                         else keys_loop parseKey now (vk_ID key # seen)
                                (if \<not> now < vk_NotBefore key \<and> now < vk_NotAfter key then True else usable)
                                keys))"

definition VerificationKeySet_validate :: "key_parser \<Rightarrow> VerificationKeySet \<Rightarrow> time \<Rightarrow> failure + unit" where
  "VerificationKeySet_validate parseKey keys now =
     (if vs_Generation keys = 0 \<or> length (vs_Keys keys) = 0 \<or> length (vs_Keys keys) > 8
      then Inl (Error ''RelayTicket verification key set is invalid'')
      else bindE (keys_loop parseKey now [] False (vs_Keys keys)) (\<lambda>usable.
             checkE usable (Error ''RelayTicket verification key set has no currently usable key'')))"

definition RegistrationRequest_Validate ::
  "(string \<Rightarrow> URL option) \<Rightarrow> RegistrationRequest \<Rightarrow> time \<Rightarrow> failure + unit" where
  "RegistrationRequest_Validate urlParse request now =
     bindE (validateVersions request ''RelayRegistration'' [APIVersionV1]) (\<lambda>_.
       if APIVersion request \<notin> set (SupportedVersions request) \<or>
          \<not> validVersionList (SupportedVersions request)
       then Inl (Error ''relay supported protocol versions are invalid'')
       else bindE (validateEndpoint urlParse (rr_Endpoint request)) (\<lambda>_.
         if rr_State request \<noteq> StateReady \<and> rr_State request \<noteq> StateDraining
         then Inl (Error ''relay registration state is invalid'')
         else Capacity_validate (rr_Capacity request)))"

definition RegistrationResponse_Validate ::
  "(string \<Rightarrow> URL option) \<Rightarrow> (string \<Rightarrow> bool) \<Rightarrow> key_parser \<Rightarrow> RegistrationResponse \<Rightarrow> time \<Rightarrow> failure + unit" where
  "RegistrationResponse_Validate urlParse uuidOk parseKey response now =
     bindE (validateVersions response ''RelayRegistrationResult'' [APIVersionV1]) (\<lambda>_.
       if SelectedVersion response \<noteq> APIVersionV1 \<and> SelectedVersion response \<noteq> APIVersionV2
       then Inl (Error ''relay selected protocol version is invalid'')
       else bindE (validTicketIssuer urlParse (TicketIssuer response)) (\<lambda>issuerOk.
         if \<not> issuerOk then Inl (Error ''relay registration Ticket issuer is invalid'')
         else if \<not> validRelayID (rp_RelayID response)
         then Inl (Error ''relay registration response ID is invalid'')
         else bindE (validateLease uuidOk (rp_LeaseID response) (rp_LeaseExpiresAt response)
                       (rp_HeartbeatAfter response) now) (\<lambda>_.
                VerificationKeySet_validate parseKey (rp_Keys response) now)))"

definition HeartbeatRequest_Validate :: "(string \<Rightarrow> bool) \<Rightarrow> HeartbeatRequest \<Rightarrow> time \<Rightarrow> failure + unit" where
  "HeartbeatRequest_Validate uuidOk request now =
     bindE (validateVersions request ''RelayHeartbeat'' [APIVersionV1, APIVersionV2]) (\<lambda>_.
       if \<not> uuidOk (hr_LeaseID request) then Inl (Error ''relay heartbeat lease ID is invalid'')
       else if hr_State request \<noteq> StateReady \<and> hr_State request \<noteq> StateDraining
       then Inl (Error ''relay heartbeat state is invalid'')
       else bindE
         (if APIVersion request = APIVersionV1 then
            checkE (\<not> (hr_TrafficEncryption request \<noteq> None \<or> hr_NoisePublicKey request \<noteq> ''''))
              (Error ''relay v1 heartbeat cannot advertise traffic encryption'')
          else case hr_TrafficEncryption request of
                 None \<Rightarrow> Inl (Error ''relay v2 heartbeat must advertise traffic encryption'')
               | Some True \<Rightarrow> checkE (validNoisePublicKey (hr_NoisePublicKey request))
                   (Error ''relay Noise public key is invalid'')
               | Some False \<Rightarrow> checkE (hr_NoisePublicKey request = '''')
                   (Error ''relay Noise public key requires traffic encryption''))
         (\<lambda>_. Capacity_validate (hr_Capacity request)))"

definition HeartbeatResponse_Validate :: "HeartbeatResponse \<Rightarrow> time \<Rightarrow> failure + unit" where
  "HeartbeatResponse_Validate response now =
     bindE (validateVersions response ''RelayHeartbeatResult'' [APIVersionV1, APIVersionV2]) (\<lambda>_.
       validateLeaseTiming (hp_LeaseExpiresAt response) (hp_HeartbeatAfter response) now)"

definition AllocationRequest_Validate :: "(string \<Rightarrow> bool) \<Rightarrow> AllocationRequest \<Rightarrow> time \<Rightarrow> failure + unit" where
  "AllocationRequest_Validate uuidOk request now =
     bindE (validateVersions request ''SessionAllocation'' [APIVersionV1]) (\<lambda>_.
       if \<not> uuidOk (al_SessionID request) \<or> al_Generation request = 0
       then Inl (Error ''session allocation identity is invalid'')
       else if length (al_NetworkSpecHash request) \<noteq> 64
       then Inl (Error ''session allocation NetworkSpec hash is invalid'')
       else if hexDecode (al_NetworkSpecHash request) = None
       then Inl (Error ''session allocation NetworkSpec hash is invalid'')
       else checkE (validTopology (al_Topology request)) (Error ''session allocation topology is invalid''))"

definition AllocationResponse_Validate ::
  "(string \<Rightarrow> URL option) \<Rightarrow> (string \<Rightarrow> bool) \<Rightarrow> AllocationResponse \<Rightarrow> time \<Rightarrow> failure + unit" where
  "AllocationResponse_Validate urlParse uuidOk response now =
     bindE (validateVersions response ''SessionAssignment'' [APIVersionV1]) (\<lambda>_.
       if \<not> validRelayID (ar_RelayID response) then Inl (Error ''session assignment Relay ID is invalid'')
       else if \<not> uuidOk (ar_LeaseID response) then Inl (Error ''session assignment lease ID is invalid'')
       else bindE (validateEndpoint urlParse (ar_Endpoint response)) (\<lambda>_.
         if IsZero (ar_AssignedAt response) \<or> ar_AssignedAt response > now + Minute
         then Inl (Error ''session assignment time is invalid'')
         else if ar_TrafficEncryption response then
           checkE (validNoisePublicKey (ar_NoisePublicKey response))
             (Error ''session assignment Noise public key is invalid'')
         else checkE (ar_NoisePublicKey response = '''')
             (Error ''session assignment Noise public key requires traffic encryption'')))"

section \<open>Message constructors\<close>

definition NewRegistrationRequest :: "RegistrationRequest" where
  "NewRegistrationRequest =
     \<lparr> APIVersion = APIVersionV1, Kind = ''RelayRegistration'', SupportedVersions = [APIVersionV1],
       rr_Endpoint = '''', rr_State = '''', rr_Capacity = \<lparr> MaximumPhysicalConnections = 0,
       MaximumLogicalStreams = 0, ActivePhysicalConnections = 0, ActiveLogicalStreams = 0 \<rparr> \<rparr>"

definition NewRegistrationRequestWithNegotiation :: "RegistrationRequest" where
  "NewRegistrationRequestWithNegotiation =
     NewRegistrationRequest \<lparr> SupportedVersions := [APIVersionV2, APIVersionV1] \<rparr>"

definition NewRegistrationResponse :: "RegistrationResponse" where
  "NewRegistrationResponse =
     \<lparr> APIVersion = APIVersionV1, Kind = ''RelayRegistrationResult'', SelectedVersion = APIVersionV1,
       TicketIssuer = '''', rp_RelayID = '''', rp_LeaseID = '''', rp_LeaseExpiresAt = 0,
       rp_HeartbeatAfter = 0, rp_Keys = \<lparr> vs_Generation = 0, vs_Keys = [] \<rparr> \<rparr>"

definition NewHeartbeatResponseForVersion :: "string \<Rightarrow> HeartbeatResponse" where
  "NewHeartbeatResponseForVersion version =
     \<lparr> APIVersion = version, Kind = ''RelayHeartbeatResult'', hp_LeaseExpiresAt = 0,
       hp_HeartbeatAfter = 0 \<rparr>"

definition NewAllocationRequest :: "AllocationRequest" where
  "NewAllocationRequest =
     \<lparr> APIVersion = APIVersionV1, Kind = ''SessionAllocation'', al_SessionID = '''',
       al_Generation = 0, al_NetworkSpecHash = '''', al_Topology = [], al_TrafficEncryption = None \<rparr>"

definition NewAllocationResponse :: "AllocationResponse" where
  "NewAllocationResponse =
     \<lparr> APIVersion = APIVersionV1, Kind = ''SessionAssignment'', ar_RelayID = '''', ar_LeaseID = '''',
       ar_Endpoint = '''', ar_AssignedAt = 0, ar_TrafficEncryption = False, ar_NoisePublicKey = '''' \<rparr>"

section \<open>The message codec\<close>

text \<open>
  \<open>marshal\<close> is \<^verbatim>\<open>json.Marshal\<close>. \<open>decodeDoc\<close> is the first \<^verbatim>\<open>decoder.Decode\<close> with unknown fields refused: the
  message, and whether the decoder is at the end of the input afterwards.
\<close>

definition EncodeMessage ::
  "('m \<Rightarrow> time \<Rightarrow> failure + unit) \<Rightarrow> ('m \<Rightarrow> bytes option) \<Rightarrow> 'm \<Rightarrow> time \<Rightarrow> failure + bytes" where
  "EncodeMessage valid marshal message now =
     bindE (valid message now) (\<lambda>_.
       case marshal message of
         None \<Rightarrow> Inl (Error ''encode relay control message'')
       | Some encoded \<Rightarrow>
           if length encoded > MaximumBodyBytes
           then Inl (Error ''relay control message exceeds 64 KiB'')
           else Inr encoded)"

definition decodeMessage ::
  "('m \<Rightarrow> time \<Rightarrow> failure + unit) \<Rightarrow> (bytes \<Rightarrow> ('m \<times> bool) option) \<Rightarrow> bytes \<Rightarrow> time \<Rightarrow> failure + 'm" where
  "decodeMessage valid decodeDoc raw now =
     (if length raw = 0 \<or> length raw > MaximumBodyBytes
      then Inl (Error ''relay control message size is invalid'')
      else case decodeDoc raw of
             None \<Rightarrow> Inl (Error ''decode relay control message'')
           | Some (message, atEnd) \<Rightarrow>
               if \<not> atEnd then Inl (Error ''relay control message must contain one JSON document'')
               else bindE (valid message now) (\<lambda>_. Inr message))"

section \<open>Verification keys\<close>

record ParsedVerificationKey =
  pk_PublicKey :: bytes
  pk_NotBefore :: time
  pk_NotAfter :: time

text \<open>\<open>encodeKey\<close> is \<^verbatim>\<open>x509.MarshalPKIXPublicKey\<close> followed by \<^verbatim>\<open>pem.EncodeToMemory\<close>.\<close>

fun newKeys_loop ::
  "(bytes \<Rightarrow> string option) \<Rightarrow> (string \<times> bytes) list \<Rightarrow> time \<Rightarrow> time \<Rightarrow> string list
     \<Rightarrow> failure + VerificationKey list" where
  "newKeys_loop encodeKey keys notBefore notAfter [] = Inr []"
| "newKeys_loop encodeKey keys notBefore notAfter (keyID # keyIDs) =
     (let key = (case map_of keys keyID of None \<Rightarrow> [] | Some k \<Rightarrow> k) in
      if length key \<noteq> 32 then Inl (Error ''RelayTicket verification key is invalid'')
      else case encodeKey key of
             None \<Rightarrow> Inl (Error ''encode RelayTicket verification key'')
           | Some text \<Rightarrow>
               bindE (newKeys_loop encodeKey keys notBefore notAfter keyIDs) (\<lambda>rest.
                 Inr (\<lparr> vk_ID = keyID, vk_Algorithm = ''EdDSA'', vk_PublicKey = text,
                        vk_NotBefore = notBefore, vk_NotAfter = notAfter \<rparr> # rest)))"

definition compareStrings :: "string \<Rightarrow> string \<Rightarrow> int" where
  "compareStrings left right = (if left < right then -1 else if left > right then 1 else 0)"

definition NewVerificationKeySet ::
  "(bytes \<Rightarrow> string option) \<Rightarrow> key_parser \<Rightarrow> 64 word \<Rightarrow> (string \<times> bytes) list \<Rightarrow> time \<Rightarrow> time
     \<Rightarrow> failure + VerificationKeySet" where
  "NewVerificationKeySet encodeKey parseKey generation keys notBefore notAfter =
     bindE (newKeys_loop encodeKey keys notBefore notAfter (SortFunc compareStrings (map fst keys))) (\<lambda>ks.
       let result = \<lparr> vs_Generation = generation, vs_Keys = ks \<rparr> in
       bindE (VerificationKeySet_validate parseKey result notBefore) (\<lambda>_. Inr result))"

text \<open>
  \<^verbatim>\<open>Parse\<close> validates first, so a key without a PEM block does not reach the loop; the loop would
  dereference the nil block.
\<close>

fun parse_loop ::
  "key_parser \<Rightarrow> (string \<times> ParsedVerificationKey) list \<Rightarrow> VerificationKey list
     \<Rightarrow> failure + (string \<times> ParsedVerificationKey) list" where
  "parse_loop parseKey result [] = Inr result"
| "parse_loop parseKey result (document # documents) =
     (case parseKey (vk_PublicKey document) of
        None \<Rightarrow> Inl Panic
      | Some (_, None, _) \<Rightarrow> Inl (Error ''parse RelayTicket verification key'')
      | Some (_, Some key, _) \<Rightarrow>
          parse_loop parseKey
            (AList.update (vk_ID document)
               \<lparr> pk_PublicKey = key, pk_NotBefore = vk_NotBefore document,
                 pk_NotAfter = vk_NotAfter document \<rparr> result)
            documents)"

definition VerificationKeySet_Parse ::
  "key_parser \<Rightarrow> VerificationKeySet \<Rightarrow> time \<Rightarrow> failure + (string \<times> ParsedVerificationKey) list" where
  "VerificationKeySet_Parse parseKey keys now =
     bindE (VerificationKeySet_validate parseKey keys now) (\<lambda>_. parse_loop parseKey [] (vs_Keys keys))"

section \<open>Key sets\<close>

definition key_ok :: "key_parser \<Rightarrow> VerificationKey \<Rightarrow> bool" where
  "key_ok parseKey key \<longleftrightarrow>
     safeIdentityValue (vk_ID key) 128 \<and> vk_Algorithm key = ''EdDSA'' \<and>
     \<not> IsZero (vk_NotBefore key) \<and> \<not> IsZero (vk_NotAfter key) \<and> vk_NotBefore key < vk_NotAfter key \<and>
     (\<exists>k. parseKey (vk_PublicKey key) = Some (''PUBLIC KEY'', Some k, '''') \<and> length k = 32)"

definition key_usable :: "time \<Rightarrow> VerificationKey \<Rightarrow> bool" where
  "key_usable now key \<longleftrightarrow> vk_NotBefore key \<le> now \<and> now < vk_NotAfter key"

lemma keys_loop_eq_Inr:
  "keys_loop parseKey now seen usable keys = Inr b \<longleftrightarrow>
     list_all (key_ok parseKey) keys \<and> distinct (map vk_ID keys) \<and> set seen \<inter> set (map vk_ID keys) = {} \<and>
     b = (usable \<or> list_ex (key_usable now) keys)"
proof (induction keys arbitrary: seen usable)
  case Nil
  then show ?case by auto
next
  case (Cons key keys)
  show ?case
  proof (cases "key_ok parseKey key \<and> vk_ID key \<notin> set seen")
    case True
    then have "keys_loop parseKey now seen usable (key # keys) =
        keys_loop parseKey now (vk_ID key # seen) (usable \<or> key_usable now key) keys"
      by (auto simp: key_ok_def key_usable_def not_less simp del: keys_loop.simps(1))
    then show ?thesis using True by (auto simp: Cons.IH)
  next
    case False
    then show ?thesis
      by (auto simp: key_ok_def split: option.splits if_splits)
  qed
qed

lemma keyset_validate_iff:
  "VerificationKeySet_validate parseKey keys now = Inr () \<longleftrightarrow>
     vs_Generation keys \<noteq> 0 \<and> vs_Keys keys \<noteq> [] \<and> length (vs_Keys keys) \<le> 8 \<and>
     list_all (key_ok parseKey) (vs_Keys keys) \<and> distinct (map vk_ID (vs_Keys keys)) \<and>
     list_ex (key_usable now) (vs_Keys keys)"
  by (auto simp: VerificationKeySet_validate_def bindE_eq_Inr keys_loop_eq_Inr checkE_eq not_less)

definition parsed_of :: "key_parser \<Rightarrow> VerificationKey \<Rightarrow> ParsedVerificationKey" where
  "parsed_of parseKey key =
     \<lparr> pk_PublicKey = the (fst (snd (the (parseKey (vk_PublicKey key))))),
       pk_NotBefore = vk_NotBefore key, pk_NotAfter = vk_NotAfter key \<rparr>"

lemma parse_loop_ok:
  assumes "list_all (key_ok parseKey) keys" "distinct (map vk_ID keys)"
  shows "\<exists>m. parse_loop parseKey acc keys = Inr m \<and>
    map_of m = map_of acc ++ map_of (map (\<lambda>k. (vk_ID k, parsed_of parseKey k)) keys)"
  using assms
proof (induction keys arbitrary: acc)
  case (Cons key keys)
  obtain k where k: "parseKey (vk_PublicKey key) = Some (''PUBLIC KEY'', Some k, '''')"
    using Cons.prems by (auto simp: key_ok_def)
  let ?v = "\<lparr> pk_PublicKey = k, pk_NotBefore = vk_NotBefore key, pk_NotAfter = vk_NotAfter key \<rparr>"
  let ?M = "map_of (map (\<lambda>k. (vk_ID k, parsed_of parseKey k)) keys)"
  obtain m where m: "parse_loop parseKey (AList.update (vk_ID key) ?v acc) keys = Inr m"
    "map_of m = map_of (AList.update (vk_ID key) ?v acc) ++ ?M"
    using Cons.IH [of "AList.update (vk_ID key) ?v acc"] Cons.prems by (auto simp del: map_of_map)
  have "vk_ID key \<notin> dom ?M"
    using Cons.prems(2) by (auto simp: dom_map_of_conv_image_fst)
  then have "map_of m = map_of acc ++ ?M(vk_ID key \<mapsto> ?v)"
    unfolding m(2) AList.update_conv' map_add_upd by (rule map_add_upd_left)
  moreover have "parsed_of parseKey key = ?v" by (simp add: parsed_of_def k)
  then have "map_of (map (\<lambda>k. (vk_ID k, parsed_of parseKey k)) (key # keys)) = ?M(vk_ID key \<mapsto> ?v)"
    by (simp add: fun_eq_iff)
  moreover have "parse_loop parseKey acc (key # keys) = Inr m" using k m(1) by simp
  ultimately show ?case by metis
qed simp

lemma Parse_ok:
  assumes "VerificationKeySet_validate parseKey keys now = Inr ()"
  shows "\<exists>m. VerificationKeySet_Parse parseKey keys now = Inr m \<and>
    map_of m = map_of (map (\<lambda>k. (vk_ID k, parsed_of parseKey k)) (vs_Keys keys))"
proof -
  have "list_all (key_ok parseKey) (vs_Keys keys)" "distinct (map vk_ID (vs_Keys keys))"
    using assms by (simp_all add: keyset_validate_iff)
  then show ?thesis
    using parse_loop_ok [of parseKey "vs_Keys keys" "[]"] assms
    by (simp add: VerificationKeySet_Parse_def bindE_def)
qed

lemma newKeys_loop_eq:
  assumes "newKeys_loop encodeKey keys nb na ids = Inr ks"
  shows "list_all2 (\<lambda>id doc. \<exists>k text. length k = 32 \<and> (case map_of keys id of None \<Rightarrow> [] | Some x \<Rightarrow> x) = k \<and>
     encodeKey k = Some text \<and> doc = \<lparr> vk_ID = id, vk_Algorithm = ''EdDSA'', vk_PublicKey = text,
       vk_NotBefore = nb, vk_NotAfter = na \<rparr>) ids ks"
  using assms
proof (induction ids arbitrary: ks)
  case (Cons id ids)
  then show ?case by (auto simp: Let_def bindE_eq_Inr split: if_splits option.splits)
qed simp

text \<open>Published keys are the keys that relays verify with: parsing a key set that was built from
  32-byte public keys succeeds at any time of their validity, without a nil dereference, and gives every key ID
  its key and validity period, provided that decoding a PEM text inverts its encoding.\<close>

theorem published_keys_parse:
  assumes "NewVerificationKeySet encodeKey parseKey generation keys notBefore notAfter = Inr keySet"
    and "distinct (map fst keys)"
    and inverse: "\<And>k text. encodeKey k = Some text \<Longrightarrow> parseKey text = Some (''PUBLIC KEY'', Some k, '''')"
    and "notBefore \<le> now" and "now < notAfter"
  shows "\<exists>parsed. VerificationKeySet_Parse parseKey keySet now = Inr parsed \<and>
    (\<forall>keyID. map_of parsed keyID = map_option (\<lambda>k. \<lparr> pk_PublicKey = k, pk_NotBefore = notBefore,
       pk_NotAfter = notAfter \<rparr>) (map_of keys keyID))"
proof -
  let ?ids = "SortFunc compareStrings (map fst keys)"
  obtain ks where ks: "newKeys_loop encodeKey keys notBefore notAfter ?ids = Inr ks"
    and set: "keySet = \<lparr> vs_Generation = generation, vs_Keys = ks \<rparr>"
    and ok: "VerificationKeySet_validate parseKey keySet notBefore = Inr ()"
    using assms(1) by (auto simp: NewVerificationKeySet_def Let_def bindE_eq_Inr)
  note docs = newKeys_loop_eq [OF ks]
  have "map vk_ID ks = ?ids" using docs
    by (auto intro!: nth_equalityI simp: list_all2_conv_all_nth)
  have doc: "\<exists>k. map_of keys (vk_ID d) = Some k \<and> parsed_of parseKey d = \<lparr> pk_PublicKey = k,
      pk_NotBefore = notBefore, pk_NotAfter = notAfter \<rparr> \<and> key_usable now d" if dk: "d \<in> set ks" for d
  proof -
    obtain j where j: "j < length ks" "d = ks ! j" using dk by (auto simp: in_set_conv_nth)
    obtain i k pem where "length k = 32" "(case map_of keys i of None \<Rightarrow> [] | Some x \<Rightarrow> x) = k"
      and e: "encodeKey k = Some pem" and d: "d = \<lparr> vk_ID = i, vk_Algorithm = ''EdDSA'', vk_PublicKey = pem,
        vk_NotBefore = notBefore, vk_NotAfter = notAfter \<rparr>"
      using list_all2_nthD2 [OF docs j(1)] j(2) by blast
    then have "map_of keys i = Some k" by (auto split: option.splits)
    then show ?thesis using inverse [OF e] assms(4,5) by (simp add: d parsed_of_def key_usable_def)
  qed
  have ids: "vk_ID ` set ks = fst ` set keys"
    using \<open>map vk_ID ks = ?ids\<close> by (metis list.set_map set_SortFunc)
  have "VerificationKeySet_validate parseKey keySet now = Inr ()"
    using ok doc unfolding keyset_validate_iff set by (cases ks) auto
  then obtain m where m: "VerificationKeySet_Parse parseKey keySet now = Inr m"
    "map_of m = map_of (map (\<lambda>k. (vk_ID k, parsed_of parseKey k)) ks)" using Parse_ok set by fastforce
  have d: "distinct (map vk_ID ks)" using ok by (simp add: keyset_validate_iff set)
  have "map_of m keyID = map_option (\<lambda>k. \<lparr> pk_PublicKey = k, pk_NotBefore = notBefore,
       pk_NotAfter = notAfter \<rparr>) (map_of keys keyID)" for keyID
  proof (cases "keyID \<in> fst ` set keys")
    case True
    then obtain x where x: "x \<in> set ks" "vk_ID x = keyID" using ids by (metis imageE)
    then have "map_of (map (\<lambda>k. (vk_ID k, parsed_of parseKey k)) ks) keyID = Some (parsed_of parseKey x)"
      using d by (intro map_of_is_SomeI) (auto simp: comp_def)
    then show ?thesis using m(2) doc [OF x(1)] x(2) by auto
  next
    case False
    then have "map_of keys keyID = None" "map_of m keyID = None"
      using m(2) ids by (auto simp: map_of_eq_None_iff image_image)
    then show ?thesis by simp
  qed
  then show ?thesis using m(1) by blast
qed

theorem published_keys_parse_witness:
  "\<exists>parsed. VerificationKeySet_Parse (\<lambda>s. Some (''PUBLIC KEY'', Some (bytes_of_str s), ''''))
     \<lparr> vs_Generation = 1, vs_Keys = [\<lparr> vk_ID = ''k1'', vk_Algorithm = ''EdDSA'',
        vk_PublicKey = str_of_bytes (replicate 32 7), vk_NotBefore = 1, vk_NotAfter = 3 \<rparr>] \<rparr> 2 = Inr parsed \<and>
     map_of parsed ''k1'' = Some \<lparr> pk_PublicKey = replicate 32 7, pk_NotBefore = 1, pk_NotAfter = 3 \<rparr>"
proof -
  let ?parse = "\<lambda>s. Some (''PUBLIC KEY'', Some (bytes_of_str s), '''')"
  let ?encode = "\<lambda>k. Some (str_of_bytes k)"
  have "NewVerificationKeySet ?encode ?parse 1 [(''k1'', replicate 32 7)] 1 3 = Inr \<lparr> vs_Generation = 1,
      vs_Keys = [\<lparr> vk_ID = ''k1'', vk_Algorithm = ''EdDSA'',
        vk_PublicKey = str_of_bytes (replicate 32 7), vk_NotBefore = 1, vk_NotAfter = 3 \<rparr>] \<rparr>"
    by (simp add: NewVerificationKeySet_def bindE_def checkE_def VerificationKeySet_validate_def
        safeIdentityValue_def text_eval identity_rune_def IsZero_def)
  from published_keys_parse [OF this, of 2] show ?thesis by auto
qed

text \<open>Version negotiation picks the first version of the local preference that the peer supports, and fails
  exactly when a list is malformed or the lists have no version in common.\<close>

theorem negotiation_prefers_local:
  "NegotiateVersion prefer peer =
     (if validVersionList prefer \<and> validVersionList peer
      then (case filter (\<lambda>v. v \<in> set peer) prefer of
              [] \<Rightarrow> Inl (Error ''relay protocol versions are incompatible'')
            | v # _ \<Rightarrow> Inr v)
      else Inl (Error ''relay protocol version list is invalid''))"
proof -
  have "NegotiateVersion_loop peer vs = (case filter (\<lambda>v. v \<in> set peer) vs of
      [] \<Rightarrow> Inl (Error ''relay protocol versions are incompatible'') | v # _ \<Rightarrow> Inr v)" for vs
    by (induction vs) auto
  then show ?thesis by (simp add: NegotiateVersion_def)
qed

text \<open>A registration response whose ticket issuer is not a URL makes the validation dereference a nil
  pointer.\<close>

theorem malformed_issuer_panics:
  assumes "urlParse (TicketIssuer response) = None" and "APIVersion response = APIVersionV1"
    and "Kind response = ''RelayRegistrationResult''" and "SelectedVersion response = APIVersionV1"
  shows "RegistrationResponse_Validate urlParse uuidOk parseKey response now = Inl Panic"
  using assms by (simp add: RegistrationResponse_Validate_def validateVersions_def validTicketIssuer_def bindE_def)

end
