(* ===== verification/RelayRegistry.thy ===== *)
theory RelayRegistry
  imports RelayControl Complex_Main "HOL-Library.Product_Lexorder"
begin

text \<open>
  The Control Plane's registry of Data Plane relays, \<^verbatim>\<open>internal/controlplane/relayregistry\<close>: relay
  registration and heartbeats (\<^verbatim>\<open>registry_registration.go\<close>), the assignment of sessions to relays and its
  release (\<^verbatim>\<open>registry_allocation.go\<close>, \<^verbatim>\<open>registry_internal.go\<close>), the construction and the status of a
  registry (\<^verbatim>\<open>registry_core.go\<close>, \<^verbatim>\<open>registry_state.go\<close>) and the policy for advertised endpoints
  (\<^verbatim>\<open>policy.go\<close>, \<^verbatim>\<open>allowed_hosts.go\<close>).

  Every method holds the registry's mutex from its first to its last statement, so a method is one step
  from a registry to a result and a registry. The time read from \<^verbatim>\<open>config.Now\<close> and the UUID of a new lease
  are arguments. The two Go maps are association lists with distinct keys; the records that
  \<^verbatim>\<open>relays\<close> points to are reachable through that map only, so they are its values. \<open>env\<close> bundles
  the library functions that the validation of messages relies on.
\<close>

section \<open>State\<close>

record env =
  env_ul :: "string \<Rightarrow> string"
  env_sha256 :: "string \<Rightarrow> bytes"
  env_urlParse :: "string \<Rightarrow> URL option"
  env_uuidOk :: "string \<Rightarrow> bool"
  env_parseKey :: key_parser

datatype reg_error =
  ErrNotFound | ErrConflict | ErrUnavailable | ErrAssignedRelayUnavailable | Failed failure

type_synonym endpoint_policy = "PeerIdentity \<Rightarrow> string \<Rightarrow> failure + unit"

record Config =
  cf_TicketIssuer :: string
  cf_LeaseDuration :: duration
  cf_HeartbeatAfter :: duration
  cf_SupportedVersions :: "string list"
  cf_VerificationKeys :: VerificationKeySet
  cf_EndpointPolicy :: "endpoint_policy option"

record relayRecord =
  rl_identity :: PeerIdentity
  rl_relayID :: string
  rl_leaseID :: string
  rl_endpoint :: string
  rl_state :: string
  rl_capacity :: Capacity
  rl_appliedKeyGeneration :: "64 word"
  rl_leaseExpiresAt :: time
  rl_lastHeartbeatAt :: time
  rl_reservations :: "32 word"
  rl_selectedVersion :: string
  rl_trafficEncryption :: bool
  rl_noisePublicKey :: string

record assignmentRecord =
  as_response :: AllocationResponse
  as_generation :: "64 word"
  as_networkSpecHash :: string

record Registry =
  rg_config :: Config
  rg_relays :: "(string \<times> relayRecord) list"
  rg_assignments :: "(string \<times> assignmentRecord) list"

record RelayStatus =
  st_RelayID :: string
  st_Endpoint :: string
  st_State :: string
  st_Capacity :: Capacity
  st_AppliedKeyGeneration :: "64 word"
  st_LeaseExpiresAt :: time
  st_LastHeartbeatAt :: time
  st_Reservations :: "32 word"
  st_Online :: bool
  st_Topology :: "(string \<times> string) list"

type_synonym 'a reg_result = "(reg_error + 'a) \<times> Registry"

text \<open>A validation error becomes the error of the method.\<close>

definition mapErr :: "failure + 'a \<Rightarrow> reg_error + 'a" where
  "mapErr r = (case r of Inl e \<Rightarrow> Inl (Failed e) | Inr a \<Rightarrow> Inr a)"

text \<open>A method that returns the error \<open>r\<close> holds, or goes on with its value.\<close>

definition try_with :: "Registry \<Rightarrow> reg_error + 'b \<Rightarrow> ('b \<Rightarrow> 'a reg_result) \<Rightarrow> 'a reg_result" where
  "try_with registry r k = (case r of Inl e \<Rightarrow> (Inl e, registry) | Inr b \<Rightarrow> k b)"

section \<open>Construction\<close>

definition NewRegistry :: "env \<Rightarrow> Config \<Rightarrow> time \<Rightarrow> failure + Registry" where
  "NewRegistry env config now =
     (let issuerText = TrimRight (TrimSpace (cf_TicketIssuer config)) CHR ''/'';
          badIssuer = Error ''relay registry Ticket issuer must be an absolute HTTP or HTTPS URL'';
          lease = (if cf_LeaseDuration config = 0 then 45 * Second else cf_LeaseDuration config);
          heartbeat = (if cf_HeartbeatAfter config = 0 then 10 * Second else cf_HeartbeatAfter config);
          versions = (if length (cf_SupportedVersions config) = 0 then [APIVersionV2, APIVersionV1]
                      else cf_SupportedVersions config)
      in
      case env_urlParse env issuerText of
        None \<Rightarrow> Inl badIssuer
      | Some issuer \<Rightarrow>
          if Scheme issuer \<noteq> ''http'' \<and> Scheme issuer \<noteq> ''https'' \<or> Host issuer = '''' \<or> HasUser issuer \<or>
             RawQuery issuer \<noteq> '''' \<or> Fragment issuer \<noteq> ''''
          then Inl badIssuer
          else if lease < 5 * Second \<or> lease > 5 * Minute \<or> heartbeat < Second \<or> heartbeat > Minute \<or>
             heartbeat \<ge> lease
          then Inl (Error ''relay registry lease configuration is invalid'')
          else bindE (NegotiateVersion versions [APIVersionV2, APIVersionV1]) (\<lambda>_.
            bindE (VerificationKeySet_validate (env_parseKey env) (cf_VerificationKeys config) now) (\<lambda>_.
              Inr \<lparr> rg_config = config \<lparr> cf_TicketIssuer := issuerText, cf_LeaseDuration := lease,
                      cf_HeartbeatAfter := heartbeat, cf_SupportedVersions := versions \<rparr>,
                    rg_relays = [], rg_assignments = [] \<rparr>)))"

section \<open>Helpers\<close>

definition availableLocked :: "Registry \<Rightarrow> relayRecord \<Rightarrow> time \<Rightarrow> bool" where
  "availableLocked registry relay now =
     (if rl_state relay \<noteq> StateReady \<or> \<not> rl_leaseExpiresAt relay > now \<or>
         rl_appliedKeyGeneration relay < vs_Generation (cf_VerificationKeys (rg_config registry))
      then False
      else let logical = (ucast (ActiveLogicalStreams (rl_capacity relay)) :: 64 word) +
                         ucast (rl_reservations relay) in
        logical < ucast (MaximumLogicalStreams (rl_capacity relay)) \<and>
        ActivePhysicalConnections (rl_capacity relay) < MaximumPhysicalConnections (rl_capacity relay))"

definition assignmentCountLocked :: "Registry \<Rightarrow> string \<Rightarrow> 32 word" where
  "assignmentCountLocked registry relayID =
     fold (\<lambda>(_, assignment) count.
             if ar_RelayID (as_response assignment) = relayID then count + 1 else count)
       (rg_assignments registry) 0"

text \<open>Indexing a Go map of strings gives the empty string for an absent key.\<close>

definition mapIndex :: "(string \<times> string) list \<Rightarrow> string \<Rightarrow> string" where
  "mapIndex m key = (case map_of m key of None \<Rightarrow> '''' | Some v \<Rightarrow> v)"

definition topologyMatches :: "(string \<times> string) list \<Rightarrow> (string \<times> string) list \<Rightarrow> nat" where
  "topologyMatches topology wanted = length (filter (\<lambda>(key, val). mapIndex topology key = val) wanted)"

definition compareTopology ::
  "(string \<times> string) list \<Rightarrow> (string \<times> string) list \<Rightarrow> (string \<times> string) list \<Rightarrow> int" where
  "compareTopology left right wanted =
     (let leftMatches = topologyMatches left wanted; rightMatches = topologyMatches right wanted in
      if leftMatches > rightMatches then -1 else if leftMatches < rightMatches then 1 else 0)"

definition compareRatio :: "32 word \<Rightarrow> 32 word \<Rightarrow> 32 word \<Rightarrow> 32 word \<Rightarrow> int" where
  "compareRatio leftValue leftMaximum rightValue rightMaximum =
     (let left = (ucast leftValue :: 64 word) * ucast rightMaximum;
          right = (ucast rightValue :: 64 word) * ucast leftMaximum in
      if left < right then -1 else if left > right then 1 else 0)"

definition relaySupportsEncryption :: "relayRecord \<Rightarrow> bool \<Rightarrow> bool" where
  "relaySupportsEncryption relay wanted =
     (if rl_trafficEncryption relay \<noteq> wanted then False
      else if \<not> wanted then True
      else rl_selectedVersion relay = APIVersionV2 \<and> rl_noisePublicKey relay \<noteq> '''')"

definition registrationResponseLocked ::
  "Registry \<Rightarrow> relayRecord \<Rightarrow> string \<Rightarrow> RegistrationResponse" where
  "registrationResponseLocked registry relay selectedVersion =
     NewRegistrationResponse
       \<lparr> SelectedVersion := selectedVersion,
         TicketIssuer := cf_TicketIssuer (rg_config registry),
         rp_RelayID := rl_relayID relay, rp_LeaseID := rl_leaseID relay,
         rp_LeaseExpiresAt := rl_leaseExpiresAt relay,
         rp_HeartbeatAfter := cf_HeartbeatAfter (rg_config registry),
         rp_Keys := cf_VerificationKeys (rg_config registry) \<rparr>"

section \<open>Registration and heartbeats\<close>

definition Register ::
  "env \<Rightarrow> Registry \<Rightarrow> time \<Rightarrow> string \<Rightarrow> PeerIdentity \<Rightarrow> RegistrationRequest
     \<Rightarrow> RegistrationResponse reg_result" where
  "Register env registry now freshLease identity request =
     try_with registry (mapErr (PeerIdentity_Validate identity)) (\<lambda>_.
     try_with registry (mapErr (RegistrationRequest_Validate (env_urlParse env) request now)) (\<lambda>_.
     try_with registry (mapErr (NegotiateVersion (cf_SupportedVersions (rg_config registry))
                          (SupportedVersions request))) (\<lambda>selectedVersion.
     try_with registry
       (case cf_EndpointPolicy (rg_config registry) of
          None \<Rightarrow> Inr ()
        | Some policy \<Rightarrow> mapErr (policy identity (rr_Endpoint request))) (\<lambda>_.
     try_with registry (mapErr (RelayID (env_ul env) (env_sha256 env) identity)) (\<lambda>relayID.
       let relay = \<lparr> rl_identity = identity, rl_relayID = relayID, rl_leaseID = freshLease,
             rl_endpoint = rr_Endpoint request, rl_state = rr_State request,
             rl_capacity = rr_Capacity request, rl_appliedKeyGeneration = 0,
             rl_leaseExpiresAt = now + cf_LeaseDuration (rg_config registry),
             rl_lastHeartbeatAt = now,
             rl_reservations = assignmentCountLocked registry relayID,
             rl_selectedVersion = selectedVersion, rl_trafficEncryption = False,
             rl_noisePublicKey = '''' \<rparr>;
           registry' = registry \<lparr> rg_relays := AList.update relayID relay (rg_relays registry) \<rparr>
       in (Inr (registrationResponseLocked registry' relay selectedVersion), registry'))))))"

definition Heartbeat ::
  "env \<Rightarrow> Registry \<Rightarrow> time \<Rightarrow> PeerIdentity \<Rightarrow> HeartbeatRequest \<Rightarrow> HeartbeatResponse reg_result" where
  "Heartbeat env registry now identity request =
     try_with registry (mapErr (PeerIdentity_Validate identity)) (\<lambda>_.
     try_with registry (mapErr (HeartbeatRequest_Validate (env_uuidOk env) request now)) (\<lambda>_.
     try_with registry (mapErr (RelayID (env_ul env) (env_sha256 env) identity)) (\<lambda>relayID.
       case map_of (rg_relays registry) relayID of
         None \<Rightarrow> (Inl ErrNotFound, registry)
       | Some relay \<Rightarrow>
           if rl_leaseID relay \<noteq> hr_LeaseID request then (Inl ErrConflict, registry)
           else if rl_selectedVersion relay \<noteq> APIVersion request then (Inl ErrConflict, registry)
           else if \<not> rl_leaseExpiresAt relay > now then (Inl ErrNotFound, registry)
           else if AppliedKeyGeneration request > vs_Generation (cf_VerificationKeys (rg_config registry))
           then (Inl (Failed (Error ''relay reports an unknown control-plane generation'')), registry)
           else
             let relay' = relay
                   \<lparr> rl_state := hr_State request, rl_capacity := hr_Capacity request,
                     rl_appliedKeyGeneration := AppliedKeyGeneration request,
                     rl_lastHeartbeatAt := now,
                     rl_leaseExpiresAt := now + cf_LeaseDuration (rg_config registry),
                     rl_trafficEncryption := (hr_TrafficEncryption request = Some True),
                     rl_noisePublicKey := hr_NoisePublicKey request \<rparr>
             in (Inr ((NewHeartbeatResponseForVersion (rl_selectedVersion relay'))
                      \<lparr> hp_LeaseExpiresAt := rl_leaseExpiresAt relay',
                        hp_HeartbeatAfter := cf_HeartbeatAfter (rg_config registry) \<rparr>),
                 registry \<lparr> rg_relays := AList.update relayID relay' (rg_relays registry) \<rparr>))))"

section \<open>Allocation and release\<close>

definition compareRelays :: "(string \<times> string) list \<Rightarrow> relayRecord \<Rightarrow> relayRecord \<Rightarrow> int" where
  "compareRelays wanted left right =
     (let c1 = compareTopology (pi_Topology (rl_identity left)) (pi_Topology (rl_identity right)) wanted in
      if c1 \<noteq> 0 then c1
      else let c2 = compareRatio
             (ActiveLogicalStreams (rl_capacity left) + rl_reservations left)
             (MaximumLogicalStreams (rl_capacity left))
             (ActiveLogicalStreams (rl_capacity right) + rl_reservations right)
             (MaximumLogicalStreams (rl_capacity right)) in
      if c2 \<noteq> 0 then c2
      else let c3 = compareRatio
             (ActivePhysicalConnections (rl_capacity left)) (MaximumPhysicalConnections (rl_capacity left))
             (ActivePhysicalConnections (rl_capacity right)) (MaximumPhysicalConnections (rl_capacity right)) in
      if c3 \<noteq> 0 then c3
      else if rl_relayID left < rl_relayID right then -1
      else if rl_relayID left > rl_relayID right then 1
      else 0)"

definition setReservations :: "Registry \<Rightarrow> string \<Rightarrow> relayRecord \<Rightarrow> 32 word \<Rightarrow> Registry" where
  "setReservations registry key relay n =
     registry \<lparr> rg_relays := AList.update key (relay \<lparr> rl_reservations := n \<rparr>) (rg_relays registry) \<rparr>"

text \<open>
  The part of \<^verbatim>\<open>Allocate\<close> from the collection of the candidates on. \<open>displaced\<close> is the assignment being
  replaced with its relay and whether that relay's reservation was released, \<open>None\<close> when the session
  had none.
\<close>

definition assignNew ::
  "Registry \<Rightarrow> time \<Rightarrow> AllocationRequest \<Rightarrow> bool
     \<Rightarrow> (assignmentRecord \<times> bool) option \<Rightarrow> AllocationResponse reg_result" where
  "assignNew registry now request wantedEncryption displaced =
     (let candidates = filter (\<lambda>(key, relay). availableLocked registry relay now \<and>
                                 relaySupportsEncryption relay wantedEncryption) (rg_relays registry) in
      if length candidates = 0 then
        (case displaced of
           Some (assignment, reservationReleased) \<Rightarrow>
             let registry' = registry \<lparr> rg_assignments :=
                   AList.update (al_SessionID request) assignment (rg_assignments registry) \<rparr>;
                 key = ar_RelayID (as_response assignment) in
             (Inl ErrAssignedRelayUnavailable,
              if reservationReleased then
                (case map_of (rg_relays registry) key of
                   None \<Rightarrow> registry'
                 | Some displacedRelay \<Rightarrow>
                     setReservations registry' key displacedRelay (rl_reservations displacedRelay + 1))
              else registry')
         | None \<Rightarrow> (Inl ErrUnavailable, registry))
      else
        let (key, selected) = hd (SortFunc (\<lambda>(_, left) (_, right).
                                  compareRelays (al_Topology request) left right) candidates);
            registry' = setReservations registry key selected (rl_reservations selected + 1);
            assignment = NewAllocationResponse
              \<lparr> ar_RelayID := rl_relayID selected, ar_LeaseID := rl_leaseID selected,
                ar_Endpoint := rl_endpoint selected, ar_AssignedAt := now,
                ar_TrafficEncryption := rl_trafficEncryption selected,
                ar_NoisePublicKey := rl_noisePublicKey selected \<rparr>
        in (Inr assignment,
            registry' \<lparr> rg_assignments := AList.update (al_SessionID request)
               \<lparr> as_response = assignment, as_generation = al_Generation request,
                 as_networkSpecHash = al_NetworkSpecHash request \<rparr> (rg_assignments registry) \<rparr>))"

definition Allocate ::
  "env \<Rightarrow> Registry \<Rightarrow> time \<Rightarrow> AllocationRequest \<Rightarrow> AllocationResponse reg_result" where
  "Allocate env registry now request =
     try_with registry (mapErr (AllocationRequest_Validate (env_uuidOk env) request now)) (\<lambda>_.
       let wantedEncryption = (al_TrafficEncryption request = Some True) in
       case map_of (rg_assignments registry) (al_SessionID request) of
         None \<Rightarrow> assignNew registry now request wantedEncryption None
       | Some existing \<Rightarrow>
           if al_Generation request < as_generation existing \<or>
              al_Generation request = as_generation existing \<and>
              al_NetworkSpecHash request \<noteq> as_networkSpecHash existing
           then (Inl ErrConflict, registry)
           else
             let key = ar_RelayID (as_response existing);
                 found = map_of (rg_relays registry) key;
                 unusable = (case found of None \<Rightarrow> True
                   | Some relay \<Rightarrow> rl_leaseID relay \<noteq> ar_LeaseID (as_response existing) \<or>
                       \<not> availableLocked registry relay now \<or>
                       \<not> relaySupportsEncryption relay wantedEncryption) in
             if unusable then
               (if al_Generation request = as_generation existing
                then (Inl ErrAssignedRelayUnavailable, registry)
                else
                  let registry' = registry \<lparr> rg_assignments :=
                        AList.delete (al_SessionID request) (rg_assignments registry) \<rparr> in
                  case found of
                    Some relay \<Rightarrow>
                      if rl_reservations relay > 0
                      then assignNew (setReservations registry' key relay (rl_reservations relay - 1))
                             now request wantedEncryption (Some (existing, True))
                      else assignNew registry' now request wantedEncryption (Some (existing, False))
                  | None \<Rightarrow> assignNew registry' now request wantedEncryption (Some (existing, False)))
             else
               (Inr (as_response existing),
                registry \<lparr> rg_assignments := AList.update (al_SessionID request)
                  (existing \<lparr> as_generation := al_Generation request,
                     as_networkSpecHash := al_NetworkSpecHash request \<rparr>) (rg_assignments registry) \<rparr>))"

definition Release :: "Registry \<Rightarrow> string \<Rightarrow> 64 word \<Rightarrow> bool \<times> Registry" where
  "Release registry sessionID generation =
     (case map_of (rg_assignments registry) sessionID of
        None \<Rightarrow> (False, registry)
      | Some assignment \<Rightarrow>
          if as_generation assignment \<noteq> generation then (False, registry)
          else
            let registry' = registry \<lparr> rg_assignments := AList.delete sessionID (rg_assignments registry) \<rparr>;
                key = ar_RelayID (as_response assignment) in
            case map_of (rg_relays registry) key of
              None \<Rightarrow> (True, registry')
            | Some relay \<Rightarrow>
                if rl_reservations relay > 0
                then (True, setReservations registry' key relay (rl_reservations relay - 1))
                else (True, registry'))"

section \<open>Status\<close>

definition relayStatus :: "relayRecord \<Rightarrow> time \<Rightarrow> RelayStatus" where
  "relayStatus relay now =
     \<lparr> st_RelayID = rl_relayID relay, st_Endpoint = rl_endpoint relay, st_State = rl_state relay,
       st_Capacity = rl_capacity relay, st_AppliedKeyGeneration = rl_appliedKeyGeneration relay,
       st_LeaseExpiresAt = rl_leaseExpiresAt relay, st_LastHeartbeatAt = rl_lastHeartbeatAt relay,
       st_Reservations = rl_reservations relay, st_Online = (rl_leaseExpiresAt relay > now),
       st_Topology = pi_Topology (rl_identity relay) \<rparr>"

definition Snapshot :: "Registry \<Rightarrow> time \<Rightarrow> RelayStatus list" where
  "Snapshot registry now =
     SortFunc (\<lambda>left right. compareStrings (st_RelayID left) (st_RelayID right))
       (map (\<lambda>(_, relay). relayStatus relay now) (rg_relays registry))"

section \<open>Endpoint policy\<close>

definition hostCandidateOk :: "string \<Rightarrow> bool" where
  "hostCandidateOk candidate \<longleftrightarrow>
     \<not> (candidate = '''' \<or> ContainsAny candidate ''/:@[]'' \<or> HasSuffix candidate ''.'' \<or>
        candidate = ''.'' \<or> Contains candidate ''..'')"

fun hostAllowed :: "string \<Rightarrow> string list \<Rightarrow> bool" where
  "hostAllowed host [] = False"
| "hostAllowed host (allowedHost # rest) =
     (if HasPrefix allowedHost ''.'' then
        (if HasSuffix host allowedHost \<and> length host > length allowedHost then True
         else hostAllowed host rest)
      else if host = allowedHost then True
      else hostAllowed host rest)"

definition EndpointHostPolicy :: "env \<Rightarrow> string list \<Rightarrow> failure + endpoint_policy" where
  "EndpointHostPolicy env allowed =
     (let normalized = map (\<lambda>candidate. ToLower (env_ul env) (TrimSpace candidate)) allowed in
      if \<not> list_all hostCandidateOk normalized then Inl (Error ''relay endpoint host policy is invalid'')
      else if length normalized = 0 then Inl (Error ''at least one Relay endpoint host is required'')
      else Inr (\<lambda>_ endpoint.
        case env_urlParse env endpoint of
          None \<Rightarrow> Inl (Error ''relay endpoint is invalid'')
        | Some parsed \<Rightarrow>
            checkE (hostAllowed (ToLower (env_ul env) (Hostname parsed)) normalized)
              (Error ''relay endpoint host is not allowed'')))"

definition ResolveAllowedHosts :: "env \<Rightarrow> string \<Rightarrow> string \<Rightarrow> failure + string list" where
  "ResolveAllowedHosts env configured publicURL =
     (if TrimSpace configured \<noteq> '''' then
        let result = filter (\<lambda>v. v \<noteq> '''') (map TrimSpace (Split configured CHR '','')) in
        if length result = 0 then Inl (Error ''relay endpoint allowed hosts are empty'') else Inr result
      else case env_urlParse env (TrimSpace publicURL) of
             None \<Rightarrow> Inl (Error ''public URL is required to derive the Relay endpoint host'')
           | Some parsed \<Rightarrow>
               if Hostname parsed = ''''
               then Inl (Error ''public URL is required to derive the Relay endpoint host'')
               else Inr [Hostname parsed])"

section \<open>The bookkeeping invariant\<close>

lemma mapErr_eq_Inr [simp]: "mapErr r = Inr a \<longleftrightarrow> r = Inr a"
  by (cases r) (auto simp: mapErr_def)

lemma try_with_eq:
  "try_with registry r k = out \<longleftrightarrow>
     (\<exists>e. r = Inl e \<and> out = (Inl e, registry)) \<or> (\<exists>b. r = Inr b \<and> k b = out)"
  by (cases r) (auto simp: try_with_def)

text \<open>The number of sessions assigned to a relay.\<close>

definition sessionsOn :: "(string \<times> assignmentRecord) list \<Rightarrow> string \<Rightarrow> nat" where
  "sessionsOn assignments key =
     length (filter (\<lambda>(_, a). ar_RelayID (as_response a) = key) assignments)"

text \<open>
  Every relay is stored under its ID with a valid capacity, every assignment names a relay of the registry,
  and the reservations of a relay are the assignments that name it.
\<close>

definition wf_reg :: "Registry \<Rightarrow> bool" where
  "wf_reg registry \<longleftrightarrow>
     distinct (map fst (rg_relays registry)) \<and> distinct (map fst (rg_assignments registry)) \<and>
     (\<forall>k r. map_of (rg_relays registry) k = Some r \<longrightarrow>
        rl_relayID r = k \<and> Capacity_validate (rl_capacity r) = Inr () \<and>
        rl_reservations r = of_nat (sessionsOn (rg_assignments registry) k)) \<and>
     (\<forall>s a. map_of (rg_assignments registry) s = Some a \<longrightarrow>
        map_of (rg_relays registry) (ar_RelayID (as_response a)) \<noteq> None) \<and>
     (\<forall>k. sessionsOn (rg_assignments registry) k \<le> 2 ^ 24)"

lemma assignmentCount_sessionsOn:
  "assignmentCountLocked registry k = of_nat (sessionsOn (rg_assignments registry) k)"
proof -
  have "fold (\<lambda>(_, a) count. if ar_RelayID (as_response a) = k then count + 1 else count) xs n
      = n + (of_nat (sessionsOn xs k) :: 32 word)" for xs n
    by (induction xs arbitrary: n) (auto simp: sessionsOn_def)
  then show ?thesis by (simp add: assignmentCountLocked_def)
qed

lemma unat_of_nat_small: "n \<le> 2 ^ 24 \<Longrightarrow> unat (of_nat n :: 32 word) = n"
  by (simp add: unat_of_nat take_bit_nat_eq_self)

lemma sessionsOn_update:
  assumes "distinct (map fst xs)" "map_of xs s = None"
  shows "sessionsOn (AList.update s a xs) k = sessionsOn xs k + (if ar_RelayID (as_response a) = k then 1 else 0)"
  using length_filter_update [OF assms(1), of "\<lambda>(_, a). ar_RelayID (as_response a) = k" s a] assms(2)
  by (simp add: sessionsOn_def map_of_eq_None_iff)

lemma sessionsOn_delete:
  assumes "distinct (map fst xs)" "map_of xs s = Some a"
  shows "sessionsOn xs k = sessionsOn (AList.delete s xs) k + (if ar_RelayID (as_response a) = k then 1 else 0)"
  using length_filter_delete [OF assms, of "\<lambda>(_, a). ar_RelayID (as_response a) = k"]
  by (simp add: sessionsOn_def)

lemma sessionsOn_same_relay:
  assumes "distinct (map fst xs)" "map_of xs s = Some a" "ar_RelayID (as_response b) = ar_RelayID (as_response a)"
  shows "sessionsOn (AList.update s b xs) k = sessionsOn xs k"
  using length_filter_update [OF assms(1), of "\<lambda>(_, a). ar_RelayID (as_response a) = k" s b]
    sessionsOn_delete [OF assms(1,2), of k] assms(3)
  by (simp add: sessionsOn_def)

lemmas alist_maps = AList.update_conv' AList.delete_conv' AList.distinct_update AList.distinct_delete

lemma setReservations_fields [simp]:
  "rg_config (setReservations registry key relay n) = rg_config registry"
  "rg_assignments (setReservations registry key relay n) = rg_assignments registry"
  "map_of (rg_relays (setReservations registry key relay n)) =
     (map_of (rg_relays registry))(key \<mapsto> relay \<lparr> rl_reservations := n \<rparr>)"
  "distinct (map fst (rg_relays (setReservations registry key relay n))) =
     distinct (map fst (rg_relays registry))"
  by (auto simp: setReservations_def alist_maps AList.update_keys)

text \<open>Adding an assignment together with a reservation keeps the invariant.\<close>

lemma wf_reg_add:
  assumes "wf_reg registry" and "map_of (rg_assignments registry) s = None"
    and "map_of (rg_relays registry) key = Some relay" and "ar_RelayID (as_response a) = key"
    and "sessionsOn (rg_assignments registry) key < 2 ^ 24"
  shows "wf_reg ((setReservations registry key relay (rl_reservations relay + 1))
           \<lparr> rg_assignments := AList.update s a (rg_assignments registry) \<rparr>)"
  using assms by (auto simp: wf_reg_def alist_maps sessionsOn_update Suc_le_eq split: if_splits)

text \<open>Removing an assignment together with its reservation keeps the invariant.\<close>

lemma wf_reg_remove:
  assumes "wf_reg registry" and "map_of (rg_assignments registry) s = Some a"
    and "key = ar_RelayID (as_response a)"
  obtains relay where "map_of (rg_relays registry) key = Some relay" and "rl_reservations relay > 0"
    and "wf_reg (setReservations
           (registry \<lparr> rg_assignments := AList.delete s (rg_assignments registry) \<rparr>) key relay
           (rl_reservations relay - 1))"
    and "sessionsOn (AList.delete s (rg_assignments registry)) key < 2 ^ 24"
proof -
  let ?as = "rg_assignments registry"
  have d: "distinct (map fst ?as)" using assms(1) by (simp add: wf_reg_def)
  note del = sessionsOn_delete [OF d assms(2)]
  obtain relay where r: "map_of (rg_relays registry) key = Some relay"
    using assms unfolding wf_reg_def by blast
  have le: "sessionsOn ?as k \<le> 2 ^ 24" for k using assms(1) by (simp add: wf_reg_def)
  have res: "rl_reservations relay = of_nat (Suc (sessionsOn (AList.delete s ?as) key))"
    using assms(1,3) r del [of key] by (simp add: wf_reg_def)
  have le': "sessionsOn (AList.delete s ?as) k \<le> 2 ^ 24" for k
    using le [of k] del [of k] by simp
  have "Suc (sessionsOn (AList.delete s ?as) key) \<le> 2 ^ 24"
    using le [of key] del [of key] assms(3) by simp
  then have "unat (rl_reservations relay) = Suc (sessionsOn (AList.delete s ?as) key)"
    using unat_of_nat_small res by metis
  then have pos: "rl_reservations relay > 0" by (simp add: word_less_nat_alt)
  have others: "k \<noteq> key \<Longrightarrow> sessionsOn (AList.delete s ?as) k = sessionsOn ?as k" for k
    using del [of k] assms(3) by simp
  have "wf_reg (setReservations (registry \<lparr> rg_assignments := AList.delete s ?as \<rparr>) key relay
      (rl_reservations relay - 1))"
    using assms(1) r res le' others by (auto simp: wf_reg_def alist_maps split: if_splits)
  moreover have "sessionsOn (AList.delete s ?as) key < 2 ^ 24"
    using le [of key] del [of key] assms(3) by simp
  ultimately show thesis using that r pos by blast
qed

section \<open>Availability\<close>

text \<open>The capacity test over the naturals: the 64-bit sum cannot wrap.\<close>

lemma unat_ucast_64 [simp]: "unat (ucast (x :: 32 word) :: 64 word) = unat x"
  using unsigned_less [of x, where ?'a = nat]
  by (simp add: unsigned_ucast_eq take_bit_nat_eq_self)

lemma unat_less_32: "unat (x :: 32 word) < 4294967296"
  using unsigned_less [of x, where ?'a = nat] by simp

lemma logical_sum:
  "unat ((ucast (x :: 32 word) :: 64 word) + ucast (y :: 32 word)) = unat x + unat y"
  using unat_less_32 [of x] unat_less_32 [of y] by (simp add: unat_word_ariths(1))

lemma ratio_product:
  "unat ((ucast (x :: 32 word) :: 64 word) * ucast (y :: 32 word)) = unat x * unat y"
proof -
  have "unat x * unat y < 4294967296 * 4294967296"
    using unat_less_32 [of x] unat_less_32 [of y] by (intro mult_strict_mono) auto
  then show ?thesis by (simp add: unat_word_ariths(2))
qed

lemma available_iff:
  "availableLocked registry relay now \<longleftrightarrow>
     rl_state relay = StateReady \<and> now < rl_leaseExpiresAt relay \<and>
     vs_Generation (cf_VerificationKeys (rg_config registry)) \<le> rl_appliedKeyGeneration relay \<and>
     unat (ActiveLogicalStreams (rl_capacity relay)) + unat (rl_reservations relay)
       < unat (MaximumLogicalStreams (rl_capacity relay)) \<and>
     ActivePhysicalConnections (rl_capacity relay) < MaximumPhysicalConnections (rl_capacity relay)"
  by (auto simp: availableLocked_def Let_def word_less_nat_alt word_le_nat_alt logical_sum
      not_less not_le)

lemma capacity_ok:
  "Capacity_validate c = Inr () \<longleftrightarrow>
     0 < unat (MaximumPhysicalConnections c) \<and> unat (MaximumPhysicalConnections c) \<le> 1048576 \<and>
     0 < unat (MaximumLogicalStreams c) \<and> unat (MaximumLogicalStreams c) \<le> 16777216 \<and>
     unat (ActivePhysicalConnections c) \<le> unat (MaximumPhysicalConnections c) \<and>
     unat (ActiveLogicalStreams c) \<le> unat (MaximumLogicalStreams c)"
  by (auto simp: Capacity_validate_def word_less_nat_alt word_le_nat_alt unat_gt_0 not_less not_le)

text \<open>A relay that is available has fewer than $2^{24}$ sessions.\<close>

lemma available_sessions:
  assumes "wf_reg registry" and "map_of (rg_relays registry) key = Some relay"
    and "availableLocked registry relay now"
  shows "sessionsOn (rg_assignments registry) key < 2 ^ 24"
    and "unat (rl_reservations relay) = sessionsOn (rg_assignments registry) key"
proof -
  have le: "sessionsOn (rg_assignments registry) key \<le> 2 ^ 24"
    and c: "Capacity_validate (rl_capacity relay) = Inr ()"
    and res: "rl_reservations relay = of_nat (sessionsOn (rg_assignments registry) key)"
    using assms(1,2) unfolding wf_reg_def by blast+
  show eq: "unat (rl_reservations relay) = sessionsOn (rg_assignments registry) key"
    using unat_of_nat_small [OF le] res by simp
  show "sessionsOn (rg_assignments registry) key < 2 ^ 24"
    using assms(3) c eq unfolding available_iff capacity_ok by simp
qed

section \<open>The operations keep the invariant\<close>

lemma wf_reg_relay_update:
  assumes "wf_reg registry" and "rl_relayID relay = key" and "Capacity_validate (rl_capacity relay) = Inr ()"
    and "rl_reservations relay = of_nat (sessionsOn (rg_assignments registry) key)"
  shows "wf_reg (registry \<lparr> rg_relays := AList.update key relay (rg_relays registry) \<rparr>)"
  using assms by (auto simp: wf_reg_def alist_maps split: if_splits)

lemma Register_wf:
  assumes "wf_reg registry"
  shows "wf_reg (snd (Register env registry now freshLease identity request))"
  using assms unfolding Register_def
  by (auto simp: try_with_def Let_def assignmentCount_sessionsOn RegistrationRequest_Validate_def
      bindE_eq_Inr mapErr_def split: sum.splits if_splits intro!: wf_reg_relay_update)

lemma Heartbeat_wf:
  assumes "wf_reg registry"
  shows "wf_reg (snd (Heartbeat env registry now identity request))"
proof -
  have "map_of (rg_relays registry) key = Some relay \<Longrightarrow> HeartbeatRequest_Validate ok request now = Inr () \<Longrightarrow>
      wf_reg (registry \<lparr> rg_relays := AList.update key (relay \<lparr> rl_state := st, rl_capacity := hr_Capacity request,
        rl_appliedKeyGeneration := g, rl_lastHeartbeatAt := t, rl_leaseExpiresAt := t',
        rl_trafficEncryption := e, rl_noisePublicKey := n \<rparr>) (rg_relays registry) \<rparr>)"
    for key relay ok st g t t' e n
    using assms
    by (intro wf_reg_relay_update) (auto simp: wf_reg_def HeartbeatRequest_Validate_def bindE_eq_Inr
        split: if_splits)
  then show ?thesis using assms unfolding Heartbeat_def
    by (auto simp: try_with_def Let_def mapErr_def split: sum.splits option.splits)
qed

text \<open>The relay that a new assignment goes to.\<close>

definition candidate :: "Registry \<Rightarrow> time \<Rightarrow> bool \<Rightarrow> relayRecord \<Rightarrow> bool" where
  "candidate registry now wanted relay \<longleftrightarrow>
     availableLocked registry relay now \<and> relaySupportsEncryption relay wanted"

definition newAssignment :: "time \<Rightarrow> relayRecord \<Rightarrow> AllocationResponse" where
  "newAssignment now relay = NewAllocationResponse
     \<lparr> ar_RelayID := rl_relayID relay, ar_LeaseID := rl_leaseID relay,
       ar_Endpoint := rl_endpoint relay, ar_AssignedAt := now,
       ar_TrafficEncryption := rl_trafficEncryption relay, ar_NoisePublicKey := rl_noisePublicKey relay \<rparr>"

definition bookAssignment ::
  "Registry \<Rightarrow> time \<Rightarrow> AllocationRequest \<Rightarrow> string \<Rightarrow> relayRecord \<Rightarrow> Registry" where
  "bookAssignment registry now request key relay =
     (setReservations registry key relay (rl_reservations relay + 1))
       \<lparr> rg_assignments := AList.update (al_SessionID request)
           \<lparr> as_response = newAssignment now relay, as_generation = al_Generation request,
             as_networkSpecHash = al_NetworkSpecHash request \<rparr> (rg_assignments registry) \<rparr>"

lemma assignNew_cases:
  assumes "wf_reg registry"
  obtains (none) "\<And>k r. map_of (rg_relays registry) k = Some r \<Longrightarrow> \<not> candidate registry now wanted r"
      "filter (\<lambda>(key, relay). availableLocked registry relay now \<and> relaySupportsEncryption relay wanted)
         (rg_relays registry) = []"
    | (some) key relay where "map_of (rg_relays registry) key = Some relay"
      "candidate registry now wanted relay" "rl_relayID relay = key"
      "(key, relay) = hd (SortFunc (\<lambda>(_, left) (_, right). compareRelays (al_Topology request) left right)
         (filter (\<lambda>(key, relay). availableLocked registry relay now \<and> relaySupportsEncryption relay wanted)
            (rg_relays registry)))"
      "assignNew registry now request wanted displaced =
         (Inr (newAssignment now relay), bookAssignment registry now request key relay)"
proof (cases "filter (\<lambda>(key, relay). availableLocked registry relay now \<and>
    relaySupportsEncryption relay wanted) (rg_relays registry) = []")
  case True
  moreover have "\<not> candidate registry now wanted r" if "map_of (rg_relays registry) k = Some r" for k r
    using True map_of_SomeD [OF that] by (auto simp: filter_empty_conv candidate_def)
  ultimately show thesis using none by blast
next
  case False
  let ?c = "filter (\<lambda>(key, relay). availableLocked registry relay now \<and>
    relaySupportsEncryption relay wanted) (rg_relays registry)"
  let ?s = "SortFunc (\<lambda>(_, left) (_, right). compareRelays (al_Topology request) left right) ?c"
  obtain key relay where h: "hd ?s = (key, relay)" by fastforce
  have "hd ?s \<in> set ?s" using False by (intro hd_in_set) (simp only: SortFunc_eq_Nil not_False_eq_True)
  then have "(key, relay) \<in> set ?s" unfolding h .
  then have m: "(key, relay) \<in> set (rg_relays registry)" and c: "candidate registry now wanted relay"
    by (auto simp: candidate_def)
  then have r: "map_of (rg_relays registry) key = Some relay" "rl_relayID relay = key"
    using assms by (auto simp: wf_reg_def)
  have "assignNew registry now request wanted displaced =
      (Inr (newAssignment now relay), bookAssignment registry now request key relay)"
    using False
    by (simp only: assignNew_def newAssignment_def bookAssignment_def Let_def h length_0_conv if_False prod.case)
  then show thesis by (rule some [OF r(1) c r(2) h [symmetric]])
qed

lemma bookAssignment_wf:
  assumes "wf_reg registry" and "map_of (rg_assignments registry) (al_SessionID request) = None"
    and "map_of (rg_relays registry) key = Some relay" and "availableLocked registry relay now"
  shows "wf_reg (bookAssignment registry now request key relay)"
proof -
  have "rl_relayID relay = key" using assms(1,3) unfolding wf_reg_def by blast
  then show ?thesis using assms available_sessions(1) [OF assms(1,3,4)]
    unfolding bookAssignment_def by (intro wf_reg_add) (auto simp: newAssignment_def)
qed

text \<open>The registry without the assignment of a session and without its reservation.\<close>

definition freed :: "Registry \<Rightarrow> string \<Rightarrow> string \<Rightarrow> relayRecord \<Rightarrow> Registry" where
  "freed registry s key relay =
     setReservations (registry \<lparr> rg_assignments := AList.delete s (rg_assignments registry) \<rparr>) key relay
       (rl_reservations relay - 1)"

definition same_maps :: "Registry \<Rightarrow> Registry \<Rightarrow> bool" where
  "same_maps r r' \<longleftrightarrow> rg_config r' = rg_config r \<and> map_of (rg_relays r') = map_of (rg_relays r) \<and>
     map_of (rg_assignments r') = map_of (rg_assignments r)"

lemma freed_restore:
  assumes "map_of (rg_assignments registry) s = Some a" and "map_of (rg_relays registry) key = Some relay"
  shows "same_maps registry ((setReservations (freed registry s key relay) key
      (relay \<lparr> rl_reservations := rl_reservations relay - 1 \<rparr>) (rl_reservations relay - 1 + 1))
        \<lparr> rg_assignments := AList.update s a (rg_assignments (freed registry s key relay)) \<rparr>)"
  using assms by (auto simp: same_maps_def freed_def alist_maps fun_eq_iff)

definition usable_for :: "Registry \<Rightarrow> time \<Rightarrow> bool \<Rightarrow> assignmentRecord \<Rightarrow> relayRecord option \<Rightarrow> bool" where
  "usable_for registry now wanted existing found \<longleftrightarrow>
     (case found of None \<Rightarrow> False | Some relay \<Rightarrow>
        rl_leaseID relay = ar_LeaseID (as_response existing) \<and> candidate registry now wanted relay)"

lemma setReservations_update:
  "setReservations (registry \<lparr> rg_assignments := x \<rparr>) key relay n =
     (setReservations registry key relay n) \<lparr> rg_assignments := x \<rparr>"
  by (simp add: setReservations_def)

text \<open>What a request does to a session whose relay cannot serve it any more.\<close>

lemma assignNew_displaced:
  assumes "wf_reg registry" and ex: "map_of (rg_assignments registry) (al_SessionID request) = Some existing"
    and key: "key = ar_RelayID (as_response existing)"
    and r: "map_of (rg_relays registry) key = Some relay" "rl_reservations relay > 0"
    and base: "base = freed registry (al_SessionID request) key relay"
    and wfb: "wf_reg base"
    and lt: "sessionsOn (rg_assignments base) key < 2 ^ 24"
  obtains (failed) registry' where
      "assignNew base now request wanted (Some (existing, True)) = (Inl ErrAssignedRelayUnavailable, registry')"
      "same_maps registry registry'" "wf_reg registry'"
      "\<And>k q. map_of (rg_relays base) k = Some q \<Longrightarrow> \<not> candidate base now wanted q"
    | (fresh) k q where "map_of (rg_relays base) k = Some q" "candidate base now wanted q" "rl_relayID q = k"
      "(k, q) = hd (SortFunc (\<lambda>(_, left) (_, right). compareRelays (al_Topology request) left right)
         (filter (\<lambda>(key, relay). availableLocked base relay now \<and> relaySupportsEncryption relay wanted)
            (rg_relays base)))"
      "assignNew base now request wanted (Some (existing, True)) =
         (Inr (newAssignment now q), bookAssignment base now request k q)"
proof (cases rule: assignNew_cases [OF wfb, where now = now and wanted = wanted and request = request
      and displaced = "Some (existing, True)"])
  case 1
  let ?r = "relay \<lparr> rl_reservations := rl_reservations relay - 1 \<rparr>"
  let ?out = "(setReservations base key ?r (rl_reservations ?r + 1))
    \<lparr> rg_assignments := AList.update (al_SessionID request) existing (rg_assignments base) \<rparr>"
  have m: "map_of (rg_relays base) key = Some ?r" by (simp add: base freed_def)
  have s: "map_of (rg_assignments base) (al_SessionID request) = None"
    by (simp add: base freed_def alist_maps)
  have "assignNew base now request wanted (Some (existing, True)) = (Inl ErrAssignedRelayUnavailable, ?out)"
    using 1(2) m key
    by (simp only: assignNew_def Let_def list.size if_True option.case prod.case setReservations_update
        simp_thms)
  moreover have "same_maps registry ?out" using freed_restore [OF ex r(1)] by (simp add: base)
  moreover have "wf_reg ?out" using wf_reg_add [OF wfb s m _ lt] key by simp
  ultimately show thesis using failed 1(1) by blast
next
  case (2 k q)
  then show thesis using fresh by blast
qed

text \<open>Every outcome of \<^verbatim>\<open>Allocate\<close>.\<close>

lemma Allocate_cases:
  fixes request :: AllocationRequest
  assumes wf: "wf_reg registry"
  defines "s \<equiv> al_SessionID request"
    and "wanted \<equiv> (al_TrafficEncryption request = Some True)"
  obtains (failed) e registry' where "Allocate env registry now request = (Inl e, registry')"
      "same_maps registry registry'" "wf_reg registry'"
    | (kept) existing relay where "map_of (rg_assignments registry) s = Some existing"
      "map_of (rg_relays registry) (ar_RelayID (as_response existing)) = Some relay"
      "as_generation existing \<le> al_Generation request"
      "as_generation existing = al_Generation request \<Longrightarrow> as_networkSpecHash existing = al_NetworkSpecHash request"
      "rl_leaseID relay = ar_LeaseID (as_response existing)" "candidate registry now wanted relay"
      "Allocate env registry now request = (Inr (as_response existing),
         registry \<lparr> rg_assignments := AList.update s (existing \<lparr> as_generation := al_Generation request,
           as_networkSpecHash := al_NetworkSpecHash request \<rparr>) (rg_assignments registry) \<rparr>)"
    | (fresh) base key relay where "wf_reg base" "map_of (rg_assignments base) s = None"
      "base = registry \<and> map_of (rg_assignments registry) s = None \<or>
       (\<exists>existing old. map_of (rg_assignments registry) s = Some existing \<and>
          as_generation existing < al_Generation request \<and>
          map_of (rg_relays registry) (ar_RelayID (as_response existing)) = Some old \<and>
          base = freed registry s (ar_RelayID (as_response existing)) old)"
      "map_of (rg_relays base) key = Some relay" "candidate base now wanted relay" "rl_relayID relay = key"
      "(key, relay) = hd (SortFunc (\<lambda>(_, left) (_, right). compareRelays (al_Topology request) left right)
         (filter (\<lambda>(key, relay). availableLocked base relay now \<and> relaySupportsEncryption relay wanted)
            (rg_relays base)))"
      "Allocate env registry now request =
         (Inr (newAssignment now relay), bookAssignment base now request key relay)"
proof (cases "mapErr (AllocationRequest_Validate (env_uuidOk env) request now)")
  case (Inl e)
  have "Allocate env registry now request = (Inl e, registry)"
    by (simp add: Allocate_def Inl try_with_def)
  then show thesis using failed wf by (simp add: same_maps_def)
next
  case (Inr u)
  note A = Allocate_def [of env registry now request, unfolded Inr try_with_def Let_def sum.case]
  show thesis
  proof (cases "map_of (rg_assignments registry) s")
    case None
    have A': "Allocate env registry now request = assignNew registry now request wanted None"
      using None by (simp add: A s_def wanted_def)
    show thesis
    proof (cases rule: assignNew_cases [OF wf, where now = now and wanted = wanted and request = request
          and displaced = None])
      case 1
      then have "assignNew registry now request wanted None = (Inl ErrUnavailable, registry)"
        by (simp only: assignNew_def Let_def list.size if_True option.case simp_thms)
      then show thesis using failed A' wf by (simp add: same_maps_def)
    next
      case (2 key relay)
      then show thesis using fresh [OF wf None] A' None by simp
    qed
  next
    case (Some existing)
    let ?key = "ar_RelayID (as_response existing)"
    obtain relay where r: "map_of (rg_relays registry) ?key = Some relay" "rl_reservations relay > 0"
      and wfb: "wf_reg (freed registry s ?key relay)"
      and lt: "sessionsOn (AList.delete s (rg_assignments registry)) ?key < 2 ^ 24"
      using wf_reg_remove [OF wf Some refl] unfolding freed_def by blast
    let ?conflict = "al_Generation request < as_generation existing \<or>
      al_Generation request = as_generation existing \<and> al_NetworkSpecHash request \<noteq> as_networkSpecHash existing"
    let ?usable = "rl_leaseID relay = ar_LeaseID (as_response existing) \<and> candidate registry now wanted relay"
    note A' = A [folded s_def wanted_def, unfolded Some r(1) option.case]
    consider "?conflict" | "\<not> ?conflict" "\<not> ?usable" "al_Generation request = as_generation existing"
      | "\<not> ?conflict" "\<not> ?usable" "al_Generation request \<noteq> as_generation existing"
      | "\<not> ?conflict" "?usable" by blast
    then show thesis
    proof cases
      case 1
      then have "Allocate env registry now request = (Inl ErrConflict, registry)" by (simp add: A')
      then show thesis using failed wf by (simp add: same_maps_def)
    next
      case 2
      then have "Allocate env registry now request = (Inl ErrAssignedRelayUnavailable, registry)"
        by (auto simp: A' candidate_def)
      then show thesis using failed wf by (simp add: same_maps_def)
    next
      case 3
      then have A3: "Allocate env registry now request =
          assignNew (freed registry s ?key relay) now request wanted (Some (existing, True))"
        using r(2) by (auto simp: A' candidate_def freed_def)
      have lt': "sessionsOn (rg_assignments (freed registry s ?key relay)) ?key < 2 ^ 24"
        using lt by (simp add: freed_def)
      have gen: "as_generation existing < al_Generation request" using 3 by auto
      show thesis
      proof (cases rule: assignNew_displaced [OF wf Some [unfolded s_def] refl r refl
            wfb [unfolded s_def] lt' [unfolded s_def], where now = now and wanted = wanted])
        case (1 registry')
        then show thesis using failed A3 by (simp add: s_def)
      next
        case (2 k q)
        show thesis
          using fresh [OF wfb _ _ 2(1-4) [folded s_def]] Some r gen A3 2(5)
          by (auto simp: s_def freed_def alist_maps)
      qed
    next
      case 4
      then have "Allocate env registry now request = (Inr (as_response existing),
         registry \<lparr> rg_assignments := AList.update s (existing \<lparr> as_generation := al_Generation request,
           as_networkSpecHash := al_NetworkSpecHash request \<rparr>) (rg_assignments registry) \<rparr>)"
        by (auto simp: A' candidate_def)
      then show thesis using kept [OF Some r(1)] 4 by auto
    qed
  qed
qed

section \<open>Runs of the registry\<close>

datatype reg_op =
    DoRegister time string PeerIdentity RegistrationRequest
  | DoHeartbeat time PeerIdentity HeartbeatRequest
  | DoAllocate time AllocationRequest
  | DoRelease string "64 word"

fun reg_step :: "env \<Rightarrow> Registry \<Rightarrow> reg_op \<Rightarrow> Registry" where
  "reg_step env registry (DoRegister now lease identity request) =
     snd (Register env registry now lease identity request)"
| "reg_step env registry (DoHeartbeat now identity request) =
     snd (Heartbeat env registry now identity request)"
| "reg_step env registry (DoAllocate now request) = snd (Allocate env registry now request)"
| "reg_step env registry (DoRelease s generation) = snd (Release registry s generation)"

lemma Allocate_wf:
  assumes "wf_reg registry"
  shows "wf_reg (snd (Allocate env registry now request))"
proof (cases rule: Allocate_cases [OF assms, of env now request])
  case (2 existing relay)
  have d: "distinct (map fst (rg_assignments registry))" using assms by (simp add: wf_reg_def)
  show ?thesis
    using assms 2(1,2,7) by (auto simp: wf_reg_def alist_maps sessionsOn_same_relay [OF d 2(1)] split: if_splits)
next
  case (3 base key relay)
  then show ?thesis using bookAssignment_wf by (simp add: candidate_def)
qed simp

lemma Release_wf:
  assumes "wf_reg registry"
  shows "wf_reg (snd (Release registry s generation))"
proof (cases "map_of (rg_assignments registry) s")
  case (Some a)
  show ?thesis
    by (rule wf_reg_remove [OF assms Some refl]) (use assms Some in \<open>auto simp: Release_def\<close>)
qed (simp add: Release_def assms)

lemma reg_step_wf: "wf_reg registry \<Longrightarrow> wf_reg (reg_step env registry op)"
  by (cases op) (simp_all add: Register_wf Heartbeat_wf Allocate_wf Release_wf)

interpretation registry_runs: step_invariant "reg_step env" wf_reg "\<lambda>_. True" for env
  by unfold_locales (rule reg_step_wf)

lemma NewRegistry_eq_Inr:
  assumes "NewRegistry env config now = Inr registry"
  shows "rg_relays registry = []" "rg_assignments registry = []"
  using assms by (auto simp: NewRegistry_def Let_def bindE_eq_Inr split: option.splits if_splits)

lemma NewRegistry_wf: "NewRegistry env config now = Inr registry \<Longrightarrow> wf_reg registry"
  by (simp add: wf_reg_def NewRegistry_eq_Inr sessionsOn_def)

lemma registry_run_wf:
  assumes "NewRegistry env config start = Inr r0"
  shows "wf_reg (foldl (reg_step env) r0 ops)"
  using registry_runs.run_inv [OF NewRegistry_wf [OF assms]] by (simp add: list_all_iff)

text \<open>C6. In every run of a registry, the reservation counter of a relay is the number of sessions that are
  assigned to it, without wrap-around, every assigned session names a registered relay, and a relay is stored
  under the ID that was derived from its identity.\<close>

theorem reservations_exact:
  assumes "NewRegistry env config start = Inr r0" and "registry = foldl (reg_step env) r0 ops"
  shows "(\<forall>k relay. map_of (rg_relays registry) k = Some relay \<longrightarrow> rl_relayID relay = k \<and>
           unat (rl_reservations relay) = sessionsOn (rg_assignments registry) k)
       \<and> (\<forall>s a. map_of (rg_assignments registry) s = Some a \<longrightarrow>
           map_of (rg_relays registry) (ar_RelayID (as_response a)) \<noteq> None)"
proof -
  have "wf_reg registry" using registry_run_wf assms by simp
  then show ?thesis unfolding wf_reg_def using unat_of_nat_small by metis
qed

section \<open>Fencing\<close>

text \<open>
  The session is bound to \<open>resp\<close> at the generation \<open>g\<close>, or has moved to a later generation.
\<close>

definition bound :: "string \<Rightarrow> 64 word \<Rightarrow> AllocationResponse \<Rightarrow> Registry \<Rightarrow> bool" where
  "bound s g resp registry \<longleftrightarrow>
     (\<exists>a. map_of (rg_assignments registry) s = Some a \<and>
        (g < as_generation a \<or> as_generation a = g \<and> as_response a = resp))"

fun keeps_binding :: "string \<Rightarrow> 64 word \<Rightarrow> reg_op \<Rightarrow> bool" where
  "keeps_binding s g (DoRelease s' g') \<longleftrightarrow> s' \<noteq> s \<or> g' < g"
| "keeps_binding s g _ \<longleftrightarrow> True"

lemma bound_cong: "same_maps r r' \<Longrightarrow> bound s g resp r' = bound s g resp r"
  by (simp add: bound_def same_maps_def)

lemma assignments_Register [simp]:
  "rg_assignments (snd (Register env registry now lease identity request)) = rg_assignments registry"
  unfolding Register_def by (auto simp: try_with_def Let_def split: sum.splits)

lemma assignments_Heartbeat [simp]:
  "rg_assignments (snd (Heartbeat env registry now identity request)) = rg_assignments registry"
  unfolding Heartbeat_def by (auto simp: try_with_def Let_def split: sum.splits option.splits)

lemma bound_Allocate:
  assumes wf: "wf_reg registry" and b: "bound s g resp registry"
  shows "bound s g resp (snd (Allocate env registry now request))"
proof (cases rule: Allocate_cases [OF wf, of env now request])
  case (1 e registry')
  then show ?thesis using b bound_cong by simp
next
  case (2 existing relay)
  have "g < al_Generation request \<or> al_Generation request = g \<and> as_response existing = resp"
    if "al_SessionID request = s"
    using that b 2(1,3) order.strict_trans2 [of g "as_generation existing" "al_Generation request"]
    by (auto simp: bound_def le_less)
  then show ?thesis using b 2(1,7) by (auto simp: bound_def alist_maps)
next
  case (3 base key relay)
  show ?thesis
  proof (cases "al_SessionID request = s")
    case True
    then have "g < al_Generation request" using 3(3) b by (auto simp: bound_def)
    then show ?thesis using 3(8) True by (simp add: bound_def bookAssignment_def alist_maps)
  next
    case False
    then show ?thesis using 3(3,8) b
      by (auto simp: bound_def bookAssignment_def alist_maps freed_def)
  qed
qed

lemma bound_Release:
  assumes "bound s g resp registry" and "s' \<noteq> s \<or> g' < g"
  shows "bound s g resp (snd (Release registry s' g'))"
proof (cases "s' = s")
  case True
  then show ?thesis using assms by (auto simp: bound_def Release_def)
next
  case False
  then show ?thesis using assms
    by (auto simp: bound_def Release_def Let_def alist_maps split: option.splits)
qed

lemma bound_step:
  assumes "wf_reg registry" "bound s g resp registry" "keeps_binding s g op"
  shows "bound s g resp (reg_step env registry op)"
proof (cases op)
  case (DoAllocate now request)
  then show ?thesis using assms bound_Allocate by simp
next
  case (DoRelease s' g')
  then show ?thesis using assms bound_Release by simp
qed (use assms in \<open>simp_all add: bound_def\<close>)

interpretation fencing: step_invariant "reg_step env" "\<lambda>r. wf_reg r \<and> bound s g resp r" "keeps_binding s g"
  for env s g resp
  by unfold_locales (use reg_step_wf bound_step in blast)

lemma Allocate_binds:
  assumes "wf_reg registry" and "Allocate env registry now request = (Inr resp, registry')"
  shows "bound (al_SessionID request) (al_Generation request) resp registry'"
proof (cases rule: Allocate_cases [OF assms(1), of env now request])
  case (2 existing relay)
  then show ?thesis using assms(2) by (simp add: bound_def alist_maps)
next
  case (3 base key relay)
  then show ?thesis using assms(2) by (simp add: bound_def bookAssignment_def alist_maps)
qed (use assms(2) in simp)

lemma Allocate_bound_result:
  assumes "wf_reg registry" and "bound (al_SessionID request) (al_Generation request) resp registry"
    and "Allocate env registry now request = (Inr resp', registry')"
  shows "resp' = resp"
proof (cases rule: Allocate_cases [OF assms(1), of env now request])
  case (2 existing relay)
  then show ?thesis using assms(2,3) by (auto simp: bound_def)
next
  case (3 base key relay)
  then show ?thesis using assms(2) by (auto simp: bound_def)
qed (use assms(3) in simp)

text \<open>C5. Two relays never hold one generation of a session: whatever relays register, send heartbeats,
  drain or expire in between, two successful allocations for the same session and generation return the same
  assignment, unless that session was released meanwhile at this or a later generation.\<close>

theorem generation_fences_relay:
  assumes "NewRegistry env config start = Inr r0"
    and "Allocate env (foldl (reg_step env) r0 before) t1 q1 = (Inr a1, r1)"
    and "Allocate env (foldl (reg_step env) r1 between) t2 q2 = (Inr a2, r2)"
    and "al_SessionID q2 = al_SessionID q1" and "al_Generation q2 = al_Generation q1"
    and "list_all (keeps_binding (al_SessionID q1) (al_Generation q1)) between"
  shows "a2 = a1"
proof -
  have wf0: "wf_reg (foldl (reg_step env) r0 before)" by (rule registry_run_wf [OF assms(1)])
  then have wf1: "wf_reg r1" using Allocate_wf assms(2) by (metis snd_conv)
  have "wf_reg (foldl (reg_step env) r1 between) \<and>
      bound (al_SessionID q1) (al_Generation q1) a1 (foldl (reg_step env) r1 between)"
    using fencing.run_inv wf1 Allocate_binds [OF wf0 assms(2)] assms(6) by blast
  then show ?thesis using Allocate_bound_result assms(3-5) by metis
qed

section \<open>The order of preference\<close>

definition quot :: "32 word \<Rightarrow> 32 word \<Rightarrow> rat" where
  "quot a b = of_nat (unat a) / of_nat (unat b)"

text \<open>
  The key by which a relay is preferred: more topology matches, then the smaller share of its logical
  streams in use or reserved, then the smaller share of its physical connections, then the smaller ID.
\<close>

definition relayKey :: "(string \<times> string) list \<Rightarrow> relayRecord \<Rightarrow> int \<times> rat \<times> rat \<times> string" where
  "relayKey wanted relay =
     (- int (topologyMatches (pi_Topology (rl_identity relay)) wanted),
      of_nat (unat (ActiveLogicalStreams (rl_capacity relay)) + unat (rl_reservations relay)) /
        of_nat (unat (MaximumLogicalStreams (rl_capacity relay))),
      quot (ActivePhysicalConnections (rl_capacity relay)) (MaximumPhysicalConnections (rl_capacity relay)),
      rl_relayID relay)"

lemma compareRatio_quot:
  assumes "unat lm > 0" "unat rm > 0"
  shows "compareRatio lv lm rv rm =
    (if quot lv lm < quot rv rm then -1 else if quot lv lm > quot rv rm then 1 else 0)"
proof -
  have "quot a b < quot c d \<longleftrightarrow> unat a * unat d < unat c * unat b" if "unat b > 0" "unat d > 0" for a b c d
  proof -
    have p: "(0::rat) < of_nat (unat b)" "(0::rat) < of_nat (unat d)"
      using that by (simp_all only: of_nat_0_less_iff)
    have "quot a b < quot c d \<longleftrightarrow> (of_nat (unat a) * of_nat (unat d) :: rat) < of_nat (unat c) * of_nat (unat b)"
      unfolding quot_def pos_divide_less_eq [OF p(1)] times_divide_eq_left pos_less_divide_eq [OF p(2)] ..
    then show ?thesis by (simp only: of_nat_less_iff flip: of_nat_mult)
  qed
  then show ?thesis using assms by (simp add: compareRatio_def Let_def word_less_nat_alt ratio_product)
qed

lemma compareTopology_sign:
  "compareTopology l r w = (if topologyMatches l w > topologyMatches r w then -1
     else if topologyMatches l w < topologyMatches r w then 1 else 0)"
  by (simp add: compareTopology_def Let_def)

definition relay_ok :: "relayRecord \<Rightarrow> bool" where
  "relay_ok relay \<longleftrightarrow> Capacity_validate (rl_capacity relay) = Inr () \<and> unat (rl_reservations relay) \<le> 2 ^ 24"

lemma quot_sum:
  assumes "relay_ok relay"
  shows "quot (ActiveLogicalStreams (rl_capacity relay) + rl_reservations relay)
      (MaximumLogicalStreams (rl_capacity relay)) =
    of_nat (unat (ActiveLogicalStreams (rl_capacity relay)) + unat (rl_reservations relay)) /
      of_nat (unat (MaximumLogicalStreams (rl_capacity relay)))"
proof -
  have "unat (ActiveLogicalStreams (rl_capacity relay) + rl_reservations relay) =
      unat (ActiveLogicalStreams (rl_capacity relay)) + unat (rl_reservations relay)"
    using assms by (simp add: relay_ok_def capacity_ok unat_word_ariths(1))
  then show ?thesis by (simp add: quot_def)
qed

lemma compareRelays_key:
  assumes "relay_ok l" "relay_ok r"
  shows "compareRelays wanted l r \<le> 0 \<longleftrightarrow> relayKey wanted l \<le> relayKey wanted r"
proof -
  have pos: "unat (MaximumLogicalStreams (rl_capacity x)) > 0" "unat (MaximumPhysicalConnections (rl_capacity x)) > 0"
    if "relay_ok x" for x using that by (simp_all add: relay_ok_def capacity_ok)
  show ?thesis using pos [OF assms(1)] pos [OF assms(2)]
    by (auto simp: compareRelays_def Let_def relayKey_def compareTopology_sign compareRatio_quot
        quot_sum [OF assms(1)] quot_sum [OF assms(2)] less_eq_prod_simp)
qed

lemma wf_reg_relay_ok:
  assumes "wf_reg registry" "map_of (rg_relays registry) k = Some relay"
  shows "relay_ok relay"
  using assms unat_of_nat_small unfolding wf_reg_def relay_ok_def by metis

text \<open>The relay at the head of the sorted candidates has the least key of all candidates.\<close>

lemma selected_least:
  assumes wf: "wf_reg registry"
    and sel: "(key, relay) = hd (SortFunc (\<lambda>(_, left) (_, right). compareRelays wanted left right)
         (filter (\<lambda>(key, relay). availableLocked registry relay now \<and> relaySupportsEncryption relay enc)
            (rg_relays registry)))"
    and q: "map_of (rg_relays registry) k = Some q" "candidate registry now enc q"
  shows "relayKey wanted relay \<le> relayKey wanted q"
proof -
  let ?c = "filter (\<lambda>(key, relay). availableLocked registry relay now \<and> relaySupportsEncryption relay enc)
    (rg_relays registry)"
  let ?cmp = "\<lambda>(_ :: string, left) (_ :: string, right). compareRelays wanted left right"
  have ok: "relay_ok (snd x)" if "x \<in> set ?c" for x
  proof -
    have "map_of (rg_relays registry) (fst x) = Some (snd x)"
      using that wf by (auto simp: wf_reg_def)
    then show ?thesis by (rule wf_reg_relay_ok [OF wf])
  qed
  have "(k, q) \<in> set ?c" using q map_of_SomeD by (fastforce simp: candidate_def)
  then have "relayKey wanted (snd (hd (SortFunc ?cmp ?c))) \<le> relayKey wanted (snd (k, q))"
    by (intro hd_SortFunc_least [where key = "\<lambda>x. relayKey wanted (snd x)", THEN conjunct2])
      (auto simp: case_prod_unfold compareRelays_key ok)
  then show ?thesis by (simp flip: sel)
qed

text \<open>C7. A session without an assignment goes to the best relay: if some relay is ready, within its lease,
  has applied the current verification keys, has free capacity and offers the requested encryption, then a
  valid request is assigned to such a relay with the least preference key among them, and that relay's
  reservations grow by one within its capacity. If there is none the registry is left as it was and the request
  fails.\<close>

theorem allocation_least_loaded:
  assumes "NewRegistry env config start = Inr r0" and "registry = foldl (reg_step env) r0 ops"
    and "AllocationRequest_Validate (env_uuidOk env) request now = Inr ()"
    and "map_of (rg_assignments registry) (al_SessionID request) = None"
    and "wanted = (al_TrafficEncryption request = Some True)"
  shows "if \<exists>k q. map_of (rg_relays registry) k = Some q \<and> candidate registry now wanted q
    then \<exists>k relay registry'. Allocate env registry now request = (Inr (newAssignment now relay), registry') \<and>
      map_of (rg_relays registry) k = Some relay \<and> candidate registry now wanted relay \<and>
      (\<forall>k' q. map_of (rg_relays registry) k' = Some q \<and> candidate registry now wanted q \<longrightarrow>
         relayKey (al_Topology request) relay \<le> relayKey (al_Topology request) q) \<and>
      map_of (rg_relays registry') =
        (map_of (rg_relays registry))(k \<mapsto> relay \<lparr> rl_reservations := rl_reservations relay + 1 \<rparr>) \<and>
      unat (rl_reservations relay + 1) = unat (rl_reservations relay) + 1 \<and>
      unat (ActiveLogicalStreams (rl_capacity relay)) + unat (rl_reservations relay + 1)
        \<le> unat (MaximumLogicalStreams (rl_capacity relay))
    else Allocate env registry now request = (Inl ErrUnavailable, registry)"
proof -
  have wf: "wf_reg registry" using registry_run_wf assms(1,2) by simp
  have A: "Allocate env registry now request = assignNew registry now request wanted None"
    using assms(3-5) by (simp add: Allocate_def mapErr_def try_with_def)
  show ?thesis
  proof (cases rule: assignNew_cases [OF wf, where now = now and wanted = wanted and request = request
        and displaced = None])
    case 1
    then have "assignNew registry now request wanted None = (Inl ErrUnavailable, registry)"
      by (simp only: assignNew_def Let_def list.size if_True option.case simp_thms)
    then show ?thesis using A 1(1) by auto
  next
    case (2 key relay)
    have ok: "relay_ok relay" by (rule wf_reg_relay_ok [OF wf 2(1)])
    have room: "unat (ActiveLogicalStreams (rl_capacity relay)) + unat (rl_reservations relay)
        < unat (MaximumLogicalStreams (rl_capacity relay))"
      using 2(2) by (simp add: candidate_def available_iff)
    have inc: "unat (rl_reservations relay + 1) = unat (rl_reservations relay) + 1"
      using ok by (simp add: relay_ok_def unat_word_ariths(1))
    have "map_of (rg_relays (bookAssignment registry now request key relay)) =
        (map_of (rg_relays registry))(key \<mapsto> relay \<lparr> rl_reservations := rl_reservations relay + 1 \<rparr>)"
      by (simp add: bookAssignment_def)
    moreover have "\<forall>k' q. map_of (rg_relays registry) k' = Some q \<and> candidate registry now wanted q \<longrightarrow>
         relayKey (al_Topology request) relay \<le> relayKey (al_Topology request) q"
      using selected_least [OF wf 2(4)] by blast
    moreover have ex: "\<exists>k q. map_of (rg_relays registry) k = Some q \<and> candidate registry now wanted q"
      using 2(1,2) by blast
    ultimately show ?thesis unfolding if_P [OF ex]
      by (intro exI [of _ key] exI [of _ relay] exI [of _ "bookAssignment registry now request key relay"] conjI)
        (use A 2(1,2,5) room inc in simp_all)
  qed
qed

text \<open>An allocation that fails changes nothing: the relays with their reservations and the assignments
  are what they were, also when the failing request had already given up the session's previous relay.\<close>

theorem allocation_failure_restores:
  assumes "NewRegistry env config start = Inr r0" and "registry = foldl (reg_step env) r0 ops"
    and "Allocate env registry now request = (Inl e, registry')"
  shows "rg_config registry' = rg_config registry \<and>
    map_of (rg_relays registry') = map_of (rg_relays registry) \<and>
    map_of (rg_assignments registry') = map_of (rg_assignments registry)"
proof -
  have wf: "wf_reg registry" using registry_run_wf assms(1,2) by simp
  show ?thesis
    by (rule Allocate_cases [OF wf, of env now request]) (use assms(3) in \<open>auto simp: same_maps_def\<close>)
qed

text \<open>A session that holds the last free slot of its relay is refused: repeating its request at the same
  generation fails, because the capacity test counts the session's own reservation.\<close>

theorem last_slot_refuses_its_session:
  assumes "NewRegistry env config start = Inr r0" and "registry = foldl (reg_step env) r0 ops"
    and "Allocate env registry now request = (Inr resp, registry')"
    and "map_of (rg_relays registry') (ar_RelayID resp) = Some relay"
    and "unat (ActiveLogicalStreams (rl_capacity relay)) + unat (rl_reservations relay)
           = unat (MaximumLogicalStreams (rl_capacity relay))"
  shows "Allocate env registry' now request = (Inl ErrAssignedRelayUnavailable, registry')"
proof -
  have wf: "wf_reg registry" using registry_run_wf assms(1,2) by simp
  have ok: "AllocationRequest_Validate (env_uuidOk env) request now = Inr ()"
    using assms(3) by (auto simp: Allocate_def try_with_def mapErr_def split: sum.splits)
  have full: "\<not> availableLocked r relay now" for r using assms(5) by (simp add: available_iff)
  have a: "\<exists>a. map_of (rg_assignments registry') (al_SessionID request) = Some a \<and>
      as_response a = resp \<and> as_generation a = al_Generation request \<and>
      as_networkSpecHash a = al_NetworkSpecHash request"
    by (rule Allocate_cases [OF wf, of env now request])
      (use assms(3) in \<open>auto simp: alist_maps bookAssignment_def\<close>)
  then show ?thesis using ok full assms(4)
    by (auto simp: Allocate_def try_with_def mapErr_def Let_def)
qed

section \<open>Answers to relays\<close>

definition config_ok :: "env \<Rightarrow> Config \<Rightarrow> bool" where
  "config_ok env config \<longleftrightarrow>
     5 * Second \<le> cf_LeaseDuration config \<and> cf_LeaseDuration config \<le> 5 * Minute \<and>
     Second \<le> cf_HeartbeatAfter config \<and> cf_HeartbeatAfter config \<le> Minute \<and>
     cf_HeartbeatAfter config < cf_LeaseDuration config \<and>
     validTicketIssuer (env_urlParse env) (cf_TicketIssuer config) = Inr True"

lemma NewRegistry_config:
  assumes "NewRegistry env config now = Inr registry"
  shows "config_ok env (rg_config registry)"
    and "cf_VerificationKeys (rg_config registry) = cf_VerificationKeys config"
    and "cf_SupportedVersions (rg_config registry) =
      (if cf_SupportedVersions config = [] then [APIVersionV2, APIVersionV1] else cf_SupportedVersions config)"
  using assms
  by (auto simp: NewRegistry_def Let_def bindE_eq_Inr config_ok_def validTicketIssuer_def
      split: option.splits if_splits)

lemma config_Register [simp]:
  "rg_config (snd (Register env registry now lease identity request)) = rg_config registry"
  unfolding Register_def by (auto simp: try_with_def Let_def split: sum.splits)

lemma config_Heartbeat [simp]:
  "rg_config (snd (Heartbeat env registry now identity request)) = rg_config registry"
  unfolding Heartbeat_def by (auto simp: try_with_def Let_def split: sum.splits option.splits)

lemma config_Release [simp]: "rg_config (snd (Release registry s g)) = rg_config registry"
  by (auto simp: Release_def Let_def split: option.splits)

lemma config_Allocate:
  assumes "wf_reg registry"
  shows "rg_config (snd (Allocate env registry now request)) = rg_config registry"
  by (rule Allocate_cases [OF assms, of env now request])
    (auto simp: same_maps_def bookAssignment_def freed_def)

lemma config_step: "wf_reg registry \<Longrightarrow> rg_config (reg_step env registry op) = rg_config registry"
  by (cases op) (simp_all add: config_Allocate)

interpretation config_fixed: step_invariant "reg_step env" "\<lambda>r. wf_reg r \<and> rg_config r = config" "\<lambda>_. True"
  for env config
  by unfold_locales (simp add: reg_step_wf config_step)

lemma registry_run_config:
  assumes "NewRegistry env config start = Inr r0"
  shows "rg_config (foldl (reg_step env) r0 ops) = rg_config r0"
  using config_fixed.run_inv [of r0 "rg_config r0" ops env] NewRegistry_wf [OF assms] by (simp add: list_all_iff)

lemma lease_timing_ok:
  assumes "config_ok env config" and "0 < now"
  shows "validateLeaseTiming (now + cf_LeaseDuration config) (cf_HeartbeatAfter config) now = Inr ()"
  using assms by (auto simp: config_ok_def validateLeaseTiming_def IsZero_def Second_def)

lemma validRelayID_RelayID:
  assumes "RelayID ul sha256 identity = Inr relayID" and "\<And>x. length (sha256 x) = 32"
  shows "validRelayID relayID"
proof -
  obtain d where "relayID = ''relay-'' @ hexEncode d" "length d = 32"
    using assms by (auto simp: RelayID_def bindE_eq_Inr)
  then show ?thesis
    using hexDecode_hexEncode [of d] hexDecode_length [OF hexDecode_hexEncode [of d]]
    by (auto simp: validRelayID_def HasPrefix_def)
qed

lemma NegotiateVersion_sound:
  assumes "NegotiateVersion prefer peer = Inr v"
  shows "v \<in> set prefer \<and> v \<in> set peer"
proof -
  have "NegotiateVersion_loop peer vs = Inr v \<Longrightarrow> v \<in> set vs \<and> v \<in> set peer" for vs
    by (induction vs) (auto split: if_splits)
  then show ?thesis using assms by (auto simp: NegotiateVersion_def split: if_splits)
qed

text \<open>What the registry answers is what a relay accepts: with a 32-byte digest, verification keys that
  are usable now and configured versions among v1 and v2, every successful registration (with a well-formed
  fresh lease ID) and every successful heartbeat produces a response that passes the validation the receiving
  relay applies.\<close>

theorem registry_answers_validate:
  assumes "NewRegistry env config start = Inr r0" and "registry = foldl (reg_step env) r0 ops"
    and "\<And>x. length (env_sha256 env x) = 32" and "env_uuidOk env lease" and "0 < now"
    and "VerificationKeySet_validate (env_parseKey env) (cf_VerificationKeys config) now = Inr ()"
    and "set (cf_SupportedVersions config) \<subseteq> {APIVersionV1, APIVersionV2}"
  shows "(Register env registry now lease identity request = (Inr response, registry') \<longrightarrow>
            RegistrationResponse_Validate (env_urlParse env) (env_uuidOk env) (env_parseKey env) response now
              = Inr ())
       \<and> (Heartbeat env registry now identity beat = (Inr answer, registry'') \<longrightarrow>
            HeartbeatResponse_Validate answer now = Inr ())"
proof -
  have cfg: "rg_config registry = rg_config r0" using registry_run_config [OF assms(1)] assms(2) by simp
  note new = NewRegistry_config [OF assms(1)]
  note timing = lease_timing_ok [OF new(1) assms(5)]
  have "RegistrationResponse_Validate (env_urlParse env) (env_uuidOk env) (env_parseKey env) response now = Inr ()"
    if R: "Register env registry now lease identity request = (Inr response, registry')"
  proof -
    obtain v relayID where v: "NegotiateVersion (cf_SupportedVersions (rg_config r0)) (SupportedVersions request) = Inr v"
      and id: "RelayID (env_ul env) (env_sha256 env) identity = Inr relayID"
      and resp: "response = NewRegistrationResponse \<lparr> SelectedVersion := v,
         TicketIssuer := cf_TicketIssuer (rg_config r0), rp_RelayID := relayID, rp_LeaseID := lease,
         rp_LeaseExpiresAt := now + cf_LeaseDuration (rg_config r0),
         rp_HeartbeatAfter := cf_HeartbeatAfter (rg_config r0), rp_Keys := cf_VerificationKeys config \<rparr>"
      using R cfg new(2)
      by (auto simp: Register_def try_with_eq Let_def registrationResponseLocked_def)
    have "v = APIVersionV1 \<or> v = APIVersionV2"
      using NegotiateVersion_sound [OF v] new(3) assms(7) by (auto split: if_splits)
    then show ?thesis
      using resp timing assms(4,6) validRelayID_RelayID [OF id assms(3)] new(1)
      by (auto simp: RegistrationResponse_Validate_def NewRegistrationResponse_def validateVersions_def
          validateLease_def config_ok_def bindE_def)
  qed
  moreover have "HeartbeatResponse_Validate answer now = Inr ()"
    if H: "Heartbeat env registry now identity beat = (Inr answer, registry'')"
  proof -
    have "HeartbeatRequest_Validate (env_uuidOk env) beat now = Inr ()"
      and "answer = (NewHeartbeatResponseForVersion (APIVersion beat))
        \<lparr> hp_LeaseExpiresAt := now + cf_LeaseDuration (rg_config r0),
          hp_HeartbeatAfter := cf_HeartbeatAfter (rg_config r0) \<rparr>"
      using H cfg by (auto simp: Heartbeat_def try_with_eq Let_def split: option.splits if_splits)
    then show ?thesis using timing
      by (auto simp: HeartbeatResponse_Validate_def NewHeartbeatResponseForVersion_def validateVersions_def
          HeartbeatRequest_Validate_def bindE_def split: sum.splits if_splits)
  qed
  ultimately show ?thesis by blast
qed

section \<open>A registry with one relay\<close>

text \<open>A concrete registry, relay and request at which the theorems are applied.\<close>

definition w_env :: env where
  "w_env = \<lparr> env_ul = (\<lambda>s. s), env_sha256 = (\<lambda>_. replicate 32 0),
     env_urlParse = (\<lambda>s. Some \<lparr> Scheme = takeWhile (\<lambda>c. c \<noteq> CHR '':'') s, Host = ''cp'', HasUser = False, RawQuery = '''',
        Fragment = '''', Path = ''/relay'', Hostname = ''cp'' \<rparr>),
     env_uuidOk = (\<lambda>s. s \<noteq> ''''),
     env_parseKey = (\<lambda>_. Some (''PUBLIC KEY'', Some (replicate 32 0), '''')) \<rparr>"
definition w_config :: Config where
  "w_config = \<lparr> cf_TicketIssuer = ''https://cp'', cf_LeaseDuration = 45 * Second, cf_HeartbeatAfter = 10 * Second,
     cf_SupportedVersions = [APIVersionV2, APIVersionV1], cf_VerificationKeys = \<lparr> vs_Generation = 1, vs_Keys =
       [\<lparr> vk_ID = ''k1'', vk_Algorithm = ''EdDSA'', vk_PublicKey = ''pem'', vk_NotBefore = 1,
          vk_NotAfter = 1000 * Minute \<rparr>] \<rparr>, cf_EndpointPolicy = None \<rparr>"
definition w_reg :: Registry where "w_reg = \<lparr> rg_config = w_config, rg_relays = [], rg_assignments = [] \<rparr>"
lemmas w_simps = w_env_def w_config_def w_reg_def text_eval Minute_def Second_def identity_rune_def safeIdentityValue_def
  NegotiateVersion_def validVersionList_def IsZero_def bindE_def checkE_def

lemma w_keys: "0 < now \<Longrightarrow> now < 1000 * Minute \<Longrightarrow> VerificationKeySet_validate (env_parseKey w_env) (cf_VerificationKeys w_config) now = Inr ()"
  by (simp add: VerificationKeySet_validate_def w_simps)

lemma w_new: "NewRegistry w_env w_config Minute = Inr w_reg"
  using w_keys [of Minute]
  by (simp add: NewRegistry_def w_env_def w_config_def text_eval TrimRight_def Minute_def Second_def bindE_def NegotiateVersion_def validVersionList_def w_reg_def)

definition w_peer :: PeerIdentity where
  "w_peer = \<lparr> TrustDomain = ''td'', pi_Namespace = ''ns'', ServiceAccount = ''sa'', PodUID = ''p'', pi_Topology = [] \<rparr>"
definition w_id where "w_id = ''relay-'' @ hexEncode (replicate 32 0)"
lemma w_peer_ok: "PeerIdentity_Validate w_peer = Inr ()"
  by (simp add: PeerIdentity_Validate_def w_peer_def validTopology_def w_simps)
lemma w_relayID: "RelayID (env_ul w_env) (env_sha256 w_env) w_peer = Inr w_id"
  using w_peer_ok by (simp add: RelayID_def w_env_def bindE_def w_peer_def w_id_def ToLower_def)
definition w_capacity :: "32 word \<Rightarrow> Capacity" where
  "w_capacity n = \<lparr> MaximumPhysicalConnections = 4, MaximumLogicalStreams = n, ActivePhysicalConnections = 0,
     ActiveLogicalStreams = 0 \<rparr>"
definition w_register :: RegistrationRequest where
  "w_register = NewRegistrationRequestWithNegotiation \<lparr> rr_Endpoint := ''wss://cp/relay'',
     rr_State := StateReady, rr_Capacity := w_capacity 1 \<rparr>"
definition w_beat :: "32 word \<Rightarrow> HeartbeatRequest" where
  "w_beat n = \<lparr> APIVersion = APIVersionV2, Kind = ''RelayHeartbeat'', hr_LeaseID = ''lease'',
     hr_State = StateReady, hr_Capacity = w_capacity n, AppliedKeyGeneration = 1,
     hr_TrafficEncryption = Some False, hr_NoisePublicKey = '''' \<rparr>"
definition w_relay :: "32 word \<Rightarrow> 64 word \<Rightarrow> 32 word \<Rightarrow> relayRecord" where
  "w_relay n applied reserved = \<lparr> rl_identity = w_peer, rl_relayID = w_id, rl_leaseID = ''lease'',
     rl_endpoint = ''wss://cp/relay'', rl_state = StateReady, rl_capacity = w_capacity n,
     rl_appliedKeyGeneration = applied, rl_leaseExpiresAt = Minute + 45 * Second,
     rl_lastHeartbeatAt = Minute, rl_reservations = reserved, rl_selectedVersion = APIVersionV2,
     rl_trafficEncryption = False, rl_noisePublicKey = '''' \<rparr>"
definition w_request :: AllocationRequest where
  "w_request = NewAllocationRequest \<lparr> al_SessionID := ''s'', al_Generation := 1,
     al_NetworkSpecHash := hexEncode (replicate 32 0), al_TrafficEncryption := Some False \<rparr>"
definition w_ops :: "32 word \<Rightarrow> reg_op list" where
  "w_ops n = [DoRegister Minute ''lease'' w_peer w_register, DoHeartbeat Minute w_peer (w_beat n)]"
definition w_ready :: "32 word \<Rightarrow> Registry" where
  "w_ready n = w_reg \<lparr> rg_relays := [(w_id, w_relay n 1 0)] \<rparr>"
definition w_assignment :: AllocationResponse where
  "w_assignment = newAssignment Minute (w_relay 1 1 0)"
definition w_assigned :: "32 word \<Rightarrow> Registry" where
  "w_assigned n = w_reg \<lparr> rg_relays := [(w_id, w_relay n 1 1)],
     rg_assignments := [(''s'', \<lparr> as_response = w_assignment, as_generation = 1,
       as_networkSpecHash = hexEncode (replicate 32 0) \<rparr>)] \<rparr>"

lemma w_register_fields [simp]:
  "rr_Endpoint w_register = ''wss://cp/relay''" "rr_State w_register = StateReady" "rr_Capacity w_register = w_capacity 1"
  by (simp_all add: w_register_def)

lemma w_register_ok: "Register w_env w_reg Minute ''lease'' w_peer w_register =
    (Inr (registrationResponseLocked w_reg (w_relay 1 0 0) APIVersionV2), w_reg \<lparr> rg_relays := [(w_id, w_relay 1 0 0)] \<rparr>)"
proof -
  have "RegistrationRequest_Validate (env_urlParse w_env) w_register Minute = Inr ()"
    by (simp add: RegistrationRequest_Validate_def w_register_def NewRegistrationRequestWithNegotiation_def
      NewRegistrationRequest_def validateVersions_def bindE_def validVersionList_def validateEndpoint_def
      w_env_def text_eval TrimRight_def StateReady_def Capacity_validate_def w_capacity_def)
  moreover have "NegotiateVersion (cf_SupportedVersions w_config) (SupportedVersions w_register) = Inr APIVersionV2"
    by (simp add: NegotiateVersion_def validVersionList_def w_config_def w_register_def NewRegistrationRequestWithNegotiation_def)
  ultimately show ?thesis
    by (simp add: Register_def w_peer_ok w_relayID mapErr_def try_with_def w_reg_def assignmentCountLocked_def
        w_relay_def registrationResponseLocked_def)
      (simp add: w_config_def)
qed

lemma w_beat_ok: "n \<in> {1, 2} \<Longrightarrow> HeartbeatRequest_Validate (env_uuidOk w_env) (w_beat n) Minute = Inr ()"
  by (auto simp: HeartbeatRequest_Validate_def w_beat_def validateVersions_def bindE_def checkE_def w_env_def StateReady_def
    Capacity_validate_def w_capacity_def)

lemma w_run: "n \<in> {1, 2} \<Longrightarrow> foldl (reg_step w_env) w_reg (w_ops n) = w_ready n"
  by (simp add: w_ops_def w_register_ok Heartbeat_def w_peer_ok w_relayID w_beat_ok mapErr_def try_with_def
    w_ready_def)
    (simp add: w_reg_def w_relay_def w_beat_def w_config_def Second_def Minute_def)

lemma w_request_ok: "AllocationRequest_Validate (env_uuidOk w_env) w_request Minute = Inr ()"
  by (simp add: AllocationRequest_Validate_def w_request_def NewAllocationRequest_def validateVersions_def bindE_def
    w_env_def length_hexEncode hexDecode_hexEncode checkE_def validTopology_def)

lemma w_available: "availableLocked (w_ready n) (w_relay n 1 r) Minute \<longleftrightarrow> unat r < unat n"
   "availableLocked (w_assigned n) (w_relay n 1 r) Minute \<longleftrightarrow> unat r < unat n"
  by (simp_all add: available_iff w_relay_def w_ready_def w_assigned_def w_reg_def w_config_def w_capacity_def Minute_def Second_def)
lemma w_supports: "relaySupportsEncryption (w_relay n a r) False"
  by (simp add: relaySupportsEncryption_def w_relay_def)

lemma w_allocate: "n \<in> {1, 2} \<Longrightarrow> Allocate w_env (w_ready n) Minute w_request = (Inr w_assignment, w_assigned n)"
proof -
  assume "n \<in> {1, 2}"
  then have "availableLocked (w_ready n) (w_relay n 1 0) Minute" by (auto simp: w_available)
  then have f: "filter (\<lambda>(key, relay). availableLocked (w_ready n) relay Minute \<and> relaySupportsEncryption relay False)
     (rg_relays (w_ready n)) = [(w_id, w_relay n 1 0)]"
    by (simp add: w_ready_def w_supports)
  have "assignNew (w_ready n) Minute w_request False None = (Inr w_assignment, w_assigned n)"
    unfolding assignNew_def Let_def f
    by (simp add: w_ready_def w_reg_def w_request_def NewAllocationRequest_def setReservations_def
        w_assigned_def w_assignment_def newAssignment_def w_relay_def)
  then show ?thesis
    by (simp add: Allocate_def w_request_ok mapErr_def try_with_def w_ready_def w_reg_def)
      (simp add: w_request_def NewAllocationRequest_def)
qed


lemma w_fields [simp]:
  "al_SessionID w_request = ''s''" "al_Generation w_request = 1" "al_TrafficEncryption w_request = Some False"
  "al_NetworkSpecHash w_request = hexEncode (replicate 32 0)"
  "ar_RelayID w_assignment = w_id" "ar_LeaseID w_assignment = ''lease''" "rl_leaseID (w_relay n a r) = ''lease''"
  "rg_relays (w_assigned n) = [(w_id, w_relay n 1 1)]"
  "rg_assignments (w_assigned n) = [(''s'', \<lparr> as_response = w_assignment, as_generation = 1,
       as_networkSpecHash = hexEncode (replicate 32 0) \<rparr>)]"
  by (simp_all add: w_request_def NewAllocationRequest_def w_assignment_def newAssignment_def w_relay_def w_assigned_def)

lemma w_again: "Allocate w_env (w_assigned 2) Minute w_request = (Inr w_assignment, w_assigned 2)"
  by (simp add: Allocate_def w_request_ok mapErr_def try_with_def w_available w_supports)

lemma w_between: "foldl (reg_step w_env) w_reg (w_ops 2 @ [DoAllocate Minute w_request]) = w_assigned 2"
  by (simp add: w_run w_allocate)

theorem reservations_exact_witness:
  "NewRegistry w_env w_config Minute = Inr w_reg \<and>
     unat (rl_reservations (w_relay 2 1 1)) = sessionsOn (rg_assignments (w_assigned 2)) w_id"
  using reservations_exact [OF w_new w_between [symmetric]] w_new by simp

theorem generation_fences_relay_witness:
  "\<exists>a r. Allocate w_env (foldl (reg_step w_env) (w_assigned 2) []) Minute w_request = (Inr a, r) \<and> a = w_assignment"
  using generation_fences_relay [OF w_new, of "w_ops 2" Minute w_request w_assignment "w_assigned 2" "[]" Minute
      w_request w_assignment "w_assigned 2"] w_again by (simp add: w_run w_allocate)

theorem allocation_least_loaded_witness:
  "\<exists>relay registry'. Allocate w_env (w_ready 2) Minute w_request = (Inr (newAssignment Minute relay), registry') \<and>
     relay = w_relay 2 1 0 \<and> relayKey [] relay \<le> relayKey [] (w_relay 2 1 0)"
proof -
  have c: "map_of (rg_relays (w_ready 2)) w_id = Some (w_relay 2 1 0) \<and> candidate (w_ready 2) Minute False (w_relay 2 1 0)"
    by (simp add: candidate_def w_available w_supports) (simp add: w_ready_def)
  have "map_of (rg_assignments (w_ready 2)) (al_SessionID w_request) = None" by (simp add: w_ready_def w_reg_def)
  then obtain k relay r' where "Allocate w_env (w_ready 2) Minute w_request = (Inr (newAssignment Minute relay), r')"
      "map_of (rg_relays (w_ready 2)) k = Some relay" "relayKey (al_Topology w_request) relay \<le> relayKey (al_Topology w_request) (w_relay 2 1 0)"
    using allocation_least_loaded [OF w_new w_run [symmetric, of 2] w_request_ok _ refl] c
    by (auto split: if_splits)
  then show ?thesis by (auto simp: w_ready_def split: if_splits)
qed

theorem allocation_failure_restores_witness:
  "Allocate w_env (foldl (reg_step w_env) w_reg []) Minute w_request = (Inl ErrUnavailable, w_reg) \<and>
     map_of (rg_assignments w_reg) = map_of (rg_assignments w_reg)"
proof -
  have "Allocate w_env w_reg Minute w_request = (Inl ErrUnavailable, w_reg)"
    by (simp add: Allocate_def w_request_ok mapErr_def try_with_def assignNew_def w_reg_def)
  then show ?thesis using allocation_failure_restores [OF w_new, of w_reg "[]" Minute w_request] by simp
qed

theorem last_slot_refuses_its_session_witness:
  "Allocate w_env (w_ready 1) Minute w_request = (Inr w_assignment, w_assigned 1) \<and>
   Allocate w_env (w_assigned 1) Minute w_request = (Inl ErrAssignedRelayUnavailable, w_assigned 1)"
  using last_slot_refuses_its_session [OF w_new w_run [symmetric, of 1] w_allocate [of 1],
      where relay = "w_relay 1 1 1"] w_allocate [of 1]
  by (simp add: w_relay_def w_capacity_def)

theorem registry_answers_validate_witness:
  "RegistrationResponse_Validate (env_urlParse w_env) (env_uuidOk w_env) (env_parseKey w_env)
     (registrationResponseLocked w_reg (w_relay 1 0 0) APIVersionV2) Minute = Inr ()"
proof -
  have "w_reg = foldl (reg_step w_env) w_reg []" by simp
  moreover have "length (env_sha256 w_env x) = 32" for x by (simp add: w_env_def)
  moreover have "env_uuidOk w_env ''lease''" by (simp add: w_env_def)
  moreover have "0 < Minute" "Minute < 1000 * Minute" by (simp_all add: Minute_def Second_def)
  moreover have "set (cf_SupportedVersions w_config) \<subseteq> {APIVersionV1, APIVersionV2}" by (auto simp: w_config_def)
  ultimately show ?thesis
    using registry_answers_validate [OF w_new, of w_reg "[]" "''lease''" Minute w_peer w_register] w_keys w_register_ok
    by blast
qed

end
