(* ===== verification/RelayTicket.thy ===== *)
theory RelayTicket
  imports GoText GoTime "HOL-Library.AList" "HOL-Library.List_Lexorder" "HOL-Library.Char_ord"
begin

text \<open>
  RelayTickets, \<^verbatim>\<open>internal/protocol/relayticket\<close>: the claims and their validation (\<^verbatim>\<open>ticket.go\<close>,
  \<^verbatim>\<open>claims.go\<close>), the signer (\<^verbatim>\<open>signer.go\<close>), the verifier (\<^verbatim>\<open>verifier.go\<close>, \<^verbatim>\<open>codec.go\<close>) and the key files
  (\<^verbatim>\<open>keys.go\<close>).

  The record \<open>crypto\<close> holds what the package takes from libraries: JSON encoding of headers and claims,
  the JSON decoders with unknown fields refused (the document, and whether the input ends after it),
  \<^verbatim>\<open>ed25519.Sign\<close> and \<^verbatim>\<open>ed25519.Verify\<close>, the PEM and X.509 codecs. Base64 is modelled. The times in claims are
  signed 64-bit integers: 64-bit words read with \<open>sint\<close>.
\<close>

section \<open>Claims\<close>

definition Version :: int where "Version = 2"
definition TicketType :: string where "TicketType = ''KubeLoop-RelayTicket''"
definition Algorithm :: string where "Algorithm = ''EdDSA''"
definition DefaultLifetime :: duration where "DefaultLifetime = Minute"
definition MaximumLifetime :: duration where "MaximumLifetime = Minute"
definition DefaultClockSkew :: duration where "DefaultClockSkew = 15 * Second"
definition MaximumTicketBytes :: nat where "MaximumTicketBytes = 8192"

datatype ticket_error = ErrInvalid | TicketError string

record Claims =
  cl_Version :: int
  cl_Issuer :: string
  cl_Audience :: string
  cl_IdentityID :: string
  cl_Groups :: "string list"
  cl_DeviceID :: string
  cl_SessionID :: string
  cl_SessionGeneration :: "64 word"
  cl_Namespace :: string
  cl_Operations :: "string list"
  cl_NetworkSpecHash :: string
  cl_TicketID :: string
  cl_IssuedAt :: "64 word"
  cl_NotBefore :: "64 word"
  cl_ExpiresAt :: "64 word"
  cl_TrafficEncryption :: "bool option"
  cl_NoisePublicKey :: string

record header =
  hd_Algorithm :: string
  hd_Type :: string
  hd_KeyID :: string

record publicKeyEntry =
  pe_KeyID :: string
  pe_PublicKey :: string

record crypto =
  cr_marshalHeader :: "header \<Rightarrow> bytes option"
  cr_marshalClaims :: "Claims \<Rightarrow> bytes option"
  cr_decodeHeader :: "bytes \<Rightarrow> (header \<times> bool) option"
  cr_decodeClaims :: "bytes \<Rightarrow> (Claims \<times> bool) option"
  cr_sign :: "bytes \<Rightarrow> bytes \<Rightarrow> bytes"
  cr_verify :: "bytes \<Rightarrow> bytes \<Rightarrow> bytes \<Rightarrow> bool"

text \<open>\<^verbatim>\<open>utils.DecodeStrictJSON\<close>: one JSON document and nothing after it.\<close>

definition DecodeStrictJSON :: "(bytes \<Rightarrow> ('a \<times> bool) option) \<Rightarrow> bytes \<Rightarrow> 'a option" where
  "DecodeStrictJSON decodeDoc raw =
     (case decodeDoc raw of None \<Rightarrow> None | Some (v, atEnd) \<Rightarrow> if \<not> atEnd then None else Some v)"

definition validText :: "string \<Rightarrow> nat \<Rightarrow> bool" where
  "validText s maximum \<longleftrightarrow> s \<noteq> '''' \<and> length s \<le> maximum \<and> TrimSpace s = s \<and> \<not> ContainsControl s"

definition identifier_rune :: "nat \<Rightarrow> bool" where
  "identifier_rune r \<longleftrightarrow> 97 \<le> r \<and> r \<le> 122 \<or> 65 \<le> r \<and> r \<le> 90 \<or> 48 \<le> r \<and> r \<le> 57 \<or>
     r \<in> code ` set ''-._:@/''"

definition ValidIdentifier :: "string \<Rightarrow> nat \<Rightarrow> bool" where
  "ValidIdentifier s maximum \<longleftrightarrow> validText s maximum \<and> list_all identifier_rune (runes s)"

definition lower_hex_rune :: "nat \<Rightarrow> bool" where
  "lower_hex_rune r \<longleftrightarrow> \<not> ((r < 48 \<or> r > 57) \<and> (r < 97 \<or> r > 102))"

definition validLowerHex :: "string \<Rightarrow> nat \<Rightarrow> bool" where
  "validLowerHex s n \<longleftrightarrow> length s = n \<and> list_all lower_hex_rune (runes s)"

text \<open>The two loops that check every entry and refuse duplicates.\<close>

fun unique_loop ::
  "(string \<Rightarrow> bool) \<Rightarrow> ticket_error \<Rightarrow> ticket_error \<Rightarrow> string list \<Rightarrow> string list \<Rightarrow> ticket_error + unit" where
  "unique_loop ok bad dup seen [] = Inr ()"
| "unique_loop ok bad dup seen (x # xs) =
     (if \<not> ok x then Inl bad
      else if x \<in> set seen then Inl dup
      else unique_loop ok bad dup (x # seen) xs)"

text \<open>\<^verbatim>\<open>time.Duration(claims.ExpiresAt-claims.IssuedAt)*time.Second\<close> in 64-bit arithmetic.\<close>

definition claimedLifetime :: "Claims \<Rightarrow> duration" where
  "claimedLifetime claims = sint ((cl_ExpiresAt claims - cl_IssuedAt claims) * 1000000000)"

definition validateClaims :: "Claims \<Rightarrow> ticket_error + unit" where
  "validateClaims claims =
     (if cl_Version claims \<noteq> Version \<or> \<not> validText (cl_Issuer claims) 512 \<or>
         \<not> ValidIdentifier (cl_Audience claims) 128 \<or> \<not> ValidIdentifier (cl_IdentityID claims) 256 \<or>
         \<not> ValidIdentifier (cl_DeviceID claims) 256 \<or> \<not> ValidIdentifier (cl_SessionID claims) 128 \<or>
         \<not> ValidIdentifier (cl_Namespace claims) 253 \<or> cl_SessionGeneration claims = 0 \<or>
         \<not> ValidIdentifier (cl_TicketID claims) 128 \<or> length (cl_Groups claims) > 128 \<or>
         length (cl_Operations claims) = 0 \<or> length (cl_Operations claims) > 16
      then Inl (TicketError ''relay ticket claims are invalid'')
      else
      bindE (unique_loop (\<lambda>group. validText group 256) (TicketError ''relay ticket group is invalid'')
               (TicketError ''relay ticket group is duplicated'') [] (cl_Groups claims)) (\<lambda>_.
      bindE (unique_loop (\<lambda>operation. ValidIdentifier operation 64)
               (TicketError ''relay ticket operation is invalid'')
               (TicketError ''relay ticket operation is duplicated'') [] (cl_Operations claims)) (\<lambda>_.
      if \<not> validLowerHex (cl_NetworkSpecHash claims) 64
      then Inl (TicketError ''relay ticket network spec hash is invalid'')
      else if sint (cl_IssuedAt claims) \<le> 0 \<or> sint (cl_NotBefore claims) \<le> 0 \<or>
         sint (cl_ExpiresAt claims) \<le> sint (cl_IssuedAt claims) \<or>
         sint (cl_NotBefore claims) < sint (cl_IssuedAt claims) \<or>
         claimedLifetime claims > MaximumLifetime
      then Inl (TicketError ''relay ticket lifetime is invalid'')
      else Inr ())))"

section \<open>Signer\<close>

record Signer =
  sg_keyID :: string
  sg_key :: bytes

definition NewSigner :: "string \<Rightarrow> bytes \<Rightarrow> ticket_error + Signer" where
  "NewSigner keyID key =
     (let keyID = TrimSpace keyID in
      if \<not> ValidIdentifier keyID 128 \<or> length key \<noteq> 64
      then Inl (TicketError ''relay ticket signer configuration is invalid'')
      else Inr \<lparr> sg_keyID = keyID, sg_key = key \<rparr>)"

definition Sign :: "crypto \<Rightarrow> Signer option \<Rightarrow> Claims \<Rightarrow> ticket_error + string" where
  "Sign crypto signer claims =
     (case signer of
        None \<Rightarrow> Inl (TicketError ''relay ticket signer is unavailable'')
      | Some signer \<Rightarrow>
          if length (sg_key signer) \<noteq> 64 then Inl (TicketError ''relay ticket signer is unavailable'')
          else bindE (validateClaims claims) (\<lambda>_.
            case cr_marshalHeader crypto \<lparr> hd_Algorithm = Algorithm, hd_Type = TicketType,
                                            hd_KeyID = sg_keyID signer \<rparr> of
              None \<Rightarrow> Inl (TicketError ''encode relay ticket header'')
            | Some headerJSON \<Rightarrow>
                (case cr_marshalClaims crypto claims of
                   None \<Rightarrow> Inl (TicketError ''encode relay ticket claims'')
                 | Some claimsJSON \<Rightarrow>
                     let unsigned = b64Encode headerJSON @ ''.'' @ b64Encode claimsJSON;
                         signature = cr_sign crypto (sg_key signer) (bytes_of_str unsigned);
                         ticket = unsigned @ ''.'' @ b64Encode signature in
                     if length ticket > MaximumTicketBytes
                     then Inl (TicketError ''relay ticket exceeds size limit'')
                     else Inr ticket)))"

section \<open>Verifier\<close>

record KeyValidity =
  kv_NotBefore :: time
  kv_NotAfter :: time

record Verifier =
  vr_keys :: "(string \<times> bytes) list"
  vr_keyValidity :: "(string \<times> KeyValidity) list"
  vr_issuer :: string
  vr_audience :: string
  vr_requiredOperation :: string
  vr_clockSkew :: duration

text \<open>The loop over \<^verbatim>\<open>config.Keys\<close> with the validity entries that it collects.\<close>

fun verifierKeys_loop ::
  "(string \<times> KeyValidity) list \<Rightarrow> (string \<times> bytes) list
     \<Rightarrow> ticket_error + (string \<times> KeyValidity) list" where
  "verifierKeys_loop validity [] = Inr []"
| "verifierKeys_loop validity ((keyID, key) # keys) =
     (if \<not> ValidIdentifier keyID 128 \<or> length key \<noteq> 32
      then Inl (TicketError ''relay ticket verification key is invalid'')
      else case map_of validity keyID of
             None \<Rightarrow> verifierKeys_loop validity keys
           | Some v \<Rightarrow>
               if IsZero (kv_NotBefore v) \<or> IsZero (kv_NotAfter v) \<or> \<not> kv_NotAfter v > kv_NotBefore v
               then Inl (TicketError ''relay ticket verification key validity is invalid'')
               else bindE (verifierKeys_loop validity keys) (\<lambda>rest. Inr ((keyID, v) # rest)))"

definition NewVerifier :: "Verifier \<Rightarrow> ticket_error + Verifier" where
  "NewVerifier config =
     (let issuer = TrimSpace (vr_issuer config);
          audience = TrimSpace (vr_audience config);
          operation = TrimSpace (vr_requiredOperation config);
          skew = (if vr_clockSkew config = 0 then DefaultClockSkew else vr_clockSkew config) in
      if \<not> validText issuer 512 \<or> \<not> ValidIdentifier audience 128 \<or> \<not> ValidIdentifier operation 64 \<or>
         length (vr_keys config) = 0 \<or> length (vr_keys config) > 8
      then Inl (TicketError ''relay ticket verifier configuration is invalid'')
      else if skew < 0 \<or> skew > Minute
      then Inl (TicketError ''relay ticket verifier clock skew is invalid'')
      else bindE (verifierKeys_loop (vr_keyValidity config) (vr_keys config)) (\<lambda>keyValidity.
        if \<not> list_all (\<lambda>(keyID, _). map_of (vr_keys config) keyID \<noteq> None) (vr_keyValidity config)
        then Inl (TicketError ''relay ticket verification key validity has no matching key'')
        else Inr \<lparr> vr_keys = vr_keys config, vr_keyValidity = keyValidity, vr_issuer = issuer,
                   vr_audience = audience, vr_requiredOperation = operation, vr_clockSkew = skew \<rparr>))"

definition decodePart :: "string \<Rightarrow> nat \<Rightarrow> bytes option" where
  "decodePart s maximum =
     (case b64Decode s of
        None \<Rightarrow> None
      | Some decoded \<Rightarrow> if length decoded = 0 \<or> length decoded > maximum then None else Some decoded)"

definition keyInValidity :: "Verifier \<Rightarrow> string \<Rightarrow> time \<Rightarrow> bool" where
  "keyInValidity verifier keyID now =
     (case map_of (vr_keyValidity verifier) keyID of
        None \<Rightarrow> True
      | Some validity \<Rightarrow>
          let beforeValidity = now + vr_clockSkew verifier < kv_NotBefore validity;
              afterValidity = (\<not> now - vr_clockSkew verifier < kv_NotAfter validity) in
          \<not> (beforeValidity \<or> afterValidity))"

definition claimsAccepted :: "Verifier \<Rightarrow> time \<Rightarrow> Claims \<Rightarrow> bool" where
  "claimsAccepted verifier nowTime claims =
     (let now = Unix nowTime; skew = vr_clockSkew verifier div Second in
      \<not> (cl_Issuer claims \<noteq> vr_issuer verifier \<or> cl_Audience claims \<noteq> vr_audience verifier \<or>
         sint (cl_NotBefore claims) > now + skew \<or> sint (cl_IssuedAt claims) > now + skew \<or>
         sint (cl_ExpiresAt claims) \<le> now - skew \<or>
         vr_requiredOperation verifier \<notin> set (cl_Operations claims)))"

definition Verify :: "crypto \<Rightarrow> Verifier \<Rightarrow> time \<Rightarrow> string \<Rightarrow> ticket_error + Claims" where
  "Verify crypto verifier now ticket =
     (if length ticket = 0 \<or> length ticket > MaximumTicketBytes \<or> TrimSpace ticket \<noteq> ticket then Inl ErrInvalid
      else case Split ticket CHR ''.'' of
        [part0, part1, part2] \<Rightarrow>
          if part0 = '''' \<or> part1 = '''' \<or> part2 = '''' then Inl ErrInvalid
          else (case decodePart part0 1024 of
            None \<Rightarrow> Inl ErrInvalid
          | Some headerJSON \<Rightarrow>
              (case DecodeStrictJSON (cr_decodeHeader crypto) headerJSON of
                 None \<Rightarrow> Inl ErrInvalid
               | Some ticketHeader \<Rightarrow>
                   if hd_Algorithm ticketHeader \<noteq> Algorithm \<or> hd_Type ticketHeader \<noteq> TicketType \<or>
                      \<not> ValidIdentifier (hd_KeyID ticketHeader) 128
                   then Inl ErrInvalid
                   else (case map_of (vr_keys verifier) (hd_KeyID ticketHeader) of
                     None \<Rightarrow> Inl ErrInvalid
                   | Some key \<Rightarrow>
                       if \<not> keyInValidity verifier (hd_KeyID ticketHeader) now then Inl ErrInvalid
                       else (case b64Decode part2 of
                         None \<Rightarrow> Inl ErrInvalid
                       | Some signature \<Rightarrow>
                           if length signature \<noteq> 64 \<or>
                              \<not> cr_verify crypto key (bytes_of_str (part0 @ ''.'' @ part1)) signature
                           then Inl ErrInvalid
                           else (case decodePart part1 MaximumTicketBytes of
                             None \<Rightarrow> Inl ErrInvalid
                           | Some claimsJSON \<Rightarrow>
                               (case DecodeStrictJSON (cr_decodeClaims crypto) claimsJSON of
                                  None \<Rightarrow> Inl ErrInvalid
                                | Some claims \<Rightarrow>
                                    if validateClaims claims \<noteq> Inr () then Inl ErrInvalid
                                    else if \<not> claimsAccepted verifier now claims then Inl ErrInvalid
                                    else Inr claims))))))
      | _ \<Rightarrow> Inl ErrInvalid)"

section \<open>Key files\<close>

text \<open>
  \<open>parsePem\<close> is \<^verbatim>\<open>pem.Decode\<close> with the X.509 parser: the block type, the parsed Ed25519 key (\<open>None\<close> when the
  parser fails, \<open>Some None\<close> for another kind of key) and the rest.
\<close>

type_synonym pem_parser = "string \<Rightarrow> (string \<times> bytes option option \<times> string) option"

text \<open>\<^verbatim>\<open>readKeyFile\<close> after the file was opened and read up to the limit.\<close>

definition keyFileData :: "bytes option \<Rightarrow> bytes option" where
  "keyFileData contents =
     (case contents of None \<Rightarrow> None
      | Some raw \<Rightarrow> let data = take (262144 + 1) raw in
          if length data = 0 \<or> length data > 262144 then None else Some data)"

definition LoadSigningKey :: "pem_parser \<Rightarrow> bytes option \<Rightarrow> ticket_error + bytes" where
  "LoadSigningKey parsePem contents =
     (case keyFileData contents of
        None \<Rightarrow> Inl (TicketError ''read relay ticket signing key file'')
      | Some data \<Rightarrow>
          (case parsePem (str_of_bytes data) of
             None \<Rightarrow> Inl (TicketError ''relay ticket signing key must be one PKCS#8 PEM private key'')
           | Some (blockType, parsed, rest) \<Rightarrow>
               if blockType \<noteq> ''PRIVATE KEY'' \<or> length (TrimSpace rest) \<noteq> 0
               then Inl (TicketError ''relay ticket signing key must be one PKCS#8 PEM private key'')
               else (case parsed of
                  None \<Rightarrow> Inl (TicketError ''parse relay ticket signing key'')
                | Some None \<Rightarrow> Inl (TicketError ''relay ticket signing key must use Ed25519'')
                | Some (Some key) \<Rightarrow>
                    if length key \<noteq> 64 then Inl (TicketError ''relay ticket signing key must use Ed25519'')
                    else Inr key)))"

fun loadKeys_loop ::
  "pem_parser \<Rightarrow> (string \<times> bytes) list \<Rightarrow> publicKeyEntry list \<Rightarrow> ticket_error + (string \<times> bytes) list" where
  "loadKeys_loop parsePem keys [] = Inr keys"
| "loadKeys_loop parsePem keys (entry # entries) =
     (if \<not> ValidIdentifier (pe_KeyID entry) 128
      then Inl (TicketError ''relay ticket verification key ID is invalid'')
      else if map_of keys (pe_KeyID entry) \<noteq> None
      then Inl (TicketError ''relay ticket verification key ID is duplicated'')
      else case parsePem (pe_PublicKey entry) of
             None \<Rightarrow> Inl (TicketError ''relay ticket verification key must be one PKIX PEM public key'')
           | Some (blockType, parsed, rest) \<Rightarrow>
               if blockType \<noteq> ''PUBLIC KEY'' \<or> length (TrimSpace rest) \<noteq> 0
               then Inl (TicketError ''relay ticket verification key must be one PKIX PEM public key'')
               else (case parsed of
                  None \<Rightarrow> Inl (TicketError ''parse relay ticket verification key'')
                | Some None \<Rightarrow> Inl (TicketError ''relay ticket verification key must use Ed25519'')
                | Some (Some key) \<Rightarrow>
                    if length key \<noteq> 32 then Inl (TicketError ''relay ticket verification key must use Ed25519'')
                    else loadKeys_loop parsePem (AList.update (pe_KeyID entry) key keys) entries))"

definition LoadVerificationKeys ::
  "(bytes \<Rightarrow> (publicKeyEntry list \<times> bool) option) \<Rightarrow> pem_parser \<Rightarrow> bytes option
     \<Rightarrow> ticket_error + (string \<times> bytes) list" where
  "LoadVerificationKeys decodeDoc parsePem contents =
     (case keyFileData contents of
        None \<Rightarrow> Inl (TicketError ''read relay ticket verification keys file'')
      | Some data \<Rightarrow>
          (case DecodeStrictJSON decodeDoc data of
             None \<Rightarrow> Inl (TicketError ''parse relay ticket verification keys file'')
           | Some entries \<Rightarrow>
               if length entries = 0 \<or> length entries > 8
               then Inl (TicketError ''parse relay ticket verification keys file'')
               else loadKeys_loop parsePem [] entries))"

definition compareKeyIDs :: "string \<Rightarrow> string \<Rightarrow> int" where
  "compareKeyIDs left right = (if left < right then -1 else if left > right then 1 else 0)"

fun marshalKeys_loop ::
  "(bytes \<Rightarrow> string option) \<Rightarrow> (string \<times> bytes) list \<Rightarrow> string list \<Rightarrow> ticket_error + publicKeyEntry list" where
  "marshalKeys_loop encodePem keys [] = Inr []"
| "marshalKeys_loop encodePem keys (keyID # keyIDs) =
     (let key = (case map_of keys keyID of None \<Rightarrow> [] | Some k \<Rightarrow> k) in
      if \<not> ValidIdentifier keyID 128 \<or> length key \<noteq> 32
      then Inl (TicketError ''relay ticket verification key is invalid'')
      else case encodePem key of
             None \<Rightarrow> Inl (TicketError ''encode relay ticket verification key'')
           | Some pem \<Rightarrow> bindE (marshalKeys_loop encodePem keys keyIDs) (\<lambda>rest.
               Inr (\<lparr> pe_KeyID = keyID, pe_PublicKey = pem \<rparr> # rest)))"

definition MarshalVerificationKeys ::
  "(publicKeyEntry list \<Rightarrow> bytes option) \<Rightarrow> (bytes \<Rightarrow> string option) \<Rightarrow> (string \<times> bytes) list
     \<Rightarrow> ticket_error + bytes" where
  "MarshalVerificationKeys marshal encodePem keys =
     (if length keys = 0 \<or> length keys > 8 then Inl (TicketError ''relay ticket verification keys are invalid'')
      else bindE (marshalKeys_loop encodePem keys (SortFunc compareKeyIDs (map fst keys))) (\<lambda>entries.
        case marshal entries of None \<Rightarrow> Inl (TicketError ''json'') | Some raw \<Rightarrow> Inr raw))"

section \<open>Soundness of verification\<close>

lemma unique_loop_eq_Inr:
  "unique_loop ok bad dup seen xs = Inr () \<longleftrightarrow> list_all ok xs \<and> distinct xs \<and> set seen \<inter> set xs = {}"
  by (induction xs arbitrary: seen) auto

lemma validateClaims_iff:
  "validateClaims claims = Inr () \<longleftrightarrow>
     cl_Version claims = Version \<and> validText (cl_Issuer claims) 512 \<and>
     ValidIdentifier (cl_Audience claims) 128 \<and> ValidIdentifier (cl_IdentityID claims) 256 \<and>
     ValidIdentifier (cl_DeviceID claims) 256 \<and> ValidIdentifier (cl_SessionID claims) 128 \<and>
     ValidIdentifier (cl_Namespace claims) 253 \<and> cl_SessionGeneration claims \<noteq> 0 \<and>
     ValidIdentifier (cl_TicketID claims) 128 \<and> length (cl_Groups claims) \<le> 128 \<and>
     cl_Operations claims \<noteq> [] \<and> length (cl_Operations claims) \<le> 16 \<and>
     list_all (\<lambda>group. validText group 256) (cl_Groups claims) \<and> distinct (cl_Groups claims) \<and>
     list_all (\<lambda>operation. ValidIdentifier operation 64) (cl_Operations claims) \<and> distinct (cl_Operations claims) \<and>
     validLowerHex (cl_NetworkSpecHash claims) 64 \<and>
     0 < sint (cl_IssuedAt claims) \<and> sint (cl_IssuedAt claims) \<le> sint (cl_NotBefore claims) \<and>
     sint (cl_IssuedAt claims) < sint (cl_ExpiresAt claims) \<and> claimedLifetime claims \<le> MaximumLifetime"
  unfolding validateClaims_def bindE_eq_Inr unique_loop_eq_Inr
  by (auto simp: not_le not_less bindE_eq_Inr unique_loop_eq_Inr split: if_splits)

definition signed_by ::
  "crypto \<Rightarrow> Verifier \<Rightarrow> time \<Rightarrow> string \<Rightarrow> string \<Rightarrow> string \<Rightarrow> bool" where
  "signed_by crypto verifier now part0 part1 part2 \<longleftrightarrow>
     (\<exists>headerJSON ticketHeader key signature.
        decodePart part0 1024 = Some headerJSON \<and>
        DecodeStrictJSON (cr_decodeHeader crypto) headerJSON = Some ticketHeader \<and>
        hd_Algorithm ticketHeader = Algorithm \<and> hd_Type ticketHeader = TicketType \<and>
        ValidIdentifier (hd_KeyID ticketHeader) 128 \<and>
        map_of (vr_keys verifier) (hd_KeyID ticketHeader) = Some key \<and>
        keyInValidity verifier (hd_KeyID ticketHeader) now \<and>
        b64Decode part2 = Some signature \<and> length signature = 64 \<and>
        cr_verify crypto key (bytes_of_str (part0 @ ''.'' @ part1)) signature)"

lemma Verify_parts:
  assumes "Split ticket CHR ''.'' = [part0, part1, part2]"
  shows "Verify crypto verifier now ticket = Inr claims \<longleftrightarrow>
     length ticket \<le> MaximumTicketBytes \<and> TrimSpace ticket = ticket \<and> ticket \<noteq> '''' \<and>
     part0 \<noteq> '''' \<and> part1 \<noteq> '''' \<and> part2 \<noteq> '''' \<and> signed_by crypto verifier now part0 part1 part2 \<and>
     (\<exists>claimsJSON. decodePart part1 MaximumTicketBytes = Some claimsJSON \<and>
        DecodeStrictJSON (cr_decodeClaims crypto) claimsJSON = Some claims) \<and>
     validateClaims claims = Inr () \<and> claimsAccepted verifier now claims"
  unfolding Verify_def assms list.case signed_by_def
  by (auto split: if_splits option.splits)

lemma Verify_three_parts:
  assumes "Verify crypto verifier now ticket = Inr claims"
  obtains part0 part1 part2 where "Split ticket CHR ''.'' = [part0, part1, part2]"
  using assms unfolding Verify_def by (auto split: if_splits list.splits)

lemma lifetime_no_wrap:
  assumes "0 < sint (cl_IssuedAt claims)" "sint (cl_IssuedAt claims) < sint (cl_ExpiresAt claims)"
    and "sint (cl_ExpiresAt claims) - sint (cl_IssuedAt claims) \<le> 9223372036"
  shows "claimedLifetime claims = (sint (cl_ExpiresAt claims) - sint (cl_IssuedAt claims)) * Second"
proof -
  let ?d = "sint (cl_ExpiresAt claims) - sint (cl_IssuedAt claims)"
  have "(cl_ExpiresAt claims - cl_IssuedAt claims) * 1000000000 = word_of_int (?d * 1000000000)"
    by simp
  moreover have "0 \<le> ?d * 1000000000" "?d * 1000000000 < 2 ^ 63" using assms by simp_all
  ultimately show ?thesis
    unfolding claimedLifetime_def Second_def by (simp only: int_word_sint) simp
qed

lemma lifetime_bound:
  assumes "validateClaims claims = Inr ()"
    and "sint (cl_ExpiresAt claims) - sint (cl_IssuedAt claims) \<le> 9223372036"
  shows "sint (cl_ExpiresAt claims) - sint (cl_IssuedAt claims) \<le> 60"
  using lifetime_no_wrap [of claims] assms
  by (simp add: validateClaims_iff MaximumLifetime_def Minute_def Second_def)

text \<open>C9. A ticket that a relay accepts was signed over its header and claims by a key that the relay trusts,
  within the validity of that key; its claims are valid and name this relay as the audience, the trusted issuer
  and the required operation; now lies between its not-before time and its expiry, up to the clock skew; and it
  lives for at most a minute, for all lifetimes that the 64-bit product of the check can express.\<close>

theorem accepted_ticket_sound:
  assumes "Verify crypto verifier now ticket = Inr claims"
  shows "(\<exists>part0 part1 part2 claimsJSON. ticket = part0 @ ''.'' @ part1 @ ''.'' @ part2 \<and>
            signed_by crypto verifier now part0 part1 part2 \<and> b64Decode part1 = Some claimsJSON \<and>
            DecodeStrictJSON (cr_decodeClaims crypto) claimsJSON = Some claims)
       \<and> validateClaims claims = Inr () \<and> cl_Audience claims = vr_audience verifier
       \<and> cl_Issuer claims = vr_issuer verifier \<and> vr_requiredOperation verifier \<in> set (cl_Operations claims)
       \<and> sint (cl_NotBefore claims) \<le> Unix now + vr_clockSkew verifier div Second
       \<and> Unix now - vr_clockSkew verifier div Second < sint (cl_ExpiresAt claims)
       \<and> (sint (cl_ExpiresAt claims) - sint (cl_IssuedAt claims) \<le> 9223372036 \<longrightarrow>
            sint (cl_ExpiresAt claims) - sint (cl_IssuedAt claims) \<le> 60)"
proof -
  obtain part0 part1 part2 where split: "Split ticket CHR ''.'' = [part0, part1, part2]"
    using Verify_three_parts [OF assms] .
  note v = assms [unfolded Verify_parts [OF split]]
  have "ticket = part0 @ ''.'' @ part1 @ ''.'' @ part2"
    using join_Split [of "CHR ''.''" ticket] by (simp add: split)
  moreover obtain claimsJSON where "b64Decode part1 = Some claimsJSON"
      "DecodeStrictJSON (cr_decodeClaims crypto) claimsJSON = Some claims"
    using v by (auto simp: decodePart_def split: option.splits if_splits)
  ultimately show ?thesis using v lifetime_bound [of claims]
    by (auto simp: claimsAccepted_def Let_def not_less not_le)
qed

section \<open>Completeness of verification\<close>

lemma Split_dotted:
  assumes "CHR ''.'' \<notin> set a" "CHR ''.'' \<notin> set b" "CHR ''.'' \<notin> set c"
  shows "Split (a @ ''.'' @ b @ ''.'' @ c) CHR ''.'' = [a, b, c]"
  using assms by (simp add: Split_append_sep Split_no_sep)

lemma b64_no_dot: "CHR ''.'' \<notin> set (b64Encode bs)"
  using b64Encode_visible [of bs] by (auto simp: list_all_iff)

lemma length_b64Encode_ge: "length bs \<le> length (b64Encode bs)"
proof -
  have "length xs \<le> length (sextets xs)" for xs
    by (induction xs rule: sextets.induct) auto
  from this [of "map unat bs"] show ?thesis by (simp add: b64Encode_def)
qed

lemma dotted_trimmed: "TrimSpace (b64Encode a @ ''.'' @ b64Encode b @ ''.'' @ b64Encode c) =
    b64Encode a @ ''.'' @ b64Encode b @ ''.'' @ b64Encode c"
  using b64Encode_visible [of a] b64Encode_visible [of b] b64Encode_visible [of c]
  by (intro TrimSpace_visible) (auto simp: list_all_iff visible_ascii_def)

text \<open>The documented behaviour of the libraries that signing and verifying rely on, for the document at hand.\<close>

definition codec_law :: "crypto \<Rightarrow> Signer \<Rightarrow> Claims \<Rightarrow> bool" where
  "codec_law crypto signer claims \<longleftrightarrow>
     (\<exists>raw. cr_marshalHeader crypto \<lparr> hd_Algorithm = Algorithm, hd_Type = TicketType,
              hd_KeyID = sg_keyID signer \<rparr> = Some raw \<and> raw \<noteq> [] \<and> length raw \<le> 1024 \<and>
        cr_decodeHeader crypto raw = Some (\<lparr> hd_Algorithm = Algorithm, hd_Type = TicketType,
              hd_KeyID = sg_keyID signer \<rparr>, True)) \<and>
     (\<exists>raw. cr_marshalClaims crypto claims = Some raw \<and> raw \<noteq> [] \<and>
        cr_decodeClaims crypto raw = Some (claims, True))"

definition key_pair :: "crypto \<Rightarrow> bytes \<Rightarrow> bytes \<Rightarrow> bool" where
  "key_pair crypto key publicKey \<longleftrightarrow>
     (\<forall>message. length (cr_sign crypto key message) = 64 \<and>
        cr_verify crypto publicKey message (cr_sign crypto key message))"

text \<open>C27. A ticket that the Control Plane signs is accepted by every relay that trusts the signing key,
  is named in the audience and expects the issuer and an operation of the ticket, from its not-before time up to its
  expiry and the clock skew beyond both; the relay reads exactly the signed claims.\<close>

theorem signed_ticket_accepted:
  assumes "NewSigner keyID key = Inr signer" and "Sign crypto (Some signer) claims = Inr ticket"
    and "codec_law crypto signer claims" and "key_pair crypto key publicKey"
    and "map_of (vr_keys verifier) (sg_keyID signer) = Some publicKey"
    and "keyInValidity verifier (sg_keyID signer) now" and "claimsAccepted verifier now claims"
  shows "Verify crypto verifier now ticket = Inr claims"
proof -
  let ?header = "\<lparr> hd_Algorithm = Algorithm, hd_Type = TicketType, hd_KeyID = sg_keyID signer \<rparr>"
  have signer: "ValidIdentifier (sg_keyID signer) 128" "sg_key signer = key"
    using assms(1) by (auto simp: NewSigner_def Let_def split: if_splits)
  obtain hj where hj: "cr_marshalHeader crypto ?header = Some hj" "hj \<noteq> []" "length hj \<le> 1024"
      "cr_decodeHeader crypto hj = Some (?header, True)"
    using assms(3) by (auto simp: codec_law_def)
  obtain cj where cj: "cr_marshalClaims crypto claims = Some cj" "cj \<noteq> []"
      "cr_decodeClaims crypto cj = Some (claims, True)"
    using assms(3) by (auto simp: codec_law_def)
  define message where "message = b64Encode hj @ ''.'' @ b64Encode cj"
  define sig where "sig = cr_sign crypto key (bytes_of_str message)"
  have sig: "length sig = 64" "cr_verify crypto publicKey (bytes_of_str message) sig"
    using assms(4) by (simp_all add: key_pair_def sig_def)
  have ticket: "ticket = b64Encode hj @ ''.'' @ b64Encode cj @ ''.'' @ b64Encode sig"
    and size: "length ticket \<le> MaximumTicketBytes" and valid: "validateClaims claims = Inr ()"
    using assms(2) hj(1) cj(1) signer(2)
    by (auto simp: Sign_def bindE_eq_Inr Let_def sig_def message_def split: if_splits)
  have split: "Split ticket CHR ''.'' = [b64Encode hj, b64Encode cj, b64Encode sig]"
    unfolding ticket by (rule Split_dotted; rule b64_no_dot)
  have "length cj \<le> MaximumTicketBytes" using size length_b64Encode_ge [of cj] by (simp add: ticket)
  then have parts: "decodePart (b64Encode hj) 1024 = Some hj" "decodePart (b64Encode cj) MaximumTicketBytes = Some cj"
    using hj(2,3) cj(2) by (auto simp: decodePart_def)
  have "signed_by crypto verifier now (b64Encode hj) (b64Encode cj) (b64Encode sig)"
    using parts hj(4) signer(1) assms(5,6) sig
    by (simp add: signed_by_def DecodeStrictJSON_def message_def)
  moreover have "sig \<noteq> []" using sig(1) by auto
  ultimately show ?thesis
    unfolding Verify_parts [OF split]
    using parts cj(2,3) hj(2) size valid assms(7) b64Encode_nonempty dotted_trimmed [of hj cj sig]
    by (simp add: DecodeStrictJSON_def ticket)
qed

section \<open>The lifetime check and overflow\<close>

text \<open>C28. The lifetime check can be passed by a ticket that lives for over a billion years: for valid claims issued
  at any time before $2^{62}$ seconds, an expiry $2^{55}$ seconds after the issue time is accepted, because the
  conversion to nanoseconds wraps around to zero.\<close>

theorem lifetime_check_overflows:
  assumes "validateClaims claims = Inr ()" and "sint (cl_IssuedAt claims) < 2 ^ 62"
  shows "validateClaims (claims \<lparr> cl_ExpiresAt := cl_IssuedAt claims + 2 ^ 55 \<rparr>) = Inr ()"
proof -
  let ?i = "sint (cl_IssuedAt claims)"
  have i: "0 < ?i" using assms(1) by (simp add: validateClaims_iff)
  have w: "cl_IssuedAt claims + 2 ^ 55 = word_of_int (?i + 2 ^ 55)" by simp
  have s: "sint (cl_IssuedAt claims + 2 ^ 55) = ?i + 2 ^ 55"
    using i assms(2) unfolding w by (simp only: int_word_sint) simp
  have "claimedLifetime (claims \<lparr> cl_ExpiresAt := cl_IssuedAt claims + 2 ^ 55 \<rparr>) = 0"
    by (simp add: claimedLifetime_def)
  then show ?thesis using assms(1) i s by (simp add: validateClaims_iff MaximumLifetime_def Minute_def Second_def)
qed

section \<open>A ticket\<close>

text \<open>Concrete claims, signer and verifier at which the theorems are applied.\<close>

definition t_claims :: Claims where
  "t_claims = \<lparr> cl_Version = 2, cl_Issuer = ''https://cp'', cl_Audience = ''relay-1'', cl_IdentityID = ''alice'',
     cl_Groups = [''dev''], cl_DeviceID = ''laptop'', cl_SessionID = ''s1'', cl_SessionGeneration = 1,
     cl_Namespace = ''team'', cl_Operations = [''tunnel''], cl_NetworkSpecHash = replicate 64 CHR ''a'',
     cl_TicketID = ''t1'', cl_IssuedAt = 1000, cl_NotBefore = 1000, cl_ExpiresAt = 1060,
     cl_TrafficEncryption = None, cl_NoisePublicKey = '''' \<rparr>"

definition t_crypto :: crypto where
  "t_crypto = \<lparr> cr_marshalHeader = (\<lambda>_. Some [1]), cr_marshalClaims = (\<lambda>_. Some [2]),
     cr_decodeHeader = (\<lambda>_. Some (\<lparr> hd_Algorithm = Algorithm, hd_Type = TicketType, hd_KeyID = ''k1'' \<rparr>, True)),
     cr_decodeClaims = (\<lambda>_. Some (t_claims, True)), cr_sign = (\<lambda>_ _. replicate 64 0),
     cr_verify = (\<lambda>_ _ s. s = replicate 64 0) \<rparr>"

definition t_signer :: Signer where
  "t_signer = \<lparr> sg_keyID = ''k1'', sg_key = replicate 64 0 \<rparr>"

definition t_verifier :: Verifier where
  "t_verifier = \<lparr> vr_keys = [(''k1'', replicate 32 0)], vr_keyValidity = [], vr_issuer = ''https://cp'',
     vr_audience = ''relay-1'', vr_requiredOperation = ''tunnel'', vr_clockSkew = 15 * Second \<rparr>"

definition t_ticket :: string where
  "t_ticket = b64Encode [1] @ ''.'' @ b64Encode [2] @ ''.'' @ b64Encode (replicate 64 0)"

definition t_now :: time where "t_now = (unixToInternal + 1030) * Second"

lemmas t_simps = t_claims_def ValidIdentifier_def validText_def text_eval identifier_rune_def ContainsControl_bytes

lemma t_claims_valid: "validateClaims t_claims = Inr ()"
proof -
  have "validLowerHex (replicate 64 CHR ''a'') 64"
    by (simp add: validLowerHex_def text_eval list_all_length lower_hex_rune_def runes_visible)
  then show ?thesis
    by (simp add: validateClaims_iff t_simps Version_def claimedLifetime_def MaximumLifetime_def Minute_def Second_def)
qed

lemma t_signer_ok: "NewSigner ''k1'' (replicate 64 0) = Inr t_signer"
  by (simp add: NewSigner_def t_signer_def t_simps)

lemma t_signed: "Sign t_crypto (Some t_signer) t_claims = Inr t_ticket"
proof -
  have "length (b64Encode (replicate 64 0)) \<le> 128"
    using length_sextets [of "map unat (replicate 64 0 :: bytes)"] by (simp add: b64Encode_def)
  moreover have "length (b64Encode [1]) \<le> 100" "length (b64Encode [2]) \<le> 100"
    by (simp_all add: b64Encode_def)
  ultimately show ?thesis using t_claims_valid
    by (simp add: Sign_def t_crypto_def t_signer_def t_ticket_def MaximumTicketBytes_def Let_def bindE_def)
qed

theorem signed_ticket_accepted_witness: "Verify t_crypto t_verifier t_now t_ticket = Inr t_claims"
proof (rule signed_ticket_accepted [OF t_signer_ok t_signed])
  show "codec_law t_crypto t_signer t_claims" by (simp add: codec_law_def t_crypto_def t_signer_def)
  show "key_pair t_crypto (replicate 64 0) (replicate 32 0)" by (simp add: key_pair_def t_crypto_def)
  show "map_of (vr_keys t_verifier) (sg_keyID t_signer) = Some (replicate 32 0)"
    by (simp add: t_verifier_def t_signer_def)
  show "keyInValidity t_verifier (sg_keyID t_signer) t_now" by (simp add: keyInValidity_def t_verifier_def)
  show "claimsAccepted t_verifier t_now t_claims"
    by (simp add: claimsAccepted_def t_verifier_def t_claims_def t_now_def Unix_def Second_def)
qed

lemma t_verified: "Verify t_crypto t_verifier t_now t_ticket = Inr t_claims"
proof -
  have "Split t_ticket CHR ''.'' = [b64Encode [1], b64Encode [2], b64Encode (replicate 64 0)]"
    unfolding t_ticket_def by (rule Split_dotted; rule b64_no_dot)
  moreover have "length t_ticket \<le> 8192"
    using length_sextets [of "map unat (replicate 64 0 :: bytes)"] by (simp add: t_ticket_def b64Encode_def)
  ultimately show ?thesis
    using t_claims_valid dotted_trimmed [of "[1]" "[2]" "replicate 64 0"]
    by (simp add: Verify_parts signed_by_def b64Encode_nonempty decodePart_def DecodeStrictJSON_def t_crypto_def
        t_verifier_def keyInValidity_def claimsAccepted_def t_now_def Unix_def Second_def MaximumTicketBytes_def)
      (simp add: t_simps t_ticket_def)
qed

theorem accepted_ticket_sound_witness:
  "Verify t_crypto t_verifier t_now t_ticket = Inr t_claims \<and> cl_Audience t_claims = vr_audience t_verifier"
  using accepted_ticket_sound [OF t_verified] t_verified by simp

theorem lifetime_check_overflows_witness:
  "validateClaims (t_claims \<lparr> cl_ExpiresAt := 1000 + 2 ^ 55 \<rparr>) = Inr ()"
  using lifetime_check_overflows [OF t_claims_valid] by (simp add: t_claims_def)

end
