(* ===== verification/TicketService.thy ===== *)
theory TicketService
  imports RelayRegistry RelayTicket
begin

text \<open>
  The RelayTicket service of the Control Plane, \<^verbatim>\<open>internal/controlplane/ticketapi/service/service.go\<close>: a
  ticket is issued for an active session by allocating a relay in the registry and signing the claims for that
  relay. The service's clock, the registry's clock and the UUID of the ticket are arguments. Logging is left
  out.
\<close>

definition OperationTunnel :: string where "OperationTunnel = ''tunnel''"

datatype issue_error =
    ErrSessionExpiresSoon
  | ErrNoReadyDataPlane reg_error
  | ErrSigning ticket_error
  | ConfigError string

record ServiceConfig =
  sc_Issuer :: string
  sc_TTL :: duration
  sc_Signer :: "Signer option"
  sc_Allocator :: bool
  sc_Topology :: "(string \<times> string) list"
  sc_TrafficEncryption :: "bool option"

record IssueInput =
  in_IdentityID :: string
  in_Groups :: "string list"
  in_DeviceID :: string
  in_SessionID :: string
  in_Generation :: "64 word"
  in_Namespace :: string
  in_NetworkSpecHash :: string
  in_SessionExpiresAt :: time

record Service =
  sv_issuer :: string
  sv_ttl :: duration
  sv_signer :: "Signer option"
  sv_topology :: "(string \<times> string) list"
  sv_trafficEncryption :: bool

record Ticket =
  tk_TokenType :: string
  tk_Value :: string
  tk_ExpiresAt :: time
  tk_DeviceID :: string
  tk_RelayID :: string
  tk_Endpoint :: string
  tk_TrafficEncryption :: "bool option"
  tk_NoisePublicKey :: string

text \<open>\<open>sc_Allocator\<close> tells whether an allocator is configured.\<close>

definition NewService :: "ServiceConfig \<Rightarrow> issue_error + Service" where
  "NewService config =
     (let issuer = TrimSpace (sc_Issuer config);
          ttl = (if sc_TTL config = 0 then DefaultLifetime else sc_TTL config) in
      if sc_Signer config = None \<or> \<not> sc_Allocator config \<or> issuer = '''' \<or> length issuer > 512
      then Inl (ConfigError ''relay ticket service configuration is invalid'')
      else if ttl < 15 * Second \<or> ttl > MaximumLifetime
      then Inl (ConfigError ''relay ticket TTL must be between 15 seconds and 1 minute'')
      else Inr \<lparr> sv_issuer = issuer, sv_ttl = ttl, sv_signer = sc_Signer config,
                 sv_topology = sc_Topology config,
                 sv_trafficEncryption = (case sc_TrafficEncryption config of None \<Rightarrow> True | Some b \<Rightarrow> b) \<rparr>)"

definition issueRequest :: "Service \<Rightarrow> IssueInput \<Rightarrow> AllocationRequest" where
  "issueRequest service input = NewAllocationRequest
     \<lparr> al_SessionID := in_SessionID input, al_Generation := in_Generation input,
       al_NetworkSpecHash := in_NetworkSpecHash input, al_Topology := sv_topology service,
       al_TrafficEncryption := Some (sv_trafficEncryption service) \<rparr>"

definition ticketExpiry :: "Service \<Rightarrow> time \<Rightarrow> IssueInput \<Rightarrow> time" where
  "ticketExpiry service now input =
     (if in_SessionExpiresAt input < now + sv_ttl service
      then Truncate (in_SessionExpiresAt input) Second else now + sv_ttl service)"

definition ticketClaims ::
  "Service \<Rightarrow> IssueInput \<Rightarrow> AllocationResponse \<Rightarrow> time \<Rightarrow> time \<Rightarrow> string \<Rightarrow> Claims" where
  "ticketClaims service input assignment now expiresAt ticketID =
     \<lparr> cl_Version = Version, cl_Issuer = sv_issuer service, cl_Audience = ar_RelayID assignment,
       cl_IdentityID = in_IdentityID input, cl_Groups = in_Groups input, cl_DeviceID = in_DeviceID input,
       cl_SessionID = in_SessionID input, cl_SessionGeneration = in_Generation input,
       cl_Namespace = in_Namespace input, cl_Operations = [OperationTunnel],
       cl_NetworkSpecHash = in_NetworkSpecHash input, cl_TicketID = ticketID,
       cl_IssuedAt = of_int (Unix now), cl_NotBefore = of_int (Unix now), cl_ExpiresAt = of_int (Unix expiresAt),
       cl_TrafficEncryption = (if sv_trafficEncryption service then Some True else None),
       cl_NoisePublicKey = (if sv_trafficEncryption service then ar_NoisePublicKey assignment else '''') \<rparr>"

definition Issue ::
  "env \<Rightarrow> crypto \<Rightarrow> Service \<Rightarrow> Registry \<Rightarrow> time \<Rightarrow> time \<Rightarrow> string \<Rightarrow> IssueInput
     \<Rightarrow> (issue_error + Ticket) \<times> Registry" where
  "Issue env crypto service registry clock allocClock ticketID input =
     (let now = Truncate clock Second; expiresAt = ticketExpiry service now input in
      if \<not> expiresAt > now + 5 * Second then (Inl ErrSessionExpiresSoon, registry)
      else case Allocate env registry allocClock (issueRequest service input) of
        (Inl e, registry') \<Rightarrow> (Inl (ErrNoReadyDataPlane e), registry')
      | (Inr assignment, registry') \<Rightarrow>
          if ar_TrafficEncryption assignment \<noteq> sv_trafficEncryption service \<or>
             sv_trafficEncryption service \<and> ar_NoisePublicKey assignment = '''' \<or>
             \<not> sv_trafficEncryption service \<and> ar_NoisePublicKey assignment \<noteq> ''''
          then (Inl (ErrNoReadyDataPlane
                  (Failed (Error ''data plane traffic encryption capability does not match policy''))), registry')
          else
            let claims = ticketClaims service input assignment now expiresAt ticketID in
            (case Sign crypto (sv_signer service) claims of
               Inl e \<Rightarrow> (Inl (ErrSigning e), registry')
             | Inr ticket \<Rightarrow>
                 (Inr \<lparr> tk_TokenType = TicketType, tk_Value = ticket, tk_ExpiresAt = expiresAt,
                       tk_DeviceID = in_DeviceID input, tk_RelayID = ar_RelayID assignment,
                       tk_Endpoint = ar_Endpoint assignment,
                       tk_TrafficEncryption = cl_TrafficEncryption claims,
                       tk_NoisePublicKey = cl_NoisePublicKey claims \<rparr>, registry')))"

section \<open>Issued tickets\<close>

lemma NewService_facts:
  assumes "NewService config = Inr service"
  shows "15 * Second \<le> sv_ttl service" "sv_ttl service \<le> Minute" "sv_issuer service = TrimSpace (sc_Issuer config)"
    "sv_signer service = sc_Signer config"
  using assms by (auto simp: NewService_def Let_def MaximumLifetime_def split: if_splits)

lemma sint_of_int:
  assumes "- (2 ^ 63) \<le> x" "x < 2 ^ 63"
  shows "sint (of_int x :: 64 word) = x"
proof -
  have "of_int x = (word_of_int x :: 64 word)" by simp
  then show ?thesis using assms by (simp only: int_word_sint) simp
qed

lemma ticketExpiry_bounds:
  assumes "now = Truncate clock Second" and "now + 5 * Second < ticketExpiry service now input"
    and "15 * Second \<le> sv_ttl service" "sv_ttl service \<le> Minute"
  shows "Unix now + 5 \<le> Unix (ticketExpiry service now input)"
    and "Unix (ticketExpiry service now input) \<le> Unix now + 60"
    and "ticketExpiry service now input \<le> now + sv_ttl service"
proof -
  have le: "ticketExpiry service now input \<le> now + sv_ttl service"
    using Truncate_le [of Second "in_SessionExpiresAt input"] by (auto simp: ticketExpiry_def Second_def)
  then show "ticketExpiry service now input \<le> now + sv_ttl service" .
  have u: "Unix (now + k * Second) = Unix now + k" for k by (simp add: Unix_def Second_def)
  show "Unix now + 5 \<le> Unix (ticketExpiry service now input)"
    using Unix_mono [of "now + 5 * Second" "ticketExpiry service now input"] assms(2) u [of 5] by simp
  show "Unix (ticketExpiry service now input) \<le> Unix now + 60"
    using Unix_mono [of "ticketExpiry service now input" "now + 60 * Second"] le assms(4) u [of 60]
    by (simp add: Minute_def)
qed

text \<open>C8. A ticket that the service issues opens the assigned relay: the relay that the registry assigned,
  which checks for its own ID, the service's issuer and the tunnel operation with the signer's public key, accepts
  the ticket at every second from its issue until before its expiry, and reads the session, its generation and its network
  specification from it. The ticket expires with the session at the latest.\<close>

theorem issued_ticket_admits:
  assumes "NewService config = Inr service" and "sc_Signer config = Some signer"
    and "NewSigner keyID key = Inr signer" and "key_pair crypto key publicKey"
    and "Issue env crypto service registry clock allocClock ticketID input = (Inr ticket, registry')"
    and "Allocate env registry allocClock (issueRequest service input) = (Inr assignment, registry')"
    and "claims = ticketClaims service input assignment (Truncate clock Second) (tk_ExpiresAt ticket) ticketID"
    and "codec_law crypto signer claims"
    and "map_of (vr_keys verifier) (sg_keyID signer) = Some publicKey"
    and "keyInValidity verifier (sg_keyID signer) t"
    and "vr_audience verifier = tk_RelayID ticket" and "vr_issuer verifier = sv_issuer service"
    and "vr_requiredOperation verifier = OperationTunnel" and "0 \<le> vr_clockSkew verifier"
    and "0 < Unix clock" and "Unix clock < 2 ^ 62" and "Truncate clock Second \<le> t"
    and "Unix t < Unix (tk_ExpiresAt ticket)"
  shows "Verify crypto verifier t (tk_Value ticket) = Inr claims \<and> cl_SessionID claims = in_SessionID input \<and>
    cl_SessionGeneration claims = in_Generation input \<and> cl_NetworkSpecHash claims = in_NetworkSpecHash input \<and>
    tk_ExpiresAt ticket \<le> in_SessionExpiresAt input"
proof -
  let ?now = "Truncate clock Second" and ?exp = "ticketExpiry service (Truncate clock Second) input"
  note facts = NewService_facts [OF assms(1)]
  have late: "?now + 5 * Second < ?exp" and exp: "tk_ExpiresAt ticket = ?exp"
    and relay: "tk_RelayID ticket = ar_RelayID assignment"
    and signed: "Sign crypto (Some signer) claims = Inr (tk_Value ticket)"
    using assms(2,5,6,7) facts(4)
    by (auto simp: Issue_def Let_def not_less split: if_splits sum.splits)
  note bounds = ticketExpiry_bounds [OF refl late facts(1,2)]
  have session: "?exp \<le> in_SessionExpiresAt input"
    using Truncate_le [of Second "in_SessionExpiresAt input"] by (auto simp: ticketExpiry_def Second_def)

  have times: "sint (cl_IssuedAt claims) = Unix clock" "sint (cl_NotBefore claims) = Unix clock"
      "sint (cl_ExpiresAt claims) = Unix ?exp"
    using assms(7,15,16) bounds exp by (simp_all add: ticketClaims_def sint_of_int)
  have skew: "0 \<le> vr_clockSkew verifier div Second" using assms(14) by (simp add: Second_def)
  have "Unix clock \<le> Unix t" using Unix_mono [OF assms(17)] by simp
  then have "claimsAccepted verifier t claims"
    using assms(11-13,18) skew times exp relay
    by (simp add: claimsAccepted_def Let_def) (simp add: assms(7) ticketClaims_def)
  then have "Verify crypto verifier t (tk_Value ticket) = Inr claims"
    by (rule signed_ticket_accepted [OF assms(3) signed assms(8,4,9,10)])
  then show ?thesis using session exp by (simp add: assms(7) ticketClaims_def)
qed

section \<open>A service\<close>

text \<open>A concrete service on the example registry, at which the theorem is applied.\<close>

definition s_config :: ServiceConfig where
  "s_config = \<lparr> sc_Issuer = ''https://cp'', sc_TTL = 0, sc_Signer = Some t_signer, sc_Allocator = True,
     sc_Topology = [], sc_TrafficEncryption = Some False \<rparr>"

definition s_service :: Service where
  "s_service = \<lparr> sv_issuer = ''https://cp'', sv_ttl = Minute, sv_signer = Some t_signer, sv_topology = [],
     sv_trafficEncryption = False \<rparr>"

definition s_input :: IssueInput where
  "s_input = \<lparr> in_IdentityID = ''alice'', in_Groups = [''dev''], in_DeviceID = ''laptop'', in_SessionID = ''s'',
     in_Generation = 1, in_Namespace = ''team'', in_NetworkSpecHash = hexEncode (replicate 32 0),
     in_SessionExpiresAt = (unixToInternal + 2000) * Second \<rparr>"

definition s_clock :: time where "s_clock = (unixToInternal + 1000) * Second"

definition s_claims :: Claims where
  "s_claims = ticketClaims s_service s_input w_assignment s_clock (s_clock + Minute) ''t1''"

definition s_crypto :: crypto where
  "s_crypto = t_crypto \<lparr> cr_decodeClaims := (\<lambda>_. Some (s_claims, True)) \<rparr>"

definition s_ticket :: Ticket where
  "s_ticket = \<lparr> tk_TokenType = TicketType, tk_Value = t_ticket, tk_ExpiresAt = s_clock + Minute,
     tk_DeviceID = ''laptop'', tk_RelayID = w_id, tk_Endpoint = ''wss://cp/relay'', tk_TrafficEncryption = None,
     tk_NoisePublicKey = '''' \<rparr>"

lemma s_service_ok: "NewService s_config = Inr s_service"
  by (simp add: NewService_def s_config_def s_service_def text_eval DefaultLifetime_def MaximumLifetime_def
      Minute_def Second_def)

lemma s_request: "issueRequest s_service s_input = w_request"
  by (simp add: issueRequest_def s_service_def s_input_def w_request_def NewAllocationRequest_def)

lemma hexByte_zero: "hexByte 0 = ''00''"
  by code_simp

lemma hexEncode_zeros: "hexEncode (replicate n 0) = replicate (2 * n) CHR ''0''"
  by (induction n) (simp_all add: hexEncode_def hexByte_zero)

lemma s_truncate: "Truncate s_clock Second = s_clock"
  by (simp add: Truncate_def s_clock_def Second_def)

lemma s_claims_valid: "validateClaims s_claims = Inr ()"
proof -
  have v: "list_all visible_ascii w_id"
    by (simp add: w_id_def hexEncode_zeros list_all_iff visible_ascii_def)
  have "ValidIdentifier w_id 128"
    by (simp add: ValidIdentifier_def validText_def ContainsControl_bytes TrimSpace_visible [OF v] runes_visible [OF v])
      (simp add: w_id_def hexEncode_zeros list_all_iff list_ex_iff identifier_rune_def)
  moreover have "validLowerHex (hexEncode (replicate 32 0)) 64"
    by (simp add: hexEncode_zeros validLowerHex_def text_eval list_all_length lower_hex_rune_def runes_visible)
  ultimately show ?thesis
    by (simp add: validateClaims_iff s_claims_def ticketClaims_def s_service_def s_input_def claimedLifetime_def
        s_clock_def Unix_def Second_def Minute_def unixToInternal_def MaximumLifetime_def OperationTunnel_def
        validText_def ValidIdentifier_def text_eval identifier_rune_def ContainsControl_bytes)
qed

lemma s_signed: "Sign s_crypto (Some t_signer) s_claims = Inr t_ticket"
proof -
  have "length t_ticket \<le> 8192"
    using length_sextets [of "map unat (replicate 64 0 :: bytes)"] by (simp add: t_ticket_def b64Encode_def)
  then show ?thesis using s_claims_valid
    by (simp add: Sign_def s_crypto_def t_crypto_def t_signer_def t_ticket_def MaximumTicketBytes_def Let_def bindE_def)
qed

lemma s_issued:
  "Issue w_env s_crypto s_service (w_ready 2) s_clock Minute ''t1'' s_input = (Inr s_ticket, w_assigned 2)"
proof -
  have exp: "ticketExpiry s_service s_clock s_input = s_clock + Minute"
    by (simp add: ticketExpiry_def s_service_def s_input_def s_clock_def Minute_def Second_def)
  have fields: "ar_TrafficEncryption w_assignment = False" "ar_NoisePublicKey w_assignment = ''''"
      "ar_Endpoint w_assignment = ''wss://cp/relay''"
    by (simp_all add: w_assignment_def newAssignment_def w_relay_def)
  have "sv_signer s_service = Some t_signer" "\<not> sv_trafficEncryption s_service" "in_DeviceID s_input = ''laptop''"
      "\<not> s_clock + Minute \<le> s_clock + 5 * Second" "cl_TrafficEncryption s_claims = None" "cl_NoisePublicKey s_claims = ''''"
    by (simp_all add: s_service_def s_input_def Minute_def Second_def s_claims_def ticketClaims_def)
  then show ?thesis
    by (simp add: Issue_def Let_def s_truncate exp s_request w_allocate fields s_signed s_claims_def [symmetric] s_ticket_def)
qed

theorem issued_ticket_admits_witness:
  "Verify s_crypto (t_verifier \<lparr> vr_audience := w_id \<rparr>) s_clock (tk_Value s_ticket) = Inr s_claims"
proof -
  have alloc: "Allocate w_env (w_ready 2) Minute (issueRequest s_service s_input) = (Inr w_assignment, w_assigned 2)"
    by (simp add: s_request w_allocate)
  have claims: "s_claims = ticketClaims s_service s_input w_assignment (Truncate s_clock Second)
      (tk_ExpiresAt s_ticket) ''t1''"
    by (simp add: s_claims_def s_truncate s_ticket_def)
  have signer: "sc_Signer s_config = Some t_signer" by (simp add: s_config_def)
  have pair: "key_pair s_crypto (replicate 64 0) (replicate 32 0)" by (simp add: key_pair_def s_crypto_def t_crypto_def)
  have law: "codec_law s_crypto t_signer s_claims"
    by (simp add: codec_law_def s_crypto_def t_crypto_def t_signer_def)
  show ?thesis
    by (rule issued_ticket_admits [THEN conjunct1, OF s_service_ok signer t_signer_ok pair s_issued alloc claims law])
      (simp_all add: t_verifier_def t_signer_def s_ticket_def keyInValidity_def s_service_def OperationTunnel_def
        s_clock_def Unix_def Second_def Minute_def unixToInternal_def Truncate_def)
qed

end
