(* ===== verification/SessionRegistry.thy ===== *)
theory SessionRegistry
  imports GoText "HOL-Library.AList"
begin

text \<open>
  The runtime registry of sessions, tasks and streams,
  \<^verbatim>\<open>internal/controlplane/sessionregistry/registry.go\<close> and \<^verbatim>\<open>registry_lifecycle.go\<close>: streams attach to a task of
  a session and are released when they are finished; disconnecting a session or shutting the registry down
  cancels the streams in the reverse of their order of creation and waits for the \<^verbatim>\<open>done\<close> channels.

  Every operation runs under the registry's mutex up to the point where it waits, so an operation is one step.
  The calls of cancel functions and the closing of channels are events of a trace, in their order. Nodes are
  identified by their sequence number, which stands for the pointer; the 64-bit counter is a natural number, a
  registry does not live for $2^{64}$ attachments. \<open>sr_handles\<close> lists the release functions that \<^verbatim>\<open>Attach\<close>
  returned and \<open>sr_released\<close> holds their \<^verbatim>\<open>sync.Once\<close> flags; \<open>sr_rootErr\<close> tells whether the root context is
  cancelled. The cancellation of a stream by its caller's own context does not touch the registry.
\<close>

section \<open>State\<close>

datatype cause = SessionDisconnected | CauseClosed | Canceled

datatype event =
    CancelStream nat cause
  | CancelTask nat cause
  | CancelSession nat cause
  | CancelRoot cause
  | CloseStream nat
  | CloseSession nat

record taskNode =
  tn_sequence :: nat
  tn_streams :: "nat list"

record sessionNode =
  sn_id :: string
  sn_sequence :: nat
  sn_draining :: bool
  sn_tasks :: "(string \<times> taskNode) list"

record SessionReg =
  sr_rootErr :: bool
  sr_closed :: bool
  sr_sequence :: nat
  sr_sessions :: "(string \<times> sessionNode) list"
  sr_handles :: "(string \<times> string \<times> nat) list"
  sr_released :: "nat list"
  sr_trace :: "event list"

type_synonym handle = "string \<times> string \<times> nat"

definition NewSessionReg :: "bool \<Rightarrow> SessionReg" where
  "NewSessionReg parentCancelled =
     \<lparr> sr_rootErr = parentCancelled, sr_closed = False, sr_sequence = 0, sr_sessions = [],
       sr_handles = [], sr_released = [], sr_trace = [] \<rparr>"

definition validID :: "string \<Rightarrow> bool" where
  "validID s \<longleftrightarrow> s \<noteq> '''' \<and> length s \<le> 256 \<and> TrimSpace s = s"

definition emit :: "SessionReg \<Rightarrow> event list \<Rightarrow> SessionReg" where
  "emit registry es = registry \<lparr> sr_trace := sr_trace registry @ es \<rparr>"

definition putSession :: "SessionReg \<Rightarrow> sessionNode \<Rightarrow> SessionReg" where
  "putSession registry session =
     registry \<lparr> sr_sessions := AList.update (sn_id session) session (sr_sessions registry) \<rparr>"

section \<open>Operations\<close>

definition ensureSessionLocked :: "SessionReg \<Rightarrow> string \<Rightarrow> (string + sessionNode) \<times> SessionReg" where
  "ensureSessionLocked registry sessionID =
     (case map_of (sr_sessions registry) sessionID of
        Some session \<Rightarrow>
          if sn_draining session then (Inl ''session runtime is draining'', registry) else (Inr session, registry)
      | None \<Rightarrow>
          let sequence = sr_sequence registry + 1;
              session = \<lparr> sn_id = sessionID, sn_sequence = sequence, sn_draining = False, sn_tasks = [] \<rparr>
          in (Inr session, putSession (registry \<lparr> sr_sequence := sequence \<rparr>) session))"

definition Ensure :: "SessionReg \<Rightarrow> string \<Rightarrow> (string + unit) \<times> SessionReg" where
  "Ensure registry sessionID =
     (if \<not> validID sessionID then (Inl ''session runtime ID is invalid'', registry)
      else if sr_closed registry \<or> sr_rootErr registry
      then (Inl ''session runtime registry is closed'', registry)
      else case ensureSessionLocked registry sessionID of
             (Inl e, registry') \<Rightarrow> (Inl e, registry')
           | (Inr _, registry') \<Rightarrow> (Inr (), registry'))"

definition Attach :: "SessionReg \<Rightarrow> string \<Rightarrow> string \<Rightarrow> (string + handle) \<times> SessionReg" where
  "Attach registry sessionID taskID =
     (if \<not> validID sessionID \<or> \<not> validID taskID
      then (Inl ''session and Task runtime identities are required'', registry)
      else if sr_closed registry \<or> sr_rootErr registry
      then (Inl ''session runtime registry is closed'', registry)
      else case ensureSessionLocked registry sessionID of
        (Inl e, registry') \<Rightarrow> (Inl e, registry')
      | (Inr session, registry') \<Rightarrow>
          if sn_draining session then (Inl ''session runtime is draining'', registry')
          else
            let (task, sequence) =
                  (case map_of (sn_tasks session) taskID of
                     Some task \<Rightarrow> (task, sr_sequence registry')
                   | None \<Rightarrow> (\<lparr> tn_sequence = sr_sequence registry' + 1, tn_streams = [] \<rparr>,
                              sr_sequence registry' + 1));
                streamID = sequence + 1;
                task' = task \<lparr> tn_streams := streamID # tn_streams task \<rparr>;
                session' = session \<lparr> sn_tasks := AList.update taskID task' (sn_tasks session) \<rparr>
            in (Inr (sessionID, taskID, streamID),
                putSession (registry' \<lparr> sr_sequence := streamID,
                  sr_handles := (sessionID, taskID, streamID) # sr_handles registry' \<rparr>) session'))"

definition finishSessionLocked :: "SessionReg \<Rightarrow> sessionNode \<Rightarrow> SessionReg" where
  "finishSessionLocked registry session =
     (if \<not> sn_draining session \<or> length (sn_tasks session) \<noteq> 0 then registry
      else case map_of (sr_sessions registry) (sn_id session) of
        None \<Rightarrow> registry
      | Some s \<Rightarrow>
          if sn_sequence s = sn_sequence session
          then emit (registry \<lparr> sr_sessions := AList.delete (sn_id session) (sr_sessions registry) \<rparr>)
                 [CloseSession (sn_sequence session)]
          else registry)"

definition releaseLocked :: "SessionReg \<Rightarrow> handle \<Rightarrow> SessionReg" where
  "releaseLocked registry h =
     (case h of (sessionID, taskID, streamID) \<Rightarrow>
      case map_of (sr_sessions registry) sessionID of
        None \<Rightarrow> emit registry [CloseStream streamID]
      | Some session \<Rightarrow>
          (case map_of (sn_tasks session) taskID of
             None \<Rightarrow> finishSessionLocked registry session
           | Some task \<Rightarrow>
               if streamID \<in> set (tn_streams task) then
                 let task' = task \<lparr> tn_streams := removeAll streamID (tn_streams task) \<rparr>;
                     registry1 = emit registry [CloseStream streamID] in
                 if length (tn_streams task') = 0 then
                   let session' = session \<lparr> sn_tasks := AList.delete taskID (sn_tasks session) \<rparr> in
                   finishSessionLocked
                     (putSession (emit registry1 [CancelTask (tn_sequence task') Canceled]) session') session'
                 else
                   let session' = session \<lparr> sn_tasks := AList.update taskID task' (sn_tasks session) \<rparr> in
                   finishSessionLocked (putSession registry1 session') session'
               else finishSessionLocked registry session))"

text \<open>The release function that \<^verbatim>\<open>Attach\<close> returns: it acts once.\<close>

definition runRelease :: "SessionReg \<Rightarrow> handle \<Rightarrow> SessionReg" where
  "runRelease registry h =
     (case h of (_, _, streamID) \<Rightarrow>
      if streamID \<in> set (sr_released registry) then registry
      else releaseLocked
             (emit (registry \<lparr> sr_released := streamID # sr_released registry \<rparr>) [CancelStream streamID Canceled])
             h)"

definition compareSequenceDescending :: "nat \<Rightarrow> nat \<Rightarrow> int" where
  "compareSequenceDescending left right = (if left > right then -1 else if left < right then 1 else 0)"

definition drainEvents :: "sessionNode \<Rightarrow> cause \<Rightarrow> event list" where
  "drainEvents session cause =
     (let tasks = map snd (sn_tasks session);
          streams = concat (map tn_streams tasks) in
      map (\<lambda>n. CancelStream n cause) (SortFunc compareSequenceDescending streams) @
      map (\<lambda>task. CancelTask (tn_sequence task) cause)
        (SortFunc (\<lambda>left right. compareSequenceDescending (tn_sequence left) (tn_sequence right)) tasks) @
      [CancelSession (sn_sequence session) cause])"

definition beginDrainLocked :: "SessionReg \<Rightarrow> sessionNode \<Rightarrow> cause \<Rightarrow> SessionReg" where
  "beginDrainLocked registry session cause =
     (if sn_draining session then registry
      else
        let session' = session \<lparr> sn_draining := True \<rparr> in
        finishSessionLocked (emit (putSession registry session') (drainEvents session cause)) session')"

text \<open>
  \<^verbatim>\<open>Disconnect\<close> up to the wait: the error, or the session whose \<^verbatim>\<open>done\<close> channel it waits for, if any.
\<close>

definition Disconnect :: "SessionReg \<Rightarrow> string \<Rightarrow> (string + nat option) \<times> SessionReg" where
  "Disconnect registry sessionID =
     (if \<not> validID sessionID
      then (Inl ''session runtime identity and cleanup context are required'', registry)
      else case map_of (sr_sessions registry) sessionID of
             None \<Rightarrow> (Inr None, registry)
           | Some session \<Rightarrow>
               (Inr (Some (sn_sequence session)), beginDrainLocked registry session SessionDisconnected))"

text \<open>\<^verbatim>\<open>Shutdown\<close> up to the waits: the sessions that it waits for, in order.\<close>

fun drainAll :: "SessionReg \<Rightarrow> sessionNode list \<Rightarrow> SessionReg" where
  "drainAll registry [] = registry"
| "drainAll registry (session # sessions) =
     drainAll (beginDrainLocked registry session CauseClosed) sessions"

definition Shutdown :: "SessionReg \<Rightarrow> nat list \<times> SessionReg" where
  "Shutdown registry =
     (let registry1 = registry \<lparr> sr_closed := True \<rparr>;
          sessions = map snd (sr_sessions registry1);
          registry2 = drainAll registry1 sessions
      in (SortFunc compareSequenceDescending (map sn_sequence sessions),
          emit (registry2 \<lparr> sr_rootErr := True \<rparr>) [CancelRoot CauseClosed]))"

section \<open>Runs\<close>

datatype sr_op =
    DoEnsure string
  | DoAttach string string
  | DoRelease handle
  | DoDisconnect string
  | DoShutdown
  | DoParentCancelled

text \<open>A release function exists only after the \<^verbatim>\<open>Attach\<close> that returned it.\<close>

fun sr_step :: "SessionReg \<Rightarrow> sr_op \<Rightarrow> SessionReg" where
  "sr_step r (DoEnsure s) = snd (Ensure r s)"
| "sr_step r (DoAttach s t) = snd (Attach r s t)"
| "sr_step r (DoRelease h) = (if h \<in> set (sr_handles r) then runRelease r h else r)"
| "sr_step r (DoDisconnect s) = snd (Disconnect r s)"
| "sr_step r DoShutdown = snd (Shutdown r)"
| "sr_step r DoParentCancelled = r \<lparr> sr_rootErr := True \<rparr>"

section \<open>The invariant\<close>

declare map_of_eq_Some_iff [simp del]

definition streamsOf :: "sessionNode \<Rightarrow> (string \<times> nat) set" where
  "streamsOf s = {(tid, n). \<exists>t. map_of (sn_tasks s) tid = Some t \<and> n \<in> set (tn_streams t)}"

definition streamsIn :: "SessionReg \<Rightarrow> handle set" where
  "streamsIn r = {(sid, x). \<exists>s. map_of (sr_sessions r) sid = Some s \<and> x \<in> streamsOf s}"

definition unreleased :: "SessionReg \<Rightarrow> handle set" where
  "unreleased r = {(sid, tid, n). (sid, tid, n) \<in> set (sr_handles r) \<and> n \<notin> set (sr_released r)}"

fun is_close :: "event \<Rightarrow> bool" where
  "is_close (CloseStream _) = True"
| "is_close (CloseSession _) = True"
| "is_close _ = False"

text \<open>Every task of a session has a stream, and a draining session has a task.\<close>

definition wf_sn :: "sessionNode \<Rightarrow> bool" where
  "wf_sn s \<longleftrightarrow> (\<forall>tid t. map_of (sn_tasks s) tid = Some t \<longrightarrow> tn_streams t \<noteq> []) \<and>
     (sn_draining s \<longrightarrow> sn_tasks s \<noteq> [])"

definition sessions_ok :: "SessionReg \<Rightarrow> bool" where
  "sessions_ok r \<longleftrightarrow> distinct (map fst (sr_sessions r)) \<and>
     (\<forall>sid s. map_of (sr_sessions r) sid = Some s \<longrightarrow>
        sn_id s = sid \<and> sn_sequence s \<le> sr_sequence r \<and> wf_sn s) \<and>
     (\<forall>sid sid' s s'. map_of (sr_sessions r) sid = Some s \<and> map_of (sr_sessions r) sid' = Some s' \<and>
        sn_sequence s = sn_sequence s' \<longrightarrow> sid = sid')"

definition handles_ok :: "SessionReg \<Rightarrow> bool" where
  "handles_ok r \<longleftrightarrow>
     (\<forall>sid tid n. (sid, tid, n) \<in> set (sr_handles r) \<longrightarrow> n \<le> sr_sequence r \<and>
        (\<forall>sid' tid'. (sid', tid', n) \<in> set (sr_handles r) \<longrightarrow> sid' = sid \<and> tid' = tid)) \<and>
     (\<forall>n. n \<in> set (sr_released r) \<longrightarrow> n \<le> sr_sequence r)"

definition trace_ok :: "SessionReg \<Rightarrow> bool" where
  "trace_ok r \<longleftrightarrow> distinct (filter is_close (sr_trace r)) \<and>
     (\<forall>n. CloseSession n \<in> set (sr_trace r) \<longrightarrow> n \<le> sr_sequence r \<and>
        (\<forall>sid s. map_of (sr_sessions r) sid = Some s \<longrightarrow> sn_sequence s \<noteq> n)) \<and>
     (\<forall>n. CloseStream n \<in> set (sr_trace r) \<longrightarrow> n \<in> set (sr_released r))"

definition sr_core :: "SessionReg \<Rightarrow> bool" where
  "sr_core r \<longleftrightarrow> sessions_ok r \<and> handles_ok r \<and> trace_ok r \<and> streamsIn r = unreleased r"

text \<open>A closed registry has draining sessions only.\<close>

definition sr_inv :: "SessionReg \<Rightarrow> bool" where
  "sr_inv r \<longleftrightarrow> sr_core r \<and>
     (sr_closed r \<longrightarrow> (\<forall>sid s. map_of (sr_sessions r) sid = Some s \<longrightarrow> sn_draining s))"

lemma sessions_okD:
  assumes "sessions_ok r"
  shows "map_of (sr_sessions r) sid = Some s \<Longrightarrow> sn_id s = sid"
    and "map_of (sr_sessions r) sid = Some s \<Longrightarrow> sn_sequence s \<le> sr_sequence r"
    and "map_of (sr_sessions r) sid = Some s \<Longrightarrow> wf_sn s"
    and "map_of (sr_sessions r) sid = Some s \<Longrightarrow> map_of (sr_sessions r) sid' = Some s' \<Longrightarrow>
      sn_sequence s = sn_sequence s' \<Longrightarrow> sid = sid'"
    and "distinct (map fst (sr_sessions r))"
  using assms unfolding sessions_ok_def by blast+

lemma handles_okD:
  assumes "handles_ok r"
  shows "(sid, tid, n) \<in> set (sr_handles r) \<Longrightarrow> n \<le> sr_sequence r"
    and "(sid, tid, n) \<in> set (sr_handles r) \<Longrightarrow> (sid', tid', n) \<in> set (sr_handles r) \<Longrightarrow> sid' = sid \<and> tid' = tid"
    and "n \<in> set (sr_released r) \<Longrightarrow> n \<le> sr_sequence r"
  using assms unfolding handles_ok_def by blast+

text \<open>Storing a session that has changed, or removing it when it has drained.\<close>

definition settle :: "SessionReg \<Rightarrow> sessionNode \<Rightarrow> SessionReg" where
  "settle r s =
     (if sn_draining s \<and> sn_tasks s = []
      then emit (r \<lparr> sr_sessions := AList.delete (sn_id s) (sr_sessions r) \<rparr>) [CloseSession (sn_sequence s)]
      else putSession r s)"

lemma finish_put: "finishSessionLocked (putSession r s) s = settle r s"
  by (auto simp: finishSessionLocked_def putSession_def settle_def emit_def AList.update_conv'
      AList.delete_update_same)

lemma emit_put: "emit (putSession r s) es = putSession (emit r es) s"
  by (simp add: emit_def putSession_def)

lemma beginDrain_settle:
  "\<not> sn_draining s \<Longrightarrow> beginDrainLocked r s c =
     settle (emit r (drainEvents s c)) (s \<lparr> sn_draining := True \<rparr>)"
  by (simp add: beginDrainLocked_def emit_put finish_put)

lemma emit_fields [simp]:
  "sr_sessions (emit r es) = sr_sessions r" "sr_sequence (emit r es) = sr_sequence r"
  "sr_handles (emit r es) = sr_handles r" "sr_released (emit r es) = sr_released r"
  "sr_closed (emit r es) = sr_closed r" "sr_rootErr (emit r es) = sr_rootErr r"
  "sr_trace (emit r es) = sr_trace r @ es"
  by (simp_all add: emit_def)

lemma settle_fields [simp]:
  "sr_sequence (settle r s) = sr_sequence r" "sr_handles (settle r s) = sr_handles r"
  "sr_released (settle r s) = sr_released r" "sr_closed (settle r s) = sr_closed r"
  "sr_rootErr (settle r s) = sr_rootErr r"
  "map_of (sr_sessions (settle r s)) = (map_of (sr_sessions r))(sn_id s :=
     (if sn_draining s \<and> sn_tasks s = [] then None else Some s))"
  "sr_trace (settle r s) =
     sr_trace r @ (if sn_draining s \<and> sn_tasks s = [] then [CloseSession (sn_sequence s)] else [])"
  by (simp_all add: settle_def putSession_def AList.update_conv' AList.delete_conv')

lemma settle_distinct: "distinct (map fst (sr_sessions r)) \<Longrightarrow> distinct (map fst (sr_sessions (settle r s)))"
  by (simp add: settle_def putSession_def AList.distinct_update AList.distinct_delete)

lemma streamsOf_empty: "wf_sn s \<Longrightarrow> streamsOf s = {} \<longleftrightarrow> sn_tasks s = []"
proof
  assume wf: "wf_sn s" and e: "streamsOf s = {}"
  show "sn_tasks s = []"
  proof (rule ccontr)
    assume "sn_tasks s \<noteq> []"
    then obtain tid t ts where "sn_tasks s = (tid, t) # ts" by (metis list.exhaust surj_pair)
    then have m: "map_of (sn_tasks s) tid = Some t" by simp
    then have "tn_streams t \<noteq> []" using wf by (simp add: wf_sn_def)
    then obtain n where "n \<in> set (tn_streams t)" by (meson last_in_set)
    then show False using e m by (auto simp: streamsOf_def)
  qed
qed (simp add: streamsOf_def)

lemma streamsIn_update:
  assumes "map_of (sr_sessions r') = (map_of (sr_sessions r))(sid := v)"
  shows "streamsIn r' = {(i, x). (i, x) \<in> streamsIn r \<and> i \<noteq> sid} \<union>
    (case v of None \<Rightarrow> {} | Some s \<Rightarrow> {sid} \<times> streamsOf s)"
  unfolding streamsIn_def assms by (auto split: option.splits if_splits)

lemma streamsIn_settle:
  "streamsIn (settle r s) = {(i, x). (i, x) \<in> streamsIn r \<and> i \<noteq> sn_id s} \<union> {sn_id s} \<times> streamsOf s"
proof -
  have "sn_tasks s = [] \<Longrightarrow> streamsOf s = {}" by (simp add: streamsOf_def)
  then show ?thesis
    using streamsIn_update [of "settle r s" r "sn_id s"] by (auto split: if_splits)
qed

text \<open>Changing a stored session keeps the invariant of the sessions and of the trace.\<close>

lemma settle_sessions_ok:
  assumes "sessions_ok r" and "map_of (sr_sessions r) (sn_id s) = Some old"
    and "sn_sequence s = sn_sequence old" and "sn_draining old \<longrightarrow> sn_draining s"
    and "\<And>tid t. map_of (sn_tasks s) tid = Some t \<Longrightarrow> tn_streams t \<noteq> []"
  shows "sessions_ok (settle r s)"
proof -
  have 1: "sn_id x = sid \<and> sn_sequence x \<le> sr_sequence r \<and> wf_sn x"
    if "map_of (sr_sessions (settle r s)) sid = Some x" for sid x
    using that assms(2-5) sessions_okD(1-3) [OF assms(1)] by (fastforce simp: wf_sn_def split: if_splits)
  have 2: "\<exists>y. map_of (sr_sessions r) sid = Some y \<and> sn_sequence y = sn_sequence x"
    if "map_of (sr_sessions (settle r s)) sid = Some x" for sid x
    using that assms(2,3) by (auto split: if_splits)
  show ?thesis unfolding sessions_ok_def settle_fields(1)
  proof (intro conjI allI impI)
    show "distinct (map fst (sr_sessions (settle r s)))"
      using sessions_okD(5) [OF assms(1)] by (rule settle_distinct)
  next
    fix sid sid' x x'
    assume "map_of (sr_sessions (settle r s)) sid = Some x \<and>
      map_of (sr_sessions (settle r s)) sid' = Some x' \<and> sn_sequence x = sn_sequence x'"
    then obtain y y' where "map_of (sr_sessions r) sid = Some y" "map_of (sr_sessions r) sid' = Some y'"
      "sn_sequence y = sn_sequence y'" using 2 by metis
    then show "sid = sid'" by (rule sessions_okD(4) [OF assms(1)])
  qed (use 1 in \<open>blast+\<close>)
qed

lemma settle_trace_ok:
  assumes "trace_ok r" and "sessions_ok r" and "map_of (sr_sessions r) (sn_id s) = Some old"
    and "sn_sequence s = sn_sequence old"
  shows "trace_ok (settle r s)"
proof -
  have new: "CloseSession (sn_sequence s) \<notin> set (sr_trace r)"
    using assms(1,3,4) by (auto simp: trace_ok_def)
  have others: "sn_sequence x \<noteq> sn_sequence s" if "map_of (sr_sessions r) sid = Some x" "sid \<noteq> sn_id s" for sid x
    using sessions_okD(4) [OF assms(2) that(1) assms(3)] assms(4) that(2) by auto
  have "sn_sequence s \<le> sr_sequence r" using sessions_okD(2) [OF assms(2,3)] assms(4) by simp
  then show ?thesis using assms(1,3,4) new others unfolding trace_ok_def settle_fields by auto
qed

lemma trace_ok_emit:
  assumes "trace_ok r" and "filter is_close es = []"
  shows "trace_ok (emit r es)"
proof -
  have "CloseSession n \<notin> set es" "CloseStream n \<notin> set es" for n
    using assms(2) by (auto simp: filter_empty_conv)
  then show ?thesis using assms unfolding trace_ok_def emit_fields by auto
qed

lemma drainEvents_no_close: "filter is_close (drainEvents s c) = []"
  by (auto simp: drainEvents_def Let_def filter_empty_conv)

lemma core_cong:
  assumes "sr_core r" and "sr_sessions r' = sr_sessions r" "sr_handles r' = sr_handles r"
    "sr_released r' = sr_released r" "sr_sequence r' = sr_sequence r" "trace_ok r'"
  shows "sr_core r'"
  using assms by (simp add: sr_core_def sessions_ok_def handles_ok_def streamsIn_def unreleased_def)

lemma beginDrain_core:
  assumes "sr_core r" and "map_of (sr_sessions r) sid = Some s"
  shows "sr_core (beginDrainLocked r s c)"
proof (cases "sn_draining s")
  case False
  let ?r = "emit r (drainEvents s c)" and ?s = "s \<lparr> sn_draining := True \<rparr>"
  have core: "sr_core ?r"
    by (rule core_cong [OF assms(1)])
      (use assms(1) in \<open>auto simp: sr_core_def intro: trace_ok_emit drainEvents_no_close\<close>)
  have ok: "sessions_ok r" using assms(1) by (simp add: sr_core_def)
  have sid: "sn_id s = sid" by (rule sessions_okD(1) [OF ok assms(2)])
  then have s: "map_of (sr_sessions ?r) (sn_id ?s) = Some s" using assms(2) by simp
  have wf: "wf_sn s" by (rule sessions_okD(3) [OF ok assms(2)])
  have 1: "sessions_ok (settle ?r ?s)"
    by (rule settle_sessions_ok [OF _ s]) (use core wf in \<open>auto simp: sr_core_def wf_sn_def\<close>)
  have 2: "trace_ok (settle ?r ?s)"
    by (rule settle_trace_ok [OF _ _ s]) (use core in \<open>auto simp: sr_core_def\<close>)
  have "{(i, x). (i, x) \<in> streamsIn ?r \<and> i \<noteq> sid} \<union> {sid} \<times> streamsOf s = streamsIn ?r"
    using s sid by (auto simp: streamsIn_def)
  then have 3: "streamsIn (settle ?r ?s) = unreleased ?r"
    using core unfolding streamsIn_settle by (simp add: sid sr_core_def streamsOf_def)
  show ?thesis unfolding beginDrain_settle [OF False] sr_core_def
    using 1 2 3 core by (simp add: sr_core_def handles_ok_def unreleased_def)
qed (simp add: beginDrainLocked_def assms)

lemma beginDrain_lookup:
  assumes "sn_id s = sid"
  shows "map_of (sr_sessions (beginDrainLocked r s c)) i =
    (if sn_draining s \<or> i \<noteq> sid then map_of (sr_sessions r) i
     else if sn_tasks s = [] then None else Some (s \<lparr> sn_draining := True \<rparr>))"
proof (cases "sn_draining s")
  case True
  then show ?thesis by (simp add: beginDrainLocked_def)
next
  case False
  then show ?thesis unfolding beginDrain_settle [OF False] using assms by simp
qed

lemma beginDrain_others:
  assumes "\<forall>x \<in> set (s # ss). map_of (sr_sessions r) (sn_id x) = Some x" and "distinct (map sn_id (s # ss))"
  shows "\<forall>x \<in> set ss. map_of (sr_sessions (beginDrainLocked r s c)) (sn_id x) = Some x"
proof
  fix x assume x: "x \<in> set ss"
  then have "sn_id x \<noteq> sn_id s" using assms(2) by (metis distinct.simps(2) imageI list.set_map list.simps(9))
  then show "map_of (sr_sessions (beginDrainLocked r s c)) (sn_id x) = Some x"
    using assms(1) x unfolding beginDrain_lookup [OF refl] by simp
qed

lemma drainAll_core:
  assumes "sr_core r" and "\<forall>s \<in> set ss. map_of (sr_sessions r) (sn_id s) = Some s" and "distinct (map sn_id ss)"
  shows "sr_core (drainAll r ss) \<and>
    (\<forall>i s. map_of (sr_sessions (drainAll r ss)) i = Some s \<longrightarrow>
       sn_draining s \<or> i \<notin> sn_id ` set ss \<and> map_of (sr_sessions r) i = Some s)"
  using assms
proof (induction ss arbitrary: r)
  case (Cons s ss)
  let ?r = "beginDrainLocked r s CauseClosed"
  have s: "map_of (sr_sessions r) (sn_id s) = Some s" using Cons.prems(2) by simp
  have core: "sr_core ?r" using beginDrain_core [OF Cons.prems(1) s] .
  have rest: "\<forall>x \<in> set ss. map_of (sr_sessions ?r) (sn_id x) = Some x"
    by (rule beginDrain_others [OF Cons.prems(2,3)])
  have IH: "sr_core (drainAll ?r ss)" "\<And>i x. map_of (sr_sessions (drainAll ?r ss)) i = Some x \<Longrightarrow>
      sn_draining x \<or> i \<notin> sn_id ` set ss \<and> map_of (sr_sessions ?r) i = Some x"
    using Cons.IH [OF core rest] Cons.prems(3) by auto
  have "sn_draining x \<or> i \<notin> sn_id ` set (s # ss) \<and> map_of (sr_sessions r) i = Some x"
    if "map_of (sr_sessions (drainAll ?r ss)) i = Some x" for i x
    using IH(2) [OF that] s by (auto simp: beginDrain_lookup [OF refl] split: if_splits)
  then show ?case using IH(1) by simp
qed simp

lemma trace_ok_fresh:
  assumes "trace_ok r" and "sr_trace r' = sr_trace r" "sr_released r' = sr_released r" "sr_sequence r \<le> sr_sequence r'"
    and "\<And>sid s. map_of (sr_sessions r') sid = Some s \<Longrightarrow>
      (\<exists>s0. map_of (sr_sessions r) sid = Some s0 \<and> sn_sequence s0 = sn_sequence s) \<or> sr_sequence r < sn_sequence s"
  shows "trace_ok r'"
proof -
  have "sn_sequence s \<noteq> n" if "CloseSession n \<in> set (sr_trace r)" "map_of (sr_sessions r') sid = Some s" for n sid s
    using assms(5) [OF that(2)] assms(1) that(1) unfolding trace_ok_def by (metis leD)
  then show ?thesis using assms(1-4) unfolding trace_ok_def by (metis le_trans)
qed

lemma streamsOf_no_tasks: "sn_tasks s = [] \<Longrightarrow> streamsOf s = {}"
  by (simp add: streamsOf_def)

text \<open>The registry after a session was looked up or created.\<close>

lemma ensure_core:
  assumes "sr_core r" and "ensureSessionLocked r sid = (Inr s, r')"
  shows "sr_core r'" and "map_of (sr_sessions r') sid = Some s" and "\<not> sn_draining s" and "sn_id s = sid"
    and "sr_closed r' = sr_closed r" "sr_rootErr r' = sr_rootErr r"
    and "\<And>i x. map_of (sr_sessions r') i = Some x \<Longrightarrow> i \<noteq> sid \<Longrightarrow> map_of (sr_sessions r) i = Some x"
proof -
  have "sr_core r' \<and> map_of (sr_sessions r') sid = Some s \<and> \<not> sn_draining s \<and> sn_id s = sid \<and>
    sr_closed r' = sr_closed r \<and> sr_rootErr r' = sr_rootErr r \<and>
    (\<forall>i x. map_of (sr_sessions r') i = Some x \<longrightarrow> i \<noteq> sid \<longrightarrow> map_of (sr_sessions r) i = Some x)"
  proof (cases "map_of (sr_sessions r) sid")
    case (Some s0)
    then have "sn_id s0 = sid" using assms(1) sessions_okD(1) by (auto simp: sr_core_def)
    then show ?thesis using assms Some by (auto simp: ensureSessionLocked_def split: if_splits)
  next
    case None
    have s: "s = \<lparr> sn_id = sid, sn_sequence = sr_sequence r + 1, sn_draining = False, sn_tasks = [] \<rparr>"
      and r': "r' = putSession (r \<lparr> sr_sequence := sr_sequence r + 1 \<rparr>) s"
      using assms(2) None by (auto simp: ensureSessionLocked_def Let_def)
    have m: "map_of (sr_sessions r') = (map_of (sr_sessions r))(sid := Some s)"
      by (simp add: r' s putSession_def AList.update_conv')
    have ok: "sessions_ok r" and h: "handles_ok r" and t: "trace_ok r" and st: "streamsIn r = unreleased r"
      using assms(1) by (auto simp: sr_core_def)
    have seq: "sn_sequence x \<le> sr_sequence r" if "map_of (sr_sessions r) i = Some x" for i x
      by (rule sessions_okD(2) [OF ok that])
    have "sessions_ok r'"
      unfolding sessions_ok_def m
    proof (intro conjI allI impI)
      show "distinct (map fst (sr_sessions r'))"
        using sessions_okD(5) [OF ok] by (simp add: r' putSession_def AList.distinct_update)
    next
      fix i i' x x'
      assume a: "((map_of (sr_sessions r))(sid \<mapsto> s)) i = Some x \<and>
        ((map_of (sr_sessions r))(sid \<mapsto> s)) i' = Some x' \<and> sn_sequence x = sn_sequence x'"
      have old: "sn_sequence y < sn_sequence s"
        if "((map_of (sr_sessions r))(sid \<mapsto> s)) j = Some y" "j \<noteq> sid" for j y
        using seq [of j y] that by (simp add: s)
      have "i = sid \<longleftrightarrow> i' = sid"
        using a old [of i x] old [of i' x'] by (metis fun_upd_same less_irrefl option.inject)
      then show "i = i'" using a sessions_okD(4) [OF ok, of i x i' x'] by (metis fun_upd_other)
    next
      fix i x
      assume a: "((map_of (sr_sessions r))(sid \<mapsto> s)) i = Some x"
      show "sn_id x = i" "sn_sequence x \<le> sr_sequence r'" "wf_sn x"
        using a sessions_okD(1-3) [OF ok, of i x]
        by (auto simp: s r' putSession_def wf_sn_def split: if_splits)
    qed
    moreover have "trace_ok r'"
      by (rule trace_ok_fresh [OF t]) (auto simp: m s, auto simp: r' putSession_def s split: if_splits)
    moreover have "handles_ok r'" using h by (auto simp: handles_ok_def r' putSession_def intro: le_SucI)
    moreover have "streamsIn r' = unreleased r'"
    proof -
      have "streamsOf s = {}" by (simp add: s streamsOf_def)
      then have "streamsIn r' = streamsIn r" unfolding streamsIn_update [OF m] using None
        by (auto simp: streamsIn_def)
      then show ?thesis using st by (simp add: unreleased_def r' putSession_def)
    qed
    ultimately have "sr_core r'" by (simp add: sr_core_def)
    then show ?thesis using m by (auto simp: s r' putSession_def)
  qed
  then show "sr_core r'" and "map_of (sr_sessions r') sid = Some s" and "\<not> sn_draining s" and "sn_id s = sid"
    and "sr_closed r' = sr_closed r" "sr_rootErr r' = sr_rootErr r"
    and "\<And>i x. map_of (sr_sessions r') i = Some x \<Longrightarrow> i \<noteq> sid \<Longrightarrow> map_of (sr_sessions r) i = Some x"
    by blast+
qed

lemma streamsOf_update:
  "streamsOf (s \<lparr> sn_tasks := AList.update tid t (sn_tasks s) \<rparr>) =
     {(i, n). (i, n) \<in> streamsOf s \<and> i \<noteq> tid} \<union> {tid} \<times> set (tn_streams t)"
  by (auto simp: streamsOf_def AList.update_conv' split: if_splits)

lemma streamsOf_delete:
  "streamsOf (s \<lparr> sn_tasks := AList.delete tid (sn_tasks s) \<rparr>) = {(i, n). (i, n) \<in> streamsOf s \<and> i \<noteq> tid}"
  by (auto simp: streamsOf_def AList.delete_conv' split: if_splits)

lemma streamsIn_lookup:
  assumes "map_of (sr_sessions r) sid = Some s"
  shows "(sid, x) \<in> streamsIn r \<longleftrightarrow> x \<in> streamsOf s"
  using assms by (simp add: streamsIn_def)

text \<open>Adding a stream to a session that is not draining.\<close>

lemma attach_core:
  assumes core: "sr_core r" and s: "map_of (sr_sessions r) sid = Some s" "\<not> sn_draining s"
    and t: "tn_streams t = (case map_of (sn_tasks s) tid of None \<Rightarrow> [] | Some t0 \<Rightarrow> tn_streams t0)"
    and n: "sr_sequence r < n"
    and s': "s' = s \<lparr> sn_tasks := AList.update tid (t \<lparr> tn_streams := n # tn_streams t \<rparr>) (sn_tasks s) \<rparr>"
    and r': "r' = putSession (r \<lparr> sr_sequence := n, sr_handles := (sid, tid, n) # sr_handles r \<rparr>) s'"
  shows "sr_core r'"
proof -
  let ?r = "r \<lparr> sr_sequence := n, sr_handles := (sid, tid, n) # sr_handles r \<rparr>"
  have ok: "sessions_ok r" and h: "handles_ok r" and tr: "trace_ok r" and st: "streamsIn r = unreleased r"
    using core by (auto simp: sr_core_def)
  note okD = sessions_okD [OF ok]
  have id: "sn_id s' = sid" and drain: "\<not> sn_draining s'" and q: "sn_sequence s' = sn_sequence s"
    using okD(1) [OF s(1)] s(2) by (simp_all add: s')
  have r's: "r' = settle ?r s'" using drain by (simp add: r' settle_def)
  have "sn_sequence x \<le> n" if "map_of (sr_sessions r) i = Some x" for i x
    using okD(2) [OF that] n by simp
  moreover have f: "sr_sessions ?r = sr_sessions r" "sr_sequence ?r = n" by simp_all
  ultimately have ok': "sessions_ok ?r"
    using okD(1,3,4,5) unfolding sessions_ok_def f by blast
  have tr': "trace_ok ?r" by (rule trace_ok_fresh [OF tr]) (use n in auto)
  have s1: "map_of (sr_sessions ?r) (sn_id s') = Some s" using s(1) by (simp add: id)
  have wf: "wf_sn s" by (rule okD(3) [OF s(1)])
  have "sessions_ok r'" unfolding r's
  proof (rule settle_sessions_ok [OF ok' s1 q])
    show "tn_streams y \<noteq> []" if "map_of (sn_tasks s') x = Some y" for x y
      using that wf by (auto simp: s' AList.update_conv' wf_sn_def split: if_splits)
  qed (use s(2) in simp)
  moreover have "trace_ok r'" unfolding r's by (rule settle_trace_ok [OF tr' ok' s1 q])
  moreover have "handles_ok r'"
  proof -
    have f: "sr_handles r' = (sid, tid, n) # sr_handles r" "sr_released r' = sr_released r" "sr_sequence r' = n"
      by (simp_all add: r' putSession_def)
    have old: "m < n" if "(a, b, m) \<in> set (sr_handles r)" for a b m
      using handles_okD(1) [OF h that] n by simp
    have "m \<le> n" if "m \<in> set (sr_released r)" for m using handles_okD(3) [OF h that] n by simp
    then show ?thesis
      unfolding handles_ok_def f using old handles_okD(2) [OF h] by (fastforce simp: less_imp_le)
  qed
  moreover have "streamsIn r' = unreleased r'"
  proof -
    have "streamsOf s' = insert (tid, n) (streamsOf s)"
      unfolding s' streamsOf_update using t by (auto simp: streamsOf_def split: option.splits)
    then have "streamsIn r' = insert (sid, tid, n) (streamsIn r)"
      unfolding r's streamsIn_settle id using s(1) by (auto simp: streamsIn_def)
    moreover have "n \<notin> set (sr_released r)" using h n unfolding handles_ok_def by (meson leD)
    ultimately show ?thesis using st by (auto simp: unreleased_def r' putSession_def)
  qed
  ultimately show ?thesis by (simp add: sr_core_def)
qed

lemma Attach_core:
  assumes "sr_core r"
  shows "sr_core (snd (Attach r sid tid))"
proof (cases "ensureSessionLocked r sid")
  case (Pair res r1)
  show ?thesis
  proof (cases res)
    case (Inl e)
    then have "r1 = r" using Pair by (auto simp: ensureSessionLocked_def Let_def split: option.splits if_splits)
    then show ?thesis using Pair Inl assms by (auto simp: Attach_def)
  next
    case (Inr s)
    note e = ensure_core [OF assms Pair [unfolded Inr]]
    show ?thesis
    proof (cases "map_of (sn_tasks s) tid")
      case None
      then show ?thesis using assms Pair Inr e(3) unfolding Attach_def
        by (auto intro!: attach_core [OF e(1-3), of "\<lparr> tn_sequence = Suc (sr_sequence r1), tn_streams = [] \<rparr>" tid "Suc (Suc (sr_sequence r1))"])
    next
      case (Some t)
      then show ?thesis using assms Pair Inr e(3) unfolding Attach_def
        by (auto intro!: attach_core [OF e(1-3), of t tid "Suc (sr_sequence r1)"])
    qed
  qed
qed

lemma Ensure_core:
  assumes "sr_core r"
  shows "sr_core (snd (Ensure r sid))"
proof (cases "ensureSessionLocked r sid")
  case (Pair res r1)
  show ?thesis
  proof (cases res)
    case (Inl e)
    then have "r1 = r" using Pair by (auto simp: ensureSessionLocked_def Let_def split: option.splits if_splits)
    then show ?thesis using Pair Inl assms by (auto simp: Ensure_def)
  next
    case (Inr s)
    then show ?thesis using ensure_core(1) [OF assms, of sid s r1] Pair assms by (auto simp: Ensure_def)
  qed
qed

text \<open>Running a release function that has not run yet takes its stream out of the registry.\<close>

lemma runRelease_form:
  assumes core: "sr_core r" and h: "(sid, tid, n) \<in> set (sr_handles r)" "n \<notin> set (sr_released r)"
  obtains s s' es where "map_of (sr_sessions r) sid = Some s" "sn_id s' = sid" "sn_sequence s' = sn_sequence s"
    "sn_draining s' = sn_draining s" "streamsOf s' = streamsOf s - {(tid, n)}"
    "\<And>x y. map_of (sn_tasks s') x = Some y \<Longrightarrow> tn_streams y \<noteq> []"
    "filter is_close es = [CloseStream n]" "set (filter is_close es) = {CloseStream n}"
    "runRelease r (sid, tid, n) = settle (emit (r \<lparr> sr_released := n # sr_released r \<rparr>) es) s'"
proof -
  have "(sid, tid, n) \<in> streamsIn r" using core h by (simp add: sr_core_def unreleased_def)
  then obtain s t where s: "map_of (sr_sessions r) sid = Some s" and t: "map_of (sn_tasks s) tid = Some t"
      and n: "n \<in> set (tn_streams t)"
    by (auto simp: streamsIn_def streamsOf_def)
  have ok: "sessions_ok r" using core by (simp add: sr_core_def)
  have id: "sn_id s = sid" and wf: "wf_sn s" using sessions_okD(1,3) [OF ok s] by auto
  let ?r = "r \<lparr> sr_released := n # sr_released r \<rparr>" and ?t = "t \<lparr> tn_streams := removeAll n (tn_streams t) \<rparr>"
  have emit2: "emit (emit x a) b = emit x (a @ b)" for x a b by (simp add: emit_def)
  have streams: "set (tn_streams t) = {m. (tid, m) \<in> streamsOf s}" using t by (simp add: streamsOf_def)
  show thesis
  proof (cases "removeAll n (tn_streams t) = []")
    case True
    let ?s = "s \<lparr> sn_tasks := AList.delete tid (sn_tasks s) \<rparr>"
    have "runRelease r (sid, tid, n) =
        settle (emit ?r [CancelStream n Canceled, CloseStream n, CancelTask (tn_sequence t) Canceled]) ?s"
      using h(2) s t n True by (simp add: runRelease_def releaseLocked_def finish_put emit2)
    moreover have "streamsOf ?s = streamsOf s - {(tid, n)}"
      using True streams unfolding streamsOf_delete by (auto simp: removeAll_filter_not_eq filter_empty_conv)
    moreover have "tn_streams y \<noteq> []" if "map_of (sn_tasks ?s) x = Some y" for x y
      using that wf by (auto simp: AList.delete_conv' wf_sn_def split: if_splits)
    ultimately show thesis
      using that [of s ?s "[CancelStream n Canceled, CloseStream n, CancelTask (tn_sequence t) Canceled]"] s id
      by simp
  next
    case False
    let ?s = "s \<lparr> sn_tasks := AList.update tid ?t (sn_tasks s) \<rparr>"
    have "runRelease r (sid, tid, n) = settle (emit ?r [CancelStream n Canceled, CloseStream n]) ?s"
      using h(2) s t n False by (simp add: runRelease_def releaseLocked_def finish_put emit2)
    moreover have "streamsOf ?s = streamsOf s - {(tid, n)}"
      using streams unfolding streamsOf_update by auto
    moreover have "tn_streams y \<noteq> []" if "map_of (sn_tasks ?s) x = Some y" for x y
      using that wf False by (auto simp: AList.update_conv' wf_sn_def split: if_splits)
    ultimately show thesis using that [of s ?s "[CancelStream n Canceled, CloseStream n]"] s id by simp
  qed
qed

lemma runRelease_core:
  assumes core: "sr_core r" and h: "(sid, tid, n) \<in> set (sr_handles r)"
  shows "sr_core (runRelease r (sid, tid, n))"
proof (cases "n \<in> set (sr_released r)")
  case True
  then show ?thesis using core by (simp add: runRelease_def)
next
  case False
  obtain s s' es where s: "map_of (sr_sessions r) sid = Some s" "sn_id s' = sid" "sn_sequence s' = sn_sequence s"
    "sn_draining s' = sn_draining s" "streamsOf s' = streamsOf s - {(tid, n)}"
    "\<And>x y. map_of (sn_tasks s') x = Some y \<Longrightarrow> tn_streams y \<noteq> []"
    and es: "filter is_close es = [CloseStream n]" "set (filter is_close es) = {CloseStream n}"
    and run: "runRelease r (sid, tid, n) = settle (emit (r \<lparr> sr_released := n # sr_released r \<rparr>) es) s'"
    using runRelease_form [OF core h False] by blast
  let ?r = "emit (r \<lparr> sr_released := n # sr_released r \<rparr>) es"
  have ok: "sessions_ok ?r" using core by (simp add: sr_core_def sessions_ok_def)
  have ho: "handles_ok r" using core by (simp add: sr_core_def)
  have tr0: "trace_ok r" using core by (simp add: sr_core_def)
  have new: "CloseStream n \<notin> set (sr_trace r)" using tr0 False by (auto simp: trace_ok_def)
  have "e = CloseStream n" if "e \<in> set es" "is_close e" for e
  proof -
    have "e \<in> set (filter is_close es)" using that by simp
    then show ?thesis unfolding es(2) by simp
  qed
  then have "CloseSession m \<notin> set es" "CloseStream m \<in> set es \<longrightarrow> m = n" for m by fastforce+
  then have tr: "trace_ok ?r" using tr0 es(1) new unfolding trace_ok_def by auto
  have s1: "map_of (sr_sessions ?r) (sn_id s') = Some s" using s(1,2) by simp
  have hd: "handles_ok (runRelease r (sid, tid, n))"
  proof -
    have f: "sr_handles (runRelease r (sid, tid, n)) = sr_handles r"
      "sr_sequence (runRelease r (sid, tid, n)) = sr_sequence r"
      "set (sr_released (runRelease r (sid, tid, n))) = insert n (set (sr_released r))"
      by (simp_all add: run)
    show ?thesis unfolding handles_ok_def f
      using handles_okD(2,3) [OF ho] handles_okD(1) [OF ho] h by blast
  qed
  have "streamsIn (runRelease r (sid, tid, n)) = streamsIn r - {(sid, tid, n)}"
    unfolding run streamsIn_settle s(2,5) using s(1) by (auto simp: streamsIn_def)
  moreover have "unreleased (runRelease r (sid, tid, n)) = unreleased r - {(sid, tid, n)}"
    using handles_okD(2) [OF ho h] unfolding run unreleased_def by auto
  ultimately have "streamsIn (runRelease r (sid, tid, n)) = unreleased (runRelease r (sid, tid, n))"
    using core by (simp add: sr_core_def)
  moreover have "sessions_ok (runRelease r (sid, tid, n))"
    unfolding run by (rule settle_sessions_ok [OF ok s1 s(3)]) (use s(4,6) in auto)
  moreover have "trace_ok (runRelease r (sid, tid, n))"
    unfolding run by (rule settle_trace_ok [OF tr ok s1 s(3)])
  ultimately show ?thesis using hd by (simp add: sr_core_def)
qed

lemma stored_sessions:
  assumes ok: "sessions_ok r"
  shows "\<And>sid s. (sid, s) \<in> set (sr_sessions r) \<Longrightarrow> sn_id s = sid"
    and "\<forall>s \<in> set (map snd (sr_sessions r)). map_of (sr_sessions r) (sn_id s) = Some s"
    and "distinct (map sn_id (map snd (sr_sessions r)))"
proof -
  have d: "distinct (map fst (sr_sessions r))" by (rule sessions_okD(5) [OF ok])
  have id: "sn_id s = sid" if "(sid, s) \<in> set (sr_sessions r)" for sid s
    using sessions_okD(1) [OF ok] map_of_is_SomeI [OF d that] by blast
  then show "\<And>sid s. (sid, s) \<in> set (sr_sessions r) \<Longrightarrow> sn_id s = sid" .
  show "\<forall>s \<in> set (map snd (sr_sessions r)). map_of (sr_sessions r) (sn_id s) = Some s"
    using id d by (auto intro: map_of_is_SomeI)
  have "map sn_id (map snd (sr_sessions r)) = map fst (sr_sessions r)" using id by auto
  then show "distinct (map sn_id (map snd (sr_sessions r)))" using d by (simp only:)
qed

lemma Shutdown_inv:
  assumes "sr_core r"
  shows "sr_inv (snd (Shutdown r))"
proof -
  let ?r = "r \<lparr> sr_closed := True \<rparr>" and ?ss = "map snd (sr_sessions r)"
  let ?out = "snd (Shutdown r)"
  have core: "sr_core ?r"
    using assms by (simp add: sr_core_def sessions_ok_def handles_ok_def trace_ok_def streamsIn_def unreleased_def)
  have ok: "sessions_ok r" using assms by (simp add: sr_core_def)
  note stored = stored_sessions [OF ok]
  have mem: "\<forall>s \<in> set ?ss. map_of (sr_sessions ?r) (sn_id s) = Some s" using stored(2) by simp
  have dist: "distinct (map sn_id ?ss)" by (rule stored(3))
  note D = drainAll_core [OF core mem dist]
  have out: "?out = emit ((drainAll ?r ?ss) \<lparr> sr_rootErr := True \<rparr>) [CancelRoot CauseClosed]"
    by (simp add: Shutdown_def Let_def)
  have core2: "sr_core (drainAll ?r ?ss)" using D by blast
  then have "trace_ok ((drainAll ?r ?ss) \<lparr> sr_rootErr := True \<rparr>)" by (simp add: sr_core_def trace_ok_def)
  then have "trace_ok ?out" unfolding out by (rule trace_ok_emit) simp
  then have "sr_core ?out" unfolding out by (intro core_cong [OF core2]) simp_all
  moreover have "sn_draining s" if "map_of (sr_sessions ?out) i = Some s" for i s
  proof -
    have "map_of (sr_sessions (drainAll ?r ?ss)) i = Some s" using that by (simp add: out)
    then have "sn_draining s \<or> i \<notin> sn_id ` set ?ss \<and> map_of (sr_sessions r) i = Some s" using D by auto
    moreover have "i \<in> sn_id ` set ?ss" if "map_of (sr_sessions r) i = Some s"
      using stored(1) [OF map_of_SomeD [OF that]] map_of_SomeD [OF that] by force
    ultimately show ?thesis by blast
  qed
  ultimately show ?thesis by (simp add: sr_inv_def)
qed

lemma ensure_closed:
  assumes "ensureSessionLocked r sid = (res, r')"
  shows "sr_closed r' = sr_closed r"
  using assms by (auto simp: ensureSessionLocked_def Let_def putSession_def split: option.splits if_splits)

lemma Ensure_closed: "sr_closed (snd (Ensure r sid)) = sr_closed r \<and> (sr_closed r \<longrightarrow> snd (Ensure r sid) = r)"
  by (auto simp: Ensure_def dest: ensure_closed split: prod.splits sum.splits)

lemma Attach_closed: "sr_closed (snd (Attach r sid tid)) = sr_closed r \<and> (sr_closed r \<longrightarrow> snd (Attach r sid tid) = r)"
  by (auto simp: Attach_def putSession_def Let_def dest: ensure_closed split: prod.splits sum.splits option.splits)

lemma beginDrain_closed [simp]: "sr_closed (beginDrainLocked r s c) = sr_closed r"
  by (cases "sn_draining s") (simp_all add: beginDrain_settle, simp add: beginDrainLocked_def)

lemma Disconnect_inv:
  assumes "sr_inv r"
  shows "sr_inv (snd (Disconnect r sid))"
proof (cases "validID sid \<and> map_of (sr_sessions r) sid \<noteq> None")
  case True
  then obtain s where s: "map_of (sr_sessions r) sid = Some s" by blast
  have core: "sr_core r" using assms by (simp add: sr_inv_def)
  have out: "snd (Disconnect r sid) = beginDrainLocked r s SessionDisconnected" using True s by (simp add: Disconnect_def)
  have "sn_id s = sid" using core s sessions_okD(1) by (auto simp: sr_core_def)
  then show ?thesis
    using beginDrain_core [OF core s] assms unfolding out sr_inv_def
    by (auto simp: beginDrain_lookup split: if_splits)
next
  case False
  then show ?thesis using assms by (auto simp: Disconnect_def)
qed

lemma runRelease_closed:
  assumes "sr_inv r" and "(sid, tid, n) \<in> set (sr_handles r)"
  shows "sr_inv (runRelease r (sid, tid, n))"
proof (cases "n \<in> set (sr_released r)")
  case True
  then show ?thesis using assms by (simp add: runRelease_def)
next
  case False
  have core: "sr_core r" using assms by (simp add: sr_inv_def)
  obtain s s' es where s: "map_of (sr_sessions r) sid = Some s" "sn_id s' = sid" "sn_draining s' = sn_draining s"
    and run: "runRelease r (sid, tid, n) = settle (emit (r \<lparr> sr_released := n # sr_released r \<rparr>) es) s'"
    using runRelease_form [OF core assms(2) False] by metis
  show ?thesis
    using runRelease_core [OF core assms(2)] assms(1) s unfolding sr_inv_def run by auto
qed

lemma sr_step_inv: "sr_inv r \<Longrightarrow> sr_inv (sr_step r op)"
proof (cases op)
  case (DoEnsure s)
  assume "sr_inv r"
  then show ?thesis using DoEnsure Ensure_core [of r s] Ensure_closed [of r s] by (auto simp: sr_inv_def)
next
  case (DoAttach s t)
  assume "sr_inv r"
  then show ?thesis using DoAttach Attach_core [of r s t] Attach_closed [of r s t] by (auto simp: sr_inv_def)
next
  case (DoRelease h)
  assume "sr_inv r"
  then show ?thesis using DoRelease runRelease_closed by (cases h) auto
next
  case (DoDisconnect s)
  assume "sr_inv r"
  then show ?thesis using DoDisconnect Disconnect_inv by simp
next
  case DoShutdown
  assume "sr_inv r"
  then have "sr_core r" by (simp add: sr_inv_def)
  then show ?thesis using DoShutdown Shutdown_inv by simp
next
  case DoParentCancelled
  assume "sr_inv r"
  then show ?thesis using DoParentCancelled
    by (simp add: sr_inv_def sr_core_def sessions_ok_def handles_ok_def trace_ok_def streamsIn_def unreleased_def)
qed

interpretation session_runs: step_invariant sr_step sr_inv "\<lambda>_. True"
  by unfold_locales (rule sr_step_inv)

lemma NewSessionReg_inv: "sr_inv (NewSessionReg b)"
  by (simp add: NewSessionReg_def sr_inv_def sr_core_def sessions_ok_def handles_ok_def trace_ok_def streamsIn_def
      unreleased_def)

lemma session_run_inv: "sr_inv (foldl sr_step (NewSessionReg b) ops)"
  using session_runs.run_inv [OF NewSessionReg_inv] by (simp add: list_all_iff)

text \<open>C37. In every run of the session registry, its streams are exactly the attached streams whose release
  function has not run, and no \<^verbatim>\<open>done\<close> channel of a stream or a session is closed twice, which would panic.\<close>

theorem registry_tracks_streams:
  assumes "r = foldl sr_step (NewSessionReg parentCancelled) ops"
  shows "streamsIn r = unreleased r \<and> distinct (filter is_close (sr_trace r))"
  using session_run_inv [of parentCancelled ops] assms by (simp add: sr_inv_def sr_core_def trace_ok_def)

section \<open>Draining\<close>

text \<open>
  The session with the sequence number \<open>q\<close> has finished, or it is draining under its ID with streams in \<open>S\<close>.
\<close>

definition draining_down :: "string \<Rightarrow> nat \<Rightarrow> (string \<times> nat) set \<Rightarrow> SessionReg \<Rightarrow> bool" where
  "draining_down sid q S r \<longleftrightarrow> CloseSession q \<in> set (sr_trace r) \<or>
     (\<exists>s. map_of (sr_sessions r) sid = Some s \<and> sn_sequence s = q \<and> sn_draining s \<and> streamsOf s \<subseteq> S)"

lemma ensure_lookup:
  assumes "ensureSessionLocked r sid = (res, r')"
  shows "sr_trace r' = sr_trace r" "i \<noteq> sid \<Longrightarrow> map_of (sr_sessions r') i = map_of (sr_sessions r) i"
    and "map_of (sr_sessions r) sid = Some s \<Longrightarrow> sn_draining s \<Longrightarrow> r' = r \<and> (\<exists>e. res = Inl e)"
  using assms
  by (auto simp: ensureSessionLocked_def Let_def putSession_def AList.update_conv' split: option.splits if_splits)

lemma draining_down_mono: "draining_down sid q S r \<Longrightarrow> S \<subseteq> S' \<Longrightarrow> draining_down sid q S' r"
  unfolding draining_down_def by blast

lemma draining_down_frame:
  assumes "draining_down sid q S r" and "set (sr_trace r) \<subseteq> set (sr_trace r')"
    and "\<And>s. map_of (sr_sessions r) sid = Some s \<Longrightarrow> sn_draining s \<Longrightarrow> map_of (sr_sessions r') sid = Some s"
  shows "draining_down sid q S r'"
  using assms unfolding draining_down_def by blast

lemma draining_down_Ensure:
  assumes d: "draining_down sid q S r"
  shows "draining_down sid q S (snd (Ensure r i))"
proof (cases "ensureSessionLocked r i")
  case (Pair res r1)
  have "map_of (sr_sessions r1) sid = Some s" if "map_of (sr_sessions r) sid = Some s" "sn_draining s" for s
    using ensure_lookup(2,3) [OF Pair] that by (cases "sid = i") auto
  then have "draining_down sid q S r1"
    using draining_down_frame [OF d] ensure_lookup(1) [OF Pair] by simp
  then show ?thesis using d Pair by (auto simp: Ensure_def split: sum.splits)
qed

lemma draining_down_Attach:
  assumes "sr_core r" and d: "draining_down sid q S r"
  shows "draining_down sid q S (snd (Attach r i t))"
proof (cases "ensureSessionLocked r i")
  case (Pair res r1)
  have lookup: "map_of (sr_sessions r1) sid = Some s" if "map_of (sr_sessions r) sid = Some s" "sn_draining s" for s
    using ensure_lookup(2,3) [OF Pair] that by (cases "sid = i") auto
  show ?thesis
  proof (cases res)
    case (Inl e)
    have "draining_down sid q S r1"
      using draining_down_frame [OF d] lookup ensure_lookup(1) [OF Pair] by simp
    then show ?thesis using d Pair Inl by (auto simp: Attach_def)
  next
    case (Inr x)
    have x: "sn_id x = i" "\<not> sn_draining x" using ensure_core(3,4) [OF assms(1) Pair [unfolded Inr]] by auto
    have "i \<noteq> sid" if "map_of (sr_sessions r) sid = Some s" "sn_draining s" for s
      using ensure_lookup(3) [OF Pair] that Inr by auto
    then show ?thesis
      by (intro draining_down_frame [OF d])
        (use x lookup Pair Inr ensure_lookup(1) [OF Pair] in
          \<open>auto simp: Attach_def Let_def putSession_def AList.update_conv' split: option.splits\<close>)
  qed
qed

lemma draining_down_release:
  assumes inv: "sr_inv r" and d: "draining_down sid q S r" and h: "(i, t, n) \<in> set (sr_handles r)"
  shows "draining_down sid q (if i = sid then S - {(t, n)} else S) (runRelease r (i, t, n))"
proof (cases "n \<in> set (sr_released r)")
  case True
  have "(t, n) \<notin> streamsOf s" if "map_of (sr_sessions r) i = Some s" for s
    using inv True streamsIn_lookup [OF that] by (auto simp: sr_inv_def sr_core_def unreleased_def)
  then show ?thesis using d True by (fastforce simp: runRelease_def draining_down_def)
next
  case False
  have core: "sr_core r" using inv by (simp add: sr_inv_def)
  obtain s s' es where s: "map_of (sr_sessions r) i = Some s" "sn_id s' = i" "sn_sequence s' = sn_sequence s"
    "sn_draining s' = sn_draining s" "streamsOf s' = streamsOf s - {(t, n)}"
    and run: "runRelease r (i, t, n) = settle (emit (r \<lparr> sr_released := n # sr_released r \<rparr>) es) s'"
    using runRelease_form [OF core h False] by metis
  show ?thesis
  proof (cases "CloseSession q \<in> set (sr_trace r)")
    case True
    then show ?thesis by (simp add: draining_down_def run)
  next
    case no: False
    then obtain x where x: "map_of (sr_sessions r) sid = Some x" "sn_sequence x = q" "sn_draining x" "streamsOf x \<subseteq> S"
      using d by (auto simp: draining_down_def)
    show ?thesis
    proof (cases "i = sid")
      case True
      then have "x = s" using x s by simp
      then show ?thesis using x s True unfolding draining_down_def run by auto
    next
      case False
      then show ?thesis using x s unfolding draining_down_def run by auto
    qed
  qed
qed

lemma draining_down_drain:
  assumes "sn_id s = i" "map_of (sr_sessions r) i = Some s" and d: "draining_down sid q S r"
  shows "draining_down sid q S (beginDrainLocked r s c)"
proof (rule draining_down_frame [OF d])
  show "set (sr_trace r) \<subseteq> set (sr_trace (beginDrainLocked r s c))"
    by (cases "sn_draining s") (simp_all add: beginDrain_settle subset_iff, simp add: beginDrainLocked_def)
  show "map_of (sr_sessions (beginDrainLocked r s c)) sid = Some x"
    if "map_of (sr_sessions r) sid = Some x" "sn_draining x" for x
    using that assms by (auto simp: beginDrain_lookup split: if_splits)
qed

lemma draining_down_drainAll:
  assumes "\<forall>s \<in> set ss. map_of (sr_sessions r) (sn_id s) = Some s" and "distinct (map sn_id ss)"
    and "draining_down sid q S r"
  shows "draining_down sid q S (drainAll r ss)"
  using assms
proof (induction ss arbitrary: r)
  case (Cons s ss)
  let ?r = "beginDrainLocked r s CauseClosed"
  have "\<forall>x \<in> set ss. map_of (sr_sessions ?r) (sn_id x) = Some x"
    by (rule beginDrain_others [OF Cons.prems(1,2)])
  then show ?case
    using Cons.IH Cons.prems draining_down_drain [OF refl, of r s] by simp
qed simp

fun released_by :: "string \<Rightarrow> sr_op \<Rightarrow> (string \<times> nat) set" where
  "released_by sid (DoRelease (i, t, n)) = (if i = sid then {(t, n)} else {})"
| "released_by sid _ = {}"

lemma draining_down_step:
  assumes inv: "sr_inv r" and d: "draining_down sid q S r" and S: "{sid} \<times> S \<subseteq> set (sr_handles r)"
  shows "draining_down sid q (S - released_by sid op) (sr_step r op)"
proof (cases op)
  case (DoRelease h)
  obtain i t n where h: "h = (i, t, n)" by (cases h)
  show ?thesis
  proof (cases "h \<in> set (sr_handles r)")
    case True
    then show ?thesis using draining_down_release [OF inv d, of i t n] DoRelease h by (auto split: if_splits)
  next
    case False
    then have "S - released_by sid op = S" using S DoRelease h by auto
    then show ?thesis using d False DoRelease by simp
  qed
next
  case (DoDisconnect i)
  show ?thesis
  proof (cases "map_of (sr_sessions r) i")
    case (Some s)
    have "sn_id s = i" using inv Some sessions_okD(1) by (auto simp: sr_inv_def sr_core_def)
    then show ?thesis using draining_down_drain [OF _ Some d] d Some DoDisconnect by (auto simp: Disconnect_def)
  qed (use d DoDisconnect in \<open>simp add: Disconnect_def\<close>)
next
  case DoShutdown
  have ok: "sessions_ok r" using inv by (simp add: sr_inv_def sr_core_def)
  have "draining_down sid q S (r \<lparr> sr_closed := True \<rparr>)" using d by (simp add: draining_down_def)
  then have "draining_down sid q S (drainAll (r \<lparr> sr_closed := True \<rparr>) (map snd (sr_sessions r)))"
    using stored_sessions(2,3) [OF ok] by (intro draining_down_drainAll) simp_all
  then show ?thesis using DoShutdown by (auto simp: Shutdown_def Let_def draining_down_def)
next
  case (DoAttach i t)
  then show ?thesis using draining_down_Attach inv d by (simp add: sr_inv_def)
next
  case (DoEnsure i)
  then show ?thesis using draining_down_Ensure d by simp
next
  case DoParentCancelled
  then show ?thesis using d by (simp add: draining_down_def)
qed

lemma handles_step: "set (sr_handles r) \<subseteq> set (sr_handles (sr_step r op))"
proof (cases op)
  case (DoRelease h)
  have "sr_handles (finishSessionLocked x s) = sr_handles x" for x s
    by (auto simp: finishSessionLocked_def split: option.splits)
  then have "sr_handles (releaseLocked x h) = sr_handles x" for x
    by (auto simp: releaseLocked_def putSession_def Let_def split: option.splits prod.splits)
  then show ?thesis using DoRelease by (auto simp: runRelease_def split: prod.splits)
next
  case (DoDisconnect s)
  have "sr_handles (beginDrainLocked x y c) = sr_handles x" for x y c
    by (cases "sn_draining y") (simp_all add: beginDrain_settle, simp add: beginDrainLocked_def)
  then show ?thesis using DoDisconnect by (auto simp: Disconnect_def split: option.splits)
next
  case DoShutdown
  have 1: "sr_handles (beginDrainLocked x y c) = sr_handles x" for x y c
    by (cases "sn_draining y") (simp_all add: beginDrain_settle, simp add: beginDrainLocked_def)
  have "sr_handles (drainAll x ss) = sr_handles x" for x ss
    by (induction ss arbitrary: x) (simp_all add: 1)
  then show ?thesis using DoShutdown by (simp add: Shutdown_def Let_def)
next
  case (DoEnsure s)
  then show ?thesis
    by (auto simp: Ensure_def ensureSessionLocked_def putSession_def Let_def split: option.splits if_splits)
next
  case (DoAttach s t)
  then show ?thesis
    by (auto simp: Attach_def ensureSessionLocked_def putSession_def Let_def split: option.splits if_splits)
qed auto

lemma draining_down_run:
  assumes "sr_inv r" and "draining_down sid q S r" and "{sid} \<times> S \<subseteq> set (sr_handles r)"
  shows "draining_down sid q (S - \<Union> (released_by sid ` set ops)) (foldl sr_step r ops)"
  using assms
proof (induction ops arbitrary: r S)
  case (Cons op ops)
  have "draining_down sid q ((S - released_by sid op) - \<Union> (released_by sid ` set ops)) (foldl sr_step (sr_step r op) ops)"
    using Cons.prems handles_step [of r op]
    by (intro Cons.IH sr_step_inv draining_down_step) auto
  then show ?case by (simp add: Diff_eq Int_assoc Compl_Un)
qed simp

lemma streams_have_handles:
  assumes "sr_inv r" and "map_of (sr_sessions r) sid = Some s"
  shows "{sid} \<times> streamsOf s \<subseteq> set (sr_handles r)"
proof -
  have "{sid} \<times> streamsOf s \<subseteq> streamsIn r" using assms(2) by (auto simp: streamsIn_def)
  also have "streamsIn r = unreleased r" using assms(1) by (simp add: sr_inv_def sr_core_def)
  also have "unreleased r \<subseteq> set (sr_handles r)" by (auto simp: unreleased_def)
  finally show ?thesis .
qed

lemma draining_done:
  assumes "sr_inv r" and "draining_down sid q {} r"
  shows "CloseSession q \<in> set (sr_trace r)"
proof (rule ccontr)
  assume "CloseSession q \<notin> set (sr_trace r)"
  then obtain s where s: "map_of (sr_sessions r) sid = Some s" "sn_draining s" "streamsOf s = {}"
    using assms(2) by (auto simp: draining_down_def)
  have wf: "wf_sn s" using assms(1) s(1) sessions_okD(3) by (auto simp: sr_inv_def sr_core_def)
  then have "sn_tasks s = []" using streamsOf_empty s(3) by blast
  then show False using wf s(2) by (simp add: wf_sn_def)
qed

lemma Disconnect_draining:
  assumes "sr_inv r" and "Disconnect r sid = (Inr (Some q), r')" and "map_of (sr_sessions r) sid = Some s"
  shows "draining_down sid q (streamsOf s) r'"
proof -
  have out: "r' = beginDrainLocked r s SessionDisconnected" "q = sn_sequence s"
    using assms(2,3) by (auto simp: Disconnect_def split: if_splits)
  have id: "sn_id s = sid" using assms(1,3) sessions_okD(1) by (auto simp: sr_inv_def sr_core_def)
  show ?thesis
  proof (cases "sn_draining s")
    case True
    then show ?thesis using assms(3) out by (simp add: draining_down_def beginDrainLocked_def)
  next
    case False
    then show ?thesis unfolding out beginDrain_settle [OF False] draining_down_def
      using id by (simp add: streamsOf_def)
  qed
qed


lemma closed_step: "sr_closed r \<Longrightarrow> sr_closed (sr_step r op)"
proof (cases op)
  case (DoRelease h)
  assume c: "sr_closed r"
  have "sr_closed (finishSessionLocked x s) = sr_closed x" for x s
    by (auto simp: finishSessionLocked_def split: option.splits)
  then have rel: "sr_closed (releaseLocked x h) = sr_closed x" for x
    by (auto simp: releaseLocked_def putSession_def Let_def split: option.splits prod.splits)
  obtain i t n where "h = (i, t, n)" by (cases h)
  then show ?thesis using DoRelease c rel by (simp add: runRelease_def)
next
  case DoShutdown
  assume c: "sr_closed r"
  have "sr_closed (drainAll x ss) = sr_closed x" for x ss by (induction ss arbitrary: x) simp_all
  then show ?thesis using DoShutdown by (simp add: Shutdown_def Let_def)
qed (use Ensure_closed Attach_closed in \<open>auto simp: Disconnect_def split: option.splits\<close>)

interpretation closed_runs: step_invariant sr_step sr_closed "\<lambda>_. True"
  by unfold_locales (rule closed_step)

lemma Shutdown_draining:
  assumes inv: "sr_inv r" and s: "map_of (sr_sessions r) sid = Some s"
  shows "draining_down sid (sn_sequence s) (streamsOf s) (snd (Shutdown r))"
proof -
  have ok: "sessions_ok r" using inv by (simp add: sr_inv_def sr_core_def)
  have gen: "draining_down sid (sn_sequence s) (streamsOf s) (drainAll x ss)"
    if "\<forall>y \<in> set ss. map_of (sr_sessions x) (sn_id y) = Some y" "distinct (map sn_id ss)" "s \<in> set ss" "sn_id s = sid"
    for x ss
    using that
  proof (induction ss arbitrary: x)
    case (Cons y ss)
    let ?x = "beginDrainLocked x y CauseClosed"
    note rest = beginDrain_others [OF Cons.prems(1,2), of CauseClosed]
    show ?case
    proof (cases "y = s")
      case True
      have "draining_down sid (sn_sequence s) (streamsOf s) ?x"
      proof (cases "sn_draining s")
        case d: True
        then show ?thesis using True Cons.prems by (auto simp: draining_down_def beginDrainLocked_def)
      next
        case False
        then show ?thesis using True Cons.prems(4) unfolding draining_down_def
          by (simp add: beginDrain_settle streamsOf_def)
      qed
      then show ?thesis using draining_down_drainAll [OF rest] Cons.prems(2) by simp
    next
      case False
      then show ?thesis using Cons.IH [OF rest] Cons.prems by simp
    qed
  qed simp
  have "s \<in> set (map snd (sr_sessions r))" "sn_id s = sid"
    using map_of_SomeD [OF s] sessions_okD(1) [OF ok s] by force+
  then have "draining_down sid (sn_sequence s) (streamsOf s) (drainAll (r \<lparr> sr_closed := True \<rparr>) (map snd (sr_sessions r)))"
    using stored_sessions(2,3) [OF ok] by (intro gen) simp_all
  then show ?thesis by (auto simp: Shutdown_def Let_def draining_down_def)
qed

text \<open>Shutting the registry down ends, and for good: once every attached stream has been released, in any
  order and interleaved with any other operations, every \<^verbatim>\<open>done\<close> channel that \<^verbatim>\<open>Shutdown\<close> waits for is closed, and
  after the shutdown no session can be created and no stream attached.\<close>

theorem shutdown_completes:
  assumes "r = foldl sr_step (NewSessionReg parentCancelled) before" and "Shutdown r = (waits, r1)"
    and "\<forall>h \<in> unreleased r. DoRelease h \<in> set after"
  shows "(\<forall>q \<in> set waits. CloseSession q \<in> set (sr_trace (foldl sr_step r1 after))) \<and>
    fst (Attach (foldl sr_step r1 after) sid tid) \<in> range Inl \<and> fst (Ensure (foldl sr_step r1 after) sid) \<in> range Inl"
proof -
  have inv: "sr_inv r" using session_run_inv assms(1) by simp
  have r1: "r1 = sr_step r DoShutdown" using assms(2) by simp
  have inv1: "sr_inv r1" using sr_step_inv [OF inv, of DoShutdown] r1 by simp
  let ?out = "foldl sr_step r1 after"
  have invo: "sr_inv ?out" using session_runs.run_inv [OF inv1] by (simp add: list_all_iff)
  have "CloseSession q \<in> set (sr_trace ?out)" if q: "q \<in> set waits" for q
  proof -
    have "waits = fst (Shutdown r)" using assms(2) by simp
    then obtain sid s where m: "(sid, s) \<in> set (sr_sessions r)" and qs: "q = sn_sequence s"
      using q by (auto simp: Shutdown_def Let_def)
    have ok: "sessions_ok r" using inv by (simp add: sr_inv_def sr_core_def)
    have s: "map_of (sr_sessions r) sid = Some s" using map_of_is_SomeI [OF sessions_okD(5) [OF ok] m] .
    have sub: "{sid} \<times> streamsOf s \<subseteq> unreleased r"
      using s inv by (auto simp: sr_inv_def sr_core_def streamsIn_def)
    have h: "{sid} \<times> streamsOf s \<subseteq> set (sr_handles r1)"
      using streams_have_handles [OF inv s] handles_step [of r DoShutdown] r1 by blast
    have "draining_down sid q (streamsOf s - \<Union> (released_by sid ` set after)) ?out"
      using draining_down_run [OF inv1 _ h] Shutdown_draining [OF inv s] assms(2) qs by simp
    moreover have "streamsOf s - \<Union> (released_by sid ` set after) = {}"
      using sub assms(3) by fastforce
    ultimately show ?thesis using draining_done [OF invo] by simp
  qed
  moreover have "sr_closed r1"
  proof -
    have "sr_closed (drainAll x ss) = sr_closed x" for x ss by (induction ss arbitrary: x) simp_all
    then show ?thesis using r1 by (simp add: Shutdown_def Let_def)
  qed
  then have "sr_closed ?out" using closed_runs.run_inv [of r1 after] by (simp add: list_all_iff)
  ultimately show ?thesis by (auto simp: Attach_def Ensure_def)
qed

section \<open>The order of cancellation\<close>

lemma compareSequence_key: "compareSequenceDescending l r \<le> 0 \<longleftrightarrow> - int l \<le> - int r"
  by (simp add: compareSequenceDescending_def)

lemma sorted_descending:
  "sorted_wrt (\<ge>) (SortFunc compareSequenceDescending ns)"
proof -
  have "sorted (map (\<lambda>n. - int n) (SortFunc compareSequenceDescending ns))"
    by (rule sorted_SortFunc) (rule compareSequence_key)
  then show ?thesis by (simp add: sorted_wrt_map sorted_wrt_iff_nth_less)
qed

lemma sorted_tasks_descending:
  "sorted_wrt (\<ge>) (map tn_sequence (SortFunc (\<lambda>l r. compareSequenceDescending (tn_sequence l) (tn_sequence r)) ts))"
proof -
  have "sorted (map (\<lambda>t. - int (tn_sequence t)) (SortFunc (\<lambda>l r. compareSequenceDescending (tn_sequence l) (tn_sequence r)) ts))"
    by (rule sorted_SortFunc) (rule compareSequence_key)
  then show ?thesis by (simp add: sorted_wrt_map sorted_wrt_iff_nth_less)
qed

text \<open>Disconnecting a session cancels every stream of the session, the youngest first, then every task, the
  youngest first, then the session itself, and closes its \<^verbatim>\<open>done\<close> channel at once exactly when it has no stream.\<close>

theorem disconnect_cancels_in_order:
  assumes "r = foldl sr_step (NewSessionReg parentCancelled) ops"
    and "map_of (sr_sessions r) sid = Some s" and "\<not> sn_draining s" and "Disconnect r sid = (Inr (Some q), r1)"
  shows "\<exists>streams tasks. sr_trace r1 = sr_trace r @ map (\<lambda>n. CancelStream n SessionDisconnected) streams @
      map (\<lambda>n. CancelTask n SessionDisconnected) tasks @ [CancelSession q SessionDisconnected] @
      (if streamsOf s = {} then [CloseSession q] else []) \<and>
    sorted_wrt (\<ge>) streams \<and> sorted_wrt (\<ge>) tasks \<and> snd ` streamsOf s \<subseteq> set streams \<and>
    set tasks = tn_sequence ` snd ` set (sn_tasks s)"
proof -
  have inv: "sr_inv r" using session_run_inv assms(1) by simp
  have wf: "wf_sn s" using inv assms(2) sessions_okD(3) by (auto simp: sr_inv_def sr_core_def)
  let ?streams = "SortFunc compareSequenceDescending (concat (map tn_streams (map snd (sn_tasks s))))"
  let ?tasks = "map tn_sequence (SortFunc (\<lambda>l r. compareSequenceDescending (tn_sequence l) (tn_sequence r)) (map snd (sn_tasks s)))"
  have out: "r1 = beginDrainLocked r s SessionDisconnected" "q = sn_sequence s"
    using assms(2,4) by (auto simp: Disconnect_def split: if_splits)
  have "sr_trace r1 = sr_trace r @ map (\<lambda>n. CancelStream n SessionDisconnected) ?streams @
      map (\<lambda>n. CancelTask n SessionDisconnected) ?tasks @ [CancelSession q SessionDisconnected] @
      (if streamsOf s = {} then [CloseSession q] else [])"
    unfolding out(1) beginDrain_settle [OF assms(3)]
    using streamsOf_empty [OF wf] by (simp add: drainEvents_def Let_def out(2) comp_def)
  moreover have "snd ` streamsOf s \<subseteq> set ?streams" by (force simp: streamsOf_def dest: map_of_SomeD)
  moreover have "set ?tasks = tn_sequence ` snd ` set (sn_tasks s)" by simp
  ultimately show ?thesis using sorted_descending sorted_tasks_descending by blast
qed

section \<open>A session with a stream\<close>

text \<open>A concrete registry with one session and one stream, at which the theorems are applied.\<close>

definition a_node :: sessionNode where
  "a_node = \<lparr> sn_id = ''s'', sn_sequence = 1, sn_draining = False,
     sn_tasks = [(''t'', \<lparr> tn_sequence = 2, tn_streams = [3] \<rparr>)] \<rparr>"

definition a_reg :: SessionReg where
  "a_reg = \<lparr> sr_rootErr = False, sr_closed = False, sr_sequence = 3, sr_sessions = [(''s'', a_node)],
     sr_handles = [(''s'', ''t'', 3)], sr_released = [], sr_trace = [] \<rparr>"

lemma a_run: "foldl sr_step (NewSessionReg False) [DoAttach ''s'' ''t''] = a_reg"
  by (simp add: Attach_def NewSessionReg_def validID_def text_eval ensureSessionLocked_def putSession_def a_reg_def
      a_node_def Let_def)

lemma a_disconnect: "\<exists>r1. Disconnect a_reg ''s'' = (Inr (Some 1), r1)"
  by (simp add: Disconnect_def validID_def text_eval a_reg_def a_node_def)

lemma a_stored: "map_of (sr_sessions a_reg) ''s'' = Some a_node"
  by (simp add: a_reg_def)

lemma a_streams: "streamsOf a_node = {(''t'', 3)}"
  by (auto simp: streamsOf_def a_node_def split: if_splits)

theorem registry_tracks_streams_witness: "streamsIn a_reg = unreleased a_reg"
  using registry_tracks_streams [OF a_run [symmetric]] by simp


theorem shutdown_completes_witness:
  "\<exists>r1. Shutdown a_reg = ([1], r1) \<and> CloseSession 1 \<in> set (sr_trace (foldl sr_step r1 [DoRelease (''s'', ''t'', 3)]))"
proof -
  have w: "fst (Shutdown a_reg) = [1]" by (simp add: Shutdown_def Let_def a_reg_def a_node_def)
  then obtain r1 where r1: "Shutdown a_reg = ([1], r1)" by (metis prod.collapse)
  have rel: "\<forall>h \<in> unreleased a_reg. DoRelease h \<in> set [DoRelease (''s'', ''t'', 3)]"
    by (auto simp: unreleased_def a_reg_def)
  have "\<forall>q \<in> set [1]. CloseSession q \<in> set (sr_trace (foldl sr_step r1 [DoRelease (''s'', ''t'', 3)]))"
    using shutdown_completes [OF a_run [symmetric] r1 rel, of "''s''" "''t''"] by (rule conjunct1)
  then show ?thesis using r1 by (intro exI [of _ r1]) (simp only: list.set_intros(1) simp_thms)
qed

theorem disconnect_cancels_in_order_witness:
  "\<exists>r1. Disconnect a_reg ''s'' = (Inr (Some 1), r1) \<and> CancelStream 3 SessionDisconnected \<in> set (sr_trace r1)"
proof -
  obtain r1 where r1: "Disconnect a_reg ''s'' = (Inr (Some 1), r1)" using a_disconnect by blast
  have "\<not> sn_draining a_node" by (simp add: a_node_def)
  then show ?thesis
    using disconnect_cancels_in_order [OF a_run [symmetric] a_stored _ r1] r1 by (auto simp: a_streams)
qed

end
