(* ===== verification/TaskStore.thy ===== *)
theory TaskStore
  imports GoText GoTime "HOL-Library.AList" "HOL-Library.List_Lexorder" "HOL-Library.Char_ord"
begin

text \<open>
  Remote tasks and cluster sessions in the Control Plane's database: the task state machine
  (\<^verbatim>\<open>internal/protocol/remotetask/state.go\<close>), the task repository (\<^verbatim>\<open>internal/controlplane/storage/tasks.go\<close>,
  \<^verbatim>\<open>task_codec.go\<close>, \<^verbatim>\<open>task_state.go\<close>, \<^verbatim>\<open>task_queries.go\<close>) and the session repository's guarded updates
  (\<^verbatim>\<open>session_state.go\<close>).

  A table is an association list from the primary key to the row. Each SQL statement of the source is one
  atomic step on the tables; \<open>db\<close> tells how the driver answers: the statement took effect, it violated a
  constraint, or it failed, and the last two leave the tables as they were. Times are stored as fixed-width UTC
  text with nanoseconds (\<^verbatim>\<open>formatTime\<close>), which has the equality and the order of the times themselves.
  \<open>se_uuidOk\<close> and \<open>se_jsonOk\<close> tell whether \<^verbatim>\<open>uuid.Parse\<close> and \<^verbatim>\<open>json.Valid\<close> accept a text; \<open>se_specHash\<close>
  decodes and hashes a network specification, giving its canonical JSON and hash.
\<close>

section \<open>Task states\<close>

datatype task_state =
  Pending | Starting | Running | Recovering | Failed | Stopping | Stopped | Deleted | OtherState string

definition state_Valid :: "task_state \<Rightarrow> bool" where
  "state_Valid state = (case state of OtherState _ \<Rightarrow> False | _ \<Rightarrow> True)"

definition state_Terminal :: "task_state \<Rightarrow> bool" where
  "state_Terminal state \<longleftrightarrow> state = Failed \<or> state = Deleted"

definition state_Owned :: "task_state \<Rightarrow> bool" where
  "state_Owned state \<longleftrightarrow> state \<in> {Starting, Running, Recovering, Stopping}"

fun transitionAllowed :: "task_state \<Rightarrow> task_state \<Rightarrow> bool" where
  "transitionAllowed Pending n = (n \<in> {Starting, Running, Stopping, Stopped, Failed, Deleted})"
| "transitionAllowed Starting n = (n \<in> {Running, Stopping, Stopped, Failed, Recovering, Deleted})"
| "transitionAllowed Running n = (n \<in> {Stopping, Stopped, Failed, Recovering, Deleted})"
| "transitionAllowed Stopping n = (n \<in> {Stopped, Failed, Recovering, Deleted})"
| "transitionAllowed Recovering n = (n \<in> {Stopping, Stopped, Failed, Deleted})"
| "transitionAllowed Stopped n = (n \<in> {Pending, Deleted})"
| "transitionAllowed Failed n = (n \<in> {Stopped, Deleted})"
| "transitionAllowed Deleted n = False"
| "transitionAllowed (OtherState _) n = False"

datatype store_error = ErrNotFoundS | ErrConflictS | StoreError string

definition ValidateTransition :: "task_state \<Rightarrow> task_state \<Rightarrow> store_error + unit" where
  "ValidateTransition current next =
     (if \<not> state_Valid current \<or> \<not> state_Valid next
      then Inl (StoreError ''remote Task transition contains an invalid state'')
      else if current = next then
        (if state_Terminal current \<or> current = Pending \<or> current = Stopped
         then Inl (StoreError ''remote Task state cannot heartbeat'') else Inr ())
      else if \<not> transitionAllowed current next
      then Inl (StoreError ''remote Task transition is not allowed'')
      else Inr ())"

section \<open>Tables\<close>

datatype db_answer = DbOk | DbConstraint | DbFailed

record store_env =
  se_uuidOk :: "string \<Rightarrow> bool"
  se_jsonOk :: "string \<Rightarrow> bool"
  se_specHash :: "string \<Rightarrow> (string \<times> string) option"

record Task =
  ta_ID :: string
  ta_IdentityID :: string
  ta_SessionID :: string
  ta_Type :: string
  ta_State :: task_state
  ta_Spec :: string
  ta_Result :: string
  ta_IdempotencyKey :: string
  ta_CreatedAt :: time
  ta_UpdatedAt :: time
  ta_ExpiresAt :: "time option"

record ClusterSession =
  se_ID :: string
  se_IdentityID :: string
  se_DeviceID :: string
  se_ClusterID :: string
  se_Namespace :: string
  se_State :: string
  se_Generation :: "64 word"
  se_NetworkSpec :: string
  se_NetworkSpecHash :: string
  se_CreatedAt :: time
  se_UpdatedAt :: time
  se_LastHeartbeatAt :: time
  se_ExpiresAt :: time

type_synonym task_table = "(string \<times> Task) list"
type_synonym session_table = "(string \<times> ClusterSession) list"

text \<open>The empty text stands for \<^verbatim>\<open>NULL\<close> and an absent document.\<close>

definition normalizeJSON :: "store_env \<Rightarrow> string \<Rightarrow> bool \<Rightarrow> string \<Rightarrow> store_error + string" where
  "normalizeJSON env doc required field =
     (if length doc = 0 then
        (if required then Inl (StoreError (field @ '' is required'')) else Inr '''')
      else if \<not> se_jsonOk env doc then Inl (StoreError (field @ '' must contain valid JSON''))
      else Inr doc)"

definition validateUUID :: "store_env \<Rightarrow> string \<Rightarrow> string \<Rightarrow> store_error + unit" where
  "validateUUID env x field = checkE (se_uuidOk env x) (StoreError (field @ '' must be a UUID''))"

definition mapWriteError :: "db_answer \<Rightarrow> store_error" where
  "mapWriteError db = (case db of DbConstraint \<Rightarrow> ErrConflictS | _ \<Rightarrow> StoreError ''storage write failed'')"

section \<open>Tasks\<close>

definition normalizeTask :: "store_env \<Rightarrow> Task \<Rightarrow> store_error + Task" where
  "normalizeTask env task =
     bindE (validateUUID env (ta_ID task) ''task ID'') (\<lambda>_.
     bindE (validateUUID env (ta_IdentityID task) ''identity ID'') (\<lambda>_.
     bindE (validateUUID env (ta_SessionID task) ''session ID'') (\<lambda>_.
       let taskType = TrimSpace (ta_Type task); key = TrimSpace (ta_IdempotencyKey task) in
       if taskType = '''' \<or> \<not> state_Valid (ta_State task) \<or> key = ''''
       then Inl (StoreError ''task type, state and idempotency key are required'')
       else bindE (normalizeJSON env (ta_Spec task) True ''task spec'') (\<lambda>spec.
            bindE (normalizeJSON env (ta_Result task) False ''task result'') (\<lambda>result.
              if IsZero (ta_CreatedAt task) then Inl (StoreError ''task creation time is required'')
              else Inr (task \<lparr> ta_Type := taskType, ta_IdempotencyKey := key, ta_Spec := spec,
                          ta_Result := result, ta_UpdatedAt :=
                            (if IsZero (ta_UpdatedAt task) then ta_CreatedAt task else ta_UpdatedAt task) \<rparr>))))))"

text \<open>The insertion violates a constraint if the primary key or the pair of identity and idempotency key is
  taken, or for a reason that the driver reports.\<close>

definition Create :: "store_env \<Rightarrow> db_answer \<Rightarrow> task_table \<Rightarrow> Task \<Rightarrow> (store_error + unit) \<times> task_table" where
  "Create env db tasks task =
     (case normalizeTask env task of
        Inl e \<Rightarrow> (Inl e, tasks)
      | Inr row \<Rightarrow>
          if db \<noteq> DbOk then (Inl (mapWriteError db), tasks)
          else if map_of tasks (ta_ID row) \<noteq> None \<or>
             list_ex (\<lambda>(_, t). ta_IdentityID t = ta_IdentityID row \<and> ta_IdempotencyKey t = ta_IdempotencyKey row) tasks
          then (Inl (mapWriteError DbConstraint), tasks)
          else (Inr (), AList.update (ta_ID row) row tasks))"

definition GetByID :: "store_env \<Rightarrow> db_answer \<Rightarrow> task_table \<Rightarrow> string \<Rightarrow> store_error + Task" where
  "GetByID env db tasks taskID =
     bindE (validateUUID env taskID ''task ID'') (\<lambda>_.
       if db \<noteq> DbOk then Inl (StoreError ''read task'')
       else case map_of tasks taskID of None \<Rightarrow> Inl ErrNotFoundS | Some task \<Rightarrow> Inr task)"

text \<open>The answer after an update that matched no row; \<open>db2\<close> is the driver's answer to the second statement.\<close>

definition notUpdated :: "store_env \<Rightarrow> db_answer \<Rightarrow> task_table \<Rightarrow> string \<Rightarrow> store_error" where
  "notUpdated env db2 tasks taskID =
     (if GetByID env db2 tasks taskID = Inl ErrNotFoundS then ErrNotFoundS else ErrConflictS)"

definition setState :: "task_state \<Rightarrow> string \<Rightarrow> time \<Rightarrow> Task \<Rightarrow> Task" where
  "setState next result updatedAt task =
     task \<lparr> ta_State := next, ta_Result := result, ta_UpdatedAt := updatedAt \<rparr>"

definition UpdateState ::
  "store_env \<Rightarrow> db_answer \<Rightarrow> db_answer \<Rightarrow> task_table \<Rightarrow> string \<Rightarrow> task_state \<Rightarrow> task_state \<Rightarrow> string \<Rightarrow> time
     \<Rightarrow> (store_error + unit) \<times> task_table" where
  "UpdateState env db db2 tasks taskID expected next result updatedAt =
     (case bindE (validateUUID env taskID ''task ID'') (\<lambda>_.
           bindE (ValidateTransition expected next) (\<lambda>_.
             if IsZero updatedAt
             then Inl (StoreError ''expected state, next state and update time are required'')
             else normalizeJSON env result False ''task result'')) of
        Inl e \<Rightarrow> (Inl e, tasks)
      | Inr result' \<Rightarrow>
          if db \<noteq> DbOk then (Inl (mapWriteError db), tasks)
          else (case map_of tasks taskID of
                  Some task \<Rightarrow>
                    if ta_State task = expected
                    then (Inr (), AList.update taskID (setState next result' updatedAt task) tasks)
                    else (Inl (notUpdated env db2 tasks taskID), tasks)
                | None \<Rightarrow> (Inl (notUpdated env db2 tasks taskID), tasks)))"

definition ClaimStale ::
  "store_env \<Rightarrow> db_answer \<Rightarrow> db_answer \<Rightarrow> task_table \<Rightarrow> string \<Rightarrow> task_state \<Rightarrow> time \<Rightarrow> task_state \<Rightarrow> string \<Rightarrow> time
     \<Rightarrow> (store_error + unit) \<times> task_table" where
  "ClaimStale env db db2 tasks taskID expected observedUpdatedAt next result updatedAt =
     (case bindE (validateUUID env taskID ''task ID'') (\<lambda>_.
           bindE (ValidateTransition expected next) (\<lambda>_.
             if IsZero observedUpdatedAt \<or> IsZero updatedAt
             then Inl (StoreError ''expected state, observed time, next state and update time are required'')
             else normalizeJSON env result False ''task result'')) of
        Inl e \<Rightarrow> (Inl e, tasks)
      | Inr result' \<Rightarrow>
          if db \<noteq> DbOk then (Inl (mapWriteError db), tasks)
          else (case map_of tasks taskID of
                  Some task \<Rightarrow>
                    if ta_State task = expected \<and> ta_UpdatedAt task = observedUpdatedAt
                    then (Inr (), AList.update taskID (setState next result' updatedAt task) tasks)
                    else (Inl (notUpdated env db2 tasks taskID), tasks)
                | None \<Rightarrow> (Inl (notUpdated env db2 tasks taskID), tasks)))"

definition compareBy :: "('a \<Rightarrow> 'k::linorder) \<Rightarrow> 'a \<Rightarrow> 'a \<Rightarrow> int" where
  "compareBy key left right = (if key left < key right then -1 else if key left > key right then 1 else 0)"

text \<open>\<^verbatim>\<open>ORDER BY updated_at DESC, id ASC\<close> and \<^verbatim>\<open>ORDER BY updated_at ASC, id ASC\<close>.\<close>

definition recentFirst :: "Task \<Rightarrow> Task \<Rightarrow> int" where
  "recentFirst left right =
     (if ta_UpdatedAt left > ta_UpdatedAt right then -1
      else if ta_UpdatedAt left < ta_UpdatedAt right then 1
      else compareBy ta_ID left right)"

definition oldestFirst :: "Task \<Rightarrow> Task \<Rightarrow> int" where
  "oldestFirst left right =
     (if ta_UpdatedAt left < ta_UpdatedAt right then -1
      else if ta_UpdatedAt left > ta_UpdatedAt right then 1
      else compareBy ta_ID left right)"

definition ListBySession ::
  "store_env \<Rightarrow> db_answer \<Rightarrow> task_table \<Rightarrow> string \<Rightarrow> int \<Rightarrow> store_error + Task list" where
  "ListBySession env db tasks sessionID limit =
     bindE (validateUUID env sessionID ''session ID'') (\<lambda>_.
       if limit \<le> 0 \<or> limit > 1000 then Inl (StoreError ''task list limit must be between 1 and 1000'')
       else if db \<noteq> DbOk then Inl (StoreError ''list session tasks'')
       else Inr (take (nat limit) (SortFunc recentFirst
              (filter (\<lambda>task. ta_SessionID task = sessionID) (map snd tasks)))))"

definition ListStaleByTypeStates ::
  "db_answer \<Rightarrow> task_table \<Rightarrow> string \<Rightarrow> task_state list \<Rightarrow> time \<Rightarrow> int \<Rightarrow> store_error + Task list" where
  "ListStaleByTypeStates db tasks taskType states boundary limit =
     (let taskType = TrimSpace taskType in
      if taskType = '''' \<or> length states = 0 \<or> length states > 16 \<or> IsZero boundary
      then Inl (StoreError ''task type, states and stale boundary are required'')
      else if limit \<le> 0 \<or> limit > 1000
      then Inl (StoreError ''task list limit must be between 1 and 1000'')
      else if \<not> list_all state_Valid states then Inl (StoreError ''task states cannot be empty'')
      else if db \<noteq> DbOk then Inl (StoreError ''list stale tasks'')
      else Inr (take (nat limit) (SortFunc oldestFirst
             (filter (\<lambda>task. ta_Type task = taskType \<and> ta_State task \<in> set states \<and> ta_UpdatedAt task < boundary)
                (map snd tasks)))))"

section \<open>Sessions\<close>

definition statusActive :: string where "statusActive = ''active''"

text \<open>\<^verbatim>\<open>math.MaxInt64\<close> as an unsigned number.\<close>

definition generationOk :: "64 word \<Rightarrow> bool" where
  "generationOk generation \<longleftrightarrow> \<not> (generation = 0 \<or> generation \<ge> 9223372036854775807)"

definition sessionNotUpdated :: "db_answer \<Rightarrow> session_table \<Rightarrow> string \<Rightarrow> store_error" where
  "sessionNotUpdated db2 sessions sessionID =
     (if db2 = DbOk \<and> map_of sessions sessionID = None then ErrNotFoundS else ErrConflictS)"

definition SessionHeartbeat ::
  "store_env \<Rightarrow> db_answer \<Rightarrow> db_answer \<Rightarrow> session_table \<Rightarrow> string \<Rightarrow> 64 word \<Rightarrow> string \<Rightarrow> string \<Rightarrow> time \<Rightarrow> time
     \<Rightarrow> (store_error + unit) \<times> session_table" where
  "SessionHeartbeat env db db2 sessions sessionID generation networkSpec networkSpecHash updatedAt expiresAt =
     (case bindE (validateUUID env sessionID ''session ID'') (\<lambda>_.
             if \<not> generationOk generation \<or> IsZero updatedAt \<or> \<not> expiresAt > updatedAt
             then Inl (StoreError ''session generation, heartbeat time and future expiry are required'')
             else case se_specHash env networkSpec of
                    None \<Rightarrow> Inl (StoreError ''session heartbeat NetworkSpec is invalid'')
                  | Some (canonical, hash) \<Rightarrow>
                      if hash \<noteq> networkSpecHash
                      then Inl (StoreError ''session heartbeat NetworkSpec hash is invalid'')
                      else Inr (canonical, hash)) of
        Inl e \<Rightarrow> (Inl e, sessions)
      | Inr (canonical, hash) \<Rightarrow>
          if db \<noteq> DbOk then (Inl (mapWriteError db), sessions)
          else (case map_of sessions sessionID of
                  Some row \<Rightarrow>
                    if se_Generation row = generation \<and> se_State row = statusActive
                    then (Inr (), AList.update sessionID
                           (row \<lparr> se_Generation := se_Generation row + 1, se_UpdatedAt := updatedAt,
                              se_LastHeartbeatAt := updatedAt, se_ExpiresAt := expiresAt,
                              se_NetworkSpec := canonical, se_NetworkSpecHash := hash \<rparr>) sessions)
                    else (Inl (sessionNotUpdated db2 sessions sessionID), sessions)
                | None \<Rightarrow> (Inl (sessionNotUpdated db2 sessions sessionID), sessions)))"

definition SessionUpdateState ::
  "store_env \<Rightarrow> db_answer \<Rightarrow> db_answer \<Rightarrow> session_table \<Rightarrow> string \<Rightarrow> 64 word \<Rightarrow> string \<Rightarrow> time
     \<Rightarrow> (store_error + unit) \<times> session_table" where
  "SessionUpdateState env db db2 sessions sessionID generation state updatedAt =
     (case bindE (validateUUID env sessionID ''session ID'') (\<lambda>_.
             if TrimSpace state = '''' \<or> \<not> generationOk generation \<or> IsZero updatedAt
             then Inl (StoreError ''session state, current generation and update time are required'')
             else Inr (TrimSpace state)) of
        Inl e \<Rightarrow> (Inl e, sessions)
      | Inr state' \<Rightarrow>
          if db \<noteq> DbOk then (Inl (mapWriteError db), sessions)
          else (case map_of sessions sessionID of
                  Some row \<Rightarrow>
                    if se_Generation row = generation
                    then (Inr (), AList.update sessionID
                           (row \<lparr> se_State := state', se_Generation := se_Generation row + 1,
                              se_UpdatedAt := updatedAt \<rparr>) sessions)
                    else (Inl (sessionNotUpdated db2 sessions sessionID), sessions)
                | None \<Rightarrow> (Inl (sessionNotUpdated db2 sessions sessionID), sessions)))"

section \<open>Histories of tasks\<close>

datatype task_op =
    OpCreate db_answer Task
  | OpUpdate db_answer db_answer string task_state task_state string time
  | OpClaim db_answer db_answer string task_state time task_state string time

fun task_step :: "store_env \<Rightarrow> task_table \<Rightarrow> task_op \<Rightarrow> task_table" where
  "task_step env tasks (OpCreate db task) = snd (Create env db tasks task)"
| "task_step env tasks (OpUpdate db db2 taskID expected next result t) =
     snd (UpdateState env db db2 tasks taskID expected next result t)"
| "task_step env tasks (OpClaim db db2 taskID expected observed next result t) =
     snd (ClaimStale env db db2 tasks taskID expected observed next result t)"

text \<open>What an update may change of a task, and how.\<close>

definition advances :: "Task \<Rightarrow> Task \<Rightarrow> bool" where
  "advances t t' \<longleftrightarrow> ta_ID t' = ta_ID t \<and> ta_IdentityID t' = ta_IdentityID t \<and> ta_SessionID t' = ta_SessionID t \<and>
     ta_Type t' = ta_Type t \<and> ta_Spec t' = ta_Spec t \<and> ta_IdempotencyKey t' = ta_IdempotencyKey t \<and>
     ta_CreatedAt t' = ta_CreatedAt t \<and> ta_ExpiresAt t' = ta_ExpiresAt t \<and>
     transitionAllowed\<^sup>*\<^sup>* (ta_State t) (ta_State t') \<and> (ta_State t = Deleted \<longrightarrow> t' = t)"

lemma advances_refl: "advances t t"
  by (simp add: advances_def)

lemma advances_trans: "advances a b \<Longrightarrow> advances b c \<Longrightarrow> advances a c"
  unfolding advances_def by auto

lemma ValidateTransition_ok:
  "ValidateTransition a b = Inr () \<longleftrightarrow>
     a = b \<and> a \<in> {Starting, Running, Recovering, Stopping} \<or> a \<noteq> b \<and> transitionAllowed a b"
proof -
  have "transitionAllowed a b \<Longrightarrow> state_Valid a \<and> state_Valid b"
    by (cases a) (auto simp: state_Valid_def)
  then show ?thesis
    by (cases a) (auto simp: ValidateTransition_def state_Valid_def state_Terminal_def)
qed

lemma advances_setState:
  assumes "ValidateTransition (ta_State t) next = Inr ()"
  shows "advances t (setState next result updatedAt t)"
proof -
  have "transitionAllowed\<^sup>*\<^sup>* (ta_State t) next" "ta_State t \<noteq> Deleted"
    using assms unfolding ValidateTransition_ok by auto
  then show ?thesis by (simp add: advances_def setState_def)
qed

text \<open>An update succeeds exactly when the stored state is the expected one and the transition is allowed.\<close>

lemma UpdateState_cases:
  obtains (updated) t result' where "map_of tasks taskID = Some t" "ta_State t = expected"
      "ValidateTransition expected next = Inr ()" "se_uuidOk env taskID"
      "normalizeJSON env result False ''task result'' = Inr result'"
      "UpdateState env db db2 tasks taskID expected next result u =
         (Inr (), AList.update taskID (setState next result' u t) tasks)"
    | (refused) e where "UpdateState env db db2 tasks taskID expected next result u = (Inl e, tasks)"
proof (cases "UpdateState env db db2 tasks taskID expected next result u")
  case (Pair res tasks')
  show thesis
  proof (cases res)
    case (Inl e)
    then have "tasks' = tasks" using Pair
      by (auto simp: UpdateState_def split: sum.splits option.splits if_splits)
    then show thesis using refused Pair Inl by simp
  next
    case (Inr x)
    then show thesis using updated Pair
      by (auto simp: UpdateState_def bindE_eq_Inr checkE_eq validateUUID_def split: sum.splits option.splits if_splits)
  qed
qed

lemma ClaimStale_cases:
  obtains (claimed) t result' where "map_of tasks taskID = Some t" "ta_State t = expected" "ta_UpdatedAt t = observed"
      "ValidateTransition expected next = Inr ()"
      "ClaimStale env db db2 tasks taskID expected observed next result u =
         (Inr (), AList.update taskID (setState next result' u t) tasks)"
    | (refused) e where "ClaimStale env db db2 tasks taskID expected observed next result u = (Inl e, tasks)"
proof (cases "ClaimStale env db db2 tasks taskID expected observed next result u")
  case (Pair res tasks')
  show thesis
  proof (cases res)
    case (Inl e)
    then have "tasks' = tasks" using Pair
      by (auto simp: ClaimStale_def split: sum.splits option.splits if_splits)
    then show thesis using refused Pair Inl by simp
  next
    case (Inr x)
    then show thesis using claimed Pair
      by (auto simp: ClaimStale_def bindE_eq_Inr split: sum.splits option.splits if_splits)
  qed
qed

lemma Create_cases:
  obtains (created) row where "map_of tasks (ta_ID row) = None" "normalizeTask env task = Inr row"
      "\<not> list_ex (\<lambda>(_, t). ta_IdentityID t = ta_IdentityID row \<and> ta_IdempotencyKey t = ta_IdempotencyKey row) tasks"
      "Create env db tasks task = (Inr (), AList.update (ta_ID row) row tasks)"
    | (refused) e where "Create env db tasks task = (Inl e, tasks)"
proof (cases "normalizeTask env task")
  case (Inl e)
  then show thesis using refused by (simp add: Create_def)
next
  case (Inr row)
  let ?taken = "map_of tasks (ta_ID row) \<noteq> None \<or>
    list_ex (\<lambda>(_, t). ta_IdentityID t = ta_IdentityID row \<and> ta_IdempotencyKey t = ta_IdempotencyKey row) tasks"
  show thesis
  proof (cases "db = DbOk \<and> \<not> ?taken")
    case True
    then show thesis using created [OF _ Inr] Inr by (simp add: Create_def)
  next
    case False
    then have "\<exists>e. Create env db tasks task = (Inl e, tasks)" using Inr by (auto simp: Create_def)
    then show thesis using refused by blast
  qed
qed

lemma task_step_advances:
  assumes "map_of tasks taskID = Some t"
  shows "\<exists>t'. map_of (task_step env tasks op) taskID = Some t' \<and> advances t t'"
proof (cases op)
  case (OpCreate db task)
  show ?thesis
    by (rule Create_cases [of tasks env task db]) (use assms OpCreate in \<open>auto simp: AList.update_conv' advances_refl\<close>)
next
  case (OpUpdate db db2 i expected nxt result u)
  show ?thesis
    by (rule UpdateState_cases [of tasks i expected nxt env result db db2 u])
      (use assms OpUpdate in \<open>auto simp: AList.update_conv' advances_refl advances_setState\<close>)
next
  case (OpClaim db db2 i expected observed nxt result u)
  show ?thesis
    by (rule ClaimStale_cases [of tasks i expected observed nxt env db db2 result u])
      (use assms OpClaim in \<open>auto simp: AList.update_conv' advances_refl advances_setState\<close>)
qed

interpretation task_history: step_invariant "task_step env"
    "\<lambda>tasks. \<exists>t'. map_of tasks taskID = Some t' \<and> advances t t'" "\<lambda>_. True" for env taskID t
  by unfold_locales (metis task_step_advances advances_trans)



text \<open>Idempotency keys: no two tasks of an identity have the same key.\<close>

definition keys_unique :: "task_table \<Rightarrow> bool" where
  "keys_unique tasks \<longleftrightarrow>
     (\<forall>i j t u. map_of tasks i = Some t \<and> map_of tasks j = Some u \<and> ta_IdentityID t = ta_IdentityID u \<and>
        ta_IdempotencyKey t = ta_IdempotencyKey u \<longrightarrow> i = j)"

lemma keys_unique_setState:
  assumes "keys_unique tasks" and "map_of tasks i = Some t"
  shows "keys_unique (AList.update i (setState next result u t) tasks)"
proof -
  have "\<exists>y. map_of tasks j = Some y \<and> ta_IdentityID y = ta_IdentityID x \<and> ta_IdempotencyKey y = ta_IdempotencyKey x"
    if "map_of (AList.update i (setState next result u t) tasks) j = Some x" for j x
    using that assms(2) by (auto simp: AList.update_conv' setState_def split: if_splits)
  then show ?thesis using assms(1) unfolding keys_unique_def by metis
qed

lemma keys_unique_create:
  assumes "keys_unique tasks"
    and "\<not> list_ex (\<lambda>(_, t). ta_IdentityID t = ta_IdentityID row \<and> ta_IdempotencyKey t = ta_IdempotencyKey row) tasks"
  shows "keys_unique (AList.update i row tasks)"
proof -
  have new: "\<not> (ta_IdentityID t = ta_IdentityID row \<and> ta_IdempotencyKey t = ta_IdempotencyKey row)"
    if "map_of tasks j = Some t" for j t
    using assms(2) map_of_SomeD [OF that] by (auto simp: list_ex_iff)
  show ?thesis
    unfolding keys_unique_def AList.update_conv'
    using assms(1) new unfolding keys_unique_def by (metis fun_upd_other fun_upd_same option.inject)
qed

lemma keys_unique_step: "keys_unique tasks \<Longrightarrow> keys_unique (task_step env tasks op)"
proof (cases op)
  case (OpCreate db task)
  assume u: "keys_unique tasks"
  show ?thesis
    by (rule Create_cases [of tasks env task db]) (use u OpCreate keys_unique_create in auto)
next
  case (OpUpdate db db2 i expected nxt result v)
  assume u: "keys_unique tasks"
  show ?thesis
    by (rule UpdateState_cases [of tasks i expected nxt env result db db2 v]) (use u OpUpdate keys_unique_setState in auto)
next
  case (OpClaim db db2 i expected observed nxt result v)
  assume u: "keys_unique tasks"
  show ?thesis
    by (rule ClaimStale_cases [of tasks i expected observed nxt env db db2 result v])
      (use u OpClaim keys_unique_setState in auto)
qed

interpretation task_keys: step_invariant "task_step env" keys_unique "\<lambda>_. True" for env
  by unfold_locales (rule keys_unique_step)

section \<open>Generations of sessions\<close>

datatype session_op =
    OpHeartbeat db_answer db_answer string "64 word" string string time time
  | OpSessionState db_answer db_answer string "64 word" string time

fun session_step :: "store_env \<Rightarrow> session_table \<Rightarrow> session_op \<Rightarrow> session_table" where
  "session_step env sessions (OpHeartbeat db db2 i g spec hash u e) =
     snd (SessionHeartbeat env db db2 sessions i g spec hash u e)"
| "session_step env sessions (OpSessionState db db2 i g state u) =
     snd (SessionUpdateState env db db2 sessions i g state u)"

lemma generation_succ: "generationOk g \<Longrightarrow> g < g + 1"
  by (auto simp: generationOk_def word_less_nat_alt unat_word_ariths(1) word_le_nat_alt not_le)

lemma SessionHeartbeat_cases:
  obtains (updated) row canonical where "map_of sessions i = Some row" "se_Generation row = g"
      "se_State row = statusActive" "generationOk g"
      "SessionHeartbeat env db db2 sessions i g spec hash u e = (Inr (), AList.update i
         (row \<lparr> se_Generation := se_Generation row + 1, se_UpdatedAt := u, se_LastHeartbeatAt := u,
            se_ExpiresAt := e, se_NetworkSpec := canonical, se_NetworkSpecHash := hash \<rparr>) sessions)"
    | (refused) err where "SessionHeartbeat env db db2 sessions i g spec hash u e = (Inl err, sessions)"
proof (cases "SessionHeartbeat env db db2 sessions i g spec hash u e")
  case (Pair res sessions')
  show thesis
  proof (cases res)
    case (Inl err)
    then have "sessions' = sessions" using Pair
      by (auto simp: SessionHeartbeat_def split: sum.splits option.splits if_splits)
    then show thesis using refused Pair Inl by simp
  next
    case (Inr x)
    then show thesis using updated Pair
      by (auto simp: SessionHeartbeat_def bindE_eq_Inr split: sum.splits option.splits if_splits)
  qed
qed

lemma SessionUpdateState_cases:
  obtains (updated) row where "map_of sessions i = Some row" "se_Generation row = g" "generationOk g"
      "SessionUpdateState env db db2 sessions i g state u = (Inr (), AList.update i
         (row \<lparr> se_State := TrimSpace state, se_Generation := se_Generation row + 1, se_UpdatedAt := u \<rparr>) sessions)"
    | (refused) err where "SessionUpdateState env db db2 sessions i g state u = (Inl err, sessions)"
proof (cases "SessionUpdateState env db db2 sessions i g state u")
  case (Pair res sessions')
  show thesis
  proof (cases res)
    case (Inl err)
    then have "sessions' = sessions" using Pair
      by (auto simp: SessionUpdateState_def split: sum.splits option.splits if_splits)
    then show thesis using refused Pair Inl by simp
  next
    case (Inr x)
    then show thesis using updated Pair
      by (auto simp: SessionUpdateState_def bindE_eq_Inr split: sum.splits option.splits if_splits)
  qed
qed

definition past :: "string \<Rightarrow> 64 word \<Rightarrow> session_table \<Rightarrow> bool" where
  "past i g sessions \<longleftrightarrow> (\<exists>row. map_of sessions i = Some row \<and> g < se_Generation row)"

lemma past_update: "past i g sessions \<Longrightarrow> map_of sessions j = Some row \<Longrightarrow> se_Generation row' = se_Generation row + 1 \<Longrightarrow>
    generationOk (se_Generation row) \<Longrightarrow> past i g (AList.update j row' sessions)"
  using generation_succ [of "se_Generation row"] by (auto simp: past_def AList.update_conv')

lemma past_step:
  assumes "past i g sessions"
  shows "past i g (session_step env sessions op)"
proof (cases op)
  case (OpHeartbeat db db2 j h spec hash u e)
  show ?thesis
    by (rule SessionHeartbeat_cases [of sessions j h env db db2 spec hash u e])
      (use assms OpHeartbeat past_update in auto)
next
  case (OpSessionState db db2 j h state u)
  show ?thesis
    by (rule SessionUpdateState_cases [of sessions j h env db db2 state u])
      (use assms OpSessionState past_update in auto)
qed

interpretation generations: step_invariant "session_step env" "past i g" "\<lambda>_. True" for env i g
  by unfold_locales (rule past_step)

text \<open>C35. A generation of a session is used up by one writer: after a successful heartbeat or state change at some
  generation, no later heartbeat and no later state change of that session at the same generation succeeds, in
  whatever order other writers act in between.\<close>

theorem generation_used_once:
  assumes "SessionHeartbeat env db db2 sessions i g spec hash u e = (Inr (), sessions1) \<or>
      SessionUpdateState env db db2 sessions i g state u = (Inr (), sessions1)"
    and "later = foldl (session_step env) sessions1 ops"
  shows "fst (SessionHeartbeat env db' db2' later i g spec' hash' u' e') \<in> range Inl \<and>
    fst (SessionUpdateState env db' db2' later i g state' u') \<in> range Inl"
proof -
  have "past i g sessions1"
    using assms(1)
  proof
    assume h: "SessionHeartbeat env db db2 sessions i g spec hash u e = (Inr (), sessions1)"
    show ?thesis
      by (rule SessionHeartbeat_cases [of sessions i g env db db2 spec hash u e])
        (use h generation_succ in \<open>auto simp: past_def AList.update_conv'\<close>)
  next
    assume h: "SessionUpdateState env db db2 sessions i g state u = (Inr (), sessions1)"
    show ?thesis
      by (rule SessionUpdateState_cases [of sessions i g env db db2 state u])
        (use h generation_succ in \<open>auto simp: past_def AList.update_conv'\<close>)
  qed
  then have p: "past i g later" using generations.run_inv [of i g sessions1 ops env] assms(2) by (simp add: list_all_iff)
  have "fst (SessionHeartbeat env db' db2' later i g spec' hash' u' e') \<in> range Inl"
    by (rule SessionHeartbeat_cases [of later i g env db' db2' spec' hash' u' e']) (use p in \<open>auto simp: past_def\<close>)
  moreover have "fst (SessionUpdateState env db' db2' later i g state' u') \<in> range Inl"
    by (rule SessionUpdateState_cases [of later i g env db' db2' state' u']) (use p in \<open>auto simp: past_def\<close>)
  ultimately show ?thesis by blast
qed

theorem generation_used_once_witness:
  "fst (SessionUpdateState \<lparr> se_uuidOk = (\<lambda>_. True), se_jsonOk = (\<lambda>_. True), se_specHash = (\<lambda>_. None) \<rparr> DbOk DbOk
     [(''s'', \<lparr> se_ID = ''s'', se_IdentityID = ''i'', se_DeviceID = ''d'', se_ClusterID = ''c'', se_Namespace = ''n'',
        se_State = ''closed'', se_Generation = 5, se_NetworkSpec = ''{}'', se_NetworkSpecHash = '''', se_CreatedAt = 1,
        se_UpdatedAt = 7, se_LastHeartbeatAt = 1, se_ExpiresAt = 9 \<rparr>)] ''s'' 4 ''closed'' 8) \<in> range Inl"
proof -
  let ?e = "\<lparr> se_uuidOk = (\<lambda>_. True), se_jsonOk = (\<lambda>_. True), se_specHash = (\<lambda>_. None) \<rparr>"
  let ?row = "\<lambda>g s u. \<lparr> se_ID = ''s'', se_IdentityID = ''i'', se_DeviceID = ''d'', se_ClusterID = ''c'', se_Namespace = ''n'',
        se_State = s, se_Generation = g, se_NetworkSpec = ''{}'', se_NetworkSpecHash = '''', se_CreatedAt = 1,
        se_UpdatedAt = u, se_LastHeartbeatAt = 1, se_ExpiresAt = 9 \<rparr>"
  have "SessionUpdateState ?e DbOk DbOk [(''s'', ?row 4 ''active'' 1)] ''s'' 4 ''closed'' 7
      = (Inr (), [(''s'', ?row 5 ''closed'' 7)])"
    by (simp add: SessionUpdateState_def validateUUID_def bindE_def checkE_def generationOk_def IsZero_def text_eval)
  then show ?thesis
    using generation_used_once [of ?e DbOk DbOk "[(''s'', ?row 4 ''active'' 1)]" "''s''" 4 "''''" "''''" 7 9
        "[(''s'', ?row 5 ''closed'' 7)]" "''closed''" _ "[]"] by (metis foldl_Nil)
qed

end
