(* ===== verification/TaskLifecycle.thy ===== *)
theory TaskLifecycle
  imports TaskStore
begin

text \<open>
  The Control Plane's lifecycle of remote tasks on top of the task table: stopping and deleting a task against
  competing writers (\<^verbatim>\<open>internal/controlplane/tasklifecycle/stop.go\<close>, \<^verbatim>\<open>delete.go\<close>), finishing a stream's task
  (\<^verbatim>\<open>taskstream/lifecycle.go\<close>), recovering the tasks of lost owners (\<^verbatim>\<open>sessionregistry/reconciler.go\<close>) and the
  authorization lease that a stream holds (\<^verbatim>\<open>streamlease/lease.go\<close>).

  Other writers act between any two statements: \<open>wo_others k\<close> are the operations they perform before the
  statement with the number \<open>k\<close>, and \<open>wo_db k\<close> is the driver's answer to that statement. \<open>wo_now k\<close> is the clock,
  \<open>wo_ctxErr k\<close> the state of the caller's context after statement \<open>k\<close>.
\<close>

record world =
  wo_env :: store_env
  wo_db :: "nat \<Rightarrow> db_answer"
  wo_others :: "nat \<Rightarrow> task_op list"
  wo_now :: "nat \<Rightarrow> time"
  wo_ctxErr :: "nat \<Rightarrow> string option"

definition others_act :: "world \<Rightarrow> nat \<Rightarrow> task_table \<Rightarrow> task_table" where
  "others_act w k tasks = foldl (task_step (wo_env w)) tasks (wo_others w k)"

section \<open>Stop and delete\<close>

definition stopTransitionAttempts :: nat where "stopTransitionAttempts = 8"

text \<open>The loop with the attempts that are left, the number of the next statement and the last error.\<close>

fun stop_loop ::
  "world \<Rightarrow> string \<Rightarrow> nat \<Rightarrow> nat \<Rightarrow> store_error \<Rightarrow> task_table \<Rightarrow> (store_error + Task) \<times> task_table" where
  "stop_loop w taskID 0 k lastErr tasks = (Inl lastErr, tasks)"
| "stop_loop w taskID (Suc n) k lastErr tasks =
     (let tasks1 = others_act w k tasks in
      case GetByID (wo_env w) (wo_db w k) tasks1 taskID of
        Inl e \<Rightarrow> (Inl e, tasks1)
      | Inr task \<Rightarrow>
          if ta_State task = Stopped then (Inr task, tasks1)
          else
            let updatedAt = wo_now w (k + 1); tasks2 = others_act w (k + 1) tasks1 in
            (case UpdateState (wo_env w) (wo_db w (k + 1)) (wo_db w (k + 2)) tasks2 (ta_ID task) (ta_State task)
                    Stopped (ta_Result task) updatedAt of
               (Inr _, tasks3) \<Rightarrow> (Inr (task \<lparr> ta_State := Stopped, ta_UpdatedAt := updatedAt \<rparr>), tasks3)
             | (Inl e, tasks3) \<Rightarrow>
                 if e \<noteq> ErrConflictS then (Inl e, tasks3)
                 else (case wo_ctxErr w (k + 2) of
                         Some c \<Rightarrow> (Inl (StoreError c), tasks3)
                       | None \<Rightarrow> stop_loop w taskID n (k + 3) e tasks3)))"

definition Stop :: "world \<Rightarrow> string \<Rightarrow> nat \<Rightarrow> task_table \<Rightarrow> (store_error + Task) \<times> task_table" where
  "Stop w taskID k tasks = stop_loop w taskID stopTransitionAttempts k (StoreError '''') tasks"

text \<open>\<open>k'\<close> is the number of the statement after those of \<open>Stop\<close>, which performs at most three per attempt.\<close>

definition Delete :: "world \<Rightarrow> string \<Rightarrow> task_table \<Rightarrow> (store_error + Task) \<times> task_table" where
  "Delete w taskID tasks =
     (let tasks1 = others_act w 0 tasks in
      case GetByID (wo_env w) (wo_db w 0) tasks1 taskID of
        Inl e \<Rightarrow> (Inl e, tasks1)
      | Inr current \<Rightarrow>
          if ta_State current = Deleted then (Inr current, tasks1)
          else (case Stop w taskID 1 tasks1 of
            (Inl e, tasks2) \<Rightarrow> (Inl e, tasks2)
          | (Inr task, tasks2) \<Rightarrow>
              let k' = 1 + 3 * stopTransitionAttempts; updatedAt = wo_now w k'; tasks3 = others_act w k' tasks2 in
              (case UpdateState (wo_env w) (wo_db w k') (wo_db w (k' + 1)) tasks3 (ta_ID task) Stopped Deleted
                      (ta_Result task) updatedAt of
                 (Inl e, tasks4) \<Rightarrow> (Inl e, tasks4)
               | (Inr _, tasks4) \<Rightarrow> (Inr (task \<lparr> ta_State := Deleted, ta_UpdatedAt := updatedAt \<rparr>), tasks4))))"

section \<open>Finishing a stream\<close>

text \<open>
  The cause with which a stream ended: none, a cancelled or expired context, a WebSocket close, or another
  error. The errors that count as a stop are matched by \<open>stops\<close>.
\<close>

datatype stream_cause = NoError | ContextEnded | WebSocketClose | StreamError string

definition isFailure :: "stream_cause \<Rightarrow> string list \<Rightarrow> bool" where
  "isFailure cause stops =
     (case cause of StreamError e \<Rightarrow> e \<notin> set stops | _ \<Rightarrow> False)"

definition taskstreamFailed :: "bool \<Rightarrow> stream_cause \<Rightarrow> string list \<Rightarrow> bool" where
  "taskstreamFailed runContextEnded cause stops \<longleftrightarrow> \<not> runContextEnded \<and> isFailure cause stops"

record FinishConfig =
  fc_TaskID :: string
  fc_Cause :: stream_cause
  fc_CleanupRequired :: bool
  fc_CleanupComplete :: bool
  fc_StopErrors :: "string list"
  fc_Result :: "Task \<Rightarrow> task_state \<Rightarrow> bool \<Rightarrow> string"

definition Finish :: "world \<Rightarrow> FinishConfig \<Rightarrow> task_table \<Rightarrow> bool \<times> task_table" where
  "Finish w config tasks =
     (let tasks1 = others_act w 0 tasks in
      case GetByID (wo_env w) (wo_db w 0) tasks1 (fc_TaskID config) of
        Inl e \<Rightarrow> (False, tasks1)
      | Inr task \<Rightarrow>
          if ta_State task = Stopped \<or> ta_State task = Failed then (True, tasks1)
          else if ta_State task = Recovering then (False, tasks1)
          else
            let next = (if ta_State task \<noteq> Stopping \<and> isFailure (fc_Cause config) (fc_StopErrors config)
                        then Failed else Stopped);
                cleanupPending = (fc_CleanupRequired config \<and> \<not> fc_CleanupComplete config);
                next = (if cleanupPending then Recovering else next);
                result = fc_Result config task next cleanupPending;
                tasks2 = others_act w 1 tasks1 in
            (case UpdateState (wo_env w) (wo_db w 1) (wo_db w 2) tasks2 (fc_TaskID config) (ta_State task) next
                    result (wo_now w 1) of
               (Inr _, tasks3) \<Rightarrow> (True, tasks3)
             | (Inl _, tasks3) \<Rightarrow> (False, tasks3)))"

section \<open>Recovery of lost owners\<close>

record Reconciler =
  rc_interval :: duration
  rc_staleAfter :: duration
  rc_batchSize :: int
  rc_taskTypes :: "string list"

fun taskTypes_loop :: "string list \<Rightarrow> string list \<Rightarrow> store_error + string list" where
  "taskTypes_loop acc [] = Inr (rev acc)"
| "taskTypes_loop acc (t # ts) =
     (let taskType = TrimSpace t in
      if taskType = '''' \<or> length taskType > 128
      then Inl (StoreError ''session runtime recovery Task type is invalid'')
      else if taskType \<in> set acc then taskTypes_loop acc ts
      else taskTypes_loop (taskType # acc) ts)"

definition NewReconciler :: "Reconciler \<Rightarrow> store_error + Reconciler" where
  "NewReconciler config =
     (let interval = (if rc_interval config = 0 then 5 * Second else rc_interval config);
          staleAfter = (if rc_staleAfter config = 0 then 15 * Second else rc_staleAfter config);
          batchSize = (if rc_batchSize config = 0 then 100 else rc_batchSize config);
          taskTypes = (if length (rc_taskTypes config) = 0 then [''pod-exec'', ''file-transfer''] else rc_taskTypes config) in
      if interval < 100 * Millisecond \<or> interval > 24 * Hour \<or> staleAfter < interval \<or> staleAfter > 24 * Hour
      then Inl (StoreError ''session runtime recovery intervals are invalid'')
      else if batchSize < 1 \<or> batchSize > 1000 \<or> length taskTypes > 16
      then Inl (StoreError ''session runtime recovery batch or Task types are invalid'')
      else bindE (taskTypes_loop [] taskTypes) (\<lambda>types.
        Inr \<lparr> rc_interval = interval, rc_staleAfter = staleAfter, rc_batchSize = batchSize, rc_taskTypes = types \<rparr>))"

definition recoveryTarget :: "Task \<Rightarrow> task_state \<times> string" where
  "recoveryTarget task =
     (if ta_State task = Stopping then (Stopped, '''') else (Failed, ''Control Plane stream owner was lost''))"

text \<open>
  The functions of \<^verbatim>\<open>encoding/json\<close> that the result document passes through: the fields of an object (of the part
  that could be read) with their encoded values, the encoding of an object and the encoding of a string.
\<close>

record json_lib =
  js_Unmarshal :: "string \<Rightarrow> (string \<times> string) list"
  js_Marshal :: "(string \<times> string) list \<Rightarrow> string"
  js_String :: "string \<Rightarrow> string"

definition recoveryResult :: "json_lib \<Rightarrow> string \<Rightarrow> string \<Rightarrow> string" where
  "recoveryResult js previous message =
     (let result = js_Unmarshal js previous in
      js_Marshal js (if message = '''' then AList.delete ''error'' result
                     else AList.update ''error'' (js_String js message) result))"

text \<open>
  The loop over the listed tasks. It returns the number of recovered tasks, the errors and the number of the
  next statement.
\<close>

fun claim_loop ::
  "world \<Rightarrow> json_lib \<Rightarrow> time \<Rightarrow> nat \<Rightarrow> Task list \<Rightarrow> task_table \<Rightarrow> nat \<times> store_error list \<times> nat \<times> task_table" where
  "claim_loop w js now k [] tasks = (0, [], k, tasks)"
| "claim_loop w js now k (task # rest) tasks =
     (let (next, message) = recoveryTarget task;
          encoded = recoveryResult js (ta_Result task) message;
          (answer, tasks1) = ClaimStale (wo_env w) (wo_db w k) (wo_db w (k + 1)) (others_act w k tasks) (ta_ID task)
                               (ta_State task) (ta_UpdatedAt task) next encoded now;
          (count, errs, k', tasks2) = claim_loop w js now (k + 2) rest tasks1 in
      (case answer of
         Inr _ \<Rightarrow> (count + 1, errs, k', tasks2)
       | Inl e \<Rightarrow> if e = ErrConflictS \<or> e = ErrNotFoundS then (count, errs, k', tasks2)
                  else (count, e # errs, k', tasks2)))"

fun types_loop ::
  "world \<Rightarrow> json_lib \<Rightarrow> Reconciler \<Rightarrow> time \<Rightarrow> nat \<Rightarrow> string list \<Rightarrow> task_table \<Rightarrow> nat \<times> store_error list \<times> task_table" where
  "types_loop w js reconciler now k [] tasks = (0, [], tasks)"
| "types_loop w js reconciler now k (taskType # taskTypes) tasks =
     (let tasks1 = others_act w k tasks in
      case ListStaleByTypeStates (wo_db w k) tasks1 taskType [Starting, Running, Stopping]
             (now - rc_staleAfter reconciler) (rc_batchSize reconciler) of
        Inl e \<Rightarrow> (let (count, errs, tasks2) = types_loop w js reconciler now (k + 1) taskTypes tasks1
                  in (count, e # errs, tasks2))
      | Inr stale \<Rightarrow>
          (let (count, errs, k', tasks2) = claim_loop w js now (k + 1) stale tasks1;
               (count', errs', tasks3) = types_loop w js reconciler now k' taskTypes tasks2
           in (count + count', errs @ errs', tasks3)))"

definition RunOnce ::
  "world \<Rightarrow> json_lib \<Rightarrow> Reconciler \<Rightarrow> time \<Rightarrow> task_table \<Rightarrow> nat \<times> store_error list \<times> task_table" where
  "RunOnce w js reconciler now tasks = types_loop w js reconciler now 0 (rc_taskTypes reconciler) tasks"

section \<open>Authorization leases\<close>

record Identity =
  id_Subject :: string
  id_DeviceID :: string
  id_AuthorizationID :: string
  id_AccessExpiresAt :: time

record LeaseConfig =
  lc_CheckInterval :: duration
  lc_TaskID :: string
  lc_HeartbeatTask :: bool

datatype lease_deadline = NoDeadline | Deadline time

text \<open>
  \<^verbatim>\<open>Start\<close> up to the attachment to the runtime: the checks, the interval that is used and the deadline of the
  stream's context.
\<close>

definition StartLease ::
  "Identity \<Rightarrow> time \<Rightarrow> LeaseConfig \<Rightarrow> time \<Rightarrow> store_error + (duration \<times> lease_deadline)" where
  "StartLease identity sessionExpiresAt config now =
     (let interval = (if lc_CheckInterval config = 0 then 500 * Millisecond else lc_CheckInterval config) in
      if interval < 10 * Millisecond \<or> interval > 30 * Second
      then Inl (StoreError ''authorization lease check interval must be between 10ms and 30s'')
      else if lc_HeartbeatTask config \<and> lc_TaskID config = ''''
      then Inl (StoreError ''task identity is required for owner heartbeat'')
      else if \<not> sessionExpiresAt > now \<or>
         (\<not> IsZero (id_AccessExpiresAt identity) \<and> \<not> id_AccessExpiresAt identity > now)
      then Inl (StoreError ''authorization lease expired'')
      else if IsZero (id_AccessExpiresAt identity) \<or> id_AuthorizationID identity \<noteq> ''''
      then Inr (interval, NoDeadline)
      else Inr (interval, Deadline (id_AccessExpiresAt identity)))"

text \<open>
  The periodic check: \<open>requestOwner\<close> and \<open>requestActive\<close> are the answers of the OAuth session repository,
  \<open>stored\<close> the answer of the session repository. The result has an error, or whether the lease is valid.
\<close>

definition grantActive ::
  "(string \<Rightarrow> store_error + (string \<times> string)) \<Rightarrow> (string \<Rightarrow> time \<Rightarrow> store_error + bool) \<Rightarrow> Identity \<Rightarrow> time
     \<Rightarrow> store_error + bool" where
  "grantActive requestOwner requestActive identity now =
     (if id_AuthorizationID identity = '''' then Inr True
      else case requestOwner (id_AuthorizationID identity) of
        Inl e \<Rightarrow> if e = ErrNotFoundS then Inr False else Inl e
      | Inr (identityID, deviceID) \<Rightarrow>
          (case requestActive (id_AuthorizationID identity) now of
             Inl e \<Rightarrow> Inl e
           | Inr active \<Rightarrow> Inr (active \<and> identityID = id_Subject identity \<and> deviceID = id_DeviceID identity \<and>
                                \<not> IsZero now)))"

definition sessionActive :: "store_error + ClusterSession \<Rightarrow> Identity \<Rightarrow> time \<Rightarrow> store_error + bool" where
  "sessionActive stored identity now =
     (case stored of
        Inl e \<Rightarrow> if e = ErrNotFoundS then Inr False else Inl e
      | Inr s \<Rightarrow> Inr (se_IdentityID s = id_Subject identity \<and> se_DeviceID s = id_DeviceID identity \<and>
                     se_State s = statusActive \<and> se_ExpiresAt s > now))"

definition taskOwned ::
  "world \<Rightarrow> nat \<Rightarrow> Identity \<Rightarrow> string \<Rightarrow> LeaseConfig \<Rightarrow> task_table \<Rightarrow> (store_error + bool) \<times> task_table" where
  "taskOwned w k identity sessionID config tasks =
     (if \<not> lc_HeartbeatTask config then (Inr True, tasks)
      else
        let tasks1 = others_act w k tasks in
        case GetByID (wo_env w) (wo_db w k) tasks1 (lc_TaskID config) of
          Inl e \<Rightarrow> (if e = ErrNotFoundS then Inr False else Inl e, tasks1)
        | Inr task \<Rightarrow>
            if ta_SessionID task \<noteq> sessionID \<or> ta_IdentityID task \<noteq> id_Subject identity \<or>
               \<not> state_Owned (ta_State task)
            then (Inr False, tasks1)
            else (case UpdateState (wo_env w) (wo_db w (k + 1)) (wo_db w (k + 2)) (others_act w (k + 1) tasks1)
                         (ta_ID task) (ta_State task) (ta_State task) (ta_Result task) (wo_now w (k + 1)) of
                    (Inr _, tasks2) \<Rightarrow> (Inr True, tasks2)
                  | (Inl e, tasks2) \<Rightarrow> (if e = ErrConflictS then Inr True else Inl e, tasks2)))"

text \<open>\<open>authorizer\<close> is the answer of the configured authorizer, \<open>None\<close> when the lease has none.\<close>

definition leaseAuthorized :: "bool option \<Rightarrow> bool" where
  "leaseAuthorized authorizer = (case authorizer of None \<Rightarrow> True | Some allowed \<Rightarrow> allowed)"

definition leaseValid ::
  "world \<Rightarrow> nat \<Rightarrow> bool option \<Rightarrow> (string \<Rightarrow> store_error + (string \<times> string)) \<Rightarrow> (string \<Rightarrow> time \<Rightarrow> store_error + bool)
     \<Rightarrow> store_error + ClusterSession \<Rightarrow> Identity \<Rightarrow> string \<Rightarrow> LeaseConfig \<Rightarrow> task_table
     \<Rightarrow> (store_error + bool) \<times> task_table" where
  "leaseValid w k authorizer requestOwner requestActive stored identity sessionID config tasks =
     (if \<not> leaseAuthorized authorizer then (Inr False, tasks)
      else case grantActive requestOwner requestActive identity (wo_now w k) of
        Inl e \<Rightarrow> (Inl e, tasks)
      | Inr False \<Rightarrow> (Inr False, tasks)
      | Inr True \<Rightarrow>
          (case sessionActive stored identity (wo_now w k) of
             Inl e \<Rightarrow> (Inl e, tasks)
           | Inr False \<Rightarrow> (Inr False, tasks)
           | Inr True \<Rightarrow> taskOwned w k identity sessionID config tasks))"

definition validationErrorsBeforeCancellation :: nat where "validationErrorsBeforeCancellation = 2"

text \<open>
  \<^verbatim>\<open>watchValidation\<close>: the number of checks after which the stream is cancelled, for the sequence of the answers
  that the checks give, from the given number of consecutive errors on. The loop ends with the context, which
  is cancelled.
\<close>

fun watchValidation :: "nat \<Rightarrow> (store_error + bool) list \<Rightarrow> nat option" where
  "watchValidation errs [] = None"
| "watchValidation errs (answer # answers) =
     (case answer of
        Inl _ \<Rightarrow>
          if errs + 1 \<ge> validationErrorsBeforeCancellation then Some 1
          else map_option Suc (watchValidation (errs + 1) answers)
      | Inr valid \<Rightarrow> if \<not> valid then Some 1 else map_option Suc (watchValidation 0 answers))"

section \<open>Stopping against competing writers\<close>

definition wf_tasks :: "task_table \<Rightarrow> bool" where
  "wf_tasks tasks \<longleftrightarrow> (\<forall>i t. map_of tasks i = Some t \<longrightarrow> ta_ID t = i \<and> state_Valid (ta_State t))"

lemma ValidateTransition_valid: "ValidateTransition a b = Inr () \<Longrightarrow> state_Valid b"
  by (auto simp: ValidateTransition_def split: if_splits)

lemma normalizeJSON_optional: "normalizeJSON env doc False field = Inr doc' \<Longrightarrow> doc' = doc"
  by (auto simp: normalizeJSON_def split: if_splits)

lemma normalizeTask_valid: "normalizeTask env task = Inr row \<Longrightarrow> state_Valid (ta_State row) \<and> ta_ID row = ta_ID task"
  by (auto simp: normalizeTask_def bindE_eq_Inr Let_def split: if_splits)

lemma wf_tasks_setState:
  assumes "wf_tasks tasks" "map_of tasks i = Some t" "ValidateTransition (ta_State t) next = Inr ()"
  shows "wf_tasks (AList.update i (setState next result u t) tasks)"
  using assms ValidateTransition_valid [OF assms(3)]
  by (auto simp: wf_tasks_def AList.update_conv' setState_def)

lemma wf_tasks_step:
  assumes wf: "wf_tasks tasks"
  shows "wf_tasks (task_step env tasks op)"
proof (cases op)
  case (OpCreate db task)
  show ?thesis
    by (rule Create_cases [of tasks env task db])
      (use wf OpCreate normalizeTask_valid in \<open>auto simp: wf_tasks_def AList.update_conv'\<close>)
next
  case (OpUpdate db db2 i expected nxt result v)
  show ?thesis
    by (rule UpdateState_cases [of tasks i expected nxt env result db db2 v]) (use wf OpUpdate wf_tasks_setState in auto)
next
  case (OpClaim db db2 i expected observed nxt result v)
  show ?thesis
    by (rule ClaimStale_cases [of tasks i expected observed nxt env db db2 result v])
      (use wf OpClaim wf_tasks_setState in auto)
qed

interpretation task_rows: step_invariant "task_step env" wf_tasks "\<lambda>_. True" for env
  by unfold_locales (rule wf_tasks_step)

lemma others_wf: "wf_tasks tasks \<Longrightarrow> wf_tasks (others_act w k tasks)"
  unfolding others_act_def by (rule task_rows.run_inv) (simp_all add: list_all_iff)

lemma others_advance:
  assumes "map_of tasks i = Some t"
  shows "\<exists>t'. map_of (others_act w k tasks) i = Some t' \<and> advances t t'"
proof -
  have "\<exists>t'. map_of tasks i = Some t' \<and> advances t t'" using assms advances_refl by blast
  from task_history.run_inv [OF this] show ?thesis by (simp add: others_act_def list_all_iff)
qed

lemma GetByID_eq_Inr: "GetByID env db tasks i = Inr t \<longleftrightarrow> se_uuidOk env i \<and> db = DbOk \<and> map_of tasks i = Some t"
  by (auto simp: GetByID_def bindE_eq_Inr validateUUID_def checkE_eq split: option.splits)

text \<open>The row that a guarded update stores is the row that the writer read, with the new state.\<close>

lemma guarded_write:
  assumes "advances t t2" and "ta_State t2 = ta_State t"
  shows "setState next (ta_Result t) u t2 = t \<lparr> ta_State := next, ta_UpdatedAt := u \<rparr>"
  using assms by (cases t; cases t2) (simp add: advances_def setState_def)

lemma stop_loop_sound:
  assumes "wf_tasks tasks" and "stop_loop w taskID n k lastErr tasks = (Inr task, tasks')"
  shows "map_of tasks' taskID = Some task \<and> ta_State task = Stopped \<and> wf_tasks tasks'"
  using assms
proof (induction n arbitrary: k lastErr tasks)
  case (Suc n)
  let ?t1 = "others_act w k tasks" and ?t2 = "others_act w (k + 1) (others_act w k tasks)"
  have wf1: "wf_tasks ?t1" and wf2: "wf_tasks ?t2" using others_wf Suc.prems(1) by auto
  show ?case
  proof (cases "GetByID (wo_env w) (wo_db w k) ?t1 taskID")
    case (Inl e)
    then show ?thesis using Suc.prems by simp
  next
    case (Inr t)
    then have t: "map_of ?t1 taskID = Some t" "ta_ID t = taskID"
      using wf1 by (auto simp: GetByID_eq_Inr wf_tasks_def)
    show ?thesis
    proof (cases "ta_State t = Stopped")
      case True
      then show ?thesis using Suc.prems Inr t wf1 by simp
    next
      case False
      let ?u = "wo_now w (k + 1)"
      note step = Suc.prems(2) [unfolded stop_loop.simps Let_def Inr sum.case if_not_P [OF False] t(2)]
      show ?thesis
      proof (cases rule: UpdateState_cases [of ?t2 taskID "ta_State t" Stopped "wo_env w" "ta_Result t"
            "wo_db w (k + 1)" "wo_db w (k + 2)" ?u])
        case (updated t2 result')
        have "advances t t2" using others_advance [OF t(1), of w "k + 1"] updated(1) by auto
        moreover have "result' = ta_Result t" using normalizeJSON_optional [OF updated(5)] .
        ultimately have row: "setState Stopped result' ?u t2 = t \<lparr> ta_State := Stopped, ta_UpdatedAt := ?u \<rparr>"
          using guarded_write updated(2) by simp
        have "wf_tasks (AList.update taskID (setState Stopped result' ?u t2) ?t2)"
          using wf_tasks_setState [OF wf2 updated(1)] updated(2,3) by simp
        then show ?thesis using step updated(6) row by (auto simp: AList.update_conv' setState_def)
      next
        case (refused e)
        then show ?thesis using step Suc.IH wf2 by (auto split: if_splits option.splits)
      qed
    qed
  qed
qed simp

text \<open>
  The databases answers every statement, the context is alive, the clock is set, and the results of tasks are JSON.
\<close>

definition fair_world :: "world \<Rightarrow> string \<Rightarrow> bool" where
  "fair_world w taskID \<longleftrightarrow> (\<forall>k. wo_db w k = DbOk) \<and> (\<forall>k. wo_ctxErr w k = None) \<and> (\<forall>k. \<not> IsZero (wo_now w k)) \<and>
     se_uuidOk (wo_env w) taskID \<and> (\<forall>doc. se_jsonOk (wo_env w) doc)"

lemma fair_worldD:
  assumes "fair_world w taskID"
  shows "wo_db w k = DbOk" "wo_ctxErr w k = None" "\<not> IsZero (wo_now w k)" "se_uuidOk (wo_env w) taskID"
    "se_jsonOk (wo_env w) doc"
  using assms by (auto simp: fair_world_def)

lemma fair_update:
  assumes fair: "fair_world w taskID" and t: "map_of tasks taskID = Some t"
  shows "UpdateState (wo_env w) (wo_db w j) (wo_db w j') tasks taskID expected next result (wo_now w l) =
    (case ValidateTransition expected next of
       Inl e \<Rightarrow> (Inl e, tasks)
     | Inr _ \<Rightarrow> if ta_State t = expected
         then (Inr (), AList.update taskID (setState next result (wo_now w l) t) tasks)
         else (Inl ErrConflictS, tasks))"
proof -
  have "normalizeJSON (wo_env w) result False ''task result'' = Inr result"
    using fair_worldD(5) [OF fair] by (simp add: normalizeJSON_def)
  moreover have "notUpdated (wo_env w) DbOk tasks taskID = ErrConflictS"
    using t fair_worldD(4) [OF fair] by (simp add: notUpdated_def GetByID_def validateUUID_def checkE_def bindE_def)
  ultimately show ?thesis
    using t fair_worldD(1,3,4) [OF fair]
    by (auto simp: UpdateState_def validateUUID_def checkE_def bindE_def split: sum.splits)
qed

lemma stoppable:
  assumes "state_Valid s" "s \<noteq> Stopped"
  shows "ValidateTransition s Stopped =
    (if s = Deleted then Inl (StoreError ''remote Task transition is not allowed'') else Inr ())"
  using assms by (cases s) (simp_all add: ValidateTransition_def state_Valid_def)

lemma stop_loop_outcome:
  assumes fair: "fair_world w taskID" and "wf_tasks tasks" and "map_of tasks taskID = Some t0"
    and "\<exists>j < n. wo_others w (k + 3 * j + 1) = []"
  shows "(\<exists>task tasks'. stop_loop w taskID n k lastErr tasks = (Inr task, tasks')) \<or>
    (\<exists>tasks' t. stop_loop w taskID n k lastErr tasks = (Inl (StoreError ''remote Task transition is not allowed''), tasks') \<and>
       map_of tasks' taskID = Some t \<and> ta_State t = Deleted)"
  using assms(2-4)
proof (induction n arbitrary: k lastErr tasks t0)
  case (Suc n)
  let ?t1 = "others_act w k tasks" and ?t2 = "others_act w (k + 1) (others_act w k tasks)"
  have wf1: "wf_tasks ?t1" and wf2: "wf_tasks ?t2" using others_wf Suc.prems(1) by auto
  obtain t where t: "map_of ?t1 taskID = Some t" using others_advance [OF Suc.prems(2)] by blast
  obtain t2 where t2: "map_of ?t2 taskID = Some t2" "advances t t2" using others_advance [OF t] by blast
  have id: "ta_ID t = taskID" and valid: "state_Valid (ta_State t)" using wf1 t by (auto simp: wf_tasks_def)
  have get: "GetByID (wo_env w) (wo_db w k) ?t1 taskID = Inr t"
    using t fair_worldD(1,4) [OF fair] by (simp add: GetByID_eq_Inr)
  show ?case
  proof (cases "ta_State t = Stopped")
    case True
    then show ?thesis using get by simp
  next
    case False
    note upd = fair_update [OF fair t2(1), of "k + 1" "k + 2" "ta_State t" Stopped "ta_Result t" "k + 1"]
    note step = stop_loop.simps(2) [of w taskID n k lastErr tasks, unfolded Let_def get sum.case if_not_P [OF False] id upd
        stoppable [OF valid False]]
    show ?thesis
    proof (cases "ta_State t = Deleted")
      case True
      then have "ta_State t2 = Deleted" using t2(2) by (simp add: advances_def)
      then show ?thesis using step True t2(1) by simp
    next
      case nd: False
      show ?thesis
      proof (cases "ta_State t2 = ta_State t")
        case True
        then show ?thesis using step nd by simp
      next
        case changed: False
        obtain j where j: "j < Suc n" "wo_others w (k + 3 * j + 1) = []" using Suc.prems(3) by blast
        have "j \<noteq> 0"
        proof
          assume "j = 0"
          then have "?t2 = ?t1" using j(2) by (simp add: others_act_def)
          then show False using t t2(1) changed by simp
        qed
        then obtain i where i: "j = Suc i" by (cases j) auto
        then have "\<exists>j < n. wo_others w ((k + 3) + 3 * j + 1) = []" using j by (intro exI [of _ i]) (simp add: ac_simps)
        note again = Suc.IH [OF wf2 t2(1) this, of ErrConflictS]
        have "stop_loop w taskID (Suc n) k lastErr tasks = stop_loop w taskID n (k + 3) ErrConflictS ?t2"
          unfolding step if_not_P [OF nd] sum.case if_not_P [OF changed] prod.case fair_worldD(2) [OF fair]
          by simp
        with again show ?thesis by metis
      qed
    qed
  qed
qed simp


text \<open>
  A task whose stop competes with a writer that starts to stop it between the first read and the first write.
\<close>

definition w_world :: "(nat \<Rightarrow> task_op list) \<Rightarrow> world" where
  "w_world others = \<lparr> wo_env = \<lparr> se_uuidOk = \<lambda>_. True, se_jsonOk = \<lambda>_. True, se_specHash = \<lambda>_. None \<rparr>,
     wo_db = \<lambda>_. DbOk, wo_others = others, wo_now = \<lambda>k. int k + 10, wo_ctxErr = \<lambda>_. None \<rparr>"

definition w_contended :: world where
  "w_contended = w_world (\<lambda>k. if k = 1 then [OpUpdate DbOk DbOk ''t'' Running Stopping ''r'' 5] else [])"

definition w_task :: Task where
  "w_task = \<lparr> ta_ID = ''t'', ta_IdentityID = ''i'', ta_SessionID = ''s'', ta_Type = ''pod-exec'', ta_State = Running,
     ta_Spec = ''{}'', ta_Result = '''', ta_IdempotencyKey = ''k'', ta_CreatedAt = 1, ta_UpdatedAt = 1,
     ta_ExpiresAt = None \<rparr>"

lemma w_world_fair: "fair_world (w_world others) taskID"
  by (simp add: fair_world_def w_world_def IsZero_def)

lemma w_task_wf: "wf_tasks [(''t'', w_task)]"
  by (simp add: wf_tasks_def w_task_def state_Valid_def)

lemmas store_eval = UpdateState_def ClaimStale_def GetByID_def validateUUID_def bindE_def checkE_def
  ValidateTransition_def state_Valid_def state_Terminal_def IsZero_def normalizeJSON_def setState_def notUpdated_def
  others_act_def


section \<open>Deleting is final\<close>

lemma Delete_sound:
  assumes wf: "wf_tasks tasks" and del: "Delete w taskID tasks = (Inr task, tasks')"
  shows "map_of tasks' taskID = Some task \<and> ta_State task = Deleted"
proof -
  let ?t1 = "others_act w 0 tasks" and ?k = "25"
  have wf1: "wf_tasks ?t1" using others_wf wf by auto
  show ?thesis
  proof (cases "GetByID (wo_env w) (wo_db w 0) ?t1 taskID")
    case (Inl e)
    then show ?thesis using del by (simp add: Delete_def)
  next
    case (Inr current)
    show ?thesis
    proof (cases "ta_State current = Deleted")
      case True
      then show ?thesis using del Inr by (auto simp: Delete_def GetByID_eq_Inr)
    next
      case False
      obtain res t2 where stop: "Stop w taskID 1 ?t1 = (res, t2)" by fastforce
      note del' = del [unfolded Delete_def Let_def Inr sum.case if_not_P [OF False] stop prod.case]
      then obtain st where st: "res = Inr st" by (cases res) auto
      have stored: "map_of t2 taskID = Some st" "ta_State st = Stopped" "wf_tasks t2"
        using stop_loop_sound [OF wf1] stop st unfolding Stop_def by blast+
      then have id: "ta_ID st = taskID" by (auto simp: wf_tasks_def)
      let ?t3 = "others_act w ?k t2"
      note final = del' [unfolded st sum.case id stopTransitionAttempts_def, simplified]
      show ?thesis
      proof (cases rule: UpdateState_cases [of ?t3 taskID Stopped Deleted "wo_env w" "ta_Result st" "wo_db w ?k"
            "wo_db w (Suc ?k)" "wo_now w ?k"])
        case (updated t3 result')
        have "advances st t3" using others_advance [OF stored(1), of w ?k] updated(1) by auto
        moreover have "result' = ta_Result st" using normalizeJSON_optional [OF updated(5)] .
        ultimately have "setState Deleted result' (wo_now w ?k) t3 = st \<lparr> ta_State := Deleted, ta_UpdatedAt := wo_now w ?k \<rparr>"
          using guarded_write updated(2) stored(2) by simp
        then show ?thesis using final updated(6) by (auto simp: AList.update_conv' setState_def)
      next
        case (refused e)
        then show ?thesis using final by simp
      qed
    qed
  qed
qed

text \<open>Deleting a task is final: when it succeeds, the table holds exactly the returned task in the deleted state, and
  no sequence of later operations on the table, not even ones that stop, restart or claim the task, changes it.\<close>

theorem delete_is_final:
  assumes "wf_tasks tasks" and "Delete w taskID tasks = (Inr task, tasks')"
  shows "ta_State task = Deleted \<and> map_of (foldl (task_step env) tasks' ops) taskID = Some task"
proof -
  note stored = Delete_sound [OF assms]
  then have "\<exists>t'. map_of (foldl (task_step env) tasks' ops) taskID = Some t' \<and> advances task t'"
    by (intro task_history.run_inv) (auto simp: advances_refl list_all_iff)
  then show ?thesis using stored by (auto simp: advances_def)
qed

theorem delete_is_final_witness:
  "\<exists>task tasks'. Delete w_contended ''t'' [(''t'', w_task)] = (Inr task, tasks') \<and> ta_State task = Deleted \<and>
     map_of (foldl (task_step (wo_env w_contended)) tasks' [OpUpdate DbOk DbOk ''t'' Deleted Running '''' 90]) ''t'' = Some task"
proof -
  obtain task tasks' where "Delete w_contended ''t'' [(''t'', w_task)] = (Inr task, tasks')"
    by (auto simp: Delete_def Stop_def stopTransitionAttempts_def eval_nat_numeral store_eval w_contended_def w_world_def
        w_task_def)
  with delete_is_final [OF w_task_wf this] show ?thesis by blast
qed

section \<open>Recovery spares live owners\<close>

definition row_holds :: "(Task \<Rightarrow> bool) \<Rightarrow> string \<Rightarrow> task_table \<Rightarrow> bool" where
  "row_holds Q i tasks \<longleftrightarrow> (\<exists>t. map_of tasks i = Some t \<and> Q t)"

text \<open>The table after the loop, one claim at a time.\<close>

definition claim_one :: "world \<Rightarrow> json_lib \<Rightarrow> time \<Rightarrow> nat \<Rightarrow> Task \<Rightarrow> task_table \<Rightarrow> (store_error + unit) \<times> task_table" where
  "claim_one w js now k task tasks =
     ClaimStale (wo_env w) (wo_db w k) (wo_db w (k + 1)) (others_act w k tasks) (ta_ID task) (ta_State task)
       (ta_UpdatedAt task) (fst (recoveryTarget task)) (recoveryResult js (ta_Result task) (snd (recoveryTarget task))) now"

abbreviation claimed_table :: "nat \<times> store_error list \<times> nat \<times> task_table \<Rightarrow> task_table" where
  "claimed_table r \<equiv> snd (snd (snd r))"

lemma claim_loop_table:
  "claimed_table (claim_loop w js now k (task # rest) tasks) =
     claimed_table (claim_loop w js now (k + 2) rest (snd (claim_one w js now k task tasks)))"
  by (auto simp: claim_one_def Let_def split: prod.splits sum.splits)

lemma claim_loop_keeps:
  assumes others: "\<And>k tasks. row_holds Q i tasks \<Longrightarrow> row_holds Q i (others_act w k tasks)"
    and fresh: "\<And>t. Q t \<Longrightarrow> ta_UpdatedAt t \<ge> cutoff"
  shows "\<forall>t \<in> set stale. ta_UpdatedAt t < cutoff \<Longrightarrow> row_holds Q i tasks \<Longrightarrow>
    row_holds Q i (claimed_table (claim_loop w js now k stale tasks))"
proof (induction stale arbitrary: k tasks)
  case (Cons task rest)
  let ?t1 = "others_act w k tasks"
  have held: "row_holds Q i ?t1" using others Cons.prems(2) by blast
  have "row_holds Q i (snd (claim_one w js now k task tasks))"
  proof (cases rule: ClaimStale_cases [of ?t1 "ta_ID task" "ta_State task" "ta_UpdatedAt task" "fst (recoveryTarget task)"
      "wo_env w" "wo_db w k" "wo_db w (k + 1)" "recoveryResult js (ta_Result task) (snd (recoveryTarget task))" now])
    case (claimed t result')
    then have "ta_ID task \<noteq> i" using held fresh Cons.prems(1) by (fastforce simp: row_holds_def)
    then show ?thesis using held claimed(5) by (auto simp: row_holds_def claim_one_def AList.update_conv')
  qed (use held in \<open>simp add: claim_one_def\<close>)
  then show ?case unfolding claim_loop_table using Cons.IH Cons.prems(1) by simp
qed simp

lemma ListStale_listed:
  assumes "ListStaleByTypeStates db tasks taskType states boundary limit = Inr stale" and "t \<in> set stale"
  shows "ta_UpdatedAt t < boundary \<and> ta_State t \<in> set states \<and> ta_Type t = TrimSpace taskType \<and> t \<in> set (map snd tasks)"
  using assms by (auto simp: ListStaleByTypeStates_def Let_def split: if_splits dest!: in_set_takeD)


text \<open>A pass over the example task while its owner renews the heartbeat.\<close>

definition w_reconciler :: Reconciler where
  "w_reconciler = \<lparr> rc_interval = 5, rc_staleAfter = 10, rc_batchSize = 100, rc_taskTypes = [''pod-exec''] \<rparr>"

definition w_json :: json_lib where
  "w_json = \<lparr> js_Unmarshal = \<lambda>_. [], js_Marshal = \<lambda>fields. concat (map snd fields), js_String = \<lambda>s. s \<rparr>"

definition w_heartbeat :: world where
  "w_heartbeat = w_world (\<lambda>k. if k = 1 then [OpUpdate DbOk DbOk ''t'' Running Running '''' 95] else [])"


section \<open>Finishing a stream\<close>

definition cleanupPending :: "FinishConfig \<Rightarrow> bool" where
  "cleanupPending config \<longleftrightarrow> fc_CleanupRequired config \<and> \<not> fc_CleanupComplete config"

text \<open>When a stream's end is recorded, the task is settled: it is stopped or failed, or it is in recovery and
  then cleanup work is pending. A task becomes failed by this write only for a failure of the stream, and only
  when it was not being stopped; pending cleanup never ends in a settled state by this write. When the end is not
  recorded, the table is as the other writers left it.\<close>

theorem finish_settles_task:
  assumes wf: "wf_tasks tasks"
  shows "case Finish w config tasks of
      (True, tasks') \<Rightarrow> (\<exists>t t'. map_of (others_act w 0 tasks) (fc_TaskID config) = Some t \<and>
         map_of tasks' (fc_TaskID config) = Some t' \<and>
         (ta_State t' = Recovering \<and> cleanupPending config \<or>
          ta_State t' = Failed \<and> (t' = t \<or> isFailure (fc_Cause config) (fc_StopErrors config) \<and> ta_State t \<noteq> Stopping \<and>
            \<not> cleanupPending config) \<or>
          ta_State t' = Stopped \<and> (t' = t \<or> \<not> cleanupPending config)))
    | (False, tasks') \<Rightarrow> tasks' \<in> {others_act w 0 tasks, others_act w 1 (others_act w 0 tasks)}"
proof (cases "GetByID (wo_env w) (wo_db w 0) (others_act w 0 tasks) (fc_TaskID config)")
  case (Inl e)
  then show ?thesis by (simp add: Finish_def)
next
  case (Inr t)
  let ?t1 = "others_act w 0 tasks" and ?i = "fc_TaskID config"
  let ?next = "if cleanupPending config then Recovering
    else if ta_State t \<noteq> Stopping \<and> isFailure (fc_Cause config) (fc_StopErrors config) then Failed else Stopped"
  let ?result = "fc_Result config t ?next (cleanupPending config)"
  have row: "map_of ?t1 ?i = Some t" using Inr by (simp add: GetByID_eq_Inr)
  consider (final) "ta_State t = Stopped \<or> ta_State t = Failed" | (rec) "ta_State t = Recovering"
    | (upd) "ta_State t \<notin> {Stopped, Failed, Recovering}" by blast
  then show ?thesis
  proof cases
    case upd
    then have "Finish w config tasks = (case UpdateState (wo_env w) (wo_db w 1) (wo_db w 2) (others_act w 1 ?t1) ?i
        (ta_State t) ?next ?result (wo_now w 1) of (Inr _, tasks3) \<Rightarrow> (True, tasks3) | (Inl _, tasks3) \<Rightarrow> (False, tasks3))"
      using Inr unfolding Finish_def Let_def cleanupPending_def by auto
    moreover have "\<exists>t2. map_of (others_act w 1 ?t1) ?i = Some t2" using others_advance [OF row] by blast
    ultimately show ?thesis
      using row by (cases rule: UpdateState_cases [of "others_act w 1 ?t1" ?i "ta_State t" ?next "wo_env w" ?result
            "wo_db w 1" "wo_db w 2" "wo_now w 1"])
        (auto simp: AList.update_conv' setState_def)
  qed (use Inr row in \<open>auto simp: Finish_def\<close>)
qed

theorem finish_settles_task_witness:
  "wf_tasks [(''t'', w_task)] \<and>
   Finish (w_world (\<lambda>_. [])) \<lparr> fc_TaskID = ''t'', fc_Cause = StreamError ''reset'', fc_CleanupRequired = False,
     fc_CleanupComplete = False, fc_StopErrors = [], fc_Result = \<lambda>_ _ _. '''' \<rparr> [(''t'', w_task)] =
     (True, [(''t'', w_task \<lparr> ta_State := Failed, ta_UpdatedAt := 11 \<rparr>)])"
proof -
  show ?thesis
    using w_task_wf finish_settles_task [OF w_task_wf, of "w_world (\<lambda>_. [])"] by (simp add: Finish_def store_eval isFailure_def w_world_def w_task_def)
qed

section \<open>Leases end with their authorization\<close>

lemma grantActive_True:
  "grantActive owner active identity now = Inr True \<longleftrightarrow> id_AuthorizationID identity = '''' \<or>
     owner (id_AuthorizationID identity) = Inr (id_Subject identity, id_DeviceID identity) \<and>
     active (id_AuthorizationID identity) now = Inr True \<and> \<not> IsZero now"
  by (auto simp: grantActive_def split: sum.splits prod.splits if_splits)

lemma sessionActive_True:
  "sessionActive stored identity now = Inr True \<longleftrightarrow> (\<exists>s. stored = Inr s \<and> se_IdentityID s = id_Subject identity \<and>
     se_DeviceID s = id_DeviceID identity \<and> se_State s = statusActive \<and> se_ExpiresAt s > now)"
  by (auto simp: sessionActive_def split: sum.splits if_splits)

lemma leaseValid_True:
  "leaseValid w k authorizer owner active stored identity sessionID config tasks = (Inr True, tasks') \<longleftrightarrow>
     authorizer \<noteq> Some False \<and> grantActive owner active identity (wo_now w k) = Inr True \<and>
     sessionActive stored identity (wo_now w k) = Inr True \<and> taskOwned w k identity sessionID config tasks = (Inr True, tasks')"
  by (auto simp: leaseValid_def leaseAuthorized_def split: sum.splits bool.splits option.splits)

lemma taskOwned_True:
  assumes "taskOwned w k identity sessionID config tasks = (Inr True, tasks')" and "lc_HeartbeatTask config"
  shows "\<exists>t. map_of (others_act w k tasks) (lc_TaskID config) = Some t \<and> ta_SessionID t = sessionID \<and>
    ta_IdentityID t = id_Subject identity \<and> state_Owned (ta_State t)"
  using assms by (auto simp: taskOwned_def Let_def GetByID_eq_Inr split: sum.splits if_splits prod.splits)

text \<open>
  The check with the number \<open>i\<close> ends the stream: the lease is invalid, or the check failed as the one before
  did. \<open>failed\<close> is whether the check before the first one failed.
\<close>

definition ends_lease :: "bool \<Rightarrow> (store_error + bool) list \<Rightarrow> nat \<Rightarrow> bool" where
  "ends_lease failed answers i \<longleftrightarrow> answers ! i = Inr False \<or>
     isl (answers ! i) \<and> (case i of 0 \<Rightarrow> failed | Suc j \<Rightarrow> isl (answers ! j))"

lemma ends_lease_Suc: "ends_lease failed (a # answers) (Suc i) \<longleftrightarrow> ends_lease (isl a) answers i"
  by (cases i) (auto simp: ends_lease_def)

lemma watchValidation_Cons:
  "errs \<le> 1 \<Longrightarrow> watchValidation errs (a # answers) =
     (if ends_lease (errs = 1) (a # answers) 0 then Some 1
      else map_option Suc (watchValidation (if isl a then 1 else 0) answers))"
  by (cases "errs = 0") (auto simp: ends_lease_def validationErrorsBeforeCancellation_def split: sum.splits)

lemma watchValidation_first:
  "errs \<le> 1 \<Longrightarrow> watchValidation errs answers = Some n \<longleftrightarrow>
     (\<exists>i < length answers. n = Suc i \<and> ends_lease (errs = 1) answers i \<and> (\<forall>j < i. \<not> ends_lease (errs = 1) answers j))"
proof (induction answers arbitrary: errs n)
  case (Cons a answers)
  let ?e = "if isl a then 1 else (0::nat)"
  have IH: "watchValidation ?e answers = Some m \<longleftrightarrow> (\<exists>i < length answers. m = Suc i \<and> ends_lease (isl a) answers i \<and>
      (\<forall>j < i. \<not> ends_lease (isl a) answers j))" for m
    using Cons.IH [of ?e m] by (cases a) simp_all
  show ?case
    unfolding watchValidation_Cons [OF Cons.prems]
    by (auto simp: IH Ex_less_Suc2 ends_lease_Suc All_less_Suc2)
qed simp

text \<open>A stream outlives one failed check of its authorization, never two in a row, and never an invalid lease: it is
  cancelled with the first check that finds the lease invalid or that fails right after a failed one, and with no
  other. A valid lease means that the authorizer allows the request, the OAuth grant is active and belongs to
  the same subject and device, the session is active, not expired and belongs to them, and the task, when its owner
  sends heartbeats, is in an owned state of that session and subject.\<close>

theorem lease_follows_authorization:
  "(watchValidation 0 answers = Some (Suc i) \<longleftrightarrow>
      i < length answers \<and> ends_lease False answers i \<and> (\<forall>j < i. \<not> ends_lease False answers j)) \<and>
   (fst (leaseValid w k authorizer owner active stored identity sessionID config tasks) = Inr True \<longrightarrow>
      authorizer \<noteq> Some False \<and>
      (id_AuthorizationID identity = '''' \<or>
         owner (id_AuthorizationID identity) = Inr (id_Subject identity, id_DeviceID identity) \<and>
         active (id_AuthorizationID identity) (wo_now w k) = Inr True) \<and>
      (\<exists>s. stored = Inr s \<and> se_IdentityID s = id_Subject identity \<and> se_DeviceID s = id_DeviceID identity \<and>
         se_State s = statusActive \<and> se_ExpiresAt s > wo_now w k) \<and>
      (lc_HeartbeatTask config \<longrightarrow> (\<exists>t. map_of (others_act w k tasks) (lc_TaskID config) = Some t \<and>
         ta_SessionID t = sessionID \<and> ta_IdentityID t = id_Subject identity \<and> state_Owned (ta_State t))))"
proof -
  obtain r tasks' where r: "leaseValid w k authorizer owner active stored identity sessionID config tasks = (r, tasks')"
    by fastforce
  have "watchValidation 0 answers = Some (Suc i) \<longleftrightarrow>
      i < length answers \<and> ends_lease False answers i \<and> (\<forall>j < i. \<not> ends_lease False answers j)"
    using watchValidation_first [of 0 answers "Suc i"] by simp
  moreover
  note valid = leaseValid_True [of w k authorizer owner active stored identity sessionID config tasks tasks',
      unfolded r grantActive_True sessionActive_True]
  note task = taskOwned_True [of w k identity sessionID config tasks tasks']
  ultimately show ?thesis using valid task unfolding r fst_conv by (intro conjI impI) (simp_all, blast)
qed

definition w_session :: ClusterSession where
  "w_session = \<lparr> se_ID = ''s'', se_IdentityID = ''i'', se_DeviceID = ''d'', se_ClusterID = ''c'', se_Namespace = ''n'',
     se_State = ''active'', se_Generation = 1, se_NetworkSpec = ''{}'', se_NetworkSpecHash = ''h'', se_CreatedAt = 1,
     se_UpdatedAt = 1, se_LastHeartbeatAt = 1, se_ExpiresAt = 99 \<rparr>"

definition w_identity :: Identity where
  "w_identity = \<lparr> id_Subject = ''i'', id_DeviceID = ''d'', id_AuthorizationID = '''', id_AccessExpiresAt = 50 \<rparr>"

definition w_lease :: LeaseConfig where
  "w_lease = \<lparr> lc_CheckInterval = 0, lc_TaskID = ''t'', lc_HeartbeatTask = True \<rparr>"

theorem lease_follows_authorization_witness:
  "watchValidation 0 [Inl ErrConflictS, Inr True, Inl ErrConflictS, Inl ErrConflictS, Inr True] = Some (Suc 3) \<and>
   fst (leaseValid (w_world (\<lambda>_. [])) 0 None (\<lambda>_. Inl ErrNotFoundS) (\<lambda>_ _. Inr False) (Inr w_session) w_identity ''s''
      w_lease [(''t'', w_task)]) = Inr True \<and> se_ExpiresAt w_session > wo_now (w_world (\<lambda>_. [])) 0"
proof -
  let ?answers = "[Inl ErrConflictS, Inr True, Inl ErrConflictS, Inl ErrConflictS, Inr True]"
  note rule = lease_follows_authorization [of ?answers 3 "w_world (\<lambda>_. [])" 0 None "\<lambda>_. Inl ErrNotFoundS"
      "\<lambda>_ _. Inr False" "Inr w_session" w_identity "''s''" w_lease "[(''t'', w_task)]"]
  have "ends_lease False ?answers 3 \<and> (\<forall>j < 3. \<not> ends_lease False ?answers j)"
    by (simp add: ends_lease_def numeral_3_eq_3 All_less_Suc)
  moreover have "fst (leaseValid (w_world (\<lambda>_. [])) 0 None (\<lambda>_. Inl ErrNotFoundS) (\<lambda>_ _. Inr False) (Inr w_session)
      w_identity ''s'' w_lease [(''t'', w_task)]) = Inr True"
    by (simp add: leaseValid_def leaseAuthorized_def grantActive_def sessionActive_def statusActive_def taskOwned_def
        state_Owned_def w_identity_def w_session_def w_lease_def store_eval w_world_def w_task_def)
  ultimately show ?thesis using rule by simp
qed

end
