(* ===== verification/TrafficBinding.thy ===== *)
theory TrafficBinding
  imports GoText GoTime
begin

text \<open>
  The TrafficBinding resource (\<^verbatim>\<open>api/v1alpha1/trafficbinding_types.go\<close>) and its validation by the Operator
  (\<^verbatim>\<open>internal/controller/trafficbinding_validation.go\<close>).

  Go maps are association lists in which a key occurs once; an update keeps the position of its key. The parts of
  Kubernetes objects that the Operator copies without reading them are opaque texts. A deep copy is the value
  itself. What the Kubernetes libraries and the standard library decide is a parameter: the rules for DNS names
  (the first problem, if there is one), IP literals (whether the address is an IPv4 address), the digest of a UID
  in hexadecimal and the lower case of letters outside ASCII.
\<close>

type_synonym smap = "(string \<times> string) list"

record k8s_lib =
  kl_dnsLabel :: "string \<Rightarrow> string option"
  kl_dnsSubdomain :: "string \<Rightarrow> string option"
  kl_parseIP :: "string \<Rightarrow> bool option"
  kl_digest :: "string \<Rightarrow> string"
  kl_foldLower :: "string \<Rightarrow> string"

section \<open>The resource\<close>

datatype TrafficBindingMode = ModePortForward | ModePreview | ModeExchange | ModeMirror | OtherMode string

datatype TrafficBindingDesiredState = UnsetState | StateActive | StatePaused | OtherState string

datatype TargetKind = KindPod | KindService | OtherKind string

datatype TransportProtocol = UnsetProtocol | ProtocolTCP | ProtocolUDP | OtherProtocol string

record TrafficTarget =
  tt_Kind :: TargetKind
  tt_Name :: string

record TrafficPort =
  tp_Name :: string
  tp_TargetPort :: int
  tp_RelayPort :: "int option"
  tp_LocalHost :: string
  tp_LocalPort :: "int option"
  tp_Protocol :: TransportProtocol

record TrafficBindingSpec =
  sp_DesiredState :: TrafficBindingDesiredState
  sp_Mode :: TrafficBindingMode
  sp_IdentityID :: string
  sp_SessionID :: string
  sp_TaskID :: string
  sp_SessionGeneration :: int
  sp_ClusterIP :: string
  sp_DialAddress :: string
  sp_Target :: "TrafficTarget option"
  sp_Relay :: "string option"
  sp_Preview :: "string option"
  sp_Ports :: "TrafficPort list"

record OwnerReference =
  or_UID :: string
  or_Controller :: bool

record Endpoint =
  ep_Addresses :: "string list"
  ep_Ready :: "bool option"
  ep_Rest :: string

record EndpointPort =
  po_Name :: "string option"
  po_Protocol :: string
  po_Port :: int

record EndpointSliceSnapshot =
  ss_Name :: string
  ss_AddressType :: string
  ss_Labels :: smap
  ss_Annotations :: smap
  ss_OwnerReferences :: "OwnerReference list"
  ss_Endpoints :: "Endpoint list"
  ss_Ports :: "EndpointPort list"

record ServiceSnapshot =
  sn_ServiceName :: string
  sn_ServiceUID :: string
  sn_Selector :: smap
  sn_EndpointSlices :: "EndpointSliceSnapshot list"
  sn_HadEndpointSlices :: bool
  sn_EndpointSubsets :: "string list"
  sn_HadEndpoints :: bool

datatype TrafficBindingPhase =
  NoPhase | Pending | Reconciling | Ready | Degraded | Pausing | Paused | Restoring | Restored

record Condition =
  co_Type :: string
  co_Status :: bool
  co_Reason :: string
  co_Message :: string
  co_ObservedGeneration :: int

record TrafficBindingStatus =
  st_ObservedGeneration :: int
  st_Phase :: TrafficBindingPhase
  st_ServiceName :: string
  st_ServiceClusterIP :: string
  st_RelayOwnerID :: string
  st_RelayHeartbeatAt :: "time option"
  st_RelayError :: string
  st_Snapshot :: "ServiceSnapshot option"
  st_Conditions :: "Condition list"

text \<open>The metadata that the Operator reads, the specification and the status.\<close>

record TrafficBinding =
  tb_Name :: string
  tb_Namespace :: string
  tb_UID :: string
  tb_Generation :: int
  tb_Finalizers :: "string list"
  tb_Deleting :: bool
  tb_Labels :: smap
  tb_Spec :: TrafficBindingSpec
  tb_Status :: TrafficBindingStatus

section \<open>Errors\<close>

text \<open>
  The errors of the API server that the code tells apart, with the text of the error; a permanent error of the
  Operator; and joined errors. The first error of the API server in a joined error decides what it is.
\<close>

datatype k8s_error =
  NotFound string | AlreadyExists string | ApiError string | Permanent string | Joined k8s_error k8s_error

primrec isPermanent :: "k8s_error \<Rightarrow> bool" where
  "isPermanent (NotFound _) = False"
| "isPermanent (AlreadyExists _) = False"
| "isPermanent (ApiError _) = False"
| "isPermanent (Permanent _) = True"
| "isPermanent (Joined left right) = (isPermanent left \<or> isPermanent right)"

primrec apiStatus :: "k8s_error \<Rightarrow> k8s_error option" where
  "apiStatus (NotFound m) = Some (NotFound m)"
| "apiStatus (AlreadyExists m) = Some (AlreadyExists m)"
| "apiStatus (ApiError m) = Some (ApiError m)"
| "apiStatus (Permanent _) = None"
| "apiStatus (Joined left right) = (case apiStatus left of Some e \<Rightarrow> Some e | None \<Rightarrow> apiStatus right)"

definition isNotFound :: "k8s_error \<Rightarrow> bool" where
  "isNotFound e = (case apiStatus e of Some (NotFound _) \<Rightarrow> True | _ \<Rightarrow> False)"

definition isAlreadyExists :: "k8s_error \<Rightarrow> bool" where
  "isAlreadyExists e = (case apiStatus e of Some (AlreadyExists _) \<Rightarrow> True | _ \<Rightarrow> False)"

primrec errorText :: "k8s_error \<Rightarrow> string" where
  "errorText (NotFound m) = m"
| "errorText (AlreadyExists m) = m"
| "errorText (ApiError m) = m"
| "errorText (Permanent m) = m"
| "errorText (Joined left right) = errorText left @ ''; '' @ errorText right"

definition permanentf :: "string \<Rightarrow> k8s_error + 'a" where
  "permanentf message = Inl (Permanent message)"

text \<open>\<open>permanentE condition message\<close> fails with the message if the condition holds.\<close>

definition permanentE :: "bool \<Rightarrow> string \<Rightarrow> k8s_error + unit" where
  "permanentE condition message = (if condition then permanentf message else Inr ())"

lemma permanentE_ok [simp]: "permanentE c m = Inr () \<longleftrightarrow> \<not> c"
  by (simp add: permanentE_def permanentf_def)

lemma permanentf_ok [simp]: "permanentf m \<noteq> Inr x"
  by (simp add: permanentf_def)

section \<open>Validation\<close>

definition hexLower :: "char \<Rightarrow> bool" where
  "hexLower c \<longleftrightarrow> (48 \<le> code c \<and> code c \<le> 57) \<or> (97 \<le> code c \<and> code c \<le> 102)"

text \<open>The pattern \<^verbatim>\<open>^[0-9a-f]{8}-[0-9a-f]{4}-[1-5][0-9a-f]{3}-[89ab][0-9a-f]{3}-[0-9a-f]{12}$\<close>.\<close>

definition uuidPattern :: "string \<Rightarrow> bool" where
  "uuidPattern s \<longleftrightarrow> length s = 36 \<and>
     list_all (\<lambda>i. if i \<in> {8, 13, 18, 23} then s ! i = CHR ''-'' else hexLower (s ! i)) [0..<36] \<and>
     s ! 14 \<in> set ''12345'' \<and> s ! 19 \<in> set ''89ab''"

definition validatePort :: "int \<Rightarrow> string \<Rightarrow> k8s_error + unit" where
  "validatePort port field = permanentE (port < 1 \<or> port > 65535) (field @ '' must be between 1 and 65535'')"

text \<open>\<open>quoted\<close> is the verb \<^verbatim>\<open>%q\<close> for a text without characters that need an escape.\<close>

definition quoted :: "string \<Rightarrow> string" where
  "quoted s = CHR 0x22 # s @ [CHR 0x22]"

fun validateProtocol :: "TransportProtocol \<Rightarrow> k8s_error + unit" where
  "validateProtocol (OtherProtocol p) = permanentf (''protocol '' @ quoted p @ '' is unsupported'')"
| "validateProtocol _ = Inr ()"

definition normalizedProtocol :: "TransportProtocol \<Rightarrow> TransportProtocol" where
  "normalizedProtocol protocol = (if protocol = UnsetProtocol then ProtocolTCP else protocol)"

fun protocolText :: "TransportProtocol \<Rightarrow> string" where
  "protocolText UnsetProtocol = ''''"
| "protocolText ProtocolTCP = ''TCP''"
| "protocolText ProtocolUDP = ''UDP''"
| "protocolText (OtherProtocol p) = p"

fun modeText :: "TrafficBindingMode \<Rightarrow> string" where
  "modeText ModePortForward = ''PortForward''"
| "modeText ModePreview = ''Preview''"
| "modeText ModeExchange = ''Exchange''"
| "modeText ModeMirror = ''Mirror''"
| "modeText (OtherMode m) = m"

fun validateDesiredState :: "TrafficBindingDesiredState \<Rightarrow> k8s_error + unit" where
  "validateDesiredState (OtherState s) = permanentf (''spec.desiredState '' @ quoted s @ '' is unsupported'')"
| "validateDesiredState _ = Inr ()"

definition validateBindingIdentity :: "k8s_lib \<Rightarrow> TrafficBindingSpec \<Rightarrow> k8s_error + unit" where
  "validateBindingIdentity lib spec =
     bindE (permanentE (\<not> uuidPattern (ToLower (kl_foldLower lib) (sp_SessionID spec))) ''spec.sessionID must be a UUID'') (\<lambda>_.
     bindE (permanentE (\<not> uuidPattern (ToLower (kl_foldLower lib) (sp_TaskID spec))) ''spec.taskID must be a UUID'') (\<lambda>_.
     bindE (permanentE (TrimSpace (sp_IdentityID spec) = '''' \<or> length (sp_IdentityID spec) > 256)
              ''spec.identityID is required and must not exceed 256 bytes'') (\<lambda>_.
     bindE (permanentE (sp_SessionGeneration spec < 1) ''spec.sessionGeneration must be positive'') (\<lambda>_.
     permanentE (length (sp_Ports spec) < 1 \<or> length (sp_Ports spec) > 64) ''spec.ports must contain one to 64 mappings''))))"

definition portField :: "nat \<Rightarrow> string \<Rightarrow> string" where
  "portField index field = ''spec.ports['' @ FormatUint index @ ''].'' @ field"

definition optionalPort :: "int option \<Rightarrow> string \<Rightarrow> k8s_error + unit" where
  "optionalPort port field = (case port of None \<Rightarrow> Inr () | Some p \<Rightarrow> validatePort p field)"

definition validatePortName :: "k8s_lib \<Rightarrow> nat \<Rightarrow> string \<Rightarrow> string set \<Rightarrow> k8s_error + unit" where
  "validatePortName lib index name seenNames =
     (if name = '''' then Inr ()
      else case kl_dnsLabel lib name of
        Some problem \<Rightarrow> permanentf (portField index ''name is invalid: '' @ problem)
      | None \<Rightarrow> permanentE (name \<in> seenNames) (''spec.ports contains duplicate name '' @ quoted name))"

fun validateBindingPorts ::
  "k8s_lib \<Rightarrow> nat \<Rightarrow> (TransportProtocol \<times> int) set \<Rightarrow> string set \<Rightarrow> TrafficPort list \<Rightarrow> k8s_error + unit" where
  "validateBindingPorts lib index seenPorts seenNames [] = Inr ()"
| "validateBindingPorts lib index seenPorts seenNames (port # ports) =
     bindE (validatePort (tp_TargetPort port) (portField index ''targetPort'')) (\<lambda>_.
     bindE (validateProtocol (tp_Protocol port)) (\<lambda>_.
     bindE (permanentE (tp_Protocol port = UnsetProtocol) (portField index ''protocol is required'')) (\<lambda>_.
     bindE (optionalPort (tp_RelayPort port) (portField index ''relayPort'')) (\<lambda>_.
     bindE (optionalPort (tp_LocalPort port) (portField index ''localPort'')) (\<lambda>_.
     bindE (validatePortName lib index (tp_Name port) seenNames) (\<lambda>_.
     let key = (tp_Protocol port, tp_TargetPort port) in
     bindE (permanentE (key \<in> seenPorts) (''spec.ports contains duplicate target '' @ protocolText (tp_Protocol port) @ ''/'' @
              FormatInt (tp_TargetPort port))) (\<lambda>_.
     validateBindingPorts lib (index + 1) (insert key seenPorts)
       (if tp_Name port = '''' then seenNames else insert (tp_Name port) seenNames) ports)))))))"

fun relayPorts_loop :: "nat \<Rightarrow> bool \<Rightarrow> string \<Rightarrow> TrafficPort list \<Rightarrow> k8s_error + unit" where
  "relayPorts_loop index required suffix [] = Inr ()"
| "relayPorts_loop index required suffix (port # ports) =
     bindE (permanentE ((tp_RelayPort port = None) = required) (portField index ''relayPort '' @ suffix)) (\<lambda>_.
       relayPorts_loop (index + 1) required suffix ports)"

definition validateBindingMode :: "k8s_lib \<Rightarrow> TrafficBindingSpec \<Rightarrow> k8s_error + unit" where
  "validateBindingMode lib spec =
     bindE (case sp_Mode spec of
        ModePortForward \<Rightarrow>
          bindE (permanentE (sp_Target spec = None \<or> sp_Relay spec \<noteq> None \<or> sp_Preview spec \<noteq> None \<or> length (sp_Ports spec) \<noteq> 1)
                   ''PortForward requires spec.target and exactly one port'') (\<lambda>_.
            permanentE (tp_RelayPort (hd (sp_Ports spec)) \<noteq> None) ''PortForward forbids spec.ports[0].relayPort'')
      | ModePreview \<Rightarrow>
          bindE (permanentE (sp_Target spec \<noteq> None \<or> sp_Preview spec = None) ''Preview requires spec.preview'') (\<lambda>_.
            case kl_dnsLabel lib (the (sp_Preview spec)) of
              Some problem \<Rightarrow> permanentf (''spec.preview.serviceName is invalid: '' @ problem)
            | None \<Rightarrow> Inr ())
      | OtherMode m \<Rightarrow> permanentf (''spec.mode '' @ quoted m @ '' is unsupported'')
      | mode \<Rightarrow> permanentE ((case sp_Target spec of None \<Rightarrow> True | Some t \<Rightarrow> tt_Kind t \<noteq> KindService) \<or> sp_Preview spec \<noteq> None)
                  (modeText mode @ '' requires a Service target'')) (\<lambda>_.
     if sp_Mode spec = ModePortForward then Inr ()
     else if sp_Relay spec \<noteq> None
     then relayPorts_loop 0 True (''is required for '' @ modeText (sp_Mode spec)) (sp_Ports spec)
     else relayPorts_loop 0 False ''requires spec.relay'' (sp_Ports spec))"

definition validateBindingTarget :: "k8s_lib \<Rightarrow> TrafficBindingSpec \<Rightarrow> k8s_error + unit" where
  "validateBindingTarget lib spec =
     (case sp_Target spec of
        None \<Rightarrow> Inr ()
      | Some target \<Rightarrow>
          (case tt_Kind target of
             OtherKind k \<Rightarrow> permanentf (''spec.target.kind '' @ quoted k @ '' is unsupported'')
           | _ \<Rightarrow> (case kl_dnsSubdomain lib (tt_Name target) of
                     Some problem \<Rightarrow> permanentf (''spec.target.name is invalid: '' @ problem)
                   | None \<Rightarrow> Inr ())))"

definition validateBindingRelay :: "k8s_lib \<Rightarrow> TrafficBindingSpec \<Rightarrow> k8s_error + unit" where
  "validateBindingRelay lib spec =
     (case sp_Relay spec of
        None \<Rightarrow> Inr ()
      | Some address \<Rightarrow> permanentE (kl_parseIP lib (TrimSpace address) = None) ''spec.relay.address must be an IP literal'')"

definition validateBinding :: "k8s_lib \<Rightarrow> TrafficBinding \<Rightarrow> k8s_error + unit" where
  "validateBinding lib binding =
     (let spec = tb_Spec binding in
      bindE (validateBindingIdentity lib spec) (\<lambda>_.
      bindE (validateDesiredState (sp_DesiredState spec)) (\<lambda>_.
      bindE (validateBindingPorts lib 0 {} {} (sp_Ports spec)) (\<lambda>_.
      bindE (validateBindingMode lib spec) (\<lambda>_.
      bindE (validateBindingTarget lib spec) (\<lambda>_.
      validateBindingRelay lib spec))))))"

end
