(* ===== verification/BindingCluster.thy ===== *)
theory BindingCluster
  imports TrafficBinding "HOL-Library.AList"
begin

text \<open>
  The namespace of a TrafficBinding as the Operator sees it through its Kubernetes client, the calls of the client
  that it uses, and a small calculus for programs made of such calls.

  The API server is not code of this repository. Its answers follow its documentation: an object is found by its
  name, a merge patch changes the fields that differ between the two copies it is computed from (a map key by
  key, an emptied map as a whole, a list as a whole), an update is refused when the object changed since it was
  read, and a patch returns the stored object. Everything else about it is a parameter: \<open>ae_fault k\<close> is the
  failure of the call with the number \<open>k\<close>, which is either refused or carried out with its answer lost;
  \<open>ae_others k\<close> is what other clients of the server do before that call; and \<open>ae_newUID\<close> and \<open>ae_newIP\<close> are
  the UID and the address that the server gives to a new Service.
\<close>

record ServicePort =
  sr_Name :: string
  sr_Protocol :: string
  sr_Port :: int
  sr_TargetPort :: int

record Service =
  sv_UID :: string
  sv_Labels :: smap
  sv_Annotations :: smap
  sv_OwnerReferences :: "OwnerReference list"
  sv_Type :: string
  sv_ClusterIP :: string
  sv_Selector :: smap
  sv_Ports :: "ServicePort list"

record EndpointSlice =
  es_Labels :: smap
  es_Annotations :: smap
  es_OwnerReferences :: "OwnerReference list"
  es_AddressType :: string
  es_Endpoints :: "Endpoint list"
  es_Ports :: "EndpointPort list"

record Endpoints =
  en_Metadata :: string
  en_Subsets :: "string list"

record cluster =
  cl_Bindings :: "(string \<times> TrafficBinding) list"
  cl_Services :: "(string \<times> Service) list"
  cl_Slices :: "(string \<times> EndpointSlice) list"
  cl_Endpoints :: "(string \<times> Endpoints) list"
  cl_Pods :: "string list"
  cl_Events :: "(string \<times> string \<times> string) list"

datatype fault = Refused k8s_error | AnswerLost k8s_error

record api_env =
  ae_lib :: k8s_lib
  ae_fault :: "nat \<Rightarrow> fault option"
  ae_others :: "nat \<Rightarrow> cluster \<Rightarrow> cluster"
  ae_newUID :: "nat \<Rightarrow> string"
  ae_newIP :: "nat \<Rightarrow> string"

section \<open>Programs of calls\<close>

type_synonym 'a api = "cluster \<times> nat \<Rightarrow> (k8s_error + 'a) \<times> cluster \<times> nat"

definition returnA :: "'a \<Rightarrow> 'a api" where
  "returnA x s = (Inr x, s)"

definition failA :: "k8s_error \<Rightarrow> 'a api" where
  "failA e s = (Inl e, s)"

definition bindA :: "'a api \<Rightarrow> ('a \<Rightarrow> 'b api) \<Rightarrow> 'b api" where
  "bindA m f s = (case m s of (Inl e, s') \<Rightarrow> (Inl e, s') | (Inr x, s') \<Rightarrow> f x s')"

text \<open>The continuation sees the outcome, an error included.\<close>

definition tryA :: "'a api \<Rightarrow> (k8s_error + 'a \<Rightarrow> 'b api) \<Rightarrow> 'b api" where
  "tryA m f s = (case m s of (r, s') \<Rightarrow> f r s')"

definition liftA :: "k8s_error + 'a \<Rightarrow> 'a api" where
  "liftA r s = (r, s)"

definition call :: "api_env \<Rightarrow> (nat \<Rightarrow> cluster \<Rightarrow> (k8s_error + 'a) \<times> cluster) \<Rightarrow> 'a api" where
  "call env f s =
     (case s of (cl, k) \<Rightarrow>
        let cl1 = ae_others env k cl in
        (case ae_fault env k of
           Some (Refused e) \<Rightarrow> (Inl e, cl1, k + 1)
         | Some (AnswerLost e) \<Rightarrow> (Inl e, snd (f k cl1), k + 1)
         | None \<Rightarrow> (case f k cl1 of (r, cl2) \<Rightarrow> (r, cl2, k + 1))))"

primrec forA :: "'a list \<Rightarrow> ('a \<Rightarrow> unit api) \<Rightarrow> unit api" where
  "forA [] f = returnA ()"
| "forA (x # xs) f = bindA (f x) (\<lambda>_. forA xs f)"

section \<open>Merge patches\<close>

definition mergeMap :: "smap \<Rightarrow> smap \<Rightarrow> smap \<Rightarrow> smap" where
  "mergeMap before after stored =
     (if after = [] then (if before = [] then stored else [])
      else filter (\<lambda>(k, _). \<not> (k \<in> set (map fst before) \<and> k \<notin> set (map fst after)))
             (foldl (\<lambda>m k. if map_of before k = map_of after k then m else AList.update k (the (map_of after k)) m)
               stored (map fst after)))"

lemma map_of_mergeMap:
  assumes "after \<noteq> []"
  shows "map_of (mergeMap before after stored) k =
    (if k \<in> set (map fst after) then (if map_of before k = map_of after k then map_of stored k else map_of after k)
     else if k \<in> set (map fst before) then None else map_of stored k)"
proof -
  let ?step = "\<lambda>m k. if map_of before k = map_of after k then m else AList.update k (the (map_of after k)) m"
  have fold: "map_of (foldl ?step m ks) k =
      (if k \<in> set ks \<and> map_of before k \<noteq> map_of after k then Some (the (map_of after k)) else map_of m k)" for m ks
    by (induction ks arbitrary: m) (auto simp: AList.update_conv')
  have filter: "map_of (filter (\<lambda>(k, _). P k) m) k = (if P k then map_of m k else None)" for P and m :: smap
    by (induction m) auto
  show ?thesis
    using assms by (auto simp: mergeMap_def fold filter dest: map_of_SomeD simp: map_of_eq_None_iff)
qed

lemma mergeMap_same:
  assumes "map_of stored = map_of before"
  shows "map_of (mergeMap before after stored) = map_of after"
proof (cases "after = []")
  case True
  then show ?thesis using assms by (auto simp: mergeMap_def)
next
  case False
  show ?thesis
    by (rule ext) (use assms in \<open>auto simp: map_of_mergeMap [OF False] map_of_eq_None_iff [THEN iffD2]\<close>)
qed

definition mergeValue :: "'a \<Rightarrow> 'a \<Rightarrow> 'a \<Rightarrow> 'a" where
  "mergeValue before after stored = (if before = after then stored else after)"

definition mergeService :: "Service \<Rightarrow> Service \<Rightarrow> Service \<Rightarrow> Service" where
  "mergeService before after stored = stored \<lparr>
     sv_Labels := mergeMap (sv_Labels before) (sv_Labels after) (sv_Labels stored),
     sv_Annotations := mergeMap (sv_Annotations before) (sv_Annotations after) (sv_Annotations stored),
     sv_Type := mergeValue (sv_Type before) (sv_Type after) (sv_Type stored),
     sv_Selector := mergeMap (sv_Selector before) (sv_Selector after) (sv_Selector stored),
     sv_Ports := mergeValue (sv_Ports before) (sv_Ports after) (sv_Ports stored) \<rparr>"

definition mergeSlice :: "EndpointSlice \<Rightarrow> EndpointSlice \<Rightarrow> EndpointSlice \<Rightarrow> EndpointSlice" where
  "mergeSlice before after stored = \<lparr>
     es_Labels = mergeMap (es_Labels before) (es_Labels after) (es_Labels stored),
     es_Annotations = mergeMap (es_Annotations before) (es_Annotations after) (es_Annotations stored),
     es_OwnerReferences = mergeValue (es_OwnerReferences before) (es_OwnerReferences after) (es_OwnerReferences stored),
     es_AddressType = mergeValue (es_AddressType before) (es_AddressType after) (es_AddressType stored),
     es_Endpoints = mergeValue (es_Endpoints before) (es_Endpoints after) (es_Endpoints stored),
     es_Ports = mergeValue (es_Ports before) (es_Ports after) (es_Ports stored) \<rparr>"

definition mergeStatus :: "TrafficBindingStatus \<Rightarrow> TrafficBindingStatus \<Rightarrow> TrafficBindingStatus \<Rightarrow> TrafficBindingStatus" where
  "mergeStatus before after stored = \<lparr>
     st_ObservedGeneration =
       mergeValue (st_ObservedGeneration before) (st_ObservedGeneration after) (st_ObservedGeneration stored),
     st_Phase = mergeValue (st_Phase before) (st_Phase after) (st_Phase stored),
     st_ServiceName = mergeValue (st_ServiceName before) (st_ServiceName after) (st_ServiceName stored),
     st_ServiceClusterIP = mergeValue (st_ServiceClusterIP before) (st_ServiceClusterIP after) (st_ServiceClusterIP stored),
     st_RelayOwnerID = mergeValue (st_RelayOwnerID before) (st_RelayOwnerID after) (st_RelayOwnerID stored),
     st_RelayHeartbeatAt = mergeValue (st_RelayHeartbeatAt before) (st_RelayHeartbeatAt after) (st_RelayHeartbeatAt stored),
     st_RelayError = mergeValue (st_RelayError before) (st_RelayError after) (st_RelayError stored),
     st_Snapshot = mergeValue (st_Snapshot before) (st_Snapshot after) (st_Snapshot stored),
     st_Conditions = mergeValue (st_Conditions before) (st_Conditions after) (st_Conditions stored) \<rparr>"

section \<open>Calls\<close>

definition notFoundText :: "string \<Rightarrow> string \<Rightarrow> string" where
  "notFoundText resource name = resource @ '' '' @ quoted name @ '' not found''"

definition existsText :: "string \<Rightarrow> string \<Rightarrow> string" where
  "existsText resource name = resource @ '' '' @ quoted name @ '' already exists''"

definition lookupE :: "string \<Rightarrow> (string \<times> 'a) list \<Rightarrow> string \<Rightarrow> k8s_error + 'a" where
  "lookupE resource objects name =
     (case map_of objects name of None \<Rightarrow> Inl (NotFound (notFoundText resource name)) | Some x \<Rightarrow> Inr x)"

definition GetBinding :: "api_env \<Rightarrow> string \<Rightarrow> TrafficBinding api" where
  "GetBinding env name = call env (\<lambda>_ cl. (lookupE ''trafficbindings'' (cl_Bindings cl) name, cl))"

definition GetService :: "api_env \<Rightarrow> string \<Rightarrow> Service api" where
  "GetService env name = call env (\<lambda>_ cl. (lookupE ''services'' (cl_Services cl) name, cl))"

definition GetSlice :: "api_env \<Rightarrow> string \<Rightarrow> EndpointSlice api" where
  "GetSlice env name = call env (\<lambda>_ cl. (lookupE ''endpointslices'' (cl_Slices cl) name, cl))"

definition GetEndpoints :: "api_env \<Rightarrow> string \<Rightarrow> Endpoints api" where
  "GetEndpoints env name = call env (\<lambda>_ cl. (lookupE ''endpoints'' (cl_Endpoints cl) name, cl))"

definition GetPod :: "api_env \<Rightarrow> string \<Rightarrow> unit api" where
  "GetPod env name = call env (\<lambda>_ cl.
     (if name \<in> set (cl_Pods cl) then Inr () else Inl (NotFound (notFoundText ''pods'' name)), cl))"

definition serviceNameLabel :: string where "serviceNameLabel = ''kubernetes.io/service-name''"

definition ListSlices :: "api_env \<Rightarrow> string \<Rightarrow> (string \<times> EndpointSlice) list api" where
  "ListSlices env service = call env (\<lambda>_ cl.
     (Inr (filter (\<lambda>(_, s). map_of (es_Labels s) serviceNameLabel = Some service) (cl_Slices cl)), cl))"

definition PatchService :: "api_env \<Rightarrow> string \<Rightarrow> Service \<Rightarrow> Service \<Rightarrow> Service api" where
  "PatchService env name before after = call env (\<lambda>_ cl.
     (case map_of (cl_Services cl) name of
        None \<Rightarrow> (Inl (NotFound (notFoundText ''services'' name)), cl)
      | Some stored \<Rightarrow> let merged = mergeService before after stored in
          (Inr merged, cl \<lparr> cl_Services := AList.update name merged (cl_Services cl) \<rparr>)))"

definition PatchSlice :: "api_env \<Rightarrow> string \<Rightarrow> EndpointSlice \<Rightarrow> EndpointSlice \<Rightarrow> unit api" where
  "PatchSlice env name before after = call env (\<lambda>_ cl.
     (case map_of (cl_Slices cl) name of
        None \<Rightarrow> (Inl (NotFound (notFoundText ''endpointslices'' name)), cl)
      | Some stored \<Rightarrow>
          (Inr (), cl \<lparr> cl_Slices := AList.update name (mergeSlice before after stored) (cl_Slices cl) \<rparr>)))"

text \<open>A patch of a binding's metadata. A binding that is being deleted disappears with its last finalizer.\<close>

definition PatchBinding :: "api_env \<Rightarrow> TrafficBinding \<Rightarrow> TrafficBinding \<Rightarrow> TrafficBinding api" where
  "PatchBinding env before after = call env (\<lambda>_ cl.
     (case map_of (cl_Bindings cl) (tb_Name before) of
        None \<Rightarrow> (Inl (NotFound (notFoundText ''trafficbindings'' (tb_Name before))), cl)
      | Some stored \<Rightarrow>
          let merged = stored \<lparr> tb_Finalizers := mergeValue (tb_Finalizers before) (tb_Finalizers after) (tb_Finalizers stored) \<rparr> in
          (Inr merged, cl \<lparr> cl_Bindings :=
             (if tb_Deleting merged \<and> tb_Finalizers merged = [] then AList.delete (tb_Name before) (cl_Bindings cl)
              else AList.update (tb_Name before) merged (cl_Bindings cl)) \<rparr>)))"

definition PatchStatus :: "api_env \<Rightarrow> TrafficBinding \<Rightarrow> TrafficBinding \<Rightarrow> TrafficBinding api" where
  "PatchStatus env before after = call env (\<lambda>_ cl.
     (case map_of (cl_Bindings cl) (tb_Name before) of
        None \<Rightarrow> (Inl (NotFound (notFoundText ''trafficbindings'' (tb_Name before))), cl)
      | Some stored \<Rightarrow>
          let merged = stored \<lparr> tb_Status := mergeStatus (tb_Status before) (tb_Status after) (tb_Status stored) \<rparr> in
          (Inr merged, cl \<lparr> cl_Bindings := AList.update (tb_Name before) merged (cl_Bindings cl) \<rparr>)))"

definition CreateService :: "api_env \<Rightarrow> string \<Rightarrow> Service \<Rightarrow> Service api" where
  "CreateService env name desired = call env (\<lambda>k cl.
     (if name \<in> set (map fst (cl_Services cl)) then (Inl (AlreadyExists (existsText ''services'' name)), cl)
      else let created = desired \<lparr> sv_UID := ae_newUID env k, sv_ClusterIP := ae_newIP env k \<rparr> in
        (Inr created, cl \<lparr> cl_Services := AList.update name created (cl_Services cl) \<rparr>)))"

definition CreateSlice :: "api_env \<Rightarrow> string \<Rightarrow> EndpointSlice \<Rightarrow> unit api" where
  "CreateSlice env name desired = call env (\<lambda>_ cl.
     (if name \<in> set (map fst (cl_Slices cl)) then (Inl (AlreadyExists (existsText ''endpointslices'' name)), cl)
      else (Inr (), cl \<lparr> cl_Slices := AList.update name desired (cl_Slices cl) \<rparr>)))"

definition CreateEndpoints :: "api_env \<Rightarrow> string \<Rightarrow> Endpoints \<Rightarrow> unit api" where
  "CreateEndpoints env name desired = call env (\<lambda>_ cl.
     (if name \<in> set (map fst (cl_Endpoints cl)) then (Inl (AlreadyExists (existsText ''endpoints'' name)), cl)
      else (Inr (), cl \<lparr> cl_Endpoints := AList.update name desired (cl_Endpoints cl) \<rparr>)))"

definition replaceE :: "string \<Rightarrow> string \<Rightarrow> 'a \<Rightarrow> 'a \<Rightarrow> (string \<times> 'a) list \<Rightarrow> (k8s_error + unit) \<times> (string \<times> 'a) list" where
  "replaceE resource name read new objects =
     (case map_of objects name of
        None \<Rightarrow> (Inl (NotFound (notFoundText resource name)), objects)
      | Some stored \<Rightarrow>
          if stored \<noteq> read then (Inl (ApiError ''the object has been modified''), objects)
          else (Inr (), AList.update name new objects))"

definition UpdateSlice :: "api_env \<Rightarrow> string \<Rightarrow> EndpointSlice \<Rightarrow> EndpointSlice \<Rightarrow> unit api" where
  "UpdateSlice env name read new = call env (\<lambda>_ cl.
     (case replaceE ''endpointslices'' name read new (cl_Slices cl) of (r, slices) \<Rightarrow> (r, cl \<lparr> cl_Slices := slices \<rparr>)))"

definition UpdateEndpoints :: "api_env \<Rightarrow> string \<Rightarrow> Endpoints \<Rightarrow> Endpoints \<Rightarrow> unit api" where
  "UpdateEndpoints env name read new = call env (\<lambda>_ cl.
     (case replaceE ''endpoints'' name read new (cl_Endpoints cl) of (r, eps) \<Rightarrow> (r, cl \<lparr> cl_Endpoints := eps \<rparr>)))"

definition removeE :: "string \<Rightarrow> string \<Rightarrow> (string \<times> 'a) list \<Rightarrow> (k8s_error + unit) \<times> (string \<times> 'a) list" where
  "removeE resource name objects =
     (if name \<in> set (map fst objects) then (Inr (), AList.delete name objects)
      else (Inl (NotFound (notFoundText resource name)), objects))"

definition DeleteService :: "api_env \<Rightarrow> string \<Rightarrow> unit api" where
  "DeleteService env name = call env (\<lambda>_ cl.
     (case removeE ''services'' name (cl_Services cl) of (r, services) \<Rightarrow> (r, cl \<lparr> cl_Services := services \<rparr>)))"

definition DeleteSlice :: "api_env \<Rightarrow> string \<Rightarrow> unit api" where
  "DeleteSlice env name = call env (\<lambda>_ cl.
     (case removeE ''endpointslices'' name (cl_Slices cl) of (r, slices) \<Rightarrow> (r, cl \<lparr> cl_Slices := slices \<rparr>)))"

definition DeleteEndpoints :: "api_env \<Rightarrow> string \<Rightarrow> unit api" where
  "DeleteEndpoints env name = call env (\<lambda>_ cl.
     (case removeE ''endpoints'' name (cl_Endpoints cl) of (r, eps) \<Rightarrow> (r, cl \<lparr> cl_Endpoints := eps \<rparr>)))"

text \<open>\<^verbatim>\<open>client.IgnoreNotFound\<close> and the same test in line.\<close>

definition ignoreNotFound :: "unit api \<Rightarrow> unit api" where
  "ignoreNotFound m = tryA m (\<lambda>r. case r of Inl e \<Rightarrow> if isNotFound e then returnA () else failA e | Inr _ \<Rightarrow> returnA ())"

definition recordEvent :: "string \<Rightarrow> string \<Rightarrow> string \<Rightarrow> unit api" where
  "recordEvent eventType reason message s =
     (Inr (), (fst s) \<lparr> cl_Events := cl_Events (fst s) @ [(eventType, reason, message)] \<rparr>, snd s)"

end
