(* ===== verification/BindingResources.thy ===== *)
theory BindingResources
  imports BindingCluster
begin

text \<open>
  The Kubernetes resources of a TrafficBinding, function by function as in \<^verbatim>\<open>internal/controller\<close>:
  \<^verbatim>\<open>trafficbinding_metadata.go\<close>, \<^verbatim>\<open>trafficbinding_target.go\<close>, \<^verbatim>\<open>trafficbinding_relay.go\<close>,
  \<^verbatim>\<open>trafficbinding_intercept.go\<close>, \<^verbatim>\<open>trafficbinding_restore.go\<close> and \<^verbatim>\<open>trafficbinding_preview.go\<close>.
\<close>

section \<open>Metadata\<close>

definition bindingNameAnnotation :: string where "bindingNameAnnotation = ''traffic.kubeloop.io/binding-name''"
definition bindingUIDAnnotation :: string where "bindingUIDAnnotation = ''traffic.kubeloop.io/binding-uid''"
definition bindingModeAnnotation :: string where "bindingModeAnnotation = ''traffic.kubeloop.io/mode''"
definition bindingNameLabel :: string where "bindingNameLabel = ''traffic.kubeloop.io/binding''"
definition managedByLabel :: string where "managedByLabel = ''app.kubernetes.io/managed-by''"
definition managedByValue :: string where "managedByValue = ''kubeloop-operator''"

lemmas binding_keys = bindingNameAnnotation_def bindingUIDAnnotation_def bindingModeAnnotation_def bindingNameLabel_def
  managedByLabel_def serviceNameLabel_def

text \<open>A Go map read: an absent key has the empty text.\<close>

definition at :: "smap \<Rightarrow> string \<Rightarrow> string" where
  "at m key = (case map_of m key of None \<Rightarrow> '''' | Some v \<Rightarrow> v)"

definition bindingLabelValue :: "k8s_lib \<Rightarrow> string \<Rightarrow> string" where
  "bindingLabelValue lib uid = kl_digest lib uid"

definition managedEndpointSliceName :: "k8s_lib \<Rightarrow> TrafficBinding \<Rightarrow> string" where
  "managedEndpointSliceName lib binding = ''kubeloop-'' @ bindingLabelValue lib (tb_UID binding)"

definition applyBindingLabels :: "k8s_lib \<Rightarrow> TrafficBinding \<Rightarrow> smap \<Rightarrow> smap" where
  "applyBindingLabels lib binding labels =
     AList.update bindingNameLabel (bindingLabelValue lib (tb_UID binding)) (AList.update managedByLabel managedByValue labels)"

definition applyBindingAnnotations :: "TrafficBinding \<Rightarrow> smap \<Rightarrow> smap" where
  "applyBindingAnnotations binding annotations =
     AList.update bindingModeAnnotation (modeText (sp_Mode (tb_Spec binding)))
       (AList.update bindingUIDAnnotation (tb_UID binding)
         (AList.update bindingNameAnnotation (tb_Name binding) annotations))"

definition removeBindingMetadata :: "Service \<Rightarrow> Service" where
  "removeBindingMetadata service = service \<lparr>
     sv_Labels := AList.delete bindingNameLabel (sv_Labels service),
     sv_Annotations := AList.delete bindingModeAnnotation (AList.delete bindingUIDAnnotation
       (AList.delete bindingNameAnnotation (sv_Annotations service))) \<rparr>"

definition ownedByBinding :: "smap \<Rightarrow> TrafficBinding \<Rightarrow> bool" where
  "ownedByBinding annotations binding \<longleftrightarrow>
     at annotations bindingNameAnnotation = tb_Name binding \<and> at annotations bindingUIDAnnotation = tb_UID binding"

text \<open>\<open>ownedByOther\<close> is the condition that the functions on Services write out.\<close>

definition ownedByOther :: "Service \<Rightarrow> TrafficBinding \<Rightarrow> bool" where
  "ownedByOther service binding \<longleftrightarrow>
     at (sv_Annotations service) bindingUIDAnnotation \<noteq> '''' \<and> at (sv_Annotations service) bindingUIDAnnotation \<noteq> tb_UID binding"

text \<open>\<^verbatim>\<open>metav1.IsControlledBy\<close>, \<^verbatim>\<open>controllerutil.SetControllerReference\<close> and \<^verbatim>\<open>controllerutil.SetOwnerReference\<close>.\<close>

definition IsControlledBy :: "OwnerReference list \<Rightarrow> string \<Rightarrow> bool" where
  "IsControlledBy refs uid =
     (case filter or_Controller refs of [] \<Rightarrow> False | ref # _ \<Rightarrow> or_UID ref = uid)"

definition upsertOwner :: "OwnerReference \<Rightarrow> OwnerReference list \<Rightarrow> OwnerReference list" where
  "upsertOwner ref refs =
     (if \<exists>r \<in> set refs. or_UID r = or_UID ref then map (\<lambda>r. if or_UID r = or_UID ref then ref else r) refs
      else refs @ [ref])"

definition SetControllerReference :: "string \<Rightarrow> OwnerReference list \<Rightarrow> k8s_error + OwnerReference list" where
  "SetControllerReference uid refs =
     (case filter or_Controller refs of
        [] \<Rightarrow> Inr (upsertOwner \<lparr> or_UID = uid, or_Controller = True \<rparr> refs)
      | ref # _ \<Rightarrow> if or_UID ref = uid then Inr (upsertOwner \<lparr> or_UID = uid, or_Controller = True \<rparr> refs)
                   else Inl (ApiError ''Object is already owned by another controller''))"

definition SetOwnerReference :: "string \<Rightarrow> OwnerReference list \<Rightarrow> OwnerReference list" where
  "SetOwnerReference uid refs = upsertOwner \<lparr> or_UID = uid, or_Controller = False \<rparr> refs"

definition errorsJoin :: "k8s_error option \<Rightarrow> k8s_error \<Rightarrow> k8s_error" where
  "errorsJoin left right = (case left of None \<Rightarrow> right | Some e \<Rightarrow> Joined e right)"

section \<open>Targets\<close>

definition maximumSliceCount :: nat where "maximumSliceCount = 64"
definition maximumEndpointCount :: nat where "maximumEndpointCount = 4096"

definition coreProtocol :: "TransportProtocol \<Rightarrow> string" where
  "coreProtocol protocol = (if protocol = ProtocolUDP then ''UDP'' else ''TCP'')"

definition qualifiedIn :: "TrafficBinding \<Rightarrow> string \<Rightarrow> string" where
  "qualifiedIn binding name = tb_Namespace binding @ ''/'' @ name"

definition servicePort :: "string \<Rightarrow> Service \<Rightarrow> int \<Rightarrow> TransportProtocol \<Rightarrow> k8s_error + ServicePort" where
  "servicePort qualifiedName service port protocol =
     (let wanted = coreProtocol protocol in
      case filter (\<lambda>candidate. sr_Port candidate = port \<and> sr_Protocol candidate = wanted) (sv_Ports service) of
        candidate # _ \<Rightarrow> Inr candidate
      | [] \<Rightarrow> permanentf (''Service '' @ qualifiedName @ '' does not expose '' @ wanted @ '' port '' @ FormatInt port))"

fun resolvedServicePorts :: "string \<Rightarrow> Service \<Rightarrow> TrafficPort list \<Rightarrow> k8s_error + TrafficPort list" where
  "resolvedServicePorts qualifiedName service [] = Inr []"
| "resolvedServicePorts qualifiedName service (mapping # mappings) =
     bindE (servicePort qualifiedName service (tp_TargetPort mapping) (normalizedProtocol (tp_Protocol mapping))) (\<lambda>matched.
     bindE (resolvedServicePorts qualifiedName service mappings) (\<lambda>result.
       Inr (mapping \<lparr> tp_Name := sr_Name matched \<rparr> # result)))"

definition servicePortName :: "TrafficPort \<Rightarrow> string" where
  "servicePortName port =
     (if tp_Name port \<noteq> '''' then tp_Name port
      else map lower_char (protocolText (normalizedProtocol (tp_Protocol port))) @ ''-'' @ FormatInt (tp_TargetPort port))"

text \<open>The callers validated the binding before, so the target and the first port exist.\<close>

definition validateTarget :: "api_env \<Rightarrow> TrafficBinding \<Rightarrow> unit api" where
  "validateTarget env binding =
     (let target = the (sp_Target (tb_Spec binding)); port = hd (sp_Ports (tb_Spec binding)) in
      case tt_Kind target of
        KindPod \<Rightarrow> GetPod env (tt_Name target)
      | KindService \<Rightarrow>
          bindA (GetService env (tt_Name target)) (\<lambda>service.
            bindA (liftA (servicePort (qualifiedIn binding (tt_Name target)) service (tp_TargetPort port)
                     (normalizedProtocol (tp_Protocol port)))) (\<lambda>_. returnA ()))
      | OtherKind k \<Rightarrow> failA (Permanent (''target kind '' @ quoted k @ '' is unsupported'')))"

section \<open>The relay's EndpointSlice\<close>

definition relayEndpointPort :: "TrafficPort \<Rightarrow> EndpointPort" where
  "relayEndpointPort mapping =
     \<lparr> po_Name = (if tp_Name mapping \<noteq> '''' then Some (tp_Name mapping) else None),
       po_Protocol = coreProtocol (normalizedProtocol (tp_Protocol mapping)), po_Port = the (tp_RelayPort mapping) \<rparr>"

definition desiredRelaySlice :: "k8s_lib \<Rightarrow> TrafficBinding \<Rightarrow> string \<Rightarrow> TrafficPort list \<Rightarrow> EndpointSlice" where
  "desiredRelaySlice lib binding serviceName ports =
     (let address = the (sp_Relay (tb_Spec binding)) in
      \<lparr> es_Labels = applyBindingLabels lib binding [(serviceNameLabel, serviceName)],
        es_Annotations = applyBindingAnnotations binding [],
        es_OwnerReferences = [],
        es_AddressType = (if kl_parseIP lib address = Some False then ''IPv6'' else ''IPv4''),
        es_Endpoints = [\<lparr> ep_Addresses = [address], ep_Ready = Some True, ep_Rest = '''' \<rparr>],
        es_Ports = map relayEndpointPort ports \<rparr>)"

text \<open>Creation of a slice that may appear between the read and the creation: the current slice, if there is one.\<close>

definition createOrGetSlice :: "api_env \<Rightarrow> string \<Rightarrow> EndpointSlice \<Rightarrow> EndpointSlice option api" where
  "createOrGetSlice env name desired =
     tryA (GetSlice env name) (\<lambda>got.
       case got of
         Inr current \<Rightarrow> returnA (Some current)
       | Inl e \<Rightarrow>
           if isNotFound e
           then tryA (CreateSlice env name desired) (\<lambda>created.
                  case created of
                    Inr _ \<Rightarrow> returnA None
                  | Inl createErr \<Rightarrow>
                      if isAlreadyExists createErr then bindA (GetSlice env name) (\<lambda>current. returnA (Some current))
                      else failA createErr)
           else failA e)"

definition reconcileRelaySlice ::
  "api_env \<Rightarrow> TrafficBinding \<Rightarrow> string \<Rightarrow> Service \<Rightarrow> TrafficPort list \<Rightarrow> unit api" where
  "reconcileRelaySlice env binding serviceName service ports =
     (let lib = ae_lib env; name = managedEndpointSliceName lib binding;
          plain = desiredRelaySlice lib binding serviceName ports in
      bindA (liftA (SetControllerReference (tb_UID binding) (es_OwnerReferences plain))) (\<lambda>controllers.
      let desired = plain \<lparr> es_OwnerReferences := SetOwnerReference (sv_UID service) controllers \<rparr> in
      bindA (createOrGetSlice env name desired) (\<lambda>existing.
        case existing of
          None \<Rightarrow> returnA ()
        | Some current \<Rightarrow>
            if \<not> ownedByBinding (es_Annotations current) binding \<or> \<not> IsControlledBy (es_OwnerReferences current) (tb_UID binding)
            then failA (Permanent (''EndpointSlice '' @ qualifiedIn binding name @ '' is not owned by this TrafficBinding''))
            else if current = desired then returnA ()
            else PatchSlice env name current desired)))"

section \<open>Taking over a Service\<close>

definition sliceSnapshot :: "string \<times> EndpointSlice \<Rightarrow> EndpointSliceSnapshot" where
  "sliceSnapshot item = \<lparr> ss_Name = fst item, ss_AddressType = es_AddressType (snd item), ss_Labels = es_Labels (snd item),
     ss_Annotations = es_Annotations (snd item), ss_OwnerReferences = es_OwnerReferences (snd item),
     ss_Endpoints = es_Endpoints (snd item), ss_Ports = es_Ports (snd item) \<rparr>"

text \<open>The loop counts the endpoints slice by slice and stops at the first slice that exceeds the limit.\<close>

fun snapshotSlices :: "string \<Rightarrow> nat \<Rightarrow> (string \<times> EndpointSlice) list \<Rightarrow> k8s_error + EndpointSliceSnapshot list" where
  "snapshotSlices qualifiedName endpointCount [] = Inr []"
| "snapshotSlices qualifiedName endpointCount (item # items) =
     (let endpointCount = endpointCount + length (es_Endpoints (snd item)) in
      if endpointCount > maximumEndpointCount
      then permanentf (''Service '' @ qualifiedName @ '' has more than '' @ FormatUint maximumEndpointCount @ '' endpoints'')
      else bindE (snapshotSlices qualifiedName endpointCount items) (\<lambda>rest. Inr (sliceSnapshot item # rest)))"

definition captureService :: "api_env \<Rightarrow> TrafficBinding \<Rightarrow> ServiceSnapshot api" where
  "captureService env binding =
     (let name = tt_Name (the (sp_Target (tb_Spec binding))); qualifiedName = qualifiedIn binding name in
      bindA (GetService env name) (\<lambda>service.
      bindA (liftA (permanentE (sv_ClusterIP service = ''None'' \<or> sv_Type service = ''ExternalName'')
               (''Service '' @ qualifiedName @ '' cannot be intercepted''))) (\<lambda>_.
      bindA (liftA (resolvedServicePorts qualifiedName service (sp_Ports (tb_Spec binding)))) (\<lambda>_.
      bindA (liftA (permanentE (ownedByOther service binding)
               (''Service '' @ qualifiedName @ '' is already owned by another TrafficBinding''))) (\<lambda>_.
      bindA (ListSlices env name) (\<lambda>slices.
      bindA (liftA (permanentE (length slices > maximumSliceCount)
               (''Service '' @ qualifiedName @ '' has more than '' @ FormatUint maximumSliceCount @ '' EndpointSlices''))) (\<lambda>_.
      bindA (liftA (snapshotSlices qualifiedName 0 slices)) (\<lambda>endpointSlices.
      let snapshot = \<lparr> sn_ServiceName = name, sn_ServiceUID = sv_UID service, sn_Selector = sv_Selector service,
                       sn_EndpointSlices = endpointSlices, sn_HadEndpointSlices = (slices \<noteq> []),
                       sn_EndpointSubsets = [], sn_HadEndpoints = False \<rparr> in
      tryA (GetEndpoints env name) (\<lambda>legacy.
        case legacy of
          Inr endpoints \<Rightarrow> returnA (snapshot \<lparr> sn_HadEndpoints := True, sn_EndpointSubsets := en_Subsets endpoints \<rparr>)
        | Inl e \<Rightarrow> if isNotFound e then returnA snapshot else failA e)))))))))"

definition deleteForeignSlice :: "api_env \<Rightarrow> TrafficBinding \<Rightarrow> string \<times> EndpointSlice \<Rightarrow> unit api" where
  "deleteForeignSlice env binding item =
     (if fst item = managedEndpointSliceName (ae_lib env) binding \<and> ownedByBinding (es_Annotations (snd item)) binding
      then returnA () else ignoreNotFound (DeleteSlice env (fst item)))"

definition reconcileIntercept :: "api_env \<Rightarrow> TrafficBinding \<Rightarrow> unit api" where
  "reconcileIntercept env binding =
     (let snapshot = the (st_Snapshot (tb_Status binding)); name = sn_ServiceName snapshot;
          qualifiedName = qualifiedIn binding name in
      bindA (GetService env name) (\<lambda>service.
      bindA (liftA (permanentE (sv_UID service \<noteq> sn_ServiceUID snapshot)
               (''Service '' @ qualifiedName @ '' was replaced after rollback capture''))) (\<lambda>_.
      bindA (liftA (resolvedServicePorts qualifiedName service (sp_Ports (tb_Spec binding)))) (\<lambda>ports.
      bindA (liftA (permanentE (ownedByOther service binding)
               (''Service '' @ qualifiedName @ '' is owned by another TrafficBinding''))) (\<lambda>_.
      let wanted = service \<lparr> sv_Annotations := applyBindingAnnotations binding (sv_Annotations service), sv_Selector := [] \<rparr> in
      bindA (if sv_Selector wanted \<noteq> sv_Selector service \<or> sv_Annotations wanted \<noteq> sv_Annotations service
             then PatchService env name service wanted else returnA wanted) (\<lambda>patched.
      bindA (ListSlices env name) (\<lambda>slices.
      bindA (forA slices (deleteForeignSlice env binding)) (\<lambda>_.
      bindA (ignoreNotFound (DeleteEndpoints env name)) (\<lambda>_.
      reconcileRelaySlice env binding name patched ports)))))))))"

section \<open>Giving a Service back\<close>

definition deleteManagedSlice :: "api_env \<Rightarrow> TrafficBinding \<Rightarrow> unit api" where
  "deleteManagedSlice env binding =
     (let name = managedEndpointSliceName (ae_lib env) binding in
      tryA (GetSlice env name) (\<lambda>got.
        case got of
          Inl e \<Rightarrow> if isNotFound e then returnA () else failA e
        | Inr current \<Rightarrow>
            if \<not> ownedByBinding (es_Annotations current) binding
            then failA (Permanent (''EndpointSlice '' @ qualifiedIn binding name @ '' is no longer owned by this TrafficBinding''))
            else ignoreNotFound (DeleteSlice env name)))"

definition restoredSlice :: "EndpointSliceSnapshot \<Rightarrow> EndpointSlice" where
  "restoredSlice snapshot = \<lparr> es_Labels = ss_Labels snapshot, es_Annotations = ss_Annotations snapshot,
     es_OwnerReferences = ss_OwnerReferences snapshot, es_AddressType = ss_AddressType snapshot,
     es_Endpoints = ss_Endpoints snapshot, es_Ports = ss_Ports snapshot \<rparr>"

definition restoreEndpointSlice :: "api_env \<Rightarrow> EndpointSliceSnapshot \<Rightarrow> unit api" where
  "restoreEndpointSlice env snapshot =
     (let desired = restoredSlice snapshot in
      bindA (createOrGetSlice env (ss_Name snapshot) desired) (\<lambda>existing.
        case existing of None \<Rightarrow> returnA () | Some current \<Rightarrow> UpdateSlice env (ss_Name snapshot) current desired))"

definition restoreEndpoints :: "api_env \<Rightarrow> ServiceSnapshot \<Rightarrow> unit api" where
  "restoreEndpoints env snapshot =
     (let name = sn_ServiceName snapshot in
      tryA (GetEndpoints env name) (\<lambda>got.
        case got of
          Inl e \<Rightarrow> if isNotFound e then CreateEndpoints env name \<lparr> en_Metadata = '''', en_Subsets = sn_EndpointSubsets snapshot \<rparr>
                   else failA e
        | Inr current \<Rightarrow> UpdateEndpoints env name current (current \<lparr> en_Subsets := sn_EndpointSubsets snapshot \<rparr>)))"

definition restoreService :: "api_env \<Rightarrow> TrafficBinding \<Rightarrow> unit api" where
  "restoreService env binding =
     (let snapshot = the (st_Snapshot (tb_Status binding)); name = sn_ServiceName snapshot;
          qualifiedName = qualifiedIn binding name in
      tryA (GetService env name) (\<lambda>got.
        case got of
          Inl e \<Rightarrow> if isNotFound e then deleteManagedSlice env binding else failA e
        | Inr service \<Rightarrow>
            bindA (liftA (permanentE (sv_UID service \<noteq> sn_ServiceUID snapshot)
                     (''Service '' @ qualifiedName @ '' was replaced; refusing rollback''))) (\<lambda>_.
            bindA (liftA (permanentE (ownedByOther service binding)
                     (''Service '' @ qualifiedName @ '' is owned by another TrafficBinding''))) (\<lambda>_.
            bindA (PatchService env name service (removeBindingMetadata (service \<lparr> sv_Selector := sn_Selector snapshot \<rparr>))) (\<lambda>_.
            bindA (deleteManagedSlice env binding) (\<lambda>_.
            bindA (if sn_HadEndpointSlices snapshot then forA (sn_EndpointSlices snapshot) (restoreEndpointSlice env)
                   else returnA ()) (\<lambda>_.
            if sn_HadEndpoints snapshot then restoreEndpoints env snapshot else returnA ())))))))"

definition cleanupInterceptWithoutSnapshot :: "api_env \<Rightarrow> TrafficBinding \<Rightarrow> unit api" where
  "cleanupInterceptWithoutSnapshot env binding =
     (let name = st_ServiceName (tb_Status binding) in
      if name = '''' then returnA ()
      else tryA (GetService env name) (\<lambda>got.
        case got of
          Inl e \<Rightarrow> if isNotFound e then deleteManagedSlice env binding else failA e
        | Inr service \<Rightarrow>
            if at (sv_Annotations service) bindingNameAnnotation = tb_Name binding \<or>
               at (sv_Annotations service) bindingUIDAnnotation = tb_UID binding
            then failA (Permanent (''rollback snapshot is missing while Service '' @ qualifiedIn binding name @
                   '' is still intercepted''))
            else deleteManagedSlice env binding))"

section \<open>Preview Services\<close>

definition previewPort :: "TrafficPort \<Rightarrow> ServicePort" where
  "previewPort mapping = \<lparr> sr_Name = servicePortName mapping, sr_Protocol = coreProtocol (normalizedProtocol (tp_Protocol mapping)),
     sr_Port = tp_TargetPort mapping, sr_TargetPort = the (tp_RelayPort mapping) \<rparr>"

definition desiredPreviewService :: "k8s_lib \<Rightarrow> TrafficBinding \<Rightarrow> Service" where
  "desiredPreviewService lib binding = \<lparr> sv_UID = '''', sv_Labels = applyBindingLabels lib binding [],
     sv_Annotations = applyBindingAnnotations binding [], sv_OwnerReferences = [], sv_Type = ''ClusterIP'', sv_ClusterIP = '''',
     sv_Selector = [], sv_Ports = map previewPort (sp_Ports (tb_Spec binding)) \<rparr>"

definition ensurePreviewService :: "api_env \<Rightarrow> TrafficBinding \<Rightarrow> Service api" where
  "ensurePreviewService env binding =
     (let lib = ae_lib env; name = the (sp_Preview (tb_Spec binding)); qualifiedName = qualifiedIn binding name in
      tryA (GetService env name) (\<lambda>got.
        case got of
          Inl e \<Rightarrow>
            if isNotFound e
            then let desired = desiredPreviewService lib binding in
              bindA (liftA (SetControllerReference (tb_UID binding) (sv_OwnerReferences desired))) (\<lambda>refs.
              tryA (CreateService env name (desired \<lparr> sv_OwnerReferences := refs \<rparr>)) (\<lambda>created.
                case created of
                  Inr service \<Rightarrow> returnA service
                | Inl createErr \<Rightarrow>
                    if isAlreadyExists createErr then failA (Permanent (''Service '' @ qualifiedName @ '' already exists''))
                    else failA createErr))
            else failA e
        | Inr service \<Rightarrow>
            if \<not> IsControlledBy (sv_OwnerReferences service) (tb_UID binding)
            then failA (Permanent (''Service '' @ qualifiedName @ '' is not owned by this TrafficBinding''))
            else let wanted = service \<lparr> sv_Labels := applyBindingLabels lib binding (sv_Labels service),
                       sv_Annotations := applyBindingAnnotations binding (sv_Annotations service),
                       sv_Type := ''ClusterIP'', sv_Selector := [], sv_Ports := sv_Ports (desiredPreviewService lib binding) \<rparr> in
              if wanted \<noteq> service then PatchService env name service wanted else returnA wanted))"

definition reconcilePreview :: "api_env \<Rightarrow> TrafficBinding \<Rightarrow> Service api" where
  "reconcilePreview env binding =
     (let name = the (sp_Preview (tb_Spec binding)) in
      bindA (ensurePreviewService env binding) (\<lambda>service.
      bindA (liftA (resolvedServicePorts (qualifiedIn binding name) service (sp_Ports (tb_Spec binding)))) (\<lambda>ports.
      bindA (reconcileRelaySlice env binding name service ports) (\<lambda>_. returnA service))))"

text \<open>One half of \<^verbatim>\<open>deletePreview\<close>: the error that is added to the result, if there is one.\<close>

definition deleteOwned ::
  "'o api \<Rightarrow> ('o \<Rightarrow> smap) \<Rightarrow> ('o \<Rightarrow> OwnerReference list) \<Rightarrow> unit api \<Rightarrow> TrafficBinding \<Rightarrow> k8s_error option
     \<Rightarrow> k8s_error option api" where
  "deleteOwned get annotations refs delete binding result =
     tryA get (\<lambda>got.
       case got of
         Inr object \<Rightarrow>
           if ownedByBinding (annotations object) binding \<and> IsControlledBy (refs object) (tb_UID binding)
           then tryA delete (\<lambda>deleted.
                  case deleted of
                    Inl e \<Rightarrow> returnA (if isNotFound e then result else Some (errorsJoin result e))
                  | Inr _ \<Rightarrow> returnA result)
           else returnA result
       | Inl e \<Rightarrow> returnA (if isNotFound e then result else Some (errorsJoin result e)))"

definition deletePreview :: "api_env \<Rightarrow> TrafficBinding \<Rightarrow> unit api" where
  "deletePreview env binding =
     (let sliceName = managedEndpointSliceName (ae_lib env) binding; service = the (sp_Preview (tb_Spec binding)) in
      bindA (deleteOwned (GetSlice env sliceName) es_Annotations es_OwnerReferences (DeleteSlice env sliceName) binding None) (\<lambda>result.
      bindA (deleteOwned (GetService env service) sv_Annotations sv_OwnerReferences (DeleteService env service) binding result) (\<lambda>result.
      case result of None \<Rightarrow> returnA () | Some e \<Rightarrow> failA e)))"

end
