(* ===== verification/BindingReconcile.thy ===== *)
theory BindingReconcile
  imports BindingResources
begin

text \<open>
  The status of a TrafficBinding (\<^verbatim>\<open>internal/controller/trafficbinding_status.go\<close>) and the reconcile loop of the
  Operator (\<^verbatim>\<open>trafficbinding_controller.go\<close>). The transition times of conditions are left out: the library changes
  them only together with the status of a condition.
\<close>

section \<open>Status\<close>

text \<open>\<^verbatim>\<open>meta.SetStatusCondition\<close>.\<close>

fun SetStatusCondition :: "Condition list \<Rightarrow> Condition \<Rightarrow> Condition list" where
  "SetStatusCondition [] new = [new]"
| "SetStatusCondition (c # cs) new = (if co_Type c = co_Type new then new # cs else c # SetStatusCondition cs new)"

definition setCondition :: "string \<Rightarrow> bool \<Rightarrow> string \<Rightarrow> string \<Rightarrow> TrafficBinding \<Rightarrow> TrafficBinding" where
  "setCondition conditionType status reason message binding =
     binding \<lparr> tb_Status := (tb_Status binding) \<lparr> st_Conditions := SetStatusCondition (st_Conditions (tb_Status binding))
       \<lparr> co_Type = conditionType, co_Status = status, co_Reason = reason, co_Message = message,
         co_ObservedGeneration = tb_Generation binding \<rparr> \<rparr> \<rparr>"

definition setAccepted :: "bool \<Rightarrow> string \<Rightarrow> string \<Rightarrow> TrafficBinding \<Rightarrow> TrafficBinding" where
  "setAccepted status reason message binding = setCondition ''Accepted'' status reason message binding"

definition observed :: "TrafficBindingPhase \<Rightarrow> TrafficBinding \<Rightarrow> TrafficBinding" where
  "observed phase binding =
     binding \<lparr> tb_Status := (tb_Status binding) \<lparr> st_ObservedGeneration := tb_Generation binding, st_Phase := phase \<rparr> \<rparr>"

definition patchStatus :: "api_env \<Rightarrow> TrafficBinding \<Rightarrow> TrafficBinding \<Rightarrow> unit api" where
  "patchStatus env binding before =
     (if tb_Status before = tb_Status binding then returnA ()
      else bindA (PatchStatus env before binding) (\<lambda>_. returnA ()))"

definition specAccepted :: "TrafficBinding \<Rightarrow> TrafficBinding" where
  "specAccepted binding = setAccepted True ''Accepted'' ''TrafficBinding specification is valid'' binding"

definition lifecycleStatus :: "TrafficBindingPhase \<Rightarrow> string \<Rightarrow> string \<Rightarrow> bool \<Rightarrow> TrafficBinding \<Rightarrow> TrafficBinding" where
  "lifecycleStatus phase reason message progressing binding =
     setCondition ''Restored'' False reason message
       (setCondition ''Paused'' False reason message
         (setCondition ''Degraded'' False reason message
           (setCondition ''Ready'' False reason message
             (setCondition ''Progressing'' progressing reason message (specAccepted (observed phase binding))))))"

definition setLifecycleStatus ::
  "api_env \<Rightarrow> TrafficBinding \<Rightarrow> TrafficBindingPhase \<Rightarrow> string \<Rightarrow> string \<Rightarrow> bool \<Rightarrow> unit api" where
  "setLifecycleStatus env binding phase reason message progressing =
     patchStatus env (lifecycleStatus phase reason message progressing binding) binding"

definition setPending :: "api_env \<Rightarrow> TrafficBinding \<Rightarrow> unit api" where
  "setPending env binding = setLifecycleStatus env binding Pending ''WaitingForRelay''
     ''TrafficBinding is waiting for a Gateway relay assignment'' False"

definition setReconciling :: "api_env \<Rightarrow> TrafficBinding \<Rightarrow> unit api" where
  "setReconciling env binding = setLifecycleStatus env binding Reconciling
     (modeText (sp_Mode (tb_Spec binding)) @ ''Reconciling'') ''TrafficBinding is reconciling its desired state'' True"

definition setRestoring :: "api_env \<Rightarrow> TrafficBinding \<Rightarrow> unit api" where
  "setRestoring env binding = setLifecycleStatus env binding Restoring ''Restoring''
     ''TrafficBinding resources are being restored'' True"

definition setPausing :: "api_env \<Rightarrow> TrafficBinding \<Rightarrow> unit api" where
  "setPausing env binding = setLifecycleStatus env binding Pausing ''Pausing''
     ''TrafficBinding resources are being restored before pausing'' True"

definition persistSnapshot :: "api_env \<Rightarrow> TrafficBinding \<Rightarrow> ServiceSnapshot \<Rightarrow> unit api" where
  "persistSnapshot env binding snapshot =
     (let message = ''Rollback snapshot was persisted before mutation'';
          captured = observed Reconciling (binding \<lparr> tb_Status := (tb_Status binding)
            \<lparr> st_Snapshot := Some snapshot, st_ServiceName := sn_ServiceName snapshot \<rparr> \<rparr>) in
      bindA (PatchStatus env binding
               (setCondition ''Progressing'' True ''SnapshotCaptured'' message
                 (setCondition ''Ready'' False ''SnapshotCaptured'' message captured))) (\<lambda>_. returnA ()))"

fun safeRunes :: "(nat \<times> string) list \<Rightarrow> string" where
  "safeRunes [] = []"
| "safeRunes ((rune, chunk) # rest) = (if rune < 0x20 \<or> rune = 0x7f then [] else chunk) @ safeRunes rest"

text \<open>Invalid UTF-8 becomes the replacement character, as \<^verbatim>\<open>strings.Map\<close> writes it.\<close>

definition writtenChunk :: "nat \<times> string \<Rightarrow> nat \<times> string" where
  "writtenChunk c = (if fst c = rune_error then (rune_error, map char_of [239, 191, 189 :: nat]) else c)"

definition safeMessage :: "k8s_error \<Rightarrow> string" where
  "safeMessage err = take 512 (safeRunes (map writtenChunk (rune_chunks (errorText err))))"

definition reasonFor :: "k8s_error \<Rightarrow> string" where
  "reasonFor err = (if isPermanent err then ''InvalidOrConflictingState''
     else if isNotFound err then ''TargetNotFound'' else ''ReconcileFailed'')"

definition readyStatus :: "TrafficBinding \<Rightarrow> TrafficBinding" where
  "readyStatus binding =
     setCondition ''Restored'' False ''Active'' ''TrafficBinding is active and has not been restored''
       (setCondition ''Paused'' False ''Active'' ''TrafficBinding is active''
         (setCondition ''Degraded'' False ''Reconciled'' ''No reconciliation error is active''
           (setCondition ''Ready'' True (modeText (sp_Mode (tb_Spec binding)) @ ''Ready'') ''TrafficBinding reached its desired state''
             (setCondition ''Progressing'' False ''Reconciled'' ''TrafficBinding reached its desired state''
               (specAccepted (observed Ready binding))))))"

definition setReady :: "api_env \<Rightarrow> TrafficBinding \<Rightarrow> TrafficBinding \<Rightarrow> unit api" where
  "setReady env binding before =
     (let ready = readyStatus binding in
      if tb_Status before = tb_Status ready then returnA ()
      else bindA (PatchStatus env before ready) (\<lambda>_.
        recordEvent ''Normal'' ''Ready'' ''TrafficBinding reached its desired state''))"

definition degradedStatus :: "string \<Rightarrow> k8s_error \<Rightarrow> TrafficBinding \<Rightarrow> TrafficBinding" where
  "degradedStatus reason cause binding =
     (let message = safeMessage cause; base = observed Degraded binding;
          accepted = (if reason = ''InvalidSpec'' then setAccepted False reason message base else specAccepted base) in
      setCondition ''Paused'' False reason message
        (setCondition ''Degraded'' True reason message
          (setCondition ''Ready'' False reason message
            (setCondition ''Progressing'' False reason message accepted))))"

definition setDegraded :: "api_env \<Rightarrow> TrafficBinding \<Rightarrow> string \<Rightarrow> k8s_error \<Rightarrow> unit api" where
  "setDegraded env binding reason cause = patchStatus env (degradedStatus reason cause binding) binding"

definition failedStatus :: "TrafficBindingPhase \<Rightarrow> string \<Rightarrow> k8s_error \<Rightarrow> TrafficBinding \<Rightarrow> TrafficBinding" where
  "failedStatus phase reason cause binding =
     (let message = safeMessage cause in
      setCondition ''Restored'' False reason message
        (setCondition ''Paused'' False reason message
          (setCondition ''Degraded'' True reason message
            (setCondition ''Ready'' False reason message
              (setCondition ''Progressing'' False reason message (specAccepted (observed phase binding)))))))"

definition setPauseFailed :: "api_env \<Rightarrow> TrafficBinding \<Rightarrow> k8s_error \<Rightarrow> unit api" where
  "setPauseFailed env binding cause = patchStatus env (failedStatus Pausing ''PauseFailed'' cause binding) binding"

definition setRestoreFailed :: "api_env \<Rightarrow> TrafficBinding \<Rightarrow> k8s_error \<Rightarrow> unit api" where
  "setRestoreFailed env binding cause = patchStatus env (failedStatus Restoring ''RestoreFailed'' cause binding) binding"

definition pausedStatus :: "TrafficBinding \<Rightarrow> TrafficBinding" where
  "pausedStatus binding =
     (let base = observed Paused binding;
          cleared = base \<lparr> tb_Status := (tb_Status base) \<lparr> st_ServiceClusterIP := '''', st_Snapshot := None \<rparr> \<rparr> in
      setCondition ''Restored'' False ''Paused'' ''TrafficBinding is retained''
        (setCondition ''Paused'' True ''Paused'' ''TrafficBinding resources were restored''
          (setCondition ''Degraded'' False ''Paused'' ''Pausing completed''
            (setCondition ''Ready'' False ''Paused'' ''TrafficBinding is paused''
              (setCondition ''Progressing'' False ''Paused'' ''Pausing completed'' (specAccepted cleared))))))"

definition setPaused :: "api_env \<Rightarrow> TrafficBinding \<Rightarrow> unit api" where
  "setPaused env binding = patchStatus env (pausedStatus binding) binding"

definition restoredStatus :: "TrafficBinding \<Rightarrow> TrafficBinding" where
  "restoredStatus binding =
     setCondition ''Paused'' False ''Restored'' ''TrafficBinding is being deleted''
       (setCondition ''Restored'' True ''Restored'' ''TrafficBinding resources were restored''
         (setCondition ''Degraded'' False ''Restored'' ''Restoration completed''
           (setCondition ''Ready'' False ''Restored'' ''TrafficBinding is no longer active''
             (setCondition ''Progressing'' False ''Restored'' ''Restoration completed'' (specAccepted (observed Restored binding))))))"

definition setRestored :: "api_env \<Rightarrow> TrafficBinding \<Rightarrow> unit api" where
  "setRestored env binding = patchStatus env (restoredStatus binding) binding"

section \<open>The reconcile loop\<close>

definition bindingFinalizer :: string where "bindingFinalizer = ''traffic.kubeloop.io/finalizer''"
definition retryAfter :: duration where "retryAfter = 5 * Second"
definition targetRecheckAfter :: duration where "targetRecheckAfter = 30 * Second"

definition desiredState :: "TrafficBinding \<Rightarrow> TrafficBindingDesiredState" where
  "desiredState binding =
     (if sp_DesiredState (tb_Spec binding) = UnsetState then StateActive else sp_DesiredState (tb_Spec binding))"

definition awaitingRelay :: "TrafficBinding \<Rightarrow> bool" where
  "awaitingRelay binding \<longleftrightarrow> sp_Mode (tb_Spec binding) \<noteq> ModePortForward \<and> sp_Relay (tb_Spec binding) = None"

definition unsupportedMode :: "TrafficBinding \<Rightarrow> k8s_error" where
  "unsupportedMode binding = Permanent (''spec.mode '' @ quoted (modeText (sp_Mode (tb_Spec binding))) @ '' is unsupported'')"

text \<open>The result has the binding in memory with the fields of the status that the call sets.\<close>

definition reconcileActive :: "api_env \<Rightarrow> TrafficBinding \<Rightarrow> (duration \<times> bool \<times> TrafficBinding) api" where
  "reconcileActive env binding =
     (case sp_Mode (tb_Spec binding) of
        ModePortForward \<Rightarrow> bindA (validateTarget env binding) (\<lambda>_. returnA (targetRecheckAfter, True, binding))
      | ModePreview \<Rightarrow>
          bindA (reconcilePreview env binding) (\<lambda>service.
            returnA (0, True, binding \<lparr> tb_Status := (tb_Status binding)
              \<lparr> st_ServiceName := the (sp_Preview (tb_Spec binding)), st_ServiceClusterIP := sv_ClusterIP service \<rparr> \<rparr>))
      | OtherMode _ \<Rightarrow> failA (unsupportedMode binding)
      | _ \<Rightarrow>
          if st_Snapshot (tb_Status binding) = None
          then bindA (captureService env binding) (\<lambda>snapshot.
               bindA (persistSnapshot env binding snapshot) (\<lambda>_. returnA (Millisecond, False, binding)))
          else let active = binding \<lparr> tb_Status := (tb_Status binding)
                     \<lparr> st_ServiceName := tt_Name (the (sp_Target (tb_Spec binding))), st_ServiceClusterIP := '''' \<rparr> \<rparr> in
            bindA (reconcileIntercept env active) (\<lambda>_. returnA (0, True, active)))"

definition cleanup :: "api_env \<Rightarrow> TrafficBinding \<Rightarrow> unit api" where
  "cleanup env binding =
     (case sp_Mode (tb_Spec binding) of
        ModePortForward \<Rightarrow> returnA ()
      | ModePreview \<Rightarrow> deletePreview env binding
      | OtherMode _ \<Rightarrow> failA (unsupportedMode binding)
      | _ \<Rightarrow> if st_Snapshot (tb_Status binding) = None then cleanupInterceptWithoutSnapshot env binding
             else restoreService env binding)"

definition cleanupForPause :: "api_env \<Rightarrow> TrafficBinding \<Rightarrow> unit api" where
  "cleanupForPause env binding = cleanup env binding"

definition cleanupForDeletion :: "api_env \<Rightarrow> TrafficBinding \<Rightarrow> unit api" where
  "cleanupForDeletion env binding =
     (if desiredState binding = StatePaused then cleanupForPause env binding else cleanup env binding)"

text \<open>The caller repeats the reconciliation after the given time; with an error it repeats it by its own schedule.\<close>

definition reconcilePaused :: "api_env \<Rightarrow> TrafficBinding \<Rightarrow> duration api" where
  "reconcilePaused env binding =
     (let phase = st_Phase (tb_Status binding) in
      if phase = Paused \<and> st_ObservedGeneration (tb_Status binding) = tb_Generation binding then returnA 0
      else if phase = Paused \<or> phase = Pending \<or> phase = NoPhase then bindA (setPaused env binding) (\<lambda>_. returnA 0)
      else if phase \<noteq> Pausing then bindA (setPausing env binding) (\<lambda>_. returnA Millisecond)
      else tryA (cleanupForPause env binding) (\<lambda>cleaned.
        case cleaned of
          Inl err \<Rightarrow>
            tryA (setPauseFailed env binding err) (\<lambda>written.
              case written of
                Inl statusErr \<Rightarrow> failA (Joined err statusErr)
              | Inr _ \<Rightarrow> bindA (recordEvent ''Warning'' ''PauseFailed'' (safeMessage err)) (\<lambda>_. failA err))
        | Inr _ \<Rightarrow>
            bindA (setPaused env binding) (\<lambda>_.
            bindA (recordEvent ''Normal'' ''Paused'' ''TrafficBinding resources were restored and paused'') (\<lambda>_. returnA 0))))"

definition reconcileDeletion :: "api_env \<Rightarrow> TrafficBinding \<Rightarrow> duration api" where
  "reconcileDeletion env binding =
     (let phase = st_Phase (tb_Status binding) in
      if bindingFinalizer \<notin> set (tb_Finalizers binding) then returnA 0
      else if phase = Restored
      then tryA (PatchBinding env binding (binding \<lparr> tb_Finalizers := removeAll bindingFinalizer (tb_Finalizers binding) \<rparr>)) (\<lambda>r.
             case r of Inl e \<Rightarrow> if isNotFound e then returnA 0 else failA e | Inr _ \<Rightarrow> returnA 0)
      else if phase = Paused then bindA (setRestored env binding) (\<lambda>_. returnA Millisecond)
      else if phase \<noteq> Restoring then bindA (setRestoring env binding) (\<lambda>_. returnA Millisecond)
      else tryA (cleanupForDeletion env binding) (\<lambda>cleaned.
        case cleaned of
          Inl err \<Rightarrow>
            tryA (setRestoreFailed env binding err) (\<lambda>written.
              case written of
                Inl statusErr \<Rightarrow> failA (Joined err statusErr)
              | Inr _ \<Rightarrow> bindA (recordEvent ''Warning'' ''RestoreFailed'' (safeMessage err)) (\<lambda>_. failA err))
        | Inr _ \<Rightarrow>
            bindA (setRestored env binding) (\<lambda>_.
            bindA (recordEvent ''Normal'' ''Restored'' ''TrafficBinding resources were restored'') (\<lambda>_. returnA Millisecond))))"

definition runActive :: "api_env \<Rightarrow> TrafficBinding \<Rightarrow> duration api" where
  "runActive env binding =
     tryA (reconcileActive env binding) (\<lambda>outcome.
       case outcome of
         Inr (result, complete, active) \<Rightarrow>
           if \<not> complete then returnA result
           else bindA (setReady env active binding) (\<lambda>_. returnA result)
       | Inl err \<Rightarrow>
           tryA (setDegraded env binding (reasonFor err) err) (\<lambda>written.
             case written of
               Inl statusErr \<Rightarrow> failA (Joined err statusErr)
             | Inr _ \<Rightarrow> bindA (recordEvent ''Warning'' (reasonFor err) (safeMessage err)) (\<lambda>_.
                 if isPermanent err then returnA 0 else failA err)))"

definition reconcileBinding :: "api_env \<Rightarrow> TrafficBinding \<Rightarrow> duration api" where
  "reconcileBinding env binding =
     (if tb_Deleting binding then reconcileDeletion env binding
      else case validateBinding (ae_lib env) binding of
        Inl err \<Rightarrow> tryA (setDegraded env binding ''InvalidSpec'' err) (\<lambda>_. returnA 0)
      | Inr _ \<Rightarrow>
          if bindingFinalizer \<notin> set (tb_Finalizers binding)
          then bindA (PatchBinding env binding (binding \<lparr> tb_Finalizers := tb_Finalizers binding @ [bindingFinalizer] \<rparr>)) (\<lambda>stored.
               bindA (setPending env stored) (\<lambda>_. returnA Millisecond))
          else if desiredState binding = StatePaused then reconcilePaused env binding
          else if awaitingRelay binding
          then bindA (if st_Phase (tb_Status binding) \<noteq> Pending \<or>
                         st_ObservedGeneration (tb_Status binding) \<noteq> tb_Generation binding
                      then setPending env binding else returnA ()) (\<lambda>_. returnA 0)
          else if st_Phase (tb_Status binding) \<noteq> Ready \<and> st_Phase (tb_Status binding) \<noteq> Reconciling
          then bindA (setReconciling env binding) (\<lambda>_. returnA Millisecond)
          else runActive env binding)"

definition Reconcile :: "api_env \<Rightarrow> string \<Rightarrow> duration api" where
  "Reconcile env name =
     tryA (GetBinding env name) (\<lambda>got.
       case got of
         Inl e \<Rightarrow> if isNotFound e then returnA 0 else failA e
       | Inr binding \<Rightarrow> reconcileBinding env binding)"

end
