(* ===== verification/BindingSafety.thy ===== *)
theory BindingSafety
  imports BindingReconcile
begin

text \<open>
  The Operator never loses the state it has to give back: whatever calls fail or lose their answer, and whatever the
  other clients of the API server do within the limits of \<open>gentle\<close>, a Service that is taken over has its rollback
  snapshot in the status of its TrafficBinding, and the TrafficBinding cannot disappear before the Service is given
  back. The theory has a small logic for programs of calls; the lemmas about single calls and about the Operator's
  functions follow the order of the code.
\<close>

section \<open>What other clients may do\<close>

text \<open>
  The binding \<open>nm\<close> with the UID \<open>uid\<close> takes over the Service \<open>sn\<close> with the UID \<open>su\<close> and the selector \<open>sel\<close>.
\<close>

record target =
  tg_Binding :: string
  tg_UID :: string
  tg_Service :: string
  tg_ServiceUID :: string
  tg_Selector :: smap

definition claims :: "target \<Rightarrow> Service \<Rightarrow> bool" where
  "claims g sv \<longleftrightarrow> at (sv_Annotations sv) bindingUIDAnnotation = tg_UID g"

definition same_service :: "target \<Rightarrow> Service \<Rightarrow> Service \<Rightarrow> bool" where
  "same_service g sv sv' \<longleftrightarrow> sv_UID sv' = sv_UID sv \<and> map_of (sv_Selector sv') = map_of (sv_Selector sv) \<and>
     (claims g sv' \<longleftrightarrow> claims g sv)"

text \<open>The relay assignment is taken back only from a paused binding.\<close>

definition same_binding :: "TrafficBinding \<Rightarrow> TrafficBinding \<Rightarrow> bool" where
  "same_binding b b' \<longleftrightarrow> tb_Name b' = tb_Name b \<and> tb_UID b' = tb_UID b \<and> tb_Finalizers b' = tb_Finalizers b \<and>
     sp_Mode (tb_Spec b') = sp_Mode (tb_Spec b) \<and> sp_Target (tb_Spec b') = sp_Target (tb_Spec b) \<and>
     st_Phase (tb_Status b') = st_Phase (tb_Status b) \<and> st_Snapshot (tb_Status b') = st_Snapshot (tb_Status b) \<and>
     (sp_Relay (tb_Spec b) \<noteq> None \<and> sp_Relay (tb_Spec b') = None \<longrightarrow> st_Phase (tb_Status b) = Paused)"

text \<open>
  Other clients may delete the Service, edit everything of it but its selector and the Operator's mark, and edit
  the binding as far as \<open>same_binding\<close> allows; a binding with finalizers stays.
\<close>

definition gentle :: "target \<Rightarrow> cluster \<Rightarrow> cluster \<Rightarrow> bool" where
  "gentle g cl cl' \<longleftrightarrow>
     (\<forall>sv'. map_of (cl_Services cl') (tg_Service g) = Some sv' \<longrightarrow>
        (\<exists>sv. map_of (cl_Services cl) (tg_Service g) = Some sv \<and> same_service g sv sv')) \<and>
     (\<forall>b'. map_of (cl_Bindings cl') (tg_Binding g) = Some b' \<longrightarrow>
        (\<exists>b. map_of (cl_Bindings cl) (tg_Binding g) = Some b \<and> same_binding b b')) \<and>
     (\<forall>b. map_of (cl_Bindings cl) (tg_Binding g) = Some b \<and> tb_Finalizers b \<noteq> [] \<longrightarrow>
        (\<exists>b'. map_of (cl_Bindings cl') (tg_Binding g) = Some b'))"

text \<open>A failure of the server is never the answer that an object does not exist.\<close>

definition others_ok :: "target \<Rightarrow> api_env \<Rightarrow> bool" where
  "others_ok g env \<longleftrightarrow> (\<forall>k cl. gentle g cl (ae_others env k cl)) \<and>
     (\<forall>k e. ae_fault env k = Some (Refused e) \<or> ae_fault env k = Some (AnswerLost e) \<longrightarrow> \<not> isNotFound e)"

lemma same_service_refl: "same_service g sv sv"
  by (simp add: same_service_def)

lemma same_binding_refl: "same_binding b b"
  by (auto simp: same_binding_def)

lemma gentle_refl: "gentle g cl cl"
  unfolding gentle_def using same_service_refl same_binding_refl by blast

lemma same_service_trans: "same_service g a b \<Longrightarrow> same_service g b c \<Longrightarrow> same_service g a c"
  by (simp add: same_service_def)

lemma same_binding_trans: "same_binding a b \<Longrightarrow> same_binding b c \<Longrightarrow> same_binding a c"
  by (auto simp: same_binding_def)

lemma gentle_trans:
  assumes "gentle g a b" "gentle g b c"
  shows "gentle g a c"
proof -
  have "\<exists>sv. map_of (cl_Services a) (tg_Service g) = Some sv \<and> same_service g sv sv'"
    if "map_of (cl_Services c) (tg_Service g) = Some sv'" for sv'
    using assms that unfolding gentle_def by (meson same_service_trans)
  moreover have "\<exists>x. map_of (cl_Bindings a) (tg_Binding g) = Some x \<and> same_binding x x'"
    if "map_of (cl_Bindings c) (tg_Binding g) = Some x'" for x'
    using assms that unfolding gentle_def by (meson same_binding_trans)
  moreover have "\<exists>x'. map_of (cl_Bindings c) (tg_Binding g) = Some x'"
    if x: "map_of (cl_Bindings a) (tg_Binding g) = Some x" "tb_Finalizers x \<noteq> []" for x
  proof -
    obtain y where y: "map_of (cl_Bindings b) (tg_Binding g) = Some y" using assms(1) x unfolding gentle_def by blast
    then have "tb_Finalizers y \<noteq> []" using assms(1) x unfolding gentle_def same_binding_def by force
    then show ?thesis using assms(2) y unfolding gentle_def by blast
  qed
  ultimately show ?thesis unfolding gentle_def by blast
qed

section \<open>A logic for programs of calls\<close>

definition outcome :: "('a \<Rightarrow> cluster \<Rightarrow> bool) \<Rightarrow> (k8s_error \<Rightarrow> cluster \<Rightarrow> bool)
    \<Rightarrow> (k8s_error + 'a) \<times> cluster \<times> nat \<Rightarrow> bool" where
  "outcome Q E res = (case res of (Inr x, cl, _) \<Rightarrow> Q x cl | (Inl e, cl, _) \<Rightarrow> E e cl)"

lemma outcome_simps [simp]: "outcome Q E (Inr x, cl, k) = Q x cl" "outcome Q E (Inl e, cl, k) = E e cl"
  by (simp_all add: outcome_def)

definition valid ::
  "(cluster \<Rightarrow> bool) \<Rightarrow> 'a api \<Rightarrow> ('a \<Rightarrow> cluster \<Rightarrow> bool) \<Rightarrow> (k8s_error \<Rightarrow> cluster \<Rightarrow> bool) \<Rightarrow> bool" where
  "valid P m Q E \<longleftrightarrow> (\<forall>cl k. P cl \<longrightarrow> outcome Q E (m (cl, k)))"

definition inert :: "target \<Rightarrow> 'a api \<Rightarrow> bool" where
  "inert g m \<longleftrightarrow> (\<forall>cl k r cl' k'. m (cl, k) = (r, cl', k') \<longrightarrow> gentle g cl cl')"

definition stable :: "target \<Rightarrow> (cluster \<Rightarrow> bool) \<Rightarrow> bool" where
  "stable g P \<longleftrightarrow> (\<forall>cl cl'. P cl \<longrightarrow> gentle g cl cl' \<longrightarrow> P cl')"

lemma valid_return: "(\<And>cl. P cl \<Longrightarrow> Q x cl) \<Longrightarrow> valid P (returnA x) Q E"
  by (auto simp: valid_def returnA_def)

lemma valid_fail: "(\<And>cl. P cl \<Longrightarrow> E e cl) \<Longrightarrow> valid P (failA e) Q E"
  by (auto simp: valid_def failA_def)

lemma valid_lift: "(\<And>x cl. r = Inr x \<Longrightarrow> P cl \<Longrightarrow> Q x cl) \<Longrightarrow> (\<And>e cl. r = Inl e \<Longrightarrow> P cl \<Longrightarrow> E e cl) \<Longrightarrow> valid P (liftA r) Q E"
  by (cases r) (auto simp: valid_def liftA_def)

lemma valid_bind:
  assumes "valid P m R E" and "\<And>x. valid (R x) (f x) Q E"
  shows "valid P (bindA m f) Q E"
  unfolding valid_def
proof (intro allI impI)
  fix cl k assume "P cl"
  then have m: "outcome R E (m (cl, k))" using assms(1) by (simp add: valid_def)
  obtain r cl' k' where run: "m (cl, k) = (r, cl', k')" by (cases "m (cl, k)") auto
  show "outcome Q E (bindA m f (cl, k))"
    using m run assms(2) by (cases r) (auto simp: bindA_def valid_def)
qed

lemma valid_try:
  assumes "valid P m R S" and "\<And>x. valid (R x) (f (Inr x)) Q E" and "\<And>e. valid (S e) (f (Inl e)) Q E"
  shows "valid P (tryA m f) Q E"
  unfolding valid_def
proof (intro allI impI)
  fix cl k assume "P cl"
  then have m: "outcome R S (m (cl, k))" using assms(1) by (simp add: valid_def)
  obtain r cl' k' where run: "m (cl, k) = (r, cl', k')" by (cases "m (cl, k)") auto
  show "outcome Q E (tryA m f (cl, k))"
    using m run assms(2,3) by (cases r) (auto simp: tryA_def valid_def)
qed

lemma valid_weaken:
  "valid P' m Q' E' \<Longrightarrow> (\<And>cl. P cl \<Longrightarrow> P' cl) \<Longrightarrow> (\<And>x cl. Q' x cl \<Longrightarrow> Q x cl) \<Longrightarrow> (\<And>e cl. E' e cl \<Longrightarrow> E e cl) \<Longrightarrow> valid P m Q E"
  unfolding valid_def outcome_def by (fastforce split: sum.splits prod.splits)

lemma valid_if: "(c \<Longrightarrow> valid P m Q E) \<Longrightarrow> (\<not> c \<Longrightarrow> valid P m' Q E) \<Longrightarrow> valid P (if c then m else m') Q E"
  by simp

lemma valid_inert: "inert g m \<Longrightarrow> stable g P \<Longrightarrow> valid P m (\<lambda>_. P) (\<lambda>_. P)"
  unfolding valid_def inert_def stable_def outcome_def by (fastforce split: sum.splits prod.splits)

text \<open>A result of an inert program that is known to satisfy a property of the cluster it started in.\<close>

lemma inert_return [intro]: "inert g (returnA x)"
  by (auto simp: inert_def returnA_def gentle_refl)

lemma inert_fail [intro]: "inert g (failA e)"
  by (auto simp: inert_def failA_def gentle_refl)

lemma inert_lift [intro]: "inert g (liftA r)"
  by (auto simp: inert_def liftA_def gentle_refl)

lemma inert_bind [intro]: "inert g m \<Longrightarrow> (\<And>x. inert g (f x)) \<Longrightarrow> inert g (bindA m f)"
  unfolding inert_def bindA_def by (fastforce split: sum.splits prod.splits intro: gentle_trans)

lemma inert_try [intro]: "inert g m \<Longrightarrow> (\<And>x. inert g (f x)) \<Longrightarrow> inert g (tryA m f)"
  unfolding inert_def tryA_def by (fastforce split: prod.splits intro: gentle_trans)

lemma inert_for [intro]: "(\<And>x. inert g (f x)) \<Longrightarrow> inert g (forA xs f)"
  by (induction xs) auto

lemma inert_ignoreNotFound [intro]: "inert g m \<Longrightarrow> inert g (ignoreNotFound m)"
  unfolding ignoreNotFound_def by (rule inert_try) (auto split: sum.split)

lemma call_cases:
  assumes "call env f (cl, k) = (r, cl', k')"
  obtains "cl' = ae_others env k cl" "isl r"
    | "cl' = snd (f k (ae_others env k cl))" "isl r \<or> r = fst (f k (ae_others env k cl))"
  using assms by (auto simp: call_def Let_def split: option.splits fault.splits prod.splits)

lemma inert_call:
  assumes "others_ok g env" and "\<And>k cl. cl_Services (snd (f k cl)) = cl_Services cl \<and> cl_Bindings (snd (f k cl)) = cl_Bindings cl"
  shows "inert g (call env f)"
  unfolding inert_def
proof (intro allI impI)
  fix cl k r cl' k'
  assume c: "call env f (cl, k) = (r, cl', k')"
  let ?o = "ae_others env k cl"
  have o: "gentle g cl ?o" using assms(1) by (simp add: others_ok_def)
  have "gentle g ?o (snd (f k ?o))" using assms(2) [of k ?o] gentle_refl [of g ?o] by (simp add: gentle_def)
  with o gentle_trans have "gentle g cl (snd (f k ?o))" by blast
  with o show "gentle g cl cl'" using call_cases [OF c] by blast
qed

lemma inert_calls [intro]:
  assumes "others_ok g env"
  shows "inert g (GetBinding env n)" "inert g (GetService env n)" "inert g (GetSlice env n)" "inert g (GetEndpoints env n)"
    "inert g (GetPod env n)" "inert g (ListSlices env n)" "inert g (PatchSlice env n a b)" "inert g (CreateSlice env n s)"
    "inert g (CreateEndpoints env n ep)" "inert g (UpdateSlice env n a b)" "inert g (UpdateEndpoints env n c d)"
    "inert g (DeleteSlice env n)" "inert g (DeleteEndpoints env n)"
  unfolding GetBinding_def GetService_def GetSlice_def GetEndpoints_def GetPod_def ListSlices_def PatchSlice_def
    CreateSlice_def CreateEndpoints_def UpdateSlice_def UpdateEndpoints_def DeleteSlice_def DeleteEndpoints_def
  by (rule inert_call [OF assms]; auto split: option.splits prod.splits simp: Let_def)+

lemma inert_event [intro]: "inert g (recordEvent t r m)"
  by (auto simp: inert_def recordEvent_def gentle_def same_service_refl same_binding_refl)

section \<open>The invariant\<close>

abbreviation storedService :: "target \<Rightarrow> cluster \<Rightarrow> Service option" where
  "storedService g cl \<equiv> map_of (cl_Services cl) (tg_Service g)"

abbreviation storedBinding :: "target \<Rightarrow> cluster \<Rightarrow> TrafficBinding option" where
  "storedBinding g cl \<equiv> map_of (cl_Bindings cl) (tg_Binding g)"

definition held :: "target \<Rightarrow> cluster \<Rightarrow> bool" where
  "held g cl \<longleftrightarrow> (\<exists>sv. storedService g cl = Some sv \<and> claims g sv)"

definition idle :: "TrafficBindingPhase \<Rightarrow> bool" where
  "idle phase \<longleftrightarrow> phase \<in> {NoPhase, Pending, Paused, Restored}"

text \<open>A binding that protects the Service it holds.\<close>

definition guards :: "TrafficBinding \<Rightarrow> bool" where
  "guards b \<longleftrightarrow> bindingFinalizer \<in> set (tb_Finalizers b) \<and> st_Snapshot (tb_Status b) \<noteq> None \<and>
     \<not> idle (st_Phase (tb_Status b)) \<and> sp_Relay (tb_Spec b) \<noteq> None"

definition snapshot_ok :: "target \<Rightarrow> ServiceSnapshot option \<Rightarrow> bool" where
  "snapshot_ok g s = (case s of None \<Rightarrow> True
     | Some snap \<Rightarrow> sn_ServiceName snap = tg_Service g \<and> sn_ServiceUID snap = tg_ServiceUID g \<and>
         map_of (sn_Selector snap) = map_of (tg_Selector g))"

definition binding_ok :: "target \<Rightarrow> TrafficBinding \<Rightarrow> bool" where
  "binding_ok g b \<longleftrightarrow> tb_Name b = tg_Binding g \<and> tb_UID b = tg_UID g \<and>
     (sp_Mode (tb_Spec b) = ModeExchange \<or> sp_Mode (tb_Spec b) = ModeMirror) \<and>
     (\<exists>t. sp_Target (tb_Spec b) = Some t \<and> tt_Name t = tg_Service g) \<and> snapshot_ok g (st_Snapshot (tb_Status b))"

definition service_ok :: "target \<Rightarrow> Service \<Rightarrow> bool" where
  "service_ok g sv \<longleftrightarrow> sv_UID sv = tg_ServiceUID g \<and> (\<not> claims g sv \<longrightarrow> map_of (sv_Selector sv) = map_of (tg_Selector g))"

definition safe :: "target \<Rightarrow> cluster \<Rightarrow> bool" where
  "safe g cl \<longleftrightarrow> tg_UID g \<noteq> '''' \<and>
     (\<forall>sv. storedService g cl = Some sv \<longrightarrow> service_ok g sv) \<and>
     (\<forall>b. storedBinding g cl = Some b \<longrightarrow> binding_ok g b) \<and>
     (held g cl \<longrightarrow> (\<exists>b. storedBinding g cl = Some b \<and> guards b))"

text \<open>What stays true of an object that was read: the stored object is the same in what the Operator relies on.\<close>

definition read_binding :: "target \<Rightarrow> TrafficBinding \<Rightarrow> cluster \<Rightarrow> bool" where
  "read_binding g b cl \<longleftrightarrow> (\<forall>b'. storedBinding g cl = Some b' \<longrightarrow> same_binding b b') \<and>
     (tb_Finalizers b \<noteq> [] \<longrightarrow> storedBinding g cl \<noteq> None)"

definition read_service :: "target \<Rightarrow> Service \<Rightarrow> cluster \<Rightarrow> bool" where
  "read_service g sv cl \<longleftrightarrow> (\<forall>sv'. storedService g cl = Some sv' \<longrightarrow> same_service g sv sv')"

lemma gentle_service:
  "gentle g cl cl' \<Longrightarrow> storedService g cl' = Some sv' \<Longrightarrow> \<exists>sv. storedService g cl = Some sv \<and> same_service g sv sv'"
  unfolding gentle_def by blast

lemma gentle_binding:
  "gentle g cl cl' \<Longrightarrow> storedBinding g cl' = Some b' \<Longrightarrow> \<exists>b. storedBinding g cl = Some b \<and> same_binding b b'"
  unfolding gentle_def by blast

lemma gentle_kept:
  "gentle g cl cl' \<Longrightarrow> storedBinding g cl = Some b \<Longrightarrow> tb_Finalizers b \<noteq> [] \<Longrightarrow> \<exists>b'. storedBinding g cl' = Some b' \<and> same_binding b b'"
  unfolding gentle_def by (metis option.inject)

lemma guards_same: "guards b \<Longrightarrow> same_binding b b' \<Longrightarrow> guards b'"
  by (auto simp: guards_def same_binding_def idle_def)

lemma gentle_held: "gentle g cl cl' \<Longrightarrow> held g cl' \<Longrightarrow> held g cl"
  unfolding held_def using gentle_service by (fastforce simp: same_service_def)

lemma stable_safe [intro]: "stable g (safe g)"
  unfolding stable_def
proof (intro allI impI)
  fix cl cl' assume s: "safe g cl" and gen: "gentle g cl cl'"
  have "service_ok g sv'" if "storedService g cl' = Some sv'" for sv'
    using gentle_service [OF gen that] s by (auto simp: safe_def service_ok_def same_service_def)
  moreover have "binding_ok g b'" if "storedBinding g cl' = Some b'" for b'
    using gentle_binding [OF gen that] s by (auto simp: safe_def binding_ok_def same_binding_def)
  moreover have "\<exists>b. storedBinding g cl' = Some b \<and> guards b" if h: "held g cl'"
  proof -
    obtain b where "storedBinding g cl = Some b" "guards b" using s gentle_held [OF gen h] by (auto simp: safe_def)
    moreover from this have "tb_Finalizers b \<noteq> []" by (auto simp: guards_def)
    ultimately show ?thesis using gentle_kept [OF gen] guards_same by blast
  qed
  ultimately show "safe g cl'" using s by (simp add: safe_def)
qed

lemma stable_not_held [intro]: "stable g (\<lambda>cl. \<not> held g cl)"
  unfolding stable_def using gentle_held by blast

lemma stable_read_binding [intro]: "stable g (read_binding g b)"
  unfolding stable_def
proof (intro allI impI)
  fix cl cl' assume r: "read_binding g b cl" and gen: "gentle g cl cl'"
  have "same_binding b b'" if "storedBinding g cl' = Some b'" for b'
    using gentle_binding [OF gen that] r same_binding_trans unfolding read_binding_def by blast
  moreover have "storedBinding g cl' \<noteq> None" if f: "tb_Finalizers b \<noteq> []"
  proof -
    obtain b1 where b1: "storedBinding g cl = Some b1" "same_binding b b1" using r f unfolding read_binding_def by blast
    then have "tb_Finalizers b1 \<noteq> []" using f by (simp add: same_binding_def)
    then show ?thesis using gentle_kept [OF gen b1(1)] by blast
  qed
  ultimately show "read_binding g b cl'" by (simp add: read_binding_def)
qed

lemma stable_read_service [intro]: "stable g (read_service g sv)"
  unfolding stable_def read_service_def using gentle_service same_service_trans by blast

lemma stable_conj [intro]: "stable g P \<Longrightarrow> stable g Q \<Longrightarrow> stable g (\<lambda>cl. P cl \<and> Q cl)"
  unfolding stable_def by blast

lemma stable_const [intro]: "stable g (\<lambda>_. c)"
  by (simp add: stable_def)

lemma stable_imp_const [intro]: "stable g Q \<Longrightarrow> stable g (\<lambda>cl. c \<longrightarrow> Q cl)"
  unfolding stable_def by blast

text \<open>Calls: the state before the call's effect is the one the other clients left.\<close>

lemma valid_call:
  assumes ok: "others_ok g env" and P: "stable g P"
    and effect: "\<And>k cl. P cl \<Longrightarrow> case f k cl of (Inr x, cl') \<Rightarrow> Q x cl' \<and> (\<forall>e. \<not> isNotFound e \<longrightarrow> E e cl')
        | (Inl e, cl') \<Rightarrow> E e cl' \<and> (\<forall>e'. \<not> isNotFound e' \<longrightarrow> E e' cl')"
    and lost: "\<And>e cl. P cl \<Longrightarrow> \<not> isNotFound e \<Longrightarrow> E e cl"
  shows "valid P (call env f) Q E"
  unfolding valid_def
proof (intro allI impI)
  fix cl k assume "P cl"
  then have p: "P (ae_others env k cl)" using ok P unfolding others_ok_def stable_def by blast
  have nf: "\<not> isNotFound e" if "ae_fault env k = Some (Refused e) \<or> ae_fault env k = Some (AnswerLost e)" for e
    using ok that unfolding others_ok_def by blast
  show "outcome Q E (call env f (cl, k))"
    using effect [OF p, of k] lost [OF p] nf
    by (auto simp: call_def Let_def split: option.splits fault.splits prod.splits sum.splits)
qed

section \<open>Reads and writes\<close>

text \<open>What is known of the cluster from a binding that was read.\<close>

definition frees :: "TrafficBinding \<Rightarrow> bool" where
  "frees b \<longleftrightarrow> \<not> guards b"

definition known :: "target \<Rightarrow> TrafficBinding \<Rightarrow> cluster \<Rightarrow> bool" where
  "known g b cl \<longleftrightarrow> safe g cl \<and> read_binding g b cl \<and> binding_ok g b \<and> (frees b \<longrightarrow> \<not> held g cl)"

lemma stable_known [intro]: "stable g (known g b)"
  unfolding known_def by (intro stable_conj stable_imp_const) auto

lemma known_safe: "known g b cl \<Longrightarrow> safe g cl"
  by (simp add: known_def)

lemma valid_GetBinding:
  assumes "others_ok g env"
  shows "valid (safe g) (GetBinding env (tg_Binding g)) (known g) (\<lambda>_. safe g)"
  unfolding GetBinding_def
proof (rule valid_call [OF assms])
  fix k cl assume s: "safe g cl"
  show "case (lookupE ''trafficbindings'' (cl_Bindings cl) (tg_Binding g), cl) of
      (Inr b, cl') \<Rightarrow> known g b cl' \<and> (\<forall>e. \<not> isNotFound e \<longrightarrow> safe g cl')
    | (Inl e, cl') \<Rightarrow> safe g cl' \<and> (\<forall>e'. \<not> isNotFound e' \<longrightarrow> safe g cl')"
    using s by (auto simp: lookupE_def known_def safe_def read_binding_def same_binding_refl frees_def split: option.splits)
qed (auto split: sum.splits)

lemma valid_GetService:
  assumes "others_ok g env" and P: "stable g P" "\<And>cl. P cl \<Longrightarrow> safe g cl"
  shows "valid P (GetService env (tg_Service g))
    (\<lambda>sv cl. P cl \<and> service_ok g sv \<and> read_service g sv cl \<and> (\<not> held g cl \<longrightarrow> \<not> claims g sv))
    (\<lambda>e cl. P cl \<and> (isNotFound e \<longrightarrow> \<not> held g cl))"
  unfolding GetService_def
proof (rule valid_call [OF assms(1) P(1)])
  fix k cl assume p: "P cl"
  show "case (lookupE ''services'' (cl_Services cl) (tg_Service g), cl) of
      (Inr sv, cl') \<Rightarrow> (P cl' \<and> service_ok g sv \<and> read_service g sv cl' \<and> (\<not> held g cl' \<longrightarrow> \<not> claims g sv)) \<and>
        (\<forall>e. \<not> isNotFound e \<longrightarrow> P cl' \<and> (isNotFound e \<longrightarrow> \<not> held g cl'))
    | (Inl e, cl') \<Rightarrow> (P cl' \<and> (isNotFound e \<longrightarrow> \<not> held g cl')) \<and>
        (\<forall>e'. \<not> isNotFound e' \<longrightarrow> P cl' \<and> (isNotFound e' \<longrightarrow> \<not> held g cl'))"
    using p P(2) [OF p] by (auto simp: lookupE_def safe_def read_service_def same_service_refl held_def split: option.splits)
qed auto

text \<open>A write of the status keeps the invariant if it does not make the binding idle or forget a snapshot while
  the Service is held.\<close>

lemma valid_PatchStatus:
  assumes "others_ok g env" and P: "stable g P" "\<And>cl. P cl \<Longrightarrow> safe g cl"
    and name: "tb_Name before = tg_Binding g"
    and snap: "st_Snapshot (tb_Status after) = st_Snapshot (tb_Status before) \<or> snapshot_ok g (st_Snapshot (tb_Status after))"
    and busy: "\<And>cl. P cl \<Longrightarrow> held g cl \<Longrightarrow> \<not> idle (st_Phase (tb_Status after)) \<and>
       (st_Snapshot (tb_Status after) = st_Snapshot (tb_Status before) \<or> st_Snapshot (tb_Status after) \<noteq> None)"
  shows "valid P (PatchStatus env before after) (\<lambda>_ cl. safe g cl) (\<lambda>_. safe g)"
  unfolding PatchStatus_def
proof (rule valid_call [OF assms(1) P(1)])
  fix k cl assume p: "P cl"
  note s = P(2) [OF p]
  show "case (case map_of (cl_Bindings cl) (tb_Name before) of
        None \<Rightarrow> (Inl (NotFound (notFoundText ''trafficbindings'' (tb_Name before))), cl)
      | Some stored \<Rightarrow> let merged = stored \<lparr> tb_Status := mergeStatus (tb_Status before) (tb_Status after) (tb_Status stored) \<rparr> in
          (Inr merged, cl \<lparr> cl_Bindings := AList.update (tb_Name before) merged (cl_Bindings cl) \<rparr>)) of
      (Inr x, cl') \<Rightarrow> safe g cl' \<and> (\<forall>e. \<not> isNotFound e \<longrightarrow> safe g cl')
    | (Inl e, cl') \<Rightarrow> safe g cl' \<and> (\<forall>e'. \<not> isNotFound e' \<longrightarrow> safe g cl')"
  proof (cases "storedBinding g cl")
    case None
    then show ?thesis using s name by simp
  next
    case (Some stored)
    let ?merged = "stored \<lparr> tb_Status := mergeStatus (tb_Status before) (tb_Status after) (tb_Status stored) \<rparr>"
    let ?cl = "cl \<lparr> cl_Bindings := AList.update (tg_Binding g) ?merged (cl_Bindings cl) \<rparr>"
    have "binding_ok g ?merged"
      using s Some snap by (auto simp: safe_def binding_ok_def mergeStatus_def mergeValue_def)
    moreover have "guards ?merged" if "held g cl"
      using s Some busy [OF p that] that by (auto simp: safe_def guards_def mergeStatus_def mergeValue_def)
    ultimately have "safe g ?cl" using s by (auto simp: safe_def held_def AList.update_conv')
    then show ?thesis using name Some by (simp add: Let_def)
  qed
qed (use P(2) in auto)

lemma valid_PatchStatus_free:
  assumes "others_ok g env" "tb_Name before = tg_Binding g"
    and "st_Snapshot (tb_Status after) = st_Snapshot (tb_Status before) \<or> snapshot_ok g (st_Snapshot (tb_Status after))"
  shows "valid (\<lambda>cl. safe g cl \<and> \<not> held g cl) (PatchStatus env before after) (\<lambda>_ cl. safe g cl) (\<lambda>_. safe g)"
  by (rule valid_PatchStatus [OF assms(1)]) (use assms in auto)

section \<open>Taking over and giving back\<close>

lemma at_Some: "v \<noteq> '''' \<Longrightarrow> at m k = v \<longleftrightarrow> map_of m k = Some v"
  by (auto simp: at_def split: option.splits)

lemma apply_uid: "map_of (applyBindingAnnotations b m) bindingUIDAnnotation = Some (tb_UID b)"
  by (simp add: applyBindingAnnotations_def AList.update_conv' binding_keys)

lemma remove_uid: "map_of (sv_Annotations (removeBindingMetadata sv)) bindingUIDAnnotation = None"
  by (simp add: removeBindingMetadata_def AList.delete_conv' binding_keys)

lemma map_of_mergeMap_gen:
  "map_of (mergeMap before after stored) k =
    (if after = [] \<and> before = [] then map_of stored k
     else if k \<in> set (map fst after) then (if map_of before k = map_of after k then map_of stored k else map_of after k)
     else if after = [] \<or> k \<in> set (map fst before) then None else map_of stored k)"
  using map_of_mergeMap [of after before stored k] by (cases "after = []") (auto simp: mergeMap_def)

text \<open>The patch that takes a Service over marks it.\<close>

lemma taken_claims:
  assumes uid: "tb_UID b = tg_UID g" "tg_UID g \<noteq> ''''" and same: "same_service g sv stored"
    and ann: "sv_Annotations wanted = applyBindingAnnotations b (sv_Annotations sv)"
  shows "claims g (mergeService sv wanted stored)"
proof -
  have a: "map_of (sv_Annotations wanted) bindingUIDAnnotation = Some (tg_UID g)"
    using apply_uid [of b "sv_Annotations sv"] uid(1) ann by simp
  then have key: "bindingUIDAnnotation \<in> set (map fst (sv_Annotations wanted))"
    using map_of_eq_None_iff [of "sv_Annotations wanted" bindingUIDAnnotation] by auto
  then have "sv_Annotations wanted \<noteq> []" by auto
  then have "map_of (sv_Annotations (mergeService sv wanted stored)) bindingUIDAnnotation = Some (tg_UID g)"
    using a key same uid by (auto simp: mergeService_def map_of_mergeMap claims_def same_service_def at_Some)
  then show ?thesis using uid by (simp add: claims_def at_Some)
qed

text \<open>The patch that gives a Service back removes the mark and restores the selector.\<close>

lemma returned_service:
  assumes uid: "tg_UID g \<noteq> ''''" and same: "same_service g sv stored"
    and after: "after = removeBindingMetadata (sv \<lparr> sv_Selector := sel \<rparr>)"
  shows "\<not> claims g (mergeService sv after stored) \<and>
    map_of (sv_Selector (mergeService sv after stored)) = map_of sel"
proof -
  let ?u = bindingUIDAnnotation
  have gone: "map_of (sv_Annotations after) ?u = None" unfolding after by (rule remove_uid)
  then have out: "?u \<notin> set (map fst (sv_Annotations after))" by (simp add: map_of_eq_None_iff)
  have "map_of (sv_Annotations (mergeService sv after stored)) ?u \<noteq> Some (tg_UID g)"
  proof (cases "?u \<in> set (map fst (sv_Annotations sv))")
    case True
    then show ?thesis using out by (auto simp: mergeService_def map_of_mergeMap_gen)
  next
    case False
    then have "map_of (sv_Annotations sv) ?u = None" by (simp add: map_of_eq_None_iff)
    then have "map_of (sv_Annotations stored) ?u \<noteq> Some (tg_UID g)"
      using same uid by (simp add: same_service_def claims_def at_Some)
    then show ?thesis using out False by (auto simp: mergeService_def map_of_mergeMap_gen)
  qed
  moreover have "sv_Selector after = sel" by (simp add: after removeBindingMetadata_def)
  moreover have "map_of (sv_Selector stored) = map_of (sv_Selector sv)" using same by (simp add: same_service_def)
  ultimately show ?thesis
    using uid mergeMap_same by (simp add: claims_def at_Some mergeService_def)
qed

lemma safe_update_service:
  assumes "safe g cl" and "storedService g cl = Some stored" and "service_ok g sv'"
    and "claims g sv' \<Longrightarrow> \<exists>b. storedBinding g cl = Some b \<and> guards b"
  shows "safe g (cl \<lparr> cl_Services := AList.update (tg_Service g) sv' (cl_Services cl) \<rparr>)"
  using assms by (auto simp: safe_def held_def AList.update_conv')

lemma valid_PatchService_take:
  assumes ok: "others_ok g env" and b: "guards b" "binding_ok g b" and sv: "service_ok g sv"
    and ann: "sv_Annotations wanted = applyBindingAnnotations b (sv_Annotations sv)"
  shows "valid (\<lambda>cl. safe g cl \<and> read_binding g b cl \<and> read_service g sv cl)
    (PatchService env (tg_Service g) sv wanted) (\<lambda>_. safe g) (\<lambda>_. safe g)"
  unfolding PatchService_def
proof (rule valid_call [OF ok])
  show "stable g (\<lambda>cl. safe g cl \<and> read_binding g b cl \<and> read_service g sv cl)" by (intro stable_conj) auto
next
  fix k cl assume p: "safe g cl \<and> read_binding g b cl \<and> read_service g sv cl"
  obtain b' where b': "storedBinding g cl = Some b'" "guards b'"
    using p b(1) guards_same unfolding read_binding_def guards_def by (metis empty_iff list.set(1) option.exhaust b(1))
  show "case (case storedService g cl of
        None \<Rightarrow> (Inl (NotFound (notFoundText ''services'' (tg_Service g))), cl)
      | Some stored \<Rightarrow> let merged = mergeService sv wanted stored in
          (Inr merged, cl \<lparr> cl_Services := AList.update (tg_Service g) merged (cl_Services cl) \<rparr>)) of
      (Inr x, cl') \<Rightarrow> safe g cl' \<and> (\<forall>e. \<not> isNotFound e \<longrightarrow> safe g cl')
    | (Inl e, cl') \<Rightarrow> safe g cl' \<and> (\<forall>e'. \<not> isNotFound e' \<longrightarrow> safe g cl')"
  proof (cases "storedService g cl")
    case (Some stored)
    let ?m = "mergeService sv wanted stored"
    have same: "same_service g sv stored" using p Some by (simp add: read_service_def)
    have "claims g ?m"
      using taken_claims [OF _ _ same ann] b(2) p by (simp add: binding_ok_def safe_def)
    moreover have "sv_UID ?m = tg_ServiceUID g" using sv same by (simp add: mergeService_def service_ok_def same_service_def)
    ultimately have "safe g (cl \<lparr> cl_Services := AList.update (tg_Service g) ?m (cl_Services cl) \<rparr>)"
      using safe_update_service [of g cl stored ?m] p Some b' by (simp add: service_ok_def)
    then show ?thesis using Some by (simp add: Let_def)
  qed (use p in simp)
qed auto

lemma valid_PatchService_return:
  assumes ok: "others_ok g env" and snap: "snapshot_ok g (Some snap)" and sv: "service_ok g sv"
  shows "valid (\<lambda>cl. safe g cl \<and> read_service g sv cl)
    (PatchService env (tg_Service g) sv (removeBindingMetadata (sv \<lparr> sv_Selector := sn_Selector snap \<rparr>)))
    (\<lambda>_ cl. safe g cl \<and> \<not> held g cl) (\<lambda>_. safe g)"
  unfolding PatchService_def
proof (rule valid_call [OF ok])
  show "stable g (\<lambda>cl. safe g cl \<and> read_service g sv cl)" by (intro stable_conj) auto
next
  let ?after = "removeBindingMetadata (sv \<lparr> sv_Selector := sn_Selector snap \<rparr>)"
  fix k cl assume p: "safe g cl \<and> read_service g sv cl"
  show "case (case storedService g cl of
        None \<Rightarrow> (Inl (NotFound (notFoundText ''services'' (tg_Service g))), cl)
      | Some stored \<Rightarrow> let merged = mergeService sv ?after stored in
          (Inr merged, cl \<lparr> cl_Services := AList.update (tg_Service g) merged (cl_Services cl) \<rparr>)) of
      (Inr x, cl') \<Rightarrow> (safe g cl' \<and> \<not> held g cl') \<and> (\<forall>e. \<not> isNotFound e \<longrightarrow> safe g cl')
    | (Inl e, cl') \<Rightarrow> safe g cl' \<and> (\<forall>e'. \<not> isNotFound e' \<longrightarrow> safe g cl')"
  proof (cases "storedService g cl")
    case (Some stored)
    let ?m = "mergeService sv ?after stored"
    have same: "same_service g sv stored" using p Some by (simp add: read_service_def)
    have m: "\<not> claims g ?m" "map_of (sv_Selector ?m) = map_of (sn_Selector snap)"
      using returned_service [OF _ same] p by (auto simp: safe_def)
    moreover have "sv_UID ?m = tg_ServiceUID g" using sv same by (simp add: mergeService_def service_ok_def same_service_def)
    ultimately have "safe g (cl \<lparr> cl_Services := AList.update (tg_Service g) ?m (cl_Services cl) \<rparr>)"
      using safe_update_service [of g cl stored ?m] p Some snap by (simp add: service_ok_def snapshot_ok_def)
    then show ?thesis using Some m by (simp add: Let_def held_def AList.update_conv')
  qed (use p in simp)
qed auto

section \<open>The Operator's functions\<close>

lemma inert_option [intro]: "inert g m \<Longrightarrow> (\<And>x. inert g (f x)) \<Longrightarrow> inert g (case y of None \<Rightarrow> m | Some x \<Rightarrow> f x)"
  by (cases y) auto

lemma inert_sum [intro]: "(\<And>x. inert g (f x)) \<Longrightarrow> (\<And>x. inert g (h x)) \<Longrightarrow> inert g (case y of Inl x \<Rightarrow> f x | Inr x \<Rightarrow> h x)"
  by (cases y) auto

lemma inert_if [intro]: "inert g m \<Longrightarrow> inert g n \<Longrightarrow> inert g (if c then m else n)"
  by simp

lemma inert_createOrGetSlice [intro]: "others_ok g env \<Longrightarrow> inert g (createOrGetSlice env n s)"
  unfolding createOrGetSlice_def by (intro inert_try inert_sum inert_if inert_bind inert_return inert_fail inert_calls)

lemma inert_reconcileRelaySlice [intro]: "others_ok g env \<Longrightarrow> inert g (reconcileRelaySlice env b n sv ports)"
  unfolding reconcileRelaySlice_def Let_def
  by (intro inert_bind inert_lift inert_createOrGetSlice inert_option inert_if inert_return inert_fail inert_calls)

lemma inert_deleteManagedSlice [intro]: "others_ok g env \<Longrightarrow> inert g (deleteManagedSlice env b)"
  unfolding deleteManagedSlice_def Let_def
  by (intro inert_try inert_sum inert_if inert_return inert_fail inert_ignoreNotFound inert_calls)

lemma inert_restoreEndpointSlice [intro]: "others_ok g env \<Longrightarrow> inert g (restoreEndpointSlice env s)"
  unfolding restoreEndpointSlice_def Let_def by (intro inert_bind inert_createOrGetSlice inert_option inert_return inert_calls)

lemma inert_restoreEndpoints [intro]: "others_ok g env \<Longrightarrow> inert g (restoreEndpoints env s)"
  unfolding restoreEndpoints_def Let_def by (intro inert_try inert_sum inert_if inert_fail inert_calls)

lemma inert_deleteForeignSlice [intro]: "others_ok g env \<Longrightarrow> inert g (deleteForeignSlice env b item)"
  unfolding deleteForeignSlice_def by (intro inert_if inert_return inert_ignoreNotFound inert_calls)

lemma inert_cleanupWithoutSnapshot [intro]: "others_ok g env \<Longrightarrow> inert g (cleanupInterceptWithoutSnapshot env b)"
  unfolding cleanupInterceptWithoutSnapshot_def Let_def
  by (intro inert_if inert_return inert_try inert_sum inert_deleteManagedSlice inert_fail inert_calls)

text \<open>Rules for the steps of a program that leave the assertion alone.\<close>

lemma valid_step:
  assumes "inert g m" "stable g P" "\<And>x. valid P (f x) Q E" "\<And>e cl. P cl \<Longrightarrow> E e cl"
  shows "valid P (bindA m f) Q E"
proof (rule valid_bind)
  show "valid P m (\<lambda>_. P) E" by (rule valid_weaken [OF valid_inert [OF assms(1,2)]]) (use assms(4) in auto)
qed (rule assms(3))

lemma valid_check:
  assumes "\<And>x. r = Inr x \<Longrightarrow> valid P (f x) Q E" "\<And>e cl. P cl \<Longrightarrow> E e cl"
  shows "valid P (bindA (liftA r) f) Q E"
  using assms by (cases r) (auto simp: valid_def bindA_def liftA_def)

lemma valid_pre: "(\<And>cl. P cl \<Longrightarrow> P' cl) \<Longrightarrow> valid P' m Q E \<Longrightarrow> valid P m Q E"
  by (auto simp: valid_def)

lemma valid_fact: "(c \<Longrightarrow> valid P m Q E) \<Longrightarrow> valid (\<lambda>cl. c \<and> P cl) m Q E"
  by (auto simp: valid_def)

lemma valid_captureService:
  assumes ok: "others_ok g env" and b: "binding_ok g b"
  shows "valid (\<lambda>cl. known g b cl \<and> \<not> held g cl) (captureService env b)
    (\<lambda>snap cl. snapshot_ok g (Some snap) \<and> known g b cl \<and> \<not> held g cl) (\<lambda>_. safe g)"
proof -
  let ?P = "\<lambda>cl. known g b cl \<and> \<not> held g cl"
  have st: "stable g ?P" by (intro stable_conj) auto
  have name: "tt_Name (the (sp_Target (tb_Spec b))) = tg_Service g" using b by (auto simp: binding_ok_def)
  have rest: "valid ?P (bindA (liftA (permanentE c1 m1)) (\<lambda>_. bindA (liftA r) (\<lambda>_. bindA (liftA (permanentE c2 m2)) (\<lambda>_.
      bindA (ListSlices env n) (\<lambda>slices. bindA (liftA (permanentE (c3 slices) m3)) (\<lambda>_. bindA (liftA (r2 slices)) (\<lambda>x.
      tryA (GetEndpoints env n) (\<lambda>legacy. case legacy of Inr ep \<Rightarrow> returnA (h1 slices x ep)
        | Inl e \<Rightarrow> if isNotFound e then returnA (h0 slices x) else failA e)))))))) (\<lambda>snap cl. snapshot_ok g (Some snap) \<and> ?P cl) (\<lambda>_. safe g)"
    if "\<And>s x ep. snapshot_ok g (Some (h1 s x ep))" "\<And>s x. snapshot_ok g (Some (h0 s x))" for c1 c2 c3 m1 m2 m3 r r2 h1 h0 n
  proof (intro valid_check valid_step [where g = g and P = ?P] valid_try)
    show "valid ?P (GetEndpoints env n) (\<lambda>_. ?P) (\<lambda>_. ?P)" by (rule valid_inert [OF inert_calls(4) [OF ok] st])
  qed (auto intro!: valid_return valid_fail st ok inert_calls that split: if_splits dest: known_safe)
  show ?thesis
    unfolding captureService_def Let_def name
    apply (rule valid_bind [where R = "\<lambda>sv cl. (service_ok g sv \<and> \<not> claims g sv) \<and> ?P cl"])
     apply (rule valid_weaken [OF valid_GetService [OF ok st]]; auto dest: known_safe)
    apply (rule valid_fact, rule rest)
     apply (auto simp: snapshot_ok_def service_ok_def)
    done
qed

lemma valid_then_inert:
  assumes "valid P m (\<lambda>_. R) (\<lambda>_. S)" "\<And>x. inert g (f x)" "stable g R" "\<And>cl. R cl \<Longrightarrow> S cl"
  shows "valid P (bindA m f) (\<lambda>_. R) (\<lambda>_. S)"
  by (rule valid_bind [OF assms(1)], rule valid_weaken [OF valid_inert [OF assms(2,3)]]) (use assms(4) in auto)

lemma valid_reconcileIntercept:
  assumes ok: "others_ok g env" and b: "guards b" "binding_ok g b"
  shows "valid (known g b) (reconcileIntercept env b) (\<lambda>_. safe g) (\<lambda>_. safe g)"
proof -
  obtain snap where snap: "st_Snapshot (tb_Status b) = Some snap" using b(1) by (auto simp: guards_def)
  have name: "sn_ServiceName (the (st_Snapshot (tb_Status b))) = tg_Service g"
    using b(2) snap by (simp add: binding_ok_def snapshot_ok_def)
  let ?R = "\<lambda>sv cl. service_ok g sv \<and> safe g cl \<and> read_binding g b cl \<and> read_service g sv cl"
  have patch: "valid (\<lambda>cl. safe g cl \<and> read_binding g b cl \<and> read_service g sv cl)
      (if c then PatchService env (tg_Service g) sv wanted else returnA wanted) (\<lambda>_. safe g) (\<lambda>_. safe g)"
    if "service_ok g sv" "sv_Annotations wanted = applyBindingAnnotations b (sv_Annotations sv)" for c sv wanted
    using valid_PatchService_take [OF ok b that] by (auto intro: valid_return)
  show ?thesis
    unfolding reconcileIntercept_def Let_def name
    apply (rule valid_bind [where R = ?R])
     apply (rule valid_weaken [OF valid_GetService [OF ok stable_known]]; auto simp: known_def)
    apply (rule valid_fact, intro valid_check)
      apply (rule valid_then_inert [OF patch])
    by (auto intro!: inert_bind inert_calls inert_for inert_deleteForeignSlice inert_ignoreNotFound inert_reconcileRelaySlice ok)
qed

lemma valid_restoreService:
  assumes ok: "others_ok g env" and b: "st_Snapshot (tb_Status b) = Some snap" "binding_ok g b"
  shows "valid (known g b) (restoreService env b) (\<lambda>_ cl. safe g cl \<and> \<not> held g cl) (\<lambda>_. safe g)"
proof -
  have name: "sn_ServiceName snap = tg_Service g" and snap: "snapshot_ok g (Some snap)"
    using b by (simp_all add: binding_ok_def snapshot_ok_def)
  let ?R = "\<lambda>sv cl. service_ok g sv \<and> safe g cl \<and> read_service g sv cl"
  let ?F = "\<lambda>cl. safe g cl \<and> \<not> held g cl"
  have st: "stable g ?F" by (intro stable_conj) auto
  have gone: "valid (\<lambda>cl. known g b cl \<and> (isNotFound e \<longrightarrow> \<not> held g cl))
      (if isNotFound e then deleteManagedSlice env b else failA e) (\<lambda>_. ?F) (\<lambda>_. safe g)" for e
    by (auto intro!: valid_fail dest: known_safe)
      (rule valid_weaken [OF valid_inert [OF inert_deleteManagedSlice [OF ok] st]], auto dest: known_safe)
  show ?thesis
    unfolding restoreService_def Let_def b(1) option.sel name
    apply (rule valid_try [where R = ?R and S = "\<lambda>e cl. known g b cl \<and> (isNotFound e \<longrightarrow> \<not> held g cl)"])
      apply (rule valid_weaken [OF valid_GetService [OF ok stable_known]]; auto simp: known_def)
     apply (simp only: sum.case)
     apply (rule valid_fact, intro valid_check)
       apply (rule valid_then_inert [OF valid_PatchService_return [OF ok snap] _ st])
         apply (auto intro!: inert_bind inert_if inert_for inert_return inert_deleteManagedSlice
        inert_restoreEndpointSlice inert_restoreEndpoints ok) [5]
    apply (simp only: sum.case)
    apply (rule gone)
    done
qed

lemma valid_cleanup:
  assumes ok: "others_ok g env" and b: "binding_ok g b"
  shows "valid (known g b) (cleanup env b) (\<lambda>_ cl. safe g cl \<and> \<not> held g cl) (\<lambda>_. safe g)"
proof (cases "st_Snapshot (tb_Status b)")
  case None
  then have "valid (known g b) (cleanupInterceptWithoutSnapshot env b) (\<lambda>_ cl. safe g cl \<and> \<not> held g cl) (\<lambda>_. safe g)"
    by (intro valid_weaken [OF valid_inert [OF inert_cleanupWithoutSnapshot [OF ok] stable_known]])
      (auto simp: known_def frees_def guards_def)
  then show ?thesis using b None by (auto simp: cleanup_def binding_ok_def)
next
  case (Some snap)
  then show ?thesis using b valid_restoreService [OF ok Some b] by (auto simp: cleanup_def binding_ok_def)
qed

text \<open>The projections of the statuses that are written.\<close>

lemma setCondition_fields [simp]:
  "tb_Name (setCondition t s r m b) = tb_Name b" "tb_Spec (setCondition t s r m b) = tb_Spec b"
  "st_Phase (tb_Status (setCondition t s r m b)) = st_Phase (tb_Status b)"
  "st_Snapshot (tb_Status (setCondition t s r m b)) = st_Snapshot (tb_Status b)"
  by (simp_all add: setCondition_def)

lemma observed_fields [simp]:
  "tb_Name (observed p b) = tb_Name b" "st_Phase (tb_Status (observed p b)) = p"
  "st_Snapshot (tb_Status (observed p b)) = st_Snapshot (tb_Status b)"
  by (simp_all add: observed_def)

lemmas status_defs = lifecycleStatus_def specAccepted_def setAccepted_def readyStatus_def degradedStatus_def failedStatus_def
  pausedStatus_def restoredStatus_def Let_def

lemma valid_patchStatus:
  assumes ok: "others_ok g env" and P: "stable g P" "\<And>cl. P cl \<Longrightarrow> safe g cl" and name: "tb_Name b = tg_Binding g"
    and snap: "st_Snapshot (tb_Status after) = st_Snapshot (tb_Status b) \<or> st_Snapshot (tb_Status after) = None"
    and busy: "\<And>cl. P cl \<Longrightarrow> held g cl \<Longrightarrow> \<not> idle (st_Phase (tb_Status after)) \<and>
       st_Snapshot (tb_Status after) = st_Snapshot (tb_Status b)"
  shows "valid P (patchStatus env after b) (\<lambda>_. safe g) (\<lambda>_. safe g)"
proof -
  have "valid P (PatchStatus env b after) (\<lambda>_. safe g) (\<lambda>_. safe g)"
    using valid_PatchStatus [OF ok P name] snap busy by (auto simp: snapshot_ok_def)
  then show ?thesis
    unfolding patchStatus_def using P(2)
    by (auto intro!: valid_return valid_then_inert inert_return stable_safe)
qed

lemma valid_busy_status:
  assumes ok: "others_ok g env" and name: "tb_Name b = tg_Binding g"
  shows "valid (safe g) (setReconciling env b) (\<lambda>_. safe g) (\<lambda>_. safe g)"
    "valid (safe g) (setRestoring env b) (\<lambda>_. safe g) (\<lambda>_. safe g)"
    "valid (safe g) (setPausing env b) (\<lambda>_. safe g) (\<lambda>_. safe g)"
    "valid (safe g) (setDegraded env b r e) (\<lambda>_. safe g) (\<lambda>_. safe g)"
    "valid (safe g) (setPauseFailed env b e) (\<lambda>_. safe g) (\<lambda>_. safe g)"
    "valid (safe g) (setRestoreFailed env b e) (\<lambda>_. safe g) (\<lambda>_. safe g)"
  unfolding setReconciling_def setRestoring_def setPausing_def setLifecycleStatus_def setDegraded_def setPauseFailed_def
    setRestoreFailed_def
  by (rule valid_patchStatus [OF ok stable_safe _ name]; simp add: status_defs idle_def)+

lemma valid_idle_status:
  assumes ok: "others_ok g env" and name: "tb_Name b = tg_Binding g"
  shows "valid (\<lambda>cl. safe g cl \<and> \<not> held g cl) (setPending env b) (\<lambda>_. safe g) (\<lambda>_. safe g)"
    "valid (\<lambda>cl. safe g cl \<and> \<not> held g cl) (setPaused env b) (\<lambda>_. safe g) (\<lambda>_. safe g)"
    "valid (\<lambda>cl. safe g cl \<and> \<not> held g cl) (setRestored env b) (\<lambda>_. safe g) (\<lambda>_. safe g)"
  unfolding setPending_def setPaused_def setRestored_def setLifecycleStatus_def
  by (rule valid_patchStatus [OF ok _ _ name]; auto simp: status_defs)+

lemma valid_persistSnapshot:
  assumes ok: "others_ok g env" and name: "tb_Name b = tg_Binding g" and snap: "snapshot_ok g (Some snap)"
  shows "valid (\<lambda>cl. safe g cl \<and> \<not> held g cl) (persistSnapshot env b snap) (\<lambda>_. safe g) (\<lambda>_. safe g)"
  unfolding persistSnapshot_def Let_def
  by (rule valid_then_inert [OF valid_PatchStatus_free [OF ok name]]) (use snap in auto)

lemma valid_setReady:
  assumes ok: "others_ok g env" and name: "tb_Name b = tg_Binding g"
    and snap: "st_Snapshot (tb_Status active) = st_Snapshot (tb_Status b)"
  shows "valid (safe g) (setReady env active b) (\<lambda>_. safe g) (\<lambda>_. safe g)"
proof -
  have "valid (safe g) (PatchStatus env b (readyStatus active)) (\<lambda>_. safe g) (\<lambda>_. safe g)"
    by (rule valid_PatchStatus [OF ok stable_safe _ name]) (simp_all add: snap status_defs idle_def)
  then show ?thesis
    unfolding setReady_def Let_def by (auto intro!: valid_return valid_then_inert inert_event)
qed

text \<open>The binding in memory with the fields that the reconciliation sets is known as the one that was read.\<close>

lemma known_active:
  "known g (b \<lparr> tb_Status := (tb_Status b) \<lparr> st_ServiceName := n, st_ServiceClusterIP := ip \<rparr> \<rparr>) = known g b"
  by (rule ext) (simp add: known_def read_binding_def same_binding_def binding_ok_def frees_def guards_def)

lemma valid_reconcileActive:
  assumes ok: "others_ok g env" and b: "binding_ok g b" "bindingFinalizer \<in> set (tb_Finalizers b)"
    "\<not> idle (st_Phase (tb_Status b))" "sp_Relay (tb_Spec b) \<noteq> None"
  shows "valid (known g b) (reconcileActive env b)
    (\<lambda>x cl. st_Snapshot (tb_Status (snd (snd x))) = st_Snapshot (tb_Status b) \<and> safe g cl) (\<lambda>_. safe g)"
proof (cases "st_Snapshot (tb_Status b)")
  case None
  have name: "tb_Name b = tg_Binding g" using b(1) by (simp add: binding_ok_def)
  have "valid (\<lambda>cl. snapshot_ok g (Some s) \<and> known g b cl \<and> \<not> held g cl)
      (bindA (persistSnapshot env b s) (\<lambda>_. returnA (Millisecond, False, b)))
      (\<lambda>x cl. st_Snapshot (tb_Status (snd (snd x))) = st_Snapshot (tb_Status b) \<and> safe g cl) (\<lambda>_. safe g)" for s
    by (rule valid_fact, rule valid_bind [OF valid_pre [OF _ valid_persistSnapshot [OF ok name]]])
      (auto intro!: valid_return dest: known_safe)
  from valid_bind [OF valid_captureService [OF ok b(1)] this]
  have "valid (\<lambda>cl. known g b cl \<and> \<not> held g cl) (bindA (captureService env b) (\<lambda>s.
      bindA (persistSnapshot env b s) (\<lambda>_. returnA (Millisecond, False, b))))
      (\<lambda>x cl. st_Snapshot (tb_Status (snd (snd x))) = st_Snapshot (tb_Status b) \<and> safe g cl) (\<lambda>_. safe g)" .
  then have "valid (known g b) (bindA (captureService env b) (\<lambda>s.
      bindA (persistSnapshot env b s) (\<lambda>_. returnA (Millisecond, False, b))))
      (\<lambda>x cl. st_Snapshot (tb_Status (snd (snd x))) = st_Snapshot (tb_Status b) \<and> safe g cl) (\<lambda>_. safe g)"
    by (rule valid_pre [rotated]) (use None in \<open>auto simp: known_def frees_def guards_def\<close>)
  then show ?thesis using b(1) None by (auto simp: reconcileActive_def binding_ok_def)
next
  case (Some snap)
  let ?a = "b \<lparr> tb_Status := (tb_Status b)
    \<lparr> st_ServiceName := tt_Name (the (sp_Target (tb_Spec b))), st_ServiceClusterIP := '''' \<rparr> \<rparr>"
  have "guards ?a" "binding_ok g ?a" using b Some by (auto simp: guards_def binding_ok_def)
  from valid_reconcileIntercept [OF ok this]
  have "valid (known g b) (reconcileIntercept env ?a) (\<lambda>_. safe g) (\<lambda>_. safe g)" by (simp add: known_active)
  then have "valid (known g b) (bindA (reconcileIntercept env ?a) (\<lambda>_. returnA (0, True, ?a)))
      (\<lambda>x cl. st_Snapshot (tb_Status (snd (snd x))) = st_Snapshot (tb_Status b) \<and> safe g cl) (\<lambda>_. safe g)"
    by (rule valid_bind) (auto intro!: valid_return)
  then show ?thesis using b(1) Some by (auto simp: reconcileActive_def binding_ok_def Let_def)
qed

lemma valid_runActive:
  assumes ok: "others_ok g env" and b: "binding_ok g b" "bindingFinalizer \<in> set (tb_Finalizers b)"
    "\<not> idle (st_Phase (tb_Status b))" "sp_Relay (tb_Spec b) \<noteq> None"
  shows "valid (known g b) (runActive env b) (\<lambda>_. safe g) (\<lambda>_. safe g)"
proof -
  have name: "tb_Name b = tg_Binding g" using b(1) by (simp add: binding_ok_def)
  have ready: "valid (safe g) (bindA (setReady env a b) (\<lambda>_. returnA d)) (\<lambda>_. safe g) (\<lambda>_. safe g)"
    if "st_Snapshot (tb_Status a) = st_Snapshot (tb_Status b)" for a and d :: duration
    by (rule valid_then_inert [OF valid_setReady [OF ok name that]]) auto
  have finished: "valid (\<lambda>cl. st_Snapshot (tb_Status (snd (snd x))) = st_Snapshot (tb_Status b) \<and> safe g cl)
      (case x of (result, complete, active) \<Rightarrow>
         if \<not> complete then returnA result else bindA (setReady env active b) (\<lambda>_. returnA result))
      (\<lambda>_. safe g) (\<lambda>_. safe g)" for x :: "duration \<times> bool \<times> TrafficBinding"
    by (cases x) (auto intro!: valid_fact valid_return ready)
  show ?thesis
    unfolding runActive_def
    apply (rule valid_try [OF valid_reconcileActive [OF assms]]; simp only: sum.case)
     apply (rule finished)
    apply (rule valid_try [OF valid_busy_status(4) [OF ok name]])
    by (auto intro!: valid_step [where g = g] valid_return valid_fail inert_event valid_if)
qed

text \<open>After a failed cleanup the failure is recorded and returned.\<close>

lemma valid_report:
  assumes "valid (safe g) write (\<lambda>_. safe g) (\<lambda>_. safe g)"
  shows "valid (safe g) (tryA write (\<lambda>written. case written of
        Inl statusErr \<Rightarrow> failA (Joined err statusErr)
      | Inr _ \<Rightarrow> bindA (recordEvent t r m) (\<lambda>_. failA err))) (\<lambda>_. safe g) (\<lambda>_. safe g)"
  by (rule valid_try [OF assms]) (auto intro!: valid_step [where g = g] valid_fail inert_event)

lemma valid_report_done:
  assumes "valid P write (\<lambda>_. safe g) (\<lambda>_. safe g)"
  shows "valid P (bindA write (\<lambda>_. bindA (recordEvent t r m) (\<lambda>_. returnA d))) (\<lambda>_. safe g) (\<lambda>_. safe g)"
  by (rule valid_then_inert [OF assms]) auto

lemma valid_reconcilePaused:
  assumes ok: "others_ok g env" and b: "binding_ok g b"
  shows "valid (known g b) (reconcilePaused env b) (\<lambda>_. safe g) (\<lambda>_. safe g)"
proof -
  have name: "tb_Name b = tg_Binding g" using b by (simp add: binding_ok_def)
  have idle: "valid (known g b) (bindA (setPaused env b) (\<lambda>_. returnA d)) (\<lambda>_. safe g) (\<lambda>_. safe g)"
    if "idle (st_Phase (tb_Status b))" for d :: duration
    by (rule valid_then_inert [OF valid_pre [OF _ valid_idle_status(2) [OF ok name]]])
      (use that in \<open>auto simp: known_def frees_def guards_def\<close>)
  have busy: "valid (known g b) (bindA (setPausing env b) (\<lambda>_. returnA d)) (\<lambda>_. safe g) (\<lambda>_. safe g)" for d :: duration
    by (rule valid_then_inert [OF valid_pre [OF _ valid_busy_status(3) [OF ok name]]]) (auto dest: known_safe)
  have clean: "valid (known g b) (cleanupForPause env b) (\<lambda>_ cl. safe g cl \<and> \<not> held g cl) (\<lambda>_. safe g)"
    unfolding cleanupForPause_def by (rule valid_cleanup [OF ok b])
  show ?thesis
    unfolding reconcilePaused_def Let_def
    by (intro valid_if valid_return valid_try [OF clean]; (simp only: sum.case)?)
      (auto intro!: idle busy valid_report [OF valid_busy_status(5) [OF ok name]]
        valid_report_done [OF valid_idle_status(2) [OF ok name]] dest: known_safe simp: idle_def)
qed

lemma safe_free_bindings:
  assumes "safe g cl" "\<not> held g cl" "\<And>b. map_of bs (tg_Binding g) = Some b \<Longrightarrow> binding_ok g b"
  shows "safe g (cl \<lparr> cl_Bindings := bs \<rparr>) \<and> \<not> held g (cl \<lparr> cl_Bindings := bs \<rparr>)"
  using assms unfolding safe_def held_def by simp blast

lemma valid_removeFinalizer:
  assumes ok: "others_ok g env" and name: "tb_Name b = tg_Binding g"
  shows "valid (\<lambda>cl. safe g cl \<and> \<not> held g cl) (PatchBinding env b b')
    (\<lambda>stored cl. tb_Name stored = tg_Binding g \<and> safe g cl \<and> \<not> held g cl) (\<lambda>_. safe g)"
  unfolding PatchBinding_def
proof (rule valid_call [OF ok])
  show "stable g (\<lambda>cl. safe g cl \<and> \<not> held g cl)" by (intro stable_conj) auto
next
  fix k cl assume p: "safe g cl \<and> \<not> held g cl"
  show "case (case map_of (cl_Bindings cl) (tb_Name b) of
        None \<Rightarrow> (Inl (NotFound (notFoundText ''trafficbindings'' (tb_Name b))), cl)
      | Some stored \<Rightarrow>
          let merged = stored \<lparr> tb_Finalizers := mergeValue (tb_Finalizers b) (tb_Finalizers b') (tb_Finalizers stored) \<rparr> in
          (Inr merged, cl \<lparr> cl_Bindings :=
             (if tb_Deleting merged \<and> tb_Finalizers merged = [] then AList.delete (tb_Name b) (cl_Bindings cl)
              else AList.update (tb_Name b) merged (cl_Bindings cl)) \<rparr>)) of
      (Inr x, cl') \<Rightarrow> (tb_Name x = tg_Binding g \<and> safe g cl' \<and> \<not> held g cl') \<and> (\<forall>e. \<not> isNotFound e \<longrightarrow> safe g cl')
    | (Inl e, cl') \<Rightarrow> safe g cl' \<and> (\<forall>e'. \<not> isNotFound e' \<longrightarrow> safe g cl')"
  proof (cases "storedBinding g cl")
    case (Some stored)
    let ?m = "stored \<lparr> tb_Finalizers := mergeValue (tb_Finalizers b) (tb_Finalizers b') (tb_Finalizers stored) \<rparr>"
    let ?bs = "if tb_Deleting ?m \<and> tb_Finalizers ?m = [] then AList.delete (tg_Binding g) (cl_Bindings cl)
      else AList.update (tg_Binding g) ?m (cl_Bindings cl)"
    have "binding_ok g ?m" using p Some by (simp add: safe_def binding_ok_def)
    then have "safe g (cl \<lparr> cl_Bindings := ?bs \<rparr>) \<and> \<not> held g (cl \<lparr> cl_Bindings := ?bs \<rparr>)"
      using p by (intro safe_free_bindings) (auto simp: AList.update_conv' AList.delete_conv' split: if_splits)
    moreover have "tb_Name ?m = tg_Binding g" using p Some by (simp add: safe_def binding_ok_def)
    ultimately show ?thesis unfolding name Some option.case Let_def prod.case sum.case by blast
  qed (use p name in simp)
qed auto

lemma valid_reconcileDeletion:
  assumes ok: "others_ok g env" and b: "binding_ok g b"
  shows "valid (known g b) (reconcileDeletion env b) (\<lambda>_. safe g) (\<lambda>_. safe g)"
proof -
  have name: "tb_Name b = tg_Binding g" using b by (simp add: binding_ok_def)
  have restored: "valid (known g b) (bindA (setRestored env b) (\<lambda>_. returnA d)) (\<lambda>_. safe g) (\<lambda>_. safe g)"
    if "idle (st_Phase (tb_Status b))" for d :: duration
    by (rule valid_then_inert [OF valid_pre [OF _ valid_idle_status(3) [OF ok name]]])
      (use that in \<open>auto simp: known_def frees_def guards_def\<close>)
  have removed: "valid (known g b) (tryA (PatchBinding env b b') (\<lambda>r.
      case r of Inl e \<Rightarrow> if isNotFound e then returnA d else failA e | Inr _ \<Rightarrow> returnA d)) (\<lambda>_. safe g) (\<lambda>_. safe g)"
    if "idle (st_Phase (tb_Status b))" for b' and d :: duration
    by (rule valid_try [OF valid_pre [OF _ valid_removeFinalizer [OF ok name]]])
      (use that in \<open>auto intro!: valid_return valid_fail simp: known_def frees_def guards_def\<close>)
  have busy: "valid (known g b) (bindA (setRestoring env b) (\<lambda>_. returnA d)) (\<lambda>_. safe g) (\<lambda>_. safe g)" for d :: duration
    by (rule valid_then_inert [OF valid_pre [OF _ valid_busy_status(2) [OF ok name]]]) (auto dest: known_safe)
  have clean: "valid (known g b) (cleanupForDeletion env b) (\<lambda>_ cl. safe g cl \<and> \<not> held g cl) (\<lambda>_. safe g)"
    unfolding cleanupForDeletion_def cleanupForPause_def using valid_cleanup [OF ok b] by simp
  show ?thesis
    unfolding reconcileDeletion_def Let_def
    by (intro valid_if valid_return valid_try [OF clean]; (simp only: sum.case)?)
      (auto intro!: restored removed busy valid_report [OF valid_busy_status(6) [OF ok name]]
        valid_report_done [OF valid_idle_status(3) [OF ok name]] dest: known_safe simp: idle_def)
qed

lemma valid_reconcileBinding:
  assumes ok: "others_ok g env" and b: "binding_ok g b"
  shows "valid (known g b) (reconcileBinding env b) (\<lambda>_. safe g) (\<lambda>_. safe g)"
proof -
  have name: "tb_Name b = tg_Binding g" using b by (simp add: binding_ok_def)
  have freed: "\<And>cl. known g b cl \<Longrightarrow> frees b \<Longrightarrow> safe g cl \<and> \<not> held g cl" by (simp add: known_def)
  have invalid: "valid (known g b) (tryA (setDegraded env b r e) (\<lambda>_. returnA d)) (\<lambda>_. safe g) (\<lambda>_. safe g)"
    for r e and d :: duration
    by (rule valid_try [OF valid_pre [OF known_safe valid_busy_status(4) [OF ok name]]]) (auto intro!: valid_return)
  have pend: "valid (\<lambda>cl. tb_Name x = tg_Binding g \<and> safe g cl \<and> \<not> held g cl) (bindA (setPending env x) (\<lambda>_. returnA d))
      (\<lambda>_. safe g) (\<lambda>_. safe g)" for x and d :: duration
    by (rule valid_fact, rule valid_then_inert [OF valid_idle_status(1) [OF ok]]) auto
  have protect: "valid (known g b) (bindA (PatchBinding env b b') (\<lambda>stored. bindA (setPending env stored) (\<lambda>_. returnA d)))
      (\<lambda>_. safe g) (\<lambda>_. safe g)" if "frees b" for b' and d :: duration
    using freed [OF _ that] by (intro valid_bind [OF valid_pre [OF _ valid_removeFinalizer [OF ok name]] pend]) auto
  have wait: "valid (known g b) (bindA (if c then setPending env b else returnA ()) (\<lambda>_. returnA d)) (\<lambda>_. safe g) (\<lambda>_. safe g)"
    if "frees b" for c and d :: duration
  proof (rule valid_then_inert)
    show "valid (known g b) (if c then setPending env b else returnA ()) (\<lambda>_. safe g) (\<lambda>_. safe g)"
      using freed [OF _ that] by (auto intro: valid_return valid_pre [OF _ valid_idle_status(1) [OF ok name]])
  qed auto
  have start: "valid (known g b) (bindA (setReconciling env b) (\<lambda>_. returnA d)) (\<lambda>_. safe g) (\<lambda>_. safe g)" for d :: duration
    by (rule valid_then_inert [OF valid_pre [OF known_safe valid_busy_status(1) [OF ok name]]]) auto
  have active: "valid (known g b) (runActive env b) (\<lambda>_. safe g) (\<lambda>_. safe g)"
    if "bindingFinalizer \<in> set (tb_Finalizers b)" "\<not> awaitingRelay b" "st_Phase (tb_Status b) = Ready \<or> st_Phase (tb_Status b) = Reconciling"
    using that b by (intro valid_runActive [OF ok b]) (auto simp: awaitingRelay_def binding_ok_def idle_def)
  show ?thesis
  proof (cases "validateBinding (ae_lib env) b")
    case (Inl e)
    then show ?thesis
      unfolding reconcileBinding_def by (auto intro!: invalid valid_reconcileDeletion [OF ok b])
  next
    case (Inr u)
    show ?thesis
      unfolding reconcileBinding_def Inr sum.case
      by (intro valid_if valid_reconcileDeletion [OF ok b] protect valid_reconcilePaused [OF ok b] wait start active)
        (auto simp: frees_def guards_def awaitingRelay_def)
  qed
qed

lemma valid_Reconcile:
  assumes ok: "others_ok g env"
  shows "valid (safe g) (Reconcile env (tg_Binding g)) (\<lambda>_. safe g) (\<lambda>_. safe g)"
  unfolding Reconcile_def
proof (rule valid_try [OF valid_GetBinding [OF ok]]; simp only: sum.case)
  fix b
  show "valid (known g b) (reconcileBinding env b) (\<lambda>_. safe g) (\<lambda>_. safe g)"
    using valid_reconcileBinding [OF ok, of b] by (auto simp: valid_def known_def)
qed (auto intro!: valid_return valid_fail valid_if)

section \<open>Runs\<close>

text \<open>
  A run of the system: reconciliations of the binding, each with its own failures and interference, and changes by
  other clients between them.
\<close>

datatype op_step = OpReconcile api_env nat | OpOthers "cluster \<Rightarrow> cluster"

fun run_step :: "string \<Rightarrow> cluster \<Rightarrow> op_step \<Rightarrow> cluster" where
  "run_step name cl (OpReconcile env k) = fst (snd (Reconcile env name (cl, k)))"
| "run_step name cl (OpOthers f) = f cl"

fun step_ok :: "target \<Rightarrow> op_step \<Rightarrow> bool" where
  "step_ok g (OpReconcile env _) = others_ok g env"
| "step_ok g (OpOthers f) = (\<forall>cl. gentle g cl (f cl))"

lemma run_step_safe: "safe g cl \<Longrightarrow> step_ok g op \<Longrightarrow> safe g (run_step (tg_Binding g) cl op)"
proof (cases op)
  case (OpReconcile env k)
  assume "safe g cl" "step_ok g op"
  then have "outcome (\<lambda>_. safe g) (\<lambda>_. safe g) (Reconcile env (tg_Binding g) (cl, k))"
    using valid_Reconcile [of g env] OpReconcile by (simp add: valid_def)
  then show ?thesis using OpReconcile by (auto simp: outcome_def split: prod.splits sum.splits)
next
  case (OpOthers f)
  assume "safe g cl" "step_ok g op"
  then show ?thesis using OpOthers stable_safe [of g] by (auto simp: stable_def)
qed

interpretation operator: step_invariant "run_step (tg_Binding g)" "safe g" "step_ok g" for g
  by unfold_locales (rule run_step_safe)

text \<open>The binding is new, and the Service has its own selector and no mark of the binding.\<close>

definition fresh :: "target \<Rightarrow> cluster \<Rightarrow> bool" where
  "fresh g cl \<longleftrightarrow> tg_UID g \<noteq> '''' \<and>
     (\<exists>b. storedBinding g cl = Some b \<and> binding_ok g b \<and> st_Snapshot (tb_Status b) = None) \<and>
     (\<exists>sv. storedService g cl = Some sv \<and> sv_UID sv = tg_ServiceUID g \<and> \<not> claims g sv \<and>
        map_of (sv_Selector sv) = map_of (tg_Selector g))"

lemma fresh_safe: "fresh g cl \<Longrightarrow> safe g cl"
  by (auto simp: fresh_def safe_def service_ok_def held_def)


section \<open>An example\<close>

definition w_lib :: k8s_lib where
  "w_lib = \<lparr> kl_dnsLabel = \<lambda>_. None, kl_dnsSubdomain = \<lambda>_. None, kl_parseIP = \<lambda>_. Some True, kl_digest = \<lambda>uid. uid,
     kl_foldLower = \<lambda>s. s \<rparr>"

definition w_api :: "(nat \<Rightarrow> fault option) \<Rightarrow> api_env" where
  "w_api faults = \<lparr> ae_lib = w_lib, ae_fault = faults, ae_others = \<lambda>_ cl. cl, ae_newUID = \<lambda>_. ''n'', ae_newIP = \<lambda>_. ''10.0.0.9'' \<rparr>"

definition w_spec :: TrafficBindingSpec where
  "w_spec = \<lparr> sp_DesiredState = StateActive, sp_Mode = ModeExchange, sp_IdentityID = ''i'',
     sp_SessionID = ''00000000-0000-1000-8000-000000000001'', sp_TaskID = ''00000000-0000-1000-8000-000000000002'',
     sp_SessionGeneration = 1, sp_ClusterIP = [], sp_DialAddress = [],
     sp_Target = Some \<lparr> tt_Kind = KindService, tt_Name = ''web'' \<rparr>, sp_Relay = Some ''10.0.0.1'', sp_Preview = None,
     sp_Ports = [\<lparr> tp_Name = ''http'', tp_TargetPort = 80, tp_RelayPort = Some 9000, tp_LocalHost = [], tp_LocalPort = None,
       tp_Protocol = ProtocolTCP \<rparr>] \<rparr>"

definition w_binding :: TrafficBinding where
  "w_binding = \<lparr> tb_Name = ''b'', tb_Namespace = ''ns'', tb_UID = ''uid'', tb_Generation = 1, tb_Finalizers = [''traffic.kubeloop.io/finalizer''],
     tb_Deleting = False, tb_Labels = [], tb_Spec = w_spec,
     tb_Status = \<lparr> st_ObservedGeneration = 1, st_Phase = Reconciling, st_ServiceName = [], st_ServiceClusterIP = [],
       st_RelayOwnerID = [], st_RelayHeartbeatAt = None, st_RelayError = [], st_Snapshot = None, st_Conditions = [] \<rparr> \<rparr>"

definition w_service :: Service where
  "w_service = \<lparr> sv_UID = ''svc'', sv_Labels = [], sv_Annotations = [(''team'', ''a'')], sv_OwnerReferences = [], sv_Type = ''ClusterIP'',
     sv_ClusterIP = ''10.0.0.2'', sv_Selector = [(''app'', ''web'')],
     sv_Ports = [\<lparr> sr_Name = ''http'', sr_Protocol = ''TCP'', sr_Port = 80, sr_TargetPort = 8080 \<rparr>] \<rparr>"

definition w_slice :: EndpointSlice where
  "w_slice = \<lparr> es_Labels = [(''kubernetes.io/service-name'', ''web'')], es_Annotations = [], es_OwnerReferences = [],
     es_AddressType = ''IPv4'', es_Endpoints = [\<lparr> ep_Addresses = [''10.1.0.1''], ep_Ready = Some True, ep_Rest = '''' \<rparr>],
     es_Ports = [\<lparr> po_Name = Some ''http'', po_Protocol = ''TCP'', po_Port = 8080 \<rparr>] \<rparr>"

definition w_cluster :: cluster where
  "w_cluster = \<lparr> cl_Bindings = [(''b'', w_binding)], cl_Services = [(''web'', w_service)], cl_Slices = [(''web-1'', w_slice)],
     cl_Endpoints = [(''web'', \<lparr> en_Metadata = '''', en_Subsets = [''s''] \<rparr>)], cl_Pods = [], cl_Events = [] \<rparr>"

definition w_target :: target where
  "w_target = \<lparr> tg_Binding = ''b'', tg_UID = ''uid'', tg_Service = ''web'', tg_ServiceUID = ''svc'', tg_Selector = [(''app'', ''web'')] \<rparr>"

text \<open>The snapshot is taken; then the Service is taken over, but the answer to that patch is lost.\<close>

definition w_run :: "op_step list" where
  "w_run = [OpReconcile (w_api (\<lambda>_. None)) 0,
     OpReconcile (w_api (\<lambda>k. if k = 2 then Some (AnswerLost (ApiError ''timeout'')) else None)) 0]"

lemma w_fresh: "fresh w_target w_cluster"
  by (simp add: fresh_def w_target_def w_cluster_def w_binding_def w_spec_def w_service_def binding_ok_def snapshot_ok_def
      claims_def at_def binding_keys)

lemma w_run_ok: "list_all (step_ok w_target) w_run"
  by (auto simp: w_run_def w_api_def others_ok_def gentle_refl isNotFound_def Let_def split: if_splits)

text \<open>
  Evaluation by rewriting: the continuation of a call is only looked at once the call has been evaluated, and the
  specification is not unfolded.
\<close>

lemma bindA_weak: "m = m' \<Longrightarrow> s = s' \<Longrightarrow> bindA m f s = bindA m' f s'" by simp

lemma tryA_weak: "m = m' \<Longrightarrow> s = s' \<Longrightarrow> tryA m f s = tryA m' f s'" by simp

lemma call_weak: "s = s' \<Longrightarrow> call env f s = call env f s'" by simp

lemma bindA_run: "bindA m f s = (case m s of (r, s') \<Rightarrow> (case r of Inl e \<Rightarrow> (Inl e, s') | Inr x \<Rightarrow> f x s'))"
  by (simp add: bindA_def split: prod.splits sum.splits)

lemma w_spec_fields:
  "sp_DesiredState w_spec = StateActive" "sp_Mode w_spec = ModeExchange" "sp_Relay w_spec = Some ''10.0.0.1''"
  "sp_Target w_spec = Some \<lparr> tt_Kind = KindService, tt_Name = ''web'' \<rparr>"
  "sp_Ports w_spec = [\<lparr> tp_Name = ''http'', tp_TargetPort = 80, tp_RelayPort = Some 9000, tp_LocalHost = [], tp_LocalPort = None,
     tp_Protocol = ProtocolTCP \<rparr>]"
  by (simp_all add: w_spec_def)

lemma w_spec_valid: "tb_Spec b = w_spec \<Longrightarrow> validateBinding w_lib b = Inr ()"
proof -
  have "validateBinding w_lib w_binding = Inr ()" by code_simp
  moreover assume "tb_Spec b = w_spec"
  ultimately show ?thesis by (simp add: validateBinding_def w_binding_def)
qed

lemmas call_eval = GetBinding_def GetService_def GetSlice_def GetEndpoints_def GetPod_def ListSlices_def PatchSlice_def
  PatchService_def PatchStatus_def PatchBinding_def CreateSlice_def CreateEndpoints_def UpdateSlice_def UpdateEndpoints_def
  DeleteSlice_def DeleteEndpoints_def lookupE_def isNotFound_def isAlreadyExists_def mergeStatus_def mergeValue_def
  mergeMap_def mergeService_def mergeSlice_def returnA_def failA_def liftA_def bindA_run tryA_def call_def recordEvent_def
  ignoreNotFound_def removeE_def replaceE_def

lemmas resource_eval = captureService_def reconcileIntercept_def reconcileRelaySlice_def createOrGetSlice_def
  desiredRelaySlice_def relayEndpointPort_def applyBindingAnnotations_def applyBindingLabels_def removeBindingMetadata_def
  ownedByBinding_def ownedByOther_def at_def binding_keys IsControlledBy_def upsertOwner_def SetControllerReference_def
  SetOwnerReference_def servicePort_def coreProtocol_def normalizedProtocol_def sliceSnapshot_def maximumSliceCount_def
  maximumEndpointCount_def deleteForeignSlice_def managedEndpointSliceName_def bindingLabelValue_def restoreService_def
  restoreEndpointSlice_def restoredSlice_def restoreEndpoints_def deleteManagedSlice_def managedByValue_def permanentE_def
  permanentf_def

lemmas reconcile_eval = desiredState_def awaitingRelay_def runActive_def reconcileActive_def cleanup_def cleanupForPause_def
  cleanupForDeletion_def reconcilePaused_def reconcileDeletion_def reconcileBinding_def Reconcile_def setPending_def
  setReconciling_def setRestoring_def setPausing_def setLifecycleStatus_def setDegraded_def setPauseFailed_def
  setRestoreFailed_def setPaused_def setRestored_def setReady_def persistSnapshot_def patchStatus_def status_defs
  setCondition_def observed_def bindingFinalizer_def reasonFor_def

lemma w_api_fields:
  "ae_lib (w_api f) = w_lib" "ae_fault (w_api f) = f" "ae_others (w_api f) k cl = cl"
  "kl_digest w_lib uid = uid" "kl_parseIP w_lib ip = Some True"
  by (simp_all add: w_api_def w_lib_def)

lemmas w_defs = w_api_fields w_binding_def w_service_def w_slice_def w_cluster_def w_target_def

definition w_view :: "cluster \<Rightarrow> (smap \<times> bool) option \<times> TrafficBindingPhase option" where
  "w_view cl = (map_option (\<lambda>sv. (sv_Selector sv, claims w_target sv)) (storedService w_target cl),
     map_option (\<lambda>b. st_Phase (tb_Status b)) (storedBinding w_target cl))"


end
