(* ===== verification/BindingSessions.thy ===== *)
theory BindingSessions
  imports BindingSafety
begin

text \<open>
  The Control Plane's side of TrafficBindings (\<^verbatim>\<open>internal/controlplane/trafficbindingclient\<close> and the resume handler of
  \<^verbatim>\<open>internal/controlplane/trafficapi\<close>): bindings are created and adopted for Sessions, handed to relays, paused,
  resumed and deleted by patches to the same objects that the Operator reconciles.

  Errors of the package itself are permanent errors; an error of the API server keeps its kind when it is wrapped.
  The form of UUIDs, label values and digests come from libraries and are parameters. Polling ends with the
  context: a poll is made at most as often as the given number.
\<close>

record session_lib =
  sl_parseUUID :: "string \<Rightarrow> string + string"
  sl_validLabel :: "string \<Rightarrow> bool"
  sl_digest8 :: "string \<Rightarrow> string"
  sl_sha1UUID :: "string \<Rightarrow> string"
  sl_foldLower :: "string \<Rightarrow> string"
  sl_foldUpper :: "string \<Rightarrow> string"

record Manager =
  mg_Lib :: session_lib
  mg_PollInterval :: duration
  mg_ControlPlaneID :: string

primrec wrapE :: "string \<Rightarrow> k8s_error \<Rightarrow> k8s_error" where
  "wrapE prefix (NotFound m) = NotFound (prefix @ m)"
| "wrapE prefix (AlreadyExists m) = AlreadyExists (prefix @ m)"
| "wrapE prefix (ApiError m) = ApiError (prefix @ m)"
| "wrapE prefix (Permanent m) = Permanent (prefix @ m)"
| "wrapE prefix (Joined a b) = Joined (wrapE prefix a) b"

definition wrapA :: "string \<Rightarrow> 'a api \<Rightarrow> 'a api" where
  "wrapA prefix m = tryA m (\<lambda>r. case r of Inl e \<Rightarrow> failA (wrapE prefix e) | Inr x \<Rightarrow> returnA x)"

fun pollA :: "nat \<Rightarrow> bool api \<Rightarrow> unit api" where
  "pollA 0 condition = failA (ApiError ''context canceled'')"
| "pollA (Suc n) condition = bindA condition (\<lambda>finished. if finished then returnA () else pollA n condition)"

section \<open>Calls\<close>

text \<open>The server counts the changes of the specification.\<close>

definition mergeSpec :: "TrafficBindingSpec \<Rightarrow> TrafficBindingSpec \<Rightarrow> TrafficBindingSpec \<Rightarrow> TrafficBindingSpec" where
  "mergeSpec before after stored = \<lparr>
     sp_DesiredState = mergeValue (sp_DesiredState before) (sp_DesiredState after) (sp_DesiredState stored),
     sp_Mode = mergeValue (sp_Mode before) (sp_Mode after) (sp_Mode stored),
     sp_IdentityID = mergeValue (sp_IdentityID before) (sp_IdentityID after) (sp_IdentityID stored),
     sp_SessionID = mergeValue (sp_SessionID before) (sp_SessionID after) (sp_SessionID stored),
     sp_TaskID = mergeValue (sp_TaskID before) (sp_TaskID after) (sp_TaskID stored),
     sp_SessionGeneration = mergeValue (sp_SessionGeneration before) (sp_SessionGeneration after) (sp_SessionGeneration stored),
     sp_ClusterIP = mergeValue (sp_ClusterIP before) (sp_ClusterIP after) (sp_ClusterIP stored),
     sp_DialAddress = mergeValue (sp_DialAddress before) (sp_DialAddress after) (sp_DialAddress stored),
     sp_Target = mergeValue (sp_Target before) (sp_Target after) (sp_Target stored),
     sp_Relay = mergeValue (sp_Relay before) (sp_Relay after) (sp_Relay stored),
     sp_Preview = mergeValue (sp_Preview before) (sp_Preview after) (sp_Preview stored),
     sp_Ports = mergeValue (sp_Ports before) (sp_Ports after) (sp_Ports stored) \<rparr>"

definition mergeObject :: "TrafficBinding \<Rightarrow> TrafficBinding \<Rightarrow> TrafficBinding \<Rightarrow> TrafficBinding" where
  "mergeObject before after stored =
     (let spec = mergeSpec (tb_Spec before) (tb_Spec after) (tb_Spec stored) in
      stored \<lparr> tb_Labels := mergeMap (tb_Labels before) (tb_Labels after) (tb_Labels stored), tb_Spec := spec,
        tb_Generation := (if spec = tb_Spec stored then tb_Generation stored else tb_Generation stored + 1) \<rparr>)"

definition PatchObject :: "api_env \<Rightarrow> TrafficBinding \<Rightarrow> TrafficBinding \<Rightarrow> TrafficBinding api" where
  "PatchObject env before after = call env (\<lambda>_ cl.
     (case map_of (cl_Bindings cl) (tb_Name before) of
        None \<Rightarrow> (Inl (NotFound (notFoundText ''trafficbindings'' (tb_Name before))), cl)
      | Some stored \<Rightarrow> let merged = mergeObject before after stored in
          (Inr merged, cl \<lparr> cl_Bindings := AList.update (tb_Name before) merged (cl_Bindings cl) \<rparr>)))"

text \<open>A new object has the server's UID, the first generation and an empty status.\<close>

definition emptyStatus :: TrafficBindingStatus where
  "emptyStatus = \<lparr> st_ObservedGeneration = 0, st_Phase = NoPhase, st_ServiceName = '''', st_ServiceClusterIP = '''',
     st_RelayOwnerID = '''', st_RelayHeartbeatAt = None, st_RelayError = '''', st_Snapshot = None, st_Conditions = [] \<rparr>"

definition CreateBinding :: "api_env \<Rightarrow> TrafficBinding \<Rightarrow> TrafficBinding api" where
  "CreateBinding env desired = call env (\<lambda>k cl.
     (if tb_Name desired \<in> set (map fst (cl_Bindings cl))
      then (Inl (AlreadyExists (existsText ''trafficbindings'' (tb_Name desired))), cl)
      else let created = desired \<lparr> tb_UID := ae_newUID env k, tb_Generation := 1, tb_Deleting := False, tb_Status := emptyStatus \<rparr> in
        (Inr created, cl \<lparr> cl_Bindings := AList.update (tb_Name desired) created (cl_Bindings cl) \<rparr>)))"

text \<open>A deletion marks a binding that has finalizers and removes one that has none.\<close>

definition DeleteBinding :: "api_env \<Rightarrow> string \<Rightarrow> unit api" where
  "DeleteBinding env name = call env (\<lambda>_ cl.
     (case map_of (cl_Bindings cl) name of
        None \<Rightarrow> (Inl (NotFound (notFoundText ''trafficbindings'' name)), cl)
      | Some stored \<Rightarrow> (Inr (), cl \<lparr> cl_Bindings :=
          (if tb_Finalizers stored = [] then AList.delete name (cl_Bindings cl)
           else AList.update name (stored \<lparr> tb_Deleting := True \<rparr>) (cl_Bindings cl)) \<rparr>)))"

definition ListBindings :: "api_env \<Rightarrow> smap \<Rightarrow> TrafficBinding list api" where
  "ListBindings env labels = call env (\<lambda>_ cl.
     (Inr (filter (\<lambda>b. list_all (\<lambda>(k, v). map_of (tb_Labels b) k = Some v) labels) (map snd (cl_Bindings cl))), cl))"

section \<open>Identity\<close>

definition cpManagedByValue :: string where "cpManagedByValue = ''kubeloop-control-plane''"
definition controlPlaneIDLabel :: string where "controlPlaneIDLabel = ''traffic.kubeloop.io/control-plane-id''"
definition taskIDLabel :: string where "taskIDLabel = ''traffic.kubeloop.io/task-id''"
definition sessionIDLabel :: string where "sessionIDLabel = ''traffic.kubeloop.io/session-id''"
definition userIDLabel :: string where "userIDLabel = ''traffic.kubeloop.io/user-id''"

definition ErrTrafficBindingNotFound :: k8s_error where
  "ErrTrafficBindingNotFound = Permanent ''traffic binding not found''"

definition ErrTrafficBindingConflict :: string where
  "ErrTrafficBindingConflict = ''TrafficBinding Session conflicts with existing state''"

definition controlPlaneID :: "session_lib \<Rightarrow> string \<Rightarrow> string" where
  "controlPlaneID lib v =
     (let value = TrimSpace v in
      if value = '''' then ''kubeloop'' else if sl_validLabel lib value then value else ''sha256-'' @ sl_digest8 lib value)"

definition NewManager :: "session_lib \<Rightarrow> duration \<Rightarrow> string \<Rightarrow> k8s_error + Manager" where
  "NewManager lib pollInterval planeID =
     (let interval = (if pollInterval = 0 then 100 * Millisecond else pollInterval) in
      bindE (permanentE (interval < 10 * Millisecond \<or> interval > 10 * Second)
               ''traffic binding poll interval must be between 10ms and 10s'') (\<lambda>_.
        Inr \<lparr> mg_Lib = lib, mg_PollInterval = interval, mg_ControlPlaneID = controlPlaneID lib planeID \<rparr>))"

definition NameForTask :: "session_lib \<Rightarrow> string \<Rightarrow> k8s_error + string" where
  "NameForTask lib task =
     (let taskID = ToLower (sl_foldLower lib) (TrimSpace task) in
      case sl_parseUUID lib taskID of
        Inl problem \<Rightarrow> permanentf (''invalid TrafficBinding Session ID: '' @ problem)
      | Inr canonical \<Rightarrow>
          if canonical \<noteq> taskID then permanentf ''traffic binding Session ID must use canonical UUID format''
          else Inr (''kubeloop-'' @ taskID))"

fun join_nul :: "string list \<Rightarrow> string" where
  "join_nul [] = []"
| "join_nul [s] = s"
| "join_nul (s # t # r) = s @ CHR 0x00 # join_nul (t # r)"

definition TaskIDForIdempotency :: "session_lib \<Rightarrow> string \<Rightarrow> string \<Rightarrow> string \<Rightarrow> string \<Rightarrow> string" where
  "TaskIDForIdempotency lib sessionID taskType identityID key =
     sl_sha1UUID lib (join_nul [TrimSpace sessionID, TrimSpace taskType, TrimSpace identityID, TrimSpace key])"

definition setLabels :: "Manager \<Rightarrow> TrafficBinding \<Rightarrow> TrafficBinding" where
  "setLabels manager binding = binding \<lparr> tb_Labels :=
     AList.update userIDLabel (sp_IdentityID (tb_Spec binding))
       (AList.update sessionIDLabel (sp_SessionID (tb_Spec binding))
         (AList.update taskIDLabel (sp_TaskID (tb_Spec binding))
           (AList.update controlPlaneIDLabel (mg_ControlPlaneID manager)
             (AList.update managedByLabel cpManagedByValue (tb_Labels binding))))) \<rparr>"

definition sameWorkloadPort :: "TrafficPort \<Rightarrow> TrafficPort \<Rightarrow> bool" where
  "sameWorkloadPort left right \<longleftrightarrow> tp_Name left = tp_Name right \<and> tp_TargetPort left = tp_TargetPort right \<and>
     tp_Protocol left = tp_Protocol right \<and> tp_LocalHost left = tp_LocalHost right \<and> tp_LocalPort left = tp_LocalPort right"

definition sameBindingWorkload :: "TrafficBindingSpec \<Rightarrow> TrafficBindingSpec \<Rightarrow> bool" where
  "sameBindingWorkload left right \<longleftrightarrow> sp_Mode left = sp_Mode right \<and> sp_IdentityID left = sp_IdentityID right \<and>
     sp_TaskID left = sp_TaskID right \<and> sp_ClusterIP left = sp_ClusterIP right \<and>
     sp_DialAddress left = sp_DialAddress right \<and> sp_Target left = sp_Target right \<and> sp_Preview left = sp_Preview right \<and>
     length (sp_Ports left) = length (sp_Ports right) \<and>
     list_all (\<lambda>l. list_ex (sameWorkloadPort l) (sp_Ports right)) (sp_Ports left)"

section \<open>Sessions\<close>

definition GetSession :: "api_env \<Rightarrow> Manager \<Rightarrow> string \<Rightarrow> TrafficBinding api" where
  "GetSession env manager taskID =
     bindA (liftA (NameForTask (mg_Lib manager) taskID)) (\<lambda>name.
     tryA (GetBinding env name) (\<lambda>got.
       case got of
         Inl e \<Rightarrow> if isNotFound e then failA ErrTrafficBindingNotFound else failA (wrapE ''read TrafficBinding Session: '' e)
       | Inr binding \<Rightarrow>
           if sp_TaskID (tb_Spec binding) \<noteq> taskID \<or> at (tb_Labels binding) controlPlaneIDLabel \<noteq> mg_ControlPlaneID manager
           then failA ErrTrafficBindingNotFound else returnA binding))"

definition keyText :: "string \<Rightarrow> string \<Rightarrow> string" where
  "keyText namespace name = TrimSpace namespace @ ''/'' @ name"

definition conflictError :: "string \<Rightarrow> TrafficBinding \<Rightarrow> string \<Rightarrow> k8s_error" where
  "conflictError object desired owner = Permanent (ErrTrafficBindingConflict @ '': '' @ object @
     tb_Namespace desired @ ''/'' @ tb_Name desired @ '' belongs to another '' @ owner)"

definition labelUser :: "api_env \<Rightarrow> string \<Rightarrow> TrafficBinding \<Rightarrow> TrafficBinding api" where
  "labelUser env userID binding =
     PatchObject env binding (binding \<lparr> tb_Labels := AList.update userIDLabel userID (tb_Labels binding) \<rparr>)"

definition EnsureSession :: "api_env \<Rightarrow> Manager \<Rightarrow> TrafficBinding \<Rightarrow> (TrafficBinding \<times> bool) api" where
  "EnsureSession env manager binding =
     (if TrimSpace (tb_Namespace binding) = '''' then failA (Permanent ''TrafficBinding and namespace are required'')
      else bindA (liftA (NameForTask (mg_Lib manager) (sp_TaskID (tb_Spec binding)))) (\<lambda>name.
        let spec = tb_Spec binding;
            active = (if sp_DesiredState spec = UnsetState then spec \<lparr> sp_DesiredState := StateActive \<rparr> else spec);
            desired = setLabels manager (binding \<lparr> tb_Name := name, tb_Namespace := TrimSpace (tb_Namespace binding),
              tb_Spec := active \<rparr>) in
        tryA (CreateBinding env desired) (\<lambda>created.
          case created of
            Inr stored \<Rightarrow> returnA (stored, True)
          | Inl e \<Rightarrow>
              if \<not> isAlreadyExists e
              then failA (wrapE (''create TrafficBinding Session '' @ keyText (tb_Namespace desired) name @ '': '') e)
              else bindA (GetSession env manager (sp_TaskID (tb_Spec desired))) (\<lambda>existing.
                if \<not> sameBindingWorkload (tb_Spec existing) (tb_Spec desired) \<or>
                   at (tb_Labels existing) controlPlaneIDLabel \<noteq> mg_ControlPlaneID manager
                then failA (conflictError ''TrafficBinding Session '' desired ''owner'')
                else if at (tb_Labels existing) userIDLabel \<noteq> sp_IdentityID (tb_Spec desired)
                then bindA (wrapA (''label TrafficBinding Session '' @ keyText (tb_Namespace desired) name @ '': '')
                       (labelUser env (sp_IdentityID (tb_Spec desired)) existing)) (\<lambda>patched.
                       returnA (patched, False))
                else returnA (existing, False)))))"

definition FindSession :: "api_env \<Rightarrow> Manager \<Rightarrow> string \<Rightarrow> TrafficBinding api" where
  "FindSession env manager taskID =
     bindA (wrapA ''find TrafficBinding Session: '' (ListBindings env [(managedByLabel, cpManagedByValue),
       (controlPlaneIDLabel, mg_ControlPlaneID manager), (taskIDLabel, taskID)])) (\<lambda>items.
     case items of [binding] \<Rightarrow> returnA binding | _ \<Rightarrow> failA ErrTrafficBindingNotFound)"

definition ListSessions :: "api_env \<Rightarrow> Manager \<Rightarrow> string \<Rightarrow> TrafficBinding list api" where
  "ListSessions env manager sessionID = wrapA ''list TrafficBinding Sessions: '' (ListBindings env
     [(managedByLabel, cpManagedByValue), (controlPlaneIDLabel, mg_ControlPlaneID manager), (sessionIDLabel, sessionID)])"

section \<open>Relays\<close>

definition ownershipStatus :: "string \<Rightarrow> time option \<Rightarrow> string \<Rightarrow> TrafficBinding \<Rightarrow> TrafficBinding" where
  "ownershipStatus owner heartbeat err binding = binding \<lparr> tb_Status := (tb_Status binding)
     \<lparr> st_RelayOwnerID := owner, st_RelayHeartbeatAt := heartbeat, st_RelayError := err \<rparr> \<rparr>"

definition ownedElsewhere :: k8s_error where
  "ownedElsewhere = Permanent ''TrafficBinding Session is owned by another relay''"

definition ClaimRelay :: "api_env \<Rightarrow> time \<Rightarrow> TrafficBinding \<Rightarrow> string \<Rightarrow> TrafficBinding api" where
  "ClaimRelay env now binding relayID =
     (if st_RelayOwnerID (tb_Status binding) \<noteq> '''' \<and> st_RelayOwnerID (tb_Status binding) \<noteq> relayID
      then failA (Permanent ''TrafficBinding Session is already claimed'')
      else wrapA ''claim TrafficBinding Session: '' (PatchStatus env binding (ownershipStatus relayID (Some now) '''' binding)))"

definition upper_char :: "char \<Rightarrow> char" where
  "upper_char c = (if 97 \<le> code c \<and> code c \<le> 122 then char_of (code c - 32) else c)"

definition ToUpper :: "(string \<Rightarrow> string) \<Rightarrow> string \<Rightarrow> string" where
  "ToUpper ul s = (if is_ascii s then map upper_char s else ul s)"

definition portKey :: "session_lib \<Rightarrow> string \<Rightarrow> int \<Rightarrow> string" where
  "portKey lib protocol port = ToUpper (sl_foldUpper lib) protocol @ ''/'' @ FormatInt port"

fun assignPorts :: "session_lib \<Rightarrow> (string \<times> int) list \<Rightarrow> TrafficPort list \<Rightarrow> k8s_error + TrafficPort list" where
  "assignPorts lib assigned [] = Inr []"
| "assignPorts lib assigned (port # ports) =
     (case map_of assigned (portKey lib (protocolText (tp_Protocol port)) (tp_TargetPort port)) of
        None \<Rightarrow> permanentf (''relay port is missing for '' @ protocolText (tp_Protocol port) @ ''/'' @ FormatInt (tp_TargetPort port))
      | Some listenPort \<Rightarrow> bindE (assignPorts lib assigned ports) (\<lambda>rest. Inr (port \<lparr> tp_RelayPort := Some listenPort \<rparr> # rest)))"

definition AttachRelay :: "api_env \<Rightarrow> session_lib \<Rightarrow> TrafficBinding \<Rightarrow> string \<Rightarrow> string \<Rightarrow> (string \<times> int) list \<Rightarrow> unit api" where
  "AttachRelay env lib binding relayID address ports =
     (if st_RelayOwnerID (tb_Status binding) \<noteq> relayID then failA ownedElsewhere
      else bindA (liftA (assignPorts lib ports (sp_Ports (tb_Spec binding)))) (\<lambda>assigned.
        bindA (PatchObject env binding (binding \<lparr> tb_Spec := (tb_Spec binding)
          \<lparr> sp_Relay := Some address, sp_Ports := assigned, sp_DesiredState := StateActive \<rparr> \<rparr>)) (\<lambda>_. returnA ())))"

definition RelayHeartbeat :: "api_env \<Rightarrow> time \<Rightarrow> TrafficBinding \<Rightarrow> string \<Rightarrow> unit api" where
  "RelayHeartbeat env now binding relayID =
     (if st_RelayOwnerID (tb_Status binding) \<noteq> relayID then failA ownedElsewhere
      else bindA (PatchStatus env binding (binding \<lparr> tb_Status := (tb_Status binding) \<lparr> st_RelayHeartbeatAt := Some now \<rparr> \<rparr>))
        (\<lambda>_. returnA ()))"

definition pauseSpec :: "TrafficBinding \<Rightarrow> TrafficBinding" where
  "pauseSpec binding = binding \<lparr> tb_Spec := (tb_Spec binding) \<lparr> sp_DesiredState := StatePaused \<rparr> \<rparr>"

definition FinishRelay :: "api_env \<Rightarrow> TrafficBinding \<Rightarrow> string \<Rightarrow> string \<Rightarrow> unit api" where
  "FinishRelay env binding relayID reason =
     (if st_RelayOwnerID (tb_Status binding) \<noteq> relayID then failA ownedElsewhere
      else bindA (wrapA ''finish TrafficBinding relay: '' (PatchStatus env binding (ownershipStatus '''' None reason binding))) (\<lambda>stored.
        bindA (wrapA ''pause finished TrafficBinding Session: '' (PatchObject env stored (pauseSpec stored))) (\<lambda>_. returnA ())))"

definition resetSpec :: "TrafficBinding \<Rightarrow> TrafficBinding" where
  "resetSpec binding = binding \<lparr> tb_Spec := (tb_Spec binding) \<lparr> sp_Relay := None,
     sp_Ports := map (\<lambda>port. port \<lparr> tp_RelayPort := None \<rparr>) (sp_Ports (tb_Spec binding)), sp_DesiredState := StateActive \<rparr> \<rparr>"

definition ResetRelay :: "api_env \<Rightarrow> TrafficBinding \<Rightarrow> unit api" where
  "ResetRelay env binding =
     bindA (wrapA ''reset TrafficBinding relay owner: '' (PatchStatus env binding (ownershipStatus '''' None '''' binding))) (\<lambda>stored.
     bindA (wrapA ''reset TrafficBinding relay assignment: '' (PatchObject env stored (resetSpec stored))) (\<lambda>_. returnA ()))"

text \<open>The resume handler, after the caller's ownership of the binding has been checked.\<close>

definition Resume :: "api_env \<Rightarrow> TrafficBinding \<Rightarrow> unit api" where
  "Resume env binding =
     (if sp_DesiredState (tb_Spec binding) \<noteq> StatePaused then failA (Permanent ''Session is not paused'')
      else ResetRelay env binding)"

section \<open>Pause, deletion and activation\<close>

definition notOwned :: "string \<Rightarrow> string \<Rightarrow> k8s_error" where
  "notOwned key taskID = Permanent (''traffic binding '' @ key @ '' is not owned by Task '' @ taskID)"

definition ownsTask :: "Manager \<Rightarrow> string \<Rightarrow> TrafficBinding \<Rightarrow> bool" where
  "ownsTask manager taskID binding \<longleftrightarrow> sp_TaskID (tb_Spec binding) = taskID \<and> at (tb_Labels binding) taskIDLabel = taskID \<and>
     at (tb_Labels binding) controlPlaneIDLabel = mg_ControlPlaneID manager"

definition requestPause :: "api_env \<Rightarrow> Manager \<Rightarrow> string \<Rightarrow> string \<Rightarrow> string api" where
  "requestPause env manager namespace taskID =
     bindA (liftA (NameForTask (mg_Lib manager) taskID)) (\<lambda>name.
     if TrimSpace namespace = '''' then failA (Permanent ''traffic binding namespace is required'')
     else tryA (GetBinding env name) (\<lambda>got.
       case got of
         Inl e \<Rightarrow> if isNotFound e then failA ErrTrafficBindingNotFound
                  else failA (wrapE (''read TrafficBinding '' @ keyText namespace name @ '' for pausing: '') e)
       | Inr binding \<Rightarrow>
           if \<not> ownsTask manager taskID binding then failA (notOwned (keyText namespace name) taskID)
           else if tb_Deleting binding then failA (Permanent (''traffic binding '' @ keyText namespace name @ '' is being deleted''))
           else if sp_DesiredState (tb_Spec binding) \<noteq> StatePaused
           then bindA (wrapA (''pause TrafficBinding '' @ keyText namespace name @ '': '')
                  (PatchObject env binding (pauseSpec binding))) (\<lambda>_. returnA name)
           else returnA name))"

definition findCondition :: "Condition list \<Rightarrow> string \<Rightarrow> Condition option" where
  "findCondition conditions conditionType = find (\<lambda>c. co_Type c = conditionType) conditions"

definition pausePoll :: "api_env \<Rightarrow> string \<Rightarrow> string \<Rightarrow> bool api" where
  "pausePoll env namespace name =
     bindA (GetBinding env name) (\<lambda>current.
     let seen = (st_ObservedGeneration (tb_Status current) = tb_Generation current);
         conditions = st_Conditions (tb_Status current) in
     case findCondition conditions ''Degraded'' of
       Some degraded \<Rightarrow>
         if seen \<and> co_Status degraded \<and> co_Reason degraded = ''PauseFailed''
         then failA (Permanent (''pause TrafficBinding '' @ keyText namespace name @ '' failed: '' @ co_Message degraded))
         else returnA (case findCondition conditions ''Paused'' of None \<Rightarrow> False | Some paused \<Rightarrow> co_Status paused \<and> seen)
     | None \<Rightarrow> returnA (case findCondition conditions ''Paused'' of None \<Rightarrow> False | Some paused \<Rightarrow> co_Status paused \<and> seen))"

definition Pause :: "api_env \<Rightarrow> Manager \<Rightarrow> nat \<Rightarrow> string \<Rightarrow> string \<Rightarrow> unit api" where
  "Pause env manager polls namespace taskID =
     tryA (requestPause env manager namespace taskID) (\<lambda>requested.
       case requested of
         Inl e \<Rightarrow> if e = ErrTrafficBindingNotFound then returnA () else failA e
       | Inr name \<Rightarrow> pollA polls (pausePoll env namespace name))"

definition RequestPause :: "api_env \<Rightarrow> Manager \<Rightarrow> string \<Rightarrow> string \<Rightarrow> unit api" where
  "RequestPause env manager namespace taskID =
     tryA (requestPause env manager namespace taskID) (\<lambda>requested.
       case requested of
         Inl e \<Rightarrow> if e = ErrTrafficBindingNotFound then returnA () else failA e
       | Inr _ \<Rightarrow> returnA ())"

definition gonePoll :: "api_env \<Rightarrow> string \<Rightarrow> bool api" where
  "gonePoll env name = tryA (GetBinding env name) (\<lambda>got.
     case got of Inl e \<Rightarrow> if isNotFound e then returnA True else failA e | Inr _ \<Rightarrow> returnA False)"

definition DeleteSession :: "api_env \<Rightarrow> Manager \<Rightarrow> nat \<Rightarrow> string \<Rightarrow> string \<Rightarrow> unit api" where
  "DeleteSession env manager polls namespace taskID =
     bindA (liftA (NameForTask (mg_Lib manager) taskID)) (\<lambda>name.
     if TrimSpace namespace = '''' then failA (Permanent ''traffic binding namespace is required'')
     else tryA (GetBinding env name) (\<lambda>got.
       case got of
         Inl e \<Rightarrow> if isNotFound e then returnA ()
                  else failA (wrapE (''read TrafficBinding '' @ keyText namespace name @ '' for deletion: '') e)
       | Inr binding \<Rightarrow>
           if \<not> ownsTask manager taskID binding then failA (notOwned (keyText namespace name) taskID)
           else bindA (if \<not> tb_Deleting binding
                       then wrapA (''delete TrafficBinding '' @ keyText namespace name @ '': '') (ignoreNotFound (DeleteBinding env name))
                       else returnA ()) (\<lambda>_.
             pollA polls (gonePoll env name))))"

definition activeCandidate :: "string \<Rightarrow> TrafficBinding \<Rightarrow> k8s_error + bool" where
  "activeCandidate key candidate =
     (let conditions = st_Conditions (tb_Status candidate) in
      if tb_Deleting candidate then permanentf (''traffic binding '' @ key @ '' is being deleted'')
      else case findCondition conditions ''Degraded'' of
        Some c \<Rightarrow>
          if co_Status c then permanentf (''traffic binding '' @ key @ '' is degraded ('' @ co_Reason c @ ''): '' @ co_Message c)
          else Inr (case findCondition conditions ''Ready'' of None \<Rightarrow> False
                    | Some ready \<Rightarrow> co_Status ready \<and> st_ObservedGeneration (tb_Status candidate) = tb_Generation candidate)
      | None \<Rightarrow> Inr (case findCondition conditions ''Ready'' of None \<Rightarrow> False
                    | Some ready \<Rightarrow> co_Status ready \<and> st_ObservedGeneration (tb_Status candidate) = tb_Generation candidate))"

fun activePoll :: "api_env \<Rightarrow> string \<Rightarrow> string \<Rightarrow> nat \<Rightarrow> TrafficBinding api" where
  "activePoll env key name 0 = failA (ApiError ''context canceled'')"
| "activePoll env key name (Suc n) =
     tryA (GetBinding env name) (\<lambda>got.
       case got of
         Inl e \<Rightarrow> if isNotFound e then failA (Permanent (''traffic binding '' @ key @ '' disappeared before becoming ready'')) else failA e
       | Inr candidate \<Rightarrow> bindA (liftA (activeCandidate key candidate)) (\<lambda>finished.
           if finished then returnA candidate else activePoll env key name n))"

text \<open>
  The object exists already: an error that ends the request, with whether the task owns the object, or none.
\<close>

definition rebind :: "api_env \<Rightarrow> Manager \<Rightarrow> TrafficBinding \<Rightarrow> (k8s_error \<times> bool) option api" where
  "rebind env manager desired =
     (let key = keyText (tb_Namespace desired) (tb_Name desired) in
      tryA (GetBinding env (tb_Name desired)) (\<lambda>got.
        case got of
          Inl e \<Rightarrow> returnA (Some (wrapE (''read existing TrafficBinding '' @ key @ '': '') e, False))
        | Inr existing \<Rightarrow>
            if \<not> sameBindingWorkload (tb_Spec existing) (tb_Spec desired) \<or>
               at (tb_Labels existing) taskIDLabel \<noteq> sp_TaskID (tb_Spec desired) \<or>
               at (tb_Labels existing) controlPlaneIDLabel \<noteq> mg_ControlPlaneID manager
            then returnA (Some (conflictError ''traffic binding '' desired ''Session'', False))
            else if tb_Spec existing \<noteq> tb_Spec desired \<or> at (tb_Labels existing) sessionIDLabel \<noteq> sp_SessionID (tb_Spec desired) \<or>
                    at (tb_Labels existing) userIDLabel \<noteq> sp_IdentityID (tb_Spec desired)
            then tryA (PatchObject env existing (setLabels manager (existing \<lparr> tb_Spec := tb_Spec desired \<rparr>))) (\<lambda>patched.
                   case patched of
                     Inl e \<Rightarrow> returnA (Some (wrapE (''activate TrafficBinding '' @ key @ '': '') e, True))
                   | Inr _ \<Rightarrow> returnA None)
            else returnA None))"

text \<open>The outcome with whether the task owns the object, also when it is an error.\<close>

definition Activate :: "api_env \<Rightarrow> Manager \<Rightarrow> nat \<Rightarrow> TrafficBinding \<Rightarrow> ((k8s_error + TrafficBinding) \<times> bool) api" where
  "Activate env manager polls binding =
     (if TrimSpace (tb_Namespace binding) = '''' then returnA (permanentf ''traffic binding namespace is required'', False)
      else case NameForTask (mg_Lib manager) (sp_TaskID (tb_Spec binding)) of
        Inl e \<Rightarrow> returnA (Inl e, False)
      | Inr name \<Rightarrow>
          let desired = setLabels manager (binding \<lparr> tb_Name := name, tb_Namespace := TrimSpace (tb_Namespace binding), tb_UID := '''',
                tb_Generation := 0, tb_Deleting := False, tb_Spec := (tb_Spec binding) \<lparr> sp_DesiredState := StateActive \<rparr> \<rparr>);
              key = keyText (tb_Namespace desired) name in
          bindA (tryA (CreateBinding env desired) (\<lambda>created.
            case created of
              Inr _ \<Rightarrow> returnA None
            | Inl e \<Rightarrow> if isAlreadyExists e then rebind env manager desired
                     else returnA (Some (wrapE (''create TrafficBinding '' @ key @ '': '') e, False)))) (\<lambda>stop.
          case stop of
            Some (e, owned) \<Rightarrow> returnA (Inl e, owned)
          | None \<Rightarrow> tryA (activePoll env key name polls) (\<lambda>ready.
              case ready of
                Inl e \<Rightarrow> returnA (Inl (wrapE (''wait for TrafficBinding '' @ key @ '': '') e), True)
              | Inr current \<Rightarrow> returnA (Inr current, True))))"

section \<open>Adoption by a new transport Session\<close>

definition bindingsOf :: "string \<Rightarrow> TrafficBinding list \<Rightarrow> TrafficBinding list" where
  "bindingsOf identityID items = filter (\<lambda>b. sp_IdentityID (tb_Spec b) = identityID \<and> \<not> tb_Deleting b) items"

definition adopt :: "api_env \<Rightarrow> string \<Rightarrow> string \<Rightarrow> int \<Rightarrow> TrafficBinding \<Rightarrow> unit api" where
  "adopt env identityID sessionID generation binding =
     (if sp_SessionID (tb_Spec binding) = sessionID \<and> sp_SessionGeneration (tb_Spec binding) = generation then returnA ()
      else bindA (wrapA (''reload TrafficBinding Session '' @ sp_TaskID (tb_Spec binding) @ '': '') (GetBinding env (tb_Name binding))) (\<lambda>current.
        bindA (wrapA (''adopt TrafficBinding Session '' @ sp_TaskID (tb_Spec binding) @ '': '') (PatchObject env current (current \<lparr>
          tb_Spec := (tb_Spec current) \<lparr> sp_SessionID := sessionID, sp_SessionGeneration := generation \<rparr>,
          tb_Labels := AList.update userIDLabel identityID (AList.update sessionIDLabel sessionID (tb_Labels current)) \<rparr>))) (\<lambda>_.
        returnA ())))"

definition Synchronize :: "api_env \<Rightarrow> Manager \<Rightarrow> string \<Rightarrow> string \<Rightarrow> 64 word \<Rightarrow> unit api" where
  "Synchronize env manager identityID sessionID generation =
     (if generation = 0 \<or> generation > 9223372036854775807
      then failA (Permanent ''transport Session generation is invalid'')
      else bindA (wrapA ''list TrafficBinding Sessions: '' (ListBindings env
             [(managedByLabel, cpManagedByValue), (controlPlaneIDLabel, mg_ControlPlaneID manager)])) (\<lambda>items.
        let mine = bindingsOf identityID items in
        bindA (forA (filter (\<lambda>b. at (tb_Labels b) userIDLabel \<noteq> identityID) mine) (\<lambda>b.
                 bindA (wrapA (''label TrafficBinding Session '' @ sp_TaskID (tb_Spec b) @ '': '') (labelUser env identityID b)) (\<lambda>_.
                   returnA ()))) (\<lambda>_.
        forA mine (adopt env identityID sessionID (uint generation)))))"

section \<open>The Control Plane leaves the Operator's state alone\<close>

lemma inert_wrap [intro]: "inert g m \<Longrightarrow> inert g (wrapA p m)"
  unfolding wrapA_def by (intro inert_try inert_sum inert_fail inert_return)

lemma inert_poll [intro]: "inert g m \<Longrightarrow> inert g (pollA n m)"
  by (induction n) (auto intro!: inert_bind inert_if)

text \<open>A call that changes one binding in a way the Operator does not mind.\<close>

lemma inert_binding_call:
  assumes ok: "others_ok g env"
    and same: "\<And>k cl. cl_Services (snd (f k cl)) = cl_Services cl"
    and kept: "\<And>k cl. snd (f k cl) = cl \<or> (\<exists>n b b'. map_of (cl_Bindings cl) n = Some b \<and> same_binding b b' \<and>
        cl_Bindings (snd (f k cl)) = AList.update n b' (cl_Bindings cl))"
  shows "inert g (call env f)"
  unfolding inert_def
proof (intro allI impI)
  fix cl k r cl' k'
  assume c: "call env f (cl, k) = (r, cl', k')"
  let ?o = "ae_others env k cl"
  have o: "gentle g cl ?o" using ok by (simp add: others_ok_def)
  have "gentle g ?o (snd (f k ?o))"
    using kept [of k ?o]
  proof (elim disjE exE conjE)
    assume "snd (f k ?o) = ?o"
    then show ?thesis by (simp add: gentle_refl)
  next
    fix n b b' assume b: "map_of (cl_Bindings ?o) n = Some b" "same_binding b b'"
      "cl_Bindings (snd (f k ?o)) = AList.update n b' (cl_Bindings ?o)"
    then show ?thesis
      using same [of k ?o] same_binding_refl same_service_refl
      by (auto simp: gentle_def AList.update_conv')
  qed
  with o gentle_trans have "gentle g cl (snd (f k ?o))" by blast
  with o show "gentle g cl cl'" using call_cases [OF c] by blast
qed

lemma inert_PatchStatus [intro]:
  assumes "others_ok g env" and "st_Phase (tb_Status after) = st_Phase (tb_Status before)"
    and "st_Snapshot (tb_Status after) = st_Snapshot (tb_Status before)"
  shows "inert g (PatchStatus env before after)"
proof -
  have "same_binding b (b \<lparr> tb_Status := mergeStatus (tb_Status before) (tb_Status after) (tb_Status b) \<rparr>)" for b
    using assms(2,3) by (auto simp: same_binding_def mergeStatus_def mergeValue_def)
  then show ?thesis
    unfolding PatchStatus_def
    by (intro inert_binding_call [OF assms(1)]) (auto simp: Let_def split: option.splits)
qed

lemma inert_PatchObject [intro]:
  assumes "others_ok g env" and "sp_Mode (tb_Spec after) = sp_Mode (tb_Spec before)"
    and "sp_Target (tb_Spec after) = sp_Target (tb_Spec before)"
    and "sp_Relay (tb_Spec after) = sp_Relay (tb_Spec before) \<or> sp_Relay (tb_Spec after) \<noteq> None"
  shows "inert g (PatchObject env before after)"
proof -
  have "same_binding b (mergeObject before after b)" for b
    using assms(2-4) by (auto simp: same_binding_def mergeObject_def mergeSpec_def mergeValue_def Let_def)
  then show ?thesis
    unfolding PatchObject_def
    by (intro inert_binding_call [OF assms(1)]) (auto simp: Let_def split: option.splits)
qed

lemma inert_DeleteBinding [intro]:
  assumes "others_ok g env"
  shows "inert g (DeleteBinding env n)"
  unfolding inert_def
proof (intro allI impI)
  fix cl k r cl' k'
  assume c: "DeleteBinding env n (cl, k) = (r, cl', k')"
  let ?f = "\<lambda>_ cl. case map_of (cl_Bindings cl) n of
        None \<Rightarrow> (Inl (NotFound (notFoundText ''trafficbindings'' n)), cl)
      | Some stored \<Rightarrow> (Inr (), cl \<lparr> cl_Bindings :=
          (if tb_Finalizers stored = [] then AList.delete n (cl_Bindings cl)
           else AList.update n (stored \<lparr> tb_Deleting := True \<rparr>) (cl_Bindings cl)) \<rparr>)"
  let ?o = "ae_others env k cl"
  have o: "gentle g cl ?o" using assms by (simp add: others_ok_def)
  have marked: "same_binding b (b \<lparr> tb_Deleting := True \<rparr>)" for b by (auto simp: same_binding_def)
  have "gentle g ?o (snd (?f k ?o))"
    by (auto simp: gentle_def AList.update_conv' AList.delete_conv' same_service_refl same_binding_refl marked split: option.splits)
  with o gentle_trans have "gentle g cl (snd (?f k ?o))" by blast
  with o show "gentle g cl cl'" using call_cases [OF c [unfolded DeleteBinding_def]] by blast
qed

lemma ownershipStatus_fields [simp]:
  "st_Phase (tb_Status (ownershipStatus o' h e b)) = st_Phase (tb_Status b)"
  "st_Snapshot (tb_Status (ownershipStatus o' h e b)) = st_Snapshot (tb_Status b)"
  "tb_Name (ownershipStatus o' h e b) = tb_Name b" "tb_Spec (ownershipStatus o' h e b) = tb_Spec b"
  by (simp_all add: ownershipStatus_def)

lemma inert_session_operations:
  assumes ok: "others_ok g env"
  shows "inert g (ClaimRelay env now b relay)" "inert g (AttachRelay env lib b relay address ports)"
    "inert g (RelayHeartbeat env now b relay)" "inert g (FinishRelay env b relay reason)"
    "inert g (requestPause env manager namespace taskID)" "inert g (Pause env manager polls namespace taskID)"
    "inert g (DeleteSession env manager polls namespace taskID)" "inert g (adopt env identityID sessionID generation b)"
proof -
  show pause: "inert g (requestPause env manager namespace taskID)"
    unfolding requestPause_def
    by (intro inert_bind inert_lift inert_if inert_fail inert_try inert_sum inert_return inert_wrap inert_PatchObject inert_calls ok)
      (auto simp: pauseSpec_def)
  have "inert g (pausePoll env ns n)" for ns n
    unfolding pausePoll_def Let_def by (intro inert_bind inert_calls inert_option inert_if inert_fail inert_return ok)
  then show "inert g (Pause env manager polls namespace taskID)"
    unfolding Pause_def by (intro inert_try pause inert_sum inert_if inert_return inert_fail inert_poll)
  have "inert g (gonePoll env n)" for n
    unfolding gonePoll_def by (intro inert_try inert_calls inert_sum inert_if inert_return inert_fail ok)
  then show "inert g (DeleteSession env manager polls namespace taskID)"
    unfolding DeleteSession_def
    by (intro inert_bind inert_lift inert_if inert_fail inert_try inert_sum inert_return inert_wrap inert_ignoreNotFound
        inert_DeleteBinding inert_calls inert_poll ok)
qed (auto simp: ClaimRelay_def AttachRelay_def RelayHeartbeat_def FinishRelay_def adopt_def pauseSpec_def
    intro!: inert_if inert_fail inert_wrap inert_PatchStatus inert_bind inert_lift inert_PatchObject inert_return inert_calls ok)

section \<open>Resuming\<close>

lemma valid_PatchObject_free:
  assumes ok: "others_ok g env" and name: "tb_Name before = tg_Binding g"
    and same: "sp_Mode (tb_Spec after) = sp_Mode (tb_Spec before)" "sp_Target (tb_Spec after) = sp_Target (tb_Spec before)"
  shows "valid (\<lambda>cl. safe g cl \<and> \<not> held g cl) (PatchObject env before after) (\<lambda>_. safe g) (\<lambda>_. safe g)"
  unfolding PatchObject_def
proof (rule valid_call [OF ok])
  show "stable g (\<lambda>cl. safe g cl \<and> \<not> held g cl)" by (intro stable_conj) auto
next
  fix k cl assume p: "safe g cl \<and> \<not> held g cl"
  show "case (case map_of (cl_Bindings cl) (tb_Name before) of
        None \<Rightarrow> (Inl (NotFound (notFoundText ''trafficbindings'' (tb_Name before))), cl)
      | Some stored \<Rightarrow> let merged = mergeObject before after stored in
          (Inr merged, cl \<lparr> cl_Bindings := AList.update (tb_Name before) merged (cl_Bindings cl) \<rparr>)) of
      (Inr x, cl') \<Rightarrow> safe g cl' \<and> (\<forall>e. \<not> isNotFound e \<longrightarrow> safe g cl')
    | (Inl e, cl') \<Rightarrow> safe g cl' \<and> (\<forall>e'. \<not> isNotFound e' \<longrightarrow> safe g cl')"
  proof (cases "storedBinding g cl")
    case (Some stored)
    have "binding_ok g (mergeObject before after stored)"
      using p Some same by (auto simp: safe_def binding_ok_def mergeObject_def mergeSpec_def mergeValue_def Let_def)
    then have "safe g (cl \<lparr> cl_Bindings := AList.update (tg_Binding g) (mergeObject before after stored) (cl_Bindings cl) \<rparr>)"
      using p by (intro safe_free_bindings [THEN conjunct1]) (auto simp: AList.update_conv' split: if_splits)
    then show ?thesis unfolding name Some option.case Let_def prod.case sum.case by blast
  qed (use p name in simp)
qed auto

lemma valid_conj:
  assumes "valid P m Q E" "valid P m Q' E'"
  shows "valid P m (\<lambda>x cl. Q x cl \<and> Q' x cl) (\<lambda>e cl. E e cl \<and> E' e cl)"
  unfolding valid_def
proof (intro allI impI)
  fix cl k assume "P cl"
  then have "outcome Q E (m (cl, k))" "outcome Q' E' (m (cl, k))" using assms by (auto simp: valid_def)
  then show "outcome (\<lambda>x cl. Q x cl \<and> Q' x cl) (\<lambda>e cl. E e cl \<and> E' e cl) (m (cl, k))"
    by (auto simp: outcome_def split: prod.splits sum.splits)
qed

text \<open>The binding that a patch of the status returns is the stored one.\<close>

lemma valid_PatchStatus_name:
  assumes ok: "others_ok g env" and name: "tb_Name b = tg_Binding g"
    and same: "st_Phase (tb_Status after) = st_Phase (tb_Status b)" "st_Snapshot (tb_Status after) = st_Snapshot (tb_Status b)"
  shows "valid (\<lambda>cl. safe g cl \<and> \<not> held g cl) (PatchStatus env b after)
    (\<lambda>stored cl. tb_Name stored = tg_Binding g \<and> safe g cl \<and> \<not> held g cl) (\<lambda>_. safe g)"
proof -
  have "tb_Name b = tg_Binding g" if "safe g cl" "storedBinding g cl = Some b" for cl b
    using that by (simp add: safe_def binding_ok_def)
  then have "valid (safe g) (PatchStatus env b after) (\<lambda>stored _. tb_Name stored = tg_Binding g) (\<lambda>_ _. True)"
    unfolding PatchStatus_def by (intro valid_call [OF ok stable_safe]) (auto simp: Let_def name split: option.split)
  then have named: "valid (\<lambda>cl. safe g cl \<and> \<not> held g cl) (PatchStatus env b after)
      (\<lambda>stored _. tb_Name stored = tg_Binding g) (\<lambda>_ _. True)"
    by (auto simp: valid_def)
  have kept: "valid (\<lambda>cl. safe g cl \<and> \<not> held g cl) (PatchStatus env b after)
      (\<lambda>_ cl. safe g cl \<and> \<not> held g cl) (\<lambda>_ cl. safe g cl \<and> \<not> held g cl)"
    by (rule valid_inert [OF inert_PatchStatus [OF ok same]]) (intro stable_conj, auto)
  show ?thesis by (rule valid_weaken [OF valid_conj [OF named kept]]) simp_all
qed

lemma valid_wrap:
  assumes "valid P m Q (\<lambda>_. E)"
  shows "valid P (wrapA p m) Q (\<lambda>_. E)"
  unfolding wrapA_def by (rule valid_try [OF assms]) (auto intro!: valid_return valid_fail)

lemma valid_ResetRelay:
  assumes ok: "others_ok g env" and name: "tb_Name b = tg_Binding g"
  shows "valid (\<lambda>cl. safe g cl \<and> \<not> held g cl) (ResetRelay env b) (\<lambda>_. safe g) (\<lambda>_. safe g)"
  unfolding ResetRelay_def
proof (rule valid_bind [OF valid_wrap [OF valid_PatchStatus_name [OF ok name]]])
  fix x
  show "valid (\<lambda>cl. tb_Name x = tg_Binding g \<and> safe g cl \<and> \<not> held g cl)
      (bindA (wrapA ''reset TrafficBinding relay assignment: '' (PatchObject env x (resetSpec x))) (\<lambda>_. returnA ()))
      (\<lambda>_. safe g) (\<lambda>_. safe g)"
    by (rule valid_fact, rule valid_then_inert [OF valid_wrap [OF valid_PatchObject_free [OF ok]]])
      (auto simp: resetSpec_def)
qed simp_all

section \<open>Runs of the whole system\<close>

text \<open>
  The operations of the Control Plane and of relays on the binding, as the code performs them after it has read
  the binding. \<open>SResume waits\<close> is the resume handler; with \<open>waits\<close> it acts only on a binding whose phase is
  \<open>Paused\<close>, which the handler of the code does not check.
\<close>

datatype binding_op =
    SClaim time string
  | SAttach session_lib string string "(string \<times> int) list"
  | SHeartbeat time string
  | SFinish string string
  | SPause Manager string string
  | SDelete Manager nat string string
  | SAdopt string string int
  | SResume bool

definition perform :: "api_env \<Rightarrow> string \<Rightarrow> binding_op \<Rightarrow> unit api" where
  "perform env name op =
     (case op of
        SPause manager namespace taskID \<Rightarrow> bindA (requestPause env manager namespace taskID) (\<lambda>_. returnA ())
      | SDelete manager polls namespace taskID \<Rightarrow> DeleteSession env manager polls namespace taskID
      | _ \<Rightarrow> bindA (GetBinding env name) (\<lambda>b.
          case op of
            SClaim now relay \<Rightarrow> bindA (ClaimRelay env now b relay) (\<lambda>_. returnA ())
          | SAttach lib relay address ports \<Rightarrow> AttachRelay env lib b relay address ports
          | SHeartbeat now relay \<Rightarrow> RelayHeartbeat env now b relay
          | SFinish relay reason \<Rightarrow> FinishRelay env b relay reason
          | SAdopt identityID sessionID generation \<Rightarrow> adopt env identityID sessionID generation b
          | SResume waits \<Rightarrow> if waits \<and> st_Phase (tb_Status b) \<noteq> Paused then returnA () else Resume env b
          | _ \<Rightarrow> returnA ()))"

datatype system_action = Operate api_env nat | Perform api_env nat binding_op

fun system_step :: "string \<Rightarrow> cluster \<Rightarrow> system_action \<Rightarrow> cluster" where
  "system_step name cl (Operate env k) = fst (snd (Reconcile env name (cl, k)))"
| "system_step name cl (Perform env k op) = fst (snd (perform env name op (cl, k)))"

fun system_ok :: "target \<Rightarrow> system_action \<Rightarrow> bool" where
  "system_ok g (Operate env _) = others_ok g env"
| "system_ok g (Perform env _ op) = (others_ok g env \<and> op \<noteq> SResume False)"

lemma valid_perform:
  assumes ok: "others_ok g env" and guard: "op \<noteq> SResume False"
  shows "valid (safe g) (perform env (tg_Binding g) op) (\<lambda>_. safe g) (\<lambda>_. safe g)"
proof (cases "op = SResume True")
  case True
  have "valid (known g b) (if True \<and> st_Phase (tb_Status b) \<noteq> Paused then returnA () else Resume env b) (\<lambda>_. safe g) (\<lambda>_. safe g)" for b
  proof (cases "st_Phase (tb_Status b) = Paused \<and> binding_ok g b")
    case p: True
    then have "valid (known g b) (ResetRelay env b) (\<lambda>_. safe g) (\<lambda>_. safe g)"
      by (intro valid_pre [OF _ valid_ResetRelay [OF ok]]) (auto simp: known_def frees_def guards_def idle_def binding_ok_def)
    with p show ?thesis by (auto simp: Resume_def intro!: valid_fail dest: known_safe)
  next
    case False
    then show ?thesis by (auto simp: known_def valid_def returnA_def)
  qed
  then show ?thesis
    unfolding perform_def True by (auto intro: valid_bind [OF valid_GetBinding [OF ok]])
next
  case False
  note ops = inert_session_operations [OF ok]
  have "inert g (perform env (tg_Binding g) op)"
    unfolding perform_def using False guard
    by (cases op) (auto intro!: inert_bind inert_return inert_calls ops ok)
  then show ?thesis by (rule valid_inert) auto
qed

lemma system_step_safe:
  assumes "safe g cl" "system_ok g op"
  shows "safe g (system_step (tg_Binding g) cl op)"
proof (cases op)
  case (Operate env k)
  then show ?thesis using run_step_safe [of g cl "OpReconcile env k"] assms by simp
next
  case (Perform env k s)
  then have "outcome (\<lambda>_. safe g) (\<lambda>_. safe g) (perform env (tg_Binding g) s (cl, k))"
    using valid_perform [of g env s] assms by (simp add: valid_def)
  then show ?thesis using Perform by (auto simp: outcome_def split: prod.splits sum.splits)
qed

interpretation system: step_invariant "system_step (tg_Binding g)" "safe g" "system_ok g" for g
  by unfold_locales (rule system_step_safe)


text \<open>A relay claims the binding, the Operator takes the Service over and the relay ends.\<close>

definition w_system :: "system_action list" where
  "w_system = [Perform (w_api (\<lambda>_. None)) 0 (SClaim 0 ''r''), Operate (w_api (\<lambda>_. None)) 0, Operate (w_api (\<lambda>_. None)) 0,
     Perform (w_api (\<lambda>_. None)) 0 (SFinish ''r'' ''lost'')]"

lemma w_system_ok: "list_all (system_ok w_target) w_system"
  by (auto simp: w_system_def w_api_def others_ok_def gentle_refl)


end
