(* ===== verification/BindingRestore.thy ===== *)
theory BindingRestore
  imports BindingSessions
begin

text \<open>
  Runs without failures and without other writers: the deletion of a binding gives the Service back, with its
  selector, its EndpointSlices and its Endpoints, and ends; and what a resume request before the end of a pause
  does.
\<close>

section \<open>Quiet environments\<close>

definition quiet :: "api_env \<Rightarrow> bool" where
  "quiet env \<longleftrightarrow> (\<forall>k. ae_fault env k = None) \<and> (\<forall>k cl. ae_others env k cl = cl)"

lemma quiet_call [simp]: "quiet env \<Longrightarrow> call env f (cl, k) = (case f k cl of (r, cl') \<Rightarrow> (r, cl', k + 1))"
  by (simp add: quiet_def call_def)

text \<open>The program succeeds from the cluster, whatever the number of calls before it.\<close>

definition succeeds :: "'a api \<Rightarrow> cluster \<Rightarrow> ('a \<Rightarrow> cluster \<Rightarrow> bool) \<Rightarrow> bool" where
  "succeeds m cl Q \<longleftrightarrow> (\<forall>k. \<exists>x cl' k'. m (cl, k) = (Inr x, cl', k') \<and> Q x cl')"

lemma succeeds_return: "Q x cl \<Longrightarrow> succeeds (returnA x) cl Q"
  by (simp add: succeeds_def returnA_def)

lemma succeeds_weaken:
  assumes "succeeds m cl Q'" and "\<And>x cl'. Q' x cl' \<Longrightarrow> Q x cl'"
  shows "succeeds m cl Q"
  using assms unfolding succeeds_def by meson

lemma succeeds_bind:
  assumes m: "succeeds m cl R" and f: "\<And>x cl'. R x cl' \<Longrightarrow> succeeds (f x) cl' Q"
  shows "succeeds (bindA m f) cl Q"
  unfolding succeeds_def
proof
  fix k
  obtain x cl' k' where 1: "m (cl, k) = (Inr x, cl', k')" "R x cl'" using m unfolding succeeds_def by blast
  then obtain y cl'' k'' where 2: "f x (cl', k') = (Inr y, cl'', k'')" "Q y cl''" using f unfolding succeeds_def by meson
  show "\<exists>y cl'' k''. bindA m f (cl, k) = (Inr y, cl'', k'') \<and> Q y cl''" using 1 2 by (simp add: bindA_def)
qed

lemma succeeds_try:
  assumes m: "succeeds m cl R" and f: "\<And>x cl'. R x cl' \<Longrightarrow> succeeds (f (Inr x)) cl' Q"
  shows "succeeds (tryA m f) cl Q"
  unfolding succeeds_def
proof
  fix k
  obtain x cl' k' where 1: "m (cl, k) = (Inr x, cl', k')" "R x cl'" using m unfolding succeeds_def by blast
  then obtain y cl'' k'' where 2: "f (Inr x) (cl', k') = (Inr y, cl'', k'')" "Q y cl''" using f unfolding succeeds_def by meson
  show "\<exists>y cl'' k''. tryA m f (cl, k) = (Inr y, cl'', k'') \<and> Q y cl''" using 1 2 by (simp add: tryA_def)
qed

lemma succeeds_then: "succeeds m cl (\<lambda>_. Q) \<Longrightarrow> succeeds (bindA m (\<lambda>_. returnA x)) cl (\<lambda>_. Q)"
  by (erule succeeds_bind) (rule succeeds_return)

text \<open>A read of an object, found or not.\<close>

lemma succeeds_try_call:
  assumes "quiet env" and "\<And>k. \<exists>r. f k cl = (r, cl) \<and> succeeds (h r) cl Q"
  shows "succeeds (tryA (call env f) h) cl Q"
  unfolding succeeds_def
proof
  fix k
  obtain r where r: "f k cl = (r, cl)" "succeeds (h r) cl Q" using assms(2) by blast
  then obtain x cl' k' where "h r (cl, k + 1) = (Inr x, cl', k') \<and> Q x cl'" unfolding succeeds_def by blast
  then show "\<exists>x cl' k'. tryA (call env f) h (cl, k) = (Inr x, cl', k') \<and> Q x cl'"
    using assms(1) r by (simp add: tryA_def)
qed

lemma succeeds_call:
  assumes "quiet env" and "\<And>k. \<exists>x cl'. f k cl = (Inr x, cl') \<and> Q x cl'"
  shows "succeeds (call env f) cl Q"
  unfolding succeeds_def
proof
  fix k
  obtain x cl' where "f k cl = (Inr x, cl')" "Q x cl'" using assms(2) by blast
  then show "\<exists>x cl' k'. call env f (cl, k) = (Inr x, cl', k') \<and> Q x cl'" using assms(1) by simp
qed

section \<open>Restoring the objects of a Service\<close>

lemma isNotFound_kinds [simp]: "isNotFound (NotFound m)" "\<not> isNotFound (Permanent m)" "\<not> isNotFound (AlreadyExists m)"
  by (simp_all add: isNotFound_def)

lemma map_of_delete [simp]: "map_of (AList.delete k al) = (map_of al)(k := None)"
  by (simp add: AList.delete_conv')

lemma map_of_update [simp]: "map_of (AList.update k v al) = (map_of al)(k \<mapsto> v)"
  by (simp add: AList.update_conv')

lemma key_iff [simp]: "k \<in> fst ` set al \<longleftrightarrow> map_of al k \<noteq> None"
  by (simp add: map_of_eq_None_iff)

definition slices_become :: "cluster \<Rightarrow> (string \<rightharpoonup> EndpointSlice) \<Rightarrow> cluster \<Rightarrow> bool" where
  "slices_become cl m cl' \<longleftrightarrow> (\<exists>slices. cl' = cl \<lparr> cl_Slices := slices \<rparr> \<and> map_of slices = m)"

lemma slices_becomeI [intro]: "map_of slices = m \<Longrightarrow> slices_become cl m (cl \<lparr> cl_Slices := slices \<rparr>)"
  by (auto simp: slices_become_def)

lemma slices_stay: "slices_become cl (map_of (cl_Slices cl)) cl"
  unfolding slices_become_def by (intro exI [of _ "cl_Slices cl"]) simp

lemma slices_becomeD:
  assumes "slices_become cl m cl'"
  shows "map_of (cl_Slices cl') = m" "cl_Services cl' = cl_Services cl" "cl_Bindings cl' = cl_Bindings cl"
    "cl_Endpoints cl' = cl_Endpoints cl"
  using assms by (auto simp: slices_become_def)

lemma deletes_managed_slice:
  assumes q: "quiet env"
    and own: "\<And>s. map_of (cl_Slices cl) (managedEndpointSliceName (ae_lib env) b) = Some s \<Longrightarrow> ownedByBinding (es_Annotations s) b"
  shows "succeeds (deleteManagedSlice env b) cl
    (\<lambda>_. slices_become cl ((map_of (cl_Slices cl))(managedEndpointSliceName (ae_lib env) b := None)))"
proof (cases "map_of (cl_Slices cl) (managedEndpointSliceName (ae_lib env) b)")
  case None
  then show ?thesis
    unfolding deleteManagedSlice_def GetSlice_def Let_def
    by (intro succeeds_try_call [OF q]) (auto simp: lookupE_def fun_upd_idem slices_stay intro!: succeeds_return)
next
  case (Some s)
  let ?n = "managedEndpointSliceName (ae_lib env) b"
  have "succeeds (DeleteSlice env ?n) cl (\<lambda>_. slices_become cl ((map_of (cl_Slices cl))(?n := None)))"
    unfolding DeleteSlice_def by (rule succeeds_call [OF q]) (simp add: removeE_def Some slices_becomeI)
  then have "succeeds (ignoreNotFound (DeleteSlice env ?n)) cl (\<lambda>_. slices_become cl ((map_of (cl_Slices cl))(?n := None)))"
    unfolding ignoreNotFound_def by (rule succeeds_try) (simp add: succeeds_return)
  then show ?thesis
    unfolding deleteManagedSlice_def GetSlice_def Let_def
    by (intro succeeds_try_call [OF q]) (simp add: lookupE_def Some own)
qed

lemma restores_slice:
  assumes q: "quiet env"
  shows "succeeds (restoreEndpointSlice env snap) cl
    (\<lambda>_. slices_become cl ((map_of (cl_Slices cl))(ss_Name snap \<mapsto> restoredSlice snap)))" (is "succeeds _ _ ?Q")
proof (cases "map_of (cl_Slices cl) (ss_Name snap)")
  case None
  have create: "succeeds (CreateSlice env (ss_Name snap) (restoredSlice snap)) cl ?Q"
    unfolding CreateSlice_def by (rule succeeds_call [OF q]) (simp add: None slices_becomeI)
  have "succeeds (createOrGetSlice env (ss_Name snap) (restoredSlice snap)) cl (\<lambda>x cl'. x = None \<and> ?Q () cl')"
    unfolding createOrGetSlice_def GetSlice_def
    by (rule succeeds_try_call [OF q], simp add: lookupE_def None, rule succeeds_try [OF create]) (simp add: succeeds_return)
  then show ?thesis
    unfolding restoreEndpointSlice_def Let_def by (rule succeeds_bind) (simp add: succeeds_return)
next
  case (Some s)
  have "succeeds (createOrGetSlice env (ss_Name snap) (restoredSlice snap)) cl (\<lambda>x cl'. x = Some s \<and> cl' = cl)"
    unfolding createOrGetSlice_def GetSlice_def
    by (rule succeeds_try_call [OF q]) (simp add: lookupE_def Some succeeds_return)
  moreover have "succeeds (UpdateSlice env (ss_Name snap) s (restoredSlice snap)) cl ?Q"
    unfolding UpdateSlice_def by (rule succeeds_call [OF q]) (simp add: replaceE_def Some slices_becomeI)
  ultimately show ?thesis unfolding restoreEndpointSlice_def Let_def by (auto intro: succeeds_bind)
qed

text \<open>The slices that a snapshot holds, as a map.\<close>

definition snapshotMap :: "EndpointSliceSnapshot list \<Rightarrow> string \<rightharpoonup> EndpointSlice" where
  "snapshotMap snaps = map_of (map (\<lambda>s. (ss_Name s, restoredSlice s)) snaps)"

lemma slices_become_trans:
  "slices_become cl m cl' \<Longrightarrow> slices_become cl' m' cl'' \<Longrightarrow> slices_become cl m' cl''"
  by (auto simp: slices_become_def)

lemma restores_slices:
  assumes q: "quiet env" and "distinct (map ss_Name snaps)"
  shows "succeeds (forA snaps (restoreEndpointSlice env)) cl (\<lambda>_. slices_become cl (map_of (cl_Slices cl) ++ snapshotMap snaps))"
  using assms(2)
proof (induction snaps arbitrary: cl)
  case Nil
  then show ?case by (simp add: snapshotMap_def succeeds_return slices_stay)
next
  case (Cons s snaps)
  have "snapshotMap snaps (ss_Name s) = None"
    using Cons.prems by (auto simp: snapshotMap_def map_of_eq_None_iff simp del: key_iff)
  then have m: "(map_of (cl_Slices cl))(ss_Name s \<mapsto> restoredSlice s) ++ snapshotMap snaps = map_of (cl_Slices cl) ++ snapshotMap (s # snaps)"
    by (auto simp: snapshotMap_def map_add_def fun_eq_iff split: option.splits)
  show ?case
    unfolding forA.simps
  proof (rule succeeds_bind [OF restores_slice [OF q]])
    fix cl' assume one: "slices_become cl ((map_of (cl_Slices cl))(ss_Name s \<mapsto> restoredSlice s)) cl'"
    have "succeeds (forA snaps (restoreEndpointSlice env)) cl' (\<lambda>_. slices_become cl' (map_of (cl_Slices cl') ++ snapshotMap snaps))"
      using Cons by simp
    then show "succeeds (forA snaps (restoreEndpointSlice env)) cl' (\<lambda>_. slices_become cl (map_of (cl_Slices cl) ++ snapshotMap (s # snaps)))"
      by (rule succeeds_weaken) (use one m slices_becomeD(1) [OF one] slices_become_trans in \<open>auto\<close>)
  qed
qed

lemma restores_endpoints:
  assumes q: "quiet env"
  shows "succeeds (restoreEndpoints env snap) cl (\<lambda>_ cl'. \<exists>eps ep. cl' = cl \<lparr> cl_Endpoints := eps \<rparr> \<and>
    map_of eps (sn_ServiceName snap) = Some ep \<and> en_Subsets ep = sn_EndpointSubsets snap)" (is "succeeds _ _ ?Q")
proof (cases "map_of (cl_Endpoints cl) (sn_ServiceName snap)")
  case None
  have "succeeds (CreateEndpoints env (sn_ServiceName snap) \<lparr> en_Metadata = '''', en_Subsets = sn_EndpointSubsets snap \<rparr>) cl ?Q"
    unfolding CreateEndpoints_def by (rule succeeds_call [OF q], simp add: None, rule exI, rule conjI, rule refl) simp
  then show ?thesis
    unfolding restoreEndpoints_def GetEndpoints_def Let_def by (intro succeeds_try_call [OF q]) (simp add: lookupE_def None)
next
  case (Some e)
  have "succeeds (UpdateEndpoints env (sn_ServiceName snap) e (e \<lparr> en_Subsets := sn_EndpointSubsets snap \<rparr>)) cl ?Q"
    unfolding UpdateEndpoints_def
    by (rule succeeds_call [OF q], simp add: replaceE_def Some, rule exI, rule conjI, rule refl) simp
  then show ?thesis
    unfolding restoreEndpoints_def GetEndpoints_def Let_def by (intro succeeds_try_call [OF q]) (simp add: lookupE_def Some)
qed

definition given_back :: "api_env \<Rightarrow> TrafficBinding \<Rightarrow> ServiceSnapshot \<Rightarrow> Service \<Rightarrow> cluster \<Rightarrow> cluster \<Rightarrow> bool" where
  "given_back env b snap sv cl cl' \<longleftrightarrow>
     (\<exists>sv'. map_of (cl_Services cl') (sn_ServiceName snap) = Some sv' \<and> sv_UID sv' = sv_UID sv \<and> sv_Ports sv' = sv_Ports sv \<and>
        map_of (sv_Selector sv') = map_of (sn_Selector snap) \<and>
        map_of (sv_Annotations sv') = (map_of (sv_Annotations sv))
          (bindingNameAnnotation := None, bindingUIDAnnotation := None, bindingModeAnnotation := None)) \<and>
     (sn_HadEndpointSlices snap \<longrightarrow> map_of (cl_Slices cl') =
        (map_of (cl_Slices cl))(managedEndpointSliceName (ae_lib env) b := None) ++ snapshotMap (sn_EndpointSlices snap)) \<and>
     (sn_HadEndpoints snap \<longrightarrow> (\<exists>ep. map_of (cl_Endpoints cl') (sn_ServiceName snap) = Some ep \<and>
        en_Subsets ep = sn_EndpointSubsets snap))"

text \<open>The conditions under which the Operator may restore the Service of a binding.\<close>

definition restorable :: "api_env \<Rightarrow> TrafficBinding \<Rightarrow> ServiceSnapshot \<Rightarrow> Service \<Rightarrow> cluster \<Rightarrow> bool" where
  "restorable env b snap sv cl \<longleftrightarrow> st_Snapshot (tb_Status b) = Some snap \<and>
     map_of (cl_Services cl) (sn_ServiceName snap) = Some sv \<and> sv_UID sv = sn_ServiceUID snap \<and> \<not> ownedByOther sv b \<and>
     (\<forall>s. map_of (cl_Slices cl) (managedEndpointSliceName (ae_lib env) b) = Some s \<longrightarrow> ownedByBinding (es_Annotations s) b)"

lemma patches_service:
  assumes q: "quiet env" and sv: "map_of (cl_Services cl) name = Some sv"
  shows "succeeds (PatchService env name sv after) cl
    (\<lambda>_ cl'. cl' = cl \<lparr> cl_Services := AList.update name (mergeService sv after sv) (cl_Services cl) \<rparr>)"
  unfolding PatchService_def by (rule succeeds_call [OF q]) (simp add: sv Let_def)

lemma succeeds_lift: "r = Inr x \<Longrightarrow> succeeds (liftA r) cl (\<lambda>_ cl'. cl' = cl)"
  by (simp add: succeeds_def liftA_def)

lemma restores_service:
  assumes q: "quiet env" and r: "restorable env b snap sv cl" and names: "distinct (map ss_Name (sn_EndpointSlices snap))"
  shows "succeeds (restoreService env b) cl (\<lambda>_ cl'. cl_Bindings cl' = cl_Bindings cl \<and> given_back env b snap sv cl cl')"
    (is "succeeds _ _ (\<lambda>_. ?Q)")
proof -
  let ?m = "(map_of (cl_Slices cl))(managedEndpointSliceName (ae_lib env) b := None)"
  let ?m' = "if sn_HadEndpointSlices snap then ?m ++ snapshotMap (sn_EndpointSlices snap) else ?m"
  let ?after = "removeBindingMetadata (sv \<lparr> sv_Selector := sn_Selector snap \<rparr>)"
  define cl1 where "cl1 = cl \<lparr> cl_Services := AList.update (sn_ServiceName snap) (mergeService sv ?after sv) (cl_Services cl) \<rparr>"
  have snap: "the (st_Snapshot (tb_Status b)) = snap" and sv: "map_of (cl_Services cl) (sn_ServiceName snap) = Some sv"
    and guards: "sv_UID sv = sn_ServiceUID snap" "\<not> ownedByOther sv b"
    and own: "\<And>s. map_of (cl_Slices cl1) (managedEndpointSliceName (ae_lib env) b) = Some s \<Longrightarrow> ownedByBinding (es_Annotations s) b"
    using r by (auto simp: restorable_def cl1_def)
  let ?slices = "if sn_HadEndpointSlices snap then forA (sn_EndpointSlices snap) (restoreEndpointSlice env) else returnA ()"
  let ?endpoints = "if sn_HadEndpoints snap then restoreEndpoints env snap else returnA ()"
  have slices: "succeeds ?slices cl2 (\<lambda>_. slices_become cl1 ?m')" if two: "slices_become cl1 ?m cl2" for cl2
  proof (cases "sn_HadEndpointSlices snap")
    case True
    have "succeeds (forA (sn_EndpointSlices snap) (restoreEndpointSlice env)) cl2 (\<lambda>_. slices_become cl1 (?m ++ snapshotMap (sn_EndpointSlices snap)))"
      using restores_slices [OF q names, of cl2, unfolded slices_becomeD(1) [OF two]]
      by (rule succeeds_weaken) (rule slices_become_trans [OF two])
    with True show ?thesis by simp
  qed (use two in \<open>simp add: succeeds_return\<close>)
  have returned: "?Q cl'"
    if three: "slices_become cl1 ?m' cl3" and kept: "cl_Services cl' = cl_Services cl3" "cl_Bindings cl' = cl_Bindings cl3"
      "cl_Slices cl' = cl_Slices cl3"
      and ep: "sn_HadEndpoints snap \<longrightarrow> (\<exists>ep. map_of (cl_Endpoints cl') (sn_ServiceName snap) = Some ep \<and>
        en_Subsets ep = sn_EndpointSubsets snap)" for cl3 cl'
    using kept ep slices_becomeD [OF three]
    by (auto simp: given_back_def cl1_def mergeService_def removeBindingMetadata_def mergeValue_def mergeMap_same fun_upd_twist binding_keys)
  have endpoints: "succeeds ?endpoints cl3 (\<lambda>_. ?Q)" if three: "slices_become cl1 ?m' cl3" for cl3
  proof (cases "sn_HadEndpoints snap")
    case True
    have "succeeds (restoreEndpoints env snap) cl3 (\<lambda>_. ?Q)"
      by (rule succeeds_weaken [OF restores_endpoints [OF q]], elim exE conjE, rule returned [OF three]) auto
    with True show ?thesis by simp
  qed (use returned [OF three] in \<open>simp add: succeeds_return\<close>)
  have rest: "succeeds (bindA (deleteManagedSlice env b) (\<lambda>_. bindA ?slices (\<lambda>_. ?endpoints))) cl1 (\<lambda>_. ?Q)"
  proof (rule succeeds_bind [OF deletes_managed_slice [OF q own]])
    fix cl2 assume "slices_become cl1 ((map_of (cl_Slices cl1))(managedEndpointSliceName (ae_lib env) b := None)) cl2"
    then show "succeeds (bindA ?slices (\<lambda>_. ?endpoints)) cl2 (\<lambda>_. ?Q)"
      by (intro succeeds_bind [OF slices endpoints]) (simp_all add: cl1_def)
  qed
  show ?thesis
    unfolding restoreService_def Let_def GetService_def snap
  proof (rule succeeds_try_call [OF q], intro exI conjI)
    show "(lookupE ''services'' (cl_Services cl) (sn_ServiceName snap), cl) = (Inr sv, cl)" by (simp add: lookupE_def sv)
    show "succeeds (case Inr sv of Inl e \<Rightarrow> if isNotFound e then deleteManagedSlice env b else failA e
      | Inr service \<Rightarrow>
          bindA (liftA (permanentE (sv_UID service \<noteq> sn_ServiceUID snap)
                   (''Service '' @ qualifiedIn b (sn_ServiceName snap) @ '' was replaced; refusing rollback''))) (\<lambda>_.
          bindA (liftA (permanentE (ownedByOther service b)
                   (''Service '' @ qualifiedIn b (sn_ServiceName snap) @ '' is owned by another TrafficBinding''))) (\<lambda>_.
          bindA (PatchService env (sn_ServiceName snap) service (removeBindingMetadata (service \<lparr> sv_Selector := sn_Selector snap \<rparr>))) (\<lambda>_.
          bindA (deleteManagedSlice env b) (\<lambda>_. bindA ?slices (\<lambda>_. ?endpoints)))))) cl (\<lambda>_. ?Q)"
      unfolding sum.case
      by (rule succeeds_bind [OF succeeds_lift], simp add: permanentE_def guards, simp only:,
          rule succeeds_bind [OF succeeds_lift], simp add: permanentE_def guards, simp only:,
          rule succeeds_bind [OF patches_service [OF q sv]], simp only: cl1_def [symmetric] rest)
  qed
qed

section \<open>The deletion of a binding\<close>

text \<open>The stored binding becomes another one, or none, and no other object changes.\<close>

definition binding_becomes :: "string \<Rightarrow> TrafficBinding option \<Rightarrow> cluster \<Rightarrow> cluster \<Rightarrow> bool" where
  "binding_becomes name b cl cl' \<longleftrightarrow> map_of (cl_Bindings cl') name = b \<and> cl_Services cl' = cl_Services cl \<and>
     cl_Slices cl' = cl_Slices cl \<and> cl_Endpoints cl' = cl_Endpoints cl"

lemma mergeValue_same [simp]: "mergeValue x y x = y"
  by (simp add: mergeValue_def)

lemma mergeStatus_same [simp]: "mergeStatus x y x = y"
  by (simp add: mergeStatus_def)

lemma gets_binding:
  assumes "quiet env" "map_of (cl_Bindings cl) name = Some b"
  shows "succeeds (GetBinding env name) cl (\<lambda>x cl'. x = b \<and> cl' = cl)"
  unfolding GetBinding_def using assms(2) by (intro succeeds_call [OF assms(1)]) (simp add: lookupE_def)

lemma patches_status:
  assumes q: "quiet env" and b: "map_of (cl_Bindings cl) (tb_Name b) = Some b"
  shows "succeeds (PatchStatus env b after) cl (\<lambda>x cl'. x = b \<lparr> tb_Status := tb_Status after \<rparr> \<and>
    binding_becomes (tb_Name b) (Some (b \<lparr> tb_Status := tb_Status after \<rparr>)) cl cl')"
  unfolding PatchStatus_def by (rule succeeds_call [OF q]) (simp add: b Let_def binding_becomes_def)

lemma writes_status:
  assumes q: "quiet env" and b: "map_of (cl_Bindings cl) (tb_Name b) = Some b"
  shows "succeeds (patchStatus env after b) cl (\<lambda>_. binding_becomes (tb_Name b) (Some (b \<lparr> tb_Status := tb_Status after \<rparr>)) cl)"
proof (cases "tb_Status b = tb_Status after")
  case True
  then have "b \<lparr> tb_Status := tb_Status after \<rparr> = b" by (simp add: True [symmetric])
  then show ?thesis using True b by (simp add: patchStatus_def succeeds_return binding_becomes_def)
next
  case False
  then show ?thesis
    unfolding patchStatus_def by (auto intro!: succeeds_bind [OF patches_status [OF q b]] succeeds_return)
qed

lemma records_event: "map_of (cl_Bindings cl) name = b \<Longrightarrow> succeeds (recordEvent t r m) cl (\<lambda>_. binding_becomes name b cl)"
  by (simp add: succeeds_def recordEvent_def binding_becomes_def)

lemma binding_becomes_trans:
  "binding_becomes name b cl cl' \<Longrightarrow> binding_becomes name b' cl' cl'' \<Longrightarrow> binding_becomes name b' cl cl''"
  by (simp add: binding_becomes_def)

lemma given_back_becomes:
  "binding_becomes name x cl cl' \<Longrightarrow> given_back env b snap sv cl' cl'' = given_back env b snap sv cl cl''"
  "binding_becomes name x cl' cl'' \<Longrightarrow> given_back env b snap sv cl cl'' = given_back env b snap sv cl cl'"
  "binding_becomes name x cl cl' \<Longrightarrow> restorable env b snap sv cl' = restorable env b snap sv cl"
  by (auto simp: given_back_def binding_becomes_def restorable_def)

lemma reconciles:
  assumes "quiet env" "map_of (cl_Bindings cl) name = Some b" "succeeds (reconcileBinding env b) cl Q"
  shows "succeeds (Reconcile env name) cl Q"
  unfolding Reconcile_def by (rule succeeds_try [OF gets_binding [OF assms(1,2)]]) (simp add: assms(3))

lemma reconciles_gone:
  assumes "quiet env" "map_of (cl_Bindings cl) name = None"
  shows "succeeds (Reconcile env name) cl (\<lambda>_ cl'. cl' = cl)"
  unfolding Reconcile_def GetBinding_def
  by (rule succeeds_try_call [OF assms(1)]) (simp add: lookupE_def assms(2) succeeds_return)

lemma run_succeeds:
  assumes "succeeds (Reconcile env name) cl (\<lambda>_. Q)"
  shows "Q (run_step name cl (OpReconcile env k))"
  using assms unfolding succeeds_def by (metis fst_conv run_step.simps(1) snd_conv)

lemma restorable_status:
  "st_Snapshot (tb_Status after) = st_Snapshot (tb_Status b) \<Longrightarrow>
    restorable env (b \<lparr> tb_Status := tb_Status after \<rparr>) snap sv cl = restorable env b snap sv cl"
  "given_back env (b \<lparr> tb_Status := tb_Status after \<rparr>) snap sv cl cl' = given_back env b snap sv cl cl'"
  by (simp_all add: restorable_def given_back_def ownedByOther_def ownedByBinding_def managedEndpointSliceName_def)

lemma status_phases [simp]:
  "st_Phase (tb_Status (restoredStatus b)) = Restored" "st_Snapshot (tb_Status (restoredStatus b)) = st_Snapshot (tb_Status b)"
  "st_Phase (tb_Status (lifecycleStatus phase r m p b)) = phase"
  "st_Snapshot (tb_Status (lifecycleStatus phase r m p b)) = st_Snapshot (tb_Status b)"
  "st_Phase (tb_Status (pausedStatus b)) = Paused" "st_Snapshot (tb_Status (pausedStatus b)) = None"
  by (simp_all add: status_defs)

text \<open>A binding of a takeover that is being deleted.\<close>

definition leaving :: "TrafficBinding \<Rightarrow> bool" where
  "leaving b \<longleftrightarrow> tb_Deleting b \<and> tb_Finalizers b = [bindingFinalizer] \<and> sp_Mode (tb_Spec b) \<in> {ModeExchange, ModeMirror}"

lemma leaving_status [simp]: "leaving (b \<lparr> tb_Status := s \<rparr>) = leaving b"
  by (simp add: leaving_def)

lemma starts_restoring:
  assumes q: "quiet env" and b: "map_of (cl_Bindings cl) (tb_Name b) = Some b" and l: "leaving b"
    and p: "st_Phase (tb_Status b) \<notin> {Paused, Restored, Restoring}"
  shows "succeeds (Reconcile env (tb_Name b)) cl (\<lambda>_. binding_becomes (tb_Name b)
    (Some (b \<lparr> tb_Status := tb_Status (lifecycleStatus Restoring ''Restoring'' ''TrafficBinding resources are being restored'' True b) \<rparr>)) cl)"
proof (rule reconciles [OF q b])
  show "succeeds (reconcileBinding env b) cl (\<lambda>_. binding_becomes (tb_Name b)
    (Some (b \<lparr> tb_Status := tb_Status (lifecycleStatus Restoring ''Restoring'' ''TrafficBinding resources are being restored'' True b) \<rparr>)) cl)"
    using l p unfolding reconcileBinding_def reconcileDeletion_def Let_def setRestoring_def setLifecycleStatus_def leaving_def
    by (auto intro!: succeeds_bind [OF writes_status [OF q b]] succeeds_return)
qed

lemma finishes_restoring:
  assumes q: "quiet env" and b: "map_of (cl_Bindings cl) (tb_Name b) = Some b" and l: "leaving b"
    and p: "st_Phase (tb_Status b) = Restoring"
    and r: "restorable env b snap sv cl" "distinct (map ss_Name (sn_EndpointSlices snap))"
  shows "succeeds (Reconcile env (tb_Name b)) cl (\<lambda>_ cl'. given_back env b snap sv cl cl' \<and>
    map_of (cl_Bindings cl') (tb_Name b) = Some (b \<lparr> tb_Status := tb_Status (restoredStatus b) \<rparr>))" (is "succeeds _ _ (\<lambda>_. ?Q)")
proof (rule reconciles [OF q b])
  have "cleanupForDeletion env b = restoreService env b"
    using l r(1) by (auto simp: cleanupForDeletion_def cleanupForPause_def cleanup_def leaving_def restorable_def)
  then have clean: "succeeds (cleanupForDeletion env b) cl (\<lambda>_ cl'. cl_Bindings cl' = cl_Bindings cl \<and> given_back env b snap sv cl cl')"
    using restores_service [OF q r] by simp
  have step: "succeeds (bindA (setRestored env b) (\<lambda>_. bindA (recordEvent ''Normal'' ''Restored'' ''TrafficBinding resources were restored'')
      (\<lambda>_. returnA Millisecond))) cl2 (\<lambda>_. ?Q)"
    if two: "cl_Bindings cl2 = cl_Bindings cl \<and> given_back env b snap sv cl cl2" for cl2
  proof -
    have b2: "map_of (cl_Bindings cl2) (tb_Name b) = Some b" using two b by simp
    show ?thesis
      unfolding setRestored_def
    proof (rule succeeds_bind [OF writes_status [OF q b2]])
      fix cl3 assume three: "binding_becomes (tb_Name b) (Some (b \<lparr> tb_Status := tb_Status (restoredStatus b) \<rparr>)) cl2 cl3"
      then have stored: "map_of (cl_Bindings cl3) (tb_Name b) = Some (b \<lparr> tb_Status := tb_Status (restoredStatus b) \<rparr>)"
        by (simp add: binding_becomes_def)
      have kept: "?Q cl4" if "binding_becomes (tb_Name b) (Some (b \<lparr> tb_Status := tb_Status (restoredStatus b) \<rparr>)) cl3 cl4" for cl4
        using two that by (auto simp: given_back_becomes(2) [OF three] given_back_becomes(2) [OF that] binding_becomes_def)
      show "succeeds (bindA (recordEvent ''Normal'' ''Restored'' ''TrafficBinding resources were restored'')
          (\<lambda>_. returnA Millisecond)) cl3 (\<lambda>_. ?Q)"
        by (rule succeeds_bind [OF records_event [OF stored]], rule succeeds_return, rule kept)
    qed
  qed
  show "succeeds (reconcileBinding env b) cl (\<lambda>_. ?Q)"
    using l p unfolding reconcileBinding_def reconcileDeletion_def Let_def leaving_def
    by (simp, intro succeeds_try [OF clean]) (simp add: step)
qed

lemma releases_binding:
  assumes q: "quiet env" and b: "map_of (cl_Bindings cl) (tb_Name b) = Some b" and l: "leaving b"
    and p: "st_Phase (tb_Status b) = Restored"
  shows "succeeds (Reconcile env (tb_Name b)) cl (\<lambda>_. binding_becomes (tb_Name b) None cl)"
proof (rule reconciles [OF q b])
  have "succeeds (PatchBinding env b (b \<lparr> tb_Finalizers := [] \<rparr>)) cl (\<lambda>_. binding_becomes (tb_Name b) None cl)"
    using l unfolding PatchBinding_def leaving_def
    by (intro succeeds_call [OF q]) (simp add: b Let_def binding_becomes_def)
  then have "succeeds (tryA (PatchBinding env b (b \<lparr> tb_Finalizers := [] \<rparr>)) (\<lambda>r. case r of
      Inl e \<Rightarrow> if isNotFound e then returnA 0 else failA e | Inr _ \<Rightarrow> returnA (0::duration))) cl (\<lambda>_. binding_becomes (tb_Name b) None cl)"
    by (rule succeeds_try) (simp add: succeeds_return)
  then show "succeeds (reconcileBinding env b) cl (\<lambda>_. binding_becomes (tb_Name b) None cl)"
    using l p unfolding reconcileBinding_def reconcileDeletion_def Let_def leaving_def by simp
qed

section \<open>What a capture records\<close>

lemma snapshotSlices_all: "snapshotSlices q n items = Inr xs \<Longrightarrow> xs = map sliceSnapshot items"
  by (induction items arbitrary: n xs) (auto simp: Let_def permanentf_def bindE_def split: if_splits sum.splits)

lemma restoredSlice_snapshot [simp]: "restoredSlice (sliceSnapshot (n, s)) = s" "ss_Name (sliceSnapshot (n, s)) = n"
  by (simp_all add: restoredSlice_def sliceSnapshot_def)

lemma snapshotMap_capture [simp]: "snapshotMap (map sliceSnapshot items) = map_of items"
  unfolding snapshotMap_def map_map comp_def by (rule arg_cong [of _ _ map_of], rule map_idI) (auto split: prod.splits)

definition slicesOf :: "string \<Rightarrow> cluster \<Rightarrow> (string \<times> EndpointSlice) list" where
  "slicesOf service cl = filter (\<lambda>(_, s). map_of (es_Labels s) serviceNameLabel = Some service) (cl_Slices cl)"

lemma map_of_slicesOf:
  assumes "distinct (map fst (cl_Slices cl))" "map_of (cl_Slices cl) n = Some s" "map_of (es_Labels s) serviceNameLabel = Some service"
  shows "map_of (slicesOf service cl) n = Some s"
proof (rule map_of_is_SomeI)
  show "distinct (map fst (slicesOf service cl))" using assms(1) by (simp add: slicesOf_def distinct_map_filter)
  show "(n, s) \<in> set (slicesOf service cl)" using assms(2,3) by (auto simp: slicesOf_def dest: map_of_SomeD)
qed

lemma capture_records:
  assumes "quiet env" "captureService env b (cl, k) = (Inr snap, s')"
  defines "service \<equiv> tt_Name (the (sp_Target (tb_Spec b)))"
  shows "sn_ServiceName snap = service" and "\<exists>sv. map_of (cl_Services cl) service = Some sv \<and> sn_ServiceUID snap = sv_UID sv \<and> sn_Selector snap = sv_Selector sv"
    and "sn_EndpointSlices snap = map sliceSnapshot (slicesOf service cl)"
    and "sn_HadEndpointSlices snap = (slicesOf service cl \<noteq> [])"
    and "sn_HadEndpoints snap \<longleftrightarrow> map_of (cl_Endpoints cl) service \<noteq> None"
    and "map_of (cl_Endpoints cl) service = Some ep \<Longrightarrow> sn_EndpointSubsets snap = en_Subsets ep"
  using assms(2)
  by (auto simp: captureService_def service_def Let_def bindA_run tryA_def GetService_def ListSlices_def GetEndpoints_def
      liftA_def permanentE_def permanentf_def assms(1) lookupE_def slicesOf_def failA_def returnA_def
      split: option.splits sum.splits if_splits dest!: snapshotSlices_all)

section \<open>From the capture to the end of the deletion\<close>

lemma deletion_completes:
  fixes k1 k2 k3 :: nat
  assumes q: "quiet env" and b: "map_of (cl_Bindings cl) (tb_Name b) = Some b" and l: "leaving b"
    and p: "st_Phase (tb_Status b) \<notin> {Paused, Restored}"
    and r: "restorable env b snap sv cl" "distinct (map ss_Name (sn_EndpointSlices snap))"
  defines "cl' \<equiv> foldl (run_step (tb_Name b)) cl [OpReconcile env k1, OpReconcile env k2, OpReconcile env k3]"
  shows "map_of (cl_Bindings cl') (tb_Name b) = None \<and> given_back env b snap sv cl cl'"
proof -
  let ?step = "\<lambda>cl k. run_step (tb_Name b) cl (OpReconcile env k)"
  have finish: "map_of (cl_Bindings (?step (?step cl1 k) k')) (tb_Name b) = None \<and> given_back env b snap sv cl1 (?step (?step cl1 k) k')"
    if one: "map_of (cl_Bindings cl1) (tb_Name b) = Some b'" "b' = b \<lparr> tb_Status := s \<rparr>" "st_Phase s = Restoring"
      "restorable env b snap sv cl1" "st_Snapshot s = st_Snapshot (tb_Status b)" for b' s cl1 k k'
  proof -
    have same: "restorable env b' snap sv cl1" using one(2,4,5) restorable_status(1) [of "b \<lparr> tb_Status := s \<rparr>" b] by simp
    have gb: "given_back env (b \<lparr> tb_Status := s \<rparr>) snap sv c c' = given_back env b snap sv c c'" for c c'
      using restorable_status(2) [of env b "b \<lparr> tb_Status := s \<rparr>"] by simp
    have "given_back env b' snap sv cl1 (run_step (tb_Name b') cl1 (OpReconcile env k)) \<and>
        map_of (cl_Bindings (run_step (tb_Name b') cl1 (OpReconcile env k))) (tb_Name b') = Some (b' \<lparr> tb_Status := tb_Status (restoredStatus b') \<rparr>)"
      by (rule run_succeeds [OF finishes_restoring [OF q _ _ _ same r(2)]]) (use one l in simp_all)
    then have mid: "given_back env b snap sv cl1 (?step cl1 k)"
      "map_of (cl_Bindings (?step cl1 k)) (tb_Name b) = Some (b' \<lparr> tb_Status := tb_Status (restoredStatus b') \<rparr>)"
      using one(2) by (simp_all add: gb del: run_step.simps)
    define b2 cl2 where "b2 = b' \<lparr> tb_Status := tb_Status (restoredStatus b') \<rparr>" and "cl2 = ?step cl1 k"
    have b2: "leaving b2" "tb_Name b2 = tb_Name b" "st_Phase (tb_Status b2) = Restored" using one(2) l by (simp_all add: b2_def)
    have "binding_becomes (tb_Name b2) None cl2 (run_step (tb_Name b2) cl2 (OpReconcile env k'))"
      by (rule run_succeeds [OF releases_binding [OF q _ b2(1,3)]])
        (use mid(2) b2(2) in \<open>simp add: b2_def [symmetric] cl2_def [symmetric] del: run_step.simps\<close>)
    then have gone: "binding_becomes (tb_Name b) None cl2 (?step cl2 k')" unfolding b2(2) .
    then have "given_back env b snap sv cl1 (?step cl2 k')"
      using mid(1) unfolding cl2_def [symmetric] by (rule given_back_becomes(2) [THEN iffD2])
    with gone show ?thesis unfolding cl2_def [symmetric] binding_becomes_def by blast
  qed
  show ?thesis
  proof (cases "st_Phase (tb_Status b) = Restoring")
    case True
    have two: "map_of (cl_Bindings (?step (?step cl k1) k2)) (tb_Name b) = None \<and> given_back env b snap sv cl (?step (?step cl k1) k2)"
      by (rule finish [of cl b "tb_Status b"]) (use True b r in simp_all)
    have "?step (?step (?step cl k1) k2) k3 = ?step (?step cl k1) k2"
      by (rule run_succeeds [OF reconciles_gone [OF q]]) (use two in blast)
    then show ?thesis using two by (simp add: cl'_def del: run_step.simps)
  next
    case False
    have one: "binding_becomes (tb_Name b) (Some (b \<lparr> tb_Status := tb_Status (lifecycleStatus Restoring ''Restoring''
        ''TrafficBinding resources are being restored'' True b) \<rparr>)) cl (?step cl k1)"
      by (rule run_succeeds [OF starts_restoring [OF q b l]]) (use p False in simp)
    have "map_of (cl_Bindings (?step (?step (?step cl k1) k2) k3)) (tb_Name b) = None \<and>
        given_back env b snap sv (?step cl k1) (?step (?step (?step cl k1) k2) k3)"
      by (rule finish [OF _ refl, where s = "tb_Status (lifecycleStatus Restoring ''Restoring'' ''TrafficBinding resources are being restored'' True b)"])
        (use one r given_back_becomes(3) [OF one] in \<open>simp_all add: binding_becomes_def del: run_step.simps\<close>)
    then show ?thesis by (simp add: cl'_def given_back_becomes(1) [OF one] del: run_step.simps)
  qed
qed

text \<open>C3. Taking a Service over and giving it back is a round trip. Let the snapshot in the status of a binding be
  one that was captured earlier. When the binding is deleted, without failures and other writers, three
  reconciliations remove it, and then the Service has its former selector and no mark, every EndpointSlice that
  belonged to it at the time of the capture is stored as it was, and its Endpoints have their former subsets. The
  Service must still be the captured one, not marked by another binding, and the name of the relay's slice must not
  be taken by a foreign one.\<close>

theorem deletion_gives_service_back:
  fixes k0 k1 k2 k3 :: nat
  assumes "quiet env0" and capture: "captureService env0 b0 (cl0, k0) = (Inr snap, s0)" and names: "distinct (map fst (cl_Slices cl0))"
    and q: "quiet env" and b: "map_of (cl_Bindings cl) (tb_Name b) = Some b" and l: "leaving b"
    and p: "st_Phase (tb_Status b) \<notin> {Paused, Restored}" and r: "restorable env b snap sv cl"
  shows "let service = tt_Name (the (sp_Target (tb_Spec b0)));
             cl' = foldl (run_step (tb_Name b)) cl [OpReconcile env k1, OpReconcile env k2, OpReconcile env k3] in
    map_of (cl_Bindings cl') (tb_Name b) = None \<and>
    (\<exists>sv0 sv'. map_of (cl_Services cl0) service = Some sv0 \<and> map_of (cl_Services cl') service = Some sv' \<and>
       sv_UID sv' = sv_UID sv0 \<and> map_of (sv_Selector sv') = map_of (sv_Selector sv0) \<and>
       map_of (sv_Annotations sv') bindingUIDAnnotation = None) \<and>
    (\<forall>n s. map_of (cl_Slices cl0) n = Some s \<and> map_of (es_Labels s) serviceNameLabel = Some service \<longrightarrow>
       map_of (cl_Slices cl') n = Some s) \<and>
    (\<forall>ep. map_of (cl_Endpoints cl0) service = Some ep \<longrightarrow>
       (\<exists>ep'. map_of (cl_Endpoints cl') service = Some ep' \<and> en_Subsets ep' = en_Subsets ep))"
proof -
  let ?service = "tt_Name (the (sp_Target (tb_Spec b0)))"
  let ?cl = "foldl (run_step (tb_Name b)) cl [OpReconcile env k1, OpReconcile env k2, OpReconcile env k3]"
  note records = capture_records [OF assms(1) capture]
  have "distinct (map ss_Name (sn_EndpointSlices snap))"
    using names by (simp add: records(3) comp_def sliceSnapshot_def slicesOf_def distinct_map_filter)
  then have done': "map_of (cl_Bindings ?cl) (tb_Name b) = None" "given_back env b snap sv cl ?cl"
    using deletion_completes [OF q b l p r, of k1 k2 k3] by simp_all
  obtain sv0 where sv0: "map_of (cl_Services cl0) ?service = Some sv0" "sn_ServiceUID snap = sv_UID sv0" "sn_Selector snap = sv_Selector sv0"
    using records(2) by blast
  have service: "\<exists>sv'. map_of (cl_Services ?cl) ?service = Some sv' \<and> sv_UID sv' = sv_UID sv0 \<and>
      map_of (sv_Selector sv') = map_of (sv_Selector sv0) \<and> map_of (sv_Annotations sv') bindingUIDAnnotation = None"
    using done'(2) r sv0 by (auto simp: given_back_def records(1) restorable_def simp del: foldl.simps)
  have slice: "map_of (cl_Slices ?cl) n = Some s"
    if "map_of (cl_Slices cl0) n = Some s" "map_of (es_Labels s) serviceNameLabel = Some ?service" for n s
  proof -
    have n: "map_of (slicesOf ?service cl0) n = Some s" using map_of_slicesOf [OF names that] .
    then have "sn_HadEndpointSlices snap" by (auto simp: records(4))
    then show ?thesis using done'(2) n by (simp add: given_back_def records(3) map_add_Some_iff del: foldl.simps)
  qed
  have "\<exists>ep'. map_of (cl_Endpoints ?cl) ?service = Some ep' \<and> en_Subsets ep' = en_Subsets ep"
    if "map_of (cl_Endpoints cl0) ?service = Some ep" for ep
    using done'(2) that records(5,6) by (simp add: given_back_def records(1) del: foldl.simps)
  then show ?thesis using done'(1) service slice sv0(1) by (simp add: Let_def del: foldl.simps)
qed

section \<open>A resume before the end of a pause\<close>

lemma mergeMap_self [simp]: "mergeMap m m m = m"
proof -
  have keep: "foldl (\<lambda>m k. m) s ks = s" for s :: smap and ks :: "string list" by (induction ks) auto
  have all: "filter (\<lambda>(k, _). \<not> (k \<in> set (map fst m) \<and> k \<notin> set (map fst m))) m = m" by (rule filter_True) auto
  show ?thesis unfolding mergeMap_def using all by (simp add: keep del: key_iff)
qed

lemma mergeSpec_same [simp]: "mergeSpec x y x = y"
  by (simp add: mergeSpec_def)

lemma patches_object:
  assumes q: "quiet env" and b: "map_of (cl_Bindings cl) (tb_Name b) = Some b" and labels: "tb_Labels after = tb_Labels b"
  shows "succeeds (PatchObject env b after) cl (\<lambda>_. binding_becomes (tb_Name b) (Some (b \<lparr> tb_Spec := tb_Spec after,
    tb_Generation := (if tb_Spec after = tb_Spec b then tb_Generation b else tb_Generation b + 1) \<rparr>)) cl)"
  unfolding PatchObject_def
  by (rule succeeds_call [OF q]) (simp add: b Let_def mergeObject_def labels binding_becomes_def)

lemma succeeds_wrap: "succeeds m cl Q \<Longrightarrow> succeeds (wrapA p m) cl Q"
  unfolding wrapA_def by (erule succeeds_try) (simp add: succeeds_return)

lemma perform_succeeds:
  assumes "succeeds (perform env name op) cl (\<lambda>_. Q)"
  shows "Q (system_step name cl (Perform env k op))"
  using assms unfolding succeeds_def by (metis fst_conv system_step.simps(2) snd_conv)

lemma operate_succeeds:
  assumes "succeeds (Reconcile env name) cl (\<lambda>_. Q)"
  shows "Q (system_step name cl (Operate env k))"
  using run_succeeds [OF assms, of k] by simp

text \<open>A binding with another specification; its status and its generation may differ.\<close>

definition changed :: "TrafficBinding \<Rightarrow> TrafficBindingSpec \<Rightarrow> TrafficBinding \<Rightarrow> bool" where
  "changed b spec b' \<longleftrightarrow> tb_Spec b' = spec \<and> tb_Name b' = tb_Name b \<and> tb_Finalizers b' = tb_Finalizers b \<and>
     tb_Deleting b' = tb_Deleting b \<and> tb_Labels b' = tb_Labels b"

lemma validateBinding_spec: "tb_Spec b = tb_Spec b' \<Longrightarrow> validateBinding lib b = validateBinding lib b'"
  by (simp add: validateBinding_def)

lemma resumes:
  assumes q: "quiet env" and b: "map_of (cl_Bindings cl) (tb_Name b) = Some b" and d: "sp_DesiredState (tb_Spec b) = StatePaused"
  shows "succeeds (perform env (tb_Name b) (SResume False)) cl
    (\<lambda>_ cl'. cl_Services cl' = cl_Services cl \<and> (\<exists>b'. map_of (cl_Bindings cl') (tb_Name b) = Some b' \<and> changed b (tb_Spec (resetSpec b)) b'))"
    (is "succeeds _ _ (\<lambda>_. ?Q)")
proof -
  let ?b = "b \<lparr> tb_Status := tb_Status (ownershipStatus '''' None '''' b) \<rparr>"
  have second: "succeeds (bindA (wrapA p (PatchObject env ?b (resetSpec ?b))) (\<lambda>_. returnA ())) cl2 (\<lambda>_. ?Q)"
    if "binding_becomes (tb_Name b) (Some ?b) cl cl2" for cl2 p
  proof (rule succeeds_bind [OF succeeds_wrap [OF patches_object [OF q]]])
    fix cl3 assume "binding_becomes (tb_Name ?b) (Some (?b \<lparr> tb_Spec := tb_Spec (resetSpec ?b),
      tb_Generation := (if tb_Spec (resetSpec ?b) = tb_Spec ?b then tb_Generation ?b else tb_Generation ?b + 1) \<rparr>)) cl2 cl3"
    then show "succeeds (returnA ()) cl3 (\<lambda>_. ?Q)"
      using that by (intro succeeds_return) (auto simp: binding_becomes_def changed_def resetSpec_def)
  qed (use that in \<open>auto simp: binding_becomes_def resetSpec_def\<close>)
  have "succeeds (Resume env b) cl (\<lambda>_. ?Q)"
    unfolding Resume_def ResetRelay_def using d
    by (auto intro!: succeeds_bind [OF succeeds_wrap [OF patches_status [OF q b]]] second)
  then show ?thesis
    unfolding perform_def by (auto intro!: succeeds_bind [OF gets_binding [OF q b]])
qed

lemma waits_for_relay:
  assumes q: "quiet env" and b: "map_of (cl_Bindings cl) (tb_Name b) = Some b" and v: "validateBinding (ae_lib env) b = Inr ()"
    and s: "\<not> tb_Deleting b" "bindingFinalizer \<in> set (tb_Finalizers b)" "desiredState b = StateActive" "awaitingRelay b"
  shows "succeeds (Reconcile env (tb_Name b)) cl (\<lambda>_ cl'. cl_Services cl' = cl_Services cl \<and>
    (\<exists>b'. map_of (cl_Bindings cl') (tb_Name b) = Some b' \<and> changed b (tb_Spec b) b' \<and> st_Phase (tb_Status b') = Pending))"
    (is "succeeds _ _ (\<lambda>_. ?Q)")
proof (rule reconciles [OF q b])
  let ?b = "b \<lparr> tb_Status := tb_Status (lifecycleStatus Pending ''WaitingForRelay'' ''TrafficBinding is waiting for a Gateway relay assignment'' False b) \<rparr>"
  have "succeeds (setPending env b) cl (\<lambda>_. ?Q)"
    unfolding setPending_def setLifecycleStatus_def
    by (rule succeeds_weaken [OF writes_status [OF q b]]) (auto simp: binding_becomes_def changed_def)
  then have wait: "succeeds (if st_Phase (tb_Status b) \<noteq> Pending \<or> st_ObservedGeneration (tb_Status b) \<noteq> tb_Generation b
      then setPending env b else returnA ()) cl (\<lambda>_. ?Q)"
    using b by (auto simp: changed_def intro!: succeeds_return)
  have "reconcileBinding env b = bindA (if st_Phase (tb_Status b) \<noteq> Pending \<or> st_ObservedGeneration (tb_Status b) \<noteq> tb_Generation b
      then setPending env b else returnA ()) (\<lambda>_. returnA 0)"
    unfolding reconcileBinding_def using s v by simp
  show "succeeds (reconcileBinding env b) cl (\<lambda>_. ?Q)"
    unfolding \<open>reconcileBinding env b = _\<close> by (rule succeeds_then [OF wait])
qed

lemma requests_pause:
  assumes q: "quiet env" and b: "map_of (cl_Bindings cl) (tb_Name b) = Some b"
    and name: "NameForTask (mg_Lib manager) taskID = Inr (tb_Name b)" "TrimSpace namespace \<noteq> ''''" "ownsTask manager taskID b"
    and s: "\<not> tb_Deleting b" "sp_DesiredState (tb_Spec b) = StateActive"
  shows "succeeds (perform env n (SPause manager namespace taskID)) cl (\<lambda>_ cl'. cl_Services cl' = cl_Services cl \<and>
    (\<exists>b'. map_of (cl_Bindings cl') (tb_Name b) = Some b' \<and> changed b (tb_Spec (pauseSpec b)) b' \<and> tb_Status b' = tb_Status b))"
    (is "succeeds _ _ (\<lambda>_. ?Q)")
proof -
  have "succeeds (PatchObject env b (pauseSpec b)) cl (\<lambda>_. ?Q)"
    by (rule succeeds_weaken [OF patches_object [OF q b]]) (auto simp: binding_becomes_def changed_def pauseSpec_def)
  then have patch: "succeeds (bindA (wrapA p (PatchObject env b (pauseSpec b))) (\<lambda>_. returnA (tb_Name b))) cl (\<lambda>_. ?Q)" for p
    by (rule succeeds_then [OF succeeds_wrap])
  have "succeeds (requestPause env manager namespace taskID) cl (\<lambda>_. ?Q)"
    unfolding requestPause_def liftA_def name(1)
    by (rule succeeds_bind [of _ _ "\<lambda>x cl'. x = tb_Name b \<and> cl' = cl"], simp add: succeeds_def, clarsimp simp: name(2),
        rule succeeds_try [OF gets_binding [OF q b]]) (use name(3) s patch in simp)
  then show ?thesis unfolding perform_def by (simp add: succeeds_then)
qed

lemma forgets_snapshot:
  assumes q: "quiet env" and b: "map_of (cl_Bindings cl) (tb_Name b) = Some b" and v: "validateBinding (ae_lib env) b = Inr ()"
    and s: "\<not> tb_Deleting b" "bindingFinalizer \<in> set (tb_Finalizers b)" "desiredState b = StatePaused" "st_Phase (tb_Status b) = Pending"
  shows "succeeds (Reconcile env (tb_Name b)) cl (\<lambda>_ cl'. cl_Services cl' = cl_Services cl \<and>
    (\<exists>b'. map_of (cl_Bindings cl') (tb_Name b) = Some b' \<and> st_Phase (tb_Status b') = Paused \<and> st_Snapshot (tb_Status b') = None))"
    (is "succeeds _ _ (\<lambda>_. ?Q)")
proof (rule reconciles [OF q b])
  have "succeeds (setPaused env b) cl (\<lambda>_. ?Q)"
    unfolding setPaused_def by (rule succeeds_weaken [OF writes_status [OF q b]]) (auto simp: binding_becomes_def)
  then have "succeeds (reconcilePaused env b) cl (\<lambda>_. ?Q)"
    unfolding reconcilePaused_def Let_def using s(4) by (simp add: succeeds_then)
  then show "succeeds (reconcileBinding env b) cl (\<lambda>_. ?Q)"
    unfolding reconcileBinding_def using s v by simp
qed

text \<open>C4. A resume request before the end of a pause makes the Operator forget its snapshot. The resume handler asks
  only whether a pause was requested. If the Operator has not finished the pause yet, the binding waits for a relay
  with the Service still taken over; the next pause then counts as done at once: without any failure the binding
  becomes \<open>Paused\<close> with its snapshot dropped, and no Service was given back.\<close>

theorem early_resume_forgets_service:
  fixes k1 k2 k3 k4 :: nat
  assumes q: "quiet env" and b: "map_of (cl_Bindings cl) (tb_Name b) = Some b"
    and s: "\<not> tb_Deleting b" "bindingFinalizer \<in> set (tb_Finalizers b)" "sp_DesiredState (tb_Spec b) = StatePaused"
      "sp_Mode (tb_Spec b) \<noteq> ModePortForward"
    and v: "validateBinding (ae_lib env) (resetSpec b) = Inr ()" "validateBinding (ae_lib env) (pauseSpec (resetSpec b)) = Inr ()"
    and name: "NameForTask (mg_Lib manager) taskID = Inr (tb_Name b)" "TrimSpace namespace \<noteq> ''''" "ownsTask manager taskID b"
  shows "let cl' = foldl (system_step (tb_Name b)) cl [Perform env k1 (SResume False), Operate env k2,
             Perform env k3 (SPause manager namespace taskID), Operate env k4] in
    cl_Services cl' = cl_Services cl \<and>
    (\<exists>b'. map_of (cl_Bindings cl') (tb_Name b) = Some b' \<and> st_Phase (tb_Status b') = Paused \<and> st_Snapshot (tb_Status b') = None)"
proof -
  let ?n = "tb_Name b"
  let ?spec = "tb_Spec (resetSpec b)"
  define c1 where "c1 = system_step ?n cl (Perform env k1 (SResume False))"
  define c2 where "c2 = system_step ?n c1 (Operate env k2)"
  define c3 where "c3 = system_step ?n c2 (Perform env k3 (SPause manager namespace taskID))"
  define c4 where "c4 = system_step ?n c3 (Operate env k4)"
  have "cl_Services c1 = cl_Services cl \<and> (\<exists>b1. map_of (cl_Bindings c1) ?n = Some b1 \<and> changed b ?spec b1)"
    unfolding c1_def by (rule perform_succeeds [OF resumes [OF q b s(3)]])
  then obtain b1 where 1: "cl_Services c1 = cl_Services cl" "map_of (cl_Bindings c1) (tb_Name b1) = Some b1" "changed b ?spec b1"
    "tb_Name b1 = ?n" by (auto simp: changed_def)
  have "cl_Services c2 = cl_Services c1 \<and> (\<exists>b2. map_of (cl_Bindings c2) (tb_Name b1) = Some b2 \<and> changed b1 (tb_Spec b1) b2 \<and>
      st_Phase (tb_Status b2) = Pending)"
    unfolding c2_def 1(4) [symmetric]
  proof (rule operate_succeeds [OF waits_for_relay [OF q 1(2)]])
    show "validateBinding (ae_lib env) b1 = Inr ()" using v(1) 1(3) validateBinding_spec [of b1 "resetSpec b"] by (simp add: changed_def)
  qed (use 1(3) s in \<open>auto simp: changed_def resetSpec_def desiredState_def awaitingRelay_def\<close>)
  then obtain b2 where 2: "cl_Services c2 = cl_Services cl" "map_of (cl_Bindings c2) (tb_Name b2) = Some b2" "changed b ?spec b2"
    "tb_Name b2 = ?n" "st_Phase (tb_Status b2) = Pending" using 1 by (auto simp: changed_def)
  have "cl_Services c3 = cl_Services c2 \<and> (\<exists>b3. map_of (cl_Bindings c3) (tb_Name b2) = Some b3 \<and> changed b2 (tb_Spec (pauseSpec b2)) b3 \<and>
      tb_Status b3 = tb_Status b2)"
    unfolding c3_def
    by (rule perform_succeeds [OF requests_pause [OF q 2(2)]])
      (use 2(3,4) name s in \<open>auto simp: changed_def resetSpec_def ownsTask_def\<close>)
  then obtain b3 where 3: "cl_Services c3 = cl_Services cl" "map_of (cl_Bindings c3) (tb_Name b3) = Some b3"
    "changed b (tb_Spec (pauseSpec (resetSpec b))) b3" "tb_Name b3 = ?n" "st_Phase (tb_Status b3) = Pending"
    using 2 by (auto simp: changed_def pauseSpec_def)
  have "cl_Services c4 = cl_Services c3 \<and> (\<exists>b4. map_of (cl_Bindings c4) (tb_Name b3) = Some b4 \<and> st_Phase (tb_Status b4) = Paused \<and>
      st_Snapshot (tb_Status b4) = None)"
    unfolding c4_def 3(4) [symmetric]
  proof (rule operate_succeeds [OF forgets_snapshot [OF q 3(2)]])
    show "validateBinding (ae_lib env) b3 = Inr ()" using v(2) 3(3) validateBinding_spec [of b3 "pauseSpec (resetSpec b)"] by (simp add: changed_def)
  qed (use 3(3,5) s in \<open>auto simp: changed_def pauseSpec_def desiredState_def\<close>)
  then show ?thesis using 3(1,4) by (simp add: c4_def c3_def c2_def c1_def Let_def del: system_step.simps)
qed

section \<open>Examples\<close>

lemma w_quiet: "quiet (w_api (\<lambda>_. None))"
  by (simp add: quiet_def w_api_def)

definition w_snapshot :: ServiceSnapshot where
  "w_snapshot = \<lparr> sn_ServiceName = ''web'', sn_ServiceUID = ''svc'', sn_Selector = [(''app'', ''web'')],
     sn_EndpointSlices = [sliceSnapshot (''web-1'', w_slice)], sn_HadEndpointSlices = True, sn_EndpointSubsets = [''s''],
     sn_HadEndpoints = True \<rparr>"

definition w_held :: TrafficBinding where
  "w_held = w_binding \<lparr> tb_Status := (tb_Status w_binding) \<lparr> st_Phase := Ready, st_Snapshot := Some w_snapshot \<rparr> \<rparr>"

text \<open>The Service in the hands of the relay.\<close>

definition w_taken :: "TrafficBinding \<Rightarrow> cluster" where
  "w_taken b = w_cluster \<lparr> cl_Bindings := [(tb_Name b, b)],
     cl_Services := [(''web'', w_service \<lparr> sv_Selector := [], sv_Annotations := applyBindingAnnotations b (sv_Annotations w_service) \<rparr>)],
     cl_Slices := [], cl_Endpoints := [] \<rparr>"

lemma w_capture: "captureService (w_api (\<lambda>_. None)) w_binding (w_cluster, 0) = (Inr w_snapshot, w_cluster, 3)"
  by (simp add: w_snapshot_def captureService_def Let_def w_spec_fields call_eval resource_eval w_defs
      serviceNameLabel_def bindE_def)

lemma w_restorable: "restorable (w_api (\<lambda>_. None)) (w_held \<lparr> tb_Deleting := True \<rparr>) w_snapshot
    (w_service \<lparr> sv_Selector := [], sv_Annotations := applyBindingAnnotations w_held (sv_Annotations w_service) \<rparr>)
    (w_taken (w_held \<lparr> tb_Deleting := True \<rparr>))"
  by (simp add: restorable_def w_held_def w_taken_def w_snapshot_def w_defs ownedByOther_def at_def applyBindingAnnotations_def binding_keys
      w_spec_fields)

theorem deletion_gives_service_back_witness:
  "\<exists>cl'. map_of (cl_Bindings cl') ''b'' = None \<and> map_of (cl_Slices cl') ''web-1'' = Some w_slice \<and>
     (\<exists>sv. map_of (cl_Services cl') ''web'' = Some sv \<and> map_of (sv_Selector sv) = map_of [(''app'', ''web'')]) \<and>
     cl' = foldl (run_step ''b'') (w_taken (w_held \<lparr> tb_Deleting := True \<rparr>))
       [OpReconcile (w_api (\<lambda>_. None)) 0, OpReconcile (w_api (\<lambda>_. None)) 0, OpReconcile (w_api (\<lambda>_. None)) 0]"
proof -
  have fields: "tb_Name (w_held \<lparr> tb_Deleting := True \<rparr>) = ''b''" "tt_Name (the (sp_Target (tb_Spec w_binding))) = ''web''"
    "map_of (cl_Services w_cluster) ''web'' = Some w_service" "sv_Selector w_service = [(''app'', ''web'')]"
    "map_of (cl_Slices w_cluster) ''web-1'' = Some w_slice" "map_of (es_Labels w_slice) serviceNameLabel = Some ''web''"
    by (simp_all add: w_held_def w_defs w_spec_fields serviceNameLabel_def)
  have "leaving (w_held \<lparr> tb_Deleting := True \<rparr>)" "st_Phase (tb_Status (w_held \<lparr> tb_Deleting := True \<rparr>)) \<notin> {Paused, Restored}"
    "map_of (cl_Bindings (w_taken (w_held \<lparr> tb_Deleting := True \<rparr>))) (tb_Name (w_held \<lparr> tb_Deleting := True \<rparr>)) = Some (w_held \<lparr> tb_Deleting := True \<rparr>)"
    "distinct (map fst (cl_Slices w_cluster))"
    by (simp_all add: leaving_def w_held_def w_taken_def w_defs w_spec_fields bindingFinalizer_def)
  from deletion_gives_service_back [OF w_quiet w_capture this(4) w_quiet this(3,1,2) w_restorable, of 0 0 0]
  show ?thesis using fields by (auto simp: Let_def simp del: foldl.simps run_step.simps)
qed

definition w_session_lib :: session_lib where
  "w_session_lib = \<lparr> sl_parseUUID = Inr, sl_validLabel = \<lambda>_. True, sl_digest8 = \<lambda>s. s, sl_sha1UUID = \<lambda>s. s,
     sl_foldLower = \<lambda>s. s, sl_foldUpper = \<lambda>s. s \<rparr>"

definition w_manager :: Manager where
  "w_manager = \<lparr> mg_Lib = w_session_lib, mg_PollInterval = 100 * Millisecond, mg_ControlPlaneID = ''kubeloop'' \<rparr>"

definition w_taskID :: string where "w_taskID = ''00000000-0000-1000-8000-000000000002''"

text \<open>The pause of the binding has begun.\<close>

definition w_pausing :: TrafficBinding where
  "w_pausing = w_held \<lparr> tb_Name := ''kubeloop-'' @ w_taskID, tb_Labels := [(taskIDLabel, w_taskID), (controlPlaneIDLabel, ''kubeloop'')],
     tb_Spec := w_spec \<lparr> sp_DesiredState := StatePaused \<rparr>, tb_Status := (tb_Status w_held) \<lparr> st_Phase := Pausing \<rparr> \<rparr>"

lemma w_pausing_valid:
  "validateBinding w_lib (resetSpec w_pausing) = Inr ()" "validateBinding w_lib (pauseSpec (resetSpec w_pausing)) = Inr ()"
proof -
  have "validateBinding w_lib (resetSpec (w_binding \<lparr> tb_Spec := w_spec \<lparr> sp_DesiredState := StatePaused \<rparr> \<rparr>)) = Inr ()"
    "validateBinding w_lib (pauseSpec (resetSpec (w_binding \<lparr> tb_Spec := w_spec \<lparr> sp_DesiredState := StatePaused \<rparr> \<rparr>))) = Inr ()"
    by code_simp+
  then show "validateBinding w_lib (resetSpec w_pausing) = Inr ()" "validateBinding w_lib (pauseSpec (resetSpec w_pausing)) = Inr ()"
    by (simp_all add: validateBinding_def w_pausing_def resetSpec_def pauseSpec_def)
qed

lemma w_pausing_name: "NameForTask w_session_lib w_taskID = Inr (tb_Name w_pausing)"
  by (simp add: NameForTask_def w_session_lib_def w_taskID_def w_pausing_def) code_simp

theorem early_resume_forgets_service_witness:
  "\<exists>cl' b' sv. cl' = foldl (system_step (''kubeloop-'' @ w_taskID)) (w_taken w_pausing)
       [Perform (w_api (\<lambda>_. None)) 0 (SResume False), Operate (w_api (\<lambda>_. None)) 0,
        Perform (w_api (\<lambda>_. None)) 0 (SPause w_manager ''ns'' w_taskID), Operate (w_api (\<lambda>_. None)) 0] \<and>
     map_of (cl_Bindings cl') (''kubeloop-'' @ w_taskID) = Some b' \<and> st_Phase (tb_Status b') = Paused \<and> st_Snapshot (tb_Status b') = None \<and>
     map_of (cl_Services cl') ''web'' = Some sv \<and> sv_Selector sv = [] \<and> ownedByBinding (sv_Annotations sv) w_pausing"
proof -
  have trim: "TrimSpace ''ns'' \<noteq> ''''" by code_simp
  have owns: "ownsTask w_manager w_taskID w_pausing"
    by (simp add: ownsTask_def w_manager_def w_pausing_def at_def taskIDLabel_def controlPlaneIDLabel_def w_spec_def w_taskID_def)
  have state: "map_of (cl_Bindings (w_taken w_pausing)) (tb_Name w_pausing) = Some w_pausing" "\<not> tb_Deleting w_pausing"
    "bindingFinalizer \<in> set (tb_Finalizers w_pausing)" "sp_DesiredState (tb_Spec w_pausing) = StatePaused"
    "sp_Mode (tb_Spec w_pausing) \<noteq> ModePortForward" "tb_Name w_pausing = ''kubeloop-'' @ w_taskID"
    by (simp_all add: w_pausing_def w_held_def w_taken_def w_defs bindingFinalizer_def w_spec_fields)
  have name: "NameForTask (mg_Lib w_manager) w_taskID = Inr (tb_Name w_pausing)" using w_pausing_name by (simp add: w_manager_def)
  have valid: "validateBinding (ae_lib (w_api (\<lambda>_. None))) (resetSpec w_pausing) = Inr ()"
    "validateBinding (ae_lib (w_api (\<lambda>_. None))) (pauseSpec (resetSpec w_pausing)) = Inr ()"
    using w_pausing_valid by (simp_all add: w_api_fields)
  have service: "\<exists>sv. map_of (cl_Services (w_taken w_pausing)) ''web'' = Some sv \<and> sv_Selector sv = [] \<and> ownedByBinding (sv_Annotations sv) w_pausing"
    by (simp add: w_taken_def ownedByBinding_def at_def applyBindingAnnotations_def binding_keys AList.update_conv')
  from early_resume_forgets_service [OF w_quiet state(1-5) valid name trim owns, of 0 0 0 0] service
  show ?thesis unfolding state(6) Let_def by (metis (no_types))
qed

end
