(* ===== verification/ReverseRelay.thy ===== *)
theory ReverseRelay
  imports Streamframe GoTime
begin

text \<open>
  The two ends of a reverse stream: the Gateway's relay (\<^verbatim>\<open>internal/gateway/relay/reverse\<close>), which accepts the
  connections that the cluster opens to an intercepted Service, and the client's relay
  (\<^verbatim>\<open>internal/client/reverserelay\<close>), which connects them to local targets. Both keep a table of streams and
  exchange frames of the Exchange contract.

  One round of each loop of the source is a definition: it takes the state of the relay and the outcomes of the
  calls to the network, and returns the new state, the effects of the round in their order and, if the loop ends,
  the error. Connections are named by the identifiers of their streams. A round holds the relay's lock in parts
  only; the model treats a round as one step.
\<close>

section \<open>Writing in full\<close>

text \<open>
  \<^verbatim>\<open>writeLocal\<close>, and \<^verbatim>\<open>utils.WriteAll\<close>, which is the same loop. The outcomes of the successive calls of \<^verbatim>\<open>Write\<close> are given by \<open>script\<close>: a number
  of bytes, at most the length of what is passed as the contract of \<^verbatim>\<open>io.Writer\<close> has it, and an error. The result is
  the error, the bytes that the connection accepted and the number of calls.
\<close>

type_synonym write_script = "nat \<Rightarrow> nat \<times> error option"

definition ErrShortWrite :: error where "ErrShortWrite = ''short write''"

function writeLocal :: "write_script \<Rightarrow> nat \<Rightarrow> bytes \<Rightarrow> error option \<times> bytes \<times> nat" where
  "writeLocal script calls payload =
     (if length payload = 0 then (None, [], calls)
      else let written = min (fst (script calls)) (length payload) in
        case snd (script calls) of
          Some err \<Rightarrow> (Some err, take written payload, calls + 1)
        | None \<Rightarrow>
            if written = 0 then (Some ErrShortWrite, [], calls + 1)
            else case writeLocal script (calls + 1) (drop written payload) of
              (err, accepted, n) \<Rightarrow> (err, take written payload @ accepted, n))"
  by pat_completeness auto

termination
  by (relation "measure (\<lambda>(_, _, payload). length payload)") auto

declare writeLocal.simps [simp del]

lemma min_eq_0 [simp]: "min (a :: nat) b = 0 \<longleftrightarrow> a = 0 \<or> b = 0"
  by (auto simp: min_def)

lemma writeLocal_bounds:
  "case writeLocal script calls payload of (err, accepted, n) \<Rightarrow>
     calls \<le> n \<and> n \<le> calls + length payload \<and> (\<exists>rest. payload = accepted @ rest) \<and> (err = None \<longrightarrow> accepted = payload)"
proof (induction script calls payload rule: writeLocal.induct)
  case (1 script calls payload)
  let ?w = "min (fst (script calls)) (length payload)"
  show ?case
  proof (cases "length payload = 0 \<or> snd (script calls) \<noteq> None \<or> ?w = 0")
    case True
    have split: "\<exists>rest. payload = take n payload @ rest" for n by (metis append_take_drop_id)
    have stop: "writeLocal script calls payload = (if length payload = 0 then (None, [], calls)
        else case snd (script calls) of Some err \<Rightarrow> (Some err, take ?w payload, calls + 1) | None \<Rightarrow> (Some ErrShortWrite, [], calls + 1))"
      using True by (subst writeLocal.simps) (auto simp: Let_def split: option.splits)
    have "payload \<noteq> [] \<Longrightarrow> Suc 0 \<le> length payload" by (cases payload) auto
    then show ?thesis unfolding stop using split by (auto split: option.splits)
  next
    case False
    then have go: "length payload \<noteq> 0" "snd (script calls) = None" "?w \<noteq> 0" by auto
    obtain err accepted n where r: "writeLocal script (calls + 1) (drop ?w payload) = (err, accepted, n)" by (metis prod_cases3)
    from 1 [OF go(1) refl go(2,3)] r obtain rest
      where b: "calls + 1 \<le> n" "n \<le> calls + 1 + (length payload - ?w)" "drop ?w payload = accepted @ rest"
        "err = None \<longrightarrow> accepted = drop ?w payload" by auto
    have e: "writeLocal script calls payload = (err, take ?w payload @ accepted, n)"
      using go r by (subst writeLocal.simps) (simp add: Let_def)
    have "payload = (take ?w payload @ accepted) @ rest" using b(3) by (metis append.assoc append_take_drop_id)
    moreover have "n \<le> calls + length payload" using b(2) go(3) by linarith
    ultimately show ?thesis unfolding e using b(1,4) by auto
  qed
qed

text \<open>C40. \<^verbatim>\<open>writeLocal\<close> returns on every connection: it calls \<^verbatim>\<open>Write\<close> at most once for each byte, a connection accepts a
  prefix of the payload, all of it exactly when no error is returned, and a connection that takes a byte in every
  call without an error makes it succeed.\<close>

theorem write_local_returns:
  "\<exists>err accepted calls. writeLocal script 0 payload = (err, accepted, calls) \<and> calls \<le> length payload \<and>
     (\<exists>rest. payload = accepted @ rest) \<and> (err = None \<longrightarrow> accepted = payload) \<and>
     ((\<forall>n. fst (script n) > 0 \<and> snd (script n) = None) \<longrightarrow> err = None)"
proof -
  obtain err accepted calls where r: "writeLocal script 0 payload = (err, accepted, calls)" by (metis prod_cases3)
  have "fst (writeLocal script k p) = None" if "\<forall>n. fst (script n) > 0 \<and> snd (script n) = None" for k p
    using that
  proof (induction script k p rule: writeLocal.induct)
    case (1 script k p)
    have s: "fst (script k) \<noteq> 0" "snd (script k) = None" using 1(2) by auto
    show ?case
    proof (cases "p = []")
      case False
      then have "fst (writeLocal script (k + 1) (drop (min (fst (script k)) (length p)) p)) = None"
        using 1(1) [OF _ refl s(2) _ 1(2)] s(1) by simp
      then show ?thesis using s False by (subst writeLocal.simps) (auto simp: Let_def split: prod.splits)
    qed (simp add: writeLocal.simps)
  qed
  then have "(\<forall>n. fst (script n) > 0 \<and> snd (script n) = None) \<longrightarrow> err = None" using r by (metis fst_conv)
  then show ?thesis using writeLocal_bounds [where script = script and calls = 0 and payload = payload] r by auto
qed

theorem write_local_returns_witness:
  "\<exists>accepted calls. writeLocal (\<lambda>n. (if n = 0 then 1 else 5, None)) 0 [7, 8, 9] = (None, accepted, calls) \<and> accepted = [7, 8, 9] \<and> calls \<le> 3"
  using write_local_returns [of "\<lambda>n. (if n = 0 then 1 else 5, None)" "[7, 8, 9]"] by auto

section \<open>Ports and targets\<close>

record Port =
  pt_Name :: string
  pt_ServicePort :: int
  pt_Protocol :: string

record Target =
  tg_ServicePort :: int
  tg_Protocol :: string
  tg_LocalHost :: string
  tg_LocalPort :: "16 word"

definition TargetKey :: "(string \<Rightarrow> string) \<Rightarrow> string \<Rightarrow> int \<Rightarrow> string" where
  "TargetKey ul protocol port = ToLower ul protocol @ ''/'' @ FormatInt port"

text \<open>The form of IP addresses is a parameter: whether the host is one, and then whether it is unspecified or multicast.\<close>

definition hostCharacter :: "char \<Rightarrow> bool" where
  "hostCharacter c \<longleftrightarrow> (97 \<le> code c \<and> code c \<le> 122) \<or> (65 \<le> code c \<and> code c \<le> 90) \<or> (48 \<le> code c \<and> code c \<le> 57) \<or> c = CHR ''-''"

definition hostLabel :: "string \<Rightarrow> bool" where
  "hostLabel label \<longleftrightarrow> label \<noteq> '''' \<and> length label \<le> 63 \<and> hd label \<noteq> CHR ''-'' \<and> last label \<noteq> CHR ''-'' \<and>
     list_all hostCharacter label"

definition ValidLocalHost :: "(string \<Rightarrow> (bool \<times> bool) option) \<Rightarrow> string \<Rightarrow> bool" where
  "ValidLocalHost parseIP host =
     (case parseIP host of
        Some (unspecified, multicast) \<Rightarrow> \<not> unspecified \<and> \<not> multicast
      | None \<Rightarrow>
          if length host > 253 \<or> ContainsAny host ('' /'' @ [CHR 0x5C, CHR 0x09, CHR 0x0D, CHR 0x0A]) then False
          else list_all hostLabel (Split host CHR ''.''))"

definition normalizeTarget :: "(string \<Rightarrow> string) \<Rightarrow> Target \<Rightarrow> Target" where
  "normalizeTarget ul target =
     (let protocol = ToLower ul (TrimSpace (tg_Protocol target)); host = TrimSpace (tg_LocalHost target) in
      target \<lparr> tg_Protocol := (if protocol = '''' then ''tcp'' else protocol),
        tg_LocalHost := (if host = '''' then ''127.0.0.1'' else host),
        tg_LocalPort := (if tg_LocalPort target = 0 \<and> tg_ServicePort target > 0 \<and> tg_ServicePort target \<le> 65535
          then word_of_int (tg_ServicePort target) else tg_LocalPort target) \<rparr>)"

fun NormalizeTargets_loop ::
  "(string \<Rightarrow> string) \<Rightarrow> (string \<Rightarrow> (bool \<times> bool) option) \<Rightarrow> string \<Rightarrow> string set \<Rightarrow> Target list \<Rightarrow> error + Target list" where
  "NormalizeTargets_loop ul parseIP operation seen [] = Inr []"
| "NormalizeTargets_loop ul parseIP operation seen (input # inputs) =
     (let target = normalizeTarget ul input;
          invalidPort = (tg_ServicePort target < 1 \<or> tg_ServicePort target > 65535 \<or> tg_LocalPort target = 0);
          invalidProtocol = (tg_Protocol target \<noteq> ''tcp'' \<and> tg_Protocol target \<noteq> ''udp'');
          key = TargetKey ul (tg_Protocol target) (tg_ServicePort target) in
      if invalidPort \<or> invalidProtocol \<or> \<not> ValidLocalHost parseIP (tg_LocalHost target)
      then Inl (operation @ '' local target is invalid'')
      else if key \<in> seen then Inl (operation @ '' Service ports must be unique'')
      else bindE (NormalizeTargets_loop ul parseIP operation (insert key seen) inputs) (\<lambda>targets. Inr (target # targets)))"

definition NormalizeTargets ::
  "(string \<Rightarrow> string) \<Rightarrow> (string \<Rightarrow> (bool \<times> bool) option) \<Rightarrow> Target list \<Rightarrow> string \<Rightarrow> error + Target list" where
  "NormalizeTargets ul parseIP input operation =
     (if length input = 0 \<or> length input > 64 then Inl (operation @ '' requires one to 64 local targets'')
      else NormalizeTargets_loop ul parseIP operation {} input)"

section \<open>Frames and effects\<close>

definition frame :: "byte \<Rightarrow> 64 word \<Rightarrow> 32 word \<Rightarrow> byte \<Rightarrow> bytes \<Rightarrow> stream_frame" where
  "frame t stream port protocol payload =
     \<lparr> Type = t, StreamID = stream, ServicePort = port, Protocol = protocol, Payload = payload \<rparr>"

abbreviation closeFrame :: "64 word \<Rightarrow> stream_frame" where
  "closeFrame stream \<equiv> frame sfClose stream 0 0 []"

text \<open>
  What a round does to the outside: a frame is sent; bytes are accepted by the connection of a stream; the write side
  of the connection or the connection is closed; a reader of the connection of a stream starts or ends; a datagram is
  sent for an association. The reader of a local UDP connection lives as long as its association.
\<close>

datatype relay_effect =
    Sent bytes
  | Wrote "64 word" bytes
  | HalfClosed "64 word"
  | ClosedConn "64 word"
  | ReaderStarts "64 word"
  | ReaderEnds "64 word"
  | WroteDatagram "64 word" bytes

text \<open>The outcomes of the calls that one round makes to the network.\<close>

record relay_io =
  io_script :: write_script
  io_sends :: "bool list"
  io_datagram :: "nat option"
  io_halfClose :: bool
  io_dial :: bool
  io_now :: time

definition MaximumFrameBytes :: int where "MaximumFrameBytes = 14 + 262144"

text \<open>\<^verbatim>\<open>relay.write\<close>, which both relays have, with the size test of \<^verbatim>\<open>FrameConn.WriteFrame\<close>.\<close>

definition relayWrite :: "relay_io \<Rightarrow> nat \<Rightarrow> stream_frame \<Rightarrow> (error + unit) \<times> relay_effect list" where
  "relayWrite io n f =
     (case exchangeEncode f of
        Inl err \<Rightarrow> (Inl err, [])
      | Inr encoded \<Rightarrow>
          if length encoded = 0 \<or> int (length encoded) > MaximumFrameBytes then (Inl (''traffic frame size '' @ FormatUint (length encoded) @ '' is outside 1..'' @ FormatInt MaximumFrameBytes), [])
          else if n < length (io_sends io) \<and> io_sends io ! n then (Inr (), [Sent encoded])
          else (Inl ''write Traffic WebSocket message'', []))"

type_synonym 's round_result = "'s \<times> relay_effect list \<times> error option"

section \<open>The Gateway's relay\<close>

record tcpRelayStream =
  ts_Port :: Port

record udpRelayAssociation =
  ua_Index :: nat
  ua_Remote :: string
  ua_Port :: Port
  ua_Key :: string
  ua_LastSeen :: time

record relaySession =
  rs_Idle :: duration
  rs_NextID :: "64 word"
  rs_TCP :: "(64 word \<times> tcpRelayStream) list"
  rs_UDP :: "(64 word \<times> udpRelayAssociation) list"
  rs_UDPKeys :: "(string \<times> 64 word) list"

definition newRelaySession :: "duration \<Rightarrow> relaySession" where
  "newRelaySession idle = \<lparr> rs_Idle = idle, rs_NextID = 0, rs_TCP = [], rs_UDP = [], rs_UDPKeys = [] \<rparr>"

text \<open>The loop ends in its second round at the latest: the successor of zero is not zero.\<close>

definition nextStreamID :: "relaySession \<Rightarrow> 64 word \<times> relaySession" where
  "nextStreamID relay =
     (let sid = rs_NextID relay + 1 in
      if sid \<noteq> 0 then (sid, relay \<lparr> rs_NextID := sid \<rparr>) else (sid + 1, relay \<lparr> rs_NextID := sid + 1 \<rparr>))"

definition removeTCP :: "relaySession \<Rightarrow> 64 word \<Rightarrow> bool \<times> relaySession \<times> relay_effect list" where
  "removeTCP relay sid =
     (case map_of (rs_TCP relay) sid of
        None \<Rightarrow> (False, relay, [])
      | Some _ \<Rightarrow> (True, relay \<lparr> rs_TCP := AList.delete sid (rs_TCP relay) \<rparr>, [ClosedConn sid]))"

definition removeStream :: "relaySession \<Rightarrow> 64 word \<Rightarrow> bool \<times> relaySession \<times> relay_effect list" where
  "removeStream relay sid =
     (case removeTCP relay sid of
        (True, relay', effects) \<Rightarrow> (True, relay', effects)
      | (False, relay', effects) \<Rightarrow>
          (case map_of (rs_UDP relay') sid of
             None \<Rightarrow> (False, relay', effects)
           | Some association \<Rightarrow>
               (True, relay' \<lparr> rs_UDP := AList.delete sid (rs_UDP relay'),
                  rs_UDPKeys := AList.delete (ua_Key association) (rs_UDPKeys relay') \<rparr>, effects)))"

definition udpAssociationByID :: "relaySession \<Rightarrow> time \<Rightarrow> 64 word \<Rightarrow> udpRelayAssociation option \<times> relaySession" where
  "udpAssociationByID relay now sid =
     (case map_of (rs_UDP relay) sid of
        None \<Rightarrow> (None, relay)
      | Some association \<Rightarrow>
          let seen = association \<lparr> ua_LastSeen := now \<rparr> in
          (Some seen, relay \<lparr> rs_UDP := AList.update sid seen (rs_UDP relay) \<rparr>))"

definition errClientStopped :: error where "errClientStopped = ''exchange stopped by client''"

text \<open>One round of \<^verbatim>\<open>readClient\<close>, after the frame has been read.\<close>

definition readClient :: "relay_io \<Rightarrow> relaySession \<Rightarrow> bytes \<Rightarrow> relaySession round_result" where
  "readClient io relay encoded =
     (case exchangeDecode encoded of
        Inl err \<Rightarrow> (relay, [], Some err)
      | Inr f \<Rightarrow>
          let sid = StreamID f in
          if Type f = sfData then
            (case map_of (rs_TCP relay) sid of
               None \<Rightarrow> (relay, [], Some ''exchange data references an unknown TCP stream'')
             | Some _ \<Rightarrow>
                 (case writeLocal (io_script io) 0 (Payload f) of
                    (None, accepted, _) \<Rightarrow> (relay, [Wrote sid accepted], None)
                  | (Some _, accepted, _) \<Rightarrow>
                      (case removeTCP relay sid of
                         (_, relay', closed) \<Rightarrow> (relay', Wrote sid accepted # closed @ snd (relayWrite io 0 (closeFrame sid)), None))))
          else if Type f = sfCloseWrite then
            (case map_of (rs_TCP relay) sid of
               None \<Rightarrow> (relay, [], Some ''exchange half-close references an unknown TCP stream'')
             | Some _ \<Rightarrow> (relay, [if io_halfClose io then HalfClosed sid else ClosedConn sid], None))
          else if Type f = sfClose then
            (case removeStream relay sid of
               (removed, relay', effects) \<Rightarrow>
                 (relay', effects, if removed then None else Some ''exchange close references an unknown stream''))
          else if Type f = sfDatagram then
            (case udpAssociationByID relay (io_now io) sid of
               (None, relay') \<Rightarrow> (relay', [], Some ''exchange datagram references an unknown UDP association'')
             | (Some association, relay') \<Rightarrow>
                 if ServicePort f \<noteq> word_of_int (pt_ServicePort (ua_Port association))
                 then (relay', [], Some ''exchange datagram references an unknown UDP association'')
                 else (case io_datagram io of
                    None \<Rightarrow> (relay', [], Some ''write udp'')
                  | Some _ \<Rightarrow> (relay', [WroteDatagram sid (Payload f)], None)))
          else if Type f = sfStop then (relay, [], Some errClientStopped)
          else if Type f = sfReady \<or> Type f = sfOpen then (relay, [], Some ''client sent a server-only Exchange frame'')
          else (relay, [], Some ''client sent an unsupported Exchange frame''))"

text \<open>One round of \<^verbatim>\<open>acceptTCP\<close>, after a connection has been accepted on the port.\<close>

definition acceptTCP :: "relay_io \<Rightarrow> relaySession \<Rightarrow> Port \<Rightarrow> relaySession round_result" where
  "acceptTCP io relay port =
     (case nextStreamID relay of
        (sid, relay1) \<Rightarrow>
          let relay2 = relay1 \<lparr> rs_TCP := AList.update sid \<lparr> ts_Port = port \<rparr> (rs_TCP relay1) \<rparr> in
          (case relayWrite io 0 (frame sfOpen sid (word_of_int (pt_ServicePort port)) ProtocolTCP []) of
             (Inl err, effects) \<Rightarrow>
               (case removeTCP relay2 sid of (_, relay3, closed) \<Rightarrow> (relay3, effects @ closed, Some err))
           | (Inr _, effects) \<Rightarrow> (relay2, effects @ [ReaderStarts sid], None)))"

datatype read_end = ReadMore | ReadEOF | ReadFailed

text \<open>
  One round of \<^verbatim>\<open>readTCP\<close>: the bytes that were read and the error. The end of the reader is an effect, not an error of
  the relay.
\<close>

definition readTCP :: "relay_io \<Rightarrow> relaySession \<Rightarrow> 64 word \<Rightarrow> bytes \<Rightarrow> read_end \<Rightarrow> relaySession round_result" where
  "readTCP io relay sid payload err =
     (let (written, effects) = (if length payload > 0 then relayWrite io 0 (frame sfData sid 0 0 payload) else (Inr (), [])) in
      case written of
        Inl _ \<Rightarrow> (case removeTCP relay sid of (_, relay', closed) \<Rightarrow> (relay', effects @ closed @ [ReaderEnds sid], None))
      | Inr _ \<Rightarrow>
          (case err of
             ReadMore \<Rightarrow> (relay, effects, None)
           | ReadEOF \<Rightarrow> (relay, effects @ snd (relayWrite io 1 (frame sfCloseWrite sid 0 0 [])) @ [ReaderEnds sid], None)
           | ReadFailed \<Rightarrow>
               (case removeTCP relay sid of
                  (_, relay', closed) \<Rightarrow> (relay', effects @ snd (relayWrite io 1 (closeFrame sid)) @ closed @ [ReaderEnds sid], None))))"

definition udpAssociation :: "relaySession \<Rightarrow> time \<Rightarrow> nat \<Rightarrow> Port \<Rightarrow> string \<Rightarrow> string \<Rightarrow> 64 word \<times> relaySession" where
  "udpAssociation relay now index port remote key =
     (case map_of (rs_UDPKeys relay) key of
        Some sid \<Rightarrow> (sid, relay \<lparr> rs_UDP := AList.update sid ((the (map_of (rs_UDP relay) sid)) \<lparr> ua_LastSeen := now \<rparr>) (rs_UDP relay) \<rparr>)
      | None \<Rightarrow>
          (case nextStreamID relay of
             (sid, relay1) \<Rightarrow>
               (sid, relay1 \<lparr> rs_UDPKeys := AList.update key sid (rs_UDPKeys relay1),
                  rs_UDP := AList.update sid \<lparr> ua_Index = index, ua_Remote = remote, ua_Port = port, ua_Key = key,
                    ua_LastSeen = now \<rparr> (rs_UDP relay1) \<rparr>)))"

text \<open>One round of \<^verbatim>\<open>readUDP\<close>, after a datagram has been received from \<open>remote\<close>.\<close>

definition readUDP :: "relay_io \<Rightarrow> relaySession \<Rightarrow> nat \<Rightarrow> Port \<Rightarrow> string \<Rightarrow> bytes \<Rightarrow> relaySession round_result" where
  "readUDP io relay index port remote payload =
     (if length payload = 0 then (relay, [], None)
      else let key = FormatUint index @ ''/'' @ remote in
        (case udpAssociation relay (io_now io) index port remote key of
           (sid, relay') \<Rightarrow>
             (case relayWrite io 0 (frame sfDatagram sid (word_of_int (pt_ServicePort port)) ProtocolUDP payload) of
                (Inl err, effects) \<Rightarrow> (relay', effects, Some err)
              | (Inr _, effects) \<Rightarrow> (relay', effects, None))))"

fun closeExpired :: "relay_io \<Rightarrow> nat \<Rightarrow> 64 word list \<Rightarrow> relay_effect list \<times> error option" where
  "closeExpired io n [] = ([], None)"
| "closeExpired io n (sid # sids) =
     (case relayWrite io n (closeFrame sid) of
        (Inl err, effects) \<Rightarrow> (effects, Some err)
      | (Inr _, effects) \<Rightarrow> (case closeExpired io (n + 1) sids of (rest, err) \<Rightarrow> (effects @ rest, err)))"

text \<open>One round of \<^verbatim>\<open>reapUDP\<close>, at a tick.\<close>

definition reapUDP :: "relay_io \<Rightarrow> relaySession \<Rightarrow> relaySession round_result" where
  "reapUDP io relay =
     (let cutoff = io_now io - rs_Idle relay;
          expired = filter (\<lambda>(_, association). \<not> ua_LastSeen association > cutoff) (rs_UDP relay);
          relay' = relay \<lparr> rs_UDP := filter (\<lambda>(_, association). ua_LastSeen association > cutoff) (rs_UDP relay),
            rs_UDPKeys := foldl (\<lambda>keys (_, association). AList.delete (ua_Key association) keys) (rs_UDPKeys relay) expired \<rparr> in
      case closeExpired io 0 (map fst expired) of (effects, err) \<Rightarrow> (relay', effects, err))"

section \<open>The client's relay\<close>

record Relay =
  cr_Targets :: "(string \<times> Target) list"
  cr_TCP :: "(64 word \<times> Target) list"
  cr_UDP :: "(64 word \<times> Target) list"

definition NewRelay :: "(string \<Rightarrow> string) \<Rightarrow> Target list \<Rightarrow> Relay" where
  "NewRelay ul targets =
     \<lparr> cr_Targets = foldl (\<lambda>m target. AList.update (TargetKey ul (tg_Protocol target) (tg_ServicePort target)) target m) [] targets,
       cr_TCP = [], cr_UDP = [] \<rparr>"

definition reverseServicePort :: "32 word \<Rightarrow> error + int" where
  "reverseServicePort value =
     (if value = 0 \<or> value > 65535 then Inl ''gateway supplied an invalid reverse service port'' else Inr (uint value))"

definition encodedReverseServicePort :: "int \<Rightarrow> error + 32 word" where
  "encodedReverseServicePort value =
     (if value < 1 \<or> value > 65535 then Inl ''reverse target has an invalid service port'' else Inr (word_of_int value))"

definition hasStream :: "Relay \<Rightarrow> 64 word \<Rightarrow> bool" where
  "hasStream relay sid \<longleftrightarrow> map_of (cr_TCP relay) sid \<noteq> None \<or> map_of (cr_UDP relay) sid \<noteq> None"

definition removeLocalTCP :: "Relay \<Rightarrow> 64 word \<Rightarrow> bool \<times> Relay \<times> relay_effect list" where
  "removeLocalTCP relay sid =
     (case map_of (cr_TCP relay) sid of
        None \<Rightarrow> (False, relay, [])
      | Some _ \<Rightarrow> (True, relay \<lparr> cr_TCP := AList.delete sid (cr_TCP relay) \<rparr>, [ClosedConn sid]))"

definition removeLocalUDP :: "Relay \<Rightarrow> 64 word \<Rightarrow> bool \<times> Relay \<times> relay_effect list" where
  "removeLocalUDP relay sid =
     (case map_of (cr_UDP relay) sid of
        None \<Rightarrow> (False, relay, [])
      | Some _ \<Rightarrow> (True, relay \<lparr> cr_UDP := AList.delete sid (cr_UDP relay) \<rparr>, [ClosedConn sid]))"

definition removeAny :: "Relay \<Rightarrow> 64 word \<Rightarrow> bool \<times> Relay \<times> relay_effect list" where
  "removeAny relay sid =
     (case removeLocalTCP relay sid of
        (True, relay', effects) \<Rightarrow> (True, relay', effects)
      | (False, relay', _) \<Rightarrow> removeLocalUDP relay' sid)"

definition errorOf :: "(error + unit) \<times> relay_effect list \<Rightarrow> error option" where
  "errorOf r = (case fst r of Inl err \<Rightarrow> Some err | Inr _ \<Rightarrow> None)"

definition openTCP :: "(string \<Rightarrow> string) \<Rightarrow> relay_io \<Rightarrow> Relay \<Rightarrow> stream_frame \<Rightarrow> Relay round_result" where
  "openTCP ul io relay f =
     (let sid = StreamID f in
      case reverseServicePort (ServicePort f) of
        Inl err \<Rightarrow> (relay, [], Some err)
      | Inr servicePort \<Rightarrow>
          (case map_of (cr_Targets relay) (TargetKey ul ''tcp'' servicePort) of
             None \<Rightarrow> (relay, [], Some ''gateway requested an unconfigured local TCP target'')
           | Some target \<Rightarrow>
               if hasStream relay sid then (relay, [], Some ''gateway reused an active reverse stream ID'')
               else if \<not> io_dial io
               then let r = relayWrite io 0 (closeFrame sid) in (relay, snd r, errorOf r)
               else (relay \<lparr> cr_TCP := AList.update sid target (cr_TCP relay) \<rparr>, [ReaderStarts sid], None)))"

definition writeDatagram :: "relay_io \<Rightarrow> Relay \<Rightarrow> stream_frame \<Rightarrow> int \<Rightarrow> Target \<Rightarrow> relay_effect list \<Rightarrow> Relay round_result" where
  "writeDatagram io relay f servicePort target effects =
     (if tg_ServicePort target \<noteq> servicePort then (relay, effects, Some ''gateway changed a reverse UDP association port'')
      else (case io_datagram io of
         None \<Rightarrow> (relay, effects, Some ''write udp'')
       | Some count \<Rightarrow>
           if count \<noteq> length (Payload f) then (relay, effects @ [WroteDatagram (StreamID f) (take count (Payload f))], Some ErrShortWrite)
           else (relay, effects @ [WroteDatagram (StreamID f) (Payload f)], None)))"

definition datagram :: "(string \<Rightarrow> string) \<Rightarrow> relay_io \<Rightarrow> Relay \<Rightarrow> stream_frame \<Rightarrow> Relay round_result" where
  "datagram ul io relay f =
     (let sid = StreamID f in
      case reverseServicePort (ServicePort f) of
        Inl err \<Rightarrow> (relay, [], Some err)
      | Inr servicePort \<Rightarrow>
          (case map_of (cr_Targets relay) (TargetKey ul ''udp'' servicePort) of
             None \<Rightarrow> (relay, [], Some ''gateway requested an unconfigured local UDP target'')
           | Some target \<Rightarrow>
               (case map_of (cr_UDP relay) sid of
                  Some association \<Rightarrow> writeDatagram io relay f servicePort association []
                | None \<Rightarrow>
                    if hasStream relay sid then (relay, [], Some ''gateway reused an active reverse stream ID'')
                    else if \<not> io_dial io
                    then let r = relayWrite io 0 (closeFrame sid) in (relay, snd r, errorOf r)
                    else writeDatagram io (relay \<lparr> cr_UDP := AList.update sid target (cr_UDP relay) \<rparr>) f servicePort target [])))"

text \<open>One round of \<^verbatim>\<open>Relay.Run\<close>, after the frame has been read; the result \<open>Some []\<close> is a return without an error.\<close>

definition Run :: "(string \<Rightarrow> string) \<Rightarrow> relay_io \<Rightarrow> Relay \<Rightarrow> bytes \<Rightarrow> Relay round_result" where
  "Run ul io relay encoded =
     (case exchangeDecode encoded of
        Inl err \<Rightarrow> (relay, [], Some err)
      | Inr f \<Rightarrow>
          let sid = StreamID f in
          if Type f = sfOpen then openTCP ul io relay f
          else if Type f = sfData then
            (case map_of (cr_TCP relay) sid of
               None \<Rightarrow> (relay, [], Some ''gateway referenced an unknown local TCP stream'')
             | Some _ \<Rightarrow>
                 (case writeLocal (io_script io) 0 (Payload f) of
                    (None, accepted, _) \<Rightarrow> (relay, [Wrote sid accepted], None)
                  | (Some _, accepted, _) \<Rightarrow>
                      (case removeLocalTCP relay sid of
                         (_, relay', closed) \<Rightarrow> (relay', Wrote sid accepted # closed @ snd (relayWrite io 0 (closeFrame sid)), None))))
          else if Type f = sfCloseWrite then
            (case map_of (cr_TCP relay) sid of
               None \<Rightarrow> (relay, [], Some ''gateway referenced an unknown local TCP stream'')
             | Some _ \<Rightarrow> (relay, [if io_halfClose io then HalfClosed sid else ClosedConn sid], None))
          else if Type f = sfClose then
            (case removeAny relay sid of
               (removed, relay', effects) \<Rightarrow>
                 (relay', effects, if removed then None else Some ''gateway referenced an unknown local reverse stream''))
          else if Type f = sfDatagram then datagram ul io relay f
          else if Type f = sfStop then (relay, [], Some '''')
          else if Type f = sfReady then (relay, [], Some ''gateway sent duplicate reverse readiness'')
          else (relay, [], Some ''gateway sent a client-only reverse frame''))"

definition StopRelay :: "relay_io \<Rightarrow> (error + unit) \<times> relay_effect list" where
  "StopRelay io = relayWrite io 0 (frame sfStop 0 0 0 [])"

text \<open>One round of the client's \<^verbatim>\<open>readTCP\<close> and \<^verbatim>\<open>readUDP\<close>.\<close>

definition readLocalTCP :: "relay_io \<Rightarrow> Relay \<Rightarrow> 64 word \<Rightarrow> bytes \<Rightarrow> read_end \<Rightarrow> Relay round_result" where
  "readLocalTCP io relay sid payload err =
     (let (written, effects) = (if length payload > 0 then relayWrite io 0 (frame sfData sid 0 0 payload) else (Inr (), [])) in
      case written of
        Inl _ \<Rightarrow> (case removeLocalTCP relay sid of (_, relay', closed) \<Rightarrow> (relay', effects @ closed @ [ReaderEnds sid], None))
      | Inr _ \<Rightarrow>
          (case err of
             ReadMore \<Rightarrow> (relay, effects, None)
           | ReadEOF \<Rightarrow> (relay, effects @ snd (relayWrite io 1 (frame sfCloseWrite sid 0 0 [])) @ [ReaderEnds sid], None)
           | ReadFailed \<Rightarrow>
               (case removeLocalTCP relay sid of
                  (_, relay', closed) \<Rightarrow> (relay', effects @ snd (relayWrite io 1 (closeFrame sid)) @ closed @ [ReaderEnds sid], None))))"

definition readLocalUDP :: "relay_io \<Rightarrow> Relay \<Rightarrow> 64 word \<Rightarrow> Target \<Rightarrow> bytes option \<Rightarrow> Relay round_result" where
  "readLocalUDP io relay sid target received =
     (let stop = (case removeLocalUDP relay sid of (_, relay', closed) \<Rightarrow> (relay', closed, None)) in
      case encodedReverseServicePort (tg_ServicePort target) of
        Inl _ \<Rightarrow> stop
      | Inr servicePort \<Rightarrow>
          (case received of
             None \<Rightarrow> stop
           | Some payload \<Rightarrow>
               if length payload = 0 then (relay, [], None)
               else (case relayWrite io 0 (frame sfDatagram sid servicePort ProtocolUDP payload) of
                  (Inl _, effects) \<Rightarrow> (fst stop, effects @ fst (snd stop), None)
                | (Inr _, effects) \<Rightarrow> (relay, effects, None))))"

section \<open>Readiness and the end of a relay\<close>

text \<open>\<^verbatim>\<open>ReadReady\<close>, after the frame has been read.\<close>

definition ReadReady :: "bytes \<Rightarrow> error option" where
  "ReadReady encoded =
     (case exchangeDecode encoded of
        Inl _ \<Rightarrow> Some ''gateway returned an invalid reverse readiness frame''
      | Inr f \<Rightarrow> if Type f \<noteq> sfReady then Some ''gateway returned an invalid reverse readiness frame'' else None)"

definition closeAll :: "Relay \<Rightarrow> Relay \<times> relay_effect list" where
  "closeAll relay = (relay \<lparr> cr_TCP := [], cr_UDP := [] \<rparr>, map (ClosedConn \<circ> fst) (cr_TCP relay) @ map (ClosedConn \<circ> fst) (cr_UDP relay))"

definition closeStreams :: "relaySession \<Rightarrow> relaySession \<times> relay_effect list" where
  "closeStreams relay = (relay \<lparr> rs_TCP := [], rs_UDP := [], rs_UDPKeys := [] \<rparr>, map (ClosedConn \<circ> fst) (rs_TCP relay))"

lemma closed_all:
  "snd (closeAll relay) = map ClosedConn (map fst (cr_TCP relay) @ map fst (cr_UDP relay))" "\<not> hasStream (fst (closeAll relay)) sid"
  "set (snd (closeStreams session)) = ClosedConn ` dom (map_of (rs_TCP session))" "map_of (rs_TCP (fst (closeStreams session))) sid = None"
  by (auto simp: closeAll_def closeStreams_def hasStream_def dom_map_of_conv_image_fst)

end
