(* ===== verification/RelayPipes.thy ===== *)
theory RelayPipes
  imports ReverseRelay
begin

text \<open>
  The Gateway's relay and the client's relay joined by the two directions of their frame connection. The state
  also records, for every stream, the bytes that each side read from its connection and the bytes that its
  connection accepted. Every order of rounds of the two sides is a run, and so is every outcome of their calls.

  The system refines a set of pipes, two for each stream: what comes out of a pipe is a prefix of what went in,
  bytes of different streams are never mixed, and the end of a pipe is only signalled when all of it has come out.
\<close>

section \<open>The joined system\<close>

record relay_system =
  sy_Gateway :: relaySession
  sy_Client :: Relay
  sy_Down :: "bytes list"
  sy_Up :: "bytes list"
  sy_GatewayReaders :: "64 word list"
  sy_ClientReaders :: "64 word list"
  sy_GatewayRead :: "64 word \<Rightarrow> bytes"
  sy_GatewayWrote :: "64 word \<Rightarrow> bytes"
  sy_GatewayEnded :: "64 word list"
  sy_ClientRead :: "64 word \<Rightarrow> bytes"
  sy_ClientWrote :: "64 word \<Rightarrow> bytes"
  sy_ClientEnded :: "64 word list"
  sy_GatewayDone :: "error option"
  sy_ClientDone :: "error option"

definition initial_system :: "duration \<Rightarrow> (string \<Rightarrow> string) \<Rightarrow> Target list \<Rightarrow> relay_system" where
  "initial_system idle ul targets = \<lparr> sy_Gateway = newRelaySession idle, sy_Client = NewRelay ul targets, sy_Down = [], sy_Up = [],
     sy_GatewayReaders = [], sy_ClientReaders = [], sy_GatewayRead = \<lambda>_. [], sy_GatewayWrote = \<lambda>_. [], sy_GatewayEnded = [],
     sy_ClientRead = \<lambda>_. [], sy_ClientWrote = \<lambda>_. [], sy_ClientEnded = [], sy_GatewayDone = None, sy_ClientDone = None \<rparr>"

fun gateway_effect :: "relay_system \<Rightarrow> relay_effect \<Rightarrow> relay_system" where
  "gateway_effect s (Sent encoded) = s \<lparr> sy_Down := sy_Down s @ [encoded] \<rparr>"
| "gateway_effect s (Wrote sid bs) = s \<lparr> sy_GatewayWrote := (sy_GatewayWrote s)(sid := sy_GatewayWrote s sid @ bs) \<rparr>"
| "gateway_effect s (HalfClosed sid) = s \<lparr> sy_GatewayEnded := sid # sy_GatewayEnded s \<rparr>"
| "gateway_effect s (ClosedConn sid) = s"
| "gateway_effect s (ReaderStarts sid) = s \<lparr> sy_GatewayReaders := sid # sy_GatewayReaders s \<rparr>"
| "gateway_effect s (ReaderEnds sid) = s \<lparr> sy_GatewayReaders := removeAll sid (sy_GatewayReaders s) \<rparr>"
| "gateway_effect s (WroteDatagram sid bs) = s"

fun client_effect :: "relay_system \<Rightarrow> relay_effect \<Rightarrow> relay_system" where
  "client_effect s (Sent encoded) = s \<lparr> sy_Up := sy_Up s @ [encoded] \<rparr>"
| "client_effect s (Wrote sid bs) = s \<lparr> sy_ClientWrote := (sy_ClientWrote s)(sid := sy_ClientWrote s sid @ bs) \<rparr>"
| "client_effect s (HalfClosed sid) = s \<lparr> sy_ClientEnded := sid # sy_ClientEnded s \<rparr>"
| "client_effect s (ClosedConn sid) = s"
| "client_effect s (ReaderStarts sid) = s \<lparr> sy_ClientReaders := sid # sy_ClientReaders s \<rparr>"
| "client_effect s (ReaderEnds sid) = s \<lparr> sy_ClientReaders := removeAll sid (sy_ClientReaders s) \<rparr>"
| "client_effect s (WroteDatagram sid bs) = s"

definition gateway_round :: "relay_system \<Rightarrow> relaySession round_result \<Rightarrow> relay_system" where
  "gateway_round s r = (case r of (relay, effects, err) \<Rightarrow>
     foldl gateway_effect (s \<lparr> sy_Gateway := relay, sy_GatewayDone := err \<rparr>) effects)"

definition client_round :: "relay_system \<Rightarrow> Relay round_result \<Rightarrow> relay_system" where
  "client_round s r = (case r of (relay, effects, err) \<Rightarrow>
     foldl client_effect (s \<lparr> sy_Client := relay, sy_ClientDone := err \<rparr>) effects)"

text \<open>
  An event is one round of a loop of one side. The event of a side whose relay has ended, of a reader that does not
  run and of a frame that has not arrived leaves the state as it is.
\<close>

datatype relay_event =
    GAccept relay_io Port
  | GRead relay_io "64 word" bytes read_end
  | GDatagram relay_io nat Port string bytes
  | GReap relay_io
  | GReceive relay_io
  | CReceive relay_io
  | CRead relay_io "64 word" bytes read_end
  | CDatagram relay_io "64 word" "bytes option"
  | CStop relay_io

fun relay_step :: "(string \<Rightarrow> string) \<Rightarrow> relay_system \<Rightarrow> relay_event \<Rightarrow> relay_system" where
  "relay_step ul s (GAccept io port) =
     (if sy_GatewayDone s \<noteq> None then s else gateway_round s (acceptTCP io (sy_Gateway s) port))"
| "relay_step ul s (GRead io sid payload err) =
     (if sy_GatewayDone s \<noteq> None \<or> sid \<notin> set (sy_GatewayReaders s) \<or> int (length payload) > 32768 then s
      else gateway_round (s \<lparr> sy_GatewayRead := (sy_GatewayRead s)(sid := sy_GatewayRead s sid @ payload) \<rparr>)
        (readTCP io (sy_Gateway s) sid payload err))"
| "relay_step ul s (GDatagram io index port remote payload) =
     (if sy_GatewayDone s \<noteq> None then s else gateway_round s (readUDP io (sy_Gateway s) index port remote payload))"
| "relay_step ul s (GReap io) =
     (if sy_GatewayDone s \<noteq> None then s else gateway_round s (reapUDP io (sy_Gateway s)))"
| "relay_step ul s (GReceive io) =
     (case sy_Up s of
        [] \<Rightarrow> s
      | encoded # rest \<Rightarrow> if sy_GatewayDone s \<noteq> None then s
          else gateway_round (s \<lparr> sy_Up := rest \<rparr>) (readClient io (sy_Gateway s) encoded))"
| "relay_step ul s (CReceive io) =
     (case sy_Down s of
        [] \<Rightarrow> s
      | encoded # rest \<Rightarrow> if sy_ClientDone s \<noteq> None then s
          else client_round (s \<lparr> sy_Down := rest \<rparr>) (Run ul io (sy_Client s) encoded))"
| "relay_step ul s (CRead io sid payload err) =
     (if sy_ClientDone s \<noteq> None \<or> sid \<notin> set (sy_ClientReaders s) \<or> int (length payload) > 32768 then s
      else client_round (s \<lparr> sy_ClientRead := (sy_ClientRead s)(sid := sy_ClientRead s sid @ payload) \<rparr>)
        (readLocalTCP io (sy_Client s) sid payload err))"
| "relay_step ul s (CDatagram io sid received) =
     (case map_of (cr_UDP (sy_Client s)) sid of
        None \<Rightarrow> s
      | Some target \<Rightarrow> if sy_ClientDone s \<noteq> None then s
          else client_round s (readLocalUDP io (sy_Client s) sid target received))"
| "relay_step ul s (CStop io) =
     (if sy_ClientDone s \<noteq> None then s else client_round s (sy_Client s, snd (StopRelay io), None))"

section \<open>Pipes\<close>

record pipe =
  pi_In :: bytes
  pi_Out :: bytes
  pi_End :: bool

text \<open>What may happen to a pipe in one step: nothing, bytes enter, the next bytes leave, or its end is signalled.\<close>

inductive pipe_step :: "pipe \<Rightarrow> pipe \<Rightarrow> bool" where
  stay: "pipe_step p p"
| enter: "\<not> pi_End p \<Longrightarrow> pipe_step p (p \<lparr> pi_In := pi_In p @ bs \<rparr>)"
| leave: "\<not> pi_End p \<Longrightarrow> pi_In p = pi_Out p @ bs @ rest \<Longrightarrow> pipe_step p (p \<lparr> pi_Out := pi_Out p @ bs \<rparr>)"
| finish: "pi_In p = pi_Out p \<Longrightarrow> pipe_step p (p \<lparr> pi_End := True \<rparr>)"

datatype direction = ToClient | ToCluster

text \<open>The abstraction: the two pipes of a stream.\<close>

fun pipe_of :: "relay_system \<Rightarrow> direction \<Rightarrow> 64 word \<Rightarrow> pipe" where
  "pipe_of s ToClient sid = \<lparr> pi_In = sy_GatewayRead s sid, pi_Out = sy_ClientWrote s sid, pi_End = sid \<in> set (sy_ClientEnded s) \<rparr>"
| "pipe_of s ToCluster sid = \<lparr> pi_In = sy_ClientRead s sid, pi_Out = sy_GatewayWrote s sid, pi_End = sid \<in> set (sy_GatewayEnded s) \<rparr>"

section \<open>Frames in flight\<close>

definition wire :: "bytes list \<Rightarrow> stream_frame list" where
  "wire es = concat (map (\<lambda>e. case exchangeDecode e of Inl _ \<Rightarrow> [] | Inr f \<Rightarrow> [f]) es)"

definition data_of :: "64 word \<Rightarrow> stream_frame list \<Rightarrow> bytes" where
  "data_of sid fs = concat (map Payload (filter (\<lambda>f. Type f = sfData \<and> StreamID f = sid) fs))"

definition has_frame :: "byte \<Rightarrow> 64 word \<Rightarrow> stream_frame list \<Rightarrow> bool" where
  "has_frame t sid fs \<longleftrightarrow> list_ex (\<lambda>f. Type f = t \<and> StreamID f = sid) fs"

lemma wire_simps [simp]:
  "wire [] = []" "wire (es @ es') = wire es @ wire es'"
  "exchangeDecode e = Inr f \<Longrightarrow> wire (e # es) = f # wire es" "exchangeDecode e = Inl x \<Longrightarrow> wire (e # es) = wire es"
  by (simp_all add: wire_def)

lemma data_of_simps [simp]:
  "data_of sid [] = []" "data_of sid (fs @ gs) = data_of sid fs @ data_of sid gs"
  "data_of sid (f # fs) = (if Type f = sfData \<and> StreamID f = sid then Payload f else []) @ data_of sid fs"
  by (simp_all add: data_of_def)

lemma has_frame_simps [simp]:
  "\<not> has_frame t sid []" "has_frame t sid (fs @ gs) \<longleftrightarrow> has_frame t sid fs \<or> has_frame t sid gs"
  "has_frame t sid (f # fs) \<longleftrightarrow> Type f = t \<and> StreamID f = sid \<or> has_frame t sid fs"
  by (simp_all add: has_frame_def)

text \<open>No data of the stream follows its half-close, and the stream is opened once.\<close>

fun tail_ok :: "64 word \<Rightarrow> stream_frame list \<Rightarrow> bool" where
  "tail_ok sid [] = True"
| "tail_ok sid (f # fs) = ((Type f = sfCloseWrite \<and> StreamID f = sid \<longrightarrow> data_of sid fs = []) \<and> tail_ok sid fs)"

fun opened_once :: "64 word \<Rightarrow> stream_frame list \<Rightarrow> bool" where
  "opened_once sid [] = True"
| "opened_once sid (f # fs) = ((Type f = sfOpen \<and> StreamID f = sid \<longrightarrow> \<not> has_frame sfOpen sid fs) \<and> opened_once sid fs)"

lemma tail_ok_append:
  "tail_ok sid (fs @ [f]) \<longleftrightarrow> tail_ok sid fs \<and> (has_frame sfCloseWrite sid fs \<longrightarrow> data_of sid [f] = [])"
  by (induction fs) auto

lemma opened_once_append:
  "opened_once sid (fs @ [f]) \<longleftrightarrow> opened_once sid fs \<and> (has_frame sfOpen sid fs \<longrightarrow> \<not> has_frame sfOpen sid [f])"
  by (induction fs) auto

lemma relayWrite_cases:
  obtains (sent) e where "relayWrite io n f = (Inr (), [Sent e])" "exchangeDecode e = Inr f"
  | (failed) err where "relayWrite io n f = (Inl err, [])"
proof (cases "fst (relayWrite io n f)")
  case (Inl err)
  then have "relayWrite io n f = (Inl err, [])" by (auto simp: relayWrite_def split: sum.splits if_splits)
  then show thesis by (rule failed)
next
  case (Inr u)
  then obtain e where "exchangeEncode f = Inr e" "relayWrite io n f = (Inr (), [Sent e])"
    by (auto simp: relayWrite_def split: sum.splits if_splits)
  then show thesis by (intro sent) (simp_all add: exchange.dec_iff)
qed

section \<open>The invariant of one direction of a stream\<close>

text \<open>
  The receiver still takes data of the stream (\<open>live\<close>), the bytes that were read and written, whether the reader
  runs, the frames in flight and whether the end was signalled.
\<close>

definition pipe_inv :: "64 word \<Rightarrow> bool \<Rightarrow> bytes \<Rightarrow> bytes \<Rightarrow> bool \<Rightarrow> stream_frame list \<Rightarrow> bool \<Rightarrow> bool" where
  "pipe_inv sid live r w reading fs ended \<longleftrightarrow>
     (\<exists>rest. r = w @ rest) \<and>
     (live \<longrightarrow> (\<exists>lost. r = w @ data_of sid fs @ lost \<and> (reading \<or> has_frame sfCloseWrite sid fs \<longrightarrow> lost = []))) \<and>
     (ended \<or> has_frame sfCloseWrite sid fs \<longrightarrow> \<not> reading) \<and> tail_ok sid fs \<and>
     (ended \<longrightarrow> r = w \<and> data_of sid fs = [])"

definition unused :: "64 word \<Rightarrow> bytes \<Rightarrow> bytes \<Rightarrow> bool \<Rightarrow> stream_frame list \<Rightarrow> bool \<Rightarrow> bool" where
  "unused sid r w reading fs ended \<longleftrightarrow> r = [] \<and> w = [] \<and> \<not> reading \<and> \<not> ended \<and>
     \<not> has_frame sfData sid fs \<and> \<not> has_frame sfCloseWrite sid fs"

lemma data_of_none: "\<not> has_frame sfData sid fs \<Longrightarrow> data_of sid fs = []"
  by (induction fs) auto

lemma tail_ok_none: "\<not> has_frame sfCloseWrite sid fs \<Longrightarrow> tail_ok sid fs"
  by (induction fs) auto

lemma pipe_inv_unused: "unused sid r w reading fs ended \<Longrightarrow> pipe_inv sid live r w reading' fs ended"
  by (auto simp: unused_def pipe_inv_def data_of_none tail_ok_none)

lemma pipe_inv_dies: "pipe_inv sid live r w reading fs ended \<Longrightarrow> (live' \<Longrightarrow> live) \<Longrightarrow> pipe_inv sid live' r w reading fs ended"
  by (auto simp: pipe_inv_def)

lemma pipe_inv_reader_ends: "pipe_inv sid live r w reading fs ended \<Longrightarrow> pipe_inv sid live r w False fs ended"
  by (auto simp: pipe_inv_def)

text \<open>Frames that are not data and not the half-close of the stream.\<close>

definition neutral :: "64 word \<Rightarrow> stream_frame \<Rightarrow> bool" where
  "neutral sid f \<longleftrightarrow> StreamID f = sid \<longrightarrow> Type f \<noteq> sfData \<and> Type f \<noteq> sfCloseWrite"

lemma neutral_frame:
  assumes "neutral sid f"
  shows "data_of sid (fs @ [f]) = data_of sid fs" "data_of sid (f # fs) = data_of sid fs"
    "has_frame sfCloseWrite sid (fs @ [f]) = has_frame sfCloseWrite sid fs"
    "has_frame sfCloseWrite sid (f # fs) = has_frame sfCloseWrite sid fs"
    "tail_ok sid (fs @ [f]) = tail_ok sid fs" "tail_ok sid (f # fs) = tail_ok sid fs"
  using assms by (auto simp: neutral_def tail_ok_append)

lemma pipe_inv_append: "neutral sid f \<Longrightarrow> pipe_inv sid live r w reading (fs @ [f]) ended = pipe_inv sid live r w reading fs ended"
  unfolding pipe_inv_def by (simp only: neutral_frame)

lemma pipe_inv_pop: "neutral sid f \<Longrightarrow> pipe_inv sid live r w reading (f # fs) ended = pipe_inv sid live r w reading fs ended"
  unfolding pipe_inv_def by (simp only: neutral_frame)

lemma unused_append: "neutral sid f \<Longrightarrow> unused sid r w reading (fs @ [f]) ended = unused sid r w reading fs ended"
  by (auto simp: unused_def neutral_def)

lemma unused_pop: "neutral sid f \<Longrightarrow> unused sid r w reading (f # fs) ended = unused sid r w reading fs ended"
  by (auto simp: unused_def neutral_def)

lemma pipe_inv_drop: "pipe_inv sid live r w reading (f # fs) ended \<Longrightarrow> \<not> live' \<Longrightarrow> pipe_inv sid live' r w reading fs ended"
  by (auto simp: pipe_inv_def)

lemma pipe_inv_enter:
  assumes "pipe_inv sid live r w True fs ended" "Type f = sfData" "StreamID f = sid"
  shows "pipe_inv sid live (r @ Payload f) w True (fs @ [f]) ended"
  using assms by (auto simp: pipe_inv_def tail_ok_append sf_types)

lemma pipe_inv_lose:
  assumes "pipe_inv sid live r w True fs ended"
  shows "pipe_inv sid live (r @ bs) w False fs ended"
  using assms by (auto simp: pipe_inv_def)

lemma pipe_inv_half_close:
  assumes "pipe_inv sid live r w True fs ended" "Type f = sfCloseWrite" "StreamID f = sid"
  shows "pipe_inv sid live r w False (fs @ [f]) ended"
  using assms by (auto simp: pipe_inv_def tail_ok_append sf_types)

lemma pipe_inv_leave:
  assumes "pipe_inv sid True r w reading (f # fs) ended" "Type f = sfData" "StreamID f = sid" "Payload f = bs @ rest"
    and "live' \<Longrightarrow> rest = []"
  shows "pipe_inv sid live' r (w @ bs) reading fs ended" "\<exists>rest. r = w @ bs @ rest" "bs \<noteq> [] \<Longrightarrow> \<not> ended"
  using assms by (auto simp: pipe_inv_def sf_types)

lemma pipe_inv_end:
  assumes "pipe_inv sid True r w reading (f # fs) ended" "Type f = sfCloseWrite" "StreamID f = sid"
  shows "pipe_inv sid live' r w reading fs True" "r = w"
  using assms by (auto simp: pipe_inv_def sf_types)

text \<open>Traffic that is the same for a stream.\<close>

definition alike :: "64 word \<Rightarrow> stream_frame list \<Rightarrow> stream_frame list \<Rightarrow> bool" where
  "alike sid fs gs \<longleftrightarrow> data_of sid gs = data_of sid fs \<and> (\<forall>t \<in> {sfData, sfCloseWrite, sfOpen}. has_frame t sid gs = has_frame t sid fs) \<and>
     tail_ok sid gs = tail_ok sid fs \<and> opened_once sid gs = opened_once sid fs"

definition foreign :: "64 word \<Rightarrow> stream_frame \<Rightarrow> bool" where
  "foreign sid f \<longleftrightarrow> StreamID f = sid \<longrightarrow> Type f \<notin> {sfData, sfCloseWrite, sfOpen}"

lemma alike_refl [simp]: "alike sid fs fs"
  by (simp add: alike_def)

lemma alike_append: "foreign sid f \<Longrightarrow> alike sid fs gs \<Longrightarrow> alike sid fs (gs @ [f])"
  by (auto simp: alike_def foreign_def tail_ok_append opened_once_append)

lemma alike_pop: "foreign sid f \<Longrightarrow> alike sid (f # fs) fs"
  by (auto simp: alike_def foreign_def)

lemma pipe_inv_mono:
  assumes "pipe_inv sid live r w reading fs ended" "live' \<Longrightarrow> live" "reading' \<Longrightarrow> reading" "alike sid fs gs"
  shows "pipe_inv sid live' r w reading' gs ended"
proof -
  have e: "data_of sid gs = data_of sid fs" "has_frame sfCloseWrite sid gs = has_frame sfCloseWrite sid fs" "tail_ok sid gs = tail_ok sid fs"
    using assms(4) by (auto simp: alike_def)
  show ?thesis using assms(1-3) unfolding pipe_inv_def e by blast
qed

lemma unused_alike: "unused sid r w reading fs ended \<Longrightarrow> alike sid fs gs \<Longrightarrow> (reading' \<Longrightarrow> reading) \<Longrightarrow> unused sid r w reading' gs ended"
  by (auto simp: unused_def alike_def)

lemma pipe_inv_pop_other:
  assumes "pipe_inv sid live r w reading (f # fs) ended" "\<not> (Type f = sfData \<and> StreamID f = sid)" "live' \<Longrightarrow> live"
  shows "pipe_inv sid live' r w reading fs ended"
proof -
  have e: "data_of sid (f # fs) = data_of sid fs" using assms(2) by auto
  show ?thesis using assms(1,3) unfolding pipe_inv_def e has_frame_simps tail_ok.simps by blast
qed

section \<open>The invariant of the system\<close>

definition in_client :: "relay_system \<Rightarrow> 64 word \<Rightarrow> bool" where
  "in_client s sid \<longleftrightarrow> map_of (cr_TCP (sy_Client s)) sid \<noteq> None"

definition in_gateway :: "relay_system \<Rightarrow> 64 word \<Rightarrow> bool" where
  "in_gateway s sid \<longleftrightarrow> map_of (rs_TCP (sy_Gateway s)) sid \<noteq> None"

definition issued :: "relay_system \<Rightarrow> 64 word \<Rightarrow> bool" where
  "issued s sid \<longleftrightarrow> 0 < sid \<and> sid \<le> rs_NextID (sy_Gateway s)"

definition pending :: "relay_system \<Rightarrow> 64 word \<Rightarrow> bool" where
  "pending s sid \<longleftrightarrow> has_frame sfOpen sid (wire (sy_Down s))"

definition down_inv :: "relay_system \<Rightarrow> 64 word \<Rightarrow> bool" where
  "down_inv s sid \<longleftrightarrow> pipe_inv sid (sy_ClientDone s = None \<and> (in_client s sid \<or> pending s sid)) (sy_GatewayRead s sid)
     (sy_ClientWrote s sid) (sid \<in> set (sy_GatewayReaders s)) (wire (sy_Down s)) (sid \<in> set (sy_ClientEnded s))"

definition up_inv :: "relay_system \<Rightarrow> 64 word \<Rightarrow> bool" where
  "up_inv s sid \<longleftrightarrow> pipe_inv sid (sy_GatewayDone s = None \<and> in_gateway s sid) (sy_ClientRead s sid)
     (sy_GatewayWrote s sid) (sid \<in> set (sy_ClientReaders s)) (wire (sy_Up s)) (sid \<in> set (sy_GatewayEnded s))"

definition down_unused :: "relay_system \<Rightarrow> 64 word \<Rightarrow> bool" where
  "down_unused s sid \<longleftrightarrow> unused sid (sy_GatewayRead s sid) (sy_ClientWrote s sid) (sid \<in> set (sy_GatewayReaders s))
     (wire (sy_Down s)) (sid \<in> set (sy_ClientEnded s))"

definition up_unused :: "relay_system \<Rightarrow> 64 word \<Rightarrow> bool" where
  "up_unused s sid \<longleftrightarrow> unused sid (sy_ClientRead s sid) (sy_GatewayWrote s sid) (sid \<in> set (sy_ClientReaders s))
     (wire (sy_Up s)) (sid \<in> set (sy_GatewayEnded s))"

definition life_inv :: "relay_system \<Rightarrow> 64 word \<Rightarrow> bool" where
  "life_inv s sid \<longleftrightarrow> (in_client s sid \<longrightarrow> \<not> pending s sid) \<and> opened_once sid (wire (sy_Down s)) \<and>
     (\<not> issued s sid \<longrightarrow> \<not> pending s sid \<and> \<not> in_client s sid \<and> \<not> in_gateway s sid \<and> down_unused s sid) \<and>
     (\<not> issued s sid \<or> pending s sid \<longrightarrow> up_unused s sid)"

definition stream_inv :: "relay_system \<Rightarrow> 64 word \<Rightarrow> bool" where
  "stream_inv s sid \<longleftrightarrow> down_inv s sid \<and> up_inv s sid \<and> life_inv s sid"

lemmas stream_defs = stream_inv_def down_inv_def up_inv_def life_inv_def down_unused_def up_unused_def

lemma up_inv_mono:
  assumes "up_inv s sid" "sy_ClientRead s' sid = sy_ClientRead s sid" "sy_GatewayWrote s' sid = sy_GatewayWrote s sid"
    "sid \<in> set (sy_ClientReaders s') \<Longrightarrow> sid \<in> set (sy_ClientReaders s)" "alike sid (wire (sy_Up s)) (wire (sy_Up s'))"
    "sid \<in> set (sy_GatewayEnded s') \<longleftrightarrow> sid \<in> set (sy_GatewayEnded s)"
    "sy_GatewayDone s' = None \<and> in_gateway s' sid \<Longrightarrow> sy_GatewayDone s = None \<and> in_gateway s sid"
  shows "up_inv s' sid"
  unfolding up_inv_def assms(2,3,6) by (rule pipe_inv_mono [OF assms(1) [unfolded up_inv_def] assms(7,4,5)])

lemma down_inv_mono:
  assumes "down_inv s sid" "sy_GatewayRead s' sid = sy_GatewayRead s sid" "sy_ClientWrote s' sid = sy_ClientWrote s sid"
    "sid \<in> set (sy_GatewayReaders s') \<Longrightarrow> sid \<in> set (sy_GatewayReaders s)" "alike sid (wire (sy_Down s)) (wire (sy_Down s'))"
    "sid \<in> set (sy_ClientEnded s') \<longleftrightarrow> sid \<in> set (sy_ClientEnded s)"
    "sy_ClientDone s' = None \<and> (in_client s' sid \<or> pending s' sid) \<Longrightarrow> sy_ClientDone s = None \<and> (in_client s sid \<or> pending s sid)"
  shows "down_inv s' sid"
  unfolding down_inv_def assms(2,3,6) by (rule pipe_inv_mono [OF assms(1) [unfolded down_inv_def] assms(7,4,5)])

text \<open>A step that does not touch the stream, except that it may end its readers and remove it from the tables.\<close>

definition untouched :: "relay_system \<Rightarrow> relay_system \<Rightarrow> 64 word \<Rightarrow> bool" where
  "untouched s s' sid \<longleftrightarrow>
     sy_GatewayRead s' sid = sy_GatewayRead s sid \<and> sy_ClientWrote s' sid = sy_ClientWrote s sid \<and>
     sy_ClientRead s' sid = sy_ClientRead s sid \<and> sy_GatewayWrote s' sid = sy_GatewayWrote s sid \<and>
     (sid \<in> set (sy_GatewayReaders s') \<longrightarrow> sid \<in> set (sy_GatewayReaders s)) \<and>
     (sid \<in> set (sy_ClientReaders s') \<longrightarrow> sid \<in> set (sy_ClientReaders s)) \<and>
     (sid \<in> set (sy_ClientEnded s') \<longleftrightarrow> sid \<in> set (sy_ClientEnded s)) \<and>
     (sid \<in> set (sy_GatewayEnded s') \<longleftrightarrow> sid \<in> set (sy_GatewayEnded s)) \<and>
     alike sid (wire (sy_Down s)) (wire (sy_Down s')) \<and> alike sid (wire (sy_Up s)) (wire (sy_Up s')) \<and>
     (in_client s' sid \<longrightarrow> in_client s sid) \<and> (in_gateway s' sid \<longrightarrow> in_gateway s sid) \<and>
     (sy_GatewayDone s' = None \<longrightarrow> sy_GatewayDone s = None) \<and> (sy_ClientDone s' = None \<longrightarrow> sy_ClientDone s = None) \<and>
     (issued s sid \<longrightarrow> issued s' sid)"

lemma alike_pending: "alike sid (wire (sy_Down s)) (wire (sy_Down s')) \<Longrightarrow> pending s' sid = pending s sid"
  by (simp add: alike_def pending_def)

lemma untouched_inv:
  assumes u: "untouched s s' sid" and inv: "stream_inv s sid"
  shows "stream_inv s' sid"
proof -
  have al: "alike sid (wire (sy_Down s)) (wire (sy_Down s'))" "alike sid (wire (sy_Up s)) (wire (sy_Up s'))"
    and same: "sy_GatewayRead s' sid = sy_GatewayRead s sid" "sy_ClientWrote s' sid = sy_ClientWrote s sid"
      "sy_ClientRead s' sid = sy_ClientRead s sid" "sy_GatewayWrote s' sid = sy_GatewayWrote s sid"
      "sid \<in> set (sy_ClientEnded s') \<longleftrightarrow> sid \<in> set (sy_ClientEnded s)" "sid \<in> set (sy_GatewayEnded s') \<longleftrightarrow> sid \<in> set (sy_GatewayEnded s)"
    and readers: "sid \<in> set (sy_GatewayReaders s') \<Longrightarrow> sid \<in> set (sy_GatewayReaders s)"
      "sid \<in> set (sy_ClientReaders s') \<Longrightarrow> sid \<in> set (sy_ClientReaders s)"
    and tables: "in_client s' sid \<Longrightarrow> in_client s sid" "in_gateway s' sid \<Longrightarrow> in_gateway s sid" "issued s sid \<Longrightarrow> issued s' sid"
    and ends: "sy_GatewayDone s' = None \<Longrightarrow> sy_GatewayDone s = None" "sy_ClientDone s' = None \<Longrightarrow> sy_ClientDone s = None"
    using u by (simp_all add: untouched_def)
  have pend: "pending s' sid = pending s sid" using al(1) by (rule alike_pending)
  have once: "opened_once sid (wire (sy_Down s')) = opened_once sid (wire (sy_Down s))" using al(1) by (simp add: alike_def)
  have old: "down_inv s sid" "up_inv s sid" "life_inv s sid" using inv by (simp_all add: stream_inv_def)
  have "down_inv s' sid"
    unfolding down_inv_def same pend by (rule pipe_inv_mono [OF old(1) [unfolded down_inv_def] _ readers(1) al(1)]) (use tables ends in auto)
  moreover have "up_inv s' sid"
    unfolding up_inv_def same by (rule pipe_inv_mono [OF old(2) [unfolded up_inv_def] _ readers(2) al(2)]) (use tables ends in auto)
  moreover have "down_unused s sid \<Longrightarrow> down_unused s' sid"
    unfolding down_unused_def same by (rule unused_alike [OF _ al(1) readers(1)])
  moreover have "up_unused s sid \<Longrightarrow> up_unused s' sid"
    unfolding up_unused_def same by (rule unused_alike [OF _ al(2) readers(2)])
  ultimately show ?thesis using old(3) tables unfolding stream_inv_def life_inv_def pend once by blast
qed

definition step_ok :: "relay_system \<Rightarrow> relay_system \<Rightarrow> 64 word \<Rightarrow> bool" where
  "step_ok s s' sid \<longleftrightarrow> stream_inv s' sid \<and> (\<forall>d. pipe_step (pipe_of s d sid) (pipe_of s' d sid))"

lemma untouched_ok: "untouched s s' sid \<Longrightarrow> stream_inv s sid \<Longrightarrow> step_ok s s' sid"
proof -
  assume u: "untouched s s' sid" and "stream_inv s sid"
  then have "stream_inv s' sid" by (rule untouched_inv)
  moreover have "pipe_of s' d sid = pipe_of s d sid" for d using u by (cases d) (simp_all add: untouched_def)
  ultimately show ?thesis unfolding step_ok_def by (simp add: stay)
qed

section \<open>Rounds of the Gateway\<close>

lemma sf_distinct [simp]:
  "sfOpen \<noteq> sfData" "sfOpen \<noteq> sfCloseWrite" "sfOpen \<noteq> sfClose" "sfOpen \<noteq> sfDatagram" "sfOpen \<noteq> sfStop"
  "sfOpen \<noteq> sfReady" "sfData \<noteq> sfOpen" "sfData \<noteq> sfCloseWrite" "sfData \<noteq> sfClose" "sfData \<noteq> sfDatagram"
  "sfData \<noteq> sfStop" "sfData \<noteq> sfReady" "sfCloseWrite \<noteq> sfOpen" "sfCloseWrite \<noteq> sfData" "sfCloseWrite \<noteq> sfClose"
  "sfCloseWrite \<noteq> sfDatagram" "sfCloseWrite \<noteq> sfStop" "sfCloseWrite \<noteq> sfReady" "sfClose \<noteq> sfOpen" "sfClose \<noteq> sfData"
  "sfClose \<noteq> sfCloseWrite" "sfClose \<noteq> sfDatagram" "sfClose \<noteq> sfStop" "sfClose \<noteq> sfReady" "sfDatagram \<noteq> sfOpen"
  "sfDatagram \<noteq> sfData" "sfDatagram \<noteq> sfCloseWrite" "sfDatagram \<noteq> sfClose" "sfDatagram \<noteq> sfStop" "sfDatagram \<noteq> sfReady"
  "sfStop \<noteq> sfOpen" "sfStop \<noteq> sfData" "sfStop \<noteq> sfCloseWrite" "sfStop \<noteq> sfClose" "sfStop \<noteq> sfDatagram"
  "sfStop \<noteq> sfReady" "sfReady \<noteq> sfOpen" "sfReady \<noteq> sfData" "sfReady \<noteq> sfCloseWrite" "sfReady \<noteq> sfClose"
  "sfReady \<noteq> sfDatagram" "sfReady \<noteq> sfStop"
  by (simp_all add: sf_types)

lemma frame_fields [simp]:
  "Type (frame t sid port p bs) = t" "StreamID (frame t sid port p bs) = sid" "Payload (frame t sid port p bs) = bs"
  by (simp_all add: frame_def)

lemma nextStreamID_fresh:
  assumes "unat (rs_NextID relay) + 1 < 2 ^ 64"
  shows "nextStreamID relay = (rs_NextID relay + 1, relay \<lparr> rs_NextID := rs_NextID relay + 1 \<rparr>)"
    "0 < rs_NextID relay + 1" "\<not> rs_NextID relay + 1 \<le> rs_NextID relay" "rs_NextID relay \<le> rs_NextID relay + 1"
    "unat (rs_NextID relay + 1) = unat (rs_NextID relay) + 1"
proof -
  show u: "unat (rs_NextID relay + 1) = unat (rs_NextID relay) + 1"
    using assms by (simp add: unat_word_ariths(1))
  then show "0 < rs_NextID relay + 1" "\<not> rs_NextID relay + 1 \<le> rs_NextID relay" "rs_NextID relay \<le> rs_NextID relay + 1"
    by (simp_all add: word_less_nat_alt word_le_nat_alt)
  then show "nextStreamID relay = (rs_NextID relay + 1, relay \<lparr> rs_NextID := rs_NextID relay + 1 \<rparr>)"
    by (auto simp: nextStreamID_def Let_def)
qed

lemma accept_ok:
  assumes inv: "\<And>sid. stream_inv s sid" and small: "unat (rs_NextID (sy_Gateway s)) + 1 < 2 ^ 64" and run: "sy_GatewayDone s = None"
  shows "step_ok s (gateway_round s (acceptTCP io (sy_Gateway s) port)) sid"
proof -
  let ?g = "sy_Gateway s"
  let ?x = "rs_NextID ?g + 1"
  let ?f = "frame sfOpen ?x (word_of_int (pt_ServicePort port)) ProtocolTCP []"
  note fresh = nextStreamID_fresh [OF small]
  have x: "\<not> issued s ?x" using fresh by (simp add: issued_def)
  then have un: "\<not> pending s ?x" "\<not> in_client s ?x" "\<not> in_gateway s ?x" "down_unused s ?x" "up_unused s ?x"
    using inv [of ?x] by (auto simp: stream_inv_def life_inv_def)
  have mono: "issued s sid \<Longrightarrow> 0 < sid \<and> sid \<le> ?x" using fresh by (auto simp: issued_def)
  show ?thesis
  proof (cases rule: relayWrite_cases [of io 0 ?f])
    case (sent e)
    let ?g' = "?g \<lparr> rs_NextID := ?x, rs_TCP := AList.update ?x \<lparr> ts_Port = port \<rparr> (rs_TCP ?g) \<rparr>"
    let ?s = "s \<lparr> sy_Gateway := ?g', sy_Down := sy_Down s @ [e], sy_GatewayReaders := ?x # sy_GatewayReaders s \<rparr>"
    have r: "gateway_round s (acceptTCP io ?g port) = ?s"
      using sent(1) run by (simp add: acceptTCP_def fresh(1) gateway_round_def Let_def)
    have w: "wire (sy_Down ?s) = wire (sy_Down s) @ [?f]" using sent(2) by simp
    show ?thesis
    proof (cases "sid = ?x")
      case False
      have "untouched s ?s sid"
        using False sent(2) mono
        by (auto simp: untouched_def foreign_def in_client_def in_gateway_def issued_def AList.update_conv' intro!: alike_append)
      then show ?thesis unfolding r by (rule untouched_ok [OF _ inv])
    next
      case True
      have dn: "unused ?x (sy_GatewayRead s ?x) (sy_ClientWrote s ?x) False (wire (sy_Down ?s)) (?x \<in> set (sy_ClientEnded s))"
        using un(4) unfolding w down_unused_def by (auto simp: unused_def)
      have "down_inv ?s ?x" unfolding down_inv_def using pipe_inv_unused [OF dn] by simp
      moreover have "up_inv ?s ?x" using un(5) unfolding up_inv_def up_unused_def by (auto intro: pipe_inv_unused)
      moreover have "life_inv ?s ?x"
        using un inv [of ?x] fresh
        unfolding life_inv_def stream_inv_def pending_def w opened_once_append
        by (auto simp: in_client_def issued_def up_unused_def simp del: wire_simps)
      moreover have "pipe_of ?s d ?x = pipe_of s d ?x" for d by (cases d) auto
      ultimately show ?thesis unfolding r True step_ok_def stream_inv_def by (auto intro: stay)
    qed
  next
    case (failed err)
    let ?g' = "?g \<lparr> rs_NextID := ?x, rs_TCP := AList.delete ?x (AList.update ?x \<lparr> ts_Port = port \<rparr> (rs_TCP ?g)) \<rparr>"
    have r: "gateway_round s (acceptTCP io ?g port) = s \<lparr> sy_Gateway := ?g', sy_GatewayDone := Some err \<rparr>"
      using failed by (simp add: acceptTCP_def fresh(1) gateway_round_def Let_def removeTCP_def AList.update_conv')
    have "untouched s (s \<lparr> sy_Gateway := ?g', sy_GatewayDone := Some err \<rparr>) sid"
      using mono by (auto simp: untouched_def in_client_def in_gateway_def issued_def AList.update_conv' AList.delete_conv' split: if_splits)
    then show ?thesis unfolding r by (rule untouched_ok [OF _ inv])
  qed
qed

section \<open>Readers\<close>

definition drop_stream :: "bool \<Rightarrow> 64 word \<Rightarrow> relaySession \<Rightarrow> relaySession" where
  "drop_stream gone sid relay = (if gone then relay \<lparr> rs_TCP := AList.delete sid (rs_TCP relay) \<rparr> else relay)"

definition drop_local :: "bool \<Rightarrow> 64 word \<Rightarrow> Relay \<Rightarrow> Relay" where
  "drop_local gone sid relay = (if gone then relay \<lparr> cr_TCP := AList.delete sid (cr_TCP relay) \<rparr> else relay)"

lemma delete_None: "map_of al k = None \<Longrightarrow> AList.delete k al = al"
  by (induction al) auto

lemma removeTCP_drop: "removeTCP relay sid =
    (map_of (rs_TCP relay) sid \<noteq> None, drop_stream True sid relay, if map_of (rs_TCP relay) sid \<noteq> None then [ClosedConn sid] else [])"
  by (auto simp: removeTCP_def drop_stream_def delete_None split: option.splits)

lemma removeLocalTCP_drop: "removeLocalTCP relay sid =
    (map_of (cr_TCP relay) sid \<noteq> None, drop_local True sid relay, if map_of (cr_TCP relay) sid \<noteq> None then [ClosedConn sid] else [])"
  by (auto simp: removeLocalTCP_def drop_local_def delete_None split: option.splits)

text \<open>A reader sends frames of its stream, may end and may remove the stream; its bytes enter the pipe of the stream.\<close>

lemma reader_rounds:
  obtains es ends gone where
    "\<And>relay. \<exists>effects. readTCP io relay sid payload err = (drop_stream gone sid relay, effects, None) \<and>
       (\<forall>s. foldl gateway_effect s effects = s \<lparr> sy_Down := sy_Down s @ es,
          sy_GatewayReaders := (if ends then removeAll sid (sy_GatewayReaders s) else sy_GatewayReaders s) \<rparr>)"
    "\<And>relay. \<exists>effects. readLocalTCP io relay sid payload err = (drop_local gone sid relay, effects, None) \<and>
       (\<forall>s. foldl client_effect s effects = s \<lparr> sy_Up := sy_Up s @ es,
          sy_ClientReaders := (if ends then removeAll sid (sy_ClientReaders s) else sy_ClientReaders s) \<rparr>)"
    "\<And>f. f \<in> set (wire es) \<Longrightarrow> StreamID f = sid \<and> Type f \<noteq> sfOpen"
    "\<And>live r w fs ended. pipe_inv sid live r w True fs ended \<Longrightarrow> pipe_inv sid live (r @ payload) w (\<not> ends) (fs @ wire es) ended"
proof -
  let ?data = "frame sfData sid 0 0 payload"
  have first: "(\<exists>e. (if length payload > 0 then relayWrite io 0 ?data else (Inr (), [])) = (Inr (), map Sent e) \<and>
        (\<forall>f \<in> set (wire e). StreamID f = sid \<and> Type f \<noteq> sfOpen) \<and>
        (\<forall>live r w fs ended. pipe_inv sid live r w True fs ended \<longrightarrow> pipe_inv sid live (r @ payload) w True (fs @ wire e) ended)) \<or>
      (\<exists>x. (if length payload > 0 then relayWrite io 0 ?data else (Inr (), [])) = (Inl x, []))"
  proof (cases "payload = []")
    case True
    then show ?thesis by (intro disjI1 exI [of _ "[]"]) simp
  next
    case False
    show ?thesis
    proof (cases rule: relayWrite_cases [of io 0 ?data])
      case (sent e)
      then show ?thesis using False pipe_inv_enter [of sid _ _ _ _ _ ?data] by (intro disjI1 exI [of _ "[e]"]) simp
    qed (use False in simp)
  qed
  have other: "\<exists>e. snd (relayWrite io 1 f) = map Sent e \<and> (e = [] \<or> (\<exists>b. e = [b] \<and> exchangeDecode b = Inr f))" for f
  proof (cases rule: relayWrite_cases [of io 1 f])
    case (sent e)
    then show ?thesis by (intro exI [of _ "[e]"]) simp
  qed simp
  show thesis
  proof (cases "\<exists>x. (if length payload > 0 then relayWrite io 0 ?data else (Inr (), [])) = (Inl x, [])")
    case True
    then obtain x where x: "(if length payload > 0 then relayWrite io 0 ?data else (Inr (), [])) = (Inl x, [])" by blast
    show thesis
      by (rule that [where ends = True and es = "[]" and gone = True])
        (use x pipe_inv_lose in \<open>auto simp: readTCP_def readLocalTCP_def removeTCP_drop removeLocalTCP_drop\<close>)
  next
    case False
    then obtain e where e: "(if length payload > 0 then relayWrite io 0 ?data else (Inr (), [])) = (Inr (), map Sent e)"
      "\<forall>f \<in> set (wire e). StreamID f = sid \<and> Type f \<noteq> sfOpen"
      "\<And>live r w fs ended. pipe_inv sid live r w True fs ended \<Longrightarrow> pipe_inv sid live (r @ payload) w True (fs @ wire e) ended"
      using first by blast
    have gsend: "foldl gateway_effect s (map Sent e) = s \<lparr> sy_Down := sy_Down s @ e \<rparr>" for s e
      by (induction e arbitrary: s) auto
    have csend: "foldl client_effect s (map Sent e) = s \<lparr> sy_Up := sy_Up s @ e \<rparr>" for s e
      by (induction e arbitrary: s) auto
    show thesis
    proof (cases err)
      case ReadMore
      show thesis
        by (rule that [where ends = False and es = e and gone = False]) (use ReadMore e in \<open>auto simp: readTCP_def readLocalTCP_def gsend csend drop_stream_def drop_local_def\<close>)
    next
      case ReadEOF
      obtain b where b: "snd (relayWrite io 1 (frame sfCloseWrite sid 0 0 [])) = map Sent b"
        "b = [] \<or> (\<exists>c. b = [c] \<and> exchangeDecode c = Inr (frame sfCloseWrite sid 0 0 []))" using other by blast
      have "pipe_inv sid live (r @ payload) w False (fs @ wire (e @ b)) ended" if "pipe_inv sid live r w True fs ended" for live r w fs ended
        using b(2) e(3) [OF that] pipe_inv_half_close [of sid live "r @ payload" w "fs @ wire e" ended "frame sfCloseWrite sid 0 0 []"]
        by (auto intro: pipe_inv_reader_ends)
      then show thesis
        by (intro that [where ends = True and es = "e @ b" and gone = False])
          (use ReadEOF e b in \<open>auto simp: readTCP_def readLocalTCP_def gsend csend drop_stream_def drop_local_def\<close>)
    next
      case ReadFailed
      obtain b where b: "snd (relayWrite io 1 (closeFrame sid)) = map Sent b"
        "b = [] \<or> (\<exists>c. b = [c] \<and> exchangeDecode c = Inr (closeFrame sid))" using other by blast
      have "pipe_inv sid live (r @ payload) w False (fs @ wire (e @ b)) ended" if "pipe_inv sid live r w True fs ended" for live r w fs ended
        using b(2) pipe_inv_reader_ends [OF e(3) [OF that]] pipe_inv_append [of sid "closeFrame sid" live "r @ payload" w False "fs @ wire e" ended]
        by (auto simp: neutral_def)
      then show thesis
        by (intro that [where ends = True and es = "e @ b" and gone = True])
          (use ReadFailed e b in \<open>auto simp: readTCP_def readLocalTCP_def gsend csend removeTCP_drop removeLocalTCP_drop\<close>)
    qed
  qed
qed

lemma gateway_round_eq: "gateway_round s (relay, effects, err) = foldl gateway_effect (s \<lparr> sy_Gateway := relay, sy_GatewayDone := err \<rparr>) effects"
  and client_round_eq: "client_round s (relay', effects, err) = foldl client_effect (s \<lparr> sy_Client := relay', sy_ClientDone := err \<rparr>) effects"
  by (simp_all add: gateway_round_def client_round_def)

lemma alike_append_list: "(\<And>f. f \<in> set gs \<Longrightarrow> foreign sid f) \<Longrightarrow> alike sid fs (fs @ gs)"
proof (induction gs rule: rev_induct)
  case (snoc g gs)
  then show ?case using alike_append [of sid g fs "fs @ gs"] by simp
qed simp

lemma no_open: "(\<And>f. f \<in> set gs \<Longrightarrow> Type f \<noteq> sfOpen) \<Longrightarrow>
    has_frame sfOpen sid (fs @ gs) = has_frame sfOpen sid fs \<and> opened_once sid (fs @ gs) = opened_once sid fs"
proof (induction gs rule: rev_induct)
  case (snoc g gs)
  then show ?case using opened_once_append [of sid "fs @ gs" g] by simp
qed simp

lemma drop_fields [simp]:
  "rs_NextID (drop_stream gone sid relay) = rs_NextID relay"
  "map_of (rs_TCP (drop_stream gone sid relay)) k = (if gone \<and> k = sid then None else map_of (rs_TCP relay) k)"
  "map_of (cr_TCP (drop_local gone sid relay')) k = (if gone \<and> k = sid then None else map_of (cr_TCP relay') k)"
  by (simp_all add: drop_stream_def drop_local_def AList.delete_conv')

lemma gateway_read_ok:
  assumes inv: "\<And>sid. stream_inv s sid" and run: "sy_GatewayDone s = None" "x \<in> set (sy_GatewayReaders s)"
  shows "step_ok s (gateway_round (s \<lparr> sy_GatewayRead := (sy_GatewayRead s)(x := sy_GatewayRead s x @ payload) \<rparr>)
      (readTCP io (sy_Gateway s) x payload err)) sid"
proof -
  obtain es ends gone where rr:
    "\<exists>effects. readTCP io (sy_Gateway s) x payload err = (drop_stream gone x (sy_Gateway s), effects, None) \<and>
       (\<forall>s. foldl gateway_effect s effects = s \<lparr> sy_Down := sy_Down s @ es,
          sy_GatewayReaders := (if ends then removeAll x (sy_GatewayReaders s) else sy_GatewayReaders s) \<rparr>)"
    and fs: "\<And>f. f \<in> set (wire es) \<Longrightarrow> StreamID f = x \<and> Type f \<noteq> sfOpen"
    and keep: "\<And>live r w fs ended. pipe_inv x live r w True fs ended \<Longrightarrow> pipe_inv x live (r @ payload) w (\<not> ends) (fs @ wire es) ended"
    by (rule reader_rounds [of io x payload err]) blast
  let ?s = "s \<lparr> sy_Gateway := drop_stream gone x (sy_Gateway s), sy_Down := sy_Down s @ es,
      sy_GatewayRead := (sy_GatewayRead s)(x := sy_GatewayRead s x @ payload),
      sy_GatewayReaders := (if ends then removeAll x (sy_GatewayReaders s) else sy_GatewayReaders s) \<rparr>"
  have r: "gateway_round (s \<lparr> sy_GatewayRead := (sy_GatewayRead s)(x := sy_GatewayRead s x @ payload) \<rparr>)
      (readTCP io (sy_Gateway s) x payload err) = ?s"
    using rr run(1) by (auto simp: gateway_round_eq)
  show ?thesis
  proof (cases "sid = x")
    case False
    have "untouched s ?s sid"
      using False fs unfolding untouched_def
      by (auto simp: in_client_def in_gateway_def issued_def foreign_def intro!: alike_append_list)
    then show ?thesis unfolding r by (rule untouched_ok [OF _ inv])
  next
    case True
    have w: "wire (sy_Down ?s) = wire (sy_Down s) @ wire es" by simp
    have opens: "pending ?s x = pending s x" "opened_once x (wire (sy_Down ?s)) = opened_once x (wire (sy_Down s))"
      using no_open [of "wire es" x "wire (sy_Down s)"] fs unfolding pending_def w by blast+
    have old: "down_inv s x" "up_inv s x" "life_inv s x" using inv by (simp_all add: stream_inv_def)
    have iss: "issued s x" using old(3) run(2) by (auto simp: life_inv_def down_unused_def unused_def)
    have "down_inv ?s x"
      using keep [OF old(1) [unfolded down_inv_def, simplified run(2) simp_thms]] run(2)
      unfolding down_inv_def opens by (cases ends) (simp_all add: in_client_def)
    moreover have "up_inv ?s x"
      by (rule up_inv_mono [OF old(2)]) (auto simp: in_gateway_def split: if_splits)
    moreover have "life_inv ?s x"
      using old(3) iss unfolding life_inv_def opens by (auto simp: in_client_def issued_def up_unused_def)
    moreover have "pipe_step (pipe_of s d x) (pipe_of ?s d x)" for d
    proof (cases d)
      case ToClient
      have "x \<notin> set (sy_ClientEnded s)" using old(1) run(2) by (auto simp: down_inv_def pipe_inv_def)
      then show ?thesis using enter [of "pipe_of s d x" payload] ToClient by simp
    qed (simp add: stay)
    ultimately show ?thesis unfolding r True step_ok_def stream_inv_def by blast
  qed
qed

lemma client_read_ok:
  assumes inv: "\<And>sid. stream_inv s sid" and run: "sy_ClientDone s = None" "x \<in> set (sy_ClientReaders s)"
  shows "step_ok s (client_round (s \<lparr> sy_ClientRead := (sy_ClientRead s)(x := sy_ClientRead s x @ payload) \<rparr>)
      (readLocalTCP io (sy_Client s) x payload err)) sid"
proof -
  obtain es ends gone where rr:
    "\<exists>effects. readLocalTCP io (sy_Client s) x payload err = (drop_local gone x (sy_Client s), effects, None) \<and>
       (\<forall>s. foldl client_effect s effects = s \<lparr> sy_Up := sy_Up s @ es,
          sy_ClientReaders := (if ends then removeAll x (sy_ClientReaders s) else sy_ClientReaders s) \<rparr>)"
    and fs: "\<And>f. f \<in> set (wire es) \<Longrightarrow> StreamID f = x \<and> Type f \<noteq> sfOpen"
    and keep: "\<And>live r w fs ended. pipe_inv x live r w True fs ended \<Longrightarrow> pipe_inv x live (r @ payload) w (\<not> ends) (fs @ wire es) ended"
    by (rule reader_rounds [of io x payload err]) blast
  let ?s = "s \<lparr> sy_Client := drop_local gone x (sy_Client s), sy_Up := sy_Up s @ es,
      sy_ClientRead := (sy_ClientRead s)(x := sy_ClientRead s x @ payload),
      sy_ClientReaders := (if ends then removeAll x (sy_ClientReaders s) else sy_ClientReaders s) \<rparr>"
  have r: "client_round (s \<lparr> sy_ClientRead := (sy_ClientRead s)(x := sy_ClientRead s x @ payload) \<rparr>)
      (readLocalTCP io (sy_Client s) x payload err) = ?s"
    using rr run(1) by (auto simp: client_round_eq)
  show ?thesis
  proof (cases "sid = x")
    case False
    have "untouched s ?s sid"
      using False fs unfolding untouched_def
      by (auto simp: in_client_def in_gateway_def issued_def foreign_def intro!: alike_append_list)
    then show ?thesis unfolding r by (rule untouched_ok [OF _ inv])
  next
    case True
    have old: "down_inv s x" "up_inv s x" "life_inv s x" using inv by (simp_all add: stream_inv_def)
    have iss: "issued s x" "\<not> pending s x" using old(3) run(2) by (auto simp: life_inv_def up_unused_def unused_def)
    have "up_inv ?s x"
      using keep [OF old(2) [unfolded up_inv_def, simplified run(2) simp_thms]] run(2)
      unfolding up_inv_def by (cases ends) (simp_all add: in_gateway_def)
    moreover have "down_inv ?s x"
      by (rule down_inv_mono [OF old(1)]) (auto simp: in_client_def pending_def split: if_splits)
    moreover have "life_inv ?s x"
      using old(3) iss unfolding life_inv_def by (auto simp: issued_def pending_def)
    moreover have "pipe_step (pipe_of s d x) (pipe_of ?s d x)" for d
    proof (cases d)
      case ToCluster
      have "x \<notin> set (sy_GatewayEnded s)" using old(2) run(2) by (auto simp: up_inv_def pipe_inv_def)
      then show ?thesis using enter [of "pipe_of s d x" payload] ToCluster by simp
    qed (simp add: stay)
    ultimately show ?thesis unfolding r True step_ok_def stream_inv_def by blast
  qed
qed

section \<open>Receivers\<close>

text \<open>Frames that a receiver sends are never data, a half-close or an open.\<close>

definition control :: "stream_frame list \<Rightarrow> bool" where
  "control gs \<longleftrightarrow> (\<forall>f \<in> set gs. Type f \<notin> {sfData, sfCloseWrite, sfOpen})"

lemma control_simps [simp]: "control []" "control (f # gs) \<longleftrightarrow> Type f \<notin> {sfData, sfCloseWrite, sfOpen} \<and> control gs"
  by (auto simp: control_def)

lemma alike_control: "control gs \<Longrightarrow> alike sid fs (fs @ gs)"
  by (rule alike_append_list) (auto simp: control_def foreign_def)

text \<open>What taking a frame from the wire does with it: nothing, its bytes are delivered, or the end is signalled.\<close>

definition delivers ::
  "stream_frame \<Rightarrow> bool \<Rightarrow> bool \<Rightarrow> (64 word \<Rightarrow> bytes) \<Rightarrow> (64 word \<Rightarrow> bytes) \<Rightarrow> 64 word list \<Rightarrow> 64 word list \<Rightarrow> bool" where
  "delivers f live live' w w' ended ended' \<longleftrightarrow>
     (w' = w \<and> ended' = ended \<and> (live' \<longrightarrow> Type f \<noteq> sfData)) \<or>
     (\<exists>bs rest. live \<and> Type f = sfData \<and> Payload f = bs @ rest \<and> w' = w(StreamID f := w (StreamID f) @ bs) \<and> ended' = ended \<and>
        (live' \<longrightarrow> rest = [])) \<or>
     (live \<and> Type f = sfCloseWrite \<and> w' = w \<and> ended' = StreamID f # ended)"

lemma delivers_other:
  "delivers f live live' w w' ended ended' \<Longrightarrow> StreamID f \<noteq> sid \<Longrightarrow> w' sid = w sid \<and> (sid \<in> set ended' \<longleftrightarrow> sid \<in> set ended)"
  by (auto simp: delivers_def)

lemma delivers_pipe:
  assumes "delivers f live live' w w' ended ended'" "StreamID f = sid" "live' \<Longrightarrow> live"
    "pipe_inv sid live r (w sid) reading (f # fs) (sid \<in> set ended)"
  shows "pipe_inv sid live' r (w' sid) reading fs (sid \<in> set ended')"
    "pipe_step \<lparr> pi_In = r, pi_Out = w sid, pi_End = sid \<in> set ended \<rparr> \<lparr> pi_In = r, pi_Out = w' sid, pi_End = sid \<in> set ended' \<rparr>"
proof -
  let ?p = "\<lparr> pi_In = r, pi_Out = w sid, pi_End = sid \<in> set ended \<rparr>"
  from assms(1) consider
      (plain) "w' = w" "ended' = ended" "live' \<Longrightarrow> Type f \<noteq> sfData"
    | (bytes) bs rest where "live" "Type f = sfData" "Payload f = bs @ rest" "w' = w(sid := w sid @ bs)" "ended' = ended" "live' \<Longrightarrow> rest = []"
    | (half) "live" "Type f = sfCloseWrite" "w' = w" "ended' = sid # ended"
    unfolding delivers_def assms(2) by blast
  then have "pipe_inv sid live' r (w' sid) reading fs (sid \<in> set ended') \<and>
      pipe_step ?p \<lparr> pi_In = r, pi_Out = w' sid, pi_End = sid \<in> set ended' \<rparr>"
  proof cases
    case plain
    have "pipe_inv sid live' r (w sid) reading fs (sid \<in> set ended)"
    proof (cases live')
      case True
      then show ?thesis using pipe_inv_pop_other [OF assms(4)] plain(3) assms(3) by blast
    qed (rule pipe_inv_drop [OF assms(4)])
    then show ?thesis using plain by (simp add: stay)
  next
    case bytes
    note l = pipe_inv_leave [OF assms(4) [simplified bytes(1)] bytes(2) assms(2) bytes(3,6)]
    obtain more where more: "r = w sid @ bs @ more" using l(2) by blast
    have "pipe_step ?p (?p \<lparr> pi_Out := pi_Out ?p @ bs \<rparr>)"
    proof (cases "bs = []")
      case False
      have "sid \<notin> set ended" by (rule l(3)) (use False in auto)
      then show ?thesis by (intro leave [where rest = more]) (use more in auto)
    qed (simp add: stay)
    then show ?thesis using l(1) bytes(4,5) by simp
  next
    case half
    note e = pipe_inv_end [OF assms(4) [simplified half(1)] half(2) assms(2)]
    show ?thesis using finish [of ?p] e half(3,4) by simp
  qed
  then show "pipe_inv sid live' r (w' sid) reading fs (sid \<in> set ended')"
    "pipe_step ?p \<lparr> pi_In = r, pi_Out = w' sid, pi_End = sid \<in> set ended' \<rparr>" by blast+
qed

lemma unused_receive:
  assumes "delivers f live live' w w' ended ended'" "unused sid r (w sid) reading (f # fs) (sid \<in> set ended)"
  shows "unused sid r (w' sid) reading fs (sid \<in> set ended')"
proof (cases "StreamID f = sid")
  case True
  then have "Type f \<noteq> sfData" "Type f \<noteq> sfCloseWrite" using assms(2) by (auto simp: unused_def)
  then have "w' = w" "ended' = ended" using assms(1) by (auto simp: delivers_def)
  then show ?thesis using assms(2) by (auto simp: unused_def)
next
  case False
  then show ?thesis using delivers_other [OF assms(1) False] assms(2) by (auto simp: unused_def)
qed

lemma gateway_receive_ok:
  assumes inv: "\<And>sid. stream_inv s sid"
    and up: "wire (sy_Up s) = f # wire (sy_Up s')"
    and down: "wire (sy_Down s') = wire (sy_Down s) @ gs" "control gs"
    and same: "sy_GatewayRead s' = sy_GatewayRead s" "sy_ClientWrote s' = sy_ClientWrote s" "sy_ClientRead s' = sy_ClientRead s"
      "sy_GatewayReaders s' = sy_GatewayReaders s" "sy_ClientReaders s' = sy_ClientReaders s" "sy_ClientEnded s' = sy_ClientEnded s"
      "sy_Client s' = sy_Client s" "sy_ClientDone s' = sy_ClientDone s" "rs_NextID (sy_Gateway s') = rs_NextID (sy_Gateway s)"
    and less: "\<And>sid. sy_GatewayDone s' = None \<and> in_gateway s' sid \<Longrightarrow> sy_GatewayDone s = None \<and> in_gateway s sid"
      "\<And>sid. in_gateway s' sid \<Longrightarrow> in_gateway s sid"
    and del: "delivers f (sy_GatewayDone s = None \<and> in_gateway s (StreamID f)) (sy_GatewayDone s' = None \<and> in_gateway s' (StreamID f))
      (sy_GatewayWrote s) (sy_GatewayWrote s') (sy_GatewayEnded s) (sy_GatewayEnded s')"
  shows "step_ok s s' sid"
proof -
  have old: "down_inv s sid" "up_inv s sid" "life_inv s sid" using inv by (simp_all add: stream_inv_def)
  have al: "alike sid (wire (sy_Down s)) (wire (sy_Down s'))" unfolding down(1) by (rule alike_control [OF down(2)])
  have keep: "in_client s' sid = in_client s sid" "pending s' sid = pending s sid" "issued s' sid = issued s sid"
    "opened_once sid (wire (sy_Down s')) = opened_once sid (wire (sy_Down s))"
    using al alike_pending [OF al] by (simp_all add: in_client_def issued_def same alike_def)
  have dn: "down_inv s' sid" by (rule down_inv_mono [OF old(1)]) (simp_all add: al same keep)
  have du: "down_unused s sid \<Longrightarrow> down_unused s' sid" unfolding down_unused_def same by (rule unused_alike [OF _ al])
  have uu: "up_unused s sid \<Longrightarrow> up_unused s' sid" unfolding up_unused_def same up by (rule unused_receive [OF del])
  have life: "life_inv s' sid" using old(3) du uu less(2) unfolding life_inv_def keep by blast
  have "up_inv s' sid \<and> pipe_step (pipe_of s ToCluster sid) (pipe_of s' ToCluster sid)"
  proof (cases "StreamID f = sid")
    case True
    show ?thesis
      using delivers_pipe [OF del [unfolded True] True less(1) old(2) [unfolded up_inv_def up]] unfolding up_inv_def pipe_of.simps same by simp
  next
    case False
    note o = delivers_other [OF del False]
    have "up_inv s' sid"
      by (rule up_inv_mono [OF old(2)]) (use o less(1) False in \<open>auto simp: same up foreign_def intro!: alike_pop\<close>)
    then show ?thesis using o same by (simp add: stay)
  qed
  moreover have "pipe_of s' ToClient sid = pipe_of s ToClient sid" using same by simp
  ultimately show ?thesis using dn life unfolding step_ok_def stream_inv_def by (metis direction.exhaust stay)
qed

lemma client_receive_ok:
  assumes inv: "\<And>sid. stream_inv s sid"
    and down: "wire (sy_Down s) = f # wire (sy_Down s')" "Type f \<noteq> sfOpen"
    and up: "wire (sy_Up s') = wire (sy_Up s) @ gs" "control gs"
    and same: "sy_GatewayRead s' = sy_GatewayRead s" "sy_GatewayWrote s' = sy_GatewayWrote s" "sy_ClientRead s' = sy_ClientRead s"
      "sy_GatewayReaders s' = sy_GatewayReaders s" "sy_ClientReaders s' = sy_ClientReaders s" "sy_GatewayEnded s' = sy_GatewayEnded s"
      "sy_Gateway s' = sy_Gateway s" "sy_GatewayDone s' = sy_GatewayDone s"
    and less: "sy_ClientDone s = None" "\<And>sid. in_client s' sid \<Longrightarrow> in_client s sid"
    and known: "Type f = sfData \<Longrightarrow> sy_ClientDone s' = None \<Longrightarrow> in_client s (StreamID f)"
    and del: "delivers f (in_client s (StreamID f)) (sy_ClientDone s' = None \<and> in_client s' (StreamID f))
      (sy_ClientWrote s) (sy_ClientWrote s') (sy_ClientEnded s) (sy_ClientEnded s')"
  shows "step_ok s s' sid"
proof -
  have old: "down_inv s sid" "up_inv s sid" "life_inv s sid" using inv by (simp_all add: stream_inv_def)
  have al: "alike sid (wire (sy_Up s)) (wire (sy_Up s'))" unfolding up(1) by (rule alike_control [OF up(2)])
  have pend: "pending s' k = pending s k" for k using down by (simp add: pending_def)
  have keep: "in_gateway s' sid = in_gateway s sid" "issued s' sid = issued s sid"
    by (simp_all add: in_gateway_def issued_def same)
  have once: "opened_once sid (wire (sy_Down s)) \<Longrightarrow> opened_once sid (wire (sy_Down s'))" using down by simp
  let ?live = "\<lambda>s k. sy_ClientDone s = None \<and> (in_client s k \<or> pending s k)"
  have "in_client s (StreamID f) \<Longrightarrow> \<not> pending s (StreamID f)" using inv by (simp add: stream_inv_def life_inv_def)
  then have del': "delivers f (?live s (StreamID f)) (?live s' (StreamID f)) (sy_ClientWrote s) (sy_ClientWrote s') (sy_ClientEnded s) (sy_ClientEnded s')"
    using del less(1) known pend unfolding delivers_def by blast
  have live: "?live s' k \<Longrightarrow> ?live s k" for k using less pend by blast
  have upi: "up_inv s' sid" by (rule up_inv_mono [OF old(2)]) (simp_all add: al same keep)
  have uu: "up_unused s sid \<Longrightarrow> up_unused s' sid" unfolding up_unused_def same by (rule unused_alike [OF _ al])
  have du: "down_unused s sid \<Longrightarrow> down_unused s' sid" unfolding down_unused_def same down by (rule unused_receive [OF del])
  have life: "life_inv s' sid" using old(3) du uu less(2) once unfolding life_inv_def keep pend by blast
  have "down_inv s' sid \<and> pipe_step (pipe_of s ToClient sid) (pipe_of s' ToClient sid)"
  proof (cases "StreamID f = sid")
    case True
    show ?thesis
      using delivers_pipe [OF del' [unfolded True] True live old(1) [unfolded down_inv_def down]] unfolding down_inv_def pipe_of.simps same by simp
  next
    case False
    note o = delivers_other [OF del' False]
    have "down_inv s' sid"
      by (rule down_inv_mono [OF old(1)]) (use o live False in \<open>auto simp: same down foreign_def intro!: alike_pop\<close>)
    then show ?thesis using o same by (simp add: stay)
  qed
  moreover have "pipe_of s' ToCluster sid = pipe_of s ToCluster sid" using same by simp
  ultimately show ?thesis using upi life unfolding step_ok_def stream_inv_def by (metis direction.exhaust stay)
qed

lemma client_open_ok:
  assumes inv: "\<And>sid. stream_inv s sid"
    and down: "wire (sy_Down s) = f # wire (sy_Down s')" "Type f = sfOpen"
    and same: "sy_GatewayRead s' = sy_GatewayRead s" "sy_GatewayWrote s' = sy_GatewayWrote s" "sy_ClientRead s' = sy_ClientRead s"
      "sy_GatewayReaders s' = sy_GatewayReaders s" "sy_GatewayEnded s' = sy_GatewayEnded s" "sy_ClientWrote s' = sy_ClientWrote s"
      "sy_Gateway s' = sy_Gateway s" "sy_GatewayDone s' = sy_GatewayDone s" "sy_ClientEnded s' = sy_ClientEnded s"
    and up: "wire (sy_Up s') = wire (sy_Up s) @ gs" "control gs"
    and run: "sy_ClientDone s = None"
    and client: "\<And>sid. in_client s' sid \<Longrightarrow> in_client s sid \<or> sid = StreamID f"
      "set (sy_ClientReaders s') \<subseteq> insert (StreamID f) (set (sy_ClientReaders s))"
  shows "step_ok s s' sid"
proof -
  have old: "down_inv s sid" "up_inv s sid" "life_inv s sid" using inv by (simp_all add: stream_inv_def)
  have keep: "in_gateway s' sid = in_gateway s sid" "issued s' sid = issued s sid"
    by (simp_all add: in_gateway_def issued_def same)
  have al: "alike sid (wire (sy_Up s)) (wire (sy_Up s'))" unfolding up(1) by (rule alike_control [OF up(2)])
  have pipes: "pipe_of s' d sid = pipe_of s d sid" for d using same by (cases d) simp_all
  have "stream_inv s' sid"
  proof (cases "sid = StreamID f")
    case True
    have p: "pending s sid" "\<not> pending s' sid" using down True old(3) by (auto simp: pending_def life_inv_def)
    then have i: "issued s sid" "up_unused s sid" using old(3) by (auto simp: life_inv_def)
    have "unused sid (sy_ClientRead s' sid) (sy_GatewayWrote s' sid) False (wire (sy_Up s')) (sid \<in> set (sy_GatewayEnded s'))"
      using unused_alike [OF i(2) [unfolded up_unused_def] al, of False] unfolding same by simp
    then have "up_inv s' sid" unfolding up_inv_def by (rule pipe_inv_unused)
    moreover have "down_inv s' sid"
      unfolding down_inv_def same
      by (rule pipe_inv_pop_other [OF old(1) [unfolded down_inv_def down]]) (use run p down in auto)
    moreover have "life_inv s' sid" using old(3) i(1) p(2) down unfolding life_inv_def keep by simp
    ultimately show ?thesis by (simp add: stream_inv_def)
  next
    case False
    have "untouched s s' sid"
      using False client run down(2) keep al unfolding untouched_def same down(1)
      by (auto simp: foreign_def intro!: alike_pop)
    then show ?thesis by (rule untouched_inv [OF _ inv])
  qed
  then show ?thesis by (simp add: step_ok_def pipes stay)
qed

lemma sent_frames:
  obtains es where "snd (relayWrite io n f) = map Sent es" "set (wire es) \<subseteq> {f}"
proof (cases rule: relayWrite_cases [of io n f])
  case (sent e)
  then show thesis using that [of "[e]"] by simp
next
  case (failed err)
  then show thesis using that [of "[]"] by simp
qed

lemma foldl_sent:
  "foldl gateway_effect s (map Sent es) = s \<lparr> sy_Down := sy_Down s @ es \<rparr>"
  "foldl client_effect s (map Sent es) = s \<lparr> sy_Up := sy_Up s @ es \<rparr>"
  by (induction es arbitrary: s) simp_all

lemma control_subset: "set gs \<subseteq> {f} \<Longrightarrow> Type f \<notin> {sfData, sfCloseWrite, sfOpen} \<Longrightarrow> control gs"
  by (auto simp: control_def)

lemma write_all_result:
  obtains err bs n rest where "writeLocal script 0 payload = (err, bs, n)" "payload = bs @ rest" "err = None \<Longrightarrow> rest = []"
  using writeLocal_bounds [where script = script and calls = 0 and payload = payload] by (cases "writeLocal script 0 payload") auto

lemma gateway_data_ok:
  assumes inv: "\<And>sid. stream_inv s sid" and run: "sy_GatewayDone s = None"
    and e: "sy_Up s = e # rest" "exchangeDecode e = Inr f" "Type f = sfData"
  shows "step_ok s (gateway_round (s \<lparr> sy_Up := rest \<rparr>) (readClient io (sy_Gateway s) e)) sid"
proof (cases "map_of (rs_TCP (sy_Gateway s)) (StreamID f)")
  case None
  then have r: "readClient io (sy_Gateway s) e = (sy_Gateway s, [], Some ''exchange data references an unknown TCP stream'')"
    using e by (simp add: readClient_def Let_def)
  show ?thesis unfolding r gateway_round_eq
    by (rule gateway_receive_ok [where f = f and gs = "[]", OF inv]) (use e run in \<open>simp_all add: delivers_def in_gateway_def\<close>)
next
  case (Some x)
  obtain err bs n more where w: "writeLocal (io_script io) 0 (Payload f) = (err, bs, n)" "Payload f = bs @ more" "err = None \<Longrightarrow> more = []"
    by (rule write_all_result [of "io_script io" "Payload f"]) blast
  show ?thesis
  proof (cases err)
    case None
    have r: "readClient io (sy_Gateway s) e = (sy_Gateway s, [Wrote (StreamID f) bs], None)"
      using e Some w None by (simp add: readClient_def Let_def)
    show ?thesis unfolding r gateway_round_eq
      by (rule gateway_receive_ok [where f = f and gs = "[]", OF inv]) (use e run w None Some in \<open>simp_all add: delivers_def in_gateway_def\<close>)
  next
    case (Some er)
    obtain es where es: "snd (relayWrite io 0 (closeFrame (StreamID f))) = map Sent es" "set (wire es) \<subseteq> {closeFrame (StreamID f)}"
      by (rule sent_frames)
    have r: "readClient io (sy_Gateway s) e =
        (drop_stream True (StreamID f) (sy_Gateway s), Wrote (StreamID f) bs # ClosedConn (StreamID f) # map Sent es, None)"
      using e w Some \<open>map_of (rs_TCP (sy_Gateway s)) (StreamID f) = Some x\<close> es(1) by (simp add: readClient_def Let_def removeTCP_drop)
    have "control (wire es)" by (rule control_subset [OF es(2)]) simp
    then show ?thesis unfolding r gateway_round_eq
      by (intro gateway_receive_ok [where f = f and gs = "wire es", OF inv])
        (use e run w(2) \<open>map_of (rs_TCP (sy_Gateway s)) (StreamID f) = Some x\<close> in
          \<open>simp_all add: foldl_sent delivers_def in_gateway_def split: if_splits, intro disjI2 exI [of _ bs], simp\<close>)
  qed
qed

lemma gateway_plain_ok:
  assumes inv: "\<And>sid. stream_inv s sid" and run: "sy_GatewayDone s = None"
    and e: "sy_Up s = e # rest" "exchangeDecode e = Inr f" "Type f \<noteq> sfData"
    and r: "readClient io (sy_Gateway s) e = (relay, effects, err)"
      "foldl gateway_effect (s \<lparr> sy_Up := rest, sy_Gateway := relay, sy_GatewayDone := err \<rparr>) effects =
       s \<lparr> sy_Up := rest, sy_Gateway := relay, sy_GatewayDone := err \<rparr>"
    and relay: "rs_NextID relay = rs_NextID (sy_Gateway s)"
      "\<And>k. map_of (rs_TCP relay) k \<noteq> None \<Longrightarrow> map_of (rs_TCP (sy_Gateway s)) k \<noteq> None"
  shows "step_ok s (gateway_round (s \<lparr> sy_Up := rest \<rparr>) (readClient io (sy_Gateway s) e)) sid"
proof -
  have c: "gateway_round (s \<lparr> sy_Up := rest \<rparr>) (relay, effects, err) = s \<lparr> sy_Up := rest, sy_Gateway := relay, sy_GatewayDone := err \<rparr>"
    using r(2) by (simp add: gateway_round_eq)
  show ?thesis unfolding r(1) c
    by (rule gateway_receive_ok [where f = f and gs = "[]", OF inv]) (use e run relay in \<open>simp_all add: delivers_def in_gateway_def\<close>)
qed

lemma removeStream_fields:
  "removeStream relay sid = (removed, relay', effects) \<Longrightarrow> rs_NextID relay' = rs_NextID relay \<and>
     (map_of (rs_TCP relay') k \<noteq> None \<longrightarrow> map_of (rs_TCP relay) k \<noteq> None) \<and> set effects \<subseteq> range ClosedConn"
  by (auto simp: removeStream_def removeTCP_drop split: option.splits if_splits)

lemma udpAssociationByID_fields:
  "udpAssociationByID relay now sid = (found, relay') \<Longrightarrow> rs_NextID relay' = rs_NextID relay \<and> rs_TCP relay' = rs_TCP relay"
  by (auto simp: udpAssociationByID_def Let_def split: option.splits)

lemma silent_effects:
  "set effects \<subseteq> range ClosedConn \<union> range (case_prod WroteDatagram) \<Longrightarrow> foldl gateway_effect s effects = s"
  "set effects \<subseteq> range ClosedConn \<union> range (case_prod WroteDatagram) \<Longrightarrow> foldl client_effect s effects = s"
  by (induction effects arbitrary: s) auto

lemma gateway_receive:
  assumes inv: "\<And>sid. stream_inv s sid" and run: "sy_GatewayDone s = None" and e: "sy_Up s = e # rest"
  shows "step_ok s (gateway_round (s \<lparr> sy_Up := rest \<rparr>) (readClient io (sy_Gateway s) e)) sid"
proof (cases "exchangeDecode e")
  case (Inl err)
  have "step_ok s (s \<lparr> sy_Up := rest, sy_GatewayDone := Some err \<rparr>) sid"
    by (rule untouched_ok [OF _ inv]) (use Inl e in \<open>auto simp: untouched_def in_client_def in_gateway_def issued_def\<close>)
  then show ?thesis using Inl by (simp add: readClient_def gateway_round_eq)
next
  case (Inr f)
  note plain = gateway_plain_ok [OF inv run e Inr]
  consider (data) "Type f = sfData" | (half) "Type f = sfCloseWrite" "in_gateway s (StreamID f)" "io_halfClose io"
    | (close) "Type f = sfClose" | (datagram) "Type f = sfDatagram"
    | (rest) "Type f \<noteq> sfData" "Type f \<noteq> sfClose" "Type f \<noteq> sfDatagram" "\<not> (Type f = sfCloseWrite \<and> in_gateway s (StreamID f) \<and> io_halfClose io)"
    by blast
  then show ?thesis
  proof cases
    case data
    show ?thesis by (rule gateway_data_ok [OF inv run e Inr data])
  next
    case half
    then have r: "readClient io (sy_Gateway s) e = (sy_Gateway s, [HalfClosed (StreamID f)], None)"
      using Inr by (auto simp: readClient_def Let_def in_gateway_def)
    show ?thesis unfolding r gateway_round_eq
      by (rule gateway_receive_ok [where f = f and gs = "[]", OF inv]) (use e Inr run half in \<open>simp_all add: delivers_def in_gateway_def\<close>)
  next
    case close
    obtain removed relay effects where rm: "removeStream (sy_Gateway s) (StreamID f) = (removed, relay, effects)" by (metis prod_cases3)
    note rf = removeStream_fields [OF rm]
    show ?thesis
      by (rule plain [where relay = relay and effects = effects and err = "if removed then None else Some ''exchange close references an unknown stream''"])
        (use close rm Inr rf in \<open>auto simp: readClient_def Let_def intro!: silent_effects\<close>)
  next
    case datagram
    obtain found relay where u: "udpAssociationByID (sy_Gateway s) (io_now io) (StreamID f) = (found, relay)" by fastforce
    have "\<exists>effects err. readClient io (sy_Gateway s) e = (relay, effects, err) \<and> set effects \<subseteq> range (case_prod WroteDatagram)"
      using u datagram Inr by (cases found) (auto simp: readClient_def Let_def split: option.splits)
    then obtain effects err where r: "readClient io (sy_Gateway s) e = (relay, effects, err)" "set effects \<subseteq> range (case_prod WroteDatagram)"
      by blast
    have t: "Type f \<noteq> sfData" using datagram by simp
    show ?thesis
      by (rule plain [OF t r(1)]) (use r(2) udpAssociationByID_fields [OF u] in \<open>auto intro!: silent_effects\<close>)
  next
    case rest
    then have "\<exists>effects err. readClient io (sy_Gateway s) e = (sy_Gateway s, effects, err) \<and> set effects \<subseteq> range ClosedConn"
      using Inr by (auto simp: readClient_def Let_def in_gateway_def split: option.splits)
    then obtain effects err where r: "readClient io (sy_Gateway s) e = (sy_Gateway s, effects, err)" "set effects \<subseteq> range ClosedConn"
      by blast
    show ?thesis by (rule plain [OF rest(1) r(1)]) (use r(2) in \<open>auto intro!: silent_effects\<close>)
  qed
qed

lemma client_data_ok:
  assumes inv: "\<And>sid. stream_inv s sid" and run: "sy_ClientDone s = None"
    and e: "sy_Down s = e # rest" "exchangeDecode e = Inr f" "Type f = sfData"
  shows "step_ok s (client_round (s \<lparr> sy_Down := rest \<rparr>) (Run ul io (sy_Client s) e)) sid"
proof (cases "map_of (cr_TCP (sy_Client s)) (StreamID f)")
  case None
  then have r: "Run ul io (sy_Client s) e = (sy_Client s, [], Some ''gateway referenced an unknown local TCP stream'')"
    using e by (simp add: Run_def Let_def)
  show ?thesis unfolding r client_round_eq
    by (rule client_receive_ok [where f = f and gs = "[]", OF inv]) (use e run in \<open>simp_all add: delivers_def in_client_def\<close>)
next
  case (Some x)
  obtain err bs n more where w: "writeLocal (io_script io) 0 (Payload f) = (err, bs, n)" "Payload f = bs @ more" "err = None \<Longrightarrow> more = []"
    by (rule write_all_result [of "io_script io" "Payload f"]) blast
  show ?thesis
  proof (cases err)
    case None
    have r: "Run ul io (sy_Client s) e = (sy_Client s, [Wrote (StreamID f) bs], None)"
      using e Some w None by (simp add: Run_def Let_def)
    show ?thesis unfolding r client_round_eq
      by (rule client_receive_ok [where f = f and gs = "[]", OF inv]) (use e run w None Some in \<open>simp_all add: delivers_def in_client_def\<close>)
  next
    case (Some er)
    obtain es where es: "snd (relayWrite io 0 (closeFrame (StreamID f))) = map Sent es" "set (wire es) \<subseteq> {closeFrame (StreamID f)}"
      by (rule sent_frames)
    have r: "Run ul io (sy_Client s) e =
        (drop_local True (StreamID f) (sy_Client s), Wrote (StreamID f) bs # ClosedConn (StreamID f) # map Sent es, None)"
      using e w Some \<open>map_of (cr_TCP (sy_Client s)) (StreamID f) = Some x\<close> es(1)
      by (simp add: Run_def Let_def removeLocalTCP_drop)
    have "control (wire es)" by (rule control_subset [OF es(2)]) simp
    then show ?thesis unfolding r client_round_eq
      by (intro client_receive_ok [where f = f and gs = "wire es", OF inv])
        (use e run w(2) \<open>map_of (cr_TCP (sy_Client s)) (StreamID f) = Some x\<close> in
          \<open>simp_all add: foldl_sent delivers_def in_client_def split: if_splits, intro disjI2 exI [of _ bs], simp\<close>)
  qed
qed

text \<open>A round of the client on a frame that is neither data nor an open and that does not end the stream.\<close>

lemma client_plain_ok:
  assumes inv: "\<And>sid. stream_inv s sid" and run: "sy_ClientDone s = None"
    and e: "sy_Down s = e # rest" "exchangeDecode e = Inr f" "Type f \<noteq> sfData" "Type f \<noteq> sfOpen"
    and r: "Run ul io (sy_Client s) e = (relay, effects @ map Sent es, err)" "control (wire es)"
      "set effects \<subseteq> range ClosedConn \<union> range (case_prod WroteDatagram)"
    and relay: "\<And>k. map_of (cr_TCP relay) k \<noteq> None \<Longrightarrow> map_of (cr_TCP (sy_Client s)) k \<noteq> None"
  shows "step_ok s (client_round (s \<lparr> sy_Down := rest \<rparr>) (Run ul io (sy_Client s) e)) sid"
  unfolding r(1) client_round_eq foldl_append silent_effects(2) [OF r(3)] foldl_sent
  by (rule client_receive_ok [where f = f and gs = "wire es", OF inv]) (use e run relay r(2) in \<open>simp_all add: delivers_def in_client_def\<close>)

lemma removeAny_fields:
  "removeAny relay sid = (removed, relay', effects) \<Longrightarrow>
     (map_of (cr_TCP relay') k \<noteq> None \<longrightarrow> map_of (cr_TCP relay) k \<noteq> None) \<and> set effects \<subseteq> range ClosedConn"
  by (auto simp: removeAny_def removeLocalTCP_drop removeLocalUDP_def split: option.splits if_splits)

lemma writeDatagram_fields:
  "fst (writeDatagram io relay f port target []) = relay"
  "set (fst (snd (writeDatagram io relay f port target []))) \<subseteq> range (case_prod WroteDatagram)"
  by (auto simp: writeDatagram_def split: option.splits)

lemma datagram_parts:
  "cr_TCP (fst (datagram ul io relay f)) = cr_TCP relay"
  "set (fst (snd (datagram ul io relay f))) \<subseteq> range (case_prod WroteDatagram) \<or>
   fst (snd (datagram ul io relay f)) = snd (relayWrite io 0 (closeFrame (StreamID f)))"
  using writeDatagram_fields by (simp_all add: datagram_def Let_def split: sum.split option.split)

lemma datagram_fields:
  "\<exists>relay' effects es err. datagram ul io relay f = (relay', effects @ map Sent es, err) \<and> cr_TCP relay' = cr_TCP relay \<and>
     set effects \<subseteq> range (case_prod WroteDatagram) \<and> control (wire es)"
proof -
  obtain relay' effects err where d: "datagram ul io relay f = (relay', effects, err)" by (metis prod_cases3)
  obtain es where es: "snd (relayWrite io 0 (closeFrame (StreamID f))) = map Sent es" "set (wire es) \<subseteq> {closeFrame (StreamID f)}"
    by (rule sent_frames)
  have c: "control (wire es)" by (rule control_subset [OF es(2)]) simp
  have t: "cr_TCP relay' = cr_TCP relay" using datagram_parts(1) [of ul io relay f] d by simp
  from datagram_parts(2) [of ul io relay f] d es(1) have "set effects \<subseteq> range (case_prod WroteDatagram) \<or> effects = map Sent es" by simp
  then show ?thesis
  proof
    assume "set effects \<subseteq> range (case_prod WroteDatagram)"
    then show ?thesis using d t by (intro exI [of _ relay'] exI [of _ effects] exI [of _ "[]"]) simp
  next
    assume "effects = map Sent es"
    then show ?thesis using d t c by (intro exI [of _ relay'] exI [of _ "[]"] exI [of _ es]) simp
  qed
qed

lemma openTCP_parts:
  obtains (other) relay' es err where "openTCP ul io relay f = (relay', map Sent es, err)" "relay' = relay" "control (wire es)"
  | (opened) target where "openTCP ul io relay f = (relay \<lparr> cr_TCP := AList.update (StreamID f) target (cr_TCP relay) \<rparr>, [ReaderStarts (StreamID f)], None)"
proof -
  obtain es where es: "snd (relayWrite io 0 (closeFrame (StreamID f))) = map Sent es" "set (wire es) \<subseteq> {closeFrame (StreamID f)}"
    by (rule sent_frames)
  have c: "control (wire es)" by (rule control_subset [OF es(2)]) simp
  have "(\<exists>err. openTCP ul io relay f = (relay, map Sent [], err)) \<or> (\<exists>err. openTCP ul io relay f = (relay, map Sent es, err)) \<or>
      (\<exists>target. openTCP ul io relay f = (relay \<lparr> cr_TCP := AList.update (StreamID f) target (cr_TCP relay) \<rparr>, [ReaderStarts (StreamID f)], None))"
    using es(1) by (auto simp: openTCP_def Let_def split: sum.splits option.splits)
  then show thesis using other [OF _ refl c] other [OF _ refl, of "[]"] opened by auto
qed

lemma client_receive:
  assumes inv: "\<And>sid. stream_inv s sid" and run: "sy_ClientDone s = None" and e: "sy_Down s = e # rest"
  shows "step_ok s (client_round (s \<lparr> sy_Down := rest \<rparr>) (Run ul io (sy_Client s) e)) sid"
proof (cases "exchangeDecode e")
  case (Inl err)
  have "step_ok s (s \<lparr> sy_Down := rest, sy_ClientDone := Some err \<rparr>) sid"
    by (rule untouched_ok [OF _ inv]) (use Inl e in \<open>auto simp: untouched_def in_client_def in_gateway_def issued_def\<close>)
  then show ?thesis using Inl by (simp add: Run_def client_round_eq)
next
  case (Inr f)
  note plain = client_plain_ok [OF inv run e Inr]
  consider (data) "Type f = sfData" | (opens) "Type f = sfOpen" | (half) "Type f = sfCloseWrite" "in_client s (StreamID f)" "io_halfClose io"
    | (close) "Type f = sfClose" | (datagram) "Type f = sfDatagram"
    | (rest) "Type f \<noteq> sfData" "Type f \<noteq> sfOpen" "Type f \<noteq> sfClose" "Type f \<noteq> sfDatagram"
        "\<not> (Type f = sfCloseWrite \<and> in_client s (StreamID f) \<and> io_halfClose io)"
    by blast
  then show ?thesis
  proof cases
    case data
    show ?thesis by (rule client_data_ok [OF inv run e Inr data])
  next
    case opens
    have r: "Run ul io (sy_Client s) e = openTCP ul io (sy_Client s) f" using Inr opens by (simp add: Run_def Let_def)
    show ?thesis unfolding r
    proof (cases rule: openTCP_parts [of ul io "sy_Client s" f])
      case (other relay' es err)
      show "step_ok s (client_round (s \<lparr> sy_Down := rest \<rparr>) (openTCP ul io (sy_Client s) f)) sid"
        unfolding other(1,2) client_round_eq foldl_sent
        by (rule client_open_ok [where f = f and gs = "wire es", OF inv]) (use e Inr run opens other in \<open>auto simp: in_client_def\<close>)
    next
      case (opened target)
      show "step_ok s (client_round (s \<lparr> sy_Down := rest \<rparr>) (openTCP ul io (sy_Client s) f)) sid"
        unfolding opened client_round_eq
        by (rule client_open_ok [where f = f and gs = "[]", OF inv])
          (use e Inr run opens in \<open>auto simp: in_client_def AList.update_conv' split: if_splits\<close>)
    qed
  next
    case half
    then have r: "Run ul io (sy_Client s) e = (sy_Client s, [HalfClosed (StreamID f)], None)"
      using Inr by (auto simp: Run_def Let_def in_client_def)
    show ?thesis unfolding r client_round_eq
      by (rule client_receive_ok [where f = f and gs = "[]", OF inv]) (use e Inr run half in \<open>simp_all add: delivers_def in_client_def\<close>)
  next
    case close
    obtain removed relay effects where rm: "removeAny (sy_Client s) (StreamID f) = (removed, relay, effects)" by (metis prod_cases3)
    show ?thesis
      by (rule plain [where relay = relay and effects = effects and es = "[]" and
              err = "if removed then None else Some ''gateway referenced an unknown local reverse stream''"])
        (use close rm Inr removeAny_fields [OF rm] in \<open>auto simp: Run_def Let_def\<close>)
  next
    case datagram
    obtain relay' effects es err where d: "datagram ul io (sy_Client s) f = (relay', effects @ map Sent es, err)"
      "cr_TCP relay' = cr_TCP (sy_Client s)" "set effects \<subseteq> range (case_prod WroteDatagram)" "control (wire es)"
      using datagram_fields [of ul io "sy_Client s" f] by blast
    have r: "Run ul io (sy_Client s) e = (relay', effects @ map Sent es, err)"
      using d(1) datagram Inr by (simp add: Run_def Let_def)
    show ?thesis by (rule plain [OF _ _ r d(4)]) (use d datagram in auto)
  next
    case rest
    then have "\<exists>effects err. Run ul io (sy_Client s) e = (sy_Client s, effects @ map Sent [], err) \<and> set effects \<subseteq> range ClosedConn"
      using Inr by (auto simp: Run_def Let_def in_client_def split: option.splits)
    then obtain effects err where r: "Run ul io (sy_Client s) e = (sy_Client s, effects @ map Sent [], err)" "set effects \<subseteq> range ClosedConn"
      by blast
    show ?thesis by (rule plain [OF rest(1,2) r(1)]) (use r(2) in auto)
  qed
qed

section \<open>Rounds that move no bytes of streams\<close>

lemma closeExpired_sends: "\<exists>es err. closeExpired io n sids = (map Sent es, err) \<and> control (wire es)"
proof (induction sids arbitrary: n)
  case (Cons sid sids)
  obtain es err where es: "closeExpired io (n + 1) sids = (map Sent es, err)" "control (wire es)" using Cons by blast
  show ?case
  proof (cases rule: relayWrite_cases [of io n "closeFrame sid"])
    case (sent e)
    then show ?thesis using es by (intro exI [of _ "e # es"]) simp
  qed (auto intro: exI [of _ "[]"])
qed (auto intro: exI [of _ "[]"])

lemma quiet_ok:
  assumes inv: "\<And>sid. stream_inv s sid"
    and wires: "wire (sy_Down s') = wire (sy_Down s) @ gs" "control gs" "wire (sy_Up s') = wire (sy_Up s) @ hs" "control hs"
    and same: "sy_GatewayRead s' = sy_GatewayRead s" "sy_GatewayWrote s' = sy_GatewayWrote s" "sy_ClientRead s' = sy_ClientRead s"
      "sy_GatewayReaders s' = sy_GatewayReaders s" "sy_ClientReaders s' = sy_ClientReaders s" "sy_GatewayEnded s' = sy_GatewayEnded s"
      "sy_ClientWrote s' = sy_ClientWrote s" "sy_ClientEnded s' = sy_ClientEnded s"
    and tables: "cr_TCP (sy_Client s') = cr_TCP (sy_Client s)" "rs_TCP (sy_Gateway s') = rs_TCP (sy_Gateway s)"
      "rs_NextID (sy_Gateway s) \<le> rs_NextID (sy_Gateway s')"
    and runs: "sy_GatewayDone s' = None \<Longrightarrow> sy_GatewayDone s = None" "sy_ClientDone s' = None \<Longrightarrow> sy_ClientDone s = None"
  shows "step_ok s s' sid"
  by (rule untouched_ok [OF _ inv])
    (use tables(3) runs in \<open>auto simp: untouched_def same wires in_client_def in_gateway_def issued_def tables alike_control intro: order_trans\<close>)

lemma udpAssociation_fields:
  assumes "unat (rs_NextID relay) + 1 < 2 ^ 64" "udpAssociation relay now index port remote key = (sid, relay')"
  shows "rs_TCP relay' = rs_TCP relay" "rs_NextID relay \<le> rs_NextID relay'" "unat (rs_NextID relay') \<le> unat (rs_NextID relay) + 1"
  using assms(2) nextStreamID_fresh [OF assms(1)] by (auto simp: udpAssociation_def split: option.splits)

lemma gateway_datagram_ok:
  assumes inv: "\<And>sid. stream_inv s sid" and run: "sy_GatewayDone s = None" and small: "unat (rs_NextID (sy_Gateway s)) + 1 < 2 ^ 64"
  shows "step_ok s (gateway_round s (readUDP io (sy_Gateway s) index port remote payload)) sid"
proof (cases "payload = []")
  case True
  then show ?thesis
    using run by (simp add: readUDP_def gateway_round_eq) (rule untouched_ok [OF _ inv], auto simp: untouched_def in_client_def in_gateway_def issued_def)
next
  case False
  let ?key = "FormatUint index @ ''/'' @ remote"
  obtain x relay where u: "udpAssociation (sy_Gateway s) (io_now io) index port remote ?key = (x, relay)" by fastforce
  let ?f = "frame sfDatagram x (word_of_int (pt_ServicePort port)) ProtocolUDP payload"
  obtain es where es: "snd (relayWrite io 0 ?f) = map Sent es" "set (wire es) \<subseteq> {?f}" by (rule sent_frames)
  have c: "control (wire es)" by (rule control_subset [OF es(2)]) simp
  obtain err where r: "readUDP io (sy_Gateway s) index port remote payload = (relay, map Sent es, err)"
    using False u es(1) by (cases "relayWrite io 0 ?f"; cases "fst (relayWrite io 0 ?f)") (auto simp: readUDP_def)
  show ?thesis unfolding r gateway_round_eq foldl_sent
    by (rule quiet_ok [where gs = "wire es" and hs = "[]", OF inv]) (use c run udpAssociation_fields [OF small u] in simp_all)
qed

lemma gateway_reap_ok:
  assumes inv: "\<And>sid. stream_inv s sid" and run: "sy_GatewayDone s = None"
  shows "step_ok s (gateway_round s (reapUDP io (sy_Gateway s))) sid"
proof -
  let ?g = "sy_Gateway s"
  obtain es err where c: "closeExpired io 0 (map fst (filter (\<lambda>(_, association). \<not> ua_LastSeen association > io_now io - rs_Idle ?g) (rs_UDP ?g)))
      = (map Sent es, err)" "control (wire es)" using closeExpired_sends by blast
  obtain relay where r: "reapUDP io ?g = (relay, map Sent es, err)" "rs_TCP relay = rs_TCP ?g" "rs_NextID relay = rs_NextID ?g"
    using c(1) by (simp add: reapUDP_def Let_def)
  show ?thesis unfolding r(1) gateway_round_eq foldl_sent
    by (rule quiet_ok [where gs = "wire es" and hs = "[]", OF inv]) (use c(2) run r in simp_all)
qed

lemma client_datagram_ok:
  assumes inv: "\<And>sid. stream_inv s sid" and run: "sy_ClientDone s = None"
  shows "step_ok s (client_round s (readLocalUDP io (sy_Client s) x target received)) sid"
proof -
  have rm: "cr_TCP (fst (snd (removeLocalUDP relay k))) = cr_TCP relay" "set (snd (snd (removeLocalUDP relay k))) \<subseteq> range ClosedConn" for relay k
    by (auto simp: removeLocalUDP_def split: option.splits)
  obtain rem relay closed where u: "removeLocalUDP (sy_Client s) x = (rem, relay, closed)" by (metis prod_cases3)
  let ?f = "frame sfDatagram x (case encodedReverseServicePort (tg_ServicePort target) of Inr p \<Rightarrow> p | _ \<Rightarrow> 0) ProtocolUDP (the received)"
  obtain es where es: "snd (relayWrite io 0 ?f) = map Sent es" "set (wire es) \<subseteq> {?f}" by (rule sent_frames)
  have c: "control (wire es)" by (rule control_subset [OF es(2)]) simp
  have "\<exists>relay' es' closed'. readLocalUDP io (sy_Client s) x target received = (relay', map Sent es' @ closed', None) \<and>
      cr_TCP relay' = cr_TCP (sy_Client s) \<and> control (wire es') \<and> set closed' \<subseteq> range ClosedConn"
  proof (cases "fst (relayWrite io 0 ?f)")
    case (Inl err)
    then have w: "relayWrite io 0 ?f = (Inl err, map Sent es)" using es(1) by (metis prod.collapse)
    show ?thesis using u rm [of "sy_Client s" x] w c
      by (cases received; cases "encodedReverseServicePort (tg_ServicePort target)")
        (auto simp: readLocalUDP_def Let_def intro: exI [of _ "[]"])
  next
    case (Inr y)
    then have w: "relayWrite io 0 ?f = (Inr y, map Sent es)" using es(1) by (metis prod.collapse)
    show ?thesis using u rm [of "sy_Client s" x] w c
      by (cases received; cases "encodedReverseServicePort (tg_ServicePort target)")
        (auto simp: readLocalUDP_def Let_def intro: exI [of _ "[]"] exI [of _ es])
  qed
  then obtain relay' es' closed' where r: "readLocalUDP io (sy_Client s) x target received = (relay', map Sent es' @ closed', None)"
    "cr_TCP relay' = cr_TCP (sy_Client s)" "control (wire es')" "set closed' \<subseteq> range ClosedConn" by blast
  have sil: "foldl client_effect t closed' = t" for t using silent_effects(2) [of closed'] r(4) by auto
  show ?thesis unfolding r(1) client_round_eq foldl_append foldl_sent sil
    by (rule quiet_ok [where gs = "[]" and hs = "wire es'", OF inv]) (use r run in simp_all)
qed

lemma client_stop_ok:
  assumes inv: "\<And>sid. stream_inv s sid" and run: "sy_ClientDone s = None"
  shows "step_ok s (client_round s (sy_Client s, snd (StopRelay io), None)) sid"
proof -
  obtain es where es: "snd (StopRelay io) = map Sent es" "set (wire es) \<subseteq> {frame sfStop 0 0 0 []}"
    unfolding StopRelay_def by (rule sent_frames)
  have "control (wire es)" by (rule control_subset [OF es(2)]) simp
  then show ?thesis unfolding es(1) client_round_eq foldl_sent
    by (intro quiet_ok [where gs = "[]" and hs = "wire es", OF inv]) (use run in simp_all)
qed

section \<open>Runs\<close>

fun relay_run :: "(string \<Rightarrow> string) \<Rightarrow> relay_system \<Rightarrow> relay_event list \<Rightarrow> relay_system" where
  "relay_run ul s [] = s"
| "relay_run ul s (e # es) = relay_run ul (relay_step ul s e) es"

lemma same_ok: "stream_inv s sid \<Longrightarrow> step_ok s s sid"
  by (simp add: step_ok_def stay)

lemma relay_step_ok:
  assumes inv: "\<And>sid. stream_inv s sid" and small: "unat (rs_NextID (sy_Gateway s)) + 1 < 2 ^ 64"
  shows "step_ok s (relay_step ul s e) sid"
proof (cases e)
  case (GReceive io)
  then show ?thesis using gateway_receive [OF inv] same_ok [OF inv] by (cases "sy_Up s") auto
next
  case (CReceive io)
  then show ?thesis using client_receive [OF inv] same_ok [OF inv] by (cases "sy_Down s") auto
next
  case (CDatagram io x received)
  then show ?thesis using client_datagram_ok [OF inv] same_ok [OF inv] by (cases "map_of (cr_UDP (sy_Client s)) x") auto
qed (use accept_ok [OF inv small] gateway_read_ok [OF inv] client_read_ok [OF inv] gateway_datagram_ok [OF inv _ small]
  gateway_reap_ok [OF inv] client_stop_ok [OF inv] same_ok [OF inv] in auto)

lemma effects_keep [simp]:
  "sy_Gateway (foldl gateway_effect s es) = sy_Gateway s" "sy_Gateway (foldl client_effect s es) = sy_Gateway s"
proof -
  have "sy_Gateway (gateway_effect s e) = sy_Gateway s" "sy_Gateway (client_effect s e) = sy_Gateway s" for s e by (cases e; simp)+
  then show "sy_Gateway (foldl gateway_effect s es) = sy_Gateway s" "sy_Gateway (foldl client_effect s es) = sy_Gateway s"
    by (induction es arbitrary: s) auto
qed

lemma round_gateway [simp]:
  "sy_Gateway (gateway_round s r) = fst r" "sy_Gateway (client_round s r') = sy_Gateway s"
  by (auto simp: gateway_round_def client_round_def split: prod.splits)

lemma next_id_kept:
  "rs_NextID (fst (readClient io relay e)) = rs_NextID relay" "rs_NextID (fst (readTCP io relay sid payload err)) = rs_NextID relay"
  "rs_NextID (fst (reapUDP io relay)) = rs_NextID relay"
proof -
  have "rs_NextID (fst (snd (removeStream relay sid))) = rs_NextID relay" for sid
    by (auto simp: removeStream_def removeTCP_drop split: option.splits)
  moreover have "rs_NextID (snd (udpAssociationByID relay now sid)) = rs_NextID relay" for now sid
    by (auto simp: udpAssociationByID_def Let_def split: option.splits)
  ultimately show "rs_NextID (fst (readClient io relay e)) = rs_NextID relay"
    by (auto simp: readClient_def Let_def removeTCP_drop split: sum.splits option.splits prod.splits) (metis fst_conv snd_conv)+
  show "rs_NextID (fst (readTCP io relay sid payload err)) = rs_NextID relay"
    by (auto simp: readTCP_def Let_def removeTCP_drop split: sum.splits prod.splits read_end.splits)
  show "rs_NextID (fst (reapUDP io relay)) = rs_NextID relay"
    by (auto simp: reapUDP_def Let_def split: prod.splits)
qed

lemma next_id_bound:
  assumes "unat (rs_NextID (sy_Gateway s)) + 1 < 2 ^ 64"
  shows "unat (rs_NextID (sy_Gateway (relay_step ul s e))) \<le> unat (rs_NextID (sy_Gateway s)) + 1"
proof -
  note fresh = nextStreamID_fresh [OF assms]
  have a: "unat (rs_NextID (fst (acceptTCP io (sy_Gateway s) port))) = unat (rs_NextID (sy_Gateway s)) + 1" for io port
    using fresh by (auto simp: acceptTCP_def Let_def removeTCP_drop split: sum.splits prod.splits)
  have u: "unat (rs_NextID (fst (readUDP io (sy_Gateway s) index port remote payload))) \<le> unat (rs_NextID (sy_Gateway s)) + 1"
    for io index port remote payload
    using udpAssociation_fields(3) [OF assms] by (auto simp: readUDP_def Let_def split: sum.splits prod.splits)
  show ?thesis by (cases e) (simp_all add: a u [simplified] next_id_kept split: list.split option.split)
qed

lemma relay_run_append: "relay_run ul s (es @ [e]) = relay_step ul (relay_run ul s es) e"
  by (induction es arbitrary: s) auto

lemma initial_inv: "stream_inv (initial_system idle ul targets) sid"
  by (auto simp: stream_defs pipe_inv_def unused_def initial_system_def newRelaySession_def NewRelay_def
      in_client_def in_gateway_def pending_def issued_def)

lemma relay_run_inv:
  "length es < 2 ^ 64 \<Longrightarrow> (\<forall>sid. stream_inv (relay_run ul (initial_system idle ul targets) es) sid) \<and>
     unat (rs_NextID (sy_Gateway (relay_run ul (initial_system idle ul targets) es))) \<le> length es"
proof (induction es rule: rev_induct)
  case Nil
  then show ?case by (simp add: initial_inv) (simp add: initial_system_def newRelaySession_def)
next
  case (snoc e es)
  let ?s = "relay_run ul (initial_system idle ul targets) es"
  have inv: "\<And>sid. stream_inv ?s sid" and n: "unat (rs_NextID (sy_Gateway ?s)) \<le> length es" using snoc by auto
  then have small: "unat (rs_NextID (sy_Gateway ?s)) + 1 < 2 ^ 64" using snoc(2) by simp
  show ?case
    using relay_step_ok [OF inv small] next_id_bound [OF small, of ul e] n unfolding relay_run_append step_ok_def by force
qed

text \<open>C14. The two relays and the frames between them refine one pipe for each direction of each stream. Whatever the order
  of the rounds and the outcomes of the calls to the network, in a run of less than \<open>2\<^sup>6\<^sup>4\<close> rounds every round leaves
  the pipe as it is, appends the bytes that a reader took from its connection, takes the next bytes out in their
  order and without a gap, or signals the end, and the end only when every byte has come out.\<close>

theorem relays_refine_pipes:
  assumes "length es < 2 ^ 64"
  shows "pipe_of (initial_system idle ul targets) d sid = \<lparr> pi_In = [], pi_Out = [], pi_End = False \<rparr> \<and>
    (\<forall>i < length es. pipe_step (pipe_of (relay_run ul (initial_system idle ul targets) (take i es)) d sid)
      (pipe_of (relay_run ul (initial_system idle ul targets) (take (Suc i) es)) d sid))"
proof (intro conjI allI impI)
  show "pipe_of (initial_system idle ul targets) d sid = \<lparr> pi_In = [], pi_Out = [], pi_End = False \<rparr>"
    by (cases d) (simp_all add: initial_system_def)
  fix i assume i: "i < length es"
  let ?s = "relay_run ul (initial_system idle ul targets) (take i es)"
  have "length (take i es) < 2 ^ 64" using i assms by simp
  note r = relay_run_inv [OF this, of ul idle targets]
  then have inv: "\<And>sid. stream_inv ?s sid" and small: "unat (rs_NextID (sy_Gateway ?s)) + 1 < 2 ^ 64" using i assms by auto
  show "pipe_step (pipe_of ?s d sid) (pipe_of (relay_run ul (initial_system idle ul targets) (take (Suc i) es)) d sid)"
    unfolding take_Suc_conv_app_nth [OF i] relay_run_append
    using relay_step_ok [OF inv small, of ul "es ! i" sid] by (simp add: step_ok_def)
qed

text \<open>C25. Bytes of a stream arrive in their order, complete up to some point and never mixed with bytes of another
  stream: what a side has written to the connection of a stream is a prefix of what the other side has read from
  its connection, and once the end has been signalled it is all of it.\<close>

theorem stream_bytes_in_order:
  assumes "length es < 2 ^ 64" and s: "s = relay_run ul (initial_system idle ul targets) es"
  shows "(\<exists>rest. sy_GatewayRead s sid = sy_ClientWrote s sid @ rest) \<and> (\<exists>rest. sy_ClientRead s sid = sy_GatewayWrote s sid @ rest) \<and>
     (sid \<in> set (sy_ClientEnded s) \<longrightarrow> sy_ClientWrote s sid = sy_GatewayRead s sid) \<and>
     (sid \<in> set (sy_GatewayEnded s) \<longrightarrow> sy_GatewayWrote s sid = sy_ClientRead s sid)"
proof -
  have "down_inv s sid" "up_inv s sid" using relay_run_inv [OF assms(1), of ul idle targets] s by (auto simp: stream_inv_def)
  then show ?thesis unfolding down_inv_def up_inv_def pipe_inv_def by metis
qed

definition sample_io :: "bool list \<Rightarrow> relay_io" where
  "sample_io sends = \<lparr> io_script = \<lambda>_. (2, None), io_sends = sends, io_datagram = None, io_halfClose = True, io_dial = True, io_now = 0 \<rparr>"

definition sample_targets :: "Target list" where
  "sample_targets = [\<lparr> tg_ServicePort = 80, tg_Protocol = ''tcp'', tg_LocalHost = ''127.0.0.1'', tg_LocalPort = 8080 \<rparr>]"

definition sample_port :: Port where
  "sample_port = \<lparr> pt_Name = ''http'', pt_ServicePort = 80, pt_Protocol = ''TCP'' \<rparr>"

text \<open>A connection is accepted and opened; three bytes and the end of the stream come from the cluster, and the first
  bytes of the answer from the client.\<close>

definition sample_events :: "relay_event list" where
  "sample_events = [GAccept (sample_io [True]) sample_port, CReceive (sample_io []), GRead (sample_io [True, True]) 1 [71, 69, 84] ReadEOF,
     CReceive (sample_io []), CReceive (sample_io []), CRead (sample_io [True]) 1 [79, 75] ReadMore, GReceive (sample_io [])]"

definition frame_bytes :: "stream_frame \<Rightarrow> bytes" where
  "frame_bytes f = [Type f] @ put_uint 8 (StreamID f) @ put_uint 4 (ServicePort f) @ [Protocol f] @ Payload f"

lemma valid_sent:
  assumes "sfValidate ''exchange'' f = Inr ()" "length (Payload f) \<le> 262144"
  shows "relayWrite io n f = (if n < length (io_sends io) \<and> io_sends io ! n then (Inr (), [Sent (frame_bytes f)]) else (Inl ''write Traffic WebSocket message'', []))"
    "exchangeDecode (frame_bytes f) = Inr f"
proof -
  have e: "exchangeEncode f = Inr (frame_bytes f)" using assms by (simp add: exchangeEncode_def sfEncode_def frame_bytes_def)
  then show "exchangeDecode (frame_bytes f) = Inr f" by (simp add: exchange.dec_iff)
  show "relayWrite io n f = (if n < length (io_sends io) \<and> io_sends io ! n then (Inr (), [Sent (frame_bytes f)]) else (Inl ''write Traffic WebSocket message'', []))"
    using e assms(2) by (simp add: relayWrite_def MaximumFrameBytes_def) (simp add: frame_bytes_def)
qed

lemma sample_valid:
  "sfValidate ''exchange'' (frame sfOpen 1 80 ProtocolTCP []) = Inr ()" "sfValidate ''exchange'' (frame sfData 1 0 0 [71, 69, 84]) = Inr ()"
  "sfValidate ''exchange'' (frame sfCloseWrite 1 0 0 []) = Inr ()" "sfValidate ''exchange'' (frame sfData 1 0 0 [79, 75]) = Inr ()"
  by (simp_all add: sfValidate_def frame_def sf_types sf_limits validPayloadFrame_def validControlFrame_def)

lemmas sample_frames = sample_valid [THEN valid_sent(1)] sample_valid [THEN valid_sent(2)]

lemma sample_open: "openTCP (\<lambda>x. x) (sample_io []) (NewRelay (\<lambda>x. x) sample_targets) (frame sfOpen 1 80 ProtocolTCP []) =
   ((NewRelay (\<lambda>x. x) sample_targets)\<lparr>cr_TCP := [(1, hd sample_targets)]\<rparr>, [ReaderStarts 1], None)"
   by code_simp

lemma sample_write:
  "writeLocal (\<lambda>_. (2, None)) 0 [71, 69, 84] = (None, [71, 69, 84], 2)" "writeLocal (\<lambda>_. (2, None)) 0 [79, 75] = (None, [79, 75], 1)"
  by (simp_all add: writeLocal.simps)

lemma sample_rounds:
  "acceptTCP (sample_io [True]) (newRelaySession 60) sample_port = ((newRelaySession 60) \<lparr> rs_NextID := 1, rs_TCP := [(1, \<lparr> ts_Port = sample_port \<rparr>)] \<rparr>,
     [Sent (frame_bytes (frame sfOpen 1 80 ProtocolTCP [])), ReaderStarts 1], None)"
  "Run (\<lambda>x. x) (sample_io []) (NewRelay (\<lambda>x. x) sample_targets) (frame_bytes (frame sfOpen 1 80 ProtocolTCP [])) =
     ((NewRelay (\<lambda>x. x) sample_targets) \<lparr> cr_TCP := [(1, hd sample_targets)] \<rparr>, [ReaderStarts 1], None)"
  "readTCP (sample_io [True, True]) relay 1 [71, 69, 84] ReadEOF = (relay, [Sent (frame_bytes (frame sfData 1 0 0 [71, 69, 84])),
     Sent (frame_bytes (frame sfCloseWrite 1 0 0 [])), ReaderEnds 1], None)"
  "map_of (cr_TCP client) 1 = Some target \<Longrightarrow> Run (\<lambda>x. x) (sample_io []) client (frame_bytes (frame sfData 1 0 0 [71, 69, 84])) =
     (client, [Wrote 1 [71, 69, 84]], None)"
  "map_of (cr_TCP client) 1 = Some target \<Longrightarrow> Run (\<lambda>x. x) (sample_io []) client (frame_bytes (frame sfCloseWrite 1 0 0 [])) =
     (client, [HalfClosed 1], None)"
  "readLocalTCP (sample_io [True]) client 1 [79, 75] ReadMore = (client, [Sent (frame_bytes (frame sfData 1 0 0 [79, 75]))], None)"
  "map_of (rs_TCP relay) 1 = Some stream \<Longrightarrow> readClient (sample_io []) relay (frame_bytes (frame sfData 1 0 0 [79, 75])) =
     (relay, [Wrote 1 [79, 75]], None)"
  by (simp_all add: acceptTCP_def nextStreamID_def newRelaySession_def sample_frames sample_open Run_def readTCP_def
      readLocalTCP_def readClient_def Let_def)
    (simp_all add: sample_io_def sample_port_def sample_frames sample_write)

lemma sample_run:
  assumes "s = relay_run (\<lambda>x. x) (initial_system 60 (\<lambda>x. x) sample_targets) sample_events"
  shows "sy_ClientWrote s 1 = [71, 69, 84] \<and> 1 \<in> set (sy_ClientEnded s) \<and> sy_GatewayWrote s 1 = [79, 75] \<and> 1 \<notin> set (sy_GatewayEnded s)"
  unfolding assms sample_events_def
  by (simp add: initial_system_def gateway_round_def client_round_def sample_rounds)

theorem relays_refine_pipes_witness:
  "pipe_step (pipe_of (relay_run (\<lambda>x. x) (initial_system 60 (\<lambda>x. x) sample_targets) (take 3 sample_events)) ToClient 1)
     (pipe_of (relay_run (\<lambda>x. x) (initial_system 60 (\<lambda>x. x) sample_targets) (take 4 sample_events)) ToClient 1) \<and>
   pipe_step (pipe_of (relay_run (\<lambda>x. x) (initial_system 60 (\<lambda>x. x) sample_targets) (take 4 sample_events)) ToClient 1)
     (pipe_of (relay_run (\<lambda>x. x) (initial_system 60 (\<lambda>x. x) sample_targets) (take 5 sample_events)) ToClient 1)"
proof -
  have n: "length sample_events < 2 ^ 64" "3 < length sample_events" "4 < length sample_events" by (simp_all add: sample_events_def)
  have "Suc 3 = 4" "Suc 4 = 5" by simp_all
  then show ?thesis using relays_refine_pipes [OF n(1), of 60 "\<lambda>x. x" sample_targets ToClient 1] n(2,3) by metis
qed

theorem stream_bytes_in_order_witness:
  "let s = relay_run (\<lambda>x. x) (initial_system 60 (\<lambda>x. x) sample_targets) sample_events in
     sy_GatewayRead s 1 = [71, 69, 84] \<and> sy_ClientWrote s 1 = [71, 69, 84] \<and> sy_GatewayWrote s 1 = [79, 75] \<and>
     (\<exists>rest. sy_ClientRead s 1 = [79, 75] @ rest)"
proof -
  let ?s = "relay_run (\<lambda>x. x) (initial_system 60 (\<lambda>x. x) sample_targets) sample_events"
  have "length sample_events < 2 ^ 64" by (simp add: sample_events_def)
  note r = stream_bytes_in_order [OF this, of ?s "\<lambda>x. x" 60 sample_targets 1] and v = sample_run [of ?s]
  show ?thesis using r v unfolding Let_def by metis
qed

section \<open>Data that crosses a close\<close>

text \<open>When a local connection refuses bytes, the client removes its stream and goes on; but data of that stream that
  the Gateway had sent before it learned of the close ends the client's whole relay with an error, while the
  other streams are still in its table.\<close>

theorem crossing_data_ends_relay:
  assumes "sy_ClientDone s = None" "map_of (cr_TCP (sy_Client s)) sid = Some target"
    "sy_Down s = e1 # e2 # rest" "exchangeDecode e1 = Inr f1" "exchangeDecode e2 = Inr f2"
    "Type f1 = sfData" "StreamID f1 = sid" "Type f2 = sfData" "StreamID f2 = sid"
    "fst (writeLocal (io_script io) 0 (Payload f1)) \<noteq> None"
    and t: "t = relay_step ul s (CReceive io)" and u: "u = relay_step ul t (CReceive io2)"
  shows "sy_ClientDone t = None \<and> sy_ClientDone u = Some ''gateway referenced an unknown local TCP stream'' \<and>
    (\<forall>k. k \<noteq> sid \<longrightarrow> map_of (cr_TCP (sy_Client u)) k = map_of (cr_TCP (sy_Client s)) k)"
proof -
  obtain es where es: "snd (relayWrite io 0 (closeFrame sid)) = map Sent es" "set (wire es) \<subseteq> {closeFrame sid}" by (rule sent_frames)
  obtain err bs n where w: "writeLocal (io_script io) 0 (Payload f1) = (Some err, bs, n)" using assms(10) by (metis fst_conv not_None_eq prod_cases3)
  have "Run ul io (sy_Client s) e1 = (drop_local True sid (sy_Client s), Wrote sid bs # ClosedConn sid # map Sent es, None)"
    using assms w es(1) by (simp add: Run_def Let_def removeLocalTCP_drop)
  then have t': "t = s \<lparr> sy_Down := e2 # rest, sy_Client := drop_local True sid (sy_Client s), sy_ClientDone := None,
      sy_ClientWrote := (sy_ClientWrote s)(sid := sy_ClientWrote s sid @ bs), sy_Up := sy_Up s @ es \<rparr>"
    unfolding t using assms by (simp add: client_round_eq foldl_sent)
  then have "Run ul io2 (sy_Client t) e2 = (sy_Client t, [], Some ''gateway referenced an unknown local TCP stream'')"
    using assms by (simp add: Run_def Let_def)
  then show ?thesis unfolding u using t' by (simp add: client_round_eq)
qed

theorem crossing_data_ends_relay_witness:
  "let s = (initial_system 60 (\<lambda>x. x) sample_targets)
      \<lparr> sy_Client := (NewRelay (\<lambda>x. x) sample_targets) \<lparr> cr_TCP := [(1, hd sample_targets), (2, hd sample_targets)] \<rparr>,
        sy_Down := [frame_bytes (frame sfData 1 0 0 [71, 69, 84]), frame_bytes (frame sfData 1 0 0 [79, 75])] \<rparr>;
     io = (sample_io [True]) \<lparr> io_script := \<lambda>_. (0, Some ''broken pipe'') \<rparr> in
   sy_ClientDone (relay_step (\<lambda>x. x) (relay_step (\<lambda>x. x) s (CReceive io)) (CReceive io)) = Some ''gateway referenced an unknown local TCP stream'' \<and>
   map_of (cr_TCP (sy_Client (relay_step (\<lambda>x. x) (relay_step (\<lambda>x. x) s (CReceive io)) (CReceive io)))) 2 = Some (hd sample_targets)"
proof -
  define s where "s = (initial_system 60 (\<lambda>x. x) sample_targets)
      \<lparr> sy_Client := (NewRelay (\<lambda>x. x) sample_targets) \<lparr> cr_TCP := [(1, hd sample_targets), (2, hd sample_targets)] \<rparr>,
        sy_Down := [frame_bytes (frame sfData 1 0 0 [71, 69, 84]), frame_bytes (frame sfData 1 0 0 [79, 75])] \<rparr>"
  define io where "io = (sample_io [True]) \<lparr> io_script := \<lambda>_. (0, Some ''broken pipe'') \<rparr>"
  have s: "sy_ClientDone s = None" "map_of (cr_TCP (sy_Client s)) 1 = Some (hd sample_targets)" "map_of (cr_TCP (sy_Client s)) 2 = Some (hd sample_targets)"
    "sy_Down s = frame_bytes (frame sfData 1 0 0 [71, 69, 84]) # frame_bytes (frame sfData 1 0 0 [79, 75]) # []"
    by (simp_all add: s_def initial_system_def)
  have w: "fst (writeLocal (io_script io) 0 (Payload (frame sfData 1 0 0 [71, 69, 84]))) \<noteq> None" by (simp add: writeLocal.simps io_def)
  have f: "exchangeDecode (frame_bytes (frame sfData 1 0 0 [71, 69, 84])) = Inr (frame sfData 1 0 0 [71, 69, 84])"
    "exchangeDecode (frame_bytes (frame sfData 1 0 0 [79, 75])) = Inr (frame sfData 1 0 0 [79, 75])" by (simp_all add: sample_frames)
  note c = crossing_data_ends_relay [OF s(1,2,4) f frame_fields(1,2) frame_fields(1,2) w refl refl, of "\<lambda>x. x" io]
  have "(2 :: 64 word) \<noteq> 1" by simp
  then show ?thesis using c s(3) unfolding Let_def s_def [symmetric] io_def [symmetric] by metis
qed

end
