(* ===== verification/RelayTables.thy ===== *)
theory RelayTables
  imports RelayPipes
begin

text \<open>
  The tables of the Gateway's relay: streams and associations by identifier, and the associations by the listener and
  the remote address of their datagrams. The index of the associations is exact, so the entry that \<^verbatim>\<open>udpAssociation\<close>
  finds in it is never missing from the table that it dereferences.
\<close>

section \<open>Well-formed tables\<close>

definition index_ok :: "(64 word \<times> udpRelayAssociation) list \<Rightarrow> (string \<times> 64 word) list \<Rightarrow> bool" where
  "index_ok udp keys \<longleftrightarrow> (\<forall>key sid. map_of keys key = Some sid \<longleftrightarrow> (\<exists>a. map_of udp sid = Some a \<and> ua_Key a = key))"

definition tables_ok :: "relaySession \<Rightarrow> bool" where
  "tables_ok relay \<longleftrightarrow> distinct (map fst (rs_TCP relay)) \<and> distinct (map fst (rs_UDP relay)) \<and>
     index_ok (rs_UDP relay) (rs_UDPKeys relay) \<and>
     (\<forall>sid. map_of (rs_TCP relay) sid \<noteq> None \<or> map_of (rs_UDP relay) sid \<noteq> None \<longrightarrow> 0 < sid \<and> sid \<le> rs_NextID relay) \<and>
     (\<forall>sid. map_of (rs_TCP relay) sid = None \<or> map_of (rs_UDP relay) sid = None)"

lemma index_update: "index_ok udp keys \<Longrightarrow> map_of udp sid = None \<Longrightarrow> map_of keys key = None \<Longrightarrow> ua_Key a = key \<Longrightarrow>
    index_ok (AList.update sid a udp) (AList.update key sid keys)"
  unfolding index_ok_def AList.update_conv' by (auto split: if_splits) (metis option.distinct(1))+

lemma index_touch: "index_ok udp keys \<Longrightarrow> map_of udp sid = Some a \<Longrightarrow> ua_Key b = ua_Key a \<Longrightarrow> index_ok (AList.update sid b udp) keys"
  unfolding index_ok_def AList.update_conv' by (auto split: if_splits)

lemma index_delete: "index_ok udp keys \<Longrightarrow> map_of udp sid = Some a \<Longrightarrow> index_ok (AList.delete sid udp) (AList.delete (ua_Key a) keys)"
  unfolding index_ok_def AList.delete_conv' by (auto split: if_splits) (metis option.inject)+

lemma map_of_filter_value:
  "distinct (map fst al) \<Longrightarrow> map_of (filter (\<lambda>(_, v). P v) al) k = (case map_of al k of Some v \<Rightarrow> if P v then Some v else None | None \<Rightarrow> None)"
  by (induction al) (auto split: option.splits simp: map_of_eq_None_iff image_iff)

lemma delete_keys:
  "map_of (foldl (\<lambda>keys (_, a). AList.delete (ua_Key a) keys) keys xs) k = (if k \<in> (ua_Key \<circ> snd) ` set xs then None else map_of keys k)"
  by (induction xs arbitrary: keys) (auto simp: AList.delete_conv')

lemma index_reap:
  assumes "index_ok udp keys" "distinct (map fst udp)"
  shows "index_ok (filter (\<lambda>(_, a). P a) udp) (foldl (\<lambda>keys (_, a). AList.delete (ua_Key a) keys) keys (filter (\<lambda>(_, a). \<not> P a) udp))"
proof -
  have one: "k = k'" if "map_of udp k = Some a" "map_of udp k' = Some a'" "ua_Key a = ua_Key a'" for k k' a a'
    using assms(1) that unfolding index_ok_def by (metis option.inject)
  have gone: "key \<in> (ua_Key \<circ> snd) ` set (filter (\<lambda>(_, a). \<not> P a) udp) \<longleftrightarrow> (\<exists>k a. map_of udp k = Some a \<and> \<not> P a \<and> ua_Key a = key)" for key
    using assms(2) by (force simp: image_iff)
  have "map_of keys key = Some sid \<longleftrightarrow> (\<exists>a. map_of udp sid = Some a \<and> ua_Key a = key)" for key sid
    using assms(1) by (auto simp: index_ok_def)
  then show ?thesis
    unfolding index_ok_def delete_keys map_of_filter_value [OF assms(2)] gone
    by (auto split: option.splits if_splits) (metis one option.inject)+
qed

section \<open>Every round keeps them\<close>

lemma tables_drop: "tables_ok relay \<Longrightarrow> tables_ok (drop_stream gone sid relay)"
  by (auto simp: tables_ok_def drop_stream_def AList.delete_conv' distinct_delete simp del: map_of_eq_Some_iff)

lemma tables_removeStream: "tables_ok relay \<Longrightarrow> tables_ok (fst (snd (removeStream relay sid)))"
  by (auto simp: removeStream_def removeTCP_drop tables_drop split: option.split)
    (auto simp: tables_ok_def drop_stream_def AList.delete_conv' distinct_delete index_delete simp del: map_of_eq_Some_iff)

lemma tables_seen: "tables_ok relay \<Longrightarrow> map_of (rs_UDP relay) sid = Some a \<Longrightarrow>
    tables_ok (relay \<lparr> rs_UDP := AList.update sid (a \<lparr> ua_LastSeen := now \<rparr>) (rs_UDP relay) \<rparr>)"
  by (auto simp: tables_ok_def AList.update_conv' distinct_update index_touch simp del: map_of_eq_Some_iff)

lemma tables_udpAssociationByID: "tables_ok relay \<Longrightarrow> tables_ok (snd (udpAssociationByID relay now sid))"
  by (auto simp: udpAssociationByID_def Let_def tables_seen split: option.split)

lemma tables_udpAssociation:
  assumes ok: "tables_ok relay" and small: "unat (rs_NextID relay) + 1 < 2 ^ 64"
  shows "tables_ok (snd (udpAssociation relay now index port remote key))"
proof (cases "map_of (rs_UDPKeys relay) key")
  case None
  note fresh = nextStreamID_fresh [OF small]
  have new: "map_of (rs_TCP relay) (rs_NextID relay + 1) = None" "map_of (rs_UDP relay) (rs_NextID relay + 1) = None"
    using ok fresh(3) unfolding tables_ok_def by blast+
  have "sid \<le> rs_NextID relay \<Longrightarrow> sid \<le> rs_NextID relay + 1" for sid using fresh(4) by (rule order_trans [rotated])
  then show ?thesis
    using ok None new fresh by (auto simp: udpAssociation_def tables_ok_def AList.update_conv' distinct_update index_update simp del: map_of_eq_Some_iff)
next
  case (Some sid)
  then obtain a where "map_of (rs_UDP relay) sid = Some a" using ok by (auto simp: tables_ok_def index_ok_def)
  then show ?thesis using ok Some by (simp add: udpAssociation_def tables_seen)
qed

lemma tables_reapUDP: "tables_ok relay \<Longrightarrow> tables_ok (fst (reapUDP io relay))"
  by (auto simp: reapUDP_def Let_def tables_ok_def index_reap map_of_filter_value distinct_map_filter split: prod.splits option.splits simp del: map_of_eq_Some_iff)
lemma tables_accept:
  assumes ok: "tables_ok relay" and small: "unat (rs_NextID relay) + 1 < 2 ^ 64"
  shows "tables_ok (fst (acceptTCP io relay port))"
proof -
  note fresh = nextStreamID_fresh [OF small]
  have new: "map_of (rs_UDP relay) (rs_NextID relay + 1) = None" using ok fresh(3) unfolding tables_ok_def by blast
  have "sid \<le> rs_NextID relay \<Longrightarrow> sid \<le> rs_NextID relay + 1" for sid using fresh(4) by (rule order_trans [rotated])
  then have "tables_ok (relay \<lparr> rs_NextID := rs_NextID relay + 1, rs_TCP := AList.update (rs_NextID relay + 1) \<lparr> ts_Port = port \<rparr> (rs_TCP relay) \<rparr>)"
    using ok new fresh(2) by (auto simp: tables_ok_def AList.update_conv' distinct_update simp del: map_of_eq_Some_iff)
  then show ?thesis using tables_drop [of _ True]
    by (auto simp: acceptTCP_def fresh(1) Let_def removeTCP_drop split: sum.split prod.split)
qed

lemma tables_readTCP: "tables_ok relay \<Longrightarrow> tables_ok (fst (readTCP io relay sid payload err))"
  by (auto simp: readTCP_def Let_def removeTCP_drop tables_drop split: sum.split prod.split read_end.split)

lemma tables_readClient:
  assumes "tables_ok relay"
  shows "tables_ok (fst (readClient io relay e))"
proof (cases "exchangeDecode e")
  case (Inr f)
  show ?thesis
    using Inr assms tables_removeStream [OF assms, of "StreamID f"] tables_udpAssociationByID [OF assms, of "io_now io" "StreamID f"]
    by (auto simp: readClient_def Let_def removeTCP_drop tables_drop split: option.split prod.splits)
qed (use assms in \<open>simp add: readClient_def\<close>)

lemma tables_readUDP: "tables_ok relay \<Longrightarrow> unat (rs_NextID relay) + 1 < 2 ^ 64 \<Longrightarrow> tables_ok (fst (readUDP io relay index port remote payload))"
  using tables_udpAssociation [of relay "io_now io" index port remote "FormatUint index @ ''/'' @ remote"]
  by (auto simp: readUDP_def Let_def split: sum.split prod.splits)

section \<open>The client's tables\<close>

definition locals_ok :: "Relay \<Rightarrow> bool" where
  "locals_ok relay \<longleftrightarrow> (\<forall>sid. map_of (cr_TCP relay) sid = None \<or> map_of (cr_UDP relay) sid = None)"

lemma locals_removeLocalUDP: "locals_ok relay \<Longrightarrow> locals_ok (fst (snd (removeLocalUDP relay sid)))"
  by (auto simp: removeLocalUDP_def locals_ok_def AList.delete_conv' split: option.split)

lemma locals_drop: "locals_ok relay \<Longrightarrow> locals_ok (drop_local gone sid relay)"
  by (auto simp: drop_local_def locals_ok_def AList.delete_conv')

lemma locals_removeAny: "locals_ok relay \<Longrightarrow> locals_ok (fst (snd (removeAny relay sid)))"
  using locals_removeLocalUDP [of "drop_local True sid relay" sid] by (auto simp: removeAny_def removeLocalTCP_drop locals_drop)

lemma locals_open: "locals_ok relay \<Longrightarrow> locals_ok (fst (openTCP ul io relay f))"
  by (auto simp: openTCP_def Let_def split: sum.split option.split) (auto simp: locals_ok_def hasStream_def AList.update_conv')

lemma locals_datagram: "locals_ok relay \<Longrightarrow> locals_ok (fst (datagram ul io relay f))"
  by (auto simp: datagram_def Let_def writeDatagram_fields split: sum.split option.split) (auto simp: locals_ok_def hasStream_def AList.update_conv')

lemma locals_Run:
  assumes "locals_ok relay"
  shows "locals_ok (fst (Run ul io relay e))"
proof (cases "exchangeDecode e")
  case (Inr f)
  show ?thesis
    using Inr assms locals_removeAny [OF assms, of "StreamID f"] locals_open [OF assms] locals_datagram [OF assms]
    by (auto simp: Run_def Let_def removeLocalTCP_drop locals_drop split: option.split prod.splits)
qed (use assms in \<open>simp add: Run_def\<close>)

lemma locals_readLocalTCP: "locals_ok relay \<Longrightarrow> locals_ok (fst (readLocalTCP io relay sid payload err))"
  by (auto simp: readLocalTCP_def Let_def removeLocalTCP_drop locals_drop split: sum.split prod.split read_end.split)

lemma locals_readLocalUDP: "locals_ok relay \<Longrightarrow> locals_ok (fst (readLocalUDP io relay sid target received))"
  using locals_removeLocalUDP [of relay sid] by (auto simp: readLocalUDP_def Let_def split: sum.split prod.splits option.split)

section \<open>Runs\<close>

lemma client_kept [simp]:
  "sy_Client (gateway_round s r) = sy_Client s" "sy_Client (client_round s r') = fst r'"
proof -
  have "sy_Client (gateway_effect s e) = sy_Client s" "sy_Client (client_effect s e) = sy_Client s" for s e by (cases e; simp)+
  then have "sy_Client (foldl gateway_effect s es) = sy_Client s" "sy_Client (foldl client_effect s es) = sy_Client s" for s es
    by (induction es arbitrary: s) auto
  then show "sy_Client (gateway_round s r) = sy_Client s" "sy_Client (client_round s r') = fst r'"
    by (auto simp: gateway_round_def client_round_def split: prod.split)
qed

lemma tables_step:
  assumes "tables_ok (sy_Gateway s)" "locals_ok (sy_Client s)" "unat (rs_NextID (sy_Gateway s)) + 1 < 2 ^ 64"
  shows "tables_ok (sy_Gateway (relay_step ul s e)) \<and> locals_ok (sy_Client (relay_step ul s e))"
  using assms
  by (cases e) (auto simp: tables_accept tables_readTCP tables_readClient tables_readUDP tables_reapUDP locals_Run locals_readLocalTCP
      locals_readLocalUDP split: list.split option.split)

text \<open>C26. In every run of the two relays of less than \<open>2\<^sup>6\<^sup>4\<close> rounds the Gateway's tables are well formed: identifiers are
  not zero, were given out before and name either a stream or an association, and the index of the associations
  holds exactly the key of every association, so that the association it yields exists. An identifier of the
  client names a TCP or a UDP connection, never both.\<close>

theorem relay_tables_well_formed:
  assumes "length es < 2 ^ 64" and s: "s = relay_run ul (initial_system idle ul targets) es"
  shows "tables_ok (sy_Gateway s) \<and> locals_ok (sy_Client s)"
  using assms
proof (induction es arbitrary: s rule: rev_induct)
  case Nil
  then show ?case by (auto simp: initial_system_def newRelaySession_def NewRelay_def tables_ok_def locals_ok_def index_ok_def)
next
  case (snoc e es)
  let ?s = "relay_run ul (initial_system idle ul targets) es"
  have "unat (rs_NextID (sy_Gateway ?s)) + 1 < 2 ^ 64"
    using relay_run_inv [of es ul idle targets] snoc(2) by auto
  then show ?case using snoc tables_step [of ?s ul e] by (simp add: relay_run_append)
qed

definition sample_datagrams :: "relay_event list" where
  "sample_datagrams = [GDatagram (sample_io [True]) 0 sample_port ''10.0.0.7:5353'' [1], GDatagram (sample_io [True]) 0 sample_port ''10.0.0.7:5353'' [2]]"

theorem relay_tables_well_formed_witness:
  "tables_ok (sy_Gateway (relay_run (\<lambda>x. x) (initial_system 60 (\<lambda>x. x) sample_targets) (sample_events @ sample_datagrams)))"
proof -
  have "length (sample_events @ sample_datagrams) < 2 ^ 64" by (simp add: sample_events_def sample_datagrams_def)
  from relay_tables_well_formed [OF this refl] show ?thesis by blast
qed

end
