(* ===== verification/NetAddr.thy ===== *)
theory NetAddr
  imports RelayControl
begin

unbundle bit_operations_syntax

text \<open>
  The addresses and prefixes of \<^verbatim>\<open>net/netip\<close> that \<^verbatim>\<open>internal/protocol/networkspec\<close> works on: their families, masks,
  membership and classification. Reading and printing them is in the environment of the component that does it.
\<close>

section \<open>Addresses\<close>

datatype Addr = V4 "32 word" | V6 "128 word" string

fun BitLen :: "Addr \<Rightarrow> nat" where
  "BitLen (V4 _) = 32"
| "BitLen (V6 _ _) = 128"

fun Is4 :: "Addr \<Rightarrow> bool" where
  "Is4 (V4 _) = True"
| "Is4 (V6 _ _) = False"

text \<open>An IPv4 address mapped into IPv6 becomes that IPv4 address; its zone is dropped.\<close>

fun Unmap :: "Addr \<Rightarrow> Addr" where
  "Unmap (V4 w) = V4 w"
| "Unmap (V6 w zone) = (if drop_bit 32 w = 0xffff then V4 (ucast w) else V6 w zone)"

fun IsUnspecified :: "Addr \<Rightarrow> bool" where
  "IsUnspecified (V4 w) = (w = 0)"
| "IsUnspecified (V6 w zone) = (w = 0 \<and> zone = '''')"

fun IsLoopback :: "Addr \<Rightarrow> bool" where
  "IsLoopback a = (case Unmap a of V4 w \<Rightarrow> drop_bit 24 w = 127 | V6 w _ \<Rightarrow> w = 1)"

fun IsLinkLocalUnicast :: "Addr \<Rightarrow> bool" where
  "IsLinkLocalUnicast a = (case Unmap a of V4 w \<Rightarrow> drop_bit 16 w = 0xa9fe | V6 w _ \<Rightarrow> drop_bit 118 w = 0x3fa)"

fun IsMulticast :: "Addr \<Rightarrow> bool" where
  "IsMulticast a = (case Unmap a of V4 w \<Rightarrow> drop_bit 28 w = 0xe | V6 w _ \<Rightarrow> drop_bit 120 w = 0xff)"

fun IsPrivate :: "Addr \<Rightarrow> bool" where
  "IsPrivate a = (case Unmap a of
     V4 w \<Rightarrow> drop_bit 24 w = 10 \<or> drop_bit 20 w = 0xac1 \<or> drop_bit 16 w = 0xc0a8
   | V6 w _ \<Rightarrow> drop_bit 121 w = 0x7e)"

lemma Unmap_idem [simp]: "Unmap (Unmap a) = Unmap a"
  by (cases a) auto

section \<open>Prefixes\<close>

record Prefix =
  pf_Addr :: Addr
  pf_Bits :: nat

definition high :: "nat \<Rightarrow> 'a::len word \<Rightarrow> 'a word" where
  "high n w = push_bit (LENGTH('a) - n) (drop_bit (LENGTH('a) - n) w)"

definition Masked :: "Prefix \<Rightarrow> Prefix" where
  "Masked p = p \<lparr> pf_Addr := (case pf_Addr p of V4 w \<Rightarrow> V4 (high (pf_Bits p) w) | V6 w _ \<Rightarrow> V6 (high (pf_Bits p) w) '''') \<rparr>"

definition InPrefix :: "Prefix \<Rightarrow> Addr \<Rightarrow> bool" where
  "InPrefix p a =
     (case (pf_Addr p, a) of
        (V4 x, V4 y) \<Rightarrow> drop_bit (32 - pf_Bits p) (x XOR y) = 0
      | (V6 x _, V6 y zone) \<Rightarrow> zone = '''' \<and> drop_bit (128 - pf_Bits p) (x XOR y) = 0
      | _ \<Rightarrow> False)"

text \<open>What a parsed prefix is: its length fits its family and it has no zone.\<close>

definition prefix_ok :: "Prefix \<Rightarrow> bool" where
  "prefix_ok p \<longleftrightarrow> (case pf_Addr p of V4 _ \<Rightarrow> pf_Bits p \<le> 32 | V6 _ zone \<Rightarrow> pf_Bits p \<le> 128 \<and> zone = '''')"

definition prefixesOverlap :: "Prefix \<Rightarrow> Prefix \<Rightarrow> bool" where
  "prefixesOverlap left right \<longleftrightarrow> BitLen (pf_Addr left) = BitLen (pf_Addr right) \<and>
     (InPrefix left (pf_Addr right) \<or> InPrefix right (pf_Addr left))"

text \<open>The order of the source: family, length, address.\<close>

definition compareWords :: "'a::len word \<Rightarrow> 'a word \<Rightarrow> int" where
  "compareWords x y = (if x < y then -1 else if y < x then 1 else 0)"

fun compareAddrs :: "Addr \<Rightarrow> Addr \<Rightarrow> int" where
  "compareAddrs (V4 x) (V4 y) = compareWords x y"
| "compareAddrs (V4 x) (V6 y _) = -1"
| "compareAddrs (V6 x _) (V4 y) = 1"
| "compareAddrs (V6 x z) (V6 y z') = (if x \<noteq> y then compareWords x y else compareStrings z z')"

definition comparePrefixes :: "Prefix \<Rightarrow> Prefix \<Rightarrow> int" where
  "comparePrefixes left right =
     (if BitLen (pf_Addr left) \<noteq> BitLen (pf_Addr right) then int (BitLen (pf_Addr left)) - int (BitLen (pf_Addr right))
      else if pf_Bits left \<noteq> pf_Bits right then int (pf_Bits left) - int (pf_Bits right)
      else compareAddrs (pf_Addr left) (pf_Addr right))"

section \<open>Membership\<close>

text \<open>Words that agree on their high bits.\<close>

lemma xor_zero: "x XOR y = 0 \<longleftrightarrow> x = (y :: 'a::len word)"
proof
  assume "x XOR y = 0"
  then have "(x XOR y) XOR y = 0 XOR y" by simp
  then show "x = y" by (simp add: xor.assoc)
qed simp

lemma drop_xor: "drop_bit k (x XOR y) = 0 \<longleftrightarrow> drop_bit k x = drop_bit k (y :: 'a::len word)"
  by (simp add: xor_zero)

lemma agree_mono: "drop_bit k x = drop_bit k y \<Longrightarrow> k \<le> l \<Longrightarrow> drop_bit l x = drop_bit l (y :: 'a::len word)"
  by (metis drop_bit_drop_bit le_add_diff_inverse2)

lemma drop_high: "drop_bit (LENGTH('a) - n) (high n w) = drop_bit (LENGTH('a) - n) (w :: 'a::len word)"
  by (rule bit_word_eqI) (auto simp: high_def bit_simps dest: bit_imp_le_length)

lemma high_idem [simp]: "high n (high n w) = high n w"
  by (simp add: high_def drop_high [unfolded high_def])

lemma Masked_idem [simp]: "Masked (Masked p) = Masked p"
  by (cases "pf_Addr p") (simp_all add: Masked_def)

lemma Masked_simps [simp]:
  "pf_Bits (Masked p) = pf_Bits p" "BitLen (pf_Addr (Masked p)) = BitLen (pf_Addr p)" "Is4 (pf_Addr (Masked p)) = Is4 (pf_Addr p)"
  "prefix_ok (Masked p) = (pf_Bits p \<le> BitLen (pf_Addr p))"
  by (cases "pf_Addr p"; simp add: Masked_def prefix_ok_def)+

lemma prefix_ok_masked: "prefix_ok p \<Longrightarrow> prefix_ok (Masked p)"
  unfolding Masked_simps(4) by (cases "pf_Addr p") (simp_all add: prefix_ok_def)

text \<open>Addresses of one family that agree on their first bits.\<close>

fun agree :: "nat \<Rightarrow> Addr \<Rightarrow> Addr \<Rightarrow> bool" where
  "agree n (V4 x) (V4 y) = (drop_bit (32 - n) x = drop_bit (32 - n) y)"
| "agree n (V6 x _) (V6 y _) = (drop_bit (128 - n) x = drop_bit (128 - n) y)"
| "agree n _ _ = False"

fun zoneless :: "Addr \<Rightarrow> bool" where
  "zoneless (V4 _) = True"
| "zoneless (V6 _ zone) = (zone = '''')"

lemma agree_refl [simp]: "agree n a a"
  by (cases a) auto

lemma agree_sym: "agree n a b \<Longrightarrow> agree n b a"
  by (cases a; cases b) auto

lemma agree_trans: "agree n a b \<Longrightarrow> agree n b c \<Longrightarrow> agree n a c"
  by (cases a; cases b; cases c) auto

lemma agree_less: "agree m a b \<Longrightarrow> n \<le> m \<Longrightarrow> agree n a b"
  by (cases a; cases b) (auto elim: agree_mono)

lemma agree_family: "agree n a b \<Longrightarrow> BitLen a = BitLen b"
  by (cases a; cases b) auto

lemma in_prefix: "InPrefix p a \<longleftrightarrow> agree (pf_Bits p) (pf_Addr p) a \<and> zoneless a"
  by (cases "pf_Addr p"; cases a) (auto simp: InPrefix_def xor_zero)

lemma agree_masked: "agree (pf_Bits p) (pf_Addr (Masked p)) a = agree (pf_Bits p) (pf_Addr p) a"
  using drop_high [where 'a = 32 and n = "pf_Bits p"] drop_high [where 'a = 128 and n = "pf_Bits p"]
  by (cases "pf_Addr p"; cases a) (simp_all add: Masked_def)

lemma in_masked [simp]: "InPrefix (Masked p) a = InPrefix p a"
  using agree_masked [of p a] by (simp add: in_prefix)

lemma prefix_zoneless: "prefix_ok p \<Longrightarrow> zoneless (pf_Addr p)"
  by (cases "pf_Addr p") (auto simp: prefix_ok_def)

lemma overlap_agree:
  assumes "prefix_ok p" "prefix_ok q"
  shows "prefixesOverlap p q \<longleftrightarrow> agree (min (pf_Bits p) (pf_Bits q)) (pf_Addr p) (pf_Addr q)"
proof (cases "pf_Bits p \<le> pf_Bits q")
  case True
  then show ?thesis using assms [THEN prefix_zoneless]
    by (auto simp: prefixesOverlap_def in_prefix min_def dest: agree_family agree_sym agree_less)
next
  case False
  then have "agree (pf_Bits p) a b \<Longrightarrow> agree (pf_Bits q) a b" for a b by (auto elim: agree_less)
  then show ?thesis using False assms [THEN prefix_zoneless]
    by (auto simp: prefixesOverlap_def in_prefix min_def dest: agree_family agree_sym)
qed

text \<open>A prefix that overlaps with one that is not longer lies in it, and prefixes with a common address overlap.\<close>

lemma overlap_covers:
  assumes "prefix_ok p" "prefix_ok q" "prefixesOverlap p q" "pf_Bits p \<le> pf_Bits q" "InPrefix q a"
  shows "InPrefix p a"
proof -
  have "agree (pf_Bits p) (pf_Addr p) (pf_Addr q)" using assms by (simp add: overlap_agree min_def)
  moreover have "agree (pf_Bits p) (pf_Addr q) a" using assms(4,5) by (auto simp: in_prefix intro: agree_less)
  ultimately show ?thesis using assms(5) by (auto simp: in_prefix intro: agree_trans)
qed

lemma common_overlaps:
  assumes "prefix_ok p" "prefix_ok q" "InPrefix p a" "InPrefix q a"
  shows "prefixesOverlap p q"
proof -
  have "agree (min (pf_Bits p) (pf_Bits q)) (pf_Addr p) a" "agree (min (pf_Bits p) (pf_Bits q)) (pf_Addr q) a"
    using assms(3,4) by (auto simp: in_prefix intro: agree_less)
  then show ?thesis unfolding overlap_agree [OF assms(1,2)] by (blast intro: agree_trans agree_sym)
qed

section \<open>The order of prefixes\<close>

text \<open>A number that orders prefixes without zones as the comparison does.\<close>

definition prefix_key :: "Prefix \<Rightarrow> int" where
  "prefix_key p = (case pf_Addr p of V4 w \<Rightarrow> int (pf_Bits p) * 2 ^ 128 + uint w | V6 w _ \<Rightarrow> (int (pf_Bits p) + 2 ^ 16) * 2 ^ 128 + uint w)"

lemma words_key: "compareWords x y \<le> 0 \<longleftrightarrow> uint x \<le> uint y"
  by (auto simp: compareWords_def word_less_def word_le_def)

lemma scaled_order:
  fixes x y :: int
  assumes "0 \<le> x" "x < c" "0 \<le> y" "y < c"
  shows "m < n \<Longrightarrow> m * c + x < n * c + y" "m * c + x = n * c + y \<longleftrightarrow> m = n \<and> x = y"
proof -
  have less: "m * c + x < n * c + y" if "m < n" "0 \<le> x" "x < c" "0 \<le> y" for m n x y :: int
  proof -
    have "(m + 1) * c \<le> n * c" using that(1) assms by (intro mult_right_mono) auto
    then show ?thesis using that by (simp add: algebra_simps)
  qed
  show "m < n \<Longrightarrow> m * c + x < n * c + y" using less assms by blast
  show "m * c + x = n * c + y \<longleftrightarrow> m = n \<and> x = y"
    using less [of m n x y] less [of n m y x] assms by (cases "m < n"; cases "n < m") auto
qed

lemma word_bound: "uint (w :: 32 word) < 2 ^ 128" "uint (v :: 128 word) < 2 ^ 128"
proof -
  have "uint w < 2 ^ 32" using uint_lt2p [of w] by simp
  then show "uint w < 2 ^ 128" by (rule less_trans) simp
  show "uint v < 2 ^ 128" using uint_lt2p [of v] by simp
qed

lemma prefix_key_inj:
  assumes "prefix_ok p" "prefix_ok q" "prefix_key p = prefix_key q"
  shows "p = q"
proof -
  note s = scaled_order(2) [OF uint_ge_0 word_bound(1) uint_ge_0 word_bound(1)] scaled_order(2) [OF uint_ge_0 word_bound(2) uint_ge_0 word_bound(2)]
    scaled_order(2) [OF uint_ge_0 word_bound(1) uint_ge_0 word_bound(2)] scaled_order(2) [OF uint_ge_0 word_bound(2) uint_ge_0 word_bound(1)]
  have "pf_Addr p = pf_Addr q \<and> pf_Bits p = pf_Bits q"
  proof (cases "pf_Addr p"; cases "pf_Addr q")
    fix x y assume a: "pf_Addr p = V4 x" "pf_Addr q = V4 y"
    then show ?thesis using assms(3) unfolding prefix_key_def a Addr.case s by (simp add: word_uint_eq_iff)
  next
    fix x zx y zy assume a: "pf_Addr p = V6 x zx" "pf_Addr q = V6 y zy"
    then show ?thesis using assms unfolding prefix_key_def prefix_ok_def a Addr.case s by (simp add: word_uint_eq_iff)
  next
    fix x y zy assume a: "pf_Addr p = V4 x" "pf_Addr q = V6 y zy"
    then show ?thesis using assms unfolding prefix_key_def prefix_ok_def a Addr.case s by (simp add: word_uint_eq_iff)
  next
    fix x zx y assume a: "pf_Addr p = V6 x zx" "pf_Addr q = V4 y"
    then show ?thesis using assms unfolding prefix_key_def prefix_ok_def a Addr.case s by (simp add: word_uint_eq_iff)
  qed
  then show ?thesis by simp
qed

lemma compare_key:
  assumes "prefix_ok p" "prefix_ok q"
  shows "comparePrefixes p q \<le> 0 \<longleftrightarrow> prefix_key p \<le> prefix_key q"
proof -
  have step: "(if m \<noteq> n then m - n else c) \<le> (0 :: int) \<longleftrightarrow> m * 2 ^ 128 + x \<le> n * 2 ^ 128 + y"
    if "c \<le> 0 \<longleftrightarrow> x \<le> y" "0 \<le> x" "x < 2 ^ 128" "0 \<le> y" "y < 2 ^ 128" for m n x y c :: int
  proof (cases "m = n")
    case False
    then show ?thesis
      using scaled_order(1) [OF that(2-5), of m n] scaled_order(1) [OF that(4,5,2,3), of n m] by (cases "m < n") auto
  qed (use that in simp)
  note b = uint_ge_0 word_bound
  show ?thesis
  proof (cases "pf_Addr p"; cases "pf_Addr q")
    fix x y assume a: "pf_Addr p = V4 x" "pf_Addr q = V4 y"
    have c: "comparePrefixes p q = (if int (pf_Bits p) \<noteq> int (pf_Bits q) then int (pf_Bits p) - int (pf_Bits q) else compareWords x y)"
      using a by (simp add: comparePrefixes_def)
    show ?thesis unfolding c step [OF words_key b(1,2) b(1,2)] by (simp add: prefix_key_def a)
  next
    fix x zx y zy assume a: "pf_Addr p = V6 x zx" "pf_Addr q = V6 y zy"
    have c: "comparePrefixes p q = (if int (pf_Bits p) + 2 ^ 16 \<noteq> int (pf_Bits q) + 2 ^ 16
        then (int (pf_Bits p) + 2 ^ 16) - (int (pf_Bits q) + 2 ^ 16) else compareWords x y)"
      using a assms by (simp add: comparePrefixes_def prefix_ok_def compareStrings_def compareWords_def)
    show ?thesis unfolding c step [OF words_key b(1,3) b(1,3)] by (simp add: prefix_key_def a)
  next
    fix x y zy assume a: "pf_Addr p = V4 x" "pf_Addr q = V6 y zy"
    have "int (pf_Bits p) < int (pf_Bits q) + 2 ^ 16" using assms a by (simp add: prefix_ok_def)
    from scaled_order(1) [OF b(1,2) b(1,3) this] have "prefix_key p < prefix_key q" using a by (simp add: prefix_key_def)
    then show ?thesis using a by (simp add: comparePrefixes_def)
  next
    fix x zx y assume a: "pf_Addr p = V6 x zx" "pf_Addr q = V4 y"
    have "int (pf_Bits q) < int (pf_Bits p) + 2 ^ 16" using assms a by (simp add: prefix_ok_def)
    from scaled_order(1) [OF b(1,2) b(1,3) this] have "prefix_key q < prefix_key p" using a by (simp add: prefix_key_def)
    then show ?thesis using a by (simp add: comparePrefixes_def)
  qed
qed

end
