(* ===== verification/NetworkSpec.thy ===== *)
theory NetworkSpec
  imports NetAddr
begin

text \<open>
  The cluster-network snapshot of a session (\<^verbatim>\<open>internal/protocol/networkspec/spec.go\<close>) and the cluster domains in it
  (\<^verbatim>\<open>internal/protocol/dns/cluster.go\<close>): validation of what was discovered, its canonical form, and the form that is
  stored and hashed.
\<close>

section \<open>Cluster domains\<close>

definition DefaultClusterDomain :: string where "DefaultClusterDomain = ''cluster.local''"

definition asciiLowerAlphaNumeric :: "char \<Rightarrow> bool" where
  "asciiLowerAlphaNumeric c \<longleftrightarrow> 97 \<le> code c \<and> code c \<le> 122 \<or> 48 \<le> code c \<and> code c \<le> 57"

definition ValidLabel :: "string \<Rightarrow> bool" where
  "ValidLabel value \<longleftrightarrow>
     \<not> (value = '''' \<or> length value > 63 \<or> \<not> asciiLowerAlphaNumeric (hd value) \<or> \<not> asciiLowerAlphaNumeric (last value)) \<and>
     list_all (\<lambda>c. c = CHR ''-'' \<or> asciiLowerAlphaNumeric c) (butlast (tl value))"

definition ValidClusterDomain :: "string \<Rightarrow> bool" where
  "ValidClusterDomain value \<longleftrightarrow> \<not> (value = '''' \<or> length value > 253) \<and> list_all ValidLabel (Split value CHR ''.'')"

text \<open>The parameters are the lower case of letters outside ASCII and the verb \<^verbatim>\<open>%q\<close>.\<close>

definition normalizeDomain :: "(string \<Rightarrow> string) \<Rightarrow> string \<Rightarrow> string" where
  "normalizeDomain ul raw = TrimSuffix (ToLower ul (TrimSpace raw)) ''.''"

fun addDomains :: "(string \<Rightarrow> string) \<Rightarrow> (string \<Rightarrow> string) \<Rightarrow> string list \<Rightarrow> string list \<Rightarrow> error + string list" where
  "addDomains ul quote out [] = Inr out"
| "addDomains ul quote out (raw # raws) =
     (let domain = normalizeDomain ul raw in
      if domain = '''' then addDomains ul quote out raws
      else if \<not> ValidClusterDomain domain then Inl (''invalid cluster domain '' @ quote raw)
      else if domain \<in> set out then addDomains ul quote out raws
      else addDomains ul quote (out @ [domain]) raws)"

definition NormalizeClusterDomains :: "(string \<Rightarrow> string) \<Rightarrow> (string \<Rightarrow> string) \<Rightarrow> string list \<Rightarrow> error + string list" where
  "NormalizeClusterDomains ul quote domains =
     bindE (addDomains ul quote [] (domains @ [DefaultClusterDomain])) (\<lambda>out.
       if length out > 1 \<and> hd out \<noteq> DefaultClusterDomain
       then Inr (DefaultClusterDomain # filter (\<lambda>domain. domain \<noteq> DefaultClusterDomain) out)
       else Inr out)"

section \<open>The snapshot\<close>

record Spec =
  ns_Version :: int
  ns_PodCIDRs :: "string list"
  ns_PodIPs :: "string list"
  ns_ServiceCIDRs :: "string list"
  ns_ServiceIPs :: "string list"
  ns_DNSServer :: string
  ns_ClusterDomains :: "string list"

text \<open>
  The environment: case mapping and quoting; reading and printing of addresses and prefixes by \<^verbatim>\<open>net/netip\<close>; the JSON
  text of a snapshot; the snapshot at the head of a JSON text, read without unknown fields, with whether a further
  JSON object without fields follows it; and SHA-256.
\<close>

record net_env =
  ne_ul :: "string \<Rightarrow> string"
  ne_quote :: "string \<Rightarrow> string"
  ParseAddr :: "string \<Rightarrow> Addr option"
  AddrString :: "Addr \<Rightarrow> string"
  ParsePrefix :: "string \<Rightarrow> Prefix option"
  PrefixString :: "Prefix \<Rightarrow> string"
  ne_Marshal :: "Spec \<Rightarrow> bytes"
  ne_Unmarshal :: "bytes \<Rightarrow> (Spec \<times> bool) option"
  ne_sha256 :: "bytes \<Rightarrow> bytes"

definition spec_version :: int where "spec_version = 2"
definition MaximumItems :: int where "MaximumItems = 4096"
definition MaximumJSONSize :: int where "MaximumJSONSize = 262144"

definition AllowedAddress :: "Addr \<Rightarrow> bool" where
  "AllowedAddress address =
     (if IsUnspecified address \<or> IsLoopback address \<or> IsLinkLocalUnicast address \<or> IsMulticast address then False
      else if IsPrivate address then True
      else Is4 address \<and> InPrefix \<lparr> pf_Addr = V4 0x64400000, pf_Bits = 10 \<rparr> address)"

definition unsafePrefixes :: "Prefix list" where
  "unsafePrefixes =
     [\<lparr> pf_Addr = V4 0, pf_Bits = 8 \<rparr>, \<lparr> pf_Addr = V4 0x7f000000, pf_Bits = 8 \<rparr>, \<lparr> pf_Addr = V4 0xa9fe0000, pf_Bits = 16 \<rparr>,
      \<lparr> pf_Addr = V4 0xe0000000, pf_Bits = 4 \<rparr>, \<lparr> pf_Addr = V6 0 '''', pf_Bits = 128 \<rparr>, \<lparr> pf_Addr = V6 1 '''', pf_Bits = 128 \<rparr>,
      \<lparr> pf_Addr = V6 (push_bit 112 0xfe80) '''', pf_Bits = 10 \<rparr>, \<lparr> pf_Addr = V6 (push_bit 112 0xff00) '''', pf_Bits = 8 \<rparr>]"

definition allowedPrefix :: "Prefix \<Rightarrow> bool" where
  "allowedPrefix prefix \<longleftrightarrow> AllowedAddress (pf_Addr prefix) \<and> \<not> list_ex (prefixesOverlap prefix) unsafePrefixes"

text \<open>The three loops of \<^verbatim>\<open>normalizeCIDRs\<close> and the sort between the first two.\<close>

fun parseCIDRs :: "net_env \<Rightarrow> string \<Rightarrow> Prefix list \<Rightarrow> string list \<Rightarrow> error + Prefix list" where
  "parseCIDRs env kind prefixes [] = Inr prefixes"
| "parseCIDRs env kind prefixes (raw # raws) =
     (case ParsePrefix env (TrimSpace raw) of
        None \<Rightarrow> Inl (''NetworkSpec '' @ kind @ '' CIDR is invalid'')
      | Some parsed \<Rightarrow>
          let prefix = Masked parsed; minimumBits = (if Is4 (pf_Addr prefix) then 8 else 32) in
          if pf_Bits prefix < minimumBits \<or> \<not> allowedPrefix prefix then Inl (''NetworkSpec '' @ kind @ '' CIDR is unsafe'')
          else parseCIDRs env kind (if prefix \<in> set prefixes then prefixes else prefixes @ [prefix]) raws)"

fun keepPrefixes :: "Prefix list \<Rightarrow> Prefix list \<Rightarrow> Prefix list" where
  "keepPrefixes kept [] = kept"
| "keepPrefixes kept (candidate # candidates) =
     (if list_ex (\<lambda>existing. prefixesOverlap existing candidate \<and> pf_Bits existing \<le> pf_Bits candidate) kept
      then keepPrefixes kept candidates else keepPrefixes (kept @ [candidate]) candidates)"

definition normalizeCIDRs :: "net_env \<Rightarrow> string list \<Rightarrow> string \<Rightarrow> error + string list" where
  "normalizeCIDRs env texts kind =
     bindE (parseCIDRs env kind [] texts) (\<lambda>prefixes.
       Inr (map (PrefixString env) (keepPrefixes [] (SortFunc comparePrefixes prefixes))))"

fun parseAddresses :: "net_env \<Rightarrow> string \<Rightarrow> string list \<Rightarrow> string list \<Rightarrow> error + string list" where
  "parseAddresses env kind result [] = Inr result"
| "parseAddresses env kind result (raw # raws) =
     (case ParseAddr env (TrimSpace raw) of
        None \<Rightarrow> Inl (''NetworkSpec '' @ kind @ '' IP is invalid'')
      | Some address \<Rightarrow>
          if \<not> AllowedAddress (Unmap address) then Inl (''NetworkSpec '' @ kind @ '' IP is invalid'')
          else let text = AddrString env (Unmap address) in
            parseAddresses env kind (if text \<in> set result then result else result @ [text]) raws)"

definition normalizeAddresses :: "net_env \<Rightarrow> string list \<Rightarrow> string \<Rightarrow> error + string list" where
  "normalizeAddresses env texts kind = bindE (parseAddresses env kind [] texts) (\<lambda>result. Inr (SortFunc compareStrings result))"

definition normalizeDNSServer :: "net_env \<Rightarrow> string \<Rightarrow> string list \<Rightarrow> error + string \<times> string list" where
  "normalizeDNSServer env server serviceIPs =
     (if TrimSpace server = '''' then Inr ('''', serviceIPs)
      else case ParseAddr env (TrimSpace server) of
        None \<Rightarrow> Inl ''NetworkSpec DNS server is invalid''
      | Some address \<Rightarrow>
          if \<not> AllowedAddress (Unmap address) then Inl ''NetworkSpec DNS server is invalid''
          else let dnsServer = AddrString env (Unmap address) in
            Inr (dnsServer, if dnsServer \<in> set serviceIPs then serviceIPs else SortFunc compareStrings (serviceIPs @ [dnsServer])))"

definition mustParsePrefix :: "net_env \<Rightarrow> string \<Rightarrow> Prefix" where
  "mustParsePrefix env raw = the (ParsePrefix env raw)"

definition itemCount :: "Spec \<Rightarrow> int" where
  "itemCount spec = int (length (ns_PodCIDRs spec)) + int (length (ns_PodIPs spec)) + int (length (ns_ServiceCIDRs spec)) +
     int (length (ns_ServiceIPs spec)) + int (length (ns_ClusterDomains spec))"

definition Normalize :: "net_env \<Rightarrow> Spec \<Rightarrow> error + Spec" where
  "Normalize env input0 =
     (let input = (if ns_Version input0 = 0 then input0 \<lparr> ns_Version := spec_version \<rparr> else input0) in
      if ns_Version input \<noteq> spec_version then Inl (''unsupported NetworkSpec version '' @ FormatInt (ns_Version input))
      else if itemCount input > MaximumItems then Inl ''NetworkSpec contains too many items''
      else
        bindE (normalizeCIDRs env (ns_PodCIDRs input) ''Pod'') (\<lambda>podCIDRs.
        bindE (normalizeAddresses env (ns_PodIPs input) ''Pod'') (\<lambda>podIPs.
        bindE (normalizeCIDRs env (ns_ServiceCIDRs input) ''Service'') (\<lambda>serviceCIDRs.
        bindE (normalizeAddresses env (ns_ServiceIPs input) ''Service'') (\<lambda>serviceIPs0.
        bindE (normalizeDNSServer env (ns_DNSServer input) serviceIPs0) (\<lambda>(dnsServer, serviceIPs).
        bindE (NormalizeClusterDomains (ne_ul env) (ne_quote env) (ns_ClusterDomains input)) (\<lambda>domains.
          if length podCIDRs + length podIPs + length serviceCIDRs + length serviceIPs = 0
          then Inl ''NetworkSpec contains no routable cluster network''
          else if list_ex (\<lambda>pod. list_ex (\<lambda>service. prefixesOverlap (mustParsePrefix env pod) (mustParsePrefix env service)) serviceCIDRs) podCIDRs
          then Inl ''NetworkSpec Pod and Service CIDRs overlap''
          else
            let result = \<lparr> ns_Version = spec_version, ns_PodCIDRs = podCIDRs, ns_PodIPs = podIPs, ns_ServiceCIDRs = serviceCIDRs,
                  ns_ServiceIPs = serviceIPs, ns_DNSServer = dnsServer, ns_ClusterDomains = domains \<rparr> in
            if int (length (ne_Marshal env result)) > MaximumJSONSize then Inl ''NetworkSpec is too large'' else Inr result)))))))"

definition CanonicalJSON :: "net_env \<Rightarrow> Spec \<Rightarrow> error + bytes" where
  "CanonicalJSON env input = bindE (Normalize env input) (\<lambda>normalized. Inr (ne_Marshal env normalized))"

definition Hash :: "net_env \<Rightarrow> Spec \<Rightarrow> error + string" where
  "Hash env input = bindE (CanonicalJSON env input) (\<lambda>contents. Inr (hexEncode (ne_sha256 env contents)))"

definition DecodeSpec :: "net_env \<Rightarrow> bytes \<Rightarrow> error + Spec" where
  "DecodeSpec env contents =
     (if length contents = 0 \<or> int (length contents) > MaximumJSONSize then Inl ''stored NetworkSpec is invalid''
      else case ne_Unmarshal env contents of
        None \<Rightarrow> Inl ''decode stored NetworkSpec''
      | Some (spec, trailing) \<Rightarrow> if trailing then Inl ''stored NetworkSpec contains trailing JSON'' else Normalize env spec)"

section \<open>Documented behaviour of the environment\<close>

definition env_ok :: "net_env \<Rightarrow> bool" where
  "env_ok env \<longleftrightarrow>
     (\<forall>s p. ParsePrefix env s = Some p \<longrightarrow> prefix_ok p) \<and>
     (\<forall>p. prefix_ok p \<longrightarrow> ParsePrefix env (PrefixString env p) = Some p \<and> TrimSpace (PrefixString env p) = PrefixString env p) \<and>
     (\<forall>s a. ParseAddr env (TrimSpace s) = Some a \<longrightarrow> ParseAddr env (AddrString env a) = Some a \<and> TrimSpace (AddrString env a) = AddrString env a) \<and>
     (\<forall>w. ParseAddr env (AddrString env (V4 w)) = Some (V4 w) \<and> TrimSpace (AddrString env (V4 w)) = AddrString env (V4 w)) \<and>
     (\<forall>a. AddrString env a \<noteq> '''')"

text \<open>The prefixes that a list of texts stands for.\<close>

definition parsed :: "net_env \<Rightarrow> string list \<Rightarrow> Prefix set" where
  "parsed env texts = {p. \<exists>s \<in> set texts. ParsePrefix env (TrimSpace s) = Some p}"

definition covers :: "net_env \<Rightarrow> string list \<Rightarrow> Addr \<Rightarrow> bool" where
  "covers env texts a \<longleftrightarrow> (\<exists>p \<in> parsed env texts. InPrefix p a)"

section \<open>Prefix lists\<close>

definition safe_prefix :: "Prefix \<Rightarrow> bool" where
  "safe_prefix p \<longleftrightarrow> Masked p = p \<and> (if Is4 (pf_Addr p) then 8 else 32) \<le> pf_Bits p \<and> allowedPrefix p"

lemma parseCIDRs_Cons:
  "parseCIDRs env kind acc (raw # raws) = Inr ps \<longleftrightarrow> (\<exists>p. ParsePrefix env (TrimSpace raw) = Some p \<and> safe_prefix (Masked p) \<and>
     parseCIDRs env kind (if Masked p \<in> set acc then acc else acc @ [Masked p]) raws = Inr ps)"
  by (cases "ParsePrefix env (TrimSpace raw)") (simp_all add: safe_prefix_def Let_def not_less)

declare parseCIDRs.simps(2) [simp del]

lemma parseCIDRs_result:
  assumes "parseCIDRs env kind acc texts = Inr ps" "distinct acc" "\<And>p. p \<in> set acc \<Longrightarrow> safe_prefix p"
  shows "set ps = set acc \<union> Masked ` parsed env texts \<and> distinct ps \<and> (\<forall>p \<in> set ps. safe_prefix p)"
  using assms
proof (induction texts arbitrary: acc)
  case (Cons raw raws)
  obtain p where p: "ParsePrefix env (TrimSpace raw) = Some p" and ok: "safe_prefix (Masked p)"
    and rest: "parseCIDRs env kind (if Masked p \<in> set acc then acc else acc @ [Masked p]) raws = Inr ps"
    using Cons.prems(1) unfolding parseCIDRs_Cons by blast
  let ?acc = "if Masked p \<in> set acc then acc else acc @ [Masked p]"
  have "set ps = set ?acc \<union> Masked ` parsed env raws \<and> distinct ps \<and> (\<forall>p \<in> set ps. safe_prefix p)"
    by (rule Cons.IH [OF rest]) (use Cons.prems(2,3) ok in \<open>auto split: if_splits\<close>)
  moreover have "parsed env (raw # raws) = insert p (parsed env raws)" using p by (auto simp: parsed_def)
  ultimately show ?case by auto
qed (auto simp: parsed_def)

lemma parseCIDRs_complete:
  "(\<And>s. s \<in> set texts \<Longrightarrow> \<exists>p. ParsePrefix env (TrimSpace s) = Some p \<and> safe_prefix (Masked p)) \<Longrightarrow> \<exists>ps. parseCIDRs env kind acc texts = Inr ps"
proof (induction texts arbitrary: acc)
  case (Cons raw raws)
  then obtain p where "ParsePrefix env (TrimSpace raw) = Some p" "safe_prefix (Masked p)" by auto
  then show ?case using Cons unfolding parseCIDRs_Cons by (metis list.set_intros(2))
qed simp

lemma parseCIDRs_safe:
  "parseCIDRs env kind acc texts = Inr ps \<Longrightarrow> s \<in> set texts \<Longrightarrow> \<exists>p. ParsePrefix env (TrimSpace s) = Some p \<and> safe_prefix (Masked p)"
  by (induction texts arbitrary: acc) (auto simp: parseCIDRs_Cons)

lemma key_bits:
  assumes "BitLen (pf_Addr p) = BitLen (pf_Addr q)" "prefix_key p \<le> prefix_key q"
  shows "pf_Bits p \<le> pf_Bits q"
proof (rule ccontr)
  assume "\<not> pf_Bits p \<le> pf_Bits q"
  then have l: "int (pf_Bits q) < int (pf_Bits p)" "int (pf_Bits q) + 2 ^ 16 < int (pf_Bits p) + 2 ^ 16" by auto
  have "prefix_key q < prefix_key p"
  proof (cases "pf_Addr p"; cases "pf_Addr q")
    fix x y assume "pf_Addr p = V4 x" "pf_Addr q = V4 y"
    then show ?thesis using scaled_order(1) [OF uint_ge_0 word_bound(1) uint_ge_0 word_bound(1) l(1)] by (simp add: prefix_key_def)
  next
    fix x zx y zy assume "pf_Addr p = V6 x zx" "pf_Addr q = V6 y zy"
    then show ?thesis using scaled_order(1) [OF uint_ge_0 word_bound(2) uint_ge_0 word_bound(2) l(2)] by (simp add: prefix_key_def)
  qed (use assms(1) in auto)
  then show False using assms(2) by simp
qed

lemma overlap_sym: "prefixesOverlap p q = prefixesOverlap q p"
  by (auto simp: prefixesOverlap_def)

lemma keepPrefixes_result:
  assumes "sorted (map prefix_key (kept @ cs))" "sorted_wrt (\<lambda>p q. \<not> prefixesOverlap p q) kept"
  shows "sorted (map prefix_key (keepPrefixes kept cs)) \<and> sorted_wrt (\<lambda>p q. \<not> prefixesOverlap p q) (keepPrefixes kept cs) \<and>
     set kept \<subseteq> set (keepPrefixes kept cs) \<and> set (keepPrefixes kept cs) \<subseteq> set kept \<union> set cs \<and>
     (\<forall>c \<in> set cs. c \<in> set (keepPrefixes kept cs) \<or> (\<exists>e \<in> set (keepPrefixes kept cs). prefixesOverlap e c \<and> pf_Bits e \<le> pf_Bits c))"
  using assms
proof (induction cs arbitrary: kept)
  case (Cons c cs)
  show ?case
  proof (cases "list_ex (\<lambda>e. prefixesOverlap e c \<and> pf_Bits e \<le> pf_Bits c) kept")
    case True
    then obtain e where e: "e \<in> set kept" "prefixesOverlap e c \<and> pf_Bits e \<le> pf_Bits c" by (auto simp: list_ex_iff)
    have "sorted (map prefix_key (kept @ cs))" using Cons.prems(1) by (auto simp: sorted_append)
    from Cons.IH [OF this Cons.prems(2)] show ?thesis using True e by (simp only: keepPrefixes.simps if_True) auto
  next
    case False
    have "\<not> prefixesOverlap e c" if "e \<in> set kept" for e
    proof
      assume o: "prefixesOverlap e c"
      have "prefix_key e \<le> prefix_key c" using Cons.prems(1) that by (auto simp: sorted_append)
      then have "pf_Bits e \<le> pf_Bits c" by (rule key_bits [rotated]) (use o in \<open>simp add: prefixesOverlap_def\<close>)
      then show False using False o that by (auto simp: list_ex_iff)
    qed
    then have "sorted_wrt (\<lambda>p q. \<not> prefixesOverlap p q) (kept @ [c])" using Cons.prems(2) by (simp add: sorted_wrt_append)
    from Cons.IH [OF _ this] Cons.prems(1) show ?thesis using False by (simp only: keepPrefixes.simps if_False) auto
  qed
qed simp

lemma keepPrefixes_id:
  "sorted_wrt (\<lambda>p q. \<not> prefixesOverlap p q) (kept @ cs) \<Longrightarrow> keepPrefixes kept cs = kept @ cs"
proof (induction cs arbitrary: kept)
  case (Cons c cs)
  have "\<not> list_ex (\<lambda>e. prefixesOverlap e c \<and> pf_Bits e \<le> pf_Bits c) kept" using Cons(2) by (auto simp: sorted_wrt_append list_ex_iff)
  then show ?case using Cons.IH [of "kept @ [c]"] Cons(2) by simp
qed simp

text \<open>The kept prefixes of a list of texts, as the source computes them.\<close>

definition canonical :: "net_env \<Rightarrow> string list \<Rightarrow> Prefix list" where
  "canonical env texts = keepPrefixes [] (SortFunc comparePrefixes (case parseCIDRs env '''' [] texts of Inr ps \<Rightarrow> ps | _ \<Rightarrow> []))"

lemma parseCIDRs_kind: "parseCIDRs env kind acc texts = Inr ps \<Longrightarrow> parseCIDRs env kind' acc texts = Inr ps"
proof (induction texts arbitrary: acc)
  case (Cons raw raws)
  then show ?case unfolding parseCIDRs_Cons by blast
qed simp

lemma SortFunc_unique:
  fixes key :: "'a \<Rightarrow> 'k::linorder"
  assumes "set xs = set ys" "distinct xs" "distinct ys" "inj_on key (set xs)"
    and c: "\<And>x y. x \<in> set xs \<Longrightarrow> y \<in> set xs \<Longrightarrow> cmp x y \<le> 0 \<longleftrightarrow> key x \<le> key y"
  shows "SortFunc cmp xs = SortFunc cmp ys"
proof -
  have d: "distinct (SortFunc cmp zs)" if "distinct zs" for zs :: "'a list"
    using that card_distinct distinct_card length_SortFunc set_SortFunc by metis
  have "sorted (map key (SortFunc cmp xs))" "sorted (map key (SortFunc cmp ys))"
    using c assms(1) by (auto intro!: sorted_SortFunc)
  then show ?thesis
    using assms(1,4) d [OF assms(2)] d [OF assms(3)]
    by (intro map_sorted_distinct_set_unique [of key]) (auto simp: distinct_map)
qed

lemma sort_canonical:
  assumes "\<And>p. p \<in> set ps \<Longrightarrow> prefix_ok p"
  shows "sorted (map prefix_key (SortFunc comparePrefixes ps))"
  by (rule sorted_SortFunc) (simp add: assms compare_key)

lemma normalizeCIDRs_canonical:
  assumes ok: "env_ok env" and n: "normalizeCIDRs env texts kind = Inr result"
  shows "result = map (PrefixString env) (canonical env texts)"
    "sorted (map prefix_key (canonical env texts))"
    "sorted_wrt (\<lambda>p q. \<not> prefixesOverlap p q) (canonical env texts)"
    "set (canonical env texts) \<subseteq> Masked ` parsed env texts"
    "\<And>p. p \<in> set (canonical env texts) \<Longrightarrow> safe_prefix p \<and> prefix_ok p"
    "\<And>c. c \<in> Masked ` parsed env texts \<Longrightarrow> c \<in> set (canonical env texts) \<or>
       (\<exists>e \<in> set (canonical env texts). prefixesOverlap e c \<and> pf_Bits e \<le> pf_Bits c)"
proof -
  obtain ps where ps: "parseCIDRs env kind [] texts = Inr ps"
    and r: "result = map (PrefixString env) (keepPrefixes [] (SortFunc comparePrefixes ps))"
    using n by (auto simp: normalizeCIDRs_def bindE_def split: sum.splits)
  have c: "canonical env texts = keepPrefixes [] (SortFunc comparePrefixes ps)" by (simp add: canonical_def parseCIDRs_kind [OF ps])
  show "result = map (PrefixString env) (canonical env texts)" unfolding c by (rule r)
  have set: "set ps = Masked ` parsed env texts" "\<forall>p \<in> set ps. safe_prefix p" using parseCIDRs_result [OF ps] by auto
  have pok: "p \<in> set ps \<Longrightarrow> prefix_ok p" for p
    using ok set(1) by (auto simp: env_ok_def parsed_def simp del: Masked_simps intro!: prefix_ok_masked)
  let ?k = "keepPrefixes [] (SortFunc comparePrefixes ps)"
  have sorted: "sorted (map prefix_key (SortFunc comparePrefixes ps))" by (rule sort_canonical) (rule pok)
  note k = keepPrefixes_result [of "[]" "SortFunc comparePrefixes ps", simplified append_Nil, OF sorted, simplified]
  show "sorted (map prefix_key (canonical env texts))" "sorted_wrt (\<lambda>p q. \<not> prefixesOverlap p q) (canonical env texts)"
    unfolding c using k by blast+
  have sub: "set ?k \<subseteq> set ps" using k by blast
  then show "set (canonical env texts) \<subseteq> Masked ` parsed env texts" unfolding c set(1) .
  show "\<And>p. p \<in> set (canonical env texts) \<Longrightarrow> safe_prefix p \<and> prefix_ok p"
    unfolding c using sub set(2) pok by blast
  show "\<And>c. c \<in> Masked ` parsed env texts \<Longrightarrow> c \<in> set (canonical env texts) \<or>
       (\<exists>e \<in> set (canonical env texts). prefixesOverlap e c \<and> pf_Bits e \<le> pf_Bits c)"
    unfolding c set(1) [symmetric] using k by blast
qed

lemma parsed_printed:
  assumes "env_ok env" "\<And>p. p \<in> set ps \<Longrightarrow> prefix_ok p"
  shows "parsed env (map (PrefixString env) ps) = set ps"
proof -
  have "p \<in> set ps \<Longrightarrow> ParsePrefix env (TrimSpace (PrefixString env p)) = Some p" for p using assms by (simp add: env_ok_def)
  then show ?thesis by (auto simp: parsed_def)
qed

lemma cidrs_cover:
  assumes "env_ok env" "normalizeCIDRs env texts kind = Inr result"
  shows "(\<forall>a. covers env result a \<longleftrightarrow> covers env texts a) \<and>
    sorted_wrt (\<lambda>s t. \<not> (\<exists>a. InPrefix (mustParsePrefix env s) a \<and> InPrefix (mustParsePrefix env t) a)) result \<and>
    list_all (\<lambda>s. safe_prefix (mustParsePrefix env s)) result"
proof -
  let ?c = "canonical env texts"
  note c = normalizeCIDRs_canonical [OF assms]
  have print: "prefix_ok p \<Longrightarrow> ParsePrefix env (PrefixString env p) = Some p \<and> TrimSpace (PrefixString env p) = PrefixString env p" for p
    using assms(1) by (simp add: env_ok_def)
  have mp: "p \<in> set ?c \<Longrightarrow> mustParsePrefix env (PrefixString env p) = p" for p
    using print c(5) by (simp add: mustParsePrefix_def)
  have "parsed env result = set ?c" unfolding c(1) by (rule parsed_printed [OF assms(1)]) (use c(5) in blast)
  moreover have "(\<exists>p \<in> set ?c. InPrefix p a) \<longleftrightarrow> (\<exists>p \<in> parsed env texts. InPrefix p a)" for a
  proof
    assume "\<exists>p \<in> set ?c. InPrefix p a"
    then obtain p where "p \<in> Masked ` parsed env texts" "InPrefix p a" using c(4) by blast
    then show "\<exists>p \<in> parsed env texts. InPrefix p a" by auto
  next
    assume "\<exists>p \<in> parsed env texts. InPrefix p a"
    then obtain p where p: "p \<in> parsed env texts" "InPrefix p a" by blast
    have ok: "prefix_ok (Masked p)" using p(1) assms(1) by (auto simp: env_ok_def parsed_def simp del: Masked_simps intro!: prefix_ok_masked)
    have "Masked p \<in> set ?c \<or> (\<exists>e \<in> set ?c. prefixesOverlap e (Masked p) \<and> pf_Bits e \<le> pf_Bits (Masked p))" using c(6) p(1) by blast
    then show "\<exists>p \<in> set ?c. InPrefix p a"
    proof
      assume "\<exists>e \<in> set ?c. prefixesOverlap e (Masked p) \<and> pf_Bits e \<le> pf_Bits (Masked p)"
      then obtain e where e: "e \<in> set ?c" "prefixesOverlap e (Masked p)" "pf_Bits e \<le> pf_Bits (Masked p)" by blast
      have "InPrefix e a" by (rule overlap_covers [OF _ ok e(2,3)]) (use e(1) c(5) p(2) in auto)
      then show ?thesis using e(1) by blast
    qed (use p(2) in \<open>auto intro: bexI [of _ "Masked p"]\<close>)
  qed
  moreover have "sorted_wrt (\<lambda>s t. \<not> (\<exists>a. InPrefix (mustParsePrefix env s) a \<and> InPrefix (mustParsePrefix env t) a)) result"
    unfolding c(1) sorted_wrt_map
    by (rule sorted_wrt_mono_rel [OF _ c(3)]) (use mp c(5) common_overlaps in auto)
  moreover have "list_all (\<lambda>s. safe_prefix (mustParsePrefix env s)) result"
    unfolding c(1) using mp c(5) by (auto simp: list_all_iff)
  ultimately show ?thesis by (auto simp: covers_def)
qed

text \<open>C29. The CIDR lists of a snapshot say what the discovered lists said: the normalized list covers exactly the addresses
  that the given list covers, no address lies in two of its prefixes, and each of its prefixes is masked, long
  enough and starts at an allowed address.\<close>

theorem cidrs_cover_same_addresses:
  assumes "env_ok env" "normalizeCIDRs env texts kind = Inr result"
  shows "(\<forall>a. covers env result a \<longleftrightarrow> covers env texts a) \<and>
    sorted_wrt (\<lambda>s t. \<not> (\<exists>a. InPrefix (mustParsePrefix env s) a \<and> InPrefix (mustParsePrefix env t) a)) result \<and>
    list_all (\<lambda>s. safe_prefix (mustParsePrefix env s)) result"
  by (rule cidrs_cover [OF assms])

text \<open>The normalized list depends only on the masked prefixes, and normalizing it again changes nothing.\<close>

lemma canonical_unique:
  assumes "env_ok env" "normalizeCIDRs env texts kind = Inr r" "normalizeCIDRs env texts' kind' = Inr r'"
    and "Masked ` parsed env texts = Masked ` parsed env texts'"
  shows "r = r'"
proof -
  obtain ps ps' where ps: "parseCIDRs env kind [] texts = Inr ps" "r = map (PrefixString env) (keepPrefixes [] (SortFunc comparePrefixes ps))"
    "parseCIDRs env kind' [] texts' = Inr ps'" "r' = map (PrefixString env) (keepPrefixes [] (SortFunc comparePrefixes ps'))"
    using assms(2,3) by (auto simp: normalizeCIDRs_def bindE_def split: sum.splits)
  have s1: "set ps = Masked ` parsed env texts" "distinct ps" using parseCIDRs_result [OF ps(1)] by simp_all
  have s2: "set ps' = Masked ` parsed env texts'" "distinct ps'" using parseCIDRs_result [OF ps(3)] by simp_all
  have s: "set ps = set ps'" "distinct ps" "distinct ps'" "set ps = Masked ` parsed env texts" using s1 s2 assms(4) by simp_all
  have pok: "p \<in> set ps \<Longrightarrow> prefix_ok p" for p
    using assms(1) s(4) by (auto simp: env_ok_def parsed_def simp del: Masked_simps intro!: prefix_ok_masked)
  have "SortFunc comparePrefixes ps = SortFunc comparePrefixes ps'"
  proof (rule SortFunc_unique [OF s(1-3)])
    show "inj_on prefix_key (set ps)" by (rule inj_onI) (blast intro: prefix_key_inj pok)
  qed (simp add: compare_key pok)
  then show ?thesis using ps by simp
qed

lemma normalizeCIDRs_idem:
  assumes ok: "env_ok env" and n: "normalizeCIDRs env texts kind = Inr result"
  shows "normalizeCIDRs env result kind' = Inr result"
proof -
  let ?c = "canonical env texts"
  note c = normalizeCIDRs_canonical [OF assms]
  have print: "p \<in> set ?c \<Longrightarrow> ParsePrefix env (TrimSpace (PrefixString env p)) = Some p" for p
    using ok c(5) by (simp add: env_ok_def)
  have dist: "distinct ?c"
  proof -
    have "p \<in> set ?c \<Longrightarrow> prefixesOverlap p p" for p
      using c(5) by (simp add: overlap_agree)
    then show ?thesis using c(3) by (auto simp: distinct_conv_nth sorted_wrt_iff_nth_less) (metis linorder_neqE_nat nth_mem)
  qed
  have "parseCIDRs env kind' acc (map (PrefixString env) cs) = Inr (acc @ cs)" if "distinct (acc @ cs)" "set cs \<subseteq> set ?c" for acc cs
    using that
  proof (induction cs arbitrary: acc)
    case (Cons p cs)
    have "Masked p = p" "safe_prefix (Masked p)" using Cons.prems(2) c(5) by (auto simp: safe_prefix_def)
    then show ?case using Cons print by (simp add: parseCIDRs_Cons)
  qed simp
  from this [of "[]" ?c] dist have p: "parseCIDRs env kind' [] result = Inr ?c" unfolding c(1) by simp
  have "SortFunc comparePrefixes ?c = ?c"
  proof (rule map_sorted_distinct_set_unique [of prefix_key])
    show "inj_on prefix_key (set (SortFunc comparePrefixes ?c) \<union> set ?c)" using c(5) by (auto intro!: inj_onI prefix_key_inj)
    show "sorted (map prefix_key (SortFunc comparePrefixes ?c))" by (rule sort_canonical) (use c(5) in auto)
    have "distinct (SortFunc comparePrefixes ?c)" using dist by (metis card_distinct distinct_card length_SortFunc set_SortFunc)
    then show "distinct (map prefix_key (SortFunc comparePrefixes ?c))" using c(5) by (auto simp: distinct_map intro!: inj_onI prefix_key_inj)
    show "distinct (map prefix_key ?c)" using dist c(5) by (auto simp: distinct_map intro!: inj_onI prefix_key_inj)
  qed (use c(2) in auto)
  then show ?thesis using p keepPrefixes_id [of "[]" ?c] c(1,3) by (simp add: normalizeCIDRs_def)
qed

section \<open>Address lists\<close>

text \<open>What a printed, allowed address is: reading it gives it back.\<close>

definition address_text :: "net_env \<Rightarrow> string \<Rightarrow> bool" where
  "address_text env s \<longleftrightarrow> (\<exists>a. ParseAddr env (TrimSpace s) = Some a \<and> AllowedAddress (Unmap a) \<and> AddrString env (Unmap a) = s)"

definition address_of :: "net_env \<Rightarrow> string \<Rightarrow> string" where
  "address_of env s = AddrString env (Unmap (the (ParseAddr env (TrimSpace s))))"

lemma printed_address:
  assumes "env_ok env" "ParseAddr env (TrimSpace s) = Some a" "AllowedAddress (Unmap a)"
  shows "address_text env (AddrString env (Unmap a))"
proof (cases a)
  case (V4 w)
  then show ?thesis using assms by (auto simp: address_text_def env_ok_def)
next
  case (V6 w zone)
  show ?thesis
  proof (cases "drop_bit 32 w = 0xffff")
    case True
    then have "Unmap a = V4 (ucast w)" using V6 by simp
    then show ?thesis using assms(1,3) by (auto simp: address_text_def env_ok_def)
  next
    case False
    then have "Unmap a = a" using V6 by simp
    then show ?thesis using assms by (auto simp: address_text_def env_ok_def)
  qed
qed

lemma parseAddresses_Cons:
  "parseAddresses env kind acc (raw # raws) = Inr rs \<longleftrightarrow> (\<exists>a. ParseAddr env (TrimSpace raw) = Some a \<and> AllowedAddress (Unmap a) \<and>
     parseAddresses env kind (if AddrString env (Unmap a) \<in> set acc then acc else acc @ [AddrString env (Unmap a)]) raws = Inr rs)"
  by (cases "ParseAddr env (TrimSpace raw)") (simp_all add: Let_def)

declare parseAddresses.simps(2) [simp del]

lemma parseAddresses_result:
  assumes "env_ok env" "parseAddresses env kind acc texts = Inr rs" "distinct acc" "\<And>s. s \<in> set acc \<Longrightarrow> address_text env s"
  shows "set rs = set acc \<union> address_of env ` set texts \<and> distinct rs \<and> (\<forall>s \<in> set rs. address_text env s)"
  using assms(2-4)
proof (induction texts arbitrary: acc)
  case (Cons raw raws)
  obtain a where a: "ParseAddr env (TrimSpace raw) = Some a" "AllowedAddress (Unmap a)"
    and rest: "parseAddresses env kind (if AddrString env (Unmap a) \<in> set acc then acc else acc @ [AddrString env (Unmap a)]) raws = Inr rs"
    using Cons.prems(1) unfolding parseAddresses_Cons by blast
  let ?acc = "if AddrString env (Unmap a) \<in> set acc then acc else acc @ [AddrString env (Unmap a)]"
  have "set rs = set ?acc \<union> address_of env ` set raws \<and> distinct rs \<and> (\<forall>s \<in> set rs. address_text env s)"
    by (rule Cons.IH [OF rest]) (use Cons.prems(2,3) printed_address [OF assms(1) a] in \<open>auto split: if_splits\<close>)
  then show ?case using a by (auto simp: address_of_def)
qed simp

lemma parseAddresses_again:
  "distinct (acc @ rs) \<Longrightarrow> (\<And>s. s \<in> set rs \<Longrightarrow> address_text env s) \<Longrightarrow> parseAddresses env kind acc rs = Inr (acc @ rs)"
proof (induction rs arbitrary: acc)
  case (Cons s rs)
  obtain a where "ParseAddr env (TrimSpace s) = Some a" "AllowedAddress (Unmap a)" "AddrString env (Unmap a) = s"
    using Cons.prems(2) [of s] by (auto simp: address_text_def)
  then show ?case using Cons.prems Cons.IH [of "acc @ [s]"] by (simp add: parseAddresses_Cons)
qed simp

lemma strings_order: "compareStrings s t \<le> 0 \<longleftrightarrow> s \<le> t"
  by (auto simp: compareStrings_def)

lemma sorted_strings: "sorted (SortFunc compareStrings xs)"
  using sorted_SortFunc [of xs compareStrings "\<lambda>s. s"] by (simp add: strings_order)

lemma distinct_SortFunc: "distinct (SortFunc cmp xs) = distinct xs"
  by (metis card_distinct distinct_card length_SortFunc set_SortFunc)

lemma strings_unique: "set xs = set ys \<Longrightarrow> distinct xs \<Longrightarrow> distinct ys \<Longrightarrow> SortFunc compareStrings xs = SortFunc compareStrings ys"
  by (rule SortFunc_unique [of xs ys "\<lambda>s. s"]) (simp_all add: strings_order)

lemma sorted_strings_id: "sorted xs \<Longrightarrow> distinct xs \<Longrightarrow> SortFunc compareStrings xs = xs"
  by (rule sorted_distinct_set_unique) (simp_all add: sorted_strings distinct_SortFunc)

definition address_list :: "net_env \<Rightarrow> string list \<Rightarrow> bool" where
  "address_list env xs \<longleftrightarrow> sorted xs \<and> distinct xs \<and> (\<forall>s \<in> set xs. address_text env s)"

lemma normalizeAddresses_list:
  assumes "env_ok env" "normalizeAddresses env texts kind = Inr rs"
  shows "address_list env rs" "set rs = address_of env ` set texts"
  using assms parseAddresses_result [OF assms(1), of kind "[]" texts]
  by (auto simp: normalizeAddresses_def address_list_def bindE_def sorted_strings distinct_SortFunc split: sum.splits)

lemma normalizeAddresses_id: "address_list env rs \<Longrightarrow> normalizeAddresses env rs kind = Inr rs"
  using parseAddresses_again [of "[]" rs env kind] by (auto simp: normalizeAddresses_def address_list_def sorted_strings_id)

lemma normalizeDNSServer_list:
  assumes "env_ok env" "normalizeDNSServer env server ips = Inr (dns, ips')" "address_list env ips"
  shows "address_list env ips' \<and> (dns = '''' \<or> address_text env dns \<and> dns \<in> set ips')"
  using assms printed_address [OF assms(1)]
  by (auto simp: normalizeDNSServer_def Let_def address_list_def sorted_strings distinct_SortFunc split: if_splits option.splits)

lemma normalizeDNSServer_id:
  assumes "env_ok env" "dns = '''' \<or> address_text env dns \<and> dns \<in> set ips"
  shows "normalizeDNSServer env dns ips = Inr (dns, ips)"
proof (cases "dns = ''''")
  case True
  then show ?thesis by (simp add: normalizeDNSServer_def text_eval)
next
  case False
  then obtain a where a: "ParseAddr env (TrimSpace dns) = Some a" "AllowedAddress (Unmap a)" "AddrString env (Unmap a) = dns" "dns \<in> set ips"
    using assms(2) by (auto simp: address_text_def)
  have "TrimSpace dns = dns"
    using a assms(1) printed_address [OF assms(1) a(1,2)] by (cases a) (auto simp: env_ok_def split: if_splits)
  then show ?thesis using a False by (simp add: normalizeDNSServer_def Let_def)
qed

section \<open>Domain lists\<close>

lemma valid_label_chars: "ValidLabel l \<Longrightarrow> list_all (\<lambda>c. c = CHR ''-'' \<or> asciiLowerAlphaNumeric c) l \<and> l \<noteq> '''' \<and> asciiLowerAlphaNumeric (last l)"
proof -
  assume v: "ValidLabel l"
  then obtain c cs where l: "l = c # cs" by (cases l) (auto simp: ValidLabel_def)
  show ?thesis
  proof (cases "cs = []")
    case False
    then have "set cs = insert (last cs) (set (butlast cs))" by (metis Un_insert_right append_butlast_last_id list.simps(15) list.set(1) set_append sup_bot_right)
    then show ?thesis using v l False by (simp add: ValidLabel_def list_all_iff)
  qed (use v l in \<open>simp add: ValidLabel_def\<close>)
qed

lemma Split_last: "Split (u @ [sep]) sep = Split u sep @ [[]]"
  by (induction u) (auto split: list.splits)

lemma Split_chars: "c \<in> set s \<Longrightarrow> c = sep \<or> (\<exists>w \<in> set (Split s sep). c \<in> set w)"
  by (induction s) (auto split: list.splits)

lemma valid_domain:
  assumes "ValidClusterDomain d"
  shows "normalizeDomain ul d = d" "d \<noteq> ''''"
proof -
  have labels: "list_all ValidLabel (Split d CHR ''.'')" using assms by (simp add: ValidClusterDomain_def)
  show "d \<noteq> ''''" using assms by (simp add: ValidClusterDomain_def)
  have chars: "c = CHR ''.'' \<or> c = CHR ''-'' \<or> asciiLowerAlphaNumeric c" if "c \<in> set d" for c
    using Split_chars [OF that, of "CHR ''.''"] labels valid_label_chars by (auto simp: list_all_iff)
  have vis: "c \<in> set d \<Longrightarrow> visible_ascii c \<and> code c < 128 \<and> lower_char c = c" for c
    using chars [of c] by (auto simp: visible_ascii_def asciiLowerAlphaNumeric_def lower_char_def)
  then have "TrimSpace d = d" "ToLower ul d = d"
    by (auto simp: TrimSpace_visible list_all_iff ToLower_def is_ascii_def intro: map_idI)
  moreover have "\<not> HasSuffix d ''.''"
  proof
    assume "HasSuffix d ''.''"
    then obtain u where "d = u @ [CHR ''.'']" by (auto simp: HasSuffix_def) (metis append_take_drop_id)
    then show False using labels valid_label_chars by (auto simp: Split_last)
  qed
  ultimately show "normalizeDomain ul d = d" by (simp add: normalizeDomain_def TrimSuffix_def)
qed

lemma addDomains_Cons_valid:
  "ValidClusterDomain d \<Longrightarrow> addDomains ul quote out (d # ds) = addDomains ul quote (if d \<in> set out then out else out @ [d]) ds"
  using valid_domain(1) [of d ul] valid_domain(2) [of d] by (simp add: Let_def)

lemma addDomains_again: "list_all ValidClusterDomain ds \<Longrightarrow> distinct (out @ ds) \<Longrightarrow> addDomains ul quote out (ds @ es) = addDomains ul quote (out @ ds) es"
  by (induction ds arbitrary: out) (simp_all add: addDomains_Cons_valid del: addDomains.simps)

lemma addDomains_result:
  "addDomains ul quote out raws = Inr ds \<Longrightarrow> list_all ValidClusterDomain out \<Longrightarrow> distinct out \<Longrightarrow>
     list_all ValidClusterDomain ds \<and> distinct ds \<and> set out \<subseteq> set ds \<and> (\<forall>d \<in> set raws. ValidClusterDomain d \<longrightarrow> d \<in> set ds)"
proof (induction raws arbitrary: out)
  case (Cons raw raws)
  show ?case
  proof (cases "normalizeDomain ul raw = ''''")
    case True
    have "\<not> ValidClusterDomain raw" using valid_domain(1) [of raw ul] valid_domain(2) [of raw] True by auto
    then show ?thesis using Cons True by simp
  next
    case False
    let ?d = "normalizeDomain ul raw"
    let ?out = "if ?d \<in> set out then out else out @ [?d]"
    have v: "ValidClusterDomain ?d" and r: "addDomains ul quote ?out raws = Inr ds"
      using Cons.prems(1) False by (auto simp: Let_def split: if_splits)
    have "list_all ValidClusterDomain ds \<and> distinct ds \<and> set ?out \<subseteq> set ds \<and> (\<forall>d \<in> set raws. ValidClusterDomain d \<longrightarrow> d \<in> set ds)"
      by (rule Cons.IH [OF r]) (use Cons.prems v in auto)
    moreover have "?d \<in> set ?out" "ValidClusterDomain raw \<Longrightarrow> ?d = raw" using valid_domain(1) [of raw ul] by auto
    ultimately show ?thesis by (auto split: if_splits)
  qed
qed simp

lemma default_domain: "ValidClusterDomain DefaultClusterDomain"
  by (simp add: ValidClusterDomain_def DefaultClusterDomain_def ValidLabel_def asciiLowerAlphaNumeric_def)

definition domain_list :: "string list \<Rightarrow> bool" where
  "domain_list ds \<longleftrightarrow> list_all ValidClusterDomain ds \<and> distinct ds \<and> ds \<noteq> [] \<and> hd ds = DefaultClusterDomain"

lemma NormalizeClusterDomains_list:
  assumes "NormalizeClusterDomains ul quote raws = Inr ds"
  shows "domain_list ds"
proof -
  obtain out where o: "addDomains ul quote [] (raws @ [DefaultClusterDomain]) = Inr out"
    and ds: "ds = (if length out > 1 \<and> hd out \<noteq> DefaultClusterDomain then DefaultClusterDomain # filter (\<lambda>d. d \<noteq> DefaultClusterDomain) out else out)"
    using assms by (auto simp: NormalizeClusterDomains_def bindE_def split: sum.splits if_splits)
  have r: "list_all ValidClusterDomain out" "distinct out" "DefaultClusterDomain \<in> set out"
    using addDomains_result [OF o] default_domain by auto
  obtain d rest where out: "out = d # rest" using r(3) by (cases out) auto
  have "out \<noteq> []" "\<not> length out > 1 \<Longrightarrow> hd out = DefaultClusterDomain" using r(3) by (simp_all add: out)
  then show ?thesis using r default_domain unfolding ds by (auto simp: domain_list_def list_all_iff)
qed

lemma NormalizeClusterDomains_id: "domain_list ds \<Longrightarrow> NormalizeClusterDomains ul quote ds = Inr ds"
proof -
  assume d: "domain_list ds"
  then have "addDomains ul quote [] (ds @ [DefaultClusterDomain]) = addDomains ul quote ds [DefaultClusterDomain]"
    using addDomains_again [of ds "[]" ul quote "[DefaultClusterDomain]"] by (simp add: domain_list_def)
  also have "\<dots> = addDomains ul quote ds []"
    unfolding addDomains_Cons_valid [OF default_domain] using d hd_in_set [of ds] by (simp add: domain_list_def)
  finally have "addDomains ul quote [] (ds @ [DefaultClusterDomain]) = Inr ds" by simp
  then show ?thesis using d by (simp add: NormalizeClusterDomains_def domain_list_def)
qed

section \<open>Normal forms\<close>

text \<open>What the successive steps of a successful normalization found.\<close>

definition normalizes :: "net_env \<Rightarrow> Spec \<Rightarrow> Spec \<Rightarrow> bool" where
  "normalizes env input r \<longleftrightarrow> (ns_Version input = 0 \<or> ns_Version input = spec_version) \<and> itemCount input \<le> MaximumItems \<and>
     normalizeCIDRs env (ns_PodCIDRs input) ''Pod'' = Inr (ns_PodCIDRs r) \<and>
     normalizeAddresses env (ns_PodIPs input) ''Pod'' = Inr (ns_PodIPs r) \<and>
     normalizeCIDRs env (ns_ServiceCIDRs input) ''Service'' = Inr (ns_ServiceCIDRs r) \<and>
     (\<exists>ips. normalizeAddresses env (ns_ServiceIPs input) ''Service'' = Inr ips \<and>
        normalizeDNSServer env (ns_DNSServer input) ips = Inr (ns_DNSServer r, ns_ServiceIPs r)) \<and>
     NormalizeClusterDomains (ne_ul env) (ne_quote env) (ns_ClusterDomains input) = Inr (ns_ClusterDomains r)"

definition acceptable :: "net_env \<Rightarrow> Spec \<Rightarrow> bool" where
  "acceptable env r \<longleftrightarrow> ns_Version r = spec_version \<and>
     length (ns_PodCIDRs r) + length (ns_PodIPs r) + length (ns_ServiceCIDRs r) + length (ns_ServiceIPs r) \<noteq> 0 \<and>
     \<not> list_ex (\<lambda>pod. list_ex (\<lambda>service. prefixesOverlap (mustParsePrefix env pod) (mustParsePrefix env service)) (ns_ServiceCIDRs r)) (ns_PodCIDRs r) \<and>
     int (length (ne_Marshal env r)) \<le> MaximumJSONSize"

lemma bindE_Inr_iff: "bindE m f = Inr y \<longleftrightarrow> (\<exists>x. m = Inr x \<and> f x = Inr y)"
  by (cases m) auto

lemma Normalize_iff: "Normalize env input = Inr r \<longleftrightarrow> normalizes env input r \<and> acceptable env r"
proof
  assume n: "Normalize env input = Inr r"
  have v: "ns_Version input = 0 \<or> ns_Version input = spec_version" "itemCount input \<le> MaximumItems"
    using n by (auto simp: Normalize_def Let_def itemCount_def split: if_splits)
  define i where "i = (if ns_Version input = 0 then input \<lparr> ns_Version := spec_version \<rparr> else input)"
  have i: "ns_Version i = spec_version" "itemCount i = itemCount input" "ns_PodCIDRs i = ns_PodCIDRs input" "ns_PodIPs i = ns_PodIPs input"
    "ns_ServiceCIDRs i = ns_ServiceCIDRs input" "ns_ServiceIPs i = ns_ServiceIPs input" "ns_DNSServer i = ns_DNSServer input"
    "ns_ClusterDomains i = ns_ClusterDomains input" using v by (auto simp: i_def itemCount_def)
  show "normalizes env input r \<and> acceptable env r"
    using n v unfolding Normalize_def i_def [symmetric] Let_def i bindE_Inr_iff
    by (auto simp: normalizes_def acceptable_def bindE_Inr_iff not_less split: if_splits)
next
  assume a: "normalizes env input r \<and> acceptable env r"
  then obtain ips where ips: "normalizeAddresses env (ns_ServiceIPs input) ''Service'' = Inr ips"
    "normalizeDNSServer env (ns_DNSServer input) ips = Inr (ns_DNSServer r, ns_ServiceIPs r)" by (auto simp: normalizes_def)
  have r: "\<lparr> ns_Version = spec_version, ns_PodCIDRs = ns_PodCIDRs r, ns_PodIPs = ns_PodIPs r, ns_ServiceCIDRs = ns_ServiceCIDRs r,
      ns_ServiceIPs = ns_ServiceIPs r, ns_DNSServer = ns_DNSServer r, ns_ClusterDomains = ns_ClusterDomains r \<rparr> = r"
    using a by (cases r) (simp add: acceptable_def)
  define i where "i = (if ns_Version input = 0 then input \<lparr> ns_Version := spec_version \<rparr> else input)"
  have i: "ns_Version i = spec_version" "itemCount i = itemCount input" "ns_PodCIDRs i = ns_PodCIDRs input" "ns_PodIPs i = ns_PodIPs input"
    "ns_ServiceCIDRs i = ns_ServiceCIDRs input" "ns_ServiceIPs i = ns_ServiceIPs input" "ns_DNSServer i = ns_DNSServer input"
    "ns_ClusterDomains i = ns_ClusterDomains input" using a by (auto simp: i_def itemCount_def normalizes_def)
  show "Normalize env input = Inr r"
    using a ips unfolding Normalize_def i_def [symmetric] Let_def i
    by (simp add: normalizes_def acceptable_def r not_less)
qed

text \<open>A normalized snapshot normalizes to itself, up to the number of its items.\<close>

lemma normalizes_again:
  assumes ok: "env_ok env" and n: "Normalize env input = Inr r" and few: "itemCount r \<le> MaximumItems"
  shows "Normalize env r = Inr r"
proof -
  have a: "acceptable env r" and s: "normalizes env input r" using n by (simp_all add: Normalize_iff)
  obtain ips where ips: "normalizeAddresses env (ns_ServiceIPs input) ''Service'' = Inr ips"
    "normalizeDNSServer env (ns_DNSServer input) ips = Inr (ns_DNSServer r, ns_ServiceIPs r)" using s by (auto simp: normalizes_def)
  have srv: "address_list env (ns_ServiceIPs r)" "ns_DNSServer r = '''' \<or> address_text env (ns_DNSServer r) \<and> ns_DNSServer r \<in> set (ns_ServiceIPs r)"
    using normalizeDNSServer_list [OF ok ips(2) normalizeAddresses_list(1) [OF ok ips(1)]] by auto
  have pods: "address_list env (ns_PodIPs r)" using s normalizeAddresses_list(1) [OF ok] by (auto simp: normalizes_def)
  have doms: "domain_list (ns_ClusterDomains r)" using s NormalizeClusterDomains_list by (auto simp: normalizes_def)
  have cidrs: "normalizeCIDRs env (ns_PodCIDRs r) ''Pod'' = Inr (ns_PodCIDRs r)" "normalizeCIDRs env (ns_ServiceCIDRs r) ''Service'' = Inr (ns_ServiceCIDRs r)"
    using s by (auto simp: normalizes_def intro: normalizeCIDRs_idem [OF ok])
  have "normalizes env r r"
    unfolding normalizes_def
    using a few cidrs normalizeAddresses_id [OF pods] normalizeAddresses_id [OF srv(1)] normalizeDNSServer_id [OF ok srv(2)] NormalizeClusterDomains_id [OF doms]
    by (simp add: acceptable_def)
  then show ?thesis using a by (simp add: Normalize_iff)
qed

text \<open>C30. A stored snapshot is read back as it was: what \<^verbatim>\<open>CanonicalJSON\<close> writes for a snapshot is decoded to its normal
  form, the normal form is normal, and both have the same hash, as long as the normal form has no more than the
  4096 items that a snapshot may have.\<close>

theorem canonical_form_roundtrip:
  assumes "env_ok env" "Normalize env input = Inr r" "itemCount r \<le> MaximumItems"
    and "ne_Unmarshal env (ne_Marshal env r) = Some (r, False)" "ne_Marshal env r \<noteq> []"
  shows "CanonicalJSON env input = Inr (ne_Marshal env r) \<and> DecodeSpec env (ne_Marshal env r) = Inr r \<and>
    Normalize env r = Inr r \<and> Hash env r = Hash env input"
proof -
  have n: "Normalize env r = Inr r" by (rule normalizes_again [OF assms(1-3)])
  have "int (length (ne_Marshal env r)) \<le> MaximumJSONSize" using assms(2) by (simp add: Normalize_iff acceptable_def)
  then show ?thesis using assms n by (simp add: CanonicalJSON_def DecodeSpec_def Hash_def)
qed

text \<open>The order and the repetitions in which discovery reports resources do not matter: two snapshots with the same
  masked prefixes, the same addresses, the same DNS server and the same domains have the same normal form, hence
  the same hash.\<close>

theorem normal_form_ignores_order:
  assumes "env_ok env" "Normalize env x = Inr r" "Normalize env y = Inr t"
    and "Masked ` parsed env (ns_PodCIDRs x) = Masked ` parsed env (ns_PodCIDRs y)"
    and "Masked ` parsed env (ns_ServiceCIDRs x) = Masked ` parsed env (ns_ServiceCIDRs y)"
    and "address_of env ` set (ns_PodIPs x) = address_of env ` set (ns_PodIPs y)"
    and "address_of env ` set (ns_ServiceIPs x) = address_of env ` set (ns_ServiceIPs y)"
    and "ns_DNSServer x = ns_DNSServer y" "ns_ClusterDomains x = ns_ClusterDomains y"
  shows "r = t \<and> Hash env x = Hash env y"
proof -
  have same: "r1 = r2" if "normalizeAddresses env xs kind = Inr r1" "normalizeAddresses env ys kind' = Inr r2"
    "address_of env ` set xs = address_of env ` set ys" for xs ys kind kind' r1 r2
    using normalizeAddresses_list [OF assms(1) that(1)] normalizeAddresses_list [OF assms(1) that(2)] that(3)
    by (intro sorted_distinct_set_unique) (auto simp: address_list_def)
  have s: "normalizes env x r" "normalizes env y t" and v: "ns_Version r = ns_Version t" using assms(2,3) by (simp_all add: Normalize_iff acceptable_def)
  have "ns_PodCIDRs r = ns_PodCIDRs t" "ns_ServiceCIDRs r = ns_ServiceCIDRs t"
    using s canonical_unique [OF assms(1) _ _ assms(4)] canonical_unique [OF assms(1) _ _ assms(5)] by (auto simp: normalizes_def)
  moreover have "ns_PodIPs r = ns_PodIPs t" using s same [OF _ _ assms(6)] by (auto simp: normalizes_def)
  moreover have "ns_DNSServer r = ns_DNSServer t \<and> ns_ServiceIPs r = ns_ServiceIPs t"
  proof -
    obtain i1 i2 where i: "normalizeAddresses env (ns_ServiceIPs x) ''Service'' = Inr i1" "normalizeDNSServer env (ns_DNSServer x) i1 = Inr (ns_DNSServer r, ns_ServiceIPs r)"
      "normalizeAddresses env (ns_ServiceIPs y) ''Service'' = Inr i2" "normalizeDNSServer env (ns_DNSServer y) i2 = Inr (ns_DNSServer t, ns_ServiceIPs t)"
      using s by (auto simp: normalizes_def)
    have "i1 = i2" by (rule same [OF i(1,3) assms(7)])
    then show ?thesis using i(2,4) assms(8) by simp
  qed
  moreover have "ns_ClusterDomains r = ns_ClusterDomains t" using s assms(9) by (simp add: normalizes_def)
  ultimately have "r = t" using v by simp
  then show ?thesis using assms(2,3) by (simp add: Hash_def CanonicalJSON_def)
qed


section \<open>What an accepted prefix reaches\<close>

lemma drop_first: "16 \<le> n \<Longrightarrow> n \<le> 32 \<Longrightarrow> drop_bit (32 - n) x = drop_bit (32 - n) (y :: 32 word) \<Longrightarrow> k \<ge> 16 \<Longrightarrow> drop_bit k x = drop_bit k y"
  by (erule agree_mono) simp

lemma drop_step: "drop_bit j w = c \<Longrightarrow> drop_bit (j + i) w = drop_bit i (c :: 'a::len word)"
  by (metis add.commute drop_bit_drop_bit)

lemma private_v4: "AllowedAddress (V4 w) \<longleftrightarrow> drop_bit 24 w = 10 \<or> drop_bit 20 w = 0xac1 \<or> drop_bit 16 w = 0xc0a8 \<or> drop_bit 22 w = 0x191"
proof -
  have in_cgn: "InPrefix \<lparr> pf_Addr = V4 0x64400000, pf_Bits = 10 \<rparr> (V4 w) \<longleftrightarrow> drop_bit 22 w = 0x191"
    by (auto simp: in_prefix)
  have no: "drop_bit 24 w \<noteq> 127 \<and> drop_bit 16 w \<noteq> 0xa9fe \<and> drop_bit 28 w \<noteq> 0xe \<and> w \<noteq> 0"
    if "drop_bit 24 w = 10 \<or> drop_bit 20 w = 0xac1 \<or> drop_bit 16 w = 0xc0a8 \<or> drop_bit 22 w = 0x191"
    using that
  proof (elim disjE)
    assume "drop_bit 24 w = 10"
    then show ?thesis using drop_step [of 24 w 10 4] drop_step [of 16 w "0xa9fe" 8] by auto
  next
    assume "drop_bit 20 w = 0xac1"
    then show ?thesis using drop_step [of 20 w "0xac1" 4] drop_step [of 20 w "0xac1" 8] drop_step [of 16 w "0xa9fe" 4] by auto
  next
    assume "drop_bit 16 w = 0xc0a8"
    then show ?thesis using drop_step [of 16 w "0xc0a8" 8] drop_step [of 16 w "0xc0a8" 12] by auto
  next
    assume "drop_bit 22 w = 0x191"
    then show ?thesis using drop_step [of 22 w "0x191" 2] drop_step [of 22 w "0x191" 6] drop_step [of 16 w "0xa9fe" 6] by auto
  qed
  show ?thesis using no by (auto simp: AllowedAddress_def in_cgn)
qed

text \<open>An accepted prefix reaches allowed addresses only when it is an IPv4 prefix of at least 16 bits or an IPv6 prefix
  other than of mapped IPv4 addresses: no address in it is loopback, link-local, multicast or public.\<close>

theorem long_prefix_stays_private:
  assumes "safe_prefix p" "prefix_ok p" "InPrefix p a"
    and "case pf_Addr p of V4 _ \<Rightarrow> 16 \<le> pf_Bits p | V6 w _ \<Rightarrow> drop_bit 32 w \<noteq> 0xffff"
  shows "AllowedAddress a"
proof (cases "pf_Addr p")
  case (V4 x)
  then obtain y where y: "a = V4 y" "drop_bit (32 - pf_Bits p) x = drop_bit (32 - pf_Bits p) y"
    using assms(3) by (cases a) (auto simp: in_prefix)
  have n: "16 \<le> pf_Bits p" "pf_Bits p \<le> 32" using assms(2,4) V4 by (auto simp: prefix_ok_def)
  have "AllowedAddress (V4 x)" using assms(1) V4 by (simp add: safe_prefix_def allowedPrefix_def)
  then show ?thesis using drop_first [OF n y(2)] unfolding y(1) private_v4 by simp
next
  case (V6 x zone)
  then obtain y where y: "a = V6 y ''''" "drop_bit (128 - pf_Bits p) x = drop_bit (128 - pf_Bits p) y"
    using assms(3) by (cases a) (auto simp: in_prefix)
  have "32 \<le> pf_Bits p" using assms(1) V6 by (simp add: safe_prefix_def)
  then have top: "drop_bit k x = drop_bit k y" if "k \<ge> 96" for k using agree_mono [OF y(2)] that by simp
  have "AllowedAddress (V6 x zone)" "drop_bit 32 x \<noteq> 0xffff" using assms(1,4) V6 by (simp_all add: safe_prefix_def allowedPrefix_def)
  then have x: "drop_bit 121 x = 0x7e" by (auto simp: AllowedAddress_def split: if_splits)
  then have z: "drop_bit 121 y = 0x7e" using top [of 121] by simp
  have "drop_bit 32 y \<noteq> 0xffff" using z drop_step [of 32 y "0xffff" 89] by auto
  moreover have "y \<noteq> 0" "y \<noteq> 1" using z by auto
  moreover have "drop_bit 118 y \<noteq> 0x3fa" "drop_bit 120 y \<noteq> 0xff"
    using z drop_step [of 118 y "0x3fa" 3] drop_step [of 120 y "0xff" 1] by auto
  ultimately show ?thesis using z unfolding y(1) by (simp add: AllowedAddress_def)
qed

text \<open>Only the first address of a prefix is classified: the prefix 192.168.0.0/13 is accepted although it reaches the
  public addresses from 192.169.0.0 to 192.175.255.255, which are not allowed on their own.\<close>

theorem short_prefix_admits_public_address:
  assumes "env_ok env" "ParsePrefix env (TrimSpace raw) = Some \<lparr> pf_Addr = V4 0xc0a80000, pf_Bits = 13 \<rparr>"
  shows "\<exists>result. normalizeCIDRs env [raw] kind = Inr result \<and> covers env result (V4 0xc0aa0001) \<and> \<not> AllowedAddress (V4 0xc0aa0001)"
proof -
  let ?p = "\<lparr> pf_Addr = V4 0xc0a80000, pf_Bits = 13 \<rparr>"
  have m: "Masked ?p = ?p" by (simp add: Masked_def high_def)
  have "\<not> list_ex (prefixesOverlap ?p) unsafePrefixes"
    by (simp add: unsafePrefixes_def prefixesOverlap_def in_prefix)
  then have "safe_prefix ?p" using m by (simp add: safe_prefix_def allowedPrefix_def private_v4)
  then have "parseCIDRs env kind [] [raw] = Inr [?p]" using assms(2) m by (simp add: parseCIDRs_Cons)
  then have n: "normalizeCIDRs env [raw] kind = Inr [PrefixString env ?p]" by (simp add: normalizeCIDRs_def)
  have "InPrefix ?p (V4 0xc0aa0001)" by (simp add: in_prefix)
  then have "covers env [raw] (V4 0xc0aa0001)" using assms(2) by (auto simp: covers_def parsed_def)
  then have "covers env [PrefixString env ?p] (V4 0xc0aa0001)"
    using cidrs_cover [OF assms(1) n] by blast
  moreover have "\<not> AllowedAddress (V4 0xc0aa0001)" by (simp add: private_v4)
  ultimately show ?thesis using n by blast
qed

section \<open>Instances\<close>

text \<open>An environment with the documented behaviour: addresses are printed in hexadecimal, and one snapshot is stored.\<close>

definition sample_prefix_text :: "Prefix \<Rightarrow> string" where
  "sample_prefix_text p = hexEncode (of_nat (pf_Bits p) # (case pf_Addr p of V4 w \<Rightarrow> put_uint 4 w | V6 w _ \<Rightarrow> put_uint 16 w))"

definition sample_parse_prefix :: "string \<Rightarrow> Prefix option" where
  "sample_parse_prefix s =
     (case hexDecode s of
        Some (b # bs) \<Rightarrow>
          if length bs = 4 \<and> unat b \<le> 32 then Some \<lparr> pf_Addr = V4 (get_uint bs), pf_Bits = unat b \<rparr>
          else if length bs = 16 \<and> unat b \<le> 128 then Some \<lparr> pf_Addr = V6 (get_uint bs) '''', pf_Bits = unat b \<rparr>
          else None
      | _ \<Rightarrow> None)"

definition sample_env :: "Spec \<Rightarrow> net_env" where
  "sample_env stored = \<lparr> ne_ul = \<lambda>s. s, ne_quote = \<lambda>s. s,
     ParseAddr = \<lambda>s. (case hexDecode s of Some bs \<Rightarrow> if length bs = 4 then Some (V4 (get_uint bs)) else None | None \<Rightarrow> None),
     AddrString = \<lambda>a. (case a of V4 w \<Rightarrow> hexEncode (put_uint 4 w) | V6 _ _ \<Rightarrow> ''?''),
     ParsePrefix = sample_parse_prefix, PrefixString = sample_prefix_text,
     ne_Marshal = \<lambda>_. [1], ne_Unmarshal = \<lambda>_. Some (stored, False), ne_sha256 = \<lambda>bs. bs \<rparr>"

lemma TrimSpace_hex [simp]: "TrimSpace (hexEncode bs) = hexEncode bs"
proof (rule TrimSpace_visible)
  have "visible_ascii (hexDigit n)" if "n < 16" for n using that by (auto simp: hexDigit_def visible_ascii_def)
  moreover have "unat (b :: byte) div 16 < 16" for b using unat_byte_less [of b] by linarith
  ultimately show "list_all visible_ascii (hexEncode bs)" by (auto simp: hexEncode_def hexByte_def list_all_iff)
qed

lemma sample_prefix_roundtrip: "prefix_ok p \<Longrightarrow> sample_parse_prefix (sample_prefix_text p) = Some p"
proof -
  assume p: "prefix_ok p"
  have b: "unat (of_nat (pf_Bits p) :: byte) = pf_Bits p"
    using p by (cases "pf_Addr p") (auto simp: prefix_ok_def unat_of_nat)
  show ?thesis
    using p b by (cases p; cases "pf_Addr p") (auto simp: sample_parse_prefix_def sample_prefix_text_def prefix_ok_def hexDecode_hexEncode)
qed

lemma TrimSpace_prefix_text [simp]: "TrimSpace (sample_prefix_text p) = sample_prefix_text p"
  by (simp add: sample_prefix_text_def)

lemma sample_env_ok: "env_ok (sample_env stored)"
proof -
  have "prefix_ok p" if "sample_parse_prefix s = Some p" for s p
    using that by (auto simp: sample_parse_prefix_def prefix_ok_def split: option.splits list.splits if_splits)
  moreover have "hexEncode (put_uint 4 w) \<noteq> ''''" for w :: "32 word"
    using length_hexEncode [of "put_uint 4 w"] by (metis length_put_uint list.size(3) mult_eq_0_iff zero_neq_numeral)
  ultimately show ?thesis
    by (auto simp: env_ok_def sample_env_def sample_prefix_roundtrip hexDecode_hexEncode split: option.splits if_splits Addr.split)
qed

text \<open>10.0.0.0/8, 10.1.0.0/16 and 192.168.0.0/13.\<close>

definition sample_net :: "nat \<Rightarrow> 32 word \<Rightarrow> string" where
  "sample_net n w = sample_prefix_text \<lparr> pf_Addr = V4 w, pf_Bits = n \<rparr>"

lemma sample_nets: "n \<le> 32 \<Longrightarrow> ParsePrefix (sample_env stored) (TrimSpace (sample_net n w)) = Some \<lparr> pf_Addr = V4 w, pf_Bits = n \<rparr>"
  using sample_prefix_roundtrip [of "\<lparr> pf_Addr = V4 w, pf_Bits = n \<rparr>"] by (simp add: sample_net_def sample_env_def prefix_ok_def)

lemma sample_prefix_string: "PrefixString (sample_env stored) = sample_prefix_text"
  by (simp add: sample_env_def)

lemma sample_safe:
  "Masked \<lparr> pf_Addr = V4 0x0a010000, pf_Bits = 16 \<rparr> = \<lparr> pf_Addr = V4 0x0a010000, pf_Bits = 16 \<rparr>"
  "Masked \<lparr> pf_Addr = V4 0x0a000000, pf_Bits = 8 \<rparr> = \<lparr> pf_Addr = V4 0x0a000000, pf_Bits = 8 \<rparr>"
  "safe_prefix \<lparr> pf_Addr = V4 0x0a010000, pf_Bits = 16 \<rparr>" "safe_prefix \<lparr> pf_Addr = V4 0x0a000000, pf_Bits = 8 \<rparr>"
  by (simp_all add: safe_prefix_def allowedPrefix_def private_v4 unsafePrefixes_def prefixesOverlap_def in_prefix Masked_def high_def)

definition empty_spec :: Spec where
  "empty_spec = \<lparr> ns_Version = 2, ns_PodCIDRs = [], ns_PodIPs = [], ns_ServiceCIDRs = [], ns_ServiceIPs = [], ns_DNSServer = '''', ns_ClusterDomains = [] \<rparr>"

theorem cidrs_cover_same_addresses_witness:
  "normalizeCIDRs (sample_env empty_spec) [sample_net 16 0x0a010000, sample_net 8 0x0a000000] ''Pod'' = Inr [sample_net 8 0x0a000000] \<and>
   (covers (sample_env empty_spec) [sample_net 8 0x0a000000] (V4 0x0a010203) \<longleftrightarrow>
    covers (sample_env empty_spec) [sample_net 16 0x0a010000, sample_net 8 0x0a000000] (V4 0x0a010203))"
proof -
  have p: "parseCIDRs (sample_env empty_spec) ''Pod'' [] [sample_net 16 0x0a010000, sample_net 8 0x0a000000]
      = Inr [\<lparr> pf_Addr = V4 0x0a010000, pf_Bits = 16 \<rparr>, \<lparr> pf_Addr = V4 0x0a000000, pf_Bits = 8 \<rparr>]"
    by (simp add: parseCIDRs_Cons sample_nets sample_safe)
  have n: "normalizeCIDRs (sample_env empty_spec) [sample_net 16 0x0a010000, sample_net 8 0x0a000000] ''Pod'' = Inr [sample_net 8 0x0a000000]"
    unfolding normalizeCIDRs_def p by (simp add: comparePrefixes_def prefixesOverlap_def in_prefix sample_net_def sample_prefix_string)
  then show ?thesis using cidrs_cover_same_addresses [OF sample_env_ok n] by blast
qed

theorem short_prefix_admits_public_address_witness:
  "\<exists>result. normalizeCIDRs (sample_env empty_spec) [sample_net 13 0xc0a80000] ''Pod'' = Inr result \<and>
     covers (sample_env empty_spec) result (V4 0xc0aa0001) \<and> \<not> AllowedAddress (V4 0xc0aa0001)"
  by (rule short_prefix_admits_public_address [OF sample_env_ok]) (simp add: sample_nets)

theorem long_prefix_stays_private_witness:
  "AllowedAddress (V4 0x0a0100ff)"
  by (rule long_prefix_stays_private [OF sample_safe(3)]) (simp_all add: prefix_ok_def in_prefix)

text \<open>Snapshots of \<open>n\<close> Pod addresses from 10.0.0.0 on, and their normal form.\<close>

definition pod_addresses :: "nat \<Rightarrow> string list" where
  "pod_addresses n = map (\<lambda>i. hexEncode (put_uint 4 (word_of_nat (0x0a000000 + i) :: 32 word))) [0..<n]"

definition pod_spec :: "nat \<Rightarrow> Spec" where
  "pod_spec n = empty_spec \<lparr> ns_PodIPs := pod_addresses n \<rparr>"

definition pod_normal :: "nat \<Rightarrow> Spec" where
  "pod_normal n = empty_spec \<lparr> ns_PodIPs := SortFunc compareStrings (pod_addresses n), ns_ClusterDomains := [DefaultClusterDomain] \<rparr>"

lemma pod_unat: "i < 2 ^ 24 \<Longrightarrow> unat (word_of_nat (0x0a000000 + i) :: 32 word) = 0x0a000000 + i"
  by (subst unat_of_nat) simp

lemma pod_word: "i < 2 ^ 24 \<Longrightarrow> drop_bit 24 (word_of_nat (0x0a000000 + i) :: 32 word) = 10"
proof -
  assume i: "i < 2 ^ 24"
  have "unat (drop_bit 24 (word_of_nat (0x0a000000 + i) :: 32 word)) = drop_bit 24 (0x0a000000 + i)"
    by (simp only: unat_drop_bit_eq pod_unat [OF i])
  also have "\<dots> = 10" using i by (simp add: drop_bit_eq_div)
  finally have "unat (drop_bit 24 (word_of_nat (0x0a000000 + i) :: 32 word)) = unat (10 :: 32 word)" by simp
  then show ?thesis by (rule word_unat_eq_iff [THEN iffD2])
qed

lemma pod_addresses_list:
  assumes "n \<le> 2 ^ 24"
  shows "distinct (pod_addresses n)" "s \<in> set (pod_addresses n) \<Longrightarrow> address_text (sample_env stored) s"
proof -
  have "i = j" if "i < n" "j < n" "(word_of_nat (0x0a000000 + i) :: 32 word) = word_of_nat (0x0a000000 + j)" for i j
    using that assms pod_unat [of i] pod_unat [of j] by simp
  moreover have "w = v" if "hexEncode (put_uint 4 w) = hexEncode (put_uint 4 v)" for w v :: "32 word"
  proof -
    have "put_uint 4 w = put_uint 4 v" using arg_cong [OF that, of hexDecode] by (simp add: hexDecode_hexEncode)
    then have "(get_uint (put_uint 4 w) :: 32 word) = get_uint (put_uint 4 v)" by (rule arg_cong)
    then show ?thesis by simp
  qed
  ultimately show "distinct (pod_addresses n)" by (auto simp: pod_addresses_def distinct_map inj_on_def simp del: of_nat_add)
  assume "s \<in> set (pod_addresses n)"
  then obtain i where "i < n" "s = hexEncode (put_uint 4 (word_of_nat (0x0a000000 + i) :: 32 word))"
    by (auto simp: pod_addresses_def simp del: of_nat_add)
  then show "address_text (sample_env stored) s"
    using pod_word [of i] assms by (simp add: address_text_def sample_env_def hexDecode_hexEncode private_v4 del: of_nat_add)
qed

lemma pod_spec_normal:
  assumes "0 < n" "n \<le> 4096" "set xs = set (pod_addresses n)" "distinct xs"
  shows "Normalize (sample_env stored) (empty_spec \<lparr> ns_PodIPs := xs \<rparr>) = Inr (pod_normal n)"
proof -
  have n: "n \<le> 2 ^ 24" using assms(2) by simp
  have len: "length (pod_addresses n) = n" by (simp add: pod_addresses_def)
  then have lx: "length xs = n" using assms(3,4) pod_addresses_list(1) [OF n] by (metis distinct_card)
  have "parseAddresses (sample_env stored) ''Pod'' [] xs = Inr xs"
    using parseAddresses_again [of "[]" xs] pod_addresses_list [OF n] assms(3,4) by simp
  moreover have "SortFunc compareStrings xs = SortFunc compareStrings (pod_addresses n)"
    by (rule strings_unique [OF assms(3,4) pod_addresses_list(1) [OF n]])
  ultimately have "normalizeAddresses (sample_env stored) xs ''Pod'' = Inr (SortFunc compareStrings (pod_addresses n))"
    by (simp add: normalizeAddresses_def)
  moreover have "NormalizeClusterDomains ul quote [] = Inr [DefaultClusterDomain]" for ul quote
    using addDomains_Cons_valid [OF default_domain, of ul quote "[]" "[]"] by (simp add: NormalizeClusterDomains_def del: addDomains.simps(2))
  ultimately show ?thesis
    using assms(1,2) len lx by (auto simp: Normalize_iff normalizes_def acceptable_def pod_normal_def empty_spec_def itemCount_def MaximumItems_def
        normalizeCIDRs_def normalizeAddresses_def normalizeDNSServer_def spec_version_def MaximumJSONSize_def sample_env_def text_eval)
qed

lemma pod_spec_normal_self: "0 < n \<Longrightarrow> n \<le> 4096 \<Longrightarrow> Normalize (sample_env stored) (pod_spec n) = Inr (pod_normal n)"
  unfolding pod_spec_def by (rule pod_spec_normal) (auto intro: pod_addresses_list(1))

lemma sample_stored: "ne_Marshal (sample_env stored) r = [1]" "ne_Unmarshal (sample_env stored) bs = Some (stored, False)"
  by (simp_all add: sample_env_def)


theorem canonical_form_roundtrip_witness:
  "CanonicalJSON (sample_env (pod_normal 7)) (pod_spec 7) = Inr [1] \<and> DecodeSpec (sample_env (pod_normal 7)) [1] = Inr (pod_normal 7)"
proof -
  have n: "Normalize (sample_env (pod_normal 7)) (pod_spec 7) = Inr (pod_normal 7)" by (rule pod_spec_normal_self) simp_all
  have "itemCount (pod_normal 7) \<le> MaximumItems"
    by (simp add: itemCount_def pod_normal_def empty_spec_def MaximumItems_def pod_addresses_def)
  from canonical_form_roundtrip [OF sample_env_ok n this] show ?thesis by (simp only: sample_stored) simp
qed

theorem normal_form_ignores_order_witness:
  "Normalize (sample_env empty_spec) (empty_spec \<lparr> ns_PodIPs := rev (pod_addresses 3) \<rparr>) = Inr (pod_normal 3) \<and>
   Hash (sample_env empty_spec) (pod_spec 3) = Hash (sample_env empty_spec) (empty_spec \<lparr> ns_PodIPs := rev (pod_addresses 3) \<rparr>)"
proof -
  have a: "Normalize (sample_env empty_spec) (pod_spec 3) = Inr (pod_normal 3)" by (rule pod_spec_normal_self) simp_all
  have b: "Normalize (sample_env empty_spec) (empty_spec \<lparr> ns_PodIPs := rev (pod_addresses 3) \<rparr>) = Inr (pod_normal 3)"
    by (rule pod_spec_normal) (auto intro: pod_addresses_list(1))
  from normal_form_ignores_order [OF sample_env_ok a b] b show ?thesis by (simp add: pod_spec_def)
qed

end
