(* ===== verification/NetworkDiscovery.thy ===== *)
theory NetworkDiscovery
  imports NetworkSpec
begin

text \<open>
  Discovery of the cluster network (\<^verbatim>\<open>internal/controlplane/networkapi\<close>): the answers of the Kubernetes API, which are
  the input here, become the snapshot of a session.
\<close>

section \<open>What the API answers\<close>

record Node =
  nd_PodCIDR :: string
  nd_PodCIDRs :: "string list"

record Pod =
  pd_HostNetwork :: bool
  pd_PodIP :: string
  pd_PodIPs :: "string list"

record KubeService =
  kv_Namespace :: string
  kv_Name :: string
  kv_ClusterIP :: string
  kv_ClusterIPs :: "string list"

text \<open>The lists are \<open>None\<close> when the call fails; Services and the Corefiles of ConfigMaps in kube-system are looked up by name.\<close>

record cluster_view =
  vw_Nodes :: "Node list option"
  vw_Pods :: "Pod list option"
  vw_Services :: "KubeService list option"
  vw_ServiceCIDRs :: "string list list option"
  vw_SystemService :: "string \<Rightarrow> KubeService option"
  vw_Corefile :: "string \<Rightarrow> string option"

definition coreDNSServiceName :: string where "coreDNSServiceName = ''coredns''"
definition kubeDNSServiceName :: string where "kubeDNSServiceName = ''kube-dns''"
definition maximumCorefileBytes :: int where "maximumCorefileBytes = 262144"
definition maximumDiscoveredDomains :: nat where "maximumDiscoveredDomains = 16"

section \<open>Sets of texts\<close>

text \<open>A \<^verbatim>\<open>map[string]struct{}\<close> is the list of its keys.\<close>

definition insertKey :: "string \<Rightarrow> string list \<Rightarrow> string list" where
  "insertKey key target = (if key \<in> set target then target else target @ [key])"

definition addAddress :: "net_env \<Rightarrow> string list \<Rightarrow> string \<Rightarrow> string list" where
  "addAddress env target raw =
     (case ParseAddr env raw of Some address \<Rightarrow> insertKey (AddrString env (Unmap address)) target | None \<Rightarrow> target)"

definition addPrefix :: "net_env \<Rightarrow> string list \<Rightarrow> string \<Rightarrow> string list" where
  "addPrefix env target raw =
     (case ParsePrefix env raw of Some prefix \<Rightarrow> insertKey (PrefixString env (Masked prefix)) target | None \<Rightarrow> target)"

definition addInferredPrefix :: "net_env \<Rightarrow> string list \<Rightarrow> string \<Rightarrow> string list" where
  "addInferredPrefix env target raw =
     (case ParseAddr env raw of
        None \<Rightarrow> target
      | Some read \<Rightarrow>
          let address = Unmap read; bits = (if Is4 address then 24 else 64) in
          insertKey (PrefixString env (Masked \<lparr> pf_Addr = address, pf_Bits = bits \<rparr>)) target)"

definition addServiceAddresses :: "net_env \<Rightarrow> string list \<Rightarrow> KubeService \<Rightarrow> string list" where
  "addServiceAddresses env target service = foldl (addAddress env) (addAddress env target (kv_ClusterIP service)) (kv_ClusterIPs service)"

definition sortedKeys :: "string list \<Rightarrow> string list" where
  "sortedKeys target = SortFunc compareStrings target"

section \<open>Cluster domains from the Corefile\<close>

text \<open>\<^verbatim>\<open>strings.Fields\<close>: the words between white space.\<close>

fun fieldChunks :: "string \<Rightarrow> (nat \<times> string) list \<Rightarrow> string list" where
  "fieldChunks word [] = (if word = [] then [] else [word])"
| "fieldChunks word ((r, s) # chunks) =
     (if is_space r then (if word = [] then [] else [word]) @ fieldChunks [] chunks else fieldChunks (word @ s) chunks)"

definition Fields :: "string \<Rightarrow> string list" where
  "Fields s = fieldChunks [] (rune_chunks s)"

text \<open>The loop over the words of a line; the flag says that the greatest number of domains has been reached.\<close>

fun lineDomains :: "(string \<Rightarrow> string) \<Rightarrow> string list \<Rightarrow> string list \<Rightarrow> string list \<times> bool" where
  "lineDomains ul domains [] = (domains, False)"
| "lineDomains ul domains (raw # raws) =
     (if raw = ''{'' then (domains, False)
      else let domain = normalizeDomain ul raw in
        if domain = ''in-addr.arpa'' \<or> domain = ''ip6.arpa'' \<or> \<not> ValidClusterDomain domain then lineDomains ul domains raws
        else if domain \<in> set domains then lineDomains ul domains raws
        else if length (domains @ [domain]) = maximumDiscoveredDomains then (domains @ [domain], True)
        else lineDomains ul (domains @ [domain]) raws)"

fun corefileLines :: "(string \<Rightarrow> string) \<Rightarrow> string list \<Rightarrow> string list \<Rightarrow> string list" where
  "corefileLines ul domains [] = domains"
| "corefileLines ul domains (line # rest) =
     (let fields = Fields (takeWhile (\<lambda>c. c \<noteq> CHR ''#'') line) in
      if length fields < 2 \<or> hd fields \<noteq> ''kubernetes'' then corefileLines ul domains rest
      else case lineDomains ul domains (tl fields) of
        (found, full) \<Rightarrow> if full then found else corefileLines ul found rest)"

definition parseCoreDNSClusterDomains :: "(string \<Rightarrow> string) \<Rightarrow> string \<Rightarrow> string list" where
  "parseCoreDNSClusterDomains ul corefile =
     (if length corefile = 0 \<or> int (length corefile) > maximumCorefileBytes then []
      else corefileLines ul [] (Split corefile CHR 0x0A))"

text \<open>The loop over the domains of a ConfigMap, with the same flag, and the loop over the two names.\<close>

fun mergeDomains :: "string list \<Rightarrow> string list \<Rightarrow> string list \<times> bool" where
  "mergeDomains domains [] = (domains, False)"
| "mergeDomains domains (domain # rest) =
     (if domain \<in> set domains then mergeDomains domains rest
      else if length (domains @ [domain]) = maximumDiscoveredDomains then (domains @ [domain], True)
      else mergeDomains (domains @ [domain]) rest)"

fun configMapDomains :: "net_env \<Rightarrow> cluster_view \<Rightarrow> string list \<Rightarrow> string list \<Rightarrow> string list" where
  "configMapDomains env view domains [] = domains"
| "configMapDomains env view domains (name # names) =
     (case vw_Corefile view name of
        None \<Rightarrow> configMapDomains env view domains names
      | Some corefile \<Rightarrow>
          (case mergeDomains domains (parseCoreDNSClusterDomains (ne_ul env) corefile) of
             (found, full) \<Rightarrow> if full then found else configMapDomains env view found names))"

definition discoverClusterDomains :: "net_env \<Rightarrow> cluster_view \<Rightarrow> string list" where
  "discoverClusterDomains env view = configMapDomains env view [] [coreDNSServiceName, kubeDNSServiceName]"

section \<open>Discovery\<close>

definition nodePrefixes :: "net_env \<Rightarrow> Node list \<Rightarrow> string list" where
  "nodePrefixes env nodes = foldl (\<lambda>target node. foldl (addPrefix env) (addPrefix env target (nd_PodCIDR node)) (nd_PodCIDRs node)) [] nodes"

text \<open>The loops over the Pods that are not on the network of their host.\<close>

definition podTexts :: "(string list \<Rightarrow> string \<Rightarrow> string list) \<Rightarrow> Pod list \<Rightarrow> string list \<Rightarrow> string list" where
  "podTexts add pods target =
     foldl (\<lambda>target pod. if pd_HostNetwork pod then target else foldl add (add target (pd_PodIP pod)) (pd_PodIPs pod)) target pods"

definition serviceTexts :: "net_env \<Rightarrow> KubeService list \<Rightarrow> string list" where
  "serviceTexts env services =
     foldl (\<lambda>target service. if kv_Namespace service = ''default'' \<and> kv_Name service = ''kubernetes'' then target
       else addServiceAddresses env target service) [] services"

text \<open>The first of the two DNS Services that exists gives the server.\<close>

fun systemDNS :: "net_env \<Rightarrow> cluster_view \<Rightarrow> string list \<Rightarrow> string list \<Rightarrow> string list \<times> string" where
  "systemDNS env view target [] = (target, '''')"
| "systemDNS env view target (name # names) =
     (case vw_SystemService view name of
        None \<Rightarrow> systemDNS env view target names
      | Some service \<Rightarrow>
          (addServiceAddresses env target service,
           case ParseAddr env (kv_ClusterIP service) of Some address \<Rightarrow> AddrString env (Unmap address) | None \<Rightarrow> ''''))"

definition discover :: "net_env \<Rightarrow> cluster_view \<Rightarrow> error + Spec" where
  "discover env view =
     (let nodeCIDRs = (case vw_Nodes view of Some nodes \<Rightarrow> nodePrefixes env nodes | None \<Rightarrow> []) in
      if vw_Pods view = None \<and> vw_Services view = None then Inl ''read namespace network resources''
      else
        let pods = (case vw_Pods view of Some pods \<Rightarrow> pods | None \<Rightarrow> []);
            services = (case vw_Services view of Some services \<Rightarrow> services | None \<Rightarrow> []);
            podIPs = podTexts (addAddress env) pods [];
            podCIDRs = (if nodeCIDRs = [] then podTexts (addInferredPrefix env) pods [] else nodeCIDRs);
            givenCIDRs = (case vw_ServiceCIDRs view of Some items \<Rightarrow> foldl (addPrefix env) [] (concat items) | None \<Rightarrow> []);
            (serviceIPs, dnsServer) = systemDNS env view (serviceTexts env services) [kubeDNSServiceName, coreDNSServiceName];
            serviceCIDRs = (if givenCIDRs = [] then foldl (addInferredPrefix env) [] serviceIPs else givenCIDRs) in
        Normalize env \<lparr> ns_Version = spec_version, ns_PodCIDRs = sortedKeys podCIDRs, ns_PodIPs = sortedKeys podIPs,
          ns_ServiceCIDRs = sortedKeys serviceCIDRs, ns_ServiceIPs = sortedKeys serviceIPs, ns_DNSServer = dnsServer,
          ns_ClusterDomains = discoverClusterDomains env view \<rparr>)"

section \<open>Domains are bounded and valid\<close>

definition good_domain :: "string \<Rightarrow> bool" where
  "good_domain d \<longleftrightarrow> ValidClusterDomain d \<and> d \<noteq> ''in-addr.arpa'' \<and> d \<noteq> ''ip6.arpa''"

definition few_domains :: "string list \<Rightarrow> bool" where
  "few_domains ds \<longleftrightarrow> length ds \<le> maximumDiscoveredDomains \<and> distinct ds \<and>
     list_all good_domain ds"

text \<open>Both loops stop at the bound, so below it there is room for one found domain.\<close>

definition room :: "string list \<Rightarrow> bool" where
  "room ds \<longleftrightarrow> few_domains ds \<and> length ds < maximumDiscoveredDomains"

lemma room_add:
  assumes "room ds" "good_domain d" "d \<notin> set ds"
  shows "few_domains (ds @ [d])" "length (ds @ [d]) \<noteq> maximumDiscoveredDomains \<Longrightarrow> room (ds @ [d])"
  using assms by (auto simp: room_def few_domains_def)

lemma lineDomains_few: "room ds \<Longrightarrow> lineDomains ul ds raws = (ds', full) \<Longrightarrow> few_domains ds' \<and> (\<not> full \<longrightarrow> room ds')"
proof (induction raws arbitrary: ds)
  case (Cons raw raws)
  let ?d = "normalizeDomain ul raw"
  consider (stop) "raw = ''{''" | (skip) "raw \<noteq> ''{''" "\<not> good_domain ?d \<or> ?d \<in> set ds" | (take) "raw \<noteq> ''{''" "good_domain ?d" "?d \<notin> set ds"
    by blast
  then show ?case
  proof cases
    case skip
    then have "lineDomains ul ds (raw # raws) = lineDomains ul ds raws" by (auto simp: Let_def good_domain_def)
    then show ?thesis using Cons by simp
  next
    case take
    note add = room_add [OF Cons.prems(1) take(2,3)]
    have "lineDomains ul ds (raw # raws) = (if length (ds @ [?d]) = maximumDiscoveredDomains then (ds @ [?d], True) else lineDomains ul (ds @ [?d]) raws)"
      using take by (simp add: Let_def good_domain_def)
    then show ?thesis using Cons.IH [OF add(2)] Cons.prems(2) add(1) by (auto split: if_splits)
  qed (use Cons.prems in \<open>auto simp: room_def\<close>)
qed (auto simp: room_def)

lemma corefileLines_few: "room ds \<Longrightarrow> few_domains (corefileLines ul ds rest)"
proof (induction rest arbitrary: ds)
  case (Cons line rest)
  obtain found full where l: "lineDomains ul ds (tl (Fields (takeWhile (\<lambda>c. c \<noteq> CHR ''#'') line))) = (found, full)" by fastforce
  show ?case using Cons lineDomains_few [OF Cons.prems l] l by (simp add: Let_def)
qed (simp add: room_def)

lemma mergeDomains_few:
  "room ds \<Longrightarrow> few_domains found \<Longrightarrow> mergeDomains ds found = (ds', full) \<Longrightarrow> few_domains ds' \<and> (\<not> full \<longrightarrow> room ds')"
proof (induction found arbitrary: ds)
  case (Cons d found)
  have rest: "few_domains found" using Cons.prems(2) by (simp add: few_domains_def)
  show ?case
  proof (cases "d \<in> set ds")
    case True
    then show ?thesis using Cons.IH [OF Cons.prems(1) rest] Cons.prems(3) by simp
  next
    case False
    have "good_domain d" using Cons.prems(2) by (simp add: few_domains_def)
    note add = room_add [OF Cons.prems(1) this False]
    show ?thesis
    proof (cases "length (ds @ [d]) = maximumDiscoveredDomains")
      case True
      then show ?thesis using Cons.prems(3) False add(1) by auto
    next
      case full: False
      then show ?thesis using Cons.IH [OF add(2) rest] Cons.prems(3) False by simp
    qed
  qed
qed (auto simp: room_def)

lemma room_empty: "room []"
  by (simp add: room_def few_domains_def maximumDiscoveredDomains_def)

lemma parse_few: "few_domains (parseCoreDNSClusterDomains ul corefile)"
  using corefileLines_few [OF room_empty] room_empty by (simp add: parseCoreDNSClusterDomains_def room_def)

lemma configMapDomains_few: "room ds \<Longrightarrow> few_domains (configMapDomains env view ds names)"
proof (induction names arbitrary: ds)
  case (Cons name names)
  show ?case
  proof (cases "vw_Corefile view name")
    case (Some corefile)
    obtain found full where m: "mergeDomains ds (parseCoreDNSClusterDomains (ne_ul env) corefile) = (found, full)" by fastforce
    show ?thesis using Cons Some m mergeDomains_few [OF Cons.prems parse_few m] by simp
  qed (use Cons in simp)
qed (simp add: room_def)

text \<open>Whatever the Corefiles of the cluster contain, discovery takes at most 16 domains from them, all different, all valid
  DNS names and none of them a reverse zone, so that the validation of the snapshot never fails on a domain.\<close>

theorem discovered_domains_bounded:
  "length (discoverClusterDomains env view) \<le> 16 \<and> distinct (discoverClusterDomains env view) \<and>
   (\<exists>ds. NormalizeClusterDomains ul quote (discoverClusterDomains env view) = Inr ds)"
proof -
  let ?ds = "discoverClusterDomains env view"
  have f: "few_domains ?ds" unfolding discoverClusterDomains_def by (rule configMapDomains_few [OF room_empty])
  then have v: "list_all ValidClusterDomain ?ds" "distinct ?ds" by (auto simp: few_domains_def list_all_iff good_domain_def)
  have "addDomains ul quote [] (?ds @ [DefaultClusterDomain]) = addDomains ul quote ?ds [DefaultClusterDomain]"
    using addDomains_again [of ?ds "[]" ul quote "[DefaultClusterDomain]"] v by simp
  also have "\<exists>out. \<dots> = Inr out" unfolding addDomains_Cons_valid [OF default_domain] by simp
  finally obtain out where "addDomains ul quote [] (?ds @ [DefaultClusterDomain]) = Inr out" by blast
  then have "\<exists>ds. NormalizeClusterDomains ul quote ?ds = Inr ds" by (simp add: NormalizeClusterDomains_def)
  then show ?thesis using f v(2) by (simp add: few_domains_def maximumDiscoveredDomains_def)
qed

section \<open>Which addresses are discovered\<close>

lemma set_insertKey [simp]: "set (insertKey key target) = insert key (set target)"
  by (auto simp: insertKey_def)

definition printed :: "net_env \<Rightarrow> string \<Rightarrow> string set" where
  "printed env raw = {AddrString env (Unmap a) | a. ParseAddr env raw = Some a}"

definition inferred :: "net_env \<Rightarrow> string \<Rightarrow> string set" where
  "inferred env raw = {PrefixString env (Masked \<lparr> pf_Addr = Unmap a, pf_Bits = (if Is4 (Unmap a) then 24 else 64) \<rparr>) | a. ParseAddr env raw = Some a}"

lemma set_add:
  "set (addAddress env target raw) = set target \<union> printed env raw" "set (addInferredPrefix env target raw) = set target \<union> inferred env raw"
  by (auto simp: addAddress_def addInferredPrefix_def printed_def inferred_def Let_def split: option.splits)

lemma set_foldl_add:
  assumes "\<And>target raw. set (add target raw) = set target \<union> texts raw"
  shows "set (foldl add target raws) = set target \<union> (\<Union>raw \<in> set raws. texts raw)"
  by (induction raws arbitrary: target) (auto simp: assms)

lemma set_podTexts:
  assumes "\<And>target raw. set (add target raw) = set target \<union> texts raw"
  shows "set (podTexts add pods target) = set target \<union>
    (\<Union>pod \<in> {pod \<in> set pods. \<not> pd_HostNetwork pod}. \<Union>raw \<in> set (pd_PodIP pod # pd_PodIPs pod). texts raw)"
proof (induction pods arbitrary: target)
  case (Cons pod pods)
  have e: "podTexts add (pod # pods) target = podTexts add pods
      (if pd_HostNetwork pod then target else foldl add (add target (pd_PodIP pod)) (pd_PodIPs pod))"
    by (simp add: podTexts_def)
  show ?case unfolding e Cons.IH using assms set_foldl_add [of add texts, OF assms] by auto
qed (simp add: podTexts_def)

lemma set_sortedKeys [simp]: "set (sortedKeys target) = set target"
  by (simp add: sortedKeys_def)

lemma discover_normalizes:
  assumes "discover env view = Inr r"
  obtains spec where "Normalize env spec = Inr r"
    "ns_PodIPs spec = sortedKeys (podTexts (addAddress env) (case vw_Pods view of Some pods \<Rightarrow> pods | None \<Rightarrow> []) [])"
    "(case vw_Nodes view of Some nodes \<Rightarrow> nodePrefixes env nodes | None \<Rightarrow> []) = [] \<Longrightarrow>
      ns_PodCIDRs spec = sortedKeys (podTexts (addInferredPrefix env) (case vw_Pods view of Some pods \<Rightarrow> pods | None \<Rightarrow> []) [])"
  using assms unfolding discover_def Let_def by (auto split: if_splits prod.splits)

text \<open>The Pod addresses of a discovered snapshot are exactly the addresses of the Pods that are not on the network of their
  host: the address of a host-network Pod is in the list only when another Pod has it.\<close>

theorem discovered_pod_addresses:
  assumes "env_ok env" "discover env view = Inr r" "vw_Pods view = Some pods"
  shows "set (ns_PodIPs r) = (\<lambda>a. address_of env (AddrString env (Unmap a))) `
    {a. \<exists>pod \<in> set pods. \<not> pd_HostNetwork pod \<and> (\<exists>raw \<in> set (pd_PodIP pod # pd_PodIPs pod). ParseAddr env raw = Some a)}"
proof -
  obtain spec where s: "Normalize env spec = Inr r" "ns_PodIPs spec = sortedKeys (podTexts (addAddress env) pods [])"
    using discover_normalizes [OF assms(2)] assms(3) by (metis option.simps(5))
  then have "normalizeAddresses env (ns_PodIPs spec) ''Pod'' = Inr (ns_PodIPs r)" by (simp add: Normalize_iff normalizes_def)
  from normalizeAddresses_list(2) [OF assms(1) this]
  have r: "set (ns_PodIPs r) = address_of env ` (\<Union>pod \<in> {pod \<in> set pods. \<not> pd_HostNetwork pod}. \<Union>raw \<in> set (pd_PodIP pod # pd_PodIPs pod). printed env raw)"
    unfolding s(2) set_sortedKeys set_podTexts [of "addAddress env" "printed env", OF set_add(1)] by simp
  have "(\<Union>pod \<in> {pod \<in> set pods. \<not> pd_HostNetwork pod}. \<Union>raw \<in> set (pd_PodIP pod # pd_PodIPs pod). printed env raw) =
      (\<lambda>a. AddrString env (Unmap a)) `
      {a. \<exists>pod \<in> set pods. \<not> pd_HostNetwork pod \<and> (\<exists>raw \<in> set (pd_PodIP pod # pd_PodIPs pod). ParseAddr env raw = Some a)}"
    unfolding printed_def by blast
  then show ?thesis unfolding r by (simp only: image_image)
qed

text \<open>When the Nodes publish no CIDRs, the prefixes that are inferred from the addresses of Pods also grant the other
  addresses of their /24 networks, among them addresses of hosts, although the addresses of host-network Pods are
  left out on purpose.\<close>

theorem inferred_prefix_grants_neighbours:
  assumes "env_ok env" "discover env view = Inr r" "vw_Pods view = Some pods"
    and "vw_Nodes view = None" "pod \<in> set pods" "\<not> pd_HostNetwork pod" "ParseAddr env (pd_PodIP pod) = Some (V4 w)"
    and "drop_bit 8 w = drop_bit 8 v"
  shows "covers env (ns_PodCIDRs r) (V4 v)"
proof -
  obtain spec where s: "Normalize env spec = Inr r" "ns_PodCIDRs spec = sortedKeys (podTexts (addInferredPrefix env) pods [])"
    using discover_normalizes [OF assms(2)] assms(3,4) by (metis option.simps(4,5))
  let ?p = "\<lparr> pf_Addr = V4 w, pf_Bits = 24 \<rparr>"
  have "PrefixString env (Masked ?p) \<in> inferred env (pd_PodIP pod)" using assms(7) by (force simp: inferred_def)
  then have "PrefixString env (Masked ?p) \<in> set (ns_PodCIDRs spec)"
    unfolding s(2) set_sortedKeys set_podTexts [of "addInferredPrefix env" "inferred env", OF set_add(2)] using assms(5,6) by auto
  moreover have "ParsePrefix env (TrimSpace (PrefixString env (Masked ?p))) = Some (Masked ?p)"
    using assms(1) by (simp add: env_ok_def)
  moreover have "InPrefix (Masked ?p) (V4 v)" using assms(8) unfolding in_masked by (simp add: in_prefix)
  ultimately have "covers env (ns_PodCIDRs spec) (V4 v)" by (auto simp: covers_def parsed_def)
  then show ?thesis using s(1) cidrs_cover [OF assms(1)] by (auto simp: Normalize_iff normalizes_def)
qed

section \<open>An instance\<close>

text \<open>A host at 10.0.0.5, a Pod at 10.0.0.7, and no CIDRs.\<close>

definition sample_ip :: "32 word \<Rightarrow> string" where
  "sample_ip w = hexEncode (put_uint 4 w)"

definition sample_pods :: "Pod list" where
  "sample_pods = [\<lparr> pd_HostNetwork = True, pd_PodIP = sample_ip 0x0a000005, pd_PodIPs = [] \<rparr>,
     \<lparr> pd_HostNetwork = False, pd_PodIP = sample_ip 0x0a000007, pd_PodIPs = [] \<rparr>]"

definition sample_view :: cluster_view where
  "sample_view = \<lparr> vw_Nodes = None, vw_Pods = Some sample_pods, vw_Services = None, vw_ServiceCIDRs = None, vw_SystemService = \<lambda>_. None, vw_Corefile = \<lambda>_. None \<rparr>"

definition sample_found :: Spec where
  "sample_found = empty_spec \<lparr> ns_PodCIDRs := [sample_net 24 0x0a000000], ns_PodIPs := [sample_ip 0x0a000007], ns_ClusterDomains := [DefaultClusterDomain] \<rparr>"

lemma sample_parsed: "ParseAddr (sample_env stored) (sample_ip w) = Some (V4 w)" "AddrString (sample_env stored) (V4 w) = sample_ip w"
  "TrimSpace (sample_ip w) = sample_ip w"
  by (simp_all add: sample_env_def sample_ip_def hexDecode_hexEncode)

lemma sample_discovered: "discover (sample_env stored) sample_view = Inr sample_found"
proof -
  let ?env = "sample_env stored" and ?p = "\<lparr> pf_Addr = V4 0x0a000000, pf_Bits = 24 \<rparr>"
  let ?spec = "empty_spec \<lparr> ns_PodCIDRs := [sample_net 24 0x0a000000], ns_PodIPs := [sample_ip 0x0a000007] \<rparr>"
  have m: "Masked \<lparr> pf_Addr = V4 0x0a000007, pf_Bits = 24 \<rparr> = ?p" "Masked ?p = ?p" by (simp_all add: Masked_def high_def)
  have d: "discover ?env sample_view = Normalize ?env ?spec"
    by (simp add: discover_def sample_view_def sample_pods_def podTexts_def addAddress_def addInferredPrefix_def insertKey_def sample_parsed m
        sample_prefix_string sample_net_def discoverClusterDomains_def sortedKeys_def serviceTexts_def empty_spec_def spec_version_def)
  have safe: "safe_prefix ?p" by (simp add: safe_prefix_def allowedPrefix_def private_v4 unsafePrefixes_def prefixesOverlap_def in_prefix m)
  have "parseCIDRs ?env ''Pod'' [] [sample_net 24 0x0a000000] = Inr [?p]" by (simp add: parseCIDRs_Cons sample_nets safe m)
  then have "normalizeCIDRs ?env [sample_net 24 0x0a000000] ''Pod'' = Inr [sample_net 24 0x0a000000]"
    by (simp add: normalizeCIDRs_def sample_prefix_string sample_net_def)
  moreover have "normalizeAddresses ?env [sample_ip 0x0a000007] ''Pod'' = Inr [sample_ip 0x0a000007]"
    by (rule normalizeAddresses_id) (simp add: address_list_def address_text_def sample_parsed private_v4)
  moreover have "NormalizeClusterDomains ul quote [] = Inr [DefaultClusterDomain]" for ul quote
    using addDomains_Cons_valid [OF default_domain, of ul quote "[]" "[]"] by (simp add: NormalizeClusterDomains_def del: addDomains.simps(2))
  ultimately show ?thesis
    unfolding d by (auto simp: Normalize_iff normalizes_def acceptable_def sample_found_def empty_spec_def itemCount_def MaximumItems_def
        normalizeCIDRs_def normalizeAddresses_def normalizeDNSServer_def spec_version_def MaximumJSONSize_def sample_stored text_eval)
qed

theorem inferred_prefix_grants_neighbours_witness:
  "covers (sample_env empty_spec) (ns_PodCIDRs sample_found) (V4 0x0a000005)"
  by (rule inferred_prefix_grants_neighbours [where pods = sample_pods and pod = "sample_pods ! 1" and w = "0x0a000007", OF sample_env_ok sample_discovered])
    (simp_all add: sample_view_def sample_pods_def sample_parsed)

theorem discovered_pod_addresses_witness:
  "set (ns_PodIPs sample_found) = {sample_ip 0x0a000007}"
  using discovered_pod_addresses [OF sample_env_ok sample_discovered [of empty_spec], of sample_pods]
  by (simp add: sample_view_def sample_pods_def sample_parsed address_of_def)

end
