(* ===== verification/Threads.thy ===== *)
theory Threads
  imports Prelude
begin

text \<open>
  Goroutines that share memory. A thread is the rest of its program: either it has returned, or it has a next atomic
  step, a function of the shared memory that is disabled (\<open>None\<close>) while the thread blocks. A critical section under a
  mutex, a call of another component and a wait are one step each; between two steps any other thread may act.
  Executions of a pool of threads are schedules, and a pool may be joined by a new thread at any time.

  The second half is a logic for invariants of such pools: a thread holds tokens, which no other thread holds at the
  same time and which entitle it to know something of the memory that the steps of the others leave true. Tokens are
  in the proofs only; the memory of the model has none.
\<close>

section \<open>Programs of atomic steps\<close>

datatype ('m, 'a) prog = Return 'a | Step "'m \<Rightarrow> (('m, 'a) prog \<times> 'm) option"

primrec andThen :: "('m, 'a) prog \<Rightarrow> ('a \<Rightarrow> ('m, 'b) prog) \<Rightarrow> ('m, 'b) prog" where
  "andThen (Return x) f = f x"
| "andThen (Step g) f = Step (\<lambda>m. map_option (map_prod (\<lambda>p. andThen p f) id) (g m))"

lemma prog_induct [case_names Return Step]:
  assumes "\<And>x. P (Return x)" "\<And>g. (\<And>m p m'. g m = Some (p, m') \<Longrightarrow> P p) \<Longrightarrow> P (Step g)"
  shows "P p"
proof (induction p)
  case (Step g)
  show ?case
  proof (rule assms(2))
    fix m p m' assume "g m = Some (p, m')"
    then show "P p" by (metis Step fst_conv fsts.intros option.set_intros rangeI)
  qed
qed (rule assms(1))

definition atomic :: "('m \<Rightarrow> 'a \<times> 'm) \<Rightarrow> ('m, 'a) prog" where
  "atomic f = Step (\<lambda>m. let (x, m') = f m in Some (Return x, m'))"

text \<open>A step that waits until its result is there.\<close>

definition await :: "('m \<Rightarrow> ('a \<times> 'm) option) \<Rightarrow> ('m, 'a) prog" where
  "await f = Step (\<lambda>m. map_option (map_prod Return id) (f m))"

primrec forEach :: "('x \<Rightarrow> ('m, 'e list) prog) \<Rightarrow> 'x list \<Rightarrow> ('m, 'e list) prog" where
  "forEach f [] = Return []"
| "forEach f (x # xs) = andThen (f x) (\<lambda>e. andThen (forEach f xs) (\<lambda>es. Return (e @ es)))"

lemma andThen_atomic [simp]:
  "andThen (atomic f) k = Step (\<lambda>m. let (x, m') = f m in Some (k x, m'))"
  by (auto simp: atomic_def fun_eq_iff split: prod.splits)

lemma andThen_await [simp]:
  "andThen (await f) k = Step (\<lambda>m. map_option (map_prod k id) (f m))"
  by (simp add: await_def option.map_comp comp_def map_prod_def split_def)

lemma andThen_assoc [simp]: "andThen (andThen p f) g = andThen p (\<lambda>x. andThen (f x) g)"
proof (induction p rule: prog_induct)
  case (Step h)
  have "map_option (map_prod (\<lambda>p. andThen p g) id) (map_option (map_prod (\<lambda>p. andThen p f) id) (h m)) =
        map_option (map_prod (\<lambda>p. andThen p (\<lambda>x. andThen (f x) g)) id) (h m)" for m
    using Step [of m] by (cases "h m") auto
  then show ?case by simp
qed simp

section \<open>Pools of threads\<close>

text \<open>
  \<open>forked\<close> are the threads that the step has started with \<^verbatim>\<open>go\<close>, \<open>collected\<close> the memory once the scheduler
  knows of them, and \<open>halted\<close> is a process that has panicked: then no thread steps any more.
\<close>

definition schedule ::
  "('m \<Rightarrow> ('m, 'r) prog list) \<Rightarrow> ('m \<Rightarrow> 'm) \<Rightarrow> ('m \<Rightarrow> bool) \<Rightarrow> nat \<Rightarrow> ('m, 'r) prog list \<times> 'm \<Rightarrow> (('m, 'r) prog list \<times> 'm) option" where
  "schedule forked collected halted i s =
     (let (ps, m) = s in
      if halted m \<or> \<not> i < length ps then None
      else case ps ! i of
             Return _ \<Rightarrow> None
           | Step g \<Rightarrow> (case g m of
                 None \<Rightarrow> None
               | Some (p, m') \<Rightarrow> Some (ps[i := p] @ forked m', collected m')))"

fun run_schedule ::
  "('m \<Rightarrow> ('m, 'r) prog list) \<Rightarrow> ('m \<Rightarrow> 'm) \<Rightarrow> ('m \<Rightarrow> bool) \<Rightarrow> nat list \<Rightarrow> ('m, 'r) prog list \<times> 'm \<Rightarrow> (('m, 'r) prog list \<times> 'm) option" where
  "run_schedule forked collected halted [] s = Some s"
| "run_schedule forked collected halted (i # is) s =
     (case schedule forked collected halted i s of
        None \<Rightarrow> None | Some s' \<Rightarrow> run_schedule forked collected halted is s')"

text \<open>The pools that clients reach who call the operations \<open>ops\<close> at any time, any number of times.\<close>

inductive reaches ::
  "('m \<Rightarrow> ('m, 'r) prog list) \<Rightarrow> ('m \<Rightarrow> 'm) \<Rightarrow> ('m \<Rightarrow> bool) \<Rightarrow> ('m, 'r) prog set \<Rightarrow> 'm \<Rightarrow> ('m, 'r) prog list \<times> 'm \<Rightarrow> bool"
  for forked collected halted ops m0 where
  start: "reaches forked collected halted ops m0 ([], m0)"
| called: "reaches forked collected halted ops m0 (ps, m) \<Longrightarrow> p \<in> ops \<Longrightarrow> reaches forked collected halted ops m0 (ps @ [p], m)"
| stepped: "reaches forked collected halted ops m0 s \<Longrightarrow> schedule forked collected halted i s = Some s' \<Longrightarrow>
    reaches forked collected halted ops m0 s'"

lemma reaches_calls:
  "set ps \<subseteq> ops \<Longrightarrow> reaches forked collected halted ops m0 (ps, m0)"
  by (induction ps rule: rev_induct) (auto intro: reaches.intros)

lemma reaches_run:
  "reaches forked collected halted ops m0 s \<Longrightarrow> run_schedule forked collected halted is s = Some s' \<Longrightarrow>
    reaches forked collected halted ops m0 s'"
  by (induction "is" arbitrary: s) (auto split: option.splits intro: reaches.stepped)

text \<open>One thread on its own: what it returns and leaves, and nothing if it blocks.\<close>

primrec alone :: "('m, 'a) prog \<Rightarrow> 'm \<Rightarrow> ('a \<times> 'm) option" where
  "alone (Return x) = (\<lambda>m. Some (x, m))"
| "alone (Step g) = (\<lambda>m. case map_option (map_prod alone id) (g m) of None \<Rightarrow> None | Some (r, m') \<Rightarrow> r m')"

lemma alone_andThen [simp]:
  "alone (andThen p f) m = (case alone p m of None \<Rightarrow> None | Some (x, m') \<Rightarrow> alone (f x) m')"
proof (induction p arbitrary: m rule: prog_induct)
  case (Step g)
  show ?case using Step [of m] by (cases "g m") (auto split: prod.splits)
qed simp

lemma alone_atomic [simp]: "alone (atomic f) m = Some (f m)"
  by (simp add: atomic_def split: prod.splits)

lemma alone_await [simp]: "alone (await f) m = f m"
  by (cases "f m") (auto simp: await_def)

section \<open>Properties of every step of one program\<close>

text \<open>\<open>obeys P p\<close>: whatever the memory is when the thread comes to a step, the step relates it as \<open>P\<close> says.\<close>

inductive obeys :: "('m \<Rightarrow> 'm \<Rightarrow> bool) \<Rightarrow> ('m, 'a) prog \<Rightarrow> bool" for P where
  obeys_Return: "obeys P (Return x)"
| obeys_Step: "(\<And>m p m'. g m = Some (p, m') \<Longrightarrow> P m m' \<and> obeys P p) \<Longrightarrow> obeys P (Step g)"

lemma obeys_Return_simp [simp]: "obeys P (Return x)" by (rule obeys_Return)

lemma obeys_andThen [intro]:
  assumes "obeys P p" "\<And>x. obeys P (f x)"
  shows "obeys P (andThen p f)"
  using assms(1)
proof (induction rule: obeys.induct)
  case (obeys_Step g)
  have "P m m' \<and> obeys P q" if s: "map_option (map_prod (\<lambda>p. andThen p f) id) (g m) = Some (q, m')" for m q m'
  proof -
    obtain p where "g m = Some (p, m')" "q = andThen p f" using s by (cases "g m") auto
    then show ?thesis using obeys_Step [of m p m'] by simp
  qed
  then show ?case by (subst andThen.simps) (rule obeys.obeys_Step)
qed (simp add: assms(2))

lemma obeys_atomic [intro]: "(\<And>m. P m (snd (f m))) \<Longrightarrow> obeys P (atomic f)"
  unfolding atomic_def by (rule obeys_Step) (metis (no_types, lifting) Pair_inject case_prod_conv obeys_Return option.inject prod.collapse)

lemma obeys_await [intro]: "(\<And>m x m'. f m = Some (x, m') \<Longrightarrow> P m m') \<Longrightarrow> obeys P (await f)"
  unfolding await_def by (rule obeys_Step) (auto simp: map_prod_def split: prod.splits)

lemma obeys_forEach [intro]: "(\<And>x. x \<in> set xs \<Longrightarrow> obeys P (f x)) \<Longrightarrow> obeys P (forEach f xs)"
  by (induction xs) (auto intro!: obeys_andThen)

lemma obeys_stepD: "obeys P (Step g) \<Longrightarrow> g m = Some (p, m') \<Longrightarrow> P m m' \<and> obeys P p"
  by (erule obeys.cases) auto

section \<open>What one program assures among others\<close>

text \<open>
  \<open>assures R P p Q\<close>: when \<open>P\<close> holds and the other threads change the memory as \<open>R\<close> allows, then \<open>p\<close> returns \<open>x\<close> only
  when \<open>Q x\<close> holds. Between two steps of \<open>p\<close> an assertion must be one that \<open>R\<close> leaves true.
\<close>

definition stable :: "('m \<Rightarrow> 'm \<Rightarrow> bool) \<Rightarrow> ('m \<Rightarrow> bool) \<Rightarrow> bool" where
  "stable R P \<longleftrightarrow> (\<forall>m m'. P m \<longrightarrow> R m m' \<longrightarrow> P m')"

inductive assures :: "('m \<Rightarrow> 'm \<Rightarrow> bool) \<Rightarrow> ('m \<Rightarrow> bool) \<Rightarrow> ('m, 'a) prog \<Rightarrow> ('a \<Rightarrow> 'm \<Rightarrow> bool) \<Rightarrow> bool" for R where
  assures_Return: "(\<And>m. P m \<Longrightarrow> Q x m) \<Longrightarrow> assures R P (Return x) Q"
| assures_Step: "(\<And>m p m'. P m \<Longrightarrow> g m = Some (p, m') \<Longrightarrow> \<exists>P'. stable R P' \<and> P' m' \<and> assures R P' p Q) \<Longrightarrow> assures R P (Step g) Q"

lemma assures_stepD:
  assumes "assures R P (Step g) Q" "P m" "g m = Some (p, m')"
  shows "\<exists>P'. stable R P' \<and> P' m' \<and> assures R P' p Q"
  using assms(1) by cases (use assms(2,3) in auto)

lemma assures_weaken:
  assumes "assures R P p Q" "\<And>m. P' m \<Longrightarrow> P m"
  shows "assures R P' p Q"
  using assms(1)
proof cases
  case (assures_Return x)
  then show ?thesis using assms(2) by (auto intro: assures.assures_Return)
next
  case (assures_Step g)
  show ?thesis unfolding assures_Step(1)
    by (rule assures.assures_Step) (use assures_Step(2) assms(2) in blast)
qed

lemma assures_andThen:
  assumes "assures R P p Q" "\<And>x. assures R (Q x) (f x) S"
  shows "assures R P (andThen p f) S"
  using assms
proof (induction P p Q rule: assures.induct)
  case (assures_Return P Q x)
  then show ?case using assures_weaken [of R "Q x" "f x" S P] by simp
next
  case (assures_Step P g Q)
  show ?case unfolding andThen.simps
  proof (rule assures.assures_Step)
    fix m q m' assume k: "P m" and s: "map_option (map_prod (\<lambda>p. andThen p f) id) (g m) = Some (q, m')"
    obtain p where p: "g m = Some (p, m')" "q = andThen p f" using s by (cases "g m") auto
    show "\<exists>P'. stable R P' \<and> P' m' \<and> assures R P' q S"
      using assures_Step(1) [OF k p(1)] assures_Step(2) p(2) by blast
  qed
qed

lemma assures_atomic:
  fixes f :: "'m \<Rightarrow> 'a \<times> 'm"
  assumes "\<And>x. stable R (Q x)" "\<And>m x m'. P m \<Longrightarrow> f m = (x, m') \<Longrightarrow> Q x m'"
  shows "assures R P (atomic f) Q"
  unfolding atomic_def
proof (rule assures_Step)
  fix m m' and p :: "('m, 'a) prog" assume "P m" "(let (x, m') = f m in Some (Return x, m')) = Some (p, m')"
  then obtain x where "Q x m'" "p = Return x" using assms(2) by (auto split: prod.splits)
  then show "\<exists>P'. stable R P' \<and> P' m' \<and> assures R P' p Q" using assms(1) by (auto intro: assures_Return)
qed

lemma assures_await:
  fixes f :: "'m \<Rightarrow> ('a \<times> 'm) option"
  assumes "\<And>x. stable R (Q x)" "\<And>m x m'. P m \<Longrightarrow> f m = Some (x, m') \<Longrightarrow> Q x m'"
  shows "assures R P (await f) Q"
  unfolding await_def
proof (rule assures_Step)
  fix m m' and p :: "('m, 'a) prog" assume "P m" "map_option (map_prod Return id) (f m) = Some (p, m')"
  then obtain x where "Q x m'" "p = Return x" using assms(2) by (cases "f m") auto
  then show "\<exists>P'. stable R P' \<and> P' m' \<and> assures R P' p Q" using assms(1) by (auto intro: assures_Return)
qed

lemma assures_run:
  assumes "run_schedule forked collected halted is (ps, m) = Some (ps', m')" "i < length ps" "ps' ! i = Return x"
    and "assures R P (ps ! i) Q" "stable R P" "P m" "\<And>x. stable R (Q x)"
    and "\<And>j. j < length ps \<Longrightarrow> j \<noteq> i \<Longrightarrow> obeys R (ps ! j)" "\<And>m p. p \<in> set (forked m) \<Longrightarrow> obeys R p" "\<And>m. R m (collected m)"
  shows "Q x m'"
  using assms
proof (induction "is" arbitrary: ps m P)
  case Nil
  then have "assures R P (Return x) Q" by simp
  then show ?case using Nil by (auto elim: assures.cases)
next
  case (Cons k ks)
  obtain s1 where s1: "schedule forked collected halted k (ps, m) = Some s1" "run_schedule forked collected halted ks s1 = Some (ps', m')"
    using Cons.prems(1) by (auto split: option.splits)
  obtain g p m1 where g: "k < length ps" "ps ! k = Step g" "g m = Some (p, m1)" "s1 = (ps[k := p] @ forked m1, collected m1)"
    using s1(1) by (auto simp: schedule_def split: if_splits prog.splits option.splits)
  let ?ps = "ps[k := p] @ forked m1"
  have other: "obeys R (?ps ! j)" if j: "j < length ?ps" "j \<noteq> i" for j
  proof (cases "j < length ps")
    case True
    then show ?thesis using Cons.prems(8) [of j] j g obeys_stepD [of R g m p m1] Cons.prems(8) [of k]
      by (cases "j = k") (auto simp: nth_append)
  next
    case False
    then have "?ps ! j \<in> set (forked m1)" using j by (auto simp: nth_append)
    then show ?thesis using Cons.prems(9) by blast
  qed
  show ?case
  proof (cases "k = i")
    case True
    then obtain P' where P': "stable R P'" "P' m1" "assures R P' p Q"
      using assures_stepD [of R P g Q m p m1] Cons.prems(4,6) g by auto
    show ?thesis
    proof (rule Cons.IH [of ?ps "collected m1" P'])
      show "P' (collected m1)" using P'(1,2) Cons.prems(10) by (auto simp: stable_def)
      show "assures R P' (?ps ! i) Q" using P'(3) True g by (simp add: nth_append)
    qed (use s1 g P' Cons.prems other in auto)
  next
    case False
    then have "R m m1" using Cons.prems(8) [of k] g obeys_stepD [of R g m p m1] by auto
    then have "P (collected m1)" using Cons.prems(5,6,10) by (auto simp: stable_def)
    then show ?thesis
    proof (intro Cons.IH [of ?ps "collected m1" P])
      show "assures R P (?ps ! i) Q" using Cons.prems(2,4) False by (simp add: nth_append)
    qed (use s1 g Cons.prems other in auto)
  qed
qed

section \<open>Tokens\<close>

definition separate :: "('t \<Rightarrow> bool) \<Rightarrow> 't set list \<Rightarrow> bool" where
  "separate shared Ts \<longleftrightarrow> (\<forall>i j. i < length Ts \<and> j < length Ts \<and> i \<noteq> j \<longrightarrow> (\<forall>t\<in>Ts ! i \<inter> Ts ! j. shared t))"

lemma separateD:
  "separate shared Ts \<Longrightarrow> i < length Ts \<Longrightarrow> j < length Ts \<Longrightarrow> i \<noteq> j \<Longrightarrow> t \<in> Ts ! i \<Longrightarrow> t \<in> Ts ! j \<Longrightarrow> shared t"
  by (auto simp: separate_def)

lemma separateI:
  "(\<And>i j t. i < length Ts \<Longrightarrow> j < length Ts \<Longrightarrow> i \<noteq> j \<Longrightarrow> t \<in> Ts ! i \<Longrightarrow> t \<in> Ts ! j \<Longrightarrow> shared t) \<Longrightarrow> separate shared Ts"
  by (auto simp: separate_def)

lemma separate_Nil [simp]: "separate shared []" by (simp add: separate_def)

lemma separate_Cons [simp]:
  "separate shared (T # Ts) \<longleftrightarrow> separate shared Ts \<and> (\<forall>U\<in>set Ts. \<forall>t\<in>T \<inter> U. shared t)" (is "?l \<longleftrightarrow> ?r")
proof
  assume s: ?l
  have "separate shared Ts" by (rule separateI) (use separateD [OF s, of "Suc i" "Suc j" for i j] in auto)
  moreover have "shared t" if "i < length Ts" "t \<in> T" "t \<in> Ts ! i" for i t
    using separateD [OF s, of 0 "Suc i"] that by auto
  ultimately show ?r by (metis IntE in_set_conv_nth)
next
  assume s: ?r
  show ?l
  proof (rule separateI)
    fix i j t assume ij: "i < length (T # Ts)" "j < length (T # Ts)" "i \<noteq> j" "t \<in> (T # Ts) ! i" "t \<in> (T # Ts) ! j"
    then show "shared t" using s separateD [of shared Ts "i - 1" "j - 1" t] by (cases i; cases j) auto
  qed
qed

lemma separate_append:
  assumes "separate shared Ts" "separate shared Us"
    "\<And>i j t. i < length Ts \<Longrightarrow> j < length Us \<Longrightarrow> t \<in> Ts ! i \<Longrightarrow> t \<in> Us ! j \<Longrightarrow> shared t"
  shows "separate shared (Ts @ Us)"
proof (rule separateI)
  fix i j t assume ij: "i < length (Ts @ Us)" "j < length (Ts @ Us)" "i \<noteq> j" "t \<in> (Ts @ Us) ! i" "t \<in> (Ts @ Us) ! j"
  show "shared t"
  proof (cases "i < length Ts"; cases "j < length Ts")
    assume "i < length Ts" "\<not> j < length Ts"
    then show ?thesis using assms(3) [of i "j - length Ts"] ij by (simp add: nth_append)
  next
    assume "\<not> i < length Ts" "j < length Ts"
    then show ?thesis using assms(3) [of j "i - length Ts"] ij by (simp add: nth_append)
  next
    assume "i < length Ts" "j < length Ts"
    then show ?thesis using separateD [OF assms(1), of i j] ij by (simp add: nth_append)
  next
    assume n: "\<not> i < length Ts" "\<not> j < length Ts"
    then have "i - length Ts \<noteq> j - length Ts" "i - length Ts < length Us" "j - length Ts < length Us" using ij by auto
    then show ?thesis using separateD [OF assms(2)] ij n unfolding nth_append by (simp only: if_False)
  qed
qed

text \<open>
  The interface between the threads and the memory they share: \<open>glob\<close> is the invariant of the memory, \<open>owns t m\<close> what
  the holder of the token \<open>t\<close> knows, \<open>evolves\<close> how a step may change the memory, and \<open>given m\<close> are the tokens of the
  threads that were just started. A token is \<open>shared\<close> when any number of threads may hold it: what its holders know
  stays true for good.
\<close>

locale tokens =
  fixes glob :: "'m \<Rightarrow> bool"
    and owns :: "'t \<Rightarrow> 'm \<Rightarrow> bool"
    and evolves :: "'m \<Rightarrow> 'm \<Rightarrow> bool"
    and given :: "'m \<Rightarrow> 't set list"
    and shared :: "'t \<Rightarrow> bool"
begin

definition knows :: "'t set \<Rightarrow> 'm \<Rightarrow> bool" where
  "knows T m \<longleftrightarrow> glob m \<and> (\<forall>t\<in>T. owns t m)"

definition update :: "'t set \<Rightarrow> 'm \<Rightarrow> 't set \<Rightarrow> 'm \<Rightarrow> bool" where
  "update T m T' m' \<longleftrightarrow> knows T' m' \<and> evolves m m' \<and> (\<forall>u. owns u m \<longrightarrow>
     (u \<notin> T \<longrightarrow> owns u m' \<and> (u \<in> T' \<longrightarrow> shared u)) \<and> (shared u \<longrightarrow> owns u m'))"

inductive triple :: "'t set \<Rightarrow> ('m, 'a) prog \<Rightarrow> ('a \<Rightarrow> 't set) \<Rightarrow> bool" where
  returns: "Q x \<subseteq> T \<Longrightarrow> triple T (Return x) Q"
| steps: "(\<And>m p m'. knows T m \<Longrightarrow> given m = [] \<Longrightarrow> g m = Some (p, m') \<Longrightarrow>
      \<exists>T'. separate shared (T' # given m') \<and> update T m (T' \<union> \<Union>(set (given m'))) m' \<and> triple T' p Q) \<Longrightarrow>
    triple T (Step g) Q"

lemma triple_stepD:
  "triple T (Step g) Q \<Longrightarrow> knows T m \<Longrightarrow> given m = [] \<Longrightarrow> g m = Some (p, m') \<Longrightarrow>
    \<exists>T'. separate shared (T' # given m') \<and> update T m (T' \<union> \<Union>(set (given m'))) m' \<and> triple T' p Q"
  by (erule triple.cases) auto

lemma update_more: "update T m T' m' \<Longrightarrow> T \<subseteq> U \<Longrightarrow> update U m T' m'"
  by (auto simp: update_def)

lemma triple_more:
  assumes "triple T p Q" "T \<subseteq> U"
  shows "triple U p Q"
  using assms(1)
proof (cases rule: triple.cases)
  case (returns x)
  then show ?thesis using assms(2) by (auto intro: triple.returns)
next
  case (steps g)
  show ?thesis unfolding steps(1)
  proof (rule triple.steps)
    fix m p m' assume "knows U m" "given m = []" "g m = Some (p, m')"
    moreover then have "knows T m" using assms(2) by (auto simp: knows_def)
    ultimately show "\<exists>T'. separate shared (T' # given m') \<and> update U m (T' \<union> \<Union>(set (given m'))) m' \<and> triple T' p Q"
      using steps(2) update_more [OF _ assms(2)] by blast
  qed
qed

lemma triple_andThen:
  assumes "triple T p Q" "\<And>x. triple (Q x) (f x) R"
  shows "triple T (andThen p f) R"
  using assms
proof (induction T p Q rule: triple.induct)
  case (returns Q x T)
  then show ?case using triple_more [of "Q x" "f x" R T] by simp
next
  case (steps T g Q)
  show ?case unfolding andThen.simps
  proof (rule triple.steps)
    fix m q m' assume k: "knows T m" "given m = []" and s: "map_option (map_prod (\<lambda>p. andThen p f) id) (g m) = Some (q, m')"
    obtain p where p: "g m = Some (p, m')" "q = andThen p f" using s by (cases "g m") auto
    show "\<exists>T'. separate shared (T' # given m') \<and> update T m (T' \<union> \<Union>(set (given m'))) m' \<and> triple T' q R"
      using steps(1) [OF k p(1)] steps(2) p(2) by blast
  qed
qed

lemma triple_atomic:
  fixes f :: "'m \<Rightarrow> 'a \<times> 'm"
  assumes "\<And>m x m'. knows T m \<Longrightarrow> given m = [] \<Longrightarrow> f m = (x, m') \<Longrightarrow>
    separate shared (Q x # given m') \<and> update T m (Q x \<union> \<Union>(set (given m'))) m'"
  shows "triple T (atomic f) Q"
  unfolding atomic_def
proof (rule triple.steps)
  fix m m' and p :: "('m, 'a) prog" assume "knows T m" "given m = []" "(let (x, m') = f m in Some (Return x, m')) = Some (p, m')"
  then show "\<exists>T'. separate shared (T' # given m') \<and> update T m (T' \<union> \<Union>(set (given m'))) m' \<and> triple T' p Q"
    using assms [of m] by (auto split: prod.splits intro: triple.returns)
qed

lemma triple_await:
  fixes f :: "'m \<Rightarrow> ('a \<times> 'm) option"
  assumes "\<And>m x m'. knows T m \<Longrightarrow> given m = [] \<Longrightarrow> f m = Some (x, m') \<Longrightarrow>
    separate shared (Q x # given m') \<and> update T m (Q x \<union> \<Union>(set (given m'))) m'"
  shows "triple T (await f) Q"
  unfolding await_def
proof (rule triple.steps)
  fix m m' and p :: "('m, 'a) prog" assume k: "knows T m" "given m = []" and s: "map_option (map_prod Return id) (f m) = Some (p, m')"
  obtain x where "f m = Some (x, m')" "p = Return x" using s by (cases "f m") auto
  then show "\<exists>T'. separate shared (T' # given m') \<and> update T m (T' \<union> \<Union>(set (given m'))) m' \<and> triple T' p Q"
    using assms [OF k] by (auto intro: triple.returns)
qed

text \<open>A first step with what it returns in view.\<close>

lemma triple_step:
  fixes f :: "'m \<Rightarrow> 'a \<times> 'm"
  assumes "\<And>m x m'. knows T m \<Longrightarrow> given m = [] \<Longrightarrow> f m = (x, m') \<Longrightarrow>
    \<exists>T'. separate shared (T' # given m') \<and> update T m (T' \<union> \<Union>(set (given m'))) m' \<and> triple T' (k x) Q"
  shows "triple T (andThen (atomic f) k) Q"
  unfolding andThen_atomic
proof (rule triple.steps)
  fix m m' p assume "knows T m" "given m = []" "(let (x, m') = f m in Some (k x, m')) = Some (p, m')"
  then show "\<exists>T'. separate shared (T' # given m') \<and> update T m (T' \<union> \<Union>(set (given m'))) m' \<and> triple T' p Q"
    using assms [of m] by (auto split: prod.splits)
qed

lemma triple_forEach:
  assumes "\<And>x. x \<in> set xs \<Longrightarrow> triple {} (f x) (\<lambda>_. {})"
  shows "triple {} (forEach f xs) (\<lambda>_. {})"
  using assms by (induction xs) (auto intro!: triple_andThen triple.returns)

end

text \<open>A pool whose threads keep to the tokens.\<close>

locale thread_pool = tokens glob owns evolves given shared
  for glob :: "'m \<Rightarrow> bool" and owns :: "'t \<Rightarrow> 'm \<Rightarrow> bool" and evolves :: "'m \<Rightarrow> 'm \<Rightarrow> bool" and given :: "'m \<Rightarrow> 't set list"
    and shared :: "'t \<Rightarrow> bool" +
  fixes forked :: "'m \<Rightarrow> ('m, 'r) prog list"
    and collected :: "'m \<Rightarrow> 'm"
    and halted :: "'m \<Rightarrow> bool"
  assumes given_forked: "length (given m) = length (forked m)"
    and forked_ok: "i < length (forked m) \<Longrightarrow> triple (given m ! i) (forked m ! i) (\<lambda>_. {})"
    and collected_glob: "glob m \<Longrightarrow> glob (collected m)"
    and collected_owns: "owns t m \<Longrightarrow> owns t (collected m)"
    and collected_given: "given (collected m) = []"
    and collected_evolves: "evolves m m' \<Longrightarrow> evolves m (collected m')"
begin

definition pool_ok :: "('m, 'r) prog list \<times> 'm \<Rightarrow> bool" where
  "pool_ok s \<longleftrightarrow> glob (snd s) \<and> given (snd s) = [] \<and> (\<exists>Ts. length Ts = length (fst s) \<and> separate shared Ts \<and>
     (\<forall>i<length (fst s). (\<forall>t\<in>Ts ! i. owns t (snd s)) \<and> triple (Ts ! i) (fst s ! i) (\<lambda>_. {})))"

lemma pool_step:
  assumes "pool_ok s" "schedule forked collected halted i s = Some s'"
  shows "pool_ok s'" "evolves (snd s) (snd s')"
proof -
  obtain ps m where s: "s = (ps, m)" by (cases s)
  obtain Ts where gm: "glob m" "given m = []" and Ts: "length Ts = length ps" "separate shared Ts"
    and ok: "\<And>j. j < length ps \<Longrightarrow> (\<forall>t\<in>Ts ! j. owns t m) \<and> triple (Ts ! j) (ps ! j) (\<lambda>_. {})"
    using assms(1) by (auto simp: pool_ok_def s)
  obtain g p m' where i: "i < length ps" and g: "ps ! i = Step g" "g m = Some (p, m')"
    and s': "s' = (ps[i := p] @ forked m', collected m')"
    using assms(2) by (auto simp: schedule_def s split: if_splits prog.splits option.splits)
  have k: "knows (Ts ! i) m" using ok [OF i] gm by (simp add: knows_def)
  obtain T' where T': "separate shared (T' # given m')" "update (Ts ! i) m (T' \<union> \<Union>(set (given m'))) m'" "triple T' p (\<lambda>_. {})"
    using triple_stepD [of "Ts ! i" g "\<lambda>_. {}" m p m'] ok [OF i] g k gm by auto
  have kept: "owns u m' \<and> (u \<in> T' \<union> \<Union>(set (given m')) \<longrightarrow> shared u)" if "j < length ps" "j \<noteq> i" "u \<in> Ts ! j" for j u
  proof (cases "u \<in> Ts ! i")
    case True
    then have "shared u" using separateD [OF Ts(2), of i j u] Ts(1) that i by auto
    then show ?thesis using T'(2) ok [OF that(1)] that(3) by (auto simp: update_def)
  next
    case False
    then show ?thesis using T'(2) ok [OF that(1)] that(3) by (auto simp: update_def)
  qed
  let ?Us = "Ts[i := T'] @ given m'"
  have g': "separate shared (given m')" "\<And>U t. U \<in> set (given m') \<Longrightarrow> t \<in> T' \<Longrightarrow> t \<in> U \<Longrightarrow> shared t" using T'(1) by auto
  have "separate shared (Ts[i := T'])"
  proof (rule separateI)
    fix j l t assume jl: "j < length (Ts[i := T'])" "l < length (Ts[i := T'])" "j \<noteq> l" "t \<in> Ts[i := T'] ! j" "t \<in> Ts[i := T'] ! l"
    show "shared t"
    proof (cases "j = i"; cases "l = i")
      assume "j = i" "l \<noteq> i"
      then show ?thesis using kept [of l t] jl Ts(1) i by simp
    next
      assume "j \<noteq> i" "l = i"
      then show ?thesis using kept [of j t] jl Ts(1) i by simp
    next
      assume "j \<noteq> i" "l \<noteq> i"
      then show ?thesis using separateD [OF Ts(2), of j l t] jl by simp
    qed (use jl in simp)
  qed
  moreover have "shared t" if "j < length (Ts[i := T'])" "l < length (given m')" "t \<in> Ts[i := T'] ! j" "t \<in> given m' ! l" for j l t
  proof (cases "j = i")
    case True
    then show ?thesis using that g'(2) [of "given m' ! l" t] by simp
  next
    case False
    have "given m' ! l \<in> set (given m')" using that by simp
    then show ?thesis using kept [of j t] that False Ts(1) by auto
  qed
  ultimately have sep: "separate shared ?Us" using g'(1) by (intro separate_append)
  have new: "owns t m'" if "t \<in> T' \<union> \<Union>(set (given m'))" for t
    using T'(2) that by (auto simp: update_def knows_def)
  have "(\<forall>t\<in>?Us ! j. owns t (collected m')) \<and> triple (?Us ! j) ((ps[i := p] @ forked m') ! j) (\<lambda>_. {})"
    if j: "j < length (ps[i := p] @ forked m')" for j
  proof (cases "j < length ps")
    case True
    then show ?thesis using Ts(1) i T'(3) ok [OF True] kept [of j] new
      by (cases "j = i") (auto simp: nth_append intro!: collected_owns)
  next
    case False
    then have l: "j - length ps < length (forked m')" using j by simp
    then have e: "given m' ! (j - length ps) \<in> set (given m')" by (simp add: given_forked)
    have "owns t m'" if "t \<in> given m' ! (j - length ps)" for t using new e that by auto
    then show ?thesis using Ts(1) False l forked_ok [OF l] by (auto simp: nth_append intro!: collected_owns)
  qed
  moreover have "glob m'" using T'(2) by (simp add: update_def knows_def)
  moreover have "length ?Us = length (ps[i := p] @ forked m')" using Ts(1) by (simp add: given_forked)
  ultimately show "pool_ok s'" using sep collected_glob collected_given unfolding pool_ok_def s' fst_conv snd_conv by blast
  show "evolves (snd s) (snd s')" using T'(2) by (auto simp: s s' update_def intro: collected_evolves)
qed

lemma pool_call:
  assumes "pool_ok (ps, m)" "triple {} p (\<lambda>_. {})"
  shows "pool_ok (ps @ [p], m)"
proof -
  obtain Ts where Ts: "glob m" "given m = []" "length Ts = length ps" "separate shared Ts"
    "\<And>j. j < length ps \<Longrightarrow> (\<forall>t\<in>Ts ! j. owns t m) \<and> triple (Ts ! j) (ps ! j) (\<lambda>_. {})"
    using assms(1) by (auto simp: pool_ok_def)
  have "separate shared (Ts @ [{}])" using Ts by (intro separate_append) auto
  then show ?thesis using Ts assms(2) unfolding pool_ok_def
    by (auto simp: nth_append less_Suc_eq intro!: exI [of _ "Ts @ [{}]"])
qed

theorem pool_invariant:
  assumes "reaches forked collected halted ops m0 s" "glob m0" "given m0 = []" "\<And>p. p \<in> ops \<Longrightarrow> triple {} p (\<lambda>_. {})"
  shows "pool_ok s"
  using assms(1)
proof induction
  case start
  show ?case using assms(2,3) by (simp add: pool_ok_def)
next
  case (called ps m p)
  then show ?case using pool_call assms(4) by blast
next
  case (stepped s i s')
  then show ?case using pool_step by blast
qed

lemma pool_glob: "pool_ok s \<Longrightarrow> glob (snd s)"
  by (simp add: pool_ok_def)

end

end
