(* ===== verification/TaskRelay.thy ===== *)
theory TaskRelay
  imports Threads ReverseRelay RelayControl
begin

text \<open>
  The desktop's manager of locally relayed traffic tasks, which Exchange, Mirror and Preview share
  (\<^verbatim>\<open>internal/client/taskrelay\<close>). Its entries live on a heap, because the code compares the pointers it kept with the
  ones in its map; every critical section, every call of the Gateway, of the relay and of the opener, and the wait for
  a relay's goroutine is one atomic step, so that operations and relay goroutines interleave as they do in the program.

  What the other parts answer is read from \<open>task_env\<close> by the number of the call; \<open>te_expired n\<close> says that the wait
  with that number ends because its context is done, \<open>te_order\<close> is the order of an iteration over the map.
\<close>

section \<open>Data\<close>

datatype relay_error = Stream_EOF | Closed_pipe | Net_closed | Context_error string | Other_error string | Not_managed_locally

text \<open>An error value is the list of the errors in its tree, as \<^verbatim>\<open>errors.Is\<close> walks it; \<open>[]\<close> is \<^verbatim>\<open>nil\<close>.\<close>

type_synonym errors = "relay_error list"

definition ClosedStream :: "errors \<Rightarrow> bool" where
  "ClosedStream err \<longleftrightarrow> Stream_EOF \<in> set err \<or> Closed_pipe \<in> set err \<or> Net_closed \<in> set err"

text \<open>Of a profile the manager reads the ID only, of a session the fields below; the rest it hands on.\<close>

record Profile =
  pf_ID :: string
  pf_Rest :: nat

record RemoteSession =
  rs_ID :: string
  rs_Namespace :: string
  rs_State :: string
  rs_Rest :: nat

record RelayTask =
  rt_ID :: string
  rt_SessionID :: string
  rt_Namespace :: string
  rt_Service :: string
  rt_ClusterIP :: string
  rt_Running :: bool
  rt_Targets :: "Target list"

definition StateRunning :: string where "StateRunning = ''running''"
definition StatePausing :: string where "StatePausing = ''pausing''"
definition StatePaused :: string where "StatePaused = ''paused''"

record active =
  ac_profileID :: string
  ac_profile :: Profile
  ac_session :: RemoteSession
  ac_task :: RelayTask
  ac_relay :: "nat option"
  ac_cancel :: "nat option"
  ac_done :: "nat option"
  ac_state :: string

record Entry =
  en_ProfileID :: string
  en_Task :: RelayTask
  en_State :: string

definition snapshot :: "active \<Rightarrow> Entry" where
  "snapshot entry = \<lparr> en_ProfileID = ac_profileID entry, en_Task = ac_task entry, en_State = ac_state entry \<rparr>"

datatype reason = Resumed | Restored

datatype traffic_event =
    CreateRemote string "string option"
  | GetRemote string
  | GatewayPause Profile RemoteSession string
  | GatewayResume Profile RemoteSession string
  | GatewayDelete Profile RemoteSession string
  | GatewayList Profile RemoteSession
  | OpenRelay Profile RelayTask nat
  | ReadReady nat
  | ConfirmTask RelayTask
  | StopRelay nat
  | CloseStream nat
  | RunRelay nat
  | RunReturned nat

record task_env =
  te_name :: string
  te_pause :: "nat \<Rightarrow> errors"
  te_resume :: "nat \<Rightarrow> RemoteSession \<Rightarrow> RelayTask \<times> errors"
  te_delete :: "nat \<Rightarrow> errors"
  te_list :: "nat \<Rightarrow> RemoteSession \<Rightarrow> RelayTask list \<times> errors"
  te_open :: "nat \<Rightarrow> errors"
  te_ready :: "nat \<Rightarrow> errors"
  te_stop :: "nat \<Rightarrow> errors"
  te_confirm :: "(nat \<Rightarrow> RelayTask \<Rightarrow> RelayTask \<Rightarrow> reason \<Rightarrow> RelayTask \<times> errors) option"
  te_expired :: "nat \<Rightarrow> bool"
  te_order :: "nat \<Rightarrow> (string \<times> nat) list \<Rightarrow> (string \<times> nat) list"

text \<open>
  The manager and the world around it. A pointer to an entry is its index in \<open>tm_heap\<close>, which also names the entry's
  run context and its \<^verbatim>\<open>done\<close> channel; \<open>tm_cancelled\<close> are the contexts cancelled, \<open>tm_finished\<close> the channels closed and
  \<open>tm_started\<close> the entries whose goroutine the last step started.
\<close>

record manager =
  tm_closed :: bool
  tm_readers :: nat
  tm_writer :: bool
  tm_entries :: "(string \<times> nat) list"
  tm_heap :: "active list"
  tm_cancelled :: "nat list"
  tm_finished :: "nat list"
  tm_started :: "nat list"
  tm_calls :: nat
  tm_events :: "traffic_event list"
  tm_panicked :: bool

type_synonym 'a relay_prog = "(manager, 'a) prog"

definition empty_manager :: manager where
  "empty_manager = \<lparr> tm_closed = False, tm_readers = 0, tm_writer = False, tm_entries = [], tm_heap = [], tm_cancelled = [],
     tm_finished = [], tm_started = [], tm_calls = 0, tm_events = [], tm_panicked = False \<rparr>"

text \<open>\<open>present\<close> says which of the Gateway, the opener and the renderer the caller supplied.\<close>

definition NewTaskManager :: "string \<Rightarrow> bool \<times> bool \<times> bool \<Rightarrow> errors + manager" where
  "NewTaskManager name present =
     (if TrimSpace name = '''' \<or> \<not> fst present \<or> \<not> fst (snd present) \<or> \<not> snd (snd present)
      then Inl [Other_error ''task relay name, Gateway, stream opener and document renderer are required'']
      else Inr empty_manager)"

definition errorf :: "task_env \<Rightarrow> string \<Rightarrow> relay_error" where
  "errorf e format = Other_error (te_name e @ '' '' @ format)"

abbreviation entry_at :: "manager \<Rightarrow> nat \<Rightarrow> active" where
  "entry_at m a \<equiv> tm_heap m ! a"

abbreviation entry_of :: "manager \<Rightarrow> string \<Rightarrow> nat option" where
  "entry_of m taskID \<equiv> map_of (tm_entries m) taskID"

definition change :: "nat \<Rightarrow> (active \<Rightarrow> active) \<Rightarrow> manager \<Rightarrow> manager" where
  "change a f m = m \<lparr> tm_heap := (tm_heap m)[a := f (entry_at m a)] \<rparr>"

definition panic :: "manager \<Rightarrow> manager" where
  "panic m = m \<lparr> tm_panicked := True \<rparr>"

text \<open>A call of another component: its number chooses the answer, and it is recorded.\<close>

definition ask :: "(nat \<Rightarrow> manager \<Rightarrow> traffic_event) \<Rightarrow> (nat \<Rightarrow> manager \<Rightarrow> 'a) \<Rightarrow> 'a relay_prog" where
  "ask event answer = atomic (\<lambda>m. (answer (tm_calls m) m,
     m \<lparr> tm_calls := Suc (tm_calls m), tm_events := tm_events m @ [event (tm_calls m) m] \<rparr>))"

section \<open>The lifecycle lock\<close>

definition lifecycleRLock :: "unit relay_prog" where
  "lifecycleRLock = await (\<lambda>m. if tm_writer m then None else Some ((), m \<lparr> tm_readers := Suc (tm_readers m) \<rparr>))"

definition lifecycleRUnlock :: "unit relay_prog" where
  "lifecycleRUnlock = atomic (\<lambda>m. ((), m \<lparr> tm_readers := tm_readers m - 1 \<rparr>))"

definition lifecycleLock :: "unit relay_prog" where
  "lifecycleLock = await (\<lambda>m. if tm_writer m \<or> tm_readers m > 0 then None else Some ((), m \<lparr> tm_writer := True \<rparr>))"

definition lifecycleUnlock :: "unit relay_prog" where
  "lifecycleUnlock = atomic (\<lambda>m. ((), m \<lparr> tm_writer := False \<rparr>))"

definition Closed :: "bool relay_prog" where
  "Closed = await (\<lambda>m. if tm_writer m then None else Some (tm_closed m, m))"

text \<open>The caller that \<open>Hold\<close> tells \<open>False\<close> ends its hold with \<open>lifecycleRUnlock\<close>.\<close>

definition Hold :: "bool relay_prog" where
  "Hold = andThen lifecycleRLock (\<lambda>_. andThen (atomic (\<lambda>m. (tm_closed m, m))) (\<lambda>closed.
     if closed then andThen lifecycleRUnlock (\<lambda>_. Return True) else Return False))"

section \<open>The relay's goroutine\<close>

text \<open>\<open>defer close(entry.done)\<close> reads the channel before \<open>Run\<close> is called.\<close>

definition run_begin :: "nat \<Rightarrow> (nat option \<times> nat) relay_prog" where
  "run_begin a = atomic (\<lambda>m. case ac_relay (entry_at m a) of
       None \<Rightarrow> ((ac_done (entry_at m a), 0), panic m)
     | Some relay \<Rightarrow> ((ac_done (entry_at m a), relay), m \<lparr> tm_events := tm_events m @ [RunRelay relay] \<rparr>))"

definition call_cancel :: "nat \<Rightarrow> unit relay_prog" where
  "call_cancel a = atomic (\<lambda>m. case ac_cancel (entry_at m a) of
       None \<Rightarrow> ((), panic m)
     | Some c \<Rightarrow> ((), m \<lparr> tm_cancelled := c # tm_cancelled m \<rparr>))"

definition run_forget :: "nat \<Rightarrow> unit relay_prog" where
  "run_forget a = atomic (\<lambda>m. ((),
     if entry_of m (rt_ID (ac_task (entry_at m a))) = Some a \<and> ac_state (entry_at m a) = StateRunning
     then m \<lparr> tm_entries := AList.delete (rt_ID (ac_task (entry_at m a))) (tm_entries m) \<rparr> else m))"

definition close_done :: "nat option \<Rightarrow> unit relay_prog" where
  "close_done d = atomic (\<lambda>m. case d of None \<Rightarrow> ((), panic m) | Some c \<Rightarrow> ((), m \<lparr> tm_finished := c # tm_finished m \<rparr>))"

definition run :: "nat \<Rightarrow> unit relay_prog" where
  "run a = andThen (run_begin a) (\<lambda>(d, relay).
     andThen (ask (\<lambda>_ _. RunReturned relay) (\<lambda>_ _. ())) (\<lambda>_.
     andThen (call_cancel a) (\<lambda>_. andThen (run_forget a) (\<lambda>_. close_done d))))"

section \<open>Starting, pausing and resuming\<close>

text \<open>A new entry that runs, in the map and with its goroutine started.\<close>

definition enter :: "Profile \<Rightarrow> string \<Rightarrow> RemoteSession \<Rightarrow> RelayTask \<Rightarrow> nat \<Rightarrow> manager \<Rightarrow> Entry \<times> manager" where
  "enter profile profileID session task relay m =
     (let a = length (tm_heap m);
          entry = \<lparr> ac_profileID = profileID, ac_profile = profile, ac_session = session, ac_task = task,
                    ac_relay = Some relay, ac_cancel = Some a, ac_done = Some a, ac_state = StateRunning \<rparr> in
      (snapshot entry, m \<lparr> tm_entries := AList.update (rt_ID task) a (tm_entries m), tm_heap := tm_heap m @ [entry],
                          tm_started := tm_started m @ [a] \<rparr>))"

definition Adopt :: "task_env \<Rightarrow> Profile \<Rightarrow> RemoteSession \<Rightarrow> RelayTask \<Rightarrow> nat \<Rightarrow> (Entry option \<times> errors) relay_prog" where
  "Adopt e profile session task relay = atomic (\<lambda>m.
     if entry_of m (rt_ID task) \<noteq> None then ((None, [errorf e ''Task is already active locally'']), m)
     else let (document, m') = enter profile (pf_ID profile) session task relay m in ((Some document, []), m'))"

definition relay_stop :: "task_env \<Rightarrow> nat \<Rightarrow> errors relay_prog" where
  "relay_stop e a = atomic (\<lambda>m. case ac_relay (entry_at m a) of
       None \<Rightarrow> ([], panic m)
     | Some relay \<Rightarrow> (te_stop e (tm_calls m),
         m \<lparr> tm_calls := Suc (tm_calls m), tm_events := tm_events m @ [StopRelay relay] \<rparr>))"

text \<open>The \<^verbatim>\<open>select\<close> on the \<^verbatim>\<open>done\<close> channel and the context; a nil channel is never ready.\<close>

definition wait_done :: "task_env \<Rightarrow> nat \<Rightarrow> errors \<Rightarrow> errors relay_prog" where
  "wait_done e a streamErr = await (\<lambda>m.
     let m' = m \<lparr> tm_calls := Suc (tm_calls m) \<rparr> in
     if te_expired e (tm_calls m) then Some (streamErr @ [Context_error ''context done''], m')
     else case ac_done (entry_at m a) of
            None \<Rightarrow> None
          | Some c \<Rightarrow> if c \<in> set (tm_finished m) then Some (streamErr, m') else None)"

definition record_paused :: "nat \<Rightarrow> unit relay_prog" where
  "record_paused a = atomic (\<lambda>m. ((),
     if entry_of m (rt_ID (ac_task (entry_at m a))) = Some a
     then change a (\<lambda>x. x \<lparr> ac_state := StatePaused, ac_relay := None, ac_cancel := None, ac_done := None \<rparr>) m
     else m))"

definition release :: "task_env \<Rightarrow> nat \<Rightarrow> errors relay_prog" where
  "release e a = andThen (relay_stop e a) (\<lambda>streamErr. andThen (call_cancel a) (\<lambda>_.
     andThen (wait_done e a streamErr) (\<lambda>streamErr. andThen (record_paused a) (\<lambda>_. Return streamErr))))"

definition pause_begin :: "string \<Rightarrow> string \<Rightarrow> nat option relay_prog" where
  "pause_begin profileID taskID = atomic (\<lambda>m. case entry_of m taskID of
       None \<Rightarrow> (None, m)
     | Some a \<Rightarrow>
         if ac_profileID (entry_at m a) \<noteq> profileID \<or>
            ac_state (entry_at m a) \<noteq> '''' \<and> ac_state (entry_at m a) \<noteq> StateRunning then (None, m)
         else (Some a, change a (\<lambda>x. x \<lparr> ac_state := StatePausing \<rparr>) m))"

definition gateway_pause :: "task_env \<Rightarrow> nat \<Rightarrow> errors relay_prog" where
  "gateway_pause e a = ask (\<lambda>_ m. GatewayPause (ac_profile (entry_at m a)) (ac_session (entry_at m a))
     (rt_ID (ac_task (entry_at m a)))) (\<lambda>n _. te_pause e n)"

definition PauseTask :: "task_env \<Rightarrow> bool \<Rightarrow> string \<Rightarrow> string \<Rightarrow> errors relay_prog" where
  "PauseTask e has_ctx profileID taskID =
     (if \<not> has_ctx then Return [errorf e ''pause context is required'']
      else andThen (pause_begin profileID taskID) (\<lambda>entry. case entry of
             None \<Rightarrow> Return [errorf e ''is not active locally'']
           | Some a \<Rightarrow> andThen (gateway_pause e a) (\<lambda>remoteErr. andThen (release e a) (\<lambda>streamErr.
               Return (remoteErr @ (if remoteErr = [] \<and> ClosedStream streamErr then [] else streamErr))))))"

definition stopLocal_begin :: "nat \<Rightarrow> bool relay_prog" where
  "stopLocal_begin a = atomic (\<lambda>m.
     if entry_of m (rt_ID (ac_task (entry_at m a))) \<noteq> Some a \<or> ac_state (entry_at m a) \<noteq> StateRunning then (False, m)
     else (True, change a (\<lambda>x. x \<lparr> ac_state := StatePausing \<rparr>) m))"

definition stopLocal :: "task_env \<Rightarrow> nat \<Rightarrow> errors relay_prog" where
  "stopLocal e a = andThen (stopLocal_begin a) (\<lambda>go. if \<not> go then Return []
     else andThen (release e a) (\<lambda>streamErr. Return (if ClosedStream streamErr then [] else streamErr)))"

definition startLocal_fail :: "task_env \<Rightarrow> nat \<Rightarrow> reason \<Rightarrow> errors \<Rightarrow> (Entry option \<times> errors) relay_prog" where
  "startLocal_fail e a why err =
     (if why \<noteq> Resumed then Return (None, err)
      else andThen (gateway_pause e a) (\<lambda>pauseErr. Return (None, err @ pauseErr)))"

definition enter_local :: "nat \<Rightarrow> RelayTask \<Rightarrow> nat \<Rightarrow> (Entry option \<times> errors) relay_prog" where
  "enter_local a task relay = atomic (\<lambda>m.
     let x = entry_at m a; (document, m') = enter (ac_profile x) (ac_profileID x) (ac_session x) task relay m in
     ((Some document, []), m'))"

definition startLocal :: "task_env \<Rightarrow> nat \<Rightarrow> RelayTask \<Rightarrow> reason \<Rightarrow> (Entry option \<times> errors) relay_prog" where
  "startLocal e a current why =
     andThen (atomic (\<lambda>m. ((ac_task (entry_at m a)) \<lparr> rt_Running := True \<rparr>, m))) (\<lambda>task.
     andThen (ask (\<lambda>n m. OpenRelay (ac_profile (entry_at m a)) task n) (\<lambda>n _. (n, te_open e n))) (\<lambda>(relay, openErr).
     if openErr \<noteq> [] then startLocal_fail e a why openErr
     else andThen (ask (\<lambda>_ _. ReadReady relay) (\<lambda>n _. te_ready e n)) (\<lambda>readyErr.
     if readyErr \<noteq> [] then andThen (ask (\<lambda>_ _. CloseStream relay) (\<lambda>_ _. ())) (\<lambda>_. startLocal_fail e a why readyErr)
     else case te_confirm e of
       None \<Rightarrow> enter_local a task relay
     | Some confirm \<Rightarrow>
         andThen (ask (\<lambda>_ _. ConfirmTask task) (\<lambda>n _. confirm n task current why)) (\<lambda>(confirmed, confirmErr).
         if confirmErr \<noteq> []
         then andThen (ask (\<lambda>_ _. StopRelay relay) (\<lambda>_ _. ())) (\<lambda>_.
              andThen (ask (\<lambda>_ _. CloseStream relay) (\<lambda>_ _. ())) (\<lambda>_. startLocal_fail e a why confirmErr))
         else enter_local a confirmed relay))))"

definition resume_begin :: "string \<Rightarrow> string \<Rightarrow> nat option relay_prog" where
  "resume_begin profileID taskID = atomic (\<lambda>m. (case entry_of m taskID of
       None \<Rightarrow> None
     | Some a \<Rightarrow> if ac_profileID (entry_at m a) \<noteq> profileID \<or> ac_state (entry_at m a) \<noteq> StatePaused then None
                 else Some a, m))"

definition ResumeTask :: "task_env \<Rightarrow> bool \<Rightarrow> string \<Rightarrow> string \<Rightarrow> (Entry option \<times> errors) relay_prog" where
  "ResumeTask e has_ctx profileID taskID =
     (if \<not> has_ctx then Return (None, [errorf e ''resume context is required''])
      else andThen (resume_begin profileID taskID) (\<lambda>paused. case paused of
             None \<Rightarrow> Return (None, [errorf e ''is not paused locally''])
           | Some a \<Rightarrow> andThen (ask (\<lambda>_ m. GatewayResume (ac_profile (entry_at m a)) (ac_session (entry_at m a))
                 (rt_ID (ac_task (entry_at m a)))) (\<lambda>n m. te_resume e n (ac_session (entry_at m a)))) (\<lambda>(current, err).
               if err \<noteq> [] then Return (None, err) else startLocal e a current Resumed)))"

section \<open>Deleting and stopping\<close>

definition find_entry :: "string \<Rightarrow> nat option relay_prog" where
  "find_entry taskID = atomic (\<lambda>m. (entry_of m taskID, m))"

definition forget_task :: "string \<Rightarrow> unit relay_prog" where
  "forget_task taskID = atomic (\<lambda>m. ((), m \<lparr> tm_entries := AList.delete taskID (tm_entries m) \<rparr>))"

text \<open>\<open>DeleteTask\<close> reads the fields of the entry after it has left the critical section.\<close>

definition DeleteTask :: "task_env \<Rightarrow> bool \<Rightarrow> string \<Rightarrow> string \<Rightarrow> errors relay_prog" where
  "DeleteTask e has_ctx profileID taskID =
     (if \<not> has_ctx then Return [errorf e ''delete context is required'']
      else andThen (find_entry taskID) (\<lambda>entry. case entry of
             None \<Rightarrow> Return [Not_managed_locally]
           | Some a \<Rightarrow> andThen (atomic (\<lambda>m. (entry_at m a, m))) (\<lambda>x.
               if ac_profileID x \<noteq> profileID then Return [Not_managed_locally]
               else andThen (if ac_state x = StateRunning then PauseTask e True profileID taskID else Return []) (\<lambda>pauseErr.
                    andThen (ask (\<lambda>_ m. GatewayDelete (ac_profile (entry_at m a)) (ac_session (entry_at m a))
                      (rt_ID (ac_task (entry_at m a)))) (\<lambda>n _. te_delete e n)) (\<lambda>deleteErr.
                    andThen (if deleteErr = [] then forget_task taskID else Return ()) (\<lambda>_.
                    Return (pauseErr @ deleteErr)))))))"

definition StopTask :: "task_env \<Rightarrow> bool \<Rightarrow> string \<Rightarrow> string \<Rightarrow> errors relay_prog" where
  "StopTask e has_ctx profileID taskID = andThen (PauseTask e has_ctx profileID taskID) (\<lambda>err.
     andThen (if err = [] then forget_task taskID else Return ()) (\<lambda>_. Return err))"

definition is_running :: "active \<Rightarrow> bool" where
  "is_running x \<longleftrightarrow> ac_state x = '''' \<or> ac_state x = StateRunning"

definition runningIDs :: "string \<Rightarrow> manager \<Rightarrow> string list" where
  "runningIDs profileID m = SortFunc compareStrings (map fst (filter (\<lambda>(taskID, a).
     ac_profileID (entry_at m a) = profileID \<and> is_running (entry_at m a)) (tm_entries m)))"

definition StopProfile :: "task_env \<Rightarrow> bool \<Rightarrow> string \<Rightarrow> errors relay_prog" where
  "StopProfile e has_ctx profileID =
     (if \<not> has_ctx then Return [errorf e ''stop Profile context is required'']
      else andThen lifecycleLock (\<lambda>_. andThen (atomic (\<lambda>m. (runningIDs profileID m, m))) (\<lambda>ids.
           andThen (forEach (StopTask e True profileID) ids) (\<lambda>err. andThen lifecycleUnlock (\<lambda>_. Return err)))))"

text \<open>One round of \<open>PauseProfile\<close> and \<open>ShutdownTasks\<close>: the entry is read again, its state after the critical section.\<close>

definition if_running :: "string \<Rightarrow> errors relay_prog \<Rightarrow> errors relay_prog" where
  "if_running taskID p = andThen (find_entry taskID) (\<lambda>entry. case entry of
       None \<Rightarrow> Return []
     | Some a \<Rightarrow> andThen (atomic (\<lambda>m. (ac_state (entry_at m a), m))) (\<lambda>state.
         if state = StateRunning then p else Return []))"

definition PauseProfile :: "task_env \<Rightarrow> bool \<Rightarrow> string \<Rightarrow> errors relay_prog" where
  "PauseProfile e has_ctx profileID =
     (if \<not> has_ctx then Return [errorf e ''pause Profile context is required'']
      else andThen lifecycleLock (\<lambda>_. andThen (atomic (\<lambda>m. (runningIDs profileID m, m))) (\<lambda>ids.
           andThen (forEach (\<lambda>taskID. if_running taskID (PauseTask e True profileID taskID)) ids) (\<lambda>err.
           andThen lifecycleUnlock (\<lambda>_. Return err)))))"

definition ReleaseProfile :: "task_env \<Rightarrow> bool \<Rightarrow> string \<Rightarrow> errors relay_prog" where
  "ReleaseProfile e has_ctx profileID =
     (if \<not> has_ctx then Return [errorf e ''release Profile context is required'']
      else andThen lifecycleLock (\<lambda>_. andThen (atomic (\<lambda>m.
             (map snd (filter (\<lambda>(taskID, a). ac_profileID (entry_at m a) = profileID \<and> is_running (entry_at m a))
                (te_order e (tm_calls m) (tm_entries m))), m \<lparr> tm_calls := Suc (tm_calls m) \<rparr>))) (\<lambda>entries.
           andThen (forEach (stopLocal e) entries) (\<lambda>err. andThen lifecycleUnlock (\<lambda>_. Return err)))))"

definition ShutdownTasks :: "task_env \<Rightarrow> bool \<Rightarrow> errors relay_prog" where
  "ShutdownTasks e has_ctx =
     (if \<not> has_ctx then Return [errorf e ''shutdown context is required'']
      else andThen lifecycleLock (\<lambda>_. andThen (atomic (\<lambda>m. ((), m \<lparr> tm_closed := True \<rparr>))) (\<lambda>_.
           andThen (atomic (\<lambda>m. (SortFunc (\<lambda>x y. compareStrings (fst x) (fst y))
             (map (\<lambda>(taskID, a). (taskID, ac_profileID (entry_at m a))) (tm_entries m)), m))) (\<lambda>ids.
           andThen (forEach (\<lambda>(taskID, profileID). if_running taskID (StopTask e True profileID taskID)) ids) (\<lambda>err.
           andThen lifecycleUnlock (\<lambda>_. Return err))))))"

definition ListTasks :: "string \<Rightarrow> Entry list relay_prog" where
  "ListTasks profileID = atomic (\<lambda>m.
     (SortFunc (\<lambda>x y. compareStrings (rt_ID (en_Task x)) (rt_ID (en_Task y)))
       (map snapshot (filter (\<lambda>x. profileID = '''' \<or> ac_profileID x = profileID) (map (entry_at m \<circ> snd) (tm_entries m)))), m))"

section \<open>Restoring\<close>

definition track :: "Profile \<Rightarrow> RemoteSession \<Rightarrow> RelayTask \<Rightarrow> nat relay_prog" where
  "track profile session task = atomic (\<lambda>m. (length (tm_heap m),
     m \<lparr> tm_entries := AList.update (rt_ID task) (length (tm_heap m)) (tm_entries m),
         tm_heap := tm_heap m @ [\<lparr> ac_profileID = pf_ID profile, ac_profile = profile, ac_session = session, ac_task = task,
           ac_relay = None, ac_cancel = None, ac_done = None, ac_state = StatePaused \<rparr>] \<rparr>))"

definition Track :: "Profile \<Rightarrow> RemoteSession \<Rightarrow> RelayTask \<Rightarrow> Entry relay_prog" where
  "Track profile session task = andThen (track profile session task) (\<lambda>a. atomic (\<lambda>m. (snapshot (entry_at m a), m)))"

definition is_stale :: "string \<Rightarrow> string \<Rightarrow> active \<Rightarrow> bool" where
  "is_stale profileID sessionID x \<longleftrightarrow> ac_profileID x = profileID \<and> rs_ID (ac_session x) \<noteq> sessionID"

definition dropStaleSessions :: "string \<Rightarrow> string \<Rightarrow> unit relay_prog" where
  "dropStaleSessions profileID sessionID = atomic (\<lambda>m.
     let stale = filter (\<lambda>(taskID, a). is_stale profileID sessionID (entry_at m a)) (tm_entries m) in
     ((), m \<lparr> tm_cancelled := List.map_filter (\<lambda>(taskID, a). ac_cancel (entry_at m a)) stale @ tm_cancelled m,
              tm_entries := filter (\<lambda>(taskID, a). \<not> is_stale profileID sessionID (entry_at m a)) (tm_entries m) \<rparr>))"

text \<open>The first critical section of \<open>reconcile\<close>: the entry, if there is one, and its state.\<close>

definition reconcile_begin :: "Profile \<Rightarrow> RemoteSession \<Rightarrow> RelayTask \<Rightarrow> (nat \<times> string) option relay_prog" where
  "reconcile_begin profile session task = atomic (\<lambda>m. case entry_of m (rt_ID task) of
       None \<Rightarrow> (None, m)
     | Some a \<Rightarrow> (Some (a, ac_state (entry_at m a)),
         change a (\<lambda>x. x \<lparr> ac_profile := profile, ac_session := session,
           ac_task := (ac_task x) \<lparr> rt_Running := rt_Running task \<rparr> \<rparr>) m))"

definition reconcile :: "task_env \<Rightarrow> Profile \<Rightarrow> RemoteSession \<Rightarrow> RelayTask \<Rightarrow> errors relay_prog" where
  "reconcile e profile session task = andThen (reconcile_begin profile session task) (\<lambda>known. case known of
       Some (a, state) \<Rightarrow>
         if rt_Running task \<and> state = StatePaused then andThen (startLocal e a task Restored) (\<lambda>(_, err). Return err)
         else if \<not> rt_Running task \<and> state = StateRunning then stopLocal e a
         else Return []
     | None \<Rightarrow> andThen (track profile session task) (\<lambda>a.
         if \<not> rt_Running task then Return []
         else andThen (startLocal e a task Restored) (\<lambda>(_, err).
           if err = [] then Return []
           else andThen (atomic (\<lambda>m. ((), if entry_of m (rt_ID task) = Some a
                  then m \<lparr> tm_entries := AList.delete (rt_ID task) (tm_entries m) \<rparr> else m))) (\<lambda>_. Return err))))"

primrec reconcileAll :: "task_env \<Rightarrow> Profile \<Rightarrow> RemoteSession \<Rightarrow> RelayTask list \<Rightarrow> errors relay_prog" where
  "reconcileAll e profile session [] = Return []"
| "reconcileAll e profile session (task # tasks) = andThen (reconcile e profile session task) (\<lambda>err.
     if err \<noteq> [] then Return err else reconcileAll e profile session tasks)"

definition Restore :: "task_env \<Rightarrow> Profile \<Rightarrow> RemoteSession \<Rightarrow> errors relay_prog" where
  "Restore e profile session = andThen (ask (\<lambda>_ _. GatewayList profile session) (\<lambda>n _. te_list e n session)) (\<lambda>(tasks, err).
     if err \<noteq> [] then Return err
     else andThen (dropStaleSessions (pf_ID profile) (rs_ID session)) (\<lambda>_. reconcileAll e profile session tasks))"

end
