(* ===== verification/TrafficTasks.thy ===== *)
theory TrafficTasks
  imports TaskRelay TaskStore
begin

text \<open>
  The three managers on top of the task relay manager: Exchange, Mirror and Preview (\<^verbatim>\<open>internal/client/exchange\<close>,
  \<^verbatim>\<open>mirror\<close>, \<^verbatim>\<open>preview\<close>). Each adapts the control client to the manager's Gateway, opens the traffic stream, and
  starts a task: it creates it at the Gateway, opens its relay and lets the manager adopt it.
\<close>

section \<open>Tasks of the control client\<close>

datatype traffic_kind = Exchange | Mirror | Preview

definition operation :: "traffic_kind \<Rightarrow> string" where
  "operation kind = (case kind of Exchange \<Rightarrow> ''exchange'' | Mirror \<Rightarrow> ''mirror'' | Preview \<Rightarrow> ''preview'')"

definition title :: "traffic_kind \<Rightarrow> string" where
  "title kind = (case kind of Exchange \<Rightarrow> ''Exchange'' | Mirror \<Rightarrow> ''Mirror'' | Preview \<Rightarrow> ''Preview'')"

text \<open>What the client returns of a task; \<open>rm_Name\<close> is the name of the Service, or of the Preview.\<close>

record RemoteTask =
  rm_ID :: string
  rm_Name :: string
  rm_ClusterIP :: string
  rm_State :: task_state
  rm_Ports :: "Port list"
  rm_LocalTargets :: "Target list"

definition relayTask :: "RemoteTask \<Rightarrow> RemoteSession \<Rightarrow> RelayTask" where
  "relayTask task session = \<lparr> rt_ID = rm_ID task, rt_SessionID = rs_ID session, rt_Namespace = rs_Namespace session,
     rt_Service = rm_Name task, rt_ClusterIP = rm_ClusterIP task, rt_Running = (rm_State task = Running), rt_Targets = [] \<rparr>"

text \<open>The remote and the local form of a target have the same fields and are one record here.\<close>

definition targetPorts :: "Target list \<Rightarrow> Port list" where
  "targetPorts targets = map (\<lambda>target. \<lparr> pt_Name = '''', pt_ServicePort = tg_ServicePort target, pt_Protocol = tg_Protocol target \<rparr>) targets"

text \<open>
  The parameters: the lower case of letters outside ASCII, the forms of IP addresses, the client's optional methods and
  the answers of its calls, the stream opener (whether the stream is nil, and the error), and the relay.
\<close>

record client_env =
  cl_lower :: "string \<Rightarrow> string"
  cl_parseIP :: "string \<Rightarrow> (bool \<times> bool) option"
  cl_canPause :: bool
  cl_canResume :: bool
  cl_canDelete :: bool
  cl_canList :: bool
  cl_create :: "nat \<Rightarrow> RemoteTask \<times> errors"
  cl_get :: "nat \<Rightarrow> RemoteTask \<times> errors"
  cl_stop :: "nat \<Rightarrow> errors"
  cl_pause :: "nat \<Rightarrow> errors"
  cl_resume :: "nat \<Rightarrow> RemoteTask \<times> errors"
  cl_delete :: "nat \<Rightarrow> errors"
  cl_list :: "nat \<Rightarrow> RemoteTask list \<times> errors"
  cl_stream :: "nat \<Rightarrow> bool \<times> errors"
  cl_ready :: "nat \<Rightarrow> errors"
  cl_relayStop :: "nat \<Rightarrow> errors"
  cl_expired :: "nat \<Rightarrow> bool"
  cl_order :: "nat \<Rightarrow> (string \<times> nat) list \<Rightarrow> (string \<times> nat) list"

section \<open>Targets\<close>

definition taskTargets :: "client_env \<Rightarrow> traffic_kind \<Rightarrow> Target list \<Rightarrow> error + Target list \<times> Port list" where
  "taskTargets c kind input = bindE (NormalizeTargets (cl_lower c) (cl_parseIP c) input (operation kind)) (\<lambda>targets.
     Inr (targets, targetPorts targets))"

abbreviation targetKey :: "client_env \<Rightarrow> Target \<Rightarrow> string" where
  "targetKey c target \<equiv> TargetKey (cl_lower c) (tg_Protocol target) (tg_ServicePort target)"

abbreviation portKey :: "client_env \<Rightarrow> Port \<Rightarrow> string" where
  "portKey c port \<equiv> TargetKey (cl_lower c) (pt_Protocol port) (pt_ServicePort port)"

fun match_ports :: "client_env \<Rightarrow> traffic_kind \<Rightarrow> string set \<Rightarrow> Port list \<Rightarrow> errors" where
  "match_ports c kind want [] = []"
| "match_ports c kind want (port # ports) =
     (if portKey c port \<notin> want then [Other_error (''gateway changed the requested '' @ title kind @ '' ports'')]
      else match_ports c kind (want - {portKey c port}) ports)"

definition matchTaskTargets :: "client_env \<Rightarrow> traffic_kind \<Rightarrow> RemoteTask \<Rightarrow> Target list \<Rightarrow> errors" where
  "matchTaskTargets c kind task targets =
     (if length (rm_Ports task) \<noteq> length targets then [Other_error (''gateway changed the requested '' @ title kind @ '' ports'')]
      else match_ports c kind (set (map (targetKey c) targets)) (rm_Ports task))"

definition matchTask :: "client_env \<Rightarrow> RemoteTask \<Rightarrow> string \<Rightarrow> Target list \<Rightarrow> errors" where
  "matchTask c task name targets =
     (if rm_Name task \<noteq> name \<or> length (rm_Ports task) \<noteq> length targets
      then [Other_error ''gateway changed the requested Preview identity'']
      else match_ports c Preview (set (map (targetKey c) targets)) (rm_Ports task))"

section \<open>The Gateway adapter\<close>

definition reconcilable :: "task_state \<Rightarrow> bool" where
  "reconcilable state \<longleftrightarrow> state = Stopped \<or> state = Pending \<or> state = Running"

fun list_tasks :: "client_env \<Rightarrow> traffic_kind \<Rightarrow> RemoteSession \<Rightarrow> RemoteTask list \<Rightarrow> RelayTask list" where
  "list_tasks c kind session [] = []"
| "list_tasks c kind session (task # tasks) =
     (if \<not> reconcilable (rm_State task) \<or> rm_LocalTargets task = [] then list_tasks c kind session tasks
      else case NormalizeTargets (cl_lower c) (cl_parseIP c) (rm_LocalTargets task) (operation kind) of
             Inl _ \<Rightarrow> list_tasks c kind session tasks
           | Inr targets \<Rightarrow>
               if (if kind = Preview then matchTask c task (rm_Name task) targets else matchTaskTargets c kind task targets) \<noteq> []
               then list_tasks c kind session tasks
               else (relayTask task session) \<lparr> rt_Targets := targets \<rparr> # list_tasks c kind session tasks)"

definition gateway_list :: "client_env \<Rightarrow> traffic_kind \<Rightarrow> nat \<Rightarrow> RemoteSession \<Rightarrow> RelayTask list \<times> errors" where
  "gateway_list c kind n session =
     (if \<not> cl_canList c then ([], [Other_error (operation kind @ '' restore is unavailable'')])
      else let (tasks, err) = cl_list c n in
        if err \<noteq> [] then ([], err) else (list_tasks c kind session tasks, []))"

definition zero_task :: RelayTask where
  "zero_task = \<lparr> rt_ID = '''', rt_SessionID = '''', rt_Namespace = '''', rt_Service = '''', rt_ClusterIP = '''', rt_Running = False,
     rt_Targets = [] \<rparr>"

definition gateway_resume :: "client_env \<Rightarrow> traffic_kind \<Rightarrow> nat \<Rightarrow> RemoteSession \<Rightarrow> RelayTask \<times> errors" where
  "gateway_resume c kind n session =
     (if \<not> cl_canResume c then (zero_task, [Other_error (operation kind @ '' resume is unavailable'')])
      else let (task, err) = cl_resume c n in if err \<noteq> [] then (zero_task, err) else (relayTask task session, []))"

definition gateway_pause_call :: "client_env \<Rightarrow> nat \<Rightarrow> errors" where
  "gateway_pause_call c n = (if \<not> cl_canPause c then cl_stop c n else cl_pause c n)"

definition gateway_delete :: "client_env \<Rightarrow> nat \<Rightarrow> errors" where
  "gateway_delete c n = (if \<not> cl_canDelete c then cl_stop c n else cl_delete c n)"

definition open_stream :: "client_env \<Rightarrow> traffic_kind \<Rightarrow> nat \<Rightarrow> errors" where
  "open_stream c kind n = (let (empty, err) = cl_stream c n in
     if err \<noteq> [] then err else if empty then [Other_error (''data Plane returned an empty '' @ title kind @ '' stream'')] else [])"

definition incomplete_preview :: relay_error where
  "incomplete_preview = Other_error ''gateway returned an incomplete running Preview''"

text \<open>\<open>confirm\<close> reads a resumed Preview again; the call is part of the manager's step.\<close>

definition confirm :: "client_env \<Rightarrow> nat \<Rightarrow> RelayTask \<Rightarrow> RelayTask \<Rightarrow> reason \<Rightarrow> RelayTask \<times> errors" where
  "confirm c n stored current why =
     (let (task, err) = cl_get c n;
          running = (if why = Resumed then (rm_State task = Running, rm_ClusterIP task) else (rt_Running current, rt_ClusterIP current)) in
      if why = Resumed \<and> err \<noteq> [] then (zero_task, err)
      else if \<not> fst running \<or> cl_parseIP c (snd running) = None then (zero_task, [incomplete_preview])
      else (stored \<lparr> rt_ClusterIP := snd running, rt_Running := True \<rparr>, []))"

definition gateway_env :: "client_env \<Rightarrow> traffic_kind \<Rightarrow> task_env" where
  "gateway_env c kind = \<lparr> te_name = operation kind, te_pause = gateway_pause_call c, te_resume = gateway_resume c kind,
     te_delete = gateway_delete c, te_list = gateway_list c kind, te_open = open_stream c kind, te_ready = cl_ready c,
     te_stop = cl_relayStop c, te_confirm = (if kind = Preview then Some (confirm c) else None),
     te_expired = cl_expired c, te_order = cl_order c \<rparr>"

section \<open>Starting a task\<close>

record StartRequest =
  rq_ProfileID :: string
  rq_Namespace :: string
  rq_Name :: string
  rq_Targets :: "Target list"

text \<open>What every start does after it has given up: the created task is deleted at the Gateway.\<close>

definition discard :: "client_env \<Rightarrow> Profile \<Rightarrow> RemoteSession \<Rightarrow> string \<Rightarrow> errors \<Rightarrow> (Entry option \<times> errors) relay_prog" where
  "discard c profile session taskID cause =
     andThen (ask (\<lambda>_ _. GatewayDelete profile session taskID) (\<lambda>n _. gateway_delete c n)) (\<lambda>err. Return (None, cause @ err))"

definition close_stream :: "nat \<Rightarrow> unit relay_prog" where
  "close_stream relay = ask (\<lambda>_ _. CloseStream relay) (\<lambda>_ _. ())"

definition create_task :: "client_env \<Rightarrow> string \<Rightarrow> (RemoteTask \<times> errors) relay_prog" where
  "create_task c key = ask (\<lambda>n _. CreateRemote key (if snd (cl_create c n) = [] then Some (rm_ID (fst (cl_create c n))) else None))
     (\<lambda>n _. cl_create c n)"

text \<open>The idempotency key ends in a fresh UUID, which is a parameter. The answer to \<open>Hold\<close> ends with the start.\<close>

definition held :: "(Entry option \<times> errors) relay_prog \<Rightarrow> string \<Rightarrow> (Entry option \<times> errors) relay_prog" where
  "held p closedErr = andThen Hold (\<lambda>closed. if closed then Return (None, [Other_error closedErr])
     else andThen p (\<lambda>r. andThen lifecycleRUnlock (\<lambda>_. Return r)))"

definition adopt_relay ::
  "client_env \<Rightarrow> traffic_kind \<Rightarrow> Profile \<Rightarrow> RemoteSession \<Rightarrow> RelayTask \<Rightarrow> nat \<Rightarrow> (Entry option \<times> errors) relay_prog" where
  "adopt_relay c kind profile session task relay =
     andThen (Adopt (gateway_env c kind) profile session task relay) (\<lambda>(info, err).
       if err = [] then Return (info, [])
       else if kind = Preview
       then andThen (ask (\<lambda>_ _. StopRelay relay) (\<lambda>n _. cl_relayStop c n)) (\<lambda>streamErr.
            andThen (close_stream relay) (\<lambda>_. discard c profile session (rt_ID task) (err @ streamErr)))
       else andThen (close_stream relay) (\<lambda>_. discard c profile session (rt_ID task) err))"

definition open_relay ::
  "client_env \<Rightarrow> traffic_kind \<Rightarrow> Profile \<Rightarrow> RemoteSession \<Rightarrow> RelayTask \<Rightarrow> (nat \<Rightarrow> (Entry option \<times> errors) relay_prog) \<Rightarrow>
     (Entry option \<times> errors) relay_prog" where
  "open_relay c kind profile session task k =
     andThen (ask (\<lambda>n _. OpenRelay profile task n) (\<lambda>n _. (n, open_stream c kind n))) (\<lambda>(relay, err).
     if err \<noteq> [] then discard c profile session (rt_ID task) err
     else andThen (ask (\<lambda>_ _. ReadReady relay) (\<lambda>n _. cl_ready c n)) (\<lambda>err.
     if err \<noteq> [] then andThen (close_stream relay) (\<lambda>_. discard c profile session (rt_ID task) err)
     else k relay))"

definition taskStart ::
  "client_env \<Rightarrow> traffic_kind \<Rightarrow> bool \<Rightarrow> Profile \<Rightarrow> RemoteSession \<Rightarrow> StartRequest \<Rightarrow> string \<Rightarrow> (Entry option \<times> errors) relay_prog" where
  "taskStart c kind has_ctx profile session request key =
     (if \<not> has_ctx \<or> TrimSpace (rq_ProfileID request) \<noteq> pf_ID profile \<or> rs_State session \<noteq> ''active''
      then Return (None, [Other_error ''active Server Profile Session is required''])
      else case taskTargets c kind (rq_Targets request) of
        Inl err \<Rightarrow> Return (None, [Other_error err])
      | Inr (targets, ports) \<Rightarrow> andThen (create_task c key) (\<lambda>(task, err).
          if err \<noteq> [] then Return (None, err)
          else if matchTaskTargets c kind task targets \<noteq> []
          then discard c profile session (rm_ID task) (matchTaskTargets c kind task targets)
          else let relayed = (relayTask task session) \<lparr> rt_Running := True, rt_Targets := targets \<rparr> in
            open_relay c kind profile session relayed (adopt_relay c kind profile session relayed)))"

definition ExchangeStart :: "client_env \<Rightarrow> bool \<Rightarrow> Profile \<Rightarrow> RemoteSession \<Rightarrow> StartRequest \<Rightarrow> string \<Rightarrow> (Entry option \<times> errors) relay_prog" where
  "ExchangeStart c has_ctx profile session request key =
     held (taskStart c Exchange has_ctx profile session request key) ''exchange manager is closed''"

definition MirrorStart :: "client_env \<Rightarrow> bool \<Rightarrow> Profile \<Rightarrow> RemoteSession \<Rightarrow> StartRequest \<Rightarrow> string \<Rightarrow> (Entry option \<times> errors) relay_prog" where
  "MirrorStart c has_ctx profile session request key =
     held (taskStart c Mirror has_ctx profile session request key) ''mirror manager is closed''"

text \<open>A Preview is read again once its relay is ready, when the Gateway has published its Service.\<close>

definition publish_preview ::
  "client_env \<Rightarrow> Profile \<Rightarrow> RemoteSession \<Rightarrow> string \<Rightarrow> Target list \<Rightarrow> RelayTask \<Rightarrow> nat \<Rightarrow> (Entry option \<times> errors) relay_prog" where
  "publish_preview c profile session name targets relayed relay =
     andThen (ask (\<lambda>_ _. GetRemote (rt_ID relayed)) (\<lambda>n _. cl_get c n)) (\<lambda>(running, getErr).
     let err = (if getErr \<noteq> [] then getErr
                else if rm_State running \<noteq> Running \<or> cl_parseIP c (rm_ClusterIP running) = None then [incomplete_preview]
                else matchTask c running name targets) in
     if err \<noteq> []
     then andThen (ask (\<lambda>_ _. StopRelay relay) (\<lambda>n _. cl_relayStop c n)) (\<lambda>streamErr.
          andThen (close_stream relay) (\<lambda>_. discard c profile session (rt_ID relayed) (err @ streamErr)))
     else adopt_relay c Preview profile session (relayed \<lparr> rt_ClusterIP := rm_ClusterIP running \<rparr>) relay)"

definition PreviewStart :: "client_env \<Rightarrow> bool \<Rightarrow> Profile \<Rightarrow> RemoteSession \<Rightarrow> StartRequest \<Rightarrow> string \<Rightarrow> (Entry option \<times> errors) relay_prog" where
  "PreviewStart c has_ctx profile session request key = held
     (if \<not> has_ctx \<or> TrimSpace (rq_ProfileID request) \<noteq> pf_ID profile \<or> rs_State session \<noteq> ''active''
      then Return (None, [Other_error ''active Server Profile Session is required''])
      else if TrimSpace (rq_Namespace request) = '''' \<or> TrimSpace (rq_Namespace request) \<noteq> rs_Namespace session
      then Return (None, [Other_error ''preview namespace must match the active Session namespace''])
      else case taskTargets c Preview (rq_Targets request) of
        Inl err \<Rightarrow> Return (None, [Other_error err])
      | Inr (targets, ports) \<Rightarrow> andThen (create_task c key) (\<lambda>(task, err).
          if err \<noteq> [] then Return (None, err)
          else if matchTask c task (TrimSpace (rq_Name request)) targets \<noteq> []
          then discard c profile session (rm_ID task) (matchTask c task (TrimSpace (rq_Name request)) targets)
          else let relayed = (relayTask task session) \<lparr> rt_Running := True, rt_Targets := targets \<rparr> in
            open_relay c Preview profile session relayed
              (publish_preview c profile session (TrimSpace (rq_Name request)) targets relayed)))
     ''preview manager is closed''"

end
