(* ===== verification/TaskRelaySafety.thy ===== *)
theory TaskRelaySafety
  imports TrafficTasks
begin

text \<open>
  What holds of the task relay manager however its operations and the relays' goroutines interleave: an entry's
  local lifecycle only moves forward, and the manager does not panic as long as no wait for a relay's goroutine
  is cut short by its context; and what goes wrong when one is, or when operations on one task overlap.
\<close>

section \<open>The clients and the pool\<close>

datatype task_outcome = Document "Entry option \<times> errors" | Result errors | Listing "Entry list" | Flag bool | Finished

abbreviation returning :: "('a \<Rightarrow> task_outcome) \<Rightarrow> 'a relay_prog \<Rightarrow> task_outcome relay_prog" where
  "returning f p \<equiv> andThen p (\<lambda>x. Return (f x))"

inductive_set client_ops :: "task_env \<Rightarrow> task_outcome relay_prog set" for e where
  "returning Document (Adopt e profile session task relay) \<in> client_ops e"
| "returning Flag Closed \<in> client_ops e"
| "returning Document (ExchangeStart c has_ctx profile session request key) \<in> client_ops e"
| "returning Document (MirrorStart c has_ctx profile session request key) \<in> client_ops e"
| "returning Document (PreviewStart c has_ctx profile session request key) \<in> client_ops e"
| "returning Result (PauseTask e has_ctx profileID taskID) \<in> client_ops e"
| "returning Document (ResumeTask e has_ctx profileID taskID) \<in> client_ops e"
| "returning Result (DeleteTask e has_ctx profileID taskID) \<in> client_ops e"
| "returning Result (StopTask e has_ctx profileID taskID) \<in> client_ops e"
| "returning Result (StopProfile e has_ctx profileID) \<in> client_ops e"
| "returning Result (PauseProfile e has_ctx profileID) \<in> client_ops e"
| "returning Result (ReleaseProfile e has_ctx profileID) \<in> client_ops e"
| "returning Result (ShutdownTasks e has_ctx) \<in> client_ops e"
| "returning Listing (ListTasks profileID) \<in> client_ops e"
| "returning (\<lambda>_. Finished) (Track profile session task) \<in> client_ops e"
| "returning Result (Restore e profile session) \<in> client_ops e"

definition relay_threads :: "manager \<Rightarrow> task_outcome relay_prog list" where
  "relay_threads m = map (\<lambda>a. returning (\<lambda>_. Finished) (run a)) (tm_started m)"

definition collect :: "manager \<Rightarrow> manager" where
  "collect m = m \<lparr> tm_started := [] \<rparr>"

abbreviation task_schedule where
  "task_schedule \<equiv> schedule relay_threads collect tm_panicked"

abbreviation task_run where
  "task_run \<equiv> run_schedule relay_threads collect tm_panicked"

abbreviation task_reaches where
  "task_reaches e \<equiv> reaches relay_threads collect tm_panicked (client_ops e) empty_manager"

section \<open>Tokens\<close>

text \<open>
  \<open>Releasing a\<close> is held by the one operation that moved the entry \<open>a\<close> from running to pausing, \<open>Relaying a\<close> by the
  entry's goroutine until it closes the entry's channel, and \<open>Drained a\<close> by whoever has seen the channel closed.
\<close>

datatype token = Releasing nat | Relaying nat | Drained nat

definition patient :: "task_env \<Rightarrow> bool" where
  "patient e \<longleftrightarrow> (\<forall>n. \<not> te_expired e n)"

definition live :: "nat \<Rightarrow> active \<Rightarrow> bool" where
  "live a x \<longleftrightarrow> ac_relay x \<noteq> None \<and> ac_cancel x \<noteq> None \<and> ac_done x = Some a"

fun relay_owns :: "task_env \<Rightarrow> token \<Rightarrow> manager \<Rightarrow> bool" where
  "relay_owns e (Releasing a) m \<longleftrightarrow> a < length (tm_heap m) \<and> ac_state (entry_at m a) = StatePausing \<and> live a (entry_at m a)"
| "relay_owns e (Relaying a) m \<longleftrightarrow> a < length (tm_heap m) \<and> a \<notin> set (tm_finished m) \<and> (patient e \<longrightarrow> live a (entry_at m a))"
| "relay_owns e (Drained a) m \<longleftrightarrow> (patient e \<longrightarrow> a \<in> set (tm_finished m))"

definition is_shared :: "token \<Rightarrow> bool" where
  "is_shared t \<longleftrightarrow> (\<exists>a. t = Drained a)"

definition relay_glob :: "task_env \<Rightarrow> manager \<Rightarrow> bool" where
  "relay_glob e m \<longleftrightarrow> (patient e \<longrightarrow> \<not> tm_panicked m) \<and>
     distinct (map fst (tm_entries m)) \<and> (\<forall>(taskID, a)\<in>set (tm_entries m). a < length (tm_heap m) \<and> rt_ID (ac_task (entry_at m a)) = taskID) \<and>
     (\<forall>c\<in>set (tm_finished m). c < length (tm_heap m)) \<and>
     (\<forall>a<length (tm_heap m). ac_done (entry_at m a) \<in> {None, Some a} \<and>
        ac_state (entry_at m a) \<in> {StateRunning, StatePausing, StatePaused} \<and>
        (ac_state (entry_at m a) = StateRunning \<longrightarrow> live a (entry_at m a)))"

text \<open>The stages of an entry, and how one may follow another.\<close>

fun stage_step :: "string \<Rightarrow> string \<Rightarrow> bool" where
  "stage_step s t \<longleftrightarrow> t = s \<or> s = StateRunning \<and> t = StatePausing \<or> s = StatePausing \<and> t = StatePaused"

definition relay_evolves :: "manager \<Rightarrow> manager \<Rightarrow> bool" where
  "relay_evolves m m' \<longleftrightarrow> length (tm_heap m) \<le> length (tm_heap m') \<and>
     (\<forall>a<length (tm_heap m). stage_step (ac_state (entry_at m a)) (ac_state (entry_at m' a)) \<and>
        ac_profileID (entry_at m' a) = ac_profileID (entry_at m a)) \<and>
     (\<exists>es. tm_events m' = tm_events m @ es)"

definition relay_given :: "manager \<Rightarrow> token set list" where
  "relay_given m = map (\<lambda>a. {Relaying a}) (tm_started m)"

declare andThen_atomic [simp del] andThen_await [simp del]

interpretation rt: tokens "relay_glob e" "relay_owns e" relay_evolves relay_given is_shared for e .

lemma states_differ [simp]:
  "StateRunning \<noteq> StatePausing" "StateRunning \<noteq> StatePaused" "StatePausing \<noteq> StatePaused"
  "StatePausing \<noteq> StateRunning" "StatePaused \<noteq> StateRunning" "StatePaused \<noteq> StatePausing"
  "StateRunning \<noteq> ''''" "StatePausing \<noteq> ''''" "StatePaused \<noteq> ''''"
  by (simp_all add: StateRunning_def StatePausing_def StatePaused_def)

lemma given_Nil [simp]: "relay_given m = [] \<longleftrightarrow> tm_started m = []"
  by (simp add: relay_given_def)

lemma shared_simps [simp]: "is_shared (Drained a)" "\<not> is_shared (Releasing a)" "\<not> is_shared (Relaying a)"
  by (simp_all add: is_shared_def)

lemma evolves_refl [simp]: "relay_evolves m m"
  by (simp add: relay_evolves_def)

text \<open>A step that leaves the heap, the channels and the process alone.\<close>

lemma update_outside:
  assumes "rt.knows e T m" "tm_heap m' = tm_heap m" "tm_finished m' = tm_finished m" "tm_panicked m' = tm_panicked m"
    "\<exists>es. tm_events m' = tm_events m @ es"
    "distinct (map fst (tm_entries m'))" "set (tm_entries m') \<subseteq> set (tm_entries m)" "T' \<subseteq> T"
  shows "rt.update e T m T' m'"
proof -
  have o: "relay_owns e t m' = relay_owns e t m" for t using assms(2,3) by (cases t) auto
  show ?thesis using assms unfolding rt.update_def rt.knows_def relay_glob_def relay_evolves_def o by auto
qed

lemma glob_entries:
  assumes "relay_glob e m"
  shows "distinct (map fst (tm_entries m))"
    "\<forall>(taskID, a)\<in>set (tm_entries m). a < length (tm_heap m) \<and> rt_ID (ac_task (entry_at m a)) = taskID"
  using assms by (auto simp: relay_glob_def)

lemma entry_ofD:
  assumes "relay_glob e m" "entry_of m taskID = Some a"
  shows "a < length (tm_heap m)" "(ac_state (entry_at m a) = StateRunning \<Longrightarrow> live a (entry_at m a))"
    "ac_state (entry_at m a) \<in> {StateRunning, StatePausing, StatePaused}" "rt_ID (ac_task (entry_at m a)) = taskID"
  using assms map_of_SomeD [OF assms(2)] by (auto simp: relay_glob_def)

lemma update_quiet:
  assumes "rt.knows e T m" "tm_heap m' = tm_heap m" "tm_finished m' = tm_finished m" "tm_panicked m' = tm_panicked m"
    "\<exists>es. tm_events m' = tm_events m @ es" "tm_entries m' = tm_entries m" "T' \<subseteq> T"
  shows "rt.update e T m T' m'"
  using assms by (intro update_outside) (auto simp: rt.knows_def relay_glob_def)

lemma update_same: "rt.knows e T m \<Longrightarrow> T' \<subseteq> T \<Longrightarrow> rt.update e T m T' m"
  by (rule update_quiet) auto

text \<open>Steps that only call out, look, or touch the lifecycle lock.\<close>

lemma triple_ask [intro]: "rt.triple e T (ask event answer) (\<lambda>_. T)"
  unfolding ask_def
  by (rule rt.triple_atomic) (auto simp: relay_given_def intro!: update_quiet)

lemma triple_look [intro]: "rt.triple e T (atomic (\<lambda>m. (f m, m))) (\<lambda>_. T)"
  by (rule rt.triple_atomic) (auto simp: relay_given_def intro: update_same)

lemma triple_Return [intro, simp]: "rt.triple e T (Return x) (\<lambda>_. {})"
  by (rule rt.returns) simp

lemma triple_locks:
  "rt.triple e {} lifecycleRLock (\<lambda>_. {})" "rt.triple e {} lifecycleRUnlock (\<lambda>_. {})"
  "rt.triple e {} lifecycleLock (\<lambda>_. {})" "rt.triple e {} lifecycleUnlock (\<lambda>_. {})" "rt.triple e {} Closed (\<lambda>_. {})"
  unfolding lifecycleRLock_def lifecycleRUnlock_def lifecycleLock_def lifecycleUnlock_def Closed_def
  by ((rule rt.triple_atomic rt.triple_await, auto simp: relay_given_def split: if_splits intro!: update_quiet)+)

section \<open>The steps that move an entry\<close>

lemma change_simps [simp]:
  "length (tm_heap (change a f m)) = length (tm_heap m)"
  "entry_at (change a f m) b = (if b = a \<and> a < length (tm_heap m) then f (entry_at m a) else entry_at m b)"
  "tm_entries (change a f m) = tm_entries m" "tm_finished (change a f m) = tm_finished m"
  "tm_panicked (change a f m) = tm_panicked m" "tm_events (change a f m) = tm_events m"
  "tm_started (change a f m) = tm_started m"
proof -
  show "entry_at (change a f m) b = (if b = a \<and> a < length (tm_heap m) then f (entry_at m a) else entry_at m b)"
    by (cases "a < length (tm_heap m)"; cases "b = a") (simp_all add: change_def list_update_beyond)
qed (simp_all add: change_def)

lemma glob_change:
  assumes "relay_glob e m" "a < length (tm_heap m)" "ac_done (f (entry_at m a)) \<in> {None, Some a}"
    "ac_state (f (entry_at m a)) \<in> {StateRunning, StatePausing, StatePaused}"
    "ac_state (f (entry_at m a)) = StateRunning \<Longrightarrow> live a (f (entry_at m a))"
    "rt_ID (ac_task (f (entry_at m a))) = rt_ID (ac_task (entry_at m a))"
  shows "relay_glob e (change a f m)"
  using assms by (auto simp: relay_glob_def)

lemma owns_change:
  assumes "relay_owns e t m" "t \<noteq> Releasing a"
    "\<And>b. t = Relaying b \<Longrightarrow> b = a \<Longrightarrow> patient e \<Longrightarrow> live a (f (entry_at m a))"
  shows "relay_owns e t (change a f m)"
  using assms by (cases t) auto

lemma evolves_change:
  assumes "stage_step (ac_state (entry_at m a)) (ac_state (f (entry_at m a)))"
    "ac_profileID (f (entry_at m a)) = ac_profileID (entry_at m a)"
  shows "relay_evolves m (change a f m)"
  using assms by (auto simp: relay_evolves_def)

text \<open>Running to pausing: the one who does it holds the entry.\<close>

lemma update_to_pausing:
  assumes "rt.knows e {} m" "a < length (tm_heap m)" "ac_state (entry_at m a) = StateRunning" "live a (entry_at m a)"
  shows "rt.update e {} m {Releasing a} (change a (\<lambda>x. x \<lparr> ac_state := StatePausing \<rparr>) m)"
proof -
  let ?m = "change a (\<lambda>x. x \<lparr> ac_state := StatePausing \<rparr>) m"
  have g: "relay_glob e ?m" by (rule glob_change) (use assms in \<open>auto simp: rt.knows_def live_def\<close>)
  have "relay_evolves m ?m" by (rule evolves_change) (simp_all add: assms(3))
  moreover have "relay_owns e (Releasing a) ?m" using assms by (simp add: live_def)
  moreover have "u \<noteq> Releasing a \<and> relay_owns e u ?m" if "relay_owns e u m" for u
  proof
    show "u \<noteq> Releasing a" using that assms(3) by auto
    then show "relay_owns e u ?m" using that assms(4) by (intro owns_change) (auto simp: live_def)
  qed
  ultimately show ?thesis using g unfolding rt.update_def rt.knows_def by auto
qed

lemma triple_pause_begin:
  "rt.triple e {} (pause_begin profileID taskID) (\<lambda>r. case r of None \<Rightarrow> {} | Some a \<Rightarrow> {Releasing a})"
  unfolding pause_begin_def
proof (rule rt.triple_atomic)
  fix m x m' assume k: "rt.knows e {} m" "relay_given m = []"
    and s: "(case entry_of m taskID of None \<Rightarrow> (None, m)
      | Some a \<Rightarrow> if ac_profileID (entry_at m a) \<noteq> profileID \<or> ac_state (entry_at m a) \<noteq> '''' \<and> ac_state (entry_at m a) \<noteq> StateRunning
                 then (None, m) else (Some a, change a (\<lambda>x. x \<lparr> ac_state := StatePausing \<rparr>) m)) = (x, m')"
  show "separate is_shared ((case x of None \<Rightarrow> {} | Some a \<Rightarrow> {Releasing a}) # relay_given m') \<and>
    rt.update e {} m ((case x of None \<Rightarrow> {} | Some a \<Rightarrow> {Releasing a}) \<union> \<Union>(set (relay_given m'))) m'"
  proof (cases x)
    case None
    then have "m' = m" using s by (auto split: option.splits if_splits)
    then show ?thesis using k None by (auto simp: relay_given_def intro: update_same)
  next
    case (Some a)
    have g: "relay_glob e m" using k by (simp add: rt.knows_def)
    have a: "entry_of m taskID = Some a" "m' = change a (\<lambda>x. x \<lparr> ac_state := StatePausing \<rparr>) m"
      "ac_state (entry_at m a) = '''' \<or> ac_state (entry_at m a) = StateRunning"
      using s Some by (auto split: option.splits if_splits)
    have r: "ac_state (entry_at m a) = StateRunning" using a(3) entry_ofD(3) [OF g a(1)] by auto
    show ?thesis using update_to_pausing [OF k(1) entry_ofD(1) [OF g a(1)] r entry_ofD(2) [OF g a(1) r]] Some k(2) a(2)
      by (simp add: relay_given_def)
  qed
qed

lemma triple_stopLocal_begin:
  "rt.triple e {} (stopLocal_begin a) (\<lambda>go. if go then {Releasing a} else {})"
  unfolding stopLocal_begin_def
proof (rule rt.triple_atomic)
  fix m x m' assume k: "rt.knows e {} m" "relay_given m = []"
    and s: "(if entry_of m (rt_ID (ac_task (entry_at m a))) \<noteq> Some a \<or> ac_state (entry_at m a) \<noteq> StateRunning then (False, m)
      else (True, change a (\<lambda>x. x \<lparr> ac_state := StatePausing \<rparr>) m)) = (x, m')"
  have g: "relay_glob e m" using k by (simp add: rt.knows_def)
  show "separate is_shared ((if x then {Releasing a} else {}) # relay_given m') \<and>
    rt.update e {} m ((if x then {Releasing a} else {}) \<union> \<Union>(set (relay_given m'))) m'"
  proof (cases x)
    case False
    then show ?thesis using s k by (auto simp: relay_given_def intro: update_same split: if_splits)
  next
    case True
    then have a: "entry_of m (rt_ID (ac_task (entry_at m a))) = Some a" "ac_state (entry_at m a) = StateRunning"
      "m' = change a (\<lambda>x. x \<lparr> ac_state := StatePausing \<rparr>) m" using s by (auto split: if_splits)
    show ?thesis using update_to_pausing [OF k(1) entry_ofD(1) [OF g a(1)] a(2) entry_ofD(2) [OF g a(1) a(2)]] True k(2) a(3)
      by (simp add: relay_given_def)
  qed
qed

text \<open>The steps of \<open>release\<close>, by the holder of the entry.\<close>

lemma triple_relay_stop: "rt.triple e {Releasing a} (relay_stop e a) (\<lambda>_. {Releasing a})"
  unfolding relay_stop_def
  by (rule rt.triple_atomic)
    (auto simp: relay_given_def rt.knows_def live_def split: option.splits intro!: update_quiet)

lemma triple_call_cancel:
  assumes "t = Releasing a \<or> t = Relaying a"
  shows "rt.triple e {t} (call_cancel a) (\<lambda>_. {t})"
  unfolding call_cancel_def
proof (rule rt.triple_atomic)
  fix m x m' assume k: "rt.knows e {t} m" "relay_given m = []"
    and s: "(case ac_cancel (entry_at m a) of None \<Rightarrow> ((), panic m)
      | Some c \<Rightarrow> ((), m \<lparr> tm_cancelled := c # tm_cancelled m \<rparr>)) = (x, m')"
  show "separate is_shared ({t} # relay_given m') \<and> rt.update e {t} m ({t} \<union> \<Union>(set (relay_given m'))) m'"
  proof (cases "ac_cancel (entry_at m a)")
    case None
    then have m': "m' = panic m" and p: "\<not> patient e" using s k assms by (auto simp: rt.knows_def live_def)
    have "relay_owns e u m' = relay_owns e u m" for u by (cases u) (simp_all add: m' panic_def)
    then show ?thesis using k p by (auto simp: rt.update_def rt.knows_def relay_given_def m' panic_def relay_glob_def relay_evolves_def)
  next
    case (Some c)
    then show ?thesis using s k by (auto simp: relay_given_def intro!: update_quiet)
  qed
qed

lemma triple_wait_done: "rt.triple e {Releasing a} (wait_done e a err) (\<lambda>_. {Releasing a, Drained a})"
  unfolding wait_done_def
proof (rule rt.triple_await)
  fix m x m' assume k: "rt.knows e {Releasing a} m" "relay_given m = []"
    and s: "(let m' = m \<lparr> tm_calls := Suc (tm_calls m) \<rparr> in
      if te_expired e (tm_calls m) then Some (err @ [Context_error ''context done''], m')
      else case ac_done (entry_at m a) of None \<Rightarrow> None
        | Some c \<Rightarrow> if c \<in> set (tm_finished m) then Some (err, m') else None) = Some (x, m')"
  have m': "m' = m \<lparr> tm_calls := Suc (tm_calls m) \<rparr>" and d: "relay_owns e (Drained a) m"
    using s k by (auto simp: patient_def rt.knows_def live_def Let_def split: if_splits)
  have o: "relay_owns e u m' = relay_owns e u m" for u by (cases u) (simp_all add: m')
  show "separate is_shared ({Releasing a, Drained a} # relay_given m') \<and>
    rt.update e {Releasing a} m ({Releasing a, Drained a} \<union> \<Union>(set (relay_given m'))) m'"
    using k d unfolding rt.update_def rt.knows_def o
    by (auto simp: relay_given_def m' relay_glob_def relay_evolves_def)
qed

lemma triple_record_paused: "rt.triple e {Releasing a, Drained a} (record_paused a) (\<lambda>_. {})"
  unfolding record_paused_def
proof (rule rt.triple_atomic)
  let ?f = "\<lambda>x. x \<lparr> ac_state := StatePaused, ac_relay := None, ac_cancel := None, ac_done := None \<rparr>"
  fix m x m' assume k: "rt.knows e {Releasing a, Drained a} m" "relay_given m = []"
    and s: "((), if entry_of m (rt_ID (ac_task (entry_at m a))) = Some a then change a ?f m else m) = (x, m')"
  show "separate is_shared ({} # relay_given m') \<and> rt.update e {Releasing a, Drained a} m ({} \<union> \<Union>(set (relay_given m'))) m'"
  proof (cases "m' = m")
    case True
    then show ?thesis using k by (auto simp: relay_given_def intro: update_same)
  next
    case False
    then have m': "m' = change a ?f m" using s by (auto split: if_splits)
    have a: "a < length (tm_heap m)" "ac_state (entry_at m a) = StatePausing" "patient e \<Longrightarrow> a \<in> set (tm_finished m)"
      "relay_glob e m" using k by (auto simp: rt.knows_def)
    have "relay_glob e m'" unfolding m' by (rule glob_change) (use a in auto)
    moreover have "relay_evolves m m'" unfolding m' by (rule evolves_change) (simp_all add: a)
    moreover have "relay_owns e u m'" if "relay_owns e u m" "u \<noteq> Releasing a" for u
      unfolding m' by (rule owns_change) (use that a(3) in auto)
    ultimately show ?thesis using k(2) unfolding rt.update_def rt.knows_def
      by (auto simp: relay_given_def m' is_shared_def)
  qed
qed

lemma triple_release: "rt.triple e {Releasing a} (release e a) (\<lambda>_. {})"
  unfolding release_def
  by (intro rt.triple_andThen [OF triple_relay_stop] rt.triple_andThen [OF triple_call_cancel]
      rt.triple_andThen [OF triple_wait_done] rt.triple_andThen [OF triple_record_paused]) auto

section \<open>The goroutine of an entry\<close>

lemma distinct_delete: "distinct (map fst xs) \<Longrightarrow> distinct (map fst (AList.delete k xs))"
  by (rule distinct_delete)

lemma triple_forget:
  assumes "\<And>m. f m = m \<or> (\<exists>k. f m = m \<lparr> tm_entries := AList.delete k (tm_entries m) \<rparr>)"
  shows "rt.triple e T (atomic (\<lambda>m. ((), f m))) (\<lambda>_. T)"
proof (rule rt.triple_atomic)
  fix m x m' assume k: "rt.knows e T m" "relay_given m = []" and s: "((), f m) = (x, m')"
  have g: "relay_glob e m" using k by (simp add: rt.knows_def)
  have "rt.update e T m T m'"
  proof (cases "m' = m")
    case False
    then obtain i where i: "m' = m \<lparr> tm_entries := AList.delete i (tm_entries m) \<rparr>" using s assms [of m] by auto
    show ?thesis
    proof (rule update_outside [OF k(1)])
      show "distinct (map fst (tm_entries m'))" using glob_entries(1) [OF g] by (simp add: i distinct_delete)
      show "set (tm_entries m') \<subseteq> set (tm_entries m)" by (auto simp: i AList.delete_eq)
    qed (simp_all add: i)
  qed (use update_same [OF k(1)] in simp)
  moreover have "relay_given m' = []" using s k(2) assms [of m] by auto
  ultimately show "separate is_shared (T # relay_given m') \<and> rt.update e T m (T \<union> \<Union>(set (relay_given m'))) m'"
    by (simp add: relay_given_def)
qed

lemma triple_forget_if:
  "rt.triple e T (atomic (\<lambda>m. ((), if P m then m \<lparr> tm_entries := AList.delete k (tm_entries m) \<rparr> else m))) (\<lambda>_. T)"
  by (rule triple_forget) auto

lemma triple_run_forget: "rt.triple e T (run_forget a) (\<lambda>_. T)"
  unfolding run_forget_def by (rule triple_forget) auto

lemma triple_forget_task [intro]: "rt.triple e T (forget_task taskID) (\<lambda>_. T)"
  unfolding forget_task_def by (rule triple_forget) auto

lemma triple_close_done:
  assumes "d \<in> {None, Some a}" "patient e \<Longrightarrow> d = Some a"
  shows "rt.triple e {Relaying a} (close_done d) (\<lambda>_. {})"
  unfolding close_done_def
proof (rule rt.triple_atomic)
  fix m x m' assume k: "rt.knows e {Relaying a} m" "relay_given m = []"
    and s: "(case d of None \<Rightarrow> ((), panic m) | Some c \<Rightarrow> ((), m \<lparr> tm_finished := c # tm_finished m \<rparr>)) = (x, m')"
  have h: "tm_heap m' = tm_heap m" "tm_entries m' = tm_entries m" "tm_events m' = tm_events m" "tm_started m' = tm_started m"
    "set (tm_finished m) \<subseteq> set (tm_finished m')" "set (tm_finished m') \<subseteq> insert a (set (tm_finished m))"
    "patient e \<Longrightarrow> tm_panicked m' = tm_panicked m"
    using s assms by (auto simp: panic_def split: option.splits)
  have "relay_owns e u m'" if "relay_owns e u m" "u \<noteq> Relaying a" for u using that h by (cases u) auto
  then show "separate is_shared ({} # relay_given m') \<and> rt.update e {Relaying a} m ({} \<union> \<Union>(set (relay_given m'))) m'"
    using k h unfolding rt.update_def rt.knows_def by (auto simp: relay_given_def relay_glob_def relay_evolves_def is_shared_def)
qed

lemma triple_run: "rt.triple e {Relaying a} (run a) (\<lambda>_. {})"
  unfolding run_def run_begin_def
proof (rule rt.triple_step)
  fix m x m' assume k: "rt.knows e {Relaying a} m" "relay_given m = []"
    and s: "(case ac_relay (entry_at m a) of None \<Rightarrow> ((ac_done (entry_at m a), 0), panic m)
      | Some relay \<Rightarrow> ((ac_done (entry_at m a), relay), m \<lparr> tm_events := tm_events m @ [RunRelay relay] \<rparr>)) = (x, m')"
  have d: "fst x \<in> {None, Some a}" "patient e \<Longrightarrow> fst x = Some a"
    using s k by (auto simp: rt.knows_def relay_glob_def live_def split: option.splits)
  have h: "tm_heap m' = tm_heap m" "tm_entries m' = tm_entries m" "\<exists>es. tm_events m' = tm_events m @ es" "tm_started m' = tm_started m"
    "tm_finished m' = tm_finished m" "patient e \<Longrightarrow> tm_panicked m' = tm_panicked m"
    using s k by (auto simp: rt.knows_def live_def panic_def split: option.splits)
  have o: "relay_owns e u m' = relay_owns e u m" for u using h(1,5) by (cases u) auto
  have "rt.triple e {Relaying a} (case x of (d, relay) \<Rightarrow>
      andThen (ask (\<lambda>_ _. RunReturned relay) (\<lambda>_ _. ())) (\<lambda>_. andThen (call_cancel a) (\<lambda>_.
      andThen (run_forget a) (\<lambda>_. close_done d)))) (\<lambda>_. {})"
    by (cases x) (use d in \<open>auto intro!: rt.triple_andThen [OF triple_ask] rt.triple_andThen [OF triple_call_cancel]
      rt.triple_andThen [OF triple_run_forget] triple_close_done\<close>)
  moreover have "rt.update e {Relaying a} m {Relaying a} m'"
    using k h unfolding rt.update_def rt.knows_def o by (auto simp: relay_glob_def relay_evolves_def)
  ultimately show "\<exists>T'. separate is_shared (T' # relay_given m') \<and> rt.update e {Relaying a} m (T' \<union> \<Union>(set (relay_given m'))) m' \<and>
      rt.triple e T' (case x of (d, relay) \<Rightarrow> andThen (ask (\<lambda>_ _. RunReturned relay) (\<lambda>_ _. ())) (\<lambda>_.
        andThen (call_cancel a) (\<lambda>_. andThen (run_forget a) (\<lambda>_. close_done d)))) (\<lambda>_. {})"
    using k(2) h(4) by (intro exI [of _ "{Relaying a}"]) (simp add: relay_given_def)
qed

interpretation relay_pool: thread_pool "relay_glob e" "relay_owns e" relay_evolves relay_given is_shared relay_threads collect tm_panicked for e
proof (unfold_locales, goal_cases)
  case (1 m)
  show ?case by (simp add: relay_given_def relay_threads_def)
next
  case (2 i m)
  then show ?case by (auto simp: relay_given_def relay_threads_def intro!: rt.triple_andThen [OF triple_run])
next
  case (3 m)
  then show ?case by (auto simp: relay_glob_def collect_def)
next
  case (4 t m)
  then show ?case by (cases t) (simp_all add: collect_def)
next
  case (5 m)
  show ?case by (simp add: relay_given_def collect_def)
next
  case (6 m m')
  then show ?case by (auto simp: relay_evolves_def collect_def)
qed

section \<open>The operations\<close>

lemma set_AList_update: "set (AList.update k v xs) \<subseteq> insert (k, v) (set xs)"
  by (induction xs) auto

lemma glob_append:
  assumes g: "relay_glob e m" and y: "ac_done y \<in> {None, Some (length (tm_heap m))}"
    "ac_state y \<in> {StateRunning, StatePausing, StatePaused}" "ac_state y = StateRunning \<Longrightarrow> live (length (tm_heap m)) y"
    and m': "tm_heap m' = tm_heap m @ [y]" "tm_entries m' = AList.update (rt_ID (ac_task y)) (length (tm_heap m)) (tm_entries m)"
    "tm_finished m' = tm_finished m" "tm_panicked m' = tm_panicked m"
  shows "relay_glob e m'"
  unfolding relay_glob_def
proof (intro conjI)
  let ?a = "length (tm_heap m)"
  show "patient e \<longrightarrow> \<not> tm_panicked m'" using g by (simp add: relay_glob_def m')
  show "distinct (map fst (tm_entries m'))" using glob_entries(1) [OF g] by (simp add: m' distinct_update)
  show "\<forall>(taskID, a)\<in>set (tm_entries m'). a < length (tm_heap m') \<and> rt_ID (ac_task (entry_at m' a)) = taskID"
  proof (rule ballI)
    fix p assume "p \<in> set (tm_entries m')"
    then have "p \<in> set (tm_entries m) \<or> p = (rt_ID (ac_task y), ?a)"
      using set_AList_update [of "rt_ID (ac_task y)" ?a "tm_entries m"] by (auto simp: m')
    then show "case p of (taskID, a) \<Rightarrow> a < length (tm_heap m') \<and> rt_ID (ac_task (entry_at m' a)) = taskID"
      using glob_entries(2) [OF g] by (auto simp: m' nth_append)
  qed
  show "\<forall>c\<in>set (tm_finished m'). c < length (tm_heap m')" using g by (auto simp: relay_glob_def m')
  show "\<forall>a<length (tm_heap m'). ac_done (entry_at m' a) \<in> {None, Some a} \<and>
      ac_state (entry_at m' a) \<in> {StateRunning, StatePausing, StatePaused} \<and>
      (ac_state (entry_at m' a) = StateRunning \<longrightarrow> live a (entry_at m' a))"
    using g y by (auto simp: relay_glob_def m' nth_append less_Suc_eq)
qed

lemma update_enter:
  assumes "rt.knows e {} m" "tm_started m = []" "enter profile profileID session task relay m = (document, m')"
  shows "relay_given m' = [{Relaying (length (tm_heap m))}]" "rt.update e {} m {Relaying (length (tm_heap m))} m'"
proof -
  let ?a = "length (tm_heap m)"
  define x where "x = \<lparr> ac_profileID = profileID, ac_profile = profile, ac_session = session, ac_task = task,
    ac_relay = Some relay, ac_cancel = Some ?a, ac_done = Some ?a, ac_state = StateRunning \<rparr>"
  have m': "m' = m \<lparr> tm_entries := AList.update (rt_ID task) ?a (tm_entries m), tm_heap := tm_heap m @ [x],
      tm_started := tm_started m @ [?a] \<rparr>" using assms(3) by (simp add: enter_def x_def Let_def)
  show "relay_given m' = [{Relaying ?a}]" using assms(2) by (simp add: relay_given_def m')
  have g: "relay_glob e m" using assms(1) by (simp add: rt.knows_def)
  have l: "live ?a x" "ac_state x = StateRunning" "ac_done x = Some ?a" "ac_task x = task" by (simp_all add: x_def live_def)
  have "relay_glob e m'" by (rule glob_append [OF g, of x]) (use l in \<open>auto simp: m'\<close>)
  moreover have "relay_owns e u m' \<and> u \<noteq> Relaying ?a" if "relay_owns e u m" for u
    using that by (cases u) (auto simp: m' nth_append)
  moreover have "relay_owns e (Relaying ?a) m'" using g l by (auto simp: m' relay_glob_def)
  moreover have "relay_evolves m m'" by (auto simp: relay_evolves_def m' nth_append)
  ultimately show "rt.update e {} m {Relaying ?a} m'" by (auto simp: rt.update_def rt.knows_def)
qed

lemma triple_Adopt: "rt.triple e {} (Adopt e' profile session task relay) (\<lambda>_. {})"
  unfolding Adopt_def
proof (rule rt.triple_atomic)
  fix m x m' assume k: "rt.knows e {} m" "relay_given m = []"
    and s: "(if entry_of m (rt_ID task) \<noteq> None then ((None, [errorf e' ''Task is already active locally'']), m)
      else let (document, m') = enter profile (pf_ID profile) session task relay m in ((Some document, []), m')) = (x, m')"
  show "separate is_shared ({} # relay_given m') \<and> rt.update e {} m ({} \<union> \<Union>(set (relay_given m'))) m'"
  proof (cases "entry_of m (rt_ID task)")
    case None
    then obtain document where "enter profile (pf_ID profile) session task relay m = (document, m')"
      using s by (auto split: prod.splits)
    from update_enter [OF k(1) _ this] show ?thesis using k(2) by simp
  next
    case (Some a)
    then show ?thesis using s k by (auto simp: relay_given_def intro: update_same)
  qed
qed

lemma triple_enter_local: "rt.triple e {} (enter_local a task relay) (\<lambda>_. {})"
  unfolding enter_local_def
proof (rule rt.triple_atomic)
  fix m x m' assume k: "rt.knows e {} m" "relay_given m = []"
    and s: "(let x = entry_at m a; (document, m') = enter (ac_profile x) (ac_profileID x) (ac_session x) task relay m in
      ((Some document, []), m')) = (x, m')"
  obtain document where "enter (ac_profile (entry_at m a)) (ac_profileID (entry_at m a)) (ac_session (entry_at m a)) task relay m = (document, m')"
    using s by (auto simp: Let_def split: prod.splits)
  from update_enter [OF k(1) _ this] k(2)
  show "separate is_shared ({} # relay_given m') \<and> rt.update e {} m ({} \<union> \<Union>(set (relay_given m'))) m'" by simp
qed

lemma triple_track: "rt.triple e {} (track profile session task) (\<lambda>_. {})"
  unfolding track_def
proof (rule rt.triple_atomic)
  fix m x m' assume k: "rt.knows e {} m" "relay_given m = []"
    and s: "(length (tm_heap m), m \<lparr> tm_entries := AList.update (rt_ID task) (length (tm_heap m)) (tm_entries m),
         tm_heap := tm_heap m @ [\<lparr> ac_profileID = pf_ID profile, ac_profile = profile, ac_session = session, ac_task = task,
           ac_relay = None, ac_cancel = None, ac_done = None, ac_state = StatePaused \<rparr>] \<rparr>) = (x, m')"
  let ?a = "length (tm_heap m)"
  obtain y where y: "m' = m \<lparr> tm_entries := AList.update (rt_ID task) ?a (tm_entries m), tm_heap := tm_heap m @ [y] \<rparr>"
    "ac_state y = StatePaused" "ac_done y = None" "ac_task y = task" using s by auto
  have g: "relay_glob e m" using k by (simp add: rt.knows_def)
  have "relay_glob e m'" by (rule glob_append [OF g, of y]) (use y in auto)
  moreover have "relay_owns e u m'" if "relay_owns e u m" for u using that by (cases u) (auto simp: y nth_append)
  moreover have "relay_evolves m m'" by (auto simp: relay_evolves_def y nth_append)
  ultimately show "separate is_shared ({} # relay_given m') \<and> rt.update e {} m ({} \<union> \<Union>(set (relay_given m'))) m'"
    using k(2) by (auto simp: rt.update_def rt.knows_def relay_given_def y)
qed

lemma triple_dropStaleSessions: "rt.triple e {} (dropStaleSessions profileID sessionID) (\<lambda>_. {})"
  unfolding dropStaleSessions_def Let_def
  by (rule rt.triple_atomic)
    (auto simp: relay_given_def rt.knows_def relay_glob_def intro!: update_outside distinct_map_filter)

lemma triple_reconcile_begin: "rt.triple e {} (reconcile_begin profile session task) (\<lambda>_. {})"
  unfolding reconcile_begin_def
proof (rule rt.triple_atomic)
  let ?f = "\<lambda>x. x \<lparr> ac_profile := profile, ac_session := session, ac_task := (ac_task x) \<lparr> rt_Running := rt_Running task \<rparr> \<rparr>"
  fix m x m' assume k: "rt.knows e {} m" "relay_given m = []"
    and s: "(case entry_of m (rt_ID task) of None \<Rightarrow> (None, m)
      | Some a \<Rightarrow> (Some (a, ac_state (entry_at m a)), change a ?f m)) = (x, m')"
  show "separate is_shared ({} # relay_given m') \<and> rt.update e {} m ({} \<union> \<Union>(set (relay_given m'))) m'"
  proof (cases "entry_of m (rt_ID task)")
    case None
    then show ?thesis using s k by (auto simp: relay_given_def intro: update_same)
  next
    case (Some a)
    have m': "m' = change a ?f m" using s Some by simp
    have g: "relay_glob e m" using k by (simp add: rt.knows_def)
    note a = entry_ofD [OF g Some]
    have d: "ac_done (entry_at m a) \<in> {None, Some a}" using g a(1) by (auto simp: relay_glob_def)
    have l: "live b (?f y) = live b y" for b y by (simp add: live_def)
    have "relay_glob e m'" unfolding m' by (rule glob_change) (use g a d in \<open>simp_all add: l\<close>)
    moreover have "relay_evolves m m'" unfolding m' by (rule evolves_change) simp_all
    moreover have "relay_owns e u m'" if "relay_owns e u m" for u using that by (cases u) (auto simp: m' l)
    ultimately show ?thesis using k(2) by (auto simp: rt.update_def rt.knows_def relay_given_def m')
  qed
qed

lemma triple_gateway_pause [intro]: "rt.triple e T (gateway_pause e a) (\<lambda>_. T)"
  unfolding gateway_pause_def by (rule triple_ask)

lemma triple_find_entry [intro]: "rt.triple e T (find_entry taskID) (\<lambda>_. T)"
  unfolding find_entry_def by (rule triple_look)

text \<open>The rule for one more step, by what the step is.\<close>

lemmas triple_then =
  rt.triple_andThen [OF triple_ask] rt.triple_andThen [OF triple_look] rt.triple_andThen [OF triple_gateway_pause]
  rt.triple_andThen [OF triple_find_entry] rt.triple_andThen [OF triple_forget_task]
  rt.triple_andThen [OF triple_locks(1)] rt.triple_andThen [OF triple_locks(2)] rt.triple_andThen [OF triple_locks(3)]
  rt.triple_andThen [OF triple_locks(4)] rt.triple_andThen [OF triple_locks(5)]

lemma triple_Pause: "rt.triple e {} (PauseTask e has_ctx profileID taskID) (\<lambda>_. {})"
  unfolding PauseTask_def
  by (auto intro!: rt.triple_andThen [OF triple_pause_begin] rt.triple_andThen [OF triple_release] triple_then split: option.splits)

lemma triple_stopLocal: "rt.triple e {} (stopLocal e a) (\<lambda>_. {})"
  unfolding stopLocal_def
  by (auto intro!: rt.triple_andThen [OF triple_stopLocal_begin] rt.triple_andThen [OF triple_release] split: if_splits)

lemma triple_startLocal_fail: "rt.triple e {} (startLocal_fail e a why err) (\<lambda>_. {})"
  unfolding startLocal_fail_def by (auto intro!: triple_then)

lemma triple_startLocal: "rt.triple e {} (startLocal e a current why) (\<lambda>_. {})"
  unfolding startLocal_def
  by (auto intro!: triple_then triple_startLocal_fail triple_enter_local split: option.splits)

lemma triple_Resume: "rt.triple e {} (ResumeTask e has_ctx profileID taskID) (\<lambda>_. {})"
  unfolding ResumeTask_def resume_begin_def
  by (auto intro!: triple_then triple_startLocal split: option.splits)

lemma triple_Delete: "rt.triple e {} (DeleteTask e has_ctx profileID taskID) (\<lambda>_. {})"
  unfolding DeleteTask_def
  by (auto intro!: triple_then rt.triple_andThen [OF triple_Pause] triple_forget_task split: option.splits)

lemma triple_Stop: "rt.triple e {} (StopTask e has_ctx profileID taskID) (\<lambda>_. {})"
  unfolding StopTask_def by (auto intro!: rt.triple_andThen [OF triple_Pause] triple_then)

lemma triple_if_running: "rt.triple e {} p (\<lambda>_. {}) \<Longrightarrow> rt.triple e {} (if_running taskID p) (\<lambda>_. {})"
  unfolding if_running_def by (auto intro!: triple_then split: option.splits)

lemma triple_ReleaseProfile_begin:
  "rt.triple e {} (atomic (\<lambda>m. (f m, m \<lparr> tm_calls := Suc (tm_calls m) \<rparr>))) (\<lambda>_. {})"
  "rt.triple e {} (atomic (\<lambda>m. ((), m \<lparr> tm_closed := True \<rparr>))) (\<lambda>_. {})"
  by (rule rt.triple_atomic, auto simp: relay_given_def intro!: update_quiet)+

lemma triple_profiles:
  "rt.triple e {} (StopProfile e has_ctx profileID) (\<lambda>_. {})" "rt.triple e {} (PauseProfile e has_ctx profileID) (\<lambda>_. {})"
  "rt.triple e {} (ReleaseProfile e has_ctx profileID) (\<lambda>_. {})" "rt.triple e {} (ShutdownTasks e has_ctx) (\<lambda>_. {})"
  unfolding StopProfile_def PauseProfile_def ReleaseProfile_def ShutdownTasks_def
  by (auto intro!: triple_then rt.triple_andThen [OF rt.triple_forEach] rt.triple_andThen [OF triple_ReleaseProfile_begin(1)]
    rt.triple_andThen [OF triple_ReleaseProfile_begin(2)] triple_if_running triple_Stop triple_Pause triple_stopLocal)

lemma triple_reconcile: "rt.triple e {} (reconcile e profile session task) (\<lambda>_. {})"
  unfolding reconcile_def
  by (auto intro!: rt.triple_andThen [OF triple_reconcile_begin] rt.triple_andThen [OF triple_startLocal] triple_stopLocal
    rt.triple_andThen [OF triple_track] rt.triple_andThen [OF triple_forget_if] split: option.splits)

lemma triple_reconcileAll: "rt.triple e {} (reconcileAll e profile session tasks) (\<lambda>_. {})"
  by (induction tasks) (auto intro!: rt.triple_andThen [OF triple_reconcile])

lemma triple_Restore: "rt.triple e {} (Restore e profile session) (\<lambda>_. {})"
  unfolding Restore_def
  by (auto intro!: triple_then rt.triple_andThen [OF triple_dropStaleSessions] triple_reconcileAll)

lemma triple_Hold: "rt.triple e {} Hold (\<lambda>_. {})"
  unfolding Hold_def by (auto intro!: triple_then)

lemma triple_held: "rt.triple e {} p (\<lambda>_. {}) \<Longrightarrow> rt.triple e {} (held p err) (\<lambda>_. {})"
  unfolding held_def
  by (intro rt.triple_andThen [OF triple_Hold]) (auto intro!: triple_then elim: rt.triple_andThen)

lemma triple_discard: "rt.triple e {} (discard c profile session taskID cause) (\<lambda>_. {})"
  unfolding discard_def by (auto intro!: triple_then)

lemma triple_adopt_relay: "rt.triple e {} (adopt_relay c kind profile session task relay) (\<lambda>_. {})"
  unfolding adopt_relay_def close_stream_def
  by (auto intro!: rt.triple_andThen [OF triple_Adopt] triple_then triple_discard)

lemma triple_open_relay:
  "(\<And>relay. rt.triple e {} (k relay) (\<lambda>_. {})) \<Longrightarrow> rt.triple e {} (open_relay c kind profile session task k) (\<lambda>_. {})"
  unfolding open_relay_def close_stream_def by (auto intro!: triple_then triple_discard)

lemma triple_taskStart: "rt.triple e {} (taskStart c kind has_ctx profile session request key) (\<lambda>_. {})"
  unfolding taskStart_def create_task_def Let_def
  by (auto intro!: triple_then triple_discard triple_open_relay triple_adopt_relay split: sum.splits)

lemma triple_PreviewStart: "rt.triple e {} (PreviewStart c has_ctx profile session request key) (\<lambda>_. {})"
  unfolding PreviewStart_def create_task_def publish_preview_def close_stream_def Let_def
  by (rule triple_held) (auto intro!: triple_then triple_discard triple_open_relay triple_adopt_relay split: sum.splits)

lemma triple_client_ops: "p \<in> client_ops e \<Longrightarrow> rt.triple e {} p (\<lambda>_. {})"
  by (erule client_ops.cases)
    (auto simp: Track_def ListTasks_def intro!: triple_then rt.triple_andThen [OF triple_Adopt] rt.triple_andThen [OF triple_Pause]
      rt.triple_andThen [OF triple_Resume] rt.triple_andThen [OF triple_Delete] rt.triple_andThen [OF triple_Stop]
      rt.triple_andThen [OF triple_profiles(1)] rt.triple_andThen [OF triple_profiles(2)] rt.triple_andThen [OF triple_profiles(3)]
      rt.triple_andThen [OF triple_profiles(4)] rt.triple_andThen [OF triple_track] rt.triple_andThen [OF triple_Restore]
      rt.triple_andThen [OF triple_held] rt.triple_andThen [OF triple_PreviewStart] triple_taskStart
      simp: ExchangeStart_def MirrorStart_def)

lemma relay_pool_invariant: "task_reaches e s \<Longrightarrow> relay_pool.pool_ok e s"
  by (rule relay_pool.pool_invariant) (auto simp: triple_client_ops relay_glob_def empty_manager_def)

section \<open>The lifecycle of an entry and the absence of panics\<close>

text \<open>C16. whatever operations clients call and however they and the relays' goroutines interleave, an entry of the
  task relay manager only ever moves from running to pausing to paused, one stage at a time, keeps its profile, and no step
  takes back a recorded call.\<close>
theorem relay_entry_moves_forward:
  assumes "task_reaches e s" "task_schedule i s = Some s'" "a < length (tm_heap (snd s))"
  shows "stage_step (ac_state (entry_at (snd s) a)) (ac_state (entry_at (snd s') a)) \<and>
    ac_profileID (entry_at (snd s') a) = ac_profileID (entry_at (snd s) a) \<and>
    (\<exists>es. tm_events (snd s') = tm_events (snd s) @ es)"
  using relay_pool.pool_step(2) [OF relay_pool_invariant [OF assms(1)] assms(2)] assms(3) by (auto simp: relay_evolves_def)

text \<open>C15. as long as no wait for a relay's goroutine is cut short by its context, no interleaving of operations and
  goroutines makes the manager use a relay, a cancel function or a channel that is nil: the process does not panic.\<close>
theorem relay_manager_never_panics:
  assumes "patient e" "task_reaches e s"
  shows "\<not> tm_panicked (snd s)"
  using relay_pool.pool_glob [OF relay_pool_invariant [OF assms(2)]] assms(1) by (simp add: relay_glob_def)

section \<open>A pause that is cut short\<close>

definition adopt_then_pause :: "task_env \<Rightarrow> Profile \<Rightarrow> RemoteSession \<Rightarrow> RelayTask \<Rightarrow> nat \<Rightarrow> task_outcome relay_prog list" where
  "adopt_then_pause e profile session task relay =
     [returning Document (Adopt e profile session task relay), returning Result (PauseTask e True (pf_ID profile) (rt_ID task))]"

lemmas run_simps = schedule_def relay_threads_def collect_def atomic_def await_def ask_def

text \<open>C17. a pause whose context ends while it waits for the relay's goroutine leaves the goroutine running without its
  cancel function: when the relay ends, the goroutine calls nil and the process panics. The pause itself has then
  returned, without an error if the Gateway was told and the stream was already closed.\<close>
theorem pause_cut_short_panics:
  assumes "te_expired e 2"
  shows "\<exists>ps m. task_run [0, 2, 1, 1, 1, 1, 1, 1, 2, 2] (adopt_then_pause e profile session task relay, empty_manager) = Some (ps, m) \<and>
    tm_panicked m \<and>
    ps ! 1 = Return (Result (te_pause e 0 @ (if te_pause e 0 = [] \<and> ClosedStream (te_stop e 1) then []
      else te_stop e 1 @ [Context_error ''context done''])))"
  using assms
  by (simp add: adopt_then_pause_def run_simps Adopt_def enter_def snapshot_def PauseTask_def pause_begin_def gateway_pause_def release_def relay_stop_def
      call_cancel_def wait_done_def record_paused_def run_def run_begin_def empty_manager_def change_def panic_def Let_def ClosedStream_def numeral_2_eq_2)

section \<open>A pause that completes\<close>

text \<open>What is left of an entry's goroutine while its relay carries traffic.\<close>

definition carrying :: "nat \<Rightarrow> nat \<Rightarrow> task_outcome relay_prog" where
  "carrying a relay = returning (\<lambda>_. Finished) (andThen (ask (\<lambda>_ _. RunReturned relay) (\<lambda>_ _. ())) (\<lambda>_.
     andThen (call_cancel a) (\<lambda>_. andThen (run_forget a) (\<lambda>_. close_done (Some a)))))"


section \<open>Operations that overlap\<close>

text \<open>An environment in which every call succeeds, and no \<^verbatim>\<open>Confirm\<close> hook.\<close>

definition all_succeed :: "task_env \<Rightarrow> bool" where
  "all_succeed e \<longleftrightarrow> patient e \<and> te_confirm e = None \<and>
     (\<forall>n. te_pause e n = [] \<and> (\<forall>session. snd (te_resume e n session) = []) \<and> te_delete e n = [] \<and> te_open e n = [] \<and> te_ready e n = [] \<and> te_stop e n = [])"


text \<open>A task that is deleted while its resume is under way comes back: both calls succeed, the Gateway has deleted the
  task, and the manager holds it as running with a relay that carries traffic.\<close>
theorem deleted_task_comes_back:
  assumes "all_succeed e"
  shows "\<exists>ps m d. task_run ([0, 0] @ [1, 1] @ [2, 2, 2, 2] @ [1, 1, 1, 1])
      ([returning (\<lambda>_. Finished) (Track profile session task), returning Document (ResumeTask e True (pf_ID profile) (rt_ID task)),
        returning Result (DeleteTask e True (pf_ID profile) (rt_ID task))], empty_manager) = Some (ps, m) \<and>
    ps ! 1 = Return (Document (Some d, [])) \<and> ps ! 2 = Return (Result []) \<and>
    tm_events m = [GatewayResume profile session (rt_ID task), GatewayDelete profile session (rt_ID task),
      OpenRelay profile (task \<lparr> rt_Running := True \<rparr>) 2, ReadReady 2] \<and>
    entry_of m (rt_ID task) = Some 1 \<and> ac_state (entry_at m 1) = StateRunning \<and> length ps = 4"
  using assms
  by (simp add: all_succeed_def patient_def run_simps Track_def track_def ResumeTask_def resume_begin_def startLocal_def enter_local_def
      enter_def snapshot_def DeleteTask_def find_entry_def forget_task_def run_def run_begin_def empty_manager_def relay_threads_def
      Let_def case_prod_unfold numeral_eq_Suc)

section \<open>Restoring\<close>

definition writes_remote :: "traffic_event \<Rightarrow> bool" where
  "writes_remote ev \<longleftrightarrow> (\<exists>p s i. ev = GatewayPause p s i \<or> ev = GatewayResume p s i \<or> ev = GatewayDelete p s i)"

definition reads_remote_only :: "manager \<Rightarrow> manager \<Rightarrow> bool" where
  "reads_remote_only m m' \<longleftrightarrow> (\<exists>es. tm_events m' = tm_events m @ es \<and> \<not> list_ex writes_remote es)"

lemma reads_quietI: "tm_events m' = tm_events m \<Longrightarrow> reads_remote_only m m'"
  by (simp add: reads_remote_only_def)

lemma obeys_ask: "(\<And>n m. \<not> writes_remote (event n m)) \<Longrightarrow> obeys reads_remote_only (ask event answer)"
  unfolding ask_def by (rule obeys_atomic) (simp add: reads_remote_only_def)

lemma obeys_release: "obeys reads_remote_only (release e a)"
  unfolding release_def relay_stop_def call_cancel_def wait_done_def record_paused_def
  by (intro obeys_andThen obeys_atomic obeys_await)
    (auto simp: reads_remote_only_def writes_remote_def panic_def Let_def split: option.splits if_splits)

lemma obeys_stopLocal: "obeys reads_remote_only (stopLocal e a)"
  unfolding stopLocal_def stopLocal_begin_def
  by (auto intro!: obeys_andThen obeys_atomic obeys_release reads_quietI)

lemma obeys_startLocal: "obeys reads_remote_only (startLocal e a current Restored)"
  unfolding startLocal_def startLocal_fail_def enter_local_def
  by (auto intro!: obeys_andThen obeys_atomic obeys_ask reads_quietI simp: writes_remote_def enter_def Let_def split: option.splits)

lemma obeys_reconcile: "obeys reads_remote_only (reconcile e profile session task)"
  unfolding reconcile_def reconcile_begin_def track_def
  by (auto intro!: obeys_andThen obeys_atomic obeys_startLocal obeys_stopLocal reads_quietI split: option.splits)

lemma obeys_reconcileAll: "obeys reads_remote_only (reconcileAll e profile session tasks)"
  by (induction tasks) (auto intro!: obeys_andThen obeys_reconcile)

text \<open>Whatever else happens at the same time, no step of a restore pauses, resumes or deletes a task at the Gateway.\<close>
theorem restore_never_writes_remote: "obeys reads_remote_only (Restore e profile session)"
  unfolding Restore_def dropStaleSessions_def
  by (auto intro!: obeys_andThen obeys_atomic obeys_ask obeys_reconcileAll reads_quietI simp: writes_remote_def Let_def)

text \<open>What the Gateway lists of a task against what the manager holds of it.\<close>

definition settled :: "Profile \<Rightarrow> RemoteSession \<Rightarrow> RelayTask \<Rightarrow> manager \<Rightarrow> bool" where
  "settled profile session task m \<longleftrightarrow> (case entry_of m (rt_ID task) of None \<Rightarrow> False | Some a \<Rightarrow>
     ac_profile (entry_at m a) = profile \<and> ac_session (entry_at m a) = session \<and>
     (if rt_Running task then ac_state (entry_at m a) \<noteq> StatePaused else ac_state (entry_at m a) \<noteq> StateRunning))"

lemma startLocal_alone:
  assumes "all_succeed e"
  shows "\<exists>d m' x. alone (startLocal e a current Restored) m = Some ((Some d, []), m') \<and>
    tm_heap m' = tm_heap m @ [x] \<and> tm_entries m' = AList.update (rt_ID (ac_task x)) (length (tm_heap m)) (tm_entries m) \<and>
    tm_finished m' = tm_finished m \<and> tm_panicked m' = tm_panicked m \<and>
    ac_profile x = ac_profile (entry_at m a) \<and> ac_session x = ac_session (entry_at m a) \<and>
    rt_ID (ac_task x) = rt_ID (ac_task (entry_at m a)) \<and> ac_state x = StateRunning \<and> live (length (tm_heap m)) x"
  using assms by (simp add: all_succeed_def startLocal_def enter_local_def enter_def ask_def Let_def live_def)

text \<open>What one round of a restore leaves of the tasks other than its own.\<close>

definition others_kept :: "string \<Rightarrow> manager \<Rightarrow> manager \<Rightarrow> bool" where
  "others_kept taskID m m' \<longleftrightarrow> (\<forall>other. other \<noteq> taskID \<longrightarrow> entry_of m' other = entry_of m other \<and>
     (\<forall>a. entry_of m other = Some a \<longrightarrow> entry_at m' a = entry_at m a))"

lemma entry_of_inj: "relay_glob e m \<Longrightarrow> entry_of m i = Some a \<Longrightarrow> entry_of m j = Some a \<Longrightarrow> i = j"
  using entry_ofD(4) by blast

lemma entry_of_update [simp]:
  "map_of (AList.update k v xs) i = (if i = k then Some v else map_of xs i)"
  by (simp add: update_conv')

lemma settle_start:
  assumes e: "all_succeed e" and g: "relay_glob e m" and a: "entry_of m (rt_ID task) = Some a"
    and t: "rt_Running task" "ac_profile (entry_at m a) = profile" "ac_session (entry_at m a) = session"
  shows "\<exists>d m'. alone (startLocal e a task Restored) m = Some ((Some d, []), m') \<and> relay_glob e m' \<and>
    settled profile session task m' \<and> others_kept (rt_ID task) m m'"
proof -
  obtain d m' x where r: "alone (startLocal e a task Restored) m = Some ((Some d, []), m')"
    and m': "tm_heap m' = tm_heap m @ [x]" "tm_entries m' = AList.update (rt_ID (ac_task x)) (length (tm_heap m)) (tm_entries m)"
      "tm_finished m' = tm_finished m" "tm_panicked m' = tm_panicked m"
    and x: "ac_profile x = profile" "ac_session x = session" "rt_ID (ac_task x) = rt_ID task"
      "ac_state x = StateRunning" "live (length (tm_heap m)) x"
    using startLocal_alone [OF e, of a task m] entry_ofD(4) [OF g a] t by auto
  have "relay_glob e m'" by (rule glob_append [OF g, of x]) (use m' x in \<open>auto simp: live_def\<close>)
  moreover have "settled profile session task m'" using m' x t by (simp add: settled_def)
  moreover have "others_kept (rt_ID task) m m'"
    using m' x entry_ofD(1) [OF g] by (auto simp: others_kept_def nth_append)
  ultimately show ?thesis using r by blast
qed

lemma reconcile_alone:
  assumes e: "all_succeed e" and g: "relay_glob e m"
    and n: "\<And>a. entry_of m (rt_ID task) = Some a \<Longrightarrow> \<not> rt_Running task \<Longrightarrow> ac_state (entry_at m a) \<noteq> StateRunning"
  shows "\<exists>m'. alone (reconcile e profile session task) m = Some ([], m') \<and> relay_glob e m' \<and>
    settled profile session task m' \<and> others_kept (rt_ID task) m m'"
proof (cases "entry_of m (rt_ID task)")
  case (Some a)
  let ?f = "\<lambda>x. x \<lparr> ac_profile := profile, ac_session := session, ac_task := (ac_task x) \<lparr> rt_Running := rt_Running task \<rparr> \<rparr>"
  let ?m = "change a ?f m"
  note a = entry_ofD [OF g Some]
  have g1: "relay_glob e ?m"
    by (rule glob_change) (use g a in \<open>auto simp: live_def relay_glob_def\<close>)
  have k: "others_kept (rt_ID task) m ?m"
    using entry_of_inj [OF g Some] by (auto simp: others_kept_def)
  show ?thesis
  proof (cases "rt_Running task \<and> ac_state (entry_at m a) = StatePaused")
    case True
    obtain d m' where m': "alone (startLocal e a task Restored) ?m = Some ((Some d, []), m')" "relay_glob e m'"
        "settled profile session task m'" "others_kept (rt_ID task) ?m m'"
      using settle_start [OF e g1, of task a profile session] Some a True by auto
    then show ?thesis using Some True k by (auto simp: reconcile_def reconcile_begin_def others_kept_def)
  next
    case False
    then have "alone (reconcile e profile session task) m = Some ([], ?m)"
      using Some n [OF Some] by (auto simp: reconcile_def reconcile_begin_def)
    moreover have "settled profile session task ?m" using Some False n [OF Some] a by (auto simp: settled_def)
    ultimately show ?thesis using g1 k by blast
  qed
next
  case None
  obtain m1 y where m1: "alone (track profile session task) m = Some (length (tm_heap m), m1)"
    "tm_heap m1 = tm_heap m @ [y]" "tm_entries m1 = AList.update (rt_ID task) (length (tm_heap m)) (tm_entries m)"
    "tm_finished m1 = tm_finished m" "tm_panicked m1 = tm_panicked m"
    and y: "ac_profile y = profile" "ac_session y = session" "ac_task y = task" "ac_state y = StatePaused" "ac_done y = None"
    by (simp add: track_def)
  have g1: "relay_glob e m1" by (rule glob_append [OF g, of y]) (use m1 y in auto)
  have k: "others_kept (rt_ID task) m m1" using m1 entry_ofD(1) [OF g] by (auto simp: others_kept_def nth_append)
  show ?thesis
  proof (cases "rt_Running task")
    case True
    obtain d m' where m': "alone (startLocal e (length (tm_heap m)) task Restored) m1 = Some ((Some d, []), m')" "relay_glob e m'"
        "settled profile session task m'" "others_kept (rt_ID task) m1 m'"
      using settle_start [OF e g1, of task "length (tm_heap m)" profile session] m1 y True by auto
    then show ?thesis using None True k m1 by (auto simp: reconcile_def reconcile_begin_def others_kept_def)
  next
    case False
    then show ?thesis using None m1 y g1 k by (auto simp: reconcile_def reconcile_begin_def settled_def)
  qed
qed

lemma settled_kept: "others_kept i m m' \<Longrightarrow> rt_ID task \<noteq> i \<Longrightarrow> settled profile session task m' = settled profile session task m"
  by (auto simp: settled_def others_kept_def split: option.splits)

lemma reconcileAll_alone:
  assumes "all_succeed e" "relay_glob e m" "distinct (map rt_ID tasks)"
    "\<And>task a. task \<in> set tasks \<Longrightarrow> entry_of m (rt_ID task) = Some a \<Longrightarrow> \<not> rt_Running task \<Longrightarrow> ac_state (entry_at m a) \<noteq> StateRunning"
  shows "\<exists>m'. alone (reconcileAll e profile session tasks) m = Some ([], m') \<and> (\<forall>task\<in>set tasks. settled profile session task m') \<and>
    (\<forall>other. other \<notin> rt_ID ` set tasks \<longrightarrow> entry_of m' other = entry_of m other \<and>
       (\<forall>a. entry_of m other = Some a \<longrightarrow> entry_at m' a = entry_at m a))"
  using assms(2-)
proof (induction tasks arbitrary: m)
  case (Cons task tasks)
  obtain m1 where m1: "alone (reconcile e profile session task) m = Some ([], m1)" "relay_glob e m1"
    "settled profile session task m1" "others_kept (rt_ID task) m m1"
    using reconcile_alone [OF assms(1) Cons.prems(1)] Cons.prems(3) by (metis list.set_intros(1))
  have "ac_state (entry_at m1 a) \<noteq> StateRunning"
    if "t \<in> set tasks" "entry_of m1 (rt_ID t) = Some a" "\<not> rt_Running t" for t a
  proof -
    have "rt_ID t \<noteq> rt_ID task" using that(1) Cons.prems(2) by (auto simp: image_iff)
    then show ?thesis using m1(4) Cons.prems(3) [of t a] that by (auto simp: others_kept_def)
  qed
  then obtain m' where m': "alone (reconcileAll e profile session tasks) m1 = Some ([], m')"
    "\<forall>t\<in>set tasks. settled profile session t m'"
    "\<And>other. other \<notin> rt_ID ` set tasks \<Longrightarrow> entry_of m' other = entry_of m1 other \<and>
       (\<forall>a. entry_of m1 other = Some a \<longrightarrow> entry_at m' a = entry_at m1 a)"
    using Cons.IH [OF m1(2)] Cons.prems(2) by auto
  have new: "rt_ID task \<notin> rt_ID ` set tasks" using Cons.prems(2) by simp
  then have "settled profile session task m'" using m1(3) m'(3) [OF new] by (auto simp: settled_def split: option.splits)
  moreover have "entry_of m' other = entry_of m other \<and> (\<forall>a. entry_of m other = Some a \<longrightarrow> entry_at m' a = entry_at m a)"
    if "other \<notin> rt_ID ` set (task # tasks)" for other
    using m'(3) [of other] m1(4) that by (auto simp: others_kept_def)
  ultimately show ?case using m1(1) m'(1,2) by (intro exI [of _ m']) simp
qed simp


section \<open>Concrete runs\<close>

definition sample_profile :: Profile where "sample_profile = \<lparr> pf_ID = ''dev'', pf_Rest = 0 \<rparr>"
definition sample_session :: RemoteSession where "sample_session = \<lparr> rs_ID = ''s1'', rs_Namespace = ''default'', rs_State = ''active'', rs_Rest = 0 \<rparr>"

definition sample_task :: RelayTask where
  "sample_task = \<lparr> rt_ID = ''t1'', rt_SessionID = ''s1'', rt_Namespace = ''default'', rt_Service = ''api'', rt_ClusterIP = '''',
     rt_Running = True, rt_Targets = [] \<rparr>"

definition sample_task_env :: task_env where
  "sample_task_env = \<lparr> te_name = ''exchange'', te_pause = \<lambda>_. [], te_resume = \<lambda>_ _. (sample_task, []), te_delete = \<lambda>_. [],
     te_list = \<lambda>_ _. ([sample_task], []), te_open = \<lambda>_. [], te_ready = \<lambda>_. [], te_stop = \<lambda>_. [], te_confirm = None,
     te_expired = \<lambda>_. False, te_order = \<lambda>_ xs. xs \<rparr>"

lemma sample_succeeds: "all_succeed sample_task_env" "patient sample_task_env"
  by (simp_all add: all_succeed_def patient_def sample_task_env_def)

abbreviation sample_pool :: "task_outcome relay_prog list" where
  "sample_pool \<equiv> adopt_then_pause sample_task_env sample_profile sample_session sample_task 7"

lemma sample_pool_reached: "task_reaches sample_task_env (sample_pool, empty_manager)"
  by (rule reaches_calls) (auto simp: adopt_then_pause_def intro: client_ops.intros)

lemmas sample_simps = adopt_then_pause_def run_simps Adopt_def enter_def snapshot_def PauseTask_def pause_begin_def gateway_pause_def
  release_def relay_stop_def call_cancel_def wait_done_def record_paused_def run_def run_begin_def run_forget_def close_done_def
  empty_manager_def change_def panic_def Let_def sample_task_env_def sample_profile_def sample_session_def sample_task_def

lemma sample_adopted:
  obtains s where "task_reaches sample_task_env s" "tm_heap (snd s) = [\<lparr> ac_profileID = ''dev'', ac_profile = sample_profile,
      ac_session = sample_session, ac_task = sample_task, ac_relay = Some 7, ac_cancel = Some 0, ac_done = Some 0, ac_state = StateRunning \<rparr>]"
    "tm_entries (snd s) = [(''t1'', 0)]" "tm_calls (snd s) = 0" "tm_started (snd s) = []" "\<not> tm_panicked (snd s)"
    "fst s ! 1 = returning Result (PauseTask sample_task_env True ''dev'' ''t1'')" "length (fst s) = 3"
proof -
  obtain s where s: "task_run [0] (sample_pool, empty_manager) = Some s" "tm_heap (snd s) = [\<lparr> ac_profileID = ''dev'', ac_profile = sample_profile,
      ac_session = sample_session, ac_task = sample_task, ac_relay = Some 7, ac_cancel = Some 0, ac_done = Some 0, ac_state = StateRunning \<rparr>]"
    "tm_entries (snd s) = [(''t1'', 0)]" "tm_calls (snd s) = 0" "tm_started (snd s) = []" "\<not> tm_panicked (snd s)"
    "fst s ! 1 = returning Result (PauseTask sample_task_env True ''dev'' ''t1'')" "length (fst s) = 3"
    by (simp add: adopt_then_pause_def run_simps Adopt_def enter_def snapshot_def empty_manager_def Let_def sample_profile_def sample_task_def)
  from that [OF reaches_run [OF sample_pool_reached s(1)] s(2-)] show thesis .
qed

lemma relay_entry_moves_forward_witness:
  "\<exists>s s'. ac_state (entry_at (snd s) 0) = StateRunning \<and> task_schedule 1 s = Some s' \<and>
     ac_state (entry_at (snd s') 0) = StatePausing \<and> stage_step StateRunning (ac_state (entry_at (snd s') 0))"
proof -
  obtain s where s: "task_reaches sample_task_env s" "tm_heap (snd s) = [\<lparr> ac_profileID = ''dev'', ac_profile = sample_profile,
      ac_session = sample_session, ac_task = sample_task, ac_relay = Some 7, ac_cancel = Some 0, ac_done = Some 0, ac_state = StateRunning \<rparr>]"
    "tm_entries (snd s) = [(''t1'', 0)]" "\<not> tm_panicked (snd s)" "fst s ! 1 = returning Result (PauseTask sample_task_env True ''dev'' ''t1'')"
    "length (fst s) = 3" by (rule sample_adopted)
  then obtain s' where s': "task_schedule 1 s = Some s'" "ac_state (entry_at (snd s') 0) = StatePausing"
    by (cases s) (simp add: run_simps PauseTask_def pause_begin_def change_def)
  have "stage_step StateRunning (ac_state (entry_at (snd s') 0))"
    using relay_entry_moves_forward [OF s(1) s'(1), of 0] s(2) by simp
  then show ?thesis using s(2) s' by (intro exI [of _ s] exI [of _ s']) simp
qed

lemma relay_manager_never_panics_witness:
  "\<exists>s. task_reaches sample_task_env s \<and> ac_state (entry_at (snd s) 0) = StateRunning \<and> \<not> tm_panicked (snd s)"
  using relay_manager_never_panics [OF sample_succeeds(2)] sample_adopted by (metis (no_types, lifting) active.select_convs(8) nth_Cons_0)

lemma pause_cut_short_panics_witness:
  "\<exists>ps m. task_run [0, 2, 1, 1, 1, 1, 1, 1, 2, 2]
       (adopt_then_pause (sample_task_env \<lparr> te_expired := \<lambda>_. True, te_stop := \<lambda>_. [Stream_EOF] \<rparr>) sample_profile sample_session sample_task 7,
        empty_manager) = Some (ps, m) \<and> tm_panicked m \<and> ps ! 1 = Return (Result [])"
  using pause_cut_short_panics [of "sample_task_env \<lparr> te_expired := \<lambda>_. True, te_stop := \<lambda>_. [Stream_EOF] \<rparr>"
      sample_profile sample_session sample_task 7]
  by (simp add: sample_task_env_def ClosedStream_def)



lemma deleted_task_comes_back_witness:
  "\<exists>is pool ps m. task_run is (pool, empty_manager) = Some (ps, m) \<and> length pool = 3 \<and> ps ! 2 = Return (Result []) \<and>
     entry_of m ''t1'' = Some 1 \<and> ac_state (entry_at m 1) = StateRunning"
  using deleted_task_comes_back [OF sample_succeeds(1), of sample_profile sample_session sample_task]
  by (fastforce simp: sample_task_def simp del: run_schedule.simps)


end
