(* ===== verification/TrafficStart.thy ===== *)
theory TrafficStart
  imports TaskRelaySafety "HOL-Library.Multiset"
begin

text \<open>
  Starting an Exchange, a Mirror or a Preview among other operations: a start that fails after the Gateway has created
  the task asks the Gateway to delete it. And what the managers make of the targets: which ports of the Gateway's
  answer match the targets, and which tasks of the Gateway's list a restore gets to see.
\<close>

section \<open>Targets\<close>

lemma NormalizeTargets_loop_result:
  assumes "NormalizeTargets_loop ul parseIP op seen input = Inr targets"
  shows "length targets = length input" "distinct (map (\<lambda>t. TargetKey ul (tg_Protocol t) (tg_ServicePort t)) targets)"
    "set (map (\<lambda>t. TargetKey ul (tg_Protocol t) (tg_ServicePort t)) targets) \<inter> seen = {}"
    "list_all (\<lambda>t. 1 \<le> tg_ServicePort t \<and> tg_ServicePort t \<le> 65535 \<and> tg_LocalPort t \<noteq> 0 \<and>
       tg_Protocol t \<in> {''tcp'', ''udp''} \<and> ValidLocalHost parseIP (tg_LocalHost t)) targets"
proof -
  have "length targets = length input \<and> distinct (map (\<lambda>t. TargetKey ul (tg_Protocol t) (tg_ServicePort t)) targets) \<and>
    set (map (\<lambda>t. TargetKey ul (tg_Protocol t) (tg_ServicePort t)) targets) \<inter> seen = {} \<and>
    list_all (\<lambda>t. 1 \<le> tg_ServicePort t \<and> tg_ServicePort t \<le> 65535 \<and> tg_LocalPort t \<noteq> 0 \<and>
       tg_Protocol t \<in> {''tcp'', ''udp''} \<and> ValidLocalHost parseIP (tg_LocalHost t)) targets"
    using assms
  proof (induction ul parseIP op seen input arbitrary: targets rule: NormalizeTargets_loop.induct)
    case (2 ul parseIP op seen x xs)
    let ?t = "normalizeTarget ul x"
    obtain ts where ts: "NormalizeTargets_loop ul parseIP op (insert (TargetKey ul (tg_Protocol ?t) (tg_ServicePort ?t)) seen) xs = Inr ts"
      "targets = ?t # ts" "TargetKey ul (tg_Protocol ?t) (tg_ServicePort ?t) \<notin> seen"
      "1 \<le> tg_ServicePort ?t" "tg_ServicePort ?t \<le> 65535" "tg_LocalPort ?t \<noteq> 0" "tg_Protocol ?t \<in> {''tcp'', ''udp''}"
      "ValidLocalHost parseIP (tg_LocalHost ?t)"
      using 2(2) by (auto simp: Let_def bindE_eq_Inr split: if_splits)
    from 2(1) [OF refl refl refl refl _ _ ts(1)] ts show ?case by auto
  qed simp
  then show "length targets = length input" "distinct (map (\<lambda>t. TargetKey ul (tg_Protocol t) (tg_ServicePort t)) targets)"
    "set (map (\<lambda>t. TargetKey ul (tg_Protocol t) (tg_ServicePort t)) targets) \<inter> seen = {}"
    "list_all (\<lambda>t. 1 \<le> tg_ServicePort t \<and> tg_ServicePort t \<le> 65535 \<and> tg_LocalPort t \<noteq> 0 \<and>
       tg_Protocol t \<in> {''tcp'', ''udp''} \<and> ValidLocalHost parseIP (tg_LocalHost t)) targets" by auto
qed

lemma match_ports_iff: "match_ports c kind want ports = [] \<longleftrightarrow> distinct (map (portKey c) ports) \<and> set (map (portKey c) ports) \<subseteq> want"
  by (induction c kind want ports rule: match_ports.induct) auto

lemma keys_match:
  assumes "distinct (map (targetKey c) targets)" "length (rm_Ports task) = length targets"
  shows "match_ports c kind (set (map (targetKey c) targets)) (rm_Ports task) = [] \<longleftrightarrow>
    mset (map (portKey c) (rm_Ports task)) = mset (map (targetKey c) targets)"
proof
  let ?p = "map (portKey c) (rm_Ports task)" and ?t = "map (targetKey c) targets"
  assume "match_ports c kind (set ?t) (rm_Ports task) = []"
  then have p: "distinct ?p" "set ?p \<subseteq> set ?t" by (auto simp: match_ports_iff)
  have "card (set ?p) = card (set ?t)" using p(1) assms by (simp only: distinct_card length_map)
  then have "set ?p = set ?t" using p(2) by (simp only: card_subset_eq List.finite_set)
  then show "mset ?p = mset ?t" using p(1) assms(1) by (simp only: set_eq_iff_mset_eq_distinct)
next
  assume m: "mset (map (portKey c) (rm_Ports task)) = mset (map (targetKey c) targets)"
  then have "distinct (map (portKey c) (rm_Ports task))" "set (map (portKey c) (rm_Ports task)) = set (map (targetKey c) targets)"
    using assms(1) mset_eq_imp_distinct_iff mset_eq_setD by metis+
  then show "match_ports c kind (set (map (targetKey c) targets)) (rm_Ports task) = []" by (simp add: match_ports_iff)
qed

lemma match_iff:
  assumes "NormalizeTargets (cl_lower c) (cl_parseIP c) input op = Inr targets"
  shows "matchTaskTargets c kind task targets = [] \<longleftrightarrow> mset (map (portKey c) (rm_Ports task)) = mset (map (targetKey c) targets)"
    "matchTask c task name targets = [] \<longleftrightarrow>
       rm_Name task = name \<and> mset (map (portKey c) (rm_Ports task)) = mset (map (targetKey c) targets)"
proof -
  have d: "distinct (map (targetKey c) targets)"
    using assms NormalizeTargets_loop_result(2) by (fastforce simp: NormalizeTargets_def split: if_splits)
  have l: "mset (map (portKey c) (rm_Ports task)) = mset (map (targetKey c) targets) \<Longrightarrow> length (rm_Ports task) = length targets"
    using mset_eq_length by fastforce
  show "matchTaskTargets c kind task targets = [] \<longleftrightarrow> mset (map (portKey c) (rm_Ports task)) = mset (map (targetKey c) targets)"
    using keys_match [OF d, of task kind] l by (auto simp: matchTaskTargets_def)
  show "matchTask c task name targets = [] \<longleftrightarrow>
       rm_Name task = name \<and> mset (map (portKey c) (rm_Ports task)) = mset (map (targetKey c) targets)"
    using keys_match [OF d, of task Preview] l by (auto simp: matchTask_def)
qed

definition serves :: "client_env \<Rightarrow> RemoteTask \<Rightarrow> RelayTask \<Rightarrow> bool" where
  "serves c r t \<longleftrightarrow> rt_ID t = rm_ID r \<and> reconcilable (rm_State r) \<and> rt_Running t = (rm_State r = Running) \<and>
    rt_Targets t \<noteq> [] \<and> length (rt_Targets t) \<le> 64 \<and> distinct (map (targetKey c) (rt_Targets t)) \<and>
    mset (map (portKey c) (rm_Ports r)) = mset (map (targetKey c) (rt_Targets t)) \<and>
    list_all (\<lambda>x. 1 \<le> tg_ServicePort x \<and> tg_ServicePort x \<le> 65535 \<and> tg_LocalPort x \<noteq> 0 \<and>
       tg_Protocol x \<in> {''tcp'', ''udp''} \<and> ValidLocalHost (cl_parseIP c) (tg_LocalHost x)) (rt_Targets t)"

lemma list_tasks_serve:
  assumes "t \<in> set (list_tasks c kind session tasks)"
  shows "\<exists>r\<in>set tasks. serves c r t"
  using assms
proof (induction tasks)
  case Nil
  then show ?case by simp
next
  case (Cons task tasks)
  show ?case
  proof (cases "t \<in> set (list_tasks c kind session tasks)")
    case True
    then show ?thesis using Cons.IH by simp
  next
    case False
    obtain targets where r: "reconcilable (rm_State task)"
      and n: "NormalizeTargets (cl_lower c) (cl_parseIP c) (rm_LocalTargets task) (operation kind) = Inr targets"
      and m: "(if kind = Preview then matchTask c task (rm_Name task) targets else matchTaskTargets c kind task targets) = []"
      and t: "t = (relayTask task session) \<lparr> rt_Targets := targets \<rparr>"
      using Cons.prems False by (auto split: if_splits sum.splits)
    have l: "NormalizeTargets_loop (cl_lower c) (cl_parseIP c) (operation kind) {} (rm_LocalTargets task) = Inr targets"
      "rm_LocalTargets task \<noteq> []" "length (rm_LocalTargets task) \<le> 64"
      using n by (auto simp: NormalizeTargets_def split: if_splits)
    have "mset (map (portKey c) (rm_Ports task)) = mset (map (targetKey c) targets)"
      using m match_iff(1) [OF n, of kind task] match_iff(2) [OF n, of task "rm_Name task"] by (auto split: if_splits)
    then have "serves c task t"
      using NormalizeTargets_loop_result(1,2,4) [OF l(1)] l(2,3) r by (auto simp: serves_def t relayTask_def)
    then show ?thesis by auto
  qed
qed

text \<open>A task that a restore gets to see from the Gateway's list is a stopped, pending or running one, and carries between
  one and 64 targets that a relay can serve: valid hosts, ports in range, no two for the same port of the Service; and
  they are, up to their order, the ports that the Gateway reports for the task.\<close>
theorem listed_tasks_can_be_served:
  assumes "t \<in> set (fst (gateway_list c kind n session))"
  shows "\<exists>r\<in>set (fst (cl_list c n)). rt_ID t = rm_ID r \<and> reconcilable (rm_State r) \<and> rt_Running t = (rm_State r = Running) \<and>
    rt_Targets t \<noteq> [] \<and> length (rt_Targets t) \<le> 64 \<and> distinct (map (targetKey c) (rt_Targets t)) \<and>
    mset (map (portKey c) (rm_Ports r)) = mset (map (targetKey c) (rt_Targets t)) \<and>
    list_all (\<lambda>x. 1 \<le> tg_ServicePort x \<and> tg_ServicePort x \<le> 65535 \<and> tg_LocalPort x \<noteq> 0 \<and>
       tg_Protocol x \<in> {''tcp'', ''udp''} \<and> ValidLocalHost (cl_parseIP c) (tg_LocalHost x)) (rt_Targets t)"
proof -
  have "t \<in> set (list_tasks c kind session (fst (cl_list c n)))"
    using assms by (auto simp: gateway_list_def Let_def split: if_splits prod.splits)
  then show ?thesis using list_tasks_serve unfolding serves_def by blast
qed


section \<open>Threads that create nothing under one key\<close>

text \<open>How other threads may change the memory while a start with the idempotency key \<open>key\<close> is under way.\<close>

definition creates_nothing :: "string \<Rightarrow> manager \<Rightarrow> manager \<Rightarrow> bool" where
  "creates_nothing key m m' \<longleftrightarrow> (\<exists>es. tm_events m' = tm_events m @ es \<and> (\<forall>answer. CreateRemote key answer \<notin> set es))"

lemma creates_quiet: "tm_events m' = tm_events m \<Longrightarrow> creates_nothing key m m'"
  by (simp add: creates_nothing_def)

lemma creates_ask: "(\<And>n m answer. event n m \<noteq> CreateRemote key answer) \<Longrightarrow> obeys (creates_nothing key) (ask event answer)"
  unfolding ask_def by (rule obeys_atomic) (auto simp: creates_nothing_def dest: sym)

lemmas creates_intros = obeys_andThen obeys_atomic obeys_await obeys_forEach creates_ask creates_quiet

lemma creates_release: "obeys (creates_nothing key) (release e a)"
  unfolding release_def relay_stop_def call_cancel_def wait_done_def record_paused_def
  by (intro obeys_andThen obeys_atomic obeys_await)
    (auto simp: creates_nothing_def panic_def Let_def split: option.splits if_splits)

lemma creates_PauseTask: "obeys (creates_nothing key) (PauseTask e has_ctx profileID taskID)"
  unfolding PauseTask_def pause_begin_def gateway_pause_def
  by (auto intro!: creates_intros creates_release split: option.splits)

lemma creates_stopLocal: "obeys (creates_nothing key) (stopLocal e a)"
  unfolding stopLocal_def stopLocal_begin_def by (auto intro!: creates_intros creates_release)

lemma creates_startLocal: "obeys (creates_nothing key) (startLocal e a current why)"
  unfolding startLocal_def startLocal_fail_def enter_local_def gateway_pause_def
  by (auto intro!: creates_intros simp: enter_def Let_def split: option.splits)

lemma creates_ResumeTask: "obeys (creates_nothing key) (ResumeTask e has_ctx profileID taskID)"
  unfolding ResumeTask_def resume_begin_def by (auto intro!: creates_intros creates_startLocal split: option.splits)

lemma creates_DeleteTask: "obeys (creates_nothing key) (DeleteTask e has_ctx profileID taskID)"
  unfolding DeleteTask_def find_entry_def forget_task_def
  by (auto intro!: creates_intros creates_PauseTask split: option.splits)

lemma creates_StopTask: "obeys (creates_nothing key) (StopTask e has_ctx profileID taskID)"
  unfolding StopTask_def forget_task_def by (auto intro!: creates_intros creates_PauseTask)

lemma creates_profiles:
  "obeys (creates_nothing key) (StopProfile e has_ctx profileID)" "obeys (creates_nothing key) (PauseProfile e has_ctx profileID)"
  "obeys (creates_nothing key) (ReleaseProfile e has_ctx profileID)" "obeys (creates_nothing key) (ShutdownTasks e has_ctx)"
  unfolding StopProfile_def PauseProfile_def ReleaseProfile_def ShutdownTasks_def lifecycleLock_def lifecycleUnlock_def
    if_running_def find_entry_def
  by (auto intro!: creates_intros creates_PauseTask creates_StopTask creates_stopLocal split: option.splits if_splits)

lemma creates_Restore: "obeys (creates_nothing key) (Restore e profile session)"
proof -
  have r: "obeys (creates_nothing key) (reconcile e profile session task)" for task
    unfolding reconcile_def reconcile_begin_def track_def
    by (auto intro!: creates_intros creates_startLocal creates_stopLocal split: option.splits)
  have "obeys (creates_nothing key) (reconcileAll e profile session tasks)" for tasks
    by (induction tasks) (auto intro!: obeys_andThen r)
  then show ?thesis unfolding Restore_def dropStaleSessions_def by (auto intro!: creates_intros simp: Let_def)
qed

lemma creates_run: "obeys (creates_nothing key) (run a)"
  unfolding run_def run_begin_def call_cancel_def run_forget_def close_done_def split_def
  by (intro obeys_andThen obeys_atomic creates_ask) (auto simp: creates_nothing_def panic_def split: option.splits)

lemma creates_Adopt: "obeys (creates_nothing key) (Adopt e profile session task relay)"
  unfolding Adopt_def by (auto intro!: creates_intros simp: enter_def Let_def)

lemma creates_Hold: "obeys (creates_nothing key) Hold" "obeys (creates_nothing key) lifecycleRUnlock"
  unfolding Hold_def lifecycleRLock_def lifecycleRUnlock_def by (auto intro!: creates_intros split: if_splits)

lemma creates_discard: "obeys (creates_nothing key) (discard c profile session taskID cause)"
  unfolding discard_def by (auto intro!: creates_intros)

lemma creates_adopt_relay: "obeys (creates_nothing key) (adopt_relay c kind profile session task relay)"
  unfolding adopt_relay_def close_stream_def by (auto intro!: creates_intros creates_Adopt creates_discard)

lemma creates_open_relay:
  "(\<And>relay. obeys (creates_nothing key) (k relay)) \<Longrightarrow> obeys (creates_nothing key) (open_relay c kind profile session task k)"
  unfolding open_relay_def close_stream_def by (auto intro!: creates_intros creates_discard)

lemma creates_held: "obeys (creates_nothing key) p \<Longrightarrow> obeys (creates_nothing key) (held p err)"
  unfolding held_def by (auto intro!: creates_intros creates_Hold)

lemma creates_start:
  assumes "key' \<noteq> key"
  shows "obeys (creates_nothing key) (ExchangeStart c has_ctx profile session request key')"
    "obeys (creates_nothing key) (MirrorStart c has_ctx profile session request key')"
    "obeys (creates_nothing key) (PreviewStart c has_ctx profile session request key')"
  using assms
  unfolding ExchangeStart_def MirrorStart_def PreviewStart_def taskStart_def create_task_def publish_preview_def close_stream_def Let_def
  by (auto intro!: creates_held creates_intros creates_open_relay creates_adopt_relay creates_discard split: sum.splits)

section \<open>A start and its task\<close>

definition uncreated :: "string \<Rightarrow> manager \<Rightarrow> bool" where
  "uncreated key m \<longleftrightarrow> (\<forall>answer. CreateRemote key answer \<notin> set (tm_events m))"

definition created :: "string \<Rightarrow> string \<Rightarrow> manager \<Rightarrow> bool" where
  "created key taskID m \<longleftrightarrow> CreateRemote key (Some taskID) \<in> set (tm_events m) \<and>
     (\<forall>i. CreateRemote key (Some i) \<in> set (tm_events m) \<longrightarrow> i = taskID)"

definition accounted :: "string \<Rightarrow> Profile \<Rightarrow> RemoteSession \<Rightarrow> Entry option \<times> errors \<Rightarrow> manager \<Rightarrow> bool" where
  "accounted key profile session r m \<longleftrightarrow> (\<forall>taskID. CreateRemote key (Some taskID) \<in> set (tm_events m) \<longrightarrow>
     (case fst r of None \<Rightarrow> GatewayDelete profile session taskID \<in> set (tm_events m)
      | Some info \<Rightarrow> snd r = [] \<and> rt_ID (en_Task info) = taskID))"

lemma stable_key [simp]:
  "stable (creates_nothing key) (uncreated key)" "stable (creates_nothing key) (created key taskID)"
  "stable (creates_nothing key) (accounted key profile session r)"
proof -
  have k: "CreateRemote key answer \<in> set (tm_events m') \<longleftrightarrow> CreateRemote key answer \<in> set (tm_events m)"
    "ev \<in> set (tm_events m) \<Longrightarrow> ev \<in> set (tm_events m')" if "creates_nothing key m m'" for m m' answer ev
    using that by (auto simp: creates_nothing_def)
  show "stable (creates_nothing key) (uncreated key)" unfolding stable_def uncreated_def by (simp add: k(1))
  show "stable (creates_nothing key) (created key taskID)" unfolding stable_def created_def by (simp add: k(1))
  show "stable (creates_nothing key) (accounted key profile session r)"
    unfolding stable_def accounted_def by (cases "fst r") (simp_all add: k)
qed

lemma creates_stable_const [simp]: "stable R (\<lambda>m. b)" "stable R P \<Longrightarrow> stable R Q \<Longrightarrow> stable R (\<lambda>m. P m \<and> Q m)"
  by (auto simp: stable_def)


text \<open>A program that creates nothing leaves the start's assertions true.\<close>

lemma assures_obeys: "obeys R p \<Longrightarrow> stable R P \<Longrightarrow> assures R P p (\<lambda>_. P)"
proof (induction p rule: obeys.induct)
  case (obeys_Return x)
  then show ?case by (auto intro: assures_Return)
next
  case (obeys_Step g)
  show ?case
  proof (rule assures_Step)
    fix m p m' assume "P m" "g m = Some (p, m')"
    then show "\<exists>P'. stable R P' \<and> P' m' \<and> assures R P' p (\<lambda>_. P)"
      using obeys_Step by (meson stable_def)
  qed
qed

lemma assures_discard:
  "assures (creates_nothing key) (created key taskID) (discard c profile session taskID cause) (accounted key profile session)"
  unfolding discard_def ask_def
proof (rule assures_andThen)
  show "assures (creates_nothing key) (created key taskID) (atomic (\<lambda>m. (gateway_delete c (tm_calls m),
      m \<lparr> tm_calls := Suc (tm_calls m), tm_events := tm_events m @ [GatewayDelete profile session taskID] \<rparr>)))
      (\<lambda>_. accounted key profile session (None, []))"
    by (rule assures_atomic) (simp, auto simp: created_def accounted_def)
  show "assures (creates_nothing key) (accounted key profile session (None, [])) (Return (None, cause @ err)) (accounted key profile session)" for err
    by (rule assures_Return) (simp add: accounted_def)
qed

lemma assures_adopt_relay:
  assumes "rt_ID task = taskID"
  shows "assures (creates_nothing key) (created key taskID) (adopt_relay c kind profile session task relay) (accounted key profile session)"
proof -
  let ?Q = "\<lambda>r m. created key taskID m \<and> (snd r = [] \<longrightarrow> (\<exists>info. fst r = Some info \<and> rt_ID (en_Task info) = taskID))"
  have a: "assures (creates_nothing key) (created key taskID) (Adopt (gateway_env c kind) profile session task relay) ?Q"
    unfolding Adopt_def
  proof (rule assures_atomic)
    show "stable (creates_nothing key) (?Q x)" for x by (rule creates_stable_const(2) [OF stable_key(2) creates_stable_const(1)])
    fix m x m' assume m: "created key taskID m"
      and s: "(if entry_of m (rt_ID task) \<noteq> None then ((None, [errorf (gateway_env c kind) ''Task is already active locally'']), m)
        else let (document, m') = enter profile (pf_ID profile) session task relay m in ((Some document, []), m')) = (x, m')"
    show "?Q x m'"
    proof (cases "entry_of m (rt_ID task)")
      case None
      then have "tm_events m' = tm_events m" "fst x = Some (snapshot \<lparr> ac_profileID = pf_ID profile, ac_profile = profile,
          ac_session = session, ac_task = task, ac_relay = Some relay, ac_cancel = Some (length (tm_heap m)),
          ac_done = Some (length (tm_heap m)), ac_state = StateRunning \<rparr>)" using s by (auto simp: enter_def Let_def)
      then show ?thesis using m assms by (simp add: created_def snapshot_def)
    next
      case (Some a)
      then show ?thesis using s m by auto
    qed
  qed
  have d: "assures (creates_nothing key) (?Q r) (discard c profile session taskID err) (accounted key profile session)" for r err
    by (rule assures_weaken [OF assures_discard]) simp
  have s: "assures (creates_nothing key) (?Q r) (ask event answer) (\<lambda>_. ?Q r)" if "\<And>n m answer. event n m \<noteq> CreateRemote key answer"
    for r and event :: "nat \<Rightarrow> manager \<Rightarrow> traffic_event" and answer :: "nat \<Rightarrow> manager \<Rightarrow> 'x"
    by (rule assures_obeys [OF creates_ask]) (rule that, rule creates_stable_const(2) [OF stable_key(2) creates_stable_const(1)])
  have r: "assures (creates_nothing key) (?Q (info, [])) (Return (info, [])) (accounted key profile session)" for info
    by (rule assures_Return) (auto simp: accounted_def created_def)
  show ?thesis unfolding adopt_relay_def close_stream_def assms
  proof (rule assures_andThen [OF a], unfold split_def)
    fix x :: "Entry option \<times> errors"
    have g: "assures (creates_nothing key) (?Q x)
        (if snd x = [] then Return (fst x, [])
         else if kind = Preview
         then andThen (ask (\<lambda>_ _. StopRelay relay) (\<lambda>n _. cl_relayStop c n)) (\<lambda>streamErr.
              andThen (ask (\<lambda>_ _. CloseStream relay) (\<lambda>_ _. ())) (\<lambda>_. discard c profile session taskID (snd x @ streamErr)))
         else andThen (ask (\<lambda>_ _. CloseStream relay) (\<lambda>_ _. ())) (\<lambda>_. discard c profile session taskID (snd x)))
        (accounted key profile session)"
    proof (cases "snd x = []")
      case True
      then show ?thesis using r [of "fst x"] by (cases x) simp
    next
      case False
      have "assures (creates_nothing key) (?Q x) (andThen (ask (\<lambda>_ _. StopRelay relay) (\<lambda>n _. cl_relayStop c n)) (\<lambda>streamErr.
              andThen (ask (\<lambda>_ _. CloseStream relay) (\<lambda>_ _. ())) (\<lambda>_. discard c profile session taskID (snd x @ streamErr))))
          (accounted key profile session)"
        by (rule assures_andThen [OF s], simp, rule assures_andThen [OF s], simp, rule d)
      moreover have "assures (creates_nothing key) (?Q x) (andThen (ask (\<lambda>_ _. CloseStream relay) (\<lambda>_ _. ()))
          (\<lambda>_. discard c profile session taskID (snd x))) (accounted key profile session)"
        by (rule assures_andThen [OF s], simp, rule d)
      ultimately show ?thesis using False by (simp only: if_False split: if_split) blast
    qed
    then show "assures (creates_nothing key) (?Q x)
        (if snd x = [] then Return (fst x, [])
         else if kind = Preview
         then andThen (ask (\<lambda>_ _. StopRelay relay) (\<lambda>n _. cl_relayStop c n)) (\<lambda>streamErr.
              andThen (ask (\<lambda>_ _. CloseStream relay) (\<lambda>_ _. ())) (\<lambda>_. discard c profile session taskID (snd x @ streamErr)))
         else andThen (ask (\<lambda>_ _. CloseStream relay) (\<lambda>_ _. ())) (\<lambda>_. discard c profile session taskID (snd x)))
        (accounted key profile session)" .
  qed
qed


lemma assures_kept:
  "(\<And>n m answer. event n m \<noteq> CreateRemote key answer) \<Longrightarrow>
    assures (creates_nothing key) (created key taskID) (ask event answer) (\<lambda>_. created key taskID)"
  by (rule assures_obeys [OF creates_ask]) simp_all

lemma assures_open_relay:
  assumes "rt_ID task = taskID"
    "\<And>relay. assures (creates_nothing key) (created key taskID) (k relay) (accounted key profile session)"
  shows "assures (creates_nothing key) (created key taskID) (open_relay c kind profile session task k) (accounted key profile session)"
  unfolding open_relay_def close_stream_def assms(1)
  by (auto intro!: assures_andThen [OF assures_kept] assures_discard assms(2))

lemma assures_publish:
  assumes "rt_ID relayed = taskID"
  shows "assures (creates_nothing key) (created key taskID) (publish_preview c profile session name targets relayed relay)
    (accounted key profile session)"
proof -
  have "assures (creates_nothing key) (created key taskID)
    (if err \<noteq> [] then andThen (ask (\<lambda>_ _. StopRelay relay) (\<lambda>n _. cl_relayStop c n)) (\<lambda>streamErr.
       andThen (ask (\<lambda>_ _. CloseStream relay) (\<lambda>_ _. ())) (\<lambda>_. discard c profile session taskID (err @ streamErr)))
     else adopt_relay c Preview profile session (relayed \<lparr> rt_ClusterIP := ip \<rparr>) relay) (accounted key profile session)" for err ip
    using assms by (auto intro!: assures_andThen [OF assures_kept] assures_discard assures_adopt_relay)
  then show ?thesis unfolding publish_preview_def close_stream_def assms Let_def
    by (intro assures_andThen [OF assures_kept]) (simp_all split: prod.split)
qed

text \<open>The create call decides whether there is a task, and which.\<close>

lemma assures_create:
  assumes "\<And>task. assures (creates_nothing key) (created key (rm_ID task)) (k task) (accounted key profile session)"
  shows "assures (creates_nothing key) (uncreated key)
    (andThen (create_task c key) (\<lambda>(task, err). if err \<noteq> [] then Return (None, err) else k task)) (accounted key profile session)"
proof -
  let ?Q = "\<lambda>r m. if snd r = [] then created key (rm_ID (fst r)) m else \<forall>i. CreateRemote key (Some i) \<notin> set (tm_events m)"
  have st: "stable (creates_nothing key) (?Q x)" for x :: "RemoteTask \<times> errors"
  proof (cases "snd x = []")
    case False
    then show ?thesis by (auto simp: stable_def creates_nothing_def)
  qed simp
  show ?thesis
  proof (rule assures_andThen [where Q = ?Q])
    show "assures (creates_nothing key) (uncreated key) (create_task c key) ?Q"
      unfolding create_task_def ask_def
      by (rule assures_atomic [OF st]) (auto simp: uncreated_def created_def)
    fix x :: "RemoteTask \<times> errors"
    show "assures (creates_nothing key) (?Q x) (case x of (task, err) \<Rightarrow> if err \<noteq> [] then Return (None, err) else k task)
        (accounted key profile session)"
      by (cases x) (auto simp: accounted_def intro!: assures_Return assms)
  qed
qed

lemma assures_uncreated_Return:
  "assures (creates_nothing key) (uncreated key) (Return r) (accounted key profile session)"
  by (rule assures_Return) (auto simp: uncreated_def accounted_def)

lemma assures_held:
  assumes "assures (creates_nothing key) (uncreated key) p (accounted key profile session)"
  shows "assures (creates_nothing key) (uncreated key) (held p err) (accounted key profile session)"
  unfolding held_def
proof (rule assures_andThen [OF assures_obeys [OF creates_Hold(1)]])
  fix closed
  have "assures (creates_nothing key) (accounted key profile session r) (andThen lifecycleRUnlock (\<lambda>_. Return r))
      (accounted key profile session)" for r
    by (rule assures_andThen [OF assures_obeys [OF creates_Hold(2)]]) (auto intro: assures_Return)
  then show "assures (creates_nothing key) (uncreated key) (if closed then Return (None, [Other_error err])
      else andThen p (\<lambda>r. andThen lifecycleRUnlock (\<lambda>_. Return r))) (accounted key profile session)"
    using assms by (auto intro: assures_uncreated_Return assures_andThen)
qed simp

lemma assures_taskStart:
  "assures (creates_nothing key) (uncreated key) (taskStart c kind has_ctx profile session request key) (accounted key profile session)"
  unfolding taskStart_def Let_def
  by (auto intro!: assures_uncreated_Return assures_create assures_discard assures_open_relay assures_adopt_relay
      simp: relayTask_def split: sum.splits)

inductive is_start :: "client_env \<Rightarrow> Profile \<Rightarrow> RemoteSession \<Rightarrow> string \<Rightarrow> (Entry option \<times> errors) relay_prog \<Rightarrow> bool"
  for c profile session key where
  "is_start c profile session key (ExchangeStart c has_ctx profile session request key)"
| "is_start c profile session key (MirrorStart c has_ctx profile session request key)"
| "is_start c profile session key (PreviewStart c has_ctx profile session request key)"

lemma assures_start:
  assumes "is_start c profile session key p"
  shows "assures (creates_nothing key) (uncreated key) p (accounted key profile session)"
  using assms
proof cases
  case (3 has_ctx request)
  then show ?thesis unfolding PreviewStart_def Let_def
    by (auto intro!: assures_held assures_uncreated_Return assures_create assures_discard assures_open_relay assures_publish
        simp: relayTask_def split: sum.splits)
qed (auto simp: ExchangeStart_def MirrorStart_def intro!: assures_held assures_taskStart)

text \<open>The operations that the theorem below may run beside.\<close>

lemma others_create_nothing:
  assumes "p \<in> client_ops e"
    "\<And>c has_ctx profile session request. p \<noteq> returning Document (ExchangeStart c has_ctx profile session request key)"
    "\<And>c has_ctx profile session request. p \<noteq> returning Document (MirrorStart c has_ctx profile session request key)"
    "\<And>c has_ctx profile session request. p \<noteq> returning Document (PreviewStart c has_ctx profile session request key)"
  shows "obeys (creates_nothing key) p"
  using assms
proof (cases rule: client_ops.cases)
  case (3 c has_ctx profile session request key')
  then have "key' \<noteq> key" using assms(2) by blast
  then show ?thesis unfolding 3 by (intro obeys_andThen creates_start) simp_all
next
  case (4 c has_ctx profile session request key')
  then have "key' \<noteq> key" using assms(3) by blast
  then show ?thesis unfolding 4 by (intro obeys_andThen creates_start) simp_all
next
  case (5 c has_ctx profile session request key')
  then have "key' \<noteq> key" using assms(4) by blast
  then show ?thesis unfolding 5 by (intro obeys_andThen creates_start) simp_all
qed (auto simp: Closed_def ListTasks_def Track_def track_def intro!: obeys_andThen obeys_atomic obeys_await creates_quiet creates_Adopt
      creates_PauseTask creates_ResumeTask creates_DeleteTask creates_StopTask creates_profiles creates_Restore
      split: if_splits)

text \<open>C21. whatever other operations run at the same time, a start that has returned accounts for the task that the Gateway
  created for it: either it succeeded, and what it returns is that task, or it asked the Gateway to delete the task.\<close>
theorem start_accounts_for_its_task:
  assumes "is_start c profile session key p" "task_run turns (ps, m) = Some (ps', m')"
    "i < length ps" "ps ! i = returning Document p" "ps' ! i = Return (Document r)"
    "\<And>j. j < length ps \<Longrightarrow> j \<noteq> i \<Longrightarrow> obeys (creates_nothing key) (ps ! j)" "uncreated key m"
    "CreateRemote key (Some taskID) \<in> set (tm_events m')"
  shows "case fst r of Some info \<Rightarrow> snd r = [] \<and> rt_ID (en_Task info) = taskID
    | None \<Rightarrow> GatewayDelete profile session taskID \<in> set (tm_events m')"
proof -
  let ?Q = "\<lambda>x m. case x of Document r \<Rightarrow> accounted key profile session r m | _ \<Rightarrow> True"
  have a: "assures (creates_nothing key) (uncreated key) (returning Document p) ?Q"
    by (rule assures_andThen [OF assures_start [OF assms(1)]]) (auto intro: assures_Return)
  have st: "stable (creates_nothing key) (?Q x)" for x by (cases x) simp_all
  have "?Q (Document r) m'"
    by (rule assures_run [OF assms(2,3,5) a [folded assms(4)] stable_key(1) assms(7) st assms(6)])
      (auto simp: relay_threads_def collect_def creates_nothing_def intro!: obeys_andThen creates_run)
  then show ?thesis using assms(8) by (auto simp: accounted_def split: option.splits)
qed

definition sample_target :: Target where
  "sample_target = \<lparr> tg_ServicePort = 80, tg_Protocol = ''tcp'', tg_LocalHost = ''127.0.0.1'', tg_LocalPort = 8080 \<rparr>"

definition sample_remote :: RemoteTask where
  "sample_remote = \<lparr> rm_ID = ''t9'', rm_Name = ''api'', rm_ClusterIP = '''', rm_State = Pending,
     rm_Ports = [\<lparr> pt_Name = '''', pt_ServicePort = 80, pt_Protocol = ''tcp'' \<rparr>], rm_LocalTargets = [sample_target] \<rparr>"

text \<open>A client whose stream opener fails.\<close>

definition sample_client :: client_env where
  "sample_client = \<lparr> cl_lower = id, cl_parseIP = \<lambda>_. Some (False, False), cl_canPause = True, cl_canResume = True, cl_canDelete = True,
     cl_canList = True, cl_create = \<lambda>_. (sample_remote, []), cl_get = \<lambda>_. (sample_remote, []), cl_stop = \<lambda>_. [], cl_pause = \<lambda>_. [],
     cl_resume = \<lambda>_. (sample_remote, []), cl_delete = \<lambda>_. [], cl_list = \<lambda>_. ([sample_remote], []),
     cl_stream = \<lambda>_. (False, [Net_closed]), cl_ready = \<lambda>_. [], cl_relayStop = \<lambda>_. [], cl_expired = \<lambda>_. False, cl_order = \<lambda>_ xs. xs \<rparr>"

definition sample_request :: StartRequest where
  "sample_request = \<lparr> rq_ProfileID = ''dev'', rq_Namespace = ''default'', rq_Name = ''api'', rq_Targets = [sample_target] \<rparr>"

lemma sample_trim: "TrimSpace ''tcp'' = ''tcp''" "TrimSpace ''127.0.0.1'' = ''127.0.0.1''" "TrimSpace ''dev'' = ''dev''"
  by (simp_all add: text_eval)

lemma sample_normalized:
  "NormalizeTargets (cl_lower sample_client) (cl_parseIP sample_client) [sample_target] op = Inr [sample_target]"
proof -
  have "ToLower id ''tcp'' = ''tcp''" by (simp add: ToLower_def is_ascii_def lower_char_def)
  then have "normalizeTarget id sample_target = sample_target"
    by (simp add: normalizeTarget_def sample_target_def sample_trim)
  then show ?thesis
    by (simp add: NormalizeTargets_def sample_client_def ValidLocalHost_def Let_def) (simp add: sample_target_def)
qed

lemma sample_targets:
  "taskTargets sample_client kind [sample_target] = Inr ([sample_target], targetPorts [sample_target])"
  by (simp add: taskTargets_def sample_normalized)

lemma listed_tasks_can_be_served_witness:
  "\<exists>t\<in>set (fst (gateway_list sample_client Exchange 0 sample_session)). rt_ID t = ''t9'' \<and> length (rt_Targets t) \<le> 64"
proof -
  have "gateway_list sample_client Exchange 0 sample_session =
      ([(relayTask sample_remote sample_session) \<lparr> rt_Targets := [sample_target] \<rparr>], [])"
    using sample_normalized by (simp add: gateway_list_def sample_remote_def reconcilable_def matchTaskTargets_def sample_client_def sample_target_def)
  then show ?thesis
    using listed_tasks_can_be_served [of "(relayTask sample_remote sample_session) \<lparr> rt_Targets := [sample_target] \<rparr>"
        sample_client Exchange 0 sample_session]
    by (auto simp: relayTask_def sample_remote_def)
qed

lemma start_accounts_for_its_task_witness:
  "\<exists>ps m. task_run [0, 0, 0, 0, 0, 0] ([returning Document (ExchangeStart sample_client True sample_profile sample_session sample_request ''k'')],
       empty_manager) = Some (ps, m) \<and> ps ! 0 = Return (Document (None, [Net_closed])) \<and>
     CreateRemote ''k'' (Some ''t9'') \<in> set (tm_events m) \<and> GatewayDelete sample_profile sample_session ''t9'' \<in> set (tm_events m)"
proof -
  obtain ps m where r: "task_run [0, 0, 0, 0, 0, 0]
      ([returning Document (ExchangeStart sample_client True sample_profile sample_session sample_request ''k'')], empty_manager) = Some (ps, m)"
    "ps ! 0 = Return (Document (None, [Net_closed]))" "CreateRemote ''k'' (Some ''t9'') \<in> set (tm_events m)"
    using sample_targets [of Exchange] sample_trim(3)
    by (simp add: ExchangeStart_def held_def Hold_def lifecycleRLock_def lifecycleRUnlock_def taskStart_def sample_request_def
        sample_profile_def sample_session_def create_task_def run_simps empty_manager_def open_relay_def discard_def
        sample_client_def open_stream_def gateway_delete_def matchTaskTargets_def sample_remote_def targetPorts_def sample_target_def Let_def)
  have "GatewayDelete sample_profile sample_session ''t9'' \<in> set (tm_events m)"
    using start_accounts_for_its_task [OF is_start.intros(1) r(1), of 0 sample_client True sample_profile sample_session sample_request "''k''"
        "(None, [Net_closed])" "''t9''"] r by (simp add: uncreated_def empty_manager_def)
  then show ?thesis using r by blast
qed

end
