(* ===== verification/PortListener.thy ===== *)
theory PortListener
  imports GoText "HOL-Library.Word" "HOL-Library.AList"
begin

text \<open>
  The desktop's port forward listeners (\<^verbatim>\<open>internal/client/portforward/listener/manager.go\<close>): the checks of a request, the
  loopback listener, and the table of the listeners that hold a socket. The sockets are a parameter: what listening on
  an address of 127.0.0.1 answers, an error or the address that was bound.
\<close>

section \<open>Addresses\<close>

fun index_of :: "char \<Rightarrow> string \<Rightarrow> nat option" where
  "index_of c [] = None"
| "index_of c (x # xs) = (if x = c then Some 0 else map_option Suc (index_of c xs))"

definition last_index_of :: "char \<Rightarrow> string \<Rightarrow> nat option" where
  "last_index_of c s = map_option (\<lambda>i. length s - 1 - i) (index_of c (rev s))"

text \<open>\<^verbatim>\<open>net.SplitHostPort\<close> and \<^verbatim>\<open>net.JoinHostPort\<close>.\<close>

definition SplitHostPort :: "string \<Rightarrow> (string \<times> string) option" where
  "SplitHostPort s = (case last_index_of CHR '':'' s of
       None \<Rightarrow> None
     | Some i \<Rightarrow>
         if hd s = CHR ''['' then
           (case index_of CHR '']'' s of
              None \<Rightarrow> None
            | Some k \<Rightarrow>
                if k + 1 \<noteq> i \<or> CHR ''['' \<in> set (drop 1 s) \<or> CHR '']'' \<in> set (drop (k + 1) s) then None
                else Some (take (k - 1) (drop 1 s), drop (i + 1) s))
         else if CHR '':'' \<in> set (take i s) \<or> CHR ''['' \<in> set s \<or> CHR '']'' \<in> set s then None
         else Some (take i s, drop (i + 1) s))"

definition JoinHostPort :: "string \<Rightarrow> string \<Rightarrow> string" where
  "JoinHostPort host port =
     (if CHR '':'' \<in> set host \<or> CHR ''%'' \<in> set host then ''['' @ host @ '']:'' @ port else host @ '':'' @ port)"

text \<open>\<^verbatim>\<open>strconv.ParseUint(text, 10, 16)\<close>.\<close>

definition is_digit :: "char \<Rightarrow> bool" where
  "is_digit c \<longleftrightarrow> 48 \<le> code c \<and> code c \<le> 57"

definition digits_value :: "string \<Rightarrow> nat" where
  "digits_value s = foldl (\<lambda>n c. n * 10 + (code c - 48)) 0 s"

definition ParseUint16 :: "string \<Rightarrow> nat option" where
  "ParseUint16 s = (if s = '''' \<or> \<not> list_all is_digit s \<or> digits_value s > 65535 then None else Some (digits_value s))"

definition FormatPort :: "16 word \<Rightarrow> string" where
  "FormatPort port = FormatUint (unat port)"

section \<open>The listeners\<close>

record ListenRequest =
  lr_Context :: string
  lr_Namespace :: string
  lr_Kind :: string
  lr_Name :: string
  lr_Protocol :: string
  lr_RemotePort :: "16 word"
  lr_LocalPort :: "16 word"

record ListenInfo =
  li_ID :: string
  li_Context :: string
  li_Namespace :: string
  li_Kind :: string
  li_Name :: string
  li_Protocol :: string
  li_RemotePort :: "16 word"
  li_LocalPort :: "16 word"
  li_Address :: string

record listeners =
  ls_nextID :: nat
  ls_active :: "(string \<times> ListenInfo) list"

definition no_listeners :: listeners where
  "no_listeners = \<lparr> ls_nextID = 0, ls_active = [] \<rparr>"

definition localPortFromAddress :: "string \<Rightarrow> string + 16 word" where
  "localPortFromAddress address = (case SplitHostPort address of
       None \<Rightarrow> Inl ''parse forward address''
     | Some (_, portText) \<Rightarrow> (case ParseUint16 portText of
           None \<Rightarrow> Inl ''invalid local port''
         | Some port \<Rightarrow> if port = 0 then Inl ''invalid local port'' else Inr (of_nat port)))"

definition startRouted ::
  "(string \<Rightarrow> string \<Rightarrow> string + string) \<Rightarrow> ListenRequest \<Rightarrow> listeners \<Rightarrow> (string + ListenInfo) \<times> listeners" where
  "startRouted listen request ls =
     (case listen (lr_Protocol request) (JoinHostPort ''127.0.0.1'' (FormatPort (lr_LocalPort request))) of
        Inl err \<Rightarrow> (Inl ((if lr_Protocol request = ''udp'' then ''listen for UDP port-forward: '' else ''listen for port-forward: '') @ err), ls)
      | Inr address \<Rightarrow> (case localPortFromAddress address of
            Inl err \<Rightarrow> (Inl err, ls)
          | Inr localPort \<Rightarrow>
              let n = Suc (ls_nextID ls); forwardID = ''pf-'' @ FormatUint n;
                  info = \<lparr> li_ID = forwardID, li_Context = lr_Context request, li_Namespace = lr_Namespace request,
                    li_Kind = lr_Kind request, li_Name = lr_Name request, li_Protocol = lr_Protocol request,
                    li_RemotePort = lr_RemotePort request, li_LocalPort = localPort, li_Address = address \<rparr> in
              (Inr info, \<lparr> ls_nextID = n, ls_active = AList.update forwardID info (ls_active ls) \<rparr>)))"

definition StartResolved ::
  "(string \<Rightarrow> string) \<Rightarrow> bool \<Rightarrow> (string \<Rightarrow> string \<Rightarrow> string + string) \<Rightarrow> ListenRequest \<Rightarrow> string \<Rightarrow> listeners \<Rightarrow>
     (string + ListenInfo) \<times> listeners" where
  "StartResolved ul has_dialer listen request target ls =
     (if \<not> has_dialer then (Inl ''port Forward traffic dialer is required'', ls)
      else if lr_Context request = '''' then (Inl ''context is required'', ls)
      else if lr_Namespace request = '''' then (Inl ''namespace is required'', ls)
      else if lr_Name request = '''' then (Inl ''target name is required'', ls)
      else if lr_RemotePort request = 0 then (Inl ''remote port is required'', ls)
      else let kind = ToLower ul (TrimSpace (lr_Kind request)); protocol = ToLower ul (TrimSpace (lr_Protocol request)) in
        if kind \<noteq> ''pod'' \<and> kind \<noteq> ''service'' then (Inl ''unsupported kind'', ls)
        else let protocol = (if protocol = '''' then ''tcp'' else protocol) in
          if protocol \<noteq> ''tcp'' \<and> protocol \<noteq> ''udp'' then (Inl ''unsupported protocol'', ls)
          else case SplitHostPort (TrimSpace target) of
            None \<Rightarrow> (Inl ''resolved Port Forward target is invalid'', ls)
          | Some (host, rawPort) \<Rightarrow>
              if host = '''' \<or> rawPort = '''' then (Inl ''resolved Port Forward target is invalid'', ls)
              else startRouted listen (request \<lparr> lr_Kind := kind, lr_Protocol := protocol \<rparr>) ls)"

text \<open>The texts of errors leave out the values they quote. \<open>close\<close> is the answer of closing the listener's socket.\<close>

definition StopListener :: "string option \<Rightarrow> string \<Rightarrow> listeners \<Rightarrow> string option \<times> listeners" where
  "StopListener close forwardID ls =
     (case map_of (ls_active ls) forwardID of
        None \<Rightarrow> (Some (''port-forward '' @ forwardID @ '' not found''), ls)
      | Some _ \<Rightarrow> (close, ls \<lparr> ls_active := AList.delete forwardID (ls_active ls) \<rparr>))"

definition StopAll :: "listeners \<Rightarrow> listeners" where
  "StopAll ls = ls \<lparr> ls_active := [] \<rparr>"

definition ListListeners :: "listeners \<Rightarrow> ListenInfo list" where
  "ListListeners ls = map snd (ls_active ls)"

section \<open>The identifiers\<close>

lemma digits_value_snoc: "digits_value (s @ [c]) = digits_value s * 10 + (code c - 48)"
  by (simp add: digits_value_def)

lemma digits_FormatUint: "digits_value (FormatUint n) = n"
proof (induction n rule: FormatUint.induct)
  case (1 n)
  have c: "code (char_of (48 + k) :: char) = 48 + k" if "k < 10" for k using that by simp
  show ?case
  proof (cases "n < 10")
    case True
    then show ?thesis by (simp add: FormatUint.simps [of n] digits_value_def c)
  next
    case False
    then show ?thesis using 1 c [of "n mod 10"] by (subst FormatUint.simps) (simp add: digits_value_snoc)
  qed
qed

lemma FormatUint_inj [simp]: "FormatUint m = FormatUint n \<longleftrightarrow> m = n"
  using digits_FormatUint by metis

text \<open>The identifiers that listeners have are those of numbers given out, each once.\<close>

definition was_issued :: "nat \<Rightarrow> string \<Rightarrow> bool" where
  "was_issued k forwardID \<longleftrightarrow> (\<exists>n. 0 < n \<and> n \<le> k \<and> forwardID = ''pf-'' @ FormatUint n)"

definition listeners_ok :: "listeners \<Rightarrow> bool" where
  "listeners_ok ls \<longleftrightarrow> distinct (map fst (ls_active ls)) \<and> (\<forall>forwardID\<in>fst ` set (ls_active ls). was_issued (ls_nextID ls) forwardID)"

lemma was_issued_next: "was_issued k x \<Longrightarrow> was_issued (Suc k) x" "was_issued (Suc k) (''pf-'' @ FormatUint (Suc k))"
  "\<not> was_issued k (''pf-'' @ FormatUint (Suc k))" "was_issued k x \<Longrightarrow> x \<noteq> ''''"
  unfolding was_issued_def by (force, blast, simp, force)

lemma listeners_ok_none [simp]: "listeners_ok no_listeners"
  by (simp add: listeners_ok_def no_listeners_def)

lemma StopListener_result:
  assumes "StopListener close forwardID ls = (r, ls')"
  shows "listeners_ok ls \<Longrightarrow> listeners_ok ls'" "fst ` set (ls_active ls') = fst ` set (ls_active ls) - {forwardID}"
proof -
  have k: "fst ` set (AList.delete forwardID xs) = fst ` set xs - {forwardID}" for xs :: "(string \<times> ListenInfo) list"
    by (force simp: AList.delete_eq)
  have "fst ` set (ls_active ls') = fst ` set (ls_active ls) - {forwardID} \<and> (listeners_ok ls \<longrightarrow> listeners_ok ls')"
  proof (cases "map_of (ls_active ls) forwardID")
    case None
    then have "forwardID \<notin> fst ` set (ls_active ls)" by (simp add: map_of_eq_None_iff)
    then show ?thesis using None assms by (simp add: StopListener_def)
  next
    case (Some info)
    then have "ls' = ls \<lparr> ls_active := AList.delete forwardID (ls_active ls) \<rparr>" using assms by (simp add: StopListener_def)
    then show ?thesis using k [of "ls_active ls"] by (auto simp: listeners_ok_def distinct_delete)
  qed
  then show "listeners_ok ls \<Longrightarrow> listeners_ok ls'" "fst ` set (ls_active ls') = fst ` set (ls_active ls) - {forwardID}" by auto
qed

lemma StartResolved_cases:
  assumes "StartResolved ul has_dialer listen request target ls = (r, ls')"
  obtains e where "r = Inl e" "ls' = ls"
  | info address where "r = Inr info" "li_ID info = ''pf-'' @ FormatUint (Suc (ls_nextID ls))"
      "li_LocalPort info \<noteq> 0" "li_Address info = address"
      "ls' = \<lparr> ls_nextID = Suc (ls_nextID ls), ls_active = AList.update (li_ID info) info (ls_active ls) \<rparr>"
proof -
  have u: "unat (of_nat n :: 16 word) = n" if "n \<le> 65535" for n using that by (simp add: unat_of_nat)
  have z: "localPortFromAddress address = Inr port \<Longrightarrow> port \<noteq> 0" for address port
    using u by (auto simp: localPortFromAddress_def ParseUint16_def split: option.splits if_splits)
      (metis less_numeral_extra(3) not_le_imp_less unat_0)
  have "(\<exists>e. r = Inl e \<and> ls' = ls) \<or> (\<exists>request. startRouted listen request ls = (r, ls'))"
    using assms by (auto simp: StartResolved_def Let_def split: if_splits option.splits prod.splits)
  then show thesis
  proof (elim disjE exE conjE)
    fix request assume s: "startRouted listen request ls = (r, ls')"
    show thesis
    proof (cases r)
      case (Inl e)
      then show thesis using s that(1) by (auto simp: startRouted_def Let_def split: sum.splits)
    next
      case (Inr info)
      then show thesis using s that(2) z by (auto simp: startRouted_def Let_def split: sum.splits)
    qed
  qed (use that(1) in blast)
qed

lemma StartResolved_fresh:
  assumes "StartResolved ul has_dialer listen request target ls = (Inr info, ls')" "listeners_ok ls"
  shows "li_ID info \<notin> fst ` set (ls_active ls)" "li_ID info \<noteq> ''''" "listeners_ok ls'"
    "fst ` set (ls_active ls') = insert (li_ID info) (fst ` set (ls_active ls))"
proof -
  have i: "li_ID info = ''pf-'' @ FormatUint (Suc (ls_nextID ls))"
    "ls' = \<lparr> ls_nextID = Suc (ls_nextID ls), ls_active = AList.update (li_ID info) info (ls_active ls) \<rparr>"
    by (rule StartResolved_cases [OF assms(1)]; simp)+
  show f: "li_ID info \<notin> fst ` set (ls_active ls)"
    using assms(2) was_issued_next(3) unfolding listeners_ok_def i(1) by blast
  show "li_ID info \<noteq> ''''" by (simp add: i)
  have s: "fst ` set (AList.update k v xs) = insert k (fst ` set xs)" for k v and xs :: "(string \<times> ListenInfo) list"
    by (induction xs) auto
  show "fst ` set (ls_active ls') = insert (li_ID info) (fst ` set (ls_active ls))" by (simp add: i(2) s)
  show "listeners_ok ls'" unfolding listeners_ok_def
  proof (intro conjI ballI)
    show "distinct (map fst (ls_active ls'))" using assms(2) by (simp add: listeners_ok_def i(2) distinct_update)
    fix x assume "x \<in> fst ` set (ls_active ls')"
    then have "x = li_ID info \<or> x \<in> fst ` set (ls_active ls)" by (simp only: i(2) s listeners.select_convs insert_iff)
    then have "was_issued (Suc (ls_nextID ls)) x"
      using assms(2) was_issued_next(1,2) unfolding listeners_ok_def i(1) by blast
    then show "was_issued (ls_nextID ls') x" by (simp add: i(2))
  qed
qed

text \<open>What the listeners of a session promise their user, and that these are such.\<close>

locale local_listeners =
  fixes start :: "'q \<Rightarrow> 'l \<Rightarrow> (string + 'i) \<times> 'l"
    and stop :: "string \<Rightarrow> 'l \<Rightarrow> string option \<times> 'l"
    and ident :: "'i \<Rightarrow> string"
    and live :: "'l \<Rightarrow> string set"
    and ok :: "'l \<Rightarrow> bool"
  assumes start_ok: "ok l \<Longrightarrow> ok (snd (start q l))"
    and start_live: "ok l \<Longrightarrow> start q l = (Inr i, l') \<Longrightarrow> live l' = insert (ident i) (live l) \<and> ident i \<notin> live l \<and> ident i \<noteq> ''''"
    and start_fails: "start q l = (Inl e, l') \<Longrightarrow> live l' = live l"
    and stop_ok: "ok l \<Longrightarrow> ok (snd (stop x l))"
    and stop_live: "live (snd (stop x l)) = live l - {x}"
begin

text \<open>A listener that is started and stopped again leaves what there was.\<close>

lemma start_stop: "ok l \<Longrightarrow> start q l = (Inr i, l') \<Longrightarrow> live (snd (stop (ident i) l')) = live l"
  using start_live stop_live by force

lemma start_other: "ok l \<Longrightarrow> start q l = (Inr i, l') \<Longrightarrow> x \<in> live l \<Longrightarrow> x \<noteq> ident i"
  using start_live by blast

end

interpretation pl: local_listeners
  "\<lambda>(has_dialer, listen, request, target) ls. StartResolved ul has_dialer listen request target ls"
  "StopListener close" li_ID "\<lambda>ls. fst ` set (ls_active ls)" listeners_ok for ul close
proof (unfold_locales, goal_cases)
  case (1 l q)
  obtain has_dialer listen request target where q: "q = (has_dialer, listen, request, target)" by (cases q) auto
  obtain r l' where r: "StartResolved ul has_dialer listen request target l = (r, l')" by fastforce
  show ?case
  proof (cases r)
    case (Inl e)
    have "l' = l" by (rule StartResolved_cases [OF r]) (use Inl in simp_all)
    then show ?thesis using 1 r q by simp
  next
    case (Inr info)
    then show ?thesis using StartResolved_fresh(3) [of ul has_dialer listen request target l info l'] 1 r q by simp
  qed
next
  case (2 l q i l')
  obtain has_dialer listen request target where q: "q = (has_dialer, listen, request, target)" by (cases q) auto
  have "StartResolved ul has_dialer listen request target l = (Inr i, l')" using 2 q by (simp only: prod.case)
  note f = StartResolved_fresh [OF this 2(1)]
  show ?case using f by (intro conjI) simp_all
next
  case (3 q l e l')
  obtain has_dialer listen request target where q: "q = (has_dialer, listen, request, target)" by (cases q) auto
  have "StartResolved ul has_dialer listen request target l = (Inl e, l')" using 3 q by (simp only: prod.case)
  then show ?case by (rule StartResolved_cases) simp_all
next
  case (4 l x)
  then show ?case using StopListener_result(1) by (metis prod.collapse)
next
  case (5 x l)
  then show ?case using StopListener_result(2) by (metis prod.collapse)
qed

end
