(* ===== verification/PortForward.thy ===== *)
theory PortForward
  imports TrafficTasks PortListener
begin

text \<open>
  The desktop's port forwards (\<^verbatim>\<open>internal/client/portforward\<close>): tasks at the Gateway, each with a local listener while it is
  active. As in \<open>TaskRelay\<close>, entries live on a heap, and critical sections, calls of the control client, of the data
  plane and of the listeners are atomic steps between which other operations may act.
\<close>

section \<open>Data\<close>

type_synonym errs = "string list"

record PortForwardTask =
  pt_ID :: string
  pt_State :: task_state
  pt_Kind :: string
  pt_TaskName :: string
  pt_TaskProtocol :: string
  pt_RemotePort :: "16 word"
  pt_LocalPort :: "16 word"
  pt_DialAddress :: string

record ForwardInfo =
  fi_ID :: string
  fi_ProfileID :: string
  fi_SessionID :: string
  fi_Namespace :: string
  fi_Kind :: string
  fi_Name :: string
  fi_Protocol :: string
  fi_RemotePort :: "16 word"
  fi_LocalPort :: "16 word"
  fi_Address :: string
  fi_DialAddress :: string
  fi_State :: string

record activeForward =
  af_profile :: Profile
  af_session :: RemoteSession
  af_task :: PortForwardTask
  af_localID :: string
  af_info :: ForwardInfo

record ForwardRequest =
  fr_ProfileID :: string
  fr_Kind :: string
  fr_Name :: string
  fr_Protocol :: string
  fr_RemotePort :: "16 word"
  fr_LocalPort :: "16 word"

definition forwardActive :: string where "forwardActive = ''active''"
definition forwardPaused :: string where "forwardPaused = ''paused''"
definition forwardResuming :: string where "forwardResuming = ''resuming''"

datatype forward_event =
    ForwardCreate string
  | ForwardPause string
  | ForwardResume string
  | ForwardDelete string
  | ForwardList

text \<open>
  The answers of the control client by the number of the call, its optional methods, the dialer of the data plane
  (whether there is one), listening and closing sockets, and the order of an iteration over the map.
\<close>

record forward_env =
  fe_lower :: "string \<Rightarrow> string"
  fe_canPause :: bool
  fe_canResume :: bool
  fe_canDelete :: bool
  fe_canList :: bool
  fe_dialer :: "nat \<Rightarrow> bool \<times> errs"
  fe_create :: "nat \<Rightarrow> PortForwardTask \<times> errs"
  fe_stop :: "nat \<Rightarrow> errs"
  fe_pause :: "nat \<Rightarrow> errs"
  fe_resume :: "nat \<Rightarrow> PortForwardTask \<times> errs"
  fe_delete :: "nat \<Rightarrow> errs"
  fe_list :: "nat \<Rightarrow> PortForwardTask list \<times> errs"
  fe_listen :: "nat \<Rightarrow> string \<Rightarrow> string \<Rightarrow> string + string"
  fe_close :: "nat \<Rightarrow> string option"
  fe_order :: "nat \<Rightarrow> (string \<times> nat) list \<Rightarrow> (string \<times> nat) list"

record forwards =
  pm_closed :: bool
  pm_readers :: nat
  pm_writer :: bool
  pm_active :: "(string \<times> nat) list"
  pm_heap :: "activeForward list"
  pm_locals :: listeners
  pm_calls :: nat
  pm_events :: "forward_event list"

type_synonym 'a forward_prog = "(forwards, 'a) prog"

definition new_forwards :: "bool \<Rightarrow> bool \<Rightarrow> errs + forwards" where
  "new_forwards has_client has_dataPlanes =
     (if \<not> has_client \<or> \<not> has_dataPlanes then Inl [''port Forward Task client and Data Plane are required'']
      else Inr \<lparr> pm_closed = False, pm_readers = 0, pm_writer = False, pm_active = [], pm_heap = [], pm_locals = no_listeners,
        pm_calls = 0, pm_events = [] \<rparr>)"

abbreviation forward_at :: "forwards \<Rightarrow> nat \<Rightarrow> activeForward" where
  "forward_at m a \<equiv> pm_heap m ! a"

abbreviation forward_of :: "forwards \<Rightarrow> string \<Rightarrow> nat option" where
  "forward_of m taskID \<equiv> map_of (pm_active m) taskID"

definition alter :: "nat \<Rightarrow> (activeForward \<Rightarrow> activeForward) \<Rightarrow> forwards \<Rightarrow> forwards" where
  "alter a f m = m \<lparr> pm_heap := (pm_heap m)[a := f (forward_at m a)] \<rparr>"

definition set_state :: "string \<Rightarrow> activeForward \<Rightarrow> activeForward" where
  "set_state state x = x \<lparr> af_info := (af_info x) \<lparr> fi_State := state \<rparr> \<rparr>"

definition forward_state :: "activeForward \<Rightarrow> string" where
  "forward_state x = fi_State (af_info x)"

definition ask_gateway :: "(forwards \<Rightarrow> forward_event) \<Rightarrow> (nat \<Rightarrow> 'a) \<Rightarrow> 'a forward_prog" where
  "ask_gateway event answer = atomic (\<lambda>m. (answer (pm_calls m),
     m \<lparr> pm_calls := Suc (pm_calls m), pm_events := pm_events m @ [event m] \<rparr>))"

section \<open>The control client and the listeners\<close>

definition pausePortForward :: "forward_env \<Rightarrow> string \<Rightarrow> errs forward_prog" where
  "pausePortForward e taskID = ask_gateway (\<lambda>_. ForwardPause taskID) (if \<not> fe_canPause e then fe_stop e else fe_pause e)"

definition deletePortForward :: "forward_env \<Rightarrow> string \<Rightarrow> errs forward_prog" where
  "deletePortForward e taskID = ask_gateway (\<lambda>_. ForwardDelete taskID) (if \<not> fe_canDelete e then fe_stop e else fe_delete e)"

definition zero_forward :: PortForwardTask where
  "zero_forward = \<lparr> pt_ID = '''', pt_State = OtherState '''', pt_Kind = '''', pt_TaskName = '''', pt_TaskProtocol = '''',
     pt_RemotePort = 0, pt_LocalPort = 0, pt_DialAddress = '''' \<rparr>"

definition resumePortForward :: "forward_env \<Rightarrow> string \<Rightarrow> (PortForwardTask \<times> errs) forward_prog" where
  "resumePortForward e taskID =
     (if \<not> fe_canResume e then Return (zero_forward, [''port Forward resume is unavailable''])
      else ask_gateway (\<lambda>_. ForwardResume taskID) (fe_resume e))"

definition get_dialer :: "forward_env \<Rightarrow> (bool \<times> errs) forward_prog" where
  "get_dialer e = atomic (\<lambda>m. (fe_dialer e (pm_calls m), m \<lparr> pm_calls := Suc (pm_calls m) \<rparr>))"

definition listenRequest :: "Profile \<Rightarrow> RemoteSession \<Rightarrow> PortForwardTask \<Rightarrow> 16 word \<Rightarrow> ListenRequest" where
  "listenRequest profile session task localPort =
     \<lparr> lr_Context = pf_ID profile, lr_Namespace = rs_Namespace session, lr_Kind = pt_Kind task, lr_Name = pt_TaskName task,
       lr_Protocol = pt_TaskProtocol task, lr_RemotePort = pt_RemotePort task, lr_LocalPort = localPort \<rparr>"

definition local_start ::
  "forward_env \<Rightarrow> bool \<Rightarrow> (forwards \<Rightarrow> ListenRequest) \<Rightarrow> string \<Rightarrow> (string + ListenInfo) forward_prog" where
  "local_start e has_dialer request target = atomic (\<lambda>m.
     let (r, ls) = StartResolved (fe_lower e) has_dialer (fe_listen e (pm_calls m)) (request m) target (pm_locals m) in
     (r, m \<lparr> pm_locals := ls, pm_calls := Suc (pm_calls m) \<rparr>))"

definition stop_listener :: "forward_env \<Rightarrow> string \<Rightarrow> forwards \<Rightarrow> errs \<times> forwards" where
  "stop_listener e localID m =
     (let (r, ls) = StopListener (fe_close e (pm_calls m)) localID (pm_locals m) in
      (case r of None \<Rightarrow> [] | Some err \<Rightarrow> [err], m \<lparr> pm_locals := ls, pm_calls := Suc (pm_calls m) \<rparr>))"

definition local_stop :: "forward_env \<Rightarrow> (forwards \<Rightarrow> string) \<Rightarrow> errs forward_prog" where
  "local_stop e localID = atomic (\<lambda>m. stop_listener e (localID m) m)"

section \<open>The lifecycle lock\<close>

definition forwardsRLock :: "unit forward_prog" where
  "forwardsRLock = await (\<lambda>m. if pm_writer m then None else Some ((), m \<lparr> pm_readers := Suc (pm_readers m) \<rparr>))"

definition forwardsRUnlock :: "unit forward_prog" where
  "forwardsRUnlock = atomic (\<lambda>m. ((), m \<lparr> pm_readers := pm_readers m - 1 \<rparr>))"

definition forwardsLock :: "unit forward_prog" where
  "forwardsLock = await (\<lambda>m. if pm_writer m \<or> pm_readers m > 0 then None else Some ((), m \<lparr> pm_writer := True \<rparr>))"

definition forwardsUnlock :: "unit forward_prog" where
  "forwardsUnlock = atomic (\<lambda>m. ((), m \<lparr> pm_writer := False \<rparr>))"

section \<open>Operations\<close>

text \<open>The key of the create call ends in a fresh UUID, which nothing here reads.\<close>

definition start_forward ::
  "forward_env \<Rightarrow> Profile \<Rightarrow> RemoteSession \<Rightarrow> ForwardRequest \<Rightarrow> (ForwardInfo option \<times> errs) forward_prog" where
  "start_forward e profile session request =
     andThen (get_dialer e) (\<lambda>(has_dialer, dialErr).
     if dialErr \<noteq> [] then Return (None, dialErr)
     else andThen (ask_gateway (\<lambda>_. ForwardCreate (pf_ID profile)) (fe_create e)) (\<lambda>(task, createErr).
     if createErr \<noteq> [] then Return (None, createErr)
     else andThen (local_start e has_dialer (\<lambda>_. listenRequest profile session task (fr_LocalPort request)) (pt_DialAddress task)) (\<lambda>local.
     case local of
       Inl err \<Rightarrow> andThen (deletePortForward e (pt_ID task)) (\<lambda>stopErr.
         Return (None, (''start local Port Forward listener: '' @ err) # stopErr))
     | Inr listener \<Rightarrow>
         let info = \<lparr> fi_ID = pt_ID task, fi_ProfileID = pf_ID profile, fi_SessionID = rs_ID session,
               fi_Namespace = rs_Namespace session, fi_Kind = pt_Kind task, fi_Name = pt_TaskName task,
               fi_Protocol = pt_TaskProtocol task, fi_RemotePort = pt_RemotePort task, fi_LocalPort = li_LocalPort listener,
               fi_Address = li_Address listener, fi_DialAddress = pt_DialAddress task, fi_State = forwardActive \<rparr>;
             entry = \<lparr> af_profile = profile, af_session = session, af_task = task, af_localID = li_ID listener, af_info = info \<rparr> in
         andThen (atomic (\<lambda>m. if forward_of m (pt_ID task) \<noteq> None then (False, m)
             else (True, m \<lparr> pm_active := AList.update (pt_ID task) (length (pm_heap m)) (pm_active m), pm_heap := pm_heap m @ [entry] \<rparr>)))
           (\<lambda>entered. if entered then Return (Some info, [])
             else andThen (local_stop e (\<lambda>_. li_ID listener)) (\<lambda>_. andThen (deletePortForward e (pt_ID task)) (\<lambda>stopErr.
               Return (None, ''port Forward Task is already active locally'' # stopErr)))))))"

definition StartForward ::
  "forward_env \<Rightarrow> bool \<Rightarrow> Profile \<Rightarrow> RemoteSession \<Rightarrow> ForwardRequest \<Rightarrow> (ForwardInfo option \<times> errs) forward_prog" where
  "StartForward e has_ctx profile session request =
     andThen forwardsRLock (\<lambda>_. andThen (atomic (\<lambda>m. (pm_closed m, m))) (\<lambda>closed.
     andThen (if closed then Return (None, [''port Forward manager is closed''])
       else if \<not> has_ctx \<or> TrimSpace (fr_ProfileID request) \<noteq> pf_ID profile \<or> rs_State session \<noteq> forwardActive
       then Return (None, [''active Server Profile Session is required''])
       else start_forward e profile session request) (\<lambda>r. andThen forwardsRUnlock (\<lambda>_. Return r))))"

definition is_active :: "activeForward \<Rightarrow> bool" where
  "is_active x \<longleftrightarrow> forward_state x = '''' \<or> forward_state x = forwardActive"

definition find_active :: "string \<Rightarrow> string \<Rightarrow> nat option forward_prog" where
  "find_active profileID taskID = atomic (\<lambda>m. (case forward_of m taskID of
       None \<Rightarrow> None
     | Some a \<Rightarrow> if pf_ID (af_profile (forward_at m a)) \<noteq> profileID \<or> \<not> is_active (forward_at m a) then None else Some a, m))"

definition mark_paused :: "string \<Rightarrow> nat \<Rightarrow> unit forward_prog" where
  "mark_paused taskID a = atomic (\<lambda>m. ((), if forward_of m taskID = Some a
     then alter a (\<lambda>x. set_state forwardPaused (x \<lparr> af_localID := '''' \<rparr>)) m else m))"

definition PauseForward :: "forward_env \<Rightarrow> bool \<Rightarrow> string \<Rightarrow> string \<Rightarrow> errs forward_prog" where
  "PauseForward e has_ctx profileID taskID =
     (if \<not> has_ctx then Return [''port Forward pause context is required'']
      else andThen (find_active profileID taskID) (\<lambda>entry. case entry of
             None \<Rightarrow> Return [''port Forward is not active locally'']
           | Some a \<Rightarrow> andThen (atomic (\<lambda>m. (pt_ID (af_task (forward_at m a)), m))) (\<lambda>remoteID.
               andThen (pausePortForward e remoteID) (\<lambda>remoteErr.
               andThen (local_stop e (\<lambda>m. af_localID (forward_at m a))) (\<lambda>localErr.
               andThen (mark_paused taskID a) (\<lambda>_. Return (localErr @ remoteErr)))))))"

text \<open>The last critical section of \<open>startLocal\<close>: nothing when the entry is no longer the one of the map.\<close>

definition adopt_listener :: "nat \<Rightarrow> PortForwardTask \<Rightarrow> ListenInfo \<Rightarrow> ForwardInfo option forward_prog" where
  "adopt_listener a task listener = atomic (\<lambda>m.
     if forward_of m (pt_ID task) \<noteq> Some a then (None, m)
     else let x = forward_at m a;
              info = (af_info x) \<lparr> fi_State := forwardActive, fi_Address := li_Address listener,
                fi_LocalPort := li_LocalPort listener, fi_DialAddress := pt_DialAddress task \<rparr> in
       (Some info, alter a (\<lambda>x. x \<lparr> af_task := task, af_localID := li_ID listener, af_info := info \<rparr>) m))"

definition startLocalForward ::
  "forward_env \<Rightarrow> nat \<Rightarrow> PortForwardTask \<Rightarrow> bool \<Rightarrow> (ForwardInfo option \<times> errs) forward_prog" where
  "startLocalForward e a task compensateRemote =
     andThen (get_dialer e) (\<lambda>(has_dialer, dialErr).
     if dialErr \<noteq> [] then Return (None, dialErr)
     else andThen (local_start e has_dialer (\<lambda>m. listenRequest (af_profile (forward_at m a)) (af_session (forward_at m a)) task
         (fi_LocalPort (af_info (forward_at m a)))) (pt_DialAddress task)) (\<lambda>local. case local of
       Inl err \<Rightarrow>
         if \<not> compensateRemote then Return (None, [err])
         else andThen (pausePortForward e (pt_ID task)) (\<lambda>remoteErr. Return (None, err # remoteErr))
     | Inr listener \<Rightarrow> andThen (adopt_listener a task listener) (\<lambda>info. case info of
         Some info \<Rightarrow> Return (Some info, [])
       | None \<Rightarrow> andThen (local_stop e (\<lambda>_. li_ID listener)) (\<lambda>_.
           if \<not> compensateRemote then Return (None, [''port Forward changed while reconciling''])
           else andThen (pausePortForward e (pt_ID task)) (\<lambda>remoteErr.
             Return (None, ''port Forward changed while resuming'' # remoteErr))))))"

definition begin_resume :: "string \<Rightarrow> string \<Rightarrow> nat option forward_prog" where
  "begin_resume profileID taskID = atomic (\<lambda>m. case forward_of m taskID of
       None \<Rightarrow> (None, m)
     | Some a \<Rightarrow>
         if pf_ID (af_profile (forward_at m a)) \<noteq> profileID \<or> forward_state (forward_at m a) \<noteq> forwardPaused then (None, m)
         else (Some a, alter a (set_state forwardResuming) m))"

text \<open>The deferred function of \<open>ResumeForward\<close>.\<close>

definition give_up_resume :: "string \<Rightarrow> nat \<Rightarrow> unit forward_prog" where
  "give_up_resume taskID a = atomic (\<lambda>m. ((),
     if forward_of m taskID = Some a \<and> forward_state (forward_at m a) = forwardResuming
     then alter a (set_state forwardPaused) m else m))"

definition ResumeForward :: "forward_env \<Rightarrow> bool \<Rightarrow> string \<Rightarrow> string \<Rightarrow> (ForwardInfo option \<times> errs) forward_prog" where
  "ResumeForward e has_ctx profileID taskID =
     (if \<not> has_ctx then Return (None, [''port Forward resume context is required''])
      else andThen (begin_resume profileID taskID) (\<lambda>entry. case entry of
             None \<Rightarrow> Return (None, [''port Forward is not paused locally''])
           | Some a \<Rightarrow> andThen (atomic (\<lambda>m. (pt_ID (af_task (forward_at m a)), m))) (\<lambda>remoteID.
               andThen (resumePortForward e remoteID) (\<lambda>(task, err).
               andThen (if err \<noteq> [] then Return (None, err) else startLocalForward e a task True) (\<lambda>r.
               if snd r = [] then Return r else andThen (give_up_resume taskID a) (\<lambda>_. Return r))))))"

definition drop_forward :: "string \<Rightarrow> unit forward_prog" where
  "drop_forward taskID = atomic (\<lambda>m. ((), m \<lparr> pm_active := AList.delete taskID (pm_active m) \<rparr>))"

definition DeleteForward :: "forward_env \<Rightarrow> bool \<Rightarrow> string \<Rightarrow> string \<Rightarrow> errs forward_prog" where
  "DeleteForward e has_ctx profileID taskID =
     (if \<not> has_ctx then Return [''port Forward delete context is required'']
      else andThen (atomic (\<lambda>m. (forward_of m taskID, m))) (\<lambda>entry. case entry of
             None \<Rightarrow> Return [''port Forward is not managed locally'']
           | Some a \<Rightarrow> andThen (atomic (\<lambda>m. (forward_at m a, m))) (\<lambda>x.
               if pf_ID (af_profile x) \<noteq> profileID then Return [''port Forward is not managed locally'']
               else andThen (if forward_state x = forwardActive then PauseForward e True profileID taskID else Return []) (\<lambda>pauseErr.
                    andThen (deletePortForward e (pt_ID (af_task x))) (\<lambda>deleteErr.
                    andThen (if deleteErr = [] then drop_forward taskID else Return ()) (\<lambda>_.
                    Return (pauseErr @ deleteErr)))))))"

definition StopForward :: "forward_env \<Rightarrow> bool \<Rightarrow> string \<Rightarrow> string \<Rightarrow> errs forward_prog" where
  "StopForward e has_ctx profileID taskID = andThen (PauseForward e has_ctx profileID taskID) (\<lambda>err.
     andThen (if err = [] then drop_forward taskID else Return ()) (\<lambda>_. Return err))"

text \<open>The identifiers of a profile's active entries, in the order of the map's iteration.\<close>

definition activeIDs :: "forward_env \<Rightarrow> string \<Rightarrow> string list forward_prog" where
  "activeIDs e profileID = atomic (\<lambda>m. (map fst (filter (\<lambda>(taskID, a).
     pf_ID (af_profile (forward_at m a)) = profileID \<and> is_active (forward_at m a)) (fe_order e (pm_calls m) (pm_active m))),
     m \<lparr> pm_calls := Suc (pm_calls m) \<rparr>))"

definition profile_wide :: "forward_env \<Rightarrow> string \<Rightarrow> (string \<Rightarrow> errs forward_prog) \<Rightarrow> errs forward_prog" where
  "profile_wide e profileID f = andThen forwardsLock (\<lambda>_. andThen (activeIDs e profileID) (\<lambda>ids.
     andThen (forEach f ids) (\<lambda>err. andThen forwardsUnlock (\<lambda>_. Return err))))"

definition StopProfileForwards :: "forward_env \<Rightarrow> bool \<Rightarrow> string \<Rightarrow> errs forward_prog" where
  "StopProfileForwards e has_ctx profileID =
     (if \<not> has_ctx then Return [''port Forward stop Profile context is required'']
      else profile_wide e profileID (StopForward e True profileID))"

definition PauseProfileForwards :: "forward_env \<Rightarrow> bool \<Rightarrow> string \<Rightarrow> errs forward_prog" where
  "PauseProfileForwards e has_ctx profileID =
     (if \<not> has_ctx then Return [''port Forward pause Profile context is required'']
      else profile_wide e profileID (PauseForward e True profileID))"

definition releaseLocal :: "forward_env \<Rightarrow> string \<Rightarrow> string \<Rightarrow> errs forward_prog" where
  "releaseLocal e profileID taskID = andThen (find_active profileID taskID) (\<lambda>entry. case entry of
       None \<Rightarrow> Return []
     | Some a \<Rightarrow> andThen (local_stop e (\<lambda>m. af_localID (forward_at m a))) (\<lambda>localErr.
         andThen (mark_paused taskID a) (\<lambda>_. Return localErr)))"

definition ReleaseProfileForwards :: "forward_env \<Rightarrow> bool \<Rightarrow> string \<Rightarrow> errs forward_prog" where
  "ReleaseProfileForwards e has_ctx profileID =
     (if \<not> has_ctx then Return [''port Forward release Profile context is required'']
      else profile_wide e profileID (releaseLocal e profileID))"

definition shutdown_round :: "forward_env \<Rightarrow> string \<Rightarrow> errs forward_prog" where
  "shutdown_round e taskID = andThen (atomic (\<lambda>m. (forward_of m taskID, m))) (\<lambda>entry. case entry of
       None \<Rightarrow> Return []
     | Some a \<Rightarrow> andThen (atomic (\<lambda>m. (forward_at m a, m))) (\<lambda>x.
         if is_active x then StopForward e True (pf_ID (af_profile x)) taskID else Return []))"

definition ShutdownForwards :: "forward_env \<Rightarrow> bool \<Rightarrow> errs forward_prog" where
  "ShutdownForwards e has_ctx =
     (if \<not> has_ctx then Return [''port Forward shutdown context is required'']
      else andThen forwardsLock (\<lambda>_. andThen (atomic (\<lambda>m. ((), m \<lparr> pm_closed := True \<rparr>))) (\<lambda>_.
           andThen (atomic (\<lambda>m. (SortFunc compareStrings (map fst (pm_active m)), m))) (\<lambda>ids.
           andThen (forEach (shutdown_round e) ids) (\<lambda>err. andThen forwardsUnlock (\<lambda>_. Return err))))))"

definition ListForwards :: "string \<Rightarrow> ForwardInfo list forward_prog" where
  "ListForwards profileID = atomic (\<lambda>m.
     (SortFunc (\<lambda>x y. compareStrings (fi_ID x) (fi_ID y)) (map af_info (filter (\<lambda>x. profileID = '''' \<or> pf_ID (af_profile x) = profileID)
       (map (forward_at m \<circ> snd) (pm_active m)))), m))"

section \<open>Restoring\<close>

definition portForwardAddress :: "16 word \<Rightarrow> string" where
  "portForwardAddress port = (if port = 0 then '''' else JoinHostPort ''127.0.0.1'' (FormatPort port))"

definition is_stale_forward :: "string \<Rightarrow> string \<Rightarrow> activeForward \<Rightarrow> bool" where
  "is_stale_forward profileID sessionID x \<longleftrightarrow> pf_ID (af_profile x) = profileID \<and> rs_ID (af_session x) \<noteq> sessionID"

text \<open>The critical section that drops the entries of older sessions stops their listeners inside.\<close>

definition stop_stale :: "forward_env \<Rightarrow> string \<Rightarrow> string \<Rightarrow> nat \<Rightarrow> forwards \<Rightarrow> forwards" where
  "stop_stale e profileID sessionID a m =
     (if is_stale_forward profileID sessionID (forward_at m a) \<and> af_localID (forward_at m a) \<noteq> ''''
      then snd (stop_listener e (af_localID (forward_at m a)) m) else m)"

definition dropStaleForwards :: "forward_env \<Rightarrow> string \<Rightarrow> string \<Rightarrow> unit forward_prog" where
  "dropStaleForwards e profileID sessionID = atomic (\<lambda>m. ((),
     (foldl (\<lambda>m a. stop_stale e profileID sessionID a m) m (map snd (pm_active m)))
       \<lparr> pm_active := filter (\<lambda>(taskID, a). \<not> is_stale_forward profileID sessionID (forward_at m a)) (pm_active m) \<rparr>))"

text \<open>What the first critical section of a round finds, or makes, of the task's entry.\<close>

datatype found = StartIt nat | StopIt nat string | LeaveIt | NewEntry nat

definition restored_entry :: "Profile \<Rightarrow> RemoteSession \<Rightarrow> PortForwardTask \<Rightarrow> activeForward" where
  "restored_entry profile session task = \<lparr> af_profile = profile, af_session = session, af_task = task, af_localID = '''',
     af_info = \<lparr> fi_ID = pt_ID task, fi_ProfileID = pf_ID profile, fi_SessionID = rs_ID session,
       fi_Namespace = rs_Namespace session, fi_Kind = pt_Kind task, fi_Name = pt_TaskName task, fi_Protocol = pt_TaskProtocol task,
       fi_RemotePort = pt_RemotePort task, fi_LocalPort = pt_LocalPort task, fi_Address = portForwardAddress (pt_LocalPort task),
       fi_DialAddress = pt_DialAddress task, fi_State = forwardPaused \<rparr> \<rparr>"

definition find_restored :: "Profile \<Rightarrow> RemoteSession \<Rightarrow> PortForwardTask \<Rightarrow> found forward_prog" where
  "find_restored profile session task = atomic (\<lambda>m. case forward_of m (pt_ID task) of
       Some a \<Rightarrow>
         let m' = alter a (\<lambda>x. x \<lparr> af_profile := profile, af_session := session, af_task := task \<rparr>) m;
             localID = af_localID (forward_at m a) in
         if pt_State task = Running \<and> localID = '''' then (StartIt a, m')
         else if pt_State task \<noteq> Running \<and> localID \<noteq> ''''
         then (StopIt a localID, alter a (\<lambda>x. set_state forwardPaused (x \<lparr> af_localID := '''' \<rparr>)) m')
         else (LeaveIt, m')
     | None \<Rightarrow> (NewEntry (length (pm_heap m)), m \<lparr> pm_active := AList.update (pt_ID task) (length (pm_heap m)) (pm_active m),
         pm_heap := pm_heap m @ [restored_entry profile session task] \<rparr>))"

definition restoreForward :: "forward_env \<Rightarrow> Profile \<Rightarrow> RemoteSession \<Rightarrow> PortForwardTask \<Rightarrow> errs forward_prog" where
  "restoreForward e profile session task =
     (if \<not> reconcilable (pt_State task) then Return []
      else andThen (find_restored profile session task) (\<lambda>found. case found of
             StartIt a \<Rightarrow> andThen (startLocalForward e a task False) (\<lambda>(_, err). Return err)
           | StopIt a localID \<Rightarrow> local_stop e (\<lambda>_. localID)
           | LeaveIt \<Rightarrow> Return []
           | NewEntry a \<Rightarrow>
               if pt_State task = Running \<and> pt_LocalPort task \<noteq> 0
               then andThen (startLocalForward e a task False) (\<lambda>(_, err).
                 if err = [] then Return []
                 else andThen (atomic (\<lambda>m. ((), if forward_of m (pt_ID task) = Some a
                   then m \<lparr> pm_active := AList.delete (pt_ID task) (pm_active m) \<rparr> else m))) (\<lambda>_. Return err))
               else Return []))"

primrec restoreForwards :: "forward_env \<Rightarrow> Profile \<Rightarrow> RemoteSession \<Rightarrow> PortForwardTask list \<Rightarrow> errs forward_prog" where
  "restoreForwards e profile session [] = Return []"
| "restoreForwards e profile session (task # tasks) = andThen (restoreForward e profile session task) (\<lambda>err.
     if err \<noteq> [] then Return err else restoreForwards e profile session tasks)"

definition RestoreForwards :: "forward_env \<Rightarrow> Profile \<Rightarrow> RemoteSession \<Rightarrow> errs forward_prog" where
  "RestoreForwards e profile session =
     (if \<not> fe_canList e then Return [''port Forward restore is unavailable'']
      else andThen (ask_gateway (\<lambda>_. ForwardList) (fe_list e)) (\<lambda>(tasks, err).
        if err \<noteq> [] then Return err
        else andThen (dropStaleForwards e (pf_ID profile) (rs_ID session)) (\<lambda>_. restoreForwards e profile session tasks)))"

end
