(* ===== verification/PortForwardSafety.thy ===== *)
theory PortForwardSafety
  imports PortForward
begin

text \<open>
  What the port forward manager keeps: operations that do not overlap leave exactly the listeners that its entries name,
  one per active entry; what a resume tells the Gateway on each of its branches; a restore writes nothing to the Gateway;
  and the two operations whose overlap leaves a listener that no entry names.
\<close>

declare map_of_eq_Some_iff [simp del]

section \<open>The invariant\<close>

definition live_listeners :: "forwards \<Rightarrow> string set" where
  "live_listeners m = fst ` set (ls_active (pm_locals m))"

definition owned :: "forwards \<Rightarrow> string set" where
  "owned m = {x. x \<noteq> '''' \<and> (\<exists>i a. forward_of m i = Some a \<and> af_localID (forward_at m a) = x)}"

text \<open>\<open>r\<close> is the address of the entry that a resume is at work on.\<close>

definition entry_ok :: "nat option \<Rightarrow> string \<Rightarrow> nat \<Rightarrow> activeForward \<Rightarrow> bool" where
  "entry_ok r i a x \<longleftrightarrow> pt_ID (af_task x) = i \<and> fi_ID (af_info x) = i \<and> (forward_state x = forwardActive \<longleftrightarrow> af_localID x \<noteq> '''') \<and>
     (forward_state x = forwardResuming \<longleftrightarrow> r = Some a) \<and>
     (forward_state x = forwardActive \<or> forward_state x = forwardPaused \<or> forward_state x = forwardResuming)"

definition forwards_core :: "nat option \<Rightarrow> forwards \<Rightarrow> bool" where
  "forwards_core r m \<longleftrightarrow> listeners_ok (pm_locals m) \<and> distinct (map fst (pm_active m)) \<and>
     (\<forall>i a. forward_of m i = Some a \<longrightarrow> a < length (pm_heap m) \<and> entry_ok r i a (forward_at m a)) \<and>
     (\<forall>i j a b. forward_of m i = Some a \<longrightarrow> forward_of m j = Some b \<longrightarrow>
        af_localID (forward_at m a) = af_localID (forward_at m b) \<longrightarrow> af_localID (forward_at m a) \<noteq> '''' \<longrightarrow> i = j)"

definition forwards_ok :: "forwards \<Rightarrow> bool" where
  "forwards_ok m \<longleftrightarrow> forwards_core None m \<and> live_listeners m = owned m"

lemma forward_states_differ [simp]:
  "forwardActive \<noteq> forwardPaused" "forwardActive \<noteq> forwardResuming" "forwardPaused \<noteq> forwardResuming"
  "forwardPaused \<noteq> forwardActive" "forwardResuming \<noteq> forwardActive" "forwardResuming \<noteq> forwardPaused"
  "forwardActive \<noteq> ''''" "forwardPaused \<noteq> ''''" "forwardResuming \<noteq> ''''"
  by (simp_all add: forwardActive_def forwardPaused_def forwardResuming_def)

lemma forward_of_update [simp]: "map_of (AList.update k v xs) i = (if i = k then Some v else map_of xs i)"
  by (simp add: update_conv')

lemma forward_of_delete [simp]: "map_of (AList.delete k xs) i = (if i = k then None else map_of xs i)"
  by (simp add: delete_conv')

lemma forward_of_filter:
  "distinct (map fst xs) \<Longrightarrow> map_of (filter P xs) i = (case map_of xs i of None \<Rightarrow> None | Some a \<Rightarrow> if P (i, a) then Some a else None)"
  by (induction xs) (auto split: option.splits simp: map_of_eq_None_iff image_iff)

lemma coreD:
  assumes "forwards_core r m" "forward_of m i = Some a"
  shows "a < length (pm_heap m)" "entry_ok r i a (forward_at m a)" "pt_ID (af_task (forward_at m a)) = i"
    "forward_state (forward_at m a) = forwardActive \<longleftrightarrow> af_localID (forward_at m a) \<noteq> ''''"
    "is_active (forward_at m a) \<longleftrightarrow> af_localID (forward_at m a) \<noteq> ''''"
proof -
  have k: "a < length (pm_heap m) \<and> entry_ok r i a (forward_at m a)" using assms unfolding forwards_core_def by blast
  then show "a < length (pm_heap m)" "entry_ok r i a (forward_at m a)" "pt_ID (af_task (forward_at m a)) = i"
    "forward_state (forward_at m a) = forwardActive \<longleftrightarrow> af_localID (forward_at m a) \<noteq> ''''" by (auto simp: entry_ok_def)
  then show "is_active (forward_at m a) \<longleftrightarrow> af_localID (forward_at m a) \<noteq> ''''"
    unfolding is_active_def entry_ok_def by (metis forward_states_differ(7-9))
qed

lemma core_inj: "forwards_core r m \<Longrightarrow> forward_of m i = Some a \<Longrightarrow> forward_of m j = Some a \<Longrightarrow> i = j"
  using coreD(3) by blast

lemma core_owner:
  "forwards_core r m \<Longrightarrow> forward_of m i = Some a \<Longrightarrow> forward_of m j = Some b \<Longrightarrow>
    af_localID (forward_at m a) = af_localID (forward_at m b) \<Longrightarrow> af_localID (forward_at m a) \<noteq> '''' \<Longrightarrow> i = j"
  unfolding forwards_core_def by blast

text \<open>Calls, locks and flags are nothing to it.\<close>

lemma core_simps [simp]:
  "forwards_core r (m \<lparr> pm_calls := k \<rparr>) = forwards_core r m" "forwards_core r (m \<lparr> pm_events := evs \<rparr>) = forwards_core r m"
  "forwards_core r (m \<lparr> pm_readers := k \<rparr>) = forwards_core r m" "forwards_core r (m \<lparr> pm_writer := b \<rparr>) = forwards_core r m"
  "forwards_core r (m \<lparr> pm_closed := b \<rparr>) = forwards_core r m"
  by (simp_all add: forwards_core_def)

lemma owned_simps [simp]:
  "owned (m \<lparr> pm_calls := k \<rparr>) = owned m" "owned (m \<lparr> pm_events := evs \<rparr>) = owned m" "owned (m \<lparr> pm_readers := k \<rparr>) = owned m"
  "owned (m \<lparr> pm_writer := b \<rparr>) = owned m" "owned (m \<lparr> pm_closed := b \<rparr>) = owned m" "owned (m \<lparr> pm_locals := ls \<rparr>) = owned m"
  by (simp_all add: owned_def)

lemma live_simps [simp]:
  "live_listeners (m \<lparr> pm_calls := k \<rparr>) = live_listeners m" "live_listeners (m \<lparr> pm_events := evs \<rparr>) = live_listeners m"
  "live_listeners (m \<lparr> pm_readers := k \<rparr>) = live_listeners m" "live_listeners (m \<lparr> pm_writer := b \<rparr>) = live_listeners m"
  "live_listeners (m \<lparr> pm_closed := b \<rparr>) = live_listeners m" "live_listeners (m \<lparr> pm_active := es \<rparr>) = live_listeners m"
  "live_listeners (m \<lparr> pm_heap := h \<rparr>) = live_listeners m" "live_listeners (m \<lparr> pm_locals := ls \<rparr>) = fst ` set (ls_active ls)"
  "live_listeners (alter a f m) = live_listeners m"
  by (simp_all add: live_listeners_def alter_def)

lemma core_locals [simp]: "forwards_core r m \<Longrightarrow> listeners_ok ls \<Longrightarrow> forwards_core r (m \<lparr> pm_locals := ls \<rparr>)"
  by (simp add: forwards_core_def)

lemma alter_simps [simp]:
  "pm_active (alter a f m) = pm_active m" "pm_locals (alter a f m) = pm_locals m" "pm_calls (alter a f m) = pm_calls m"
  "length (pm_heap (alter a f m)) = length (pm_heap m)" "pm_readers (alter a f m) = pm_readers m" "pm_writer (alter a f m) = pm_writer m"
  "pm_events (alter a f m) = pm_events m"
  "a < length (pm_heap m) \<Longrightarrow> forward_at (alter a f m) b = (if b = a then f (forward_at m a) else forward_at m b)"
  by (simp_all add: alter_def)

lemma set_state_simps [simp]:
  "af_task (set_state s x) = af_task x" "af_localID (set_state s x) = af_localID x" "af_profile (set_state s x) = af_profile x"
  "forward_state (set_state s x) = s"
  by (simp_all add: set_state_def forward_state_def)

text \<open>A change of one entry that lets it keep its listener, gives it a fresh one, or takes it away.\<close>

lemma core_alter:
  assumes c: "forwards_core r m" and i: "forward_of m i = Some a"
    and f: "entry_ok r' i a (f (forward_at m a))" "r' = r \<or> (r = None \<or> r = Some a) \<and> (r' = None \<or> r' = Some a)"
    and x: "af_localID (f (forward_at m a)) \<in> {'''', af_localID (forward_at m a)} \<or> af_localID (f (forward_at m a)) \<notin> owned m"
  shows "forwards_core r' (alter a f m)"
    "owned (alter a f m) = owned m - {af_localID (forward_at m a)} \<union> ({af_localID (f (forward_at m a))} - {''''})"
proof -
  let ?n = "alter a f m" and ?x = "af_localID (f (forward_at m a))"
  have l: "a < length (pm_heap m)" by (rule coreD [OF c i])
  have own: "af_localID (forward_at m b) \<in> owned m" if "forward_of m j = Some b" "af_localID (forward_at m b) \<noteq> ''''" for j b
    using that by (auto simp: owned_def)
  have other: "af_localID (forward_at m b) \<noteq> ?x" if "forward_of m j = Some b" "b \<noteq> a" "?x \<noteq> ''''" for j b
    using x own [OF that(1)] core_owner [OF c that(1) i] that i by (metis empty_iff insert_iff option.inject)
  have e: "b < length (pm_heap ?n) \<and> entry_ok r' j b (forward_at ?n b)" if j: "forward_of ?n j = Some b" for j b
  proof (cases "b = a")
    case True
    then have "j = i" using core_inj [OF c _ i] j by simp
    then show ?thesis using True l f(1) by simp
  next
    case False
    then show ?thesis using coreD(1,2) [OF c, of j b] j l f(2) by (auto simp: entry_ok_def)
  qed
  have u: "j = k" if "forward_of ?n j = Some b" "forward_of ?n k = Some d" "af_localID (forward_at ?n b) = af_localID (forward_at ?n d)"
    "af_localID (forward_at ?n b) \<noteq> ''''" for j k b d
    using that l other [of j b] other [of k d] core_owner [OF c, of j b k d] core_inj [OF c, of j b k]
    by (auto split: if_splits)
  show "forwards_core r' ?n" using c e u unfolding forwards_core_def alter_simps(1,2) by blast
  show "owned ?n = owned m - {af_localID (forward_at m a)} \<union> ({?x} - {''''})"
  proof (intro set_eqI iffI)
    fix y assume "y \<in> owned ?n"
    then obtain j b where j: "y \<noteq> ''''" "forward_of m j = Some b" "af_localID (forward_at ?n b) = y" by (auto simp: owned_def)
    show "y \<in> owned m - {af_localID (forward_at m a)} \<union> ({?x} - {''''})"
    proof (cases "b = a")
      case False
      then have "af_localID (forward_at m b) = y" using j l by simp
      then show ?thesis using j own [OF j(2)] core_owner [OF c j(2) i] False i by auto
    qed (use j l in simp)
  next
    fix y assume y: "y \<in> owned m - {af_localID (forward_at m a)} \<union> ({?x} - {''''})"
    then consider "y \<in> owned m" "y \<noteq> af_localID (forward_at m a)" | "y = ?x" "?x \<noteq> ''''" by auto
    then show "y \<in> owned ?n"
    proof cases
      case 1
      then obtain j b where "y \<noteq> ''''" "forward_of m j = Some b" "af_localID (forward_at m b) = y" "b \<noteq> a" by (auto simp: owned_def)
      then show ?thesis using l by (auto simp: owned_def)
    next
      case 2
      then show ?thesis using i l by (auto simp: owned_def)
    qed
  qed
qed

lemma core_delete:
  assumes c: "forwards_core r m"
  shows "forwards_core r (m \<lparr> pm_active := AList.delete i (pm_active m) \<rparr>)"
    "owned (m \<lparr> pm_active := AList.delete i (pm_active m) \<rparr>) =
       owned m - (case forward_of m i of None \<Rightarrow> {} | Some a \<Rightarrow> {af_localID (forward_at m a)})"
proof -
  show "forwards_core r (m \<lparr> pm_active := AList.delete i (pm_active m) \<rparr>)"
    using c unfolding forwards_core_def by (simp add: distinct_delete)
  have e: "y \<in> owned m \<and> (\<forall>a. forward_of m i = Some a \<longrightarrow> y \<noteq> af_localID (forward_at m a)) \<longleftrightarrow>
      y \<noteq> '''' \<and> (\<exists>j b. j \<noteq> i \<and> forward_of m j = Some b \<and> af_localID (forward_at m b) = y)" for y
  proof (intro iffI conjI allI impI)
    assume "y \<in> owned m \<and> (\<forall>a. forward_of m i = Some a \<longrightarrow> y \<noteq> af_localID (forward_at m a))"
    then obtain j b where j: "forward_of m j = Some b" "af_localID (forward_at m b) = y"
      "\<And>a. forward_of m i = Some a \<Longrightarrow> y \<noteq> af_localID (forward_at m a)" by (auto simp: owned_def)
    then have "j \<noteq> i" by metis
    then show "\<exists>j b. j \<noteq> i \<and> forward_of m j = Some b \<and> af_localID (forward_at m b) = y" using j by metis
  next
    fix a assume "y \<noteq> '''' \<and> (\<exists>j b. j \<noteq> i \<and> forward_of m j = Some b \<and> af_localID (forward_at m b) = y)" "forward_of m i = Some a"
    then show "y \<noteq> af_localID (forward_at m a)" using core_owner [OF c, of _ _ i a] by metis
  qed (unfold owned_def, blast+)
  have "owned (m \<lparr> pm_active := AList.delete i (pm_active m) \<rparr>) =
      {y. y \<noteq> '''' \<and> (\<exists>j b. j \<noteq> i \<and> forward_of m j = Some b \<and> af_localID (forward_at m b) = y)}"
    unfolding owned_def by (rule Collect_cong) (auto split: if_splits)
  then show "owned (m \<lparr> pm_active := AList.delete i (pm_active m) \<rparr>) =
      owned m - (case forward_of m i of None \<Rightarrow> {} | Some a \<Rightarrow> {af_localID (forward_at m a)})"
    unfolding e [symmetric] by (cases "forward_of m i") auto
qed

lemma core_append:
  assumes c: "forwards_core r m" and i: "forward_of m i = None" and x: "entry_ok r i (length (pm_heap m)) x"
    "af_localID x = '''' \<or> af_localID x \<notin> owned m"
  defines "n \<equiv> m \<lparr> pm_active := AList.update i (length (pm_heap m)) (pm_active m), pm_heap := pm_heap m @ [x] \<rparr>"
  shows "forwards_core r n" "owned n = owned m \<union> ({af_localID x} - {''''})"
proof -
  have l: "a < length (pm_heap m) \<and> forward_at n a = forward_at m a" if "forward_of m j = Some a" for j a
    using coreD(1) [OF c that] by (simp add: n_def nth_append)
  have new: "forward_at n (length (pm_heap m)) = x" by (simp add: n_def)
  have of: "forward_of n j = (if j = i then Some (length (pm_heap m)) else forward_of m j)" for j by (simp add: n_def)
  have own: "af_localID (forward_at m b) \<in> owned m" if "forward_of m j = Some b" "af_localID (forward_at m b) \<noteq> ''''" for j b
    using that by (auto simp: owned_def)
  have e: "a < length (pm_heap n) \<and> entry_ok r j a (forward_at n a)" if "forward_of n j = Some a" for j a
    using that coreD(1,2) [OF c, of j a] l [of j a] new x(1) by (cases "j = i") (auto simp: of n_def)
  have u: "j = k" if "forward_of n j = Some a" "forward_of n k = Some b" "af_localID (forward_at n a) = af_localID (forward_at n b)"
    "af_localID (forward_at n a) \<noteq> ''''" for j k a b
  proof (cases "j = i"; cases "k = i")
    assume "j = i" "k \<noteq> i"
    then show ?thesis using that l [of k b] new x(2) own [of k b] by (auto simp: of)
  next
    assume "j \<noteq> i" "k = i"
    then show ?thesis using that l [of j a] new x(2) own [of j a] by (auto simp: of)
  next
    assume "j \<noteq> i" "k \<noteq> i"
    then show ?thesis using that core_owner [OF c, of j a k b] l [of j a] l [of k b] by (auto simp: of)
  qed simp
  have "listeners_ok (pm_locals n)" "distinct (map fst (pm_active n))" using c by (simp_all add: forwards_core_def n_def distinct_update)
  then show "forwards_core r n" using e u unfolding forwards_core_def by blast
  show "owned n = owned m \<union> ({af_localID x} - {''''})"
  proof (intro set_eqI iffI)
    fix y assume "y \<in> owned n"
    then show "y \<in> owned m \<union> ({af_localID x} - {''''})" using l new by (auto simp: owned_def of split: if_splits)
  next
    fix y assume "y \<in> owned m \<union> ({af_localID x} - {''''})"
    then consider "y \<in> owned m" | "y = af_localID x" "y \<noteq> ''''" by auto
    then show "y \<in> owned n"
    proof cases
      case 1
      then obtain j b where j: "y \<noteq> ''''" "forward_of m j = Some b" "af_localID (forward_at m b) = y" by (auto simp: owned_def)
      then have "forward_of n j = Some b" using i by (auto simp: of)
      then show ?thesis using j l [OF j(2)] unfolding owned_def mem_Collect_eq by metis
    next
      case 2
      then show ?thesis using of [of i] new by (auto simp: owned_def)
    qed
  qed
qed

section \<open>One operation on its own\<close>

lemma StartResolved_started:
  assumes "StartResolved ul d listen request target (pm_locals m) = (Inr info, ls)" "forwards_core r m"
  shows "listeners_ok ls" "fst ` set (ls_active ls) = insert (li_ID info) (live_listeners m)" "li_ID info \<notin> live_listeners m" "li_ID info \<noteq> ''''"
proof -
  have o: "listeners_ok (pm_locals m)" using assms(2) by (simp add: forwards_core_def)
  show "listeners_ok ls" using pl.start_ok [OF o, of ul "(d, listen, request, target)"] assms(1) by simp
  show "fst ` set (ls_active ls) = insert (li_ID info) (live_listeners m)" "li_ID info \<notin> live_listeners m" "li_ID info \<noteq> ''''"
    using pl.start_live [OF o, of ul "(d, listen, request, target)" info ls] assms(1) by (auto simp: live_listeners_def)
qed

lemma StartResolved_failed:
  assumes "StartResolved ul d listen request target (pm_locals m) = (Inl err, ls)"
  shows "ls = pm_locals m"
  by (rule StartResolved_cases [OF assms]) auto

lemma stop_listener_result:
  assumes "forwards_core r m"
  shows "forwards_core r (snd (stop_listener e x m))" "live_listeners (snd (stop_listener e x m)) = live_listeners m - {x}"
    "owned (snd (stop_listener e x m)) = owned m"
proof -
  have o: "listeners_ok (pm_locals m)" using assms by (simp add: forwards_core_def)
  obtain ls where ls: "stop_listener e x m = (fst (stop_listener e x m), m \<lparr> pm_locals := ls, pm_calls := Suc (pm_calls m) \<rparr>)"
    "ls = snd (StopListener (fe_close e (pm_calls m)) x (pm_locals m))"
    by (simp add: stop_listener_def split: prod.splits)
  have k: "listeners_ok ls" "fst ` set (ls_active ls) = live_listeners m - {x}"
    using pl.stop_ok [OF o] pl.stop_live by (simp_all add: ls(2) live_listeners_def)
  have s: "snd (stop_listener e x m) = m \<lparr> pm_locals := ls, pm_calls := Suc (pm_calls m) \<rparr>" using ls(1) by (metis snd_conv)
  show "forwards_core r (snd (stop_listener e x m))" "live_listeners (snd (stop_listener e x m)) = live_listeners m - {x}"
    "owned (snd (stop_listener e x m)) = owned m"
    using k assms by (simp_all add: s)
qed

lemma stop_listener_keeps [simp]:
  "pm_active (snd (stop_listener e x m)) = pm_active m" "pm_heap (snd (stop_listener e x m)) = pm_heap m"
  "pm_readers (snd (stop_listener e x m)) = pm_readers m" "pm_writer (snd (stop_listener e x m)) = pm_writer m"
  "pm_events (snd (stop_listener e x m)) = pm_events m"
  by (simp_all add: stop_listener_def split: prod.splits)

lemmas call_defs = get_dialer_def local_start_def local_stop_def pausePortForward_def deletePortForward_def ask_gateway_def

definition locks :: "forwards \<Rightarrow> nat \<times> bool" where
  "locks m = (pm_readers m, pm_writer m)"

lemma locks_simps [simp]:
  "locks (m \<lparr> pm_calls := k \<rparr>) = locks m" "locks (m \<lparr> pm_events := evs \<rparr>) = locks m" "locks (m \<lparr> pm_locals := ls \<rparr>) = locks m"
  "locks (m \<lparr> pm_active := es \<rparr>) = locks m" "locks (m \<lparr> pm_heap := h \<rparr>) = locks m" "locks (m \<lparr> pm_closed := b \<rparr>) = locks m"
  "locks (alter a f m) = locks m" "locks (snd (stop_listener e x m)) = locks m"
  by (simp_all add: locks_def)

text \<open>
  What \<open>startLocal\<close> leaves: the entry with a listener of its own, or, with an error, all as it was. The Gateway is told
  to pause only when the error is of the listener or of the entry, not of the dialer.
\<close>

definition started_or_same :: "forward_env \<Rightarrow> nat option \<Rightarrow> nat \<Rightarrow> PortForwardTask \<Rightarrow> bool \<Rightarrow> forwards \<Rightarrow> ForwardInfo option \<times> errs \<Rightarrow> forwards \<Rightarrow> bool" where
  "started_or_same e r a task compensate m result m' \<longleftrightarrow>
     live_listeners m' = owned m' \<and> locks m' = locks m \<and> pm_active m' = pm_active m \<and>
     (if snd result = [] then forwards_core None m' \<and> forward_state (forward_at m' a) = forwardActive \<and>
        fst result = Some (af_info (forward_at m' a)) \<and> pm_events m' = pm_events m
      else forwards_core r m' \<and> pm_heap m' = pm_heap m \<and> live_listeners m' = live_listeners m \<and>
        pm_events m' = pm_events m @ (if compensate \<and> snd (fe_dialer e (pm_calls m)) = [] then [ForwardPause (pt_ID task)] else []))"

lemma startLocalForward_alone:
  assumes c: "forwards_core r m" "live_listeners m = owned m" "r = None \<or> r = Some a"
    and i: "forward_of m i = Some a" "af_localID (forward_at m a) = ''''"
  shows "\<exists>result m'. alone (startLocalForward e a task compensate) m = Some (result, m') \<and>
    started_or_same e r a task compensate m result m'"
proof (cases "snd (fe_dialer e (pm_calls m)) = []")
  case False
  then show ?thesis using c by (simp add: startLocalForward_def call_defs started_or_same_def case_prod_unfold)
next
  case True
  let ?m = "m \<lparr> pm_calls := Suc (pm_calls m) \<rparr>"
  let ?request = "listenRequest (af_profile (forward_at m a)) (af_session (forward_at m a)) task (fi_LocalPort (af_info (forward_at m a)))"
  obtain s ls where s: "StartResolved (fe_lower e) (fst (fe_dialer e (pm_calls m))) (fe_listen e (Suc (pm_calls m))) ?request
      (pt_DialAddress task) (pm_locals m) = (s, ls)" by fastforce
  note run = startLocalForward_def call_defs started_or_same_def adopt_listener_def case_prod_unfold
  show ?thesis
  proof (cases s)
    case (Inl err)
    have ls: "ls = pm_locals m" by (rule StartResolved_failed [OF s [unfolded Inl]])
    have "listeners_ok (pm_locals m)" using c(1) by (simp add: forwards_core_def)
    then show ?thesis using c(1,2) True s Inl ls by (simp add: run live_listeners_def)
  next
    case (Inr listener)
    note started = StartResolved_started [OF s [unfolded Inr] c(1)]
    let ?n = "m \<lparr> pm_locals := ls, pm_calls := Suc (Suc (pm_calls m)) \<rparr>"
    have n: "forwards_core r ?n" "owned ?n = owned m" using c(1) started(1) by simp_all
    show ?thesis
    proof (cases "forward_of m (pt_ID task) = Some a")
      case mine: True
      then have id: "i = pt_ID task" using core_inj [OF c(1) i(1)] by simp
      let ?f = "\<lambda>x. x \<lparr> af_task := task, af_localID := li_ID listener, af_info := (af_info (forward_at m a))
        \<lparr> fi_State := forwardActive, fi_Address := li_Address listener, fi_LocalPort := li_LocalPort listener, fi_DialAddress := pt_DialAddress task \<rparr> \<rparr>"
      have l: "a < length (pm_heap m)" by (rule coreD [OF c(1) i(1)])
      have "forward_of ?n i = Some a" using i by simp
      note change = core_alter [OF n(1) this, of None ?f]
      have k: "entry_ok None i a (?f (forward_at ?n a))"
        using coreD(2) [OF c(1) i(1)] started(4) id by (simp add: entry_ok_def forward_state_def)
      have f: "forwards_core None (alter a ?f ?n)" "owned (alter a ?f ?n) = owned m - {''''} \<union> {li_ID listener}"
        using change [OF k] started(3,4) c(2,3) n(2) i(2) by auto
      have "'''' \<notin> owned m" by (simp add: owned_def)
      then show ?thesis using c True s Inr mine f started(2) l by (auto simp: run Let_def forward_state_def)
    next
      case other: False
      have d: "StopListener x (li_ID listener) ls = (fst (StopListener x (li_ID listener) ls), snd (StopListener x (li_ID listener) ls))" for x
        by simp
      have k: "listeners_ok (snd (StopListener x (li_ID listener) ls))"
        "fst ` set (ls_active (snd (StopListener x (li_ID listener) ls))) = live_listeners m" for x
        using pl.stop_ok [OF started(1)] pl.stop_live [of x "li_ID listener" ls] started(2,3) by (auto simp: live_listeners_def)
      show ?thesis using c True s Inr other k by (auto simp: run Let_def stop_listener_def)
    qed
  qed
qed

definition keeps :: "'a forward_prog \<Rightarrow> bool" where
  "keeps p \<longleftrightarrow> (\<forall>m. forwards_ok m \<longrightarrow> (\<exists>x m'. alone p m = Some (x, m') \<and> forwards_ok m' \<and> locks m' = locks m))"

lemma keepsD: "keeps p \<Longrightarrow> forwards_ok m \<Longrightarrow> \<exists>x m'. alone p m = Some (x, m') \<and> forwards_ok m' \<and> locks m' = locks m"
  by (auto simp: keeps_def)

lemma keeps_Return [simp]: "keeps (Return x)"
  by (simp add: keeps_def)

lemma keeps_andThen [intro]: "keeps p \<Longrightarrow> (\<And>x. keeps (f x)) \<Longrightarrow> keeps (andThen p f)"
  unfolding keeps_def alone_andThen by (metis (no_types, lifting) case_prod_conv option.simps(5))

lemma keeps_forEach [intro]: "(\<And>x. keeps (f x)) \<Longrightarrow> keeps (forEach f xs)"
  by (induction xs) (auto intro!: keeps_andThen)

lemma keeps_atomic: "(\<And>m. forwards_ok m \<Longrightarrow> forwards_ok (snd (f m)) \<and> locks (snd (f m)) = locks m) \<Longrightarrow> keeps (atomic f)"
  unfolding keeps_def alone_atomic by (metis prod.collapse)

lemma ok_simps [simp]:
  "forwards_ok (m \<lparr> pm_calls := k \<rparr>) = forwards_ok m" "forwards_ok (m \<lparr> pm_events := evs \<rparr>) = forwards_ok m"
  "forwards_ok (m \<lparr> pm_readers := k \<rparr>) = forwards_ok m" "forwards_ok (m \<lparr> pm_writer := b \<rparr>) = forwards_ok m"
  "forwards_ok (m \<lparr> pm_closed := b \<rparr>) = forwards_ok m"
  by (simp_all add: forwards_ok_def)

lemma keeps_ask_gateway [intro]: "keeps (ask_gateway event answer)"
  unfolding ask_gateway_def by (rule keeps_atomic) simp

lemma keeps_delete [intro]: "keeps (deletePortForward e i)"
  by (auto simp: deletePortForward_def)

text \<open>\<open>drop_forward\<close> leaves no listener behind when the entry has none.\<close>

lemma drop_forward_ok:
  assumes "forwards_ok m" "\<And>a. forward_of m i = Some a \<Longrightarrow> af_localID (forward_at m a) = ''''"
  shows "forwards_ok (m \<lparr> pm_active := AList.delete i (pm_active m) \<rparr>)"
proof -
  have "'''' \<notin> owned m" by (simp add: owned_def)
  then show ?thesis using assms core_delete [of None m i] by (cases "forward_of m i") (auto simp: forwards_ok_def)
qed

text \<open>Stopping an entry's listener and recording the entry as paused.\<close>

definition paused_of :: "forwards \<Rightarrow> string \<Rightarrow> nat \<Rightarrow> forwards \<Rightarrow> bool" where
  "paused_of m i a m' \<longleftrightarrow> forwards_ok m' \<and> locks m' = locks m \<and> pm_active m' = pm_active m \<and> af_localID (forward_at m' a) = '''' \<and>
     pt_ID (af_task (forward_at m' a)) = i"

lemma clear_alone:
  assumes m: "forwards_ok m" and i: "forward_of m i = Some a"
  shows "\<exists>localErr m'. alone (andThen (local_stop e (\<lambda>m. af_localID (forward_at m a))) (\<lambda>localErr. andThen (mark_paused i a) (\<lambda>_. Return (g localErr)))) m =
    Some (g localErr, m') \<and> paused_of m i a m'"
proof -
  have c: "forwards_core None m" "live_listeners m = owned m" using m by (simp_all add: forwards_ok_def)
  let ?x = "af_localID (forward_at m a)"
  let ?n = "snd (stop_listener e ?x m)" and ?f = "\<lambda>x. set_state forwardPaused (x \<lparr> af_localID := '''' \<rparr>)"
  note n = stop_listener_result [OF c(1), of e ?x]
  have l: "a < length (pm_heap m)" by (rule coreD [OF c(1) i])
  have i': "forward_of ?n i = Some a" by (simp add: i)
  have k: "entry_ok None i a (?f (forward_at ?n a))" using coreD(2) [OF c(1) i] by (simp add: entry_ok_def set_state_def forward_state_def)
  have z: "af_localID (?f x) = ''''" for x by (simp add: set_state_def)
  have "forwards_core None (alter a ?f ?n)" "owned (alter a ?f ?n) = owned ?n - {?x}"
    using core_alter [where f = ?f, OF n(1) i' k] z by simp_all
  then have "paused_of m i a (alter a ?f ?n)"
    using n c(2) coreD(3) [OF c(1) i] l by (simp add: paused_of_def forwards_ok_def set_state_def)
  moreover have "alone (andThen (local_stop e (\<lambda>m. af_localID (forward_at m a))) (\<lambda>localErr. andThen (mark_paused i a) (\<lambda>_. Return (g localErr)))) m =
      Some (g (fst (stop_listener e ?x m)), alter a ?f ?n)"
    using i' by (simp add: local_stop_def mark_paused_def case_prod_unfold Let_def)
  ultimately show ?thesis by blast
qed

lemma find_active_alone:
  "alone (find_active profileID i) m = Some (case forward_of m i of None \<Rightarrow> None
     | Some a \<Rightarrow> if pf_ID (af_profile (forward_at m a)) \<noteq> profileID \<or> \<not> is_active (forward_at m a) then None else Some a, m)"
  by (simp add: find_active_def)

lemma PauseForward_alone:
  assumes m: "forwards_ok m"
  shows "\<exists>err m'. alone (PauseForward e has_ctx profileID i) m = Some (err, m') \<and> forwards_ok m' \<and> locks m' = locks m \<and>
    pm_active m' = pm_active m \<and>
    (case forward_of m i of None \<Rightarrow> err \<noteq> [] | Some a \<Rightarrow>
       if \<not> has_ctx \<or> pf_ID (af_profile (forward_at m a)) \<noteq> profileID \<or> \<not> is_active (forward_at m a) then err \<noteq> [] \<and> m' = m
       else af_localID (forward_at m' a) = '''')"
proof (cases "has_ctx \<and> (\<exists>a. forward_of m i = Some a \<and> pf_ID (af_profile (forward_at m a)) = profileID \<and> is_active (forward_at m a))")
  case False
  then show ?thesis using m by (cases "forward_of m i") (auto simp: PauseForward_def find_active_alone)
next
  case True
  then obtain a where a: "has_ctx" "forward_of m i = Some a" "pf_ID (af_profile (forward_at m a)) = profileID" "is_active (forward_at m a)" by auto
  obtain remoteErr n where r: "alone (pausePortForward e (pt_ID (af_task (forward_at m a)))) m = Some (remoteErr, n)"
    "n = m \<lparr> pm_calls := Suc (pm_calls m), pm_events := pm_events m @ [ForwardPause (pt_ID (af_task (forward_at m a)))] \<rparr>"
    by (simp add: pausePortForward_def ask_gateway_def)
  obtain localErr m' where "alone (andThen (local_stop e (\<lambda>m. af_localID (forward_at m a))) (\<lambda>localErr. andThen (mark_paused i a)
      (\<lambda>_. Return (localErr @ remoteErr)))) n = Some (localErr @ remoteErr, m')" "paused_of n i a m'"
    using clear_alone [of n i a e "\<lambda>localErr. localErr @ remoteErr"] m a(2) r(2) by auto
  then show ?thesis using a r by (simp add: PauseForward_def find_active_alone paused_of_def Let_def del: andThen_atomic)
qed

lemma keeps_PauseForward: "keeps (PauseForward e has_ctx profileID i)"
  using PauseForward_alone unfolding keeps_def by blast

lemma keeps_StopForward: "keeps (StopForward e has_ctx profileID i)"
  unfolding keeps_def
proof (intro allI impI)
  fix m assume "forwards_ok m"
  then obtain err m' where r: "alone (PauseForward e has_ctx profileID i) m = Some (err, m')" "forwards_ok m'" "locks m' = locks m"
    "pm_active m' = pm_active m" "case forward_of m i of None \<Rightarrow> err \<noteq> [] | Some a \<Rightarrow>
       if \<not> has_ctx \<or> pf_ID (af_profile (forward_at m a)) \<noteq> profileID \<or> \<not> is_active (forward_at m a) then err \<noteq> [] \<and> m' = m
       else af_localID (forward_at m' a) = ''''"
    using PauseForward_alone by meson
  have "forwards_ok (m' \<lparr> pm_active := AList.delete i (pm_active m') \<rparr>)" if "err = []"
    by (rule drop_forward_ok) (use r that in \<open>auto split: option.splits if_splits\<close>)
  then show "\<exists>x m'. alone (StopForward e has_ctx profileID i) m = Some (x, m') \<and> forwards_ok m' \<and> locks m' = locks m"
    using r(1-3) by (cases "err = []") (auto simp: StopForward_def drop_forward_def simp del: andThen_atomic)
qed

lemma keeps_DeleteForward: "keeps (DeleteForward e has_ctx profileID i)"
  unfolding keeps_def
proof (intro allI impI)
  fix m assume m: "forwards_ok m"
  show "\<exists>x m'. alone (DeleteForward e has_ctx profileID i) m = Some (x, m') \<and> forwards_ok m' \<and> locks m' = locks m"
  proof (cases "has_ctx \<and> (\<exists>a. forward_of m i = Some a \<and> pf_ID (af_profile (forward_at m a)) = profileID)")
    case False
    then show ?thesis using m by (cases "forward_of m i") (auto simp: DeleteForward_def simp del: andThen_atomic)
  next
    case True
    then obtain a where a: "has_ctx" "forward_of m i = Some a" "pf_ID (af_profile (forward_at m a)) = profileID" by auto
    let ?x = "forward_at m a"
    have c: "forwards_core None m" using m by (simp add: forwards_ok_def)
    obtain err m' where r: "alone (if forward_state ?x = forwardActive then PauseForward e True profileID i else Return []) m = Some (err, m')"
      "forwards_ok m'" "locks m' = locks m" "pm_active m' = pm_active m" "af_localID (forward_at m' a) = ''''"
    proof (cases "forward_state ?x = forwardActive")
      case True
      then have "is_active ?x" by (simp add: is_active_def)
      then show thesis using PauseForward_alone [OF m, of e True profileID i] a True that by auto
    next
      case False
      then show thesis using that [of "[]" m] m coreD(4) [OF c a(2)] by simp
    qed
    let ?n = "m' \<lparr> pm_calls := Suc (pm_calls m'), pm_events := pm_events m' @ [ForwardDelete (pt_ID (af_task ?x))] \<rparr>"
    obtain deleteErr where d: "alone (deletePortForward e (pt_ID (af_task ?x))) m' = Some (deleteErr, ?n)"
      by (simp add: deletePortForward_def ask_gateway_def)
    have "forwards_ok (?n \<lparr> pm_active := AList.delete i (pm_active ?n) \<rparr>)"
      by (rule drop_forward_ok) (use r a in auto)
    then show ?thesis using a r(1-3) d
      by (cases "deleteErr = []") (auto simp: DeleteForward_def drop_forward_def simp del: andThen_atomic)
  qed
qed

lemma keeps_releaseLocal: "keeps (releaseLocal e profileID i)"
  unfolding keeps_def
proof (intro allI impI)
  fix m assume m: "forwards_ok m"
  show "\<exists>x m'. alone (releaseLocal e profileID i) m = Some (x, m') \<and> forwards_ok m' \<and> locks m' = locks m"
  proof (cases "\<exists>a. forward_of m i = Some a \<and> pf_ID (af_profile (forward_at m a)) = profileID \<and> is_active (forward_at m a)")
    case False
    then show ?thesis using m by (cases "forward_of m i") (auto simp: releaseLocal_def find_active_alone simp del: andThen_atomic)
  next
    case True
    then show ?thesis using clear_alone [OF m, of i _ e "\<lambda>localErr. localErr"]
      by (fastforce simp: releaseLocal_def find_active_alone paused_of_def simp del: andThen_atomic)
  qed
qed

lemma forwardsLock_alone:
  "locks m = (0, False) \<Longrightarrow> alone forwardsLock m = Some ((), m \<lparr> pm_writer := True \<rparr>)"
  by (simp add: forwardsLock_def locks_def)

text \<open>Under the write lock, from an unlocked manager to an unlocked one.\<close>

definition keeps_unlocked :: "'a forward_prog \<Rightarrow> bool" where
  "keeps_unlocked p \<longleftrightarrow> (\<forall>m. forwards_ok m \<and> locks m = (0, False) \<longrightarrow> (\<exists>x m'. alone p m = Some (x, m') \<and> forwards_ok m' \<and> locks m' = (0, False)))"

lemma keeps_keeps_unlocked: "keeps p \<Longrightarrow> keeps_unlocked p"
  unfolding keeps_def keeps_unlocked_def by metis

lemma keeps_exclusive:
  assumes "keeps p"
  shows "keeps_unlocked (andThen forwardsLock (\<lambda>_. andThen p (\<lambda>x. andThen forwardsUnlock (\<lambda>_. Return x))))"
  unfolding keeps_unlocked_def
proof (intro allI impI)
  fix m assume m: "forwards_ok m \<and> locks m = (0, False)"
  then obtain x m' where r: "alone p (m \<lparr> pm_writer := True \<rparr>) = Some (x, m')" "forwards_ok m'" "locks m' = locks (m \<lparr> pm_writer := True \<rparr>)"
    using keepsD [OF assms, of "m \<lparr> pm_writer := True \<rparr>"] by auto
  then show "\<exists>y n. alone (andThen forwardsLock (\<lambda>_. andThen p (\<lambda>x. andThen forwardsUnlock (\<lambda>_. Return x)))) m = Some (y, n) \<and>
      forwards_ok n \<and> locks n = (0, False)"
    using m forwardsLock_alone [of m] by (simp add: forwardsUnlock_def locks_def)
qed

lemma keeps_reading:
  assumes "keeps p"
  shows "keeps_unlocked (andThen forwardsRLock (\<lambda>_. andThen p (\<lambda>x. andThen forwardsRUnlock (\<lambda>_. Return x))))"
  unfolding keeps_unlocked_def
proof (intro allI impI)
  fix m assume m: "forwards_ok m \<and> locks m = (0, False)"
  then obtain x m' where r: "alone p (m \<lparr> pm_readers := Suc 0 \<rparr>) = Some (x, m')" "forwards_ok m'" "locks m' = locks (m \<lparr> pm_readers := Suc 0 \<rparr>)"
    using keepsD [OF assms, of "m \<lparr> pm_readers := Suc 0 \<rparr>"] by auto
  then show "\<exists>y n. alone (andThen forwardsRLock (\<lambda>_. andThen p (\<lambda>x. andThen forwardsRUnlock (\<lambda>_. Return x)))) m = Some (y, n) \<and>
      forwards_ok n \<and> locks n = (0, False)"
    using m by (simp add: forwardsRLock_def forwardsRUnlock_def locks_def)
qed

lemma keeps_profile_wide: "(\<And>i. keeps (f i)) \<Longrightarrow> keeps_unlocked (profile_wide e profileID f)"
proof -
  assume f: "\<And>i. keeps (f i)"
  have "keeps (andThen (activeIDs e profileID) (\<lambda>ids. forEach f ids))"
    by (intro keeps_andThen keeps_forEach f) (simp add: activeIDs_def keeps_def)
  from keeps_exclusive [OF this] show ?thesis by (simp only: profile_wide_def andThen_assoc)
qed

lemma keeps_ShutdownForwards: "keeps_unlocked (ShutdownForwards e has_ctx)"
proof -
  have "keeps (shutdown_round e i)" for i
    unfolding shutdown_round_def
    by (intro keeps_andThen) (auto intro!: keeps_andThen keeps_StopForward keeps_atomic simp del: andThen_atomic split: option.splits)
  then have "keeps (andThen (atomic (\<lambda>m. ((), m \<lparr> pm_closed := True \<rparr>))) (\<lambda>_.
      andThen (atomic (\<lambda>m. (SortFunc compareStrings (map fst (pm_active m)), m))) (\<lambda>ids. forEach (shutdown_round e) ids)))"
    by (intro keeps_andThen keeps_forEach keeps_atomic) simp_all
  from keeps_exclusive [OF this] show ?thesis
    by (cases has_ctx) (simp_all only: ShutdownForwards_def andThen_assoc if_True if_False not_True_eq_False not_False_eq_True keeps_keeps_unlocked keeps_Return)
qed

lemma local_start_alone:
  assumes m: "forwards_ok m"
  obtains r n where "alone (local_start e d request target) m = Some (r, n)" "forwards_core None n" "locks n = locks m"
    "pm_active n = pm_active m" "pm_heap n = pm_heap m" "owned n = owned m" "pm_events n = pm_events m"
    "case r of Inl _ \<Rightarrow> live_listeners n = owned m
     | Inr info \<Rightarrow> live_listeners n = insert (li_ID info) (owned m) \<and> li_ID info \<notin> owned m \<and> li_ID info \<noteq> ''''"
proof -
  have c: "forwards_core None m" "live_listeners m = owned m" using m by (simp_all add: forwards_ok_def)
  obtain r ls where s: "StartResolved (fe_lower e) d (fe_listen e (pm_calls m)) (request m) target (pm_locals m) = (r, ls)" by fastforce
  let ?n = "m \<lparr> pm_locals := ls, pm_calls := Suc (pm_calls m) \<rparr>"
  have run: "alone (local_start e d request target) m = Some (r, ?n)" by (simp add: local_start_def s)
  show thesis
  proof (cases r)
    case (Inl err)
    have "ls = pm_locals m" by (rule StartResolved_failed [OF s [unfolded Inl]])
    moreover have "listeners_ok (pm_locals m)" using c(1) by (simp add: forwards_core_def)
    ultimately show thesis using that [OF run] c Inl by (simp add: live_listeners_def)
  next
    case (Inr info)
    show thesis using that [OF run] c Inr StartResolved_started [OF s [unfolded Inr] c(1)] by simp
  qed
qed

lemma keeps_start_forward: "keeps (start_forward e profile session request)"
  unfolding keeps_def
proof (intro allI impI)
  fix m assume m: "forwards_ok m"
  let ?task = "fst (fe_create e (Suc (pm_calls m)))" and ?d = "fst (fe_dialer e (pm_calls m))"
  let ?m = "m \<lparr> pm_calls := Suc (Suc (pm_calls m)), pm_events := pm_events m @ [ForwardCreate (pf_ID profile)] \<rparr>"
  let ?request = "\<lambda>_. listenRequest profile session ?task (fr_LocalPort request)"
  note run = start_forward_def get_dialer_def ask_gateway_def case_prod_unfold Let_def
  show "\<exists>x m'. alone (start_forward e profile session request) m = Some (x, m') \<and> forwards_ok m' \<and> locks m' = locks m"
  proof (cases "snd (fe_dialer e (pm_calls m)) = [] \<and> snd (fe_create e (Suc (pm_calls m))) = []")
    case False
    then show ?thesis using m by (auto simp: run)
  next
    case True
    obtain r n where s: "alone (local_start e ?d ?request (pt_DialAddress ?task)) ?m = Some (r, n)" "forwards_core None n" "locks n = locks m"
      "pm_active n = pm_active m" "pm_heap n = pm_heap m" "owned n = owned m"
      "case r of Inl _ \<Rightarrow> live_listeners n = owned m
       | Inr info \<Rightarrow> live_listeners n = insert (li_ID info) (owned m) \<and> li_ID info \<notin> owned m \<and> li_ID info \<noteq> ''''"
      by (rule local_start_alone [of ?m e ?d ?request "pt_DialAddress ?task", unfolded ok_simps, OF m])
        (unfold owned_simps locks_simps, simp)
    have del: "\<exists>x m'. alone (andThen (deletePortForward e (pt_ID ?task)) g) k = Some (x, m') \<and> forwards_ok m' \<and> locks m' = locks k"
      if "forwards_ok k" "\<And>x. keeps (g x)" for k and g :: "errs \<Rightarrow> (ForwardInfo option \<times> errs) forward_prog"
      using keepsD [OF keeps_andThen [OF keeps_delete that(2)] that(1)] .
    show ?thesis
    proof (cases r)
      case (Inl err)
      have "forwards_ok n" using s Inl by (simp add: forwards_ok_def)
      from del [OF this] show ?thesis using s(1,3) True Inl by (simp add: run)
    next
      case (Inr info)
      show ?thesis
      proof (cases "forward_of m (pt_ID ?task)")
        case None
        have free: "forward_of n (pt_ID ?task) = None" using None s(4) by simp
        let ?x = "\<lparr> af_profile = profile, af_session = session, af_task = ?task, af_localID = li_ID info, af_info =
          \<lparr> fi_ID = pt_ID ?task, fi_ProfileID = pf_ID profile, fi_SessionID = rs_ID session,
               fi_Namespace = rs_Namespace session, fi_Kind = pt_Kind ?task, fi_Name = pt_TaskName ?task,
               fi_Protocol = pt_TaskProtocol ?task, fi_RemotePort = pt_RemotePort ?task, fi_LocalPort = li_LocalPort info,
               fi_Address = li_Address info, fi_DialAddress = pt_DialAddress ?task, fi_State = forwardActive \<rparr> \<rparr>"
        have x: "entry_ok None (pt_ID ?task) (length (pm_heap n)) ?x" using s(7) Inr by (simp add: entry_ok_def forward_state_def)
        have y: "af_localID ?x = '''' \<or> af_localID ?x \<notin> owned n" using s(6,7) Inr by simp
        note a = core_append [OF s(2) free x y]
        have "live_listeners n = owned m \<union> ({li_ID info} - {''''})" using s(7) Inr by auto
        then show ?thesis using s(1-6) True Inr free a by (simp add: run forwards_ok_def)
      next
        case (Some b)
        have "forwards_ok (snd (stop_listener e (li_ID info) n))" "locks (snd (stop_listener e (li_ID info) n)) = locks n"
          using stop_listener_result [OF s(2), of e "li_ID info"] s(6,7) Inr by (simp_all add: forwards_ok_def)
        then show ?thesis using del [of "snd (stop_listener e (li_ID info) n)"] s True Inr Some
          by (simp add: run local_stop_def Let_def)
      qed
    qed
  qed
qed

lemma keeps_StartForward: "keeps_unlocked (StartForward e has_ctx profile session request)"
proof -
  have "keeps (andThen (atomic (\<lambda>m. (pm_closed m, m))) (\<lambda>closed. if closed then Return (None, [''port Forward manager is closed''])
      else if \<not> has_ctx \<or> TrimSpace (fr_ProfileID request) \<noteq> pf_ID profile \<or> rs_State session \<noteq> forwardActive
       then Return (None, [''active Server Profile Session is required''])
       else start_forward e profile session request))"
    by (intro keeps_andThen keeps_atomic) (auto intro: keeps_start_forward)
  from keeps_reading [OF this] show ?thesis by (simp only: StartForward_def andThen_assoc)
qed

lemma ResumeForward_alone:
  assumes m: "forwards_ok m" and i: "forward_of m i = Some a" "pf_ID (af_profile (forward_at m a)) = profileID"
    and p: "forward_state (forward_at m a) = forwardPaused"
  shows "\<exists>result m'. alone (ResumeForward e True profileID i) m = Some (result, m') \<and> forwards_ok m' \<and> locks m' = locks m \<and>
    pm_active m' = pm_active m \<and>
    (if snd result = [] then forward_state (forward_at m' a) = forwardActive \<and> fst result = Some (af_info (forward_at m' a)) \<and>
       pm_events m' = pm_events m @ [ForwardResume i]
     else forward_state (forward_at m' a) = forwardPaused \<and> live_listeners m' = live_listeners m \<and>
       pm_events m' = pm_events m @ (if \<not> fe_canResume e then [] else ForwardResume i #
         (if snd (fe_resume e (pm_calls m)) = [] \<and> snd (fe_dialer e (Suc (pm_calls m))) = []
          then [ForwardPause (pt_ID (fst (fe_resume e (pm_calls m))))] else [])))"
proof -
  have c: "forwards_core None m" "live_listeners m = owned m" using m by (simp_all add: forwards_ok_def)
  have l: "a < length (pm_heap m)" "pt_ID (af_task (forward_at m a)) = i" "af_localID (forward_at m a) = ''''" "'''' \<notin> owned m"
    using coreD [OF c(1) i(1)] p by (simp_all add: owned_def)
  let ?n = "alter a (set_state forwardResuming) m"
  have n: "forwards_core (Some a) ?n" "owned ?n = owned m"
  proof -
    have k: "entry_ok (Some a) i a (set_state forwardResuming (forward_at m a))"
      using coreD(2) [OF c(1) i(1)] l(3) by (simp add: entry_ok_def forward_state_def set_state_def)
    show "forwards_core (Some a) ?n" "owned ?n = owned m"
      using core_alter [where f = "set_state forwardResuming", OF c(1) i(1) k] l(3,4) by simp_all
  qed
  have undone: "forwards_ok (alter a (set_state forwardPaused) k) \<and> forward_state (forward_at (alter a (set_state forwardPaused) k) a) = forwardPaused"
    if k: "forwards_core (Some a) k" "live_listeners k = owned k" "pm_heap k = pm_heap ?n" "pm_active k = pm_active m" for k
  proof -
    have ik: "forward_of k i = Some a" and x: "forward_at k a = set_state forwardResuming (forward_at m a)" "a < length (pm_heap k)"
      using k(3,4) i l(1) by simp_all
    have e: "entry_ok None i a (set_state forwardPaused (forward_at k a))"
      using coreD(2) [OF c(1) i(1)] l(3) by (simp add: x entry_ok_def forward_state_def set_state_def)
    have "'''' \<notin> owned k" by (simp add: owned_def)
    then show ?thesis using core_alter [where f = "set_state forwardPaused", OF k(1) ik e] k(2) x l(3)
      by (simp add: forwards_ok_def)
  qed
  have gave: "give_up_resume i a = atomic (\<lambda>m. ((), if forward_of m i = Some a \<and> forward_state (forward_at m a) = forwardResuming
     then alter a (set_state forwardPaused) m else m))" by (simp add: give_up_resume_def)
  note run = ResumeForward_def begin_resume_def resumePortForward_def ask_gateway_def gave case_prod_unfold Let_def
  show ?thesis
  proof (cases "fe_canResume e \<and> snd (fe_resume e (pm_calls m)) = []")
    case False
    let ?k = "if fe_canResume e then ?n \<lparr> pm_calls := Suc (pm_calls m), pm_events := pm_events m @ [ForwardResume i] \<rparr> else ?n"
    show ?thesis using undone [of ?k] n c i p l False by (auto simp: run)
  next
    case True
    let ?k = "?n \<lparr> pm_calls := Suc (pm_calls m), pm_events := pm_events m @ [ForwardResume i] \<rparr>"
    have k: "forwards_core (Some a) ?k" "live_listeners ?k = owned ?k" "Some a = None \<or> Some a = Some a" "forward_of ?k i = Some a"
      "af_localID (forward_at ?k a) = ''''" using n c i l by simp_all
    obtain result m' where s: "alone (startLocalForward e a (fst (fe_resume e (pm_calls m))) True) ?k = Some (result, m')"
      "started_or_same e (Some a) a (fst (fe_resume e (pm_calls m))) True ?k result m'"
      using startLocalForward_alone [OF k] by blast
    show ?thesis
    proof (cases "snd result = []")
      case started: True
      then show ?thesis using s i p l True by (simp add: run started_or_same_def forwards_ok_def)
    next
      case failed: False
      then have "forwards_ok (alter a (set_state forwardPaused) m')"
        "forward_state (forward_at (alter a (set_state forwardPaused) m') a) = forwardPaused"
        using undone [of m'] s(2) by (simp_all add: started_or_same_def)
      moreover have "owned m' = owned m" using s(2) failed c(2) by (auto simp: started_or_same_def)
      ultimately show ?thesis using s i p l c n True failed by (simp add: run started_or_same_def)
    qed
  qed
qed

lemma keeps_ResumeForward: "keeps (ResumeForward e has_ctx profileID i)"
  unfolding keeps_def
proof (intro allI impI)
  fix m assume m: "forwards_ok m"
  show "\<exists>x m'. alone (ResumeForward e has_ctx profileID i) m = Some (x, m') \<and> forwards_ok m' \<and> locks m' = locks m"
  proof (cases "has_ctx \<and> (\<exists>a. forward_of m i = Some a \<and> pf_ID (af_profile (forward_at m a)) = profileID \<and>
      forward_state (forward_at m a) = forwardPaused)")
    case False
    then show ?thesis using m by (cases "forward_of m i") (auto simp: ResumeForward_def begin_resume_def)
  next
    case True
    then obtain a where "has_ctx" "forward_of m i = Some a" "pf_ID (af_profile (forward_at m a)) = profileID"
      "forward_state (forward_at m a) = forwardPaused" by auto
    then show ?thesis using ResumeForward_alone [OF m, of i a profileID e] by auto
  qed
qed

section \<open>Restoring\<close>

lemma stop_all_stale:
  fixes e profileID sessionID m
  assumes "forwards_core r m"
  defines "n \<equiv> \<lambda>as. foldl (\<lambda>m a. stop_stale e profileID sessionID a m) m as"
  shows "forwards_core r (n as) \<and> owned (n as) = owned m \<and> locks (n as) = locks m \<and> pm_active (n as) = pm_active m \<and>
    pm_heap (n as) = pm_heap m \<and> live_listeners (n as) =
      live_listeners m - {af_localID (forward_at m a) |a. a \<in> set as \<and> is_stale_forward profileID sessionID (forward_at m a) \<and> af_localID (forward_at m a) \<noteq> ''''}"
proof (induction as rule: rev_induct)
  case Nil
  then show ?case using assms(1) by (simp add: n_def)
next
  case (snoc a as)
  have s: "n (as @ [a]) = stop_stale e profileID sessionID a (n as)" by (simp add: n_def)
  have "live_listeners (n (as @ [a])) = live_listeners (n as) -
      {x. x = af_localID (forward_at m a) \<and> is_stale_forward profileID sessionID (forward_at m a) \<and> x \<noteq> ''''}"
    using stop_listener_result(2) [of r "n as" e "af_localID (forward_at m a)"] snoc unfolding s by (auto simp: stop_stale_def)
  moreover have "{af_localID (forward_at m b) |b. b \<in> set (as @ [a]) \<and> is_stale_forward profileID sessionID (forward_at m b) \<and> af_localID (forward_at m b) \<noteq> ''''} =
      {af_localID (forward_at m b) |b. b \<in> set as \<and> is_stale_forward profileID sessionID (forward_at m b) \<and> af_localID (forward_at m b) \<noteq> ''''} \<union>
      {x. x = af_localID (forward_at m a) \<and> is_stale_forward profileID sessionID (forward_at m a) \<and> x \<noteq> ''''}"
    by auto
  ultimately show ?case using stop_listener_result(1,3) [of r "n as" e "af_localID (forward_at m a)"] snoc
    unfolding s by (simp add: stop_stale_def Diff_Un Int_Diff Diff_Int_distrib2) blast
qed

lemma keeps_dropStaleForwards: "keeps (dropStaleForwards e profileID sessionID)"
  unfolding dropStaleForwards_def
proof (rule keeps_atomic)
  fix m assume m: "forwards_ok m"
  have c: "forwards_core None m" "live_listeners m = owned m" using m by (simp_all add: forwards_ok_def)
  let ?stale = "\<lambda>a. is_stale_forward profileID sessionID (forward_at m a)"
  let ?n = "foldl (\<lambda>m a. stop_stale e profileID sessionID a m) m (map snd (pm_active m))"
  let ?n' = "?n \<lparr> pm_active := filter (\<lambda>(i, a). \<not> ?stale a) (pm_active m) \<rparr>"
  note n = stop_all_stale [OF c(1), of e profileID sessionID "map snd (pm_active m)"]
  have d: "distinct (map fst (pm_active m))" using c(1) by (simp add: forwards_core_def)
  have kept: "forward_of ?n' i = Some a \<longleftrightarrow> forward_of m i = Some a \<and> \<not> ?stale a" for i a
    using forward_of_filter [OF d, of "\<lambda>(i, a). \<not> ?stale a" i] by (auto split: option.splits if_splits)
  have at: "forward_at ?n' a = forward_at m a" for a using n by simp
  have "listeners_ok (pm_locals ?n')" using n by (simp add: forwards_core_def)
  moreover have "distinct (map fst (pm_active ?n'))" using d by (simp add: distinct_map_filter)
  moreover have "\<forall>i a. forward_of ?n' i = Some a \<longrightarrow> a < length (pm_heap ?n') \<and> entry_ok None i a (forward_at ?n' a)"
    using coreD(1,2) [OF c(1)] n unfolding kept at by auto
  moreover have "\<forall>i j a b. forward_of ?n' i = Some a \<longrightarrow> forward_of ?n' j = Some b \<longrightarrow>
      af_localID (forward_at ?n' a) = af_localID (forward_at ?n' b) \<longrightarrow> af_localID (forward_at ?n' a) \<noteq> '''' \<longrightarrow> i = j"
    using core_owner [OF c(1)] unfolding kept at by blast
  ultimately have "forwards_core None ?n'" unfolding forwards_core_def by blast
  moreover have "live_listeners ?n' = owned ?n'"
  proof -
    have range: "a \<in> set (map snd (pm_active m)) \<longleftrightarrow> (\<exists>i. forward_of m i = Some a)" for a
      using d by (force simp: map_of_eq_Some_iff)
    have "owned ?n' = {x. x \<noteq> '''' \<and> (\<exists>i a. forward_of m i = Some a \<and> \<not> ?stale a \<and> af_localID (forward_at m a) = x)}"
      unfolding owned_def kept at by blast
    also have "\<dots> = owned m - {af_localID (forward_at m a) |a. (\<exists>i. forward_of m i = Some a) \<and> ?stale a \<and> af_localID (forward_at m a) \<noteq> ''''}"
      (is "?l = ?r")
    proof (intro set_eqI iffI)
      fix x assume "x \<in> ?l"
      then obtain i a where x: "x \<noteq> ''''" "forward_of m i = Some a" "\<not> ?stale a" "af_localID (forward_at m a) = x" by blast
      have "a = b" if "forward_of m j = Some b" "x = af_localID (forward_at m b)" for j b
        using core_owner [OF c(1) x(2) that(1)] x that by auto
      then show "x \<in> ?r" using x unfolding owned_def by blast
    next
      fix x assume "x \<in> ?r"
      then show "x \<in> ?l" unfolding owned_def by blast
    qed
    finally show ?thesis using n c(2) unfolding range by simp
  qed
  ultimately show "forwards_ok (snd ((), ?n')) \<and> locks (snd ((), ?n')) = locks m" using n by (simp add: forwards_ok_def)
qed

lemma keeps_startLocalForward:
  assumes "forwards_ok m" "forward_of m i = Some a" "af_localID (forward_at m a) = ''''"
  shows "\<exists>result m'. alone (startLocalForward e a task compensate) m = Some (result, m') \<and> forwards_ok m' \<and> locks m' = locks m \<and>
    pm_active m' = pm_active m \<and> (snd result \<noteq> [] \<longrightarrow> pm_heap m' = pm_heap m)"
  using startLocalForward_alone [of None m a i e task compensate] assms
  by (fastforce simp: forwards_ok_def started_or_same_def split: if_splits)

lemma find_restored_alone:
  assumes m: "forwards_ok m"
  obtains found m' where "alone (find_restored profile session task) m = Some (found, m')" "locks m' = locks m"
    "case found of
       StopIt a localID \<Rightarrow> forwards_core None m' \<and> live_listeners m' = owned m' \<union> {localID} \<and> localID \<notin> owned m'
     | LeaveIt \<Rightarrow> forwards_ok m'
     | StartIt a \<Rightarrow> forwards_ok m' \<and> forward_of m' (pt_ID task) = Some a \<and> af_localID (forward_at m' a) = ''''
     | NewEntry a \<Rightarrow> forwards_ok m' \<and> forward_of m' (pt_ID task) = Some a \<and> af_localID (forward_at m' a) = ''''"
proof -
  have c: "forwards_core None m" "live_listeners m = owned m" using m by (simp_all add: forwards_ok_def)
  have e0: "'''' \<notin> owned m" by (simp add: owned_def)
  show thesis
  proof (cases "forward_of m (pt_ID task)")
    case None
    let ?x = "restored_entry profile session task"
    let ?n = "m \<lparr> pm_active := AList.update (pt_ID task) (length (pm_heap m)) (pm_active m), pm_heap := pm_heap m @ [?x] \<rparr>"
    have x: "entry_ok None (pt_ID task) (length (pm_heap m)) ?x" "af_localID ?x = '''' \<or> af_localID ?x \<notin> owned m"
      by (simp_all add: entry_ok_def restored_entry_def forward_state_def)
    have ok: "forwards_ok ?n" using core_append [OF c(1) None x] c(2) by (simp add: forwards_ok_def restored_entry_def)
    show thesis
    proof (rule that)
      show "alone (find_restored profile session task) m = Some (NewEntry (length (pm_heap m)), ?n)" by (simp add: find_restored_def None)
    qed (use ok in \<open>simp_all add: restored_entry_def\<close>)
  next
    case (Some a)
    let ?f = "\<lambda>x. x \<lparr> af_profile := profile, af_session := session, af_task := task \<rparr>"
    let ?g = "\<lambda>x. set_state forwardPaused (x \<lparr> af_localID := '''' \<rparr>)"
    let ?m = "alter a ?f m" and ?x = "af_localID (forward_at m a)"
    have l: "a < length (pm_heap m)" by (rule coreD [OF c(1) Some])
    have k: "entry_ok None (pt_ID task) a (?f (forward_at m a))" using coreD(2) [OF c(1) Some] by (auto simp: entry_ok_def forward_state_def)
    have "owned m - {?x} \<union> ({?x} - {''''}) = owned m" using e0 Some by (auto simp: owned_def)
    then have f: "forwards_core None ?m" "owned ?m = owned m" using core_alter [where f = ?f, OF c(1) Some k] by simp_all
    have ok: "forwards_ok ?m" using f c(2) by (simp add: forwards_ok_def)
    have some: "forward_of ?m (pt_ID task) = Some a" by (simp add: Some)
    have k': "entry_ok None (pt_ID task) a (?g (forward_at ?m a))" using coreD(2) [OF f(1) some] by (simp add: entry_ok_def set_state_def forward_state_def)
    have g: "forwards_core None (alter a ?g ?m)" "owned (alter a ?g ?m) = owned m - {?x}"
      using core_alter [where f = ?g, OF f(1) some k'] f(2) l by simp_all
    consider (a) "pt_State task = Running" "?x = ''''" | (b) "pt_State task \<noteq> Running" "?x \<noteq> ''''" |
      (c) "\<not> (pt_State task = Running \<and> ?x = '''')" "\<not> (pt_State task \<noteq> Running \<and> ?x \<noteq> '''')" by blast
    then show thesis
    proof cases
      case a
      have "alone (find_restored profile session task) m = Some (StartIt a, ?m)" using a by (simp add: find_restored_def Some Let_def)
      from that [OF this] ok a some l show thesis by simp
    next
      case b
      have own: "?x \<in> owned m" using b Some by (auto simp: owned_def)
      have run: "alone (find_restored profile session task) m = Some (StopIt a ?x, alter a ?g ?m)" using b by (simp add: find_restored_def Some Let_def)
      show thesis by (rule that [OF run]) (use g c(2) own in auto)
    next
      case c
      have "alone (find_restored profile session task) m = Some (LeaveIt, ?m)" using c by (auto simp: find_restored_def Some Let_def)
      from that [OF this] ok show thesis by simp
    qed
  qed
qed

lemma keeps_restoreForward: "keeps (restoreForward e profile session task)"
  unfolding keeps_def
proof (intro allI impI)
  fix m assume m: "forwards_ok m"
  show "\<exists>x m'. alone (restoreForward e profile session task) m = Some (x, m') \<and> forwards_ok m' \<and> locks m' = locks m"
  proof (cases "reconcilable (pt_State task)")
    case False
    then show ?thesis using m by (simp add: restoreForward_def)
  next
    case True
    obtain found n where f: "alone (find_restored profile session task) m = Some (found, n)" "locks n = locks m"
      "case found of
         StopIt a localID \<Rightarrow> forwards_core None n \<and> live_listeners n = owned n \<union> {localID} \<and> localID \<notin> owned n
       | LeaveIt \<Rightarrow> forwards_ok n
       | StartIt a \<Rightarrow> forwards_ok n \<and> forward_of n (pt_ID task) = Some a \<and> af_localID (forward_at n a) = ''''
       | NewEntry a \<Rightarrow> forwards_ok n \<and> forward_of n (pt_ID task) = Some a \<and> af_localID (forward_at n a) = ''''"
      by (rule find_restored_alone [OF m])
    show ?thesis
    proof (cases found)
      case (StartIt a)
      then obtain result m' where "alone (startLocalForward e a task False) n = Some (result, m')" "forwards_ok m'" "locks m' = locks n"
        using keeps_startLocalForward [of n "pt_ID task" a e task False] f(3) by auto
      then show ?thesis using True f StartIt by (simp add: restoreForward_def case_prod_unfold)
    next
      case (StopIt a localID)
      then have ok: "forwards_ok (snd (stop_listener e localID n))"
        using stop_listener_result [of None n e localID] f(3) by (auto simp: forwards_ok_def)
      have "alone (restoreForward e profile session task) m = Some (stop_listener e localID n)"
        using True f(1) StopIt by (simp add: restoreForward_def local_stop_def)
      then show ?thesis using ok f(2) by (metis locks_simps(8) prod.collapse)
    next
      case LeaveIt
      then show ?thesis using True f by (simp add: restoreForward_def)
    next
      case (NewEntry a)
      then have n: "forwards_ok n" "forward_of n (pt_ID task) = Some a" "af_localID (forward_at n a) = ''''" using f(3) by simp_all
      obtain result m' where s: "alone (startLocalForward e a task False) n = Some (result, m')" "forwards_ok m'" "locks m' = locks n"
        "pm_active m' = pm_active n" "snd result \<noteq> [] \<longrightarrow> pm_heap m' = pm_heap n"
        using keeps_startLocalForward [OF n, of e task False] by blast
      have "forwards_ok (m' \<lparr> pm_active := AList.delete (pt_ID task) (pm_active m') \<rparr>)" if "snd result \<noteq> []"
        by (rule drop_forward_ok [OF s(2)]) (use s n that in simp)
      then show ?thesis using True f(1,2) NewEntry n s by (auto simp: restoreForward_def case_prod_unfold)
    qed
  qed
qed

lemma keeps_RestoreForwards: "keeps (RestoreForwards e profile session)"
proof -
  have "keeps (restoreForwards e profile session tasks)" for tasks
    by (induction tasks) (auto intro!: keeps_andThen keeps_restoreForward)
  then show ?thesis unfolding RestoreForwards_def
    by (auto intro!: keeps_andThen keeps_dropStaleForwards split: prod.splits)
qed

lemma keeps_ListForwards: "keeps (ListForwards profileID)"
  by (simp add: keeps_def ListForwards_def)

section \<open>What the manager promises\<close>

text \<open>The operations of the manager, their results left out.\<close>

definition forget :: "'a forward_prog \<Rightarrow> unit forward_prog" where
  "forget p = andThen p (\<lambda>_. Return ())"

inductive forward_ops :: "forward_env \<Rightarrow> unit forward_prog \<Rightarrow> bool" for e where
  "forward_ops e (forget (StartForward e has_ctx profile session request))"
| "forward_ops e (forget (PauseForward e has_ctx profileID taskID))"
| "forward_ops e (forget (ResumeForward e has_ctx profileID taskID))"
| "forward_ops e (forget (DeleteForward e has_ctx profileID taskID))"
| "forward_ops e (forget (StopForward e has_ctx profileID taskID))"
| "forward_ops e (forget (StopProfileForwards e has_ctx profileID))"
| "forward_ops e (forget (PauseProfileForwards e has_ctx profileID))"
| "forward_ops e (forget (ReleaseProfileForwards e has_ctx profileID))"
| "forward_ops e (forget (ShutdownForwards e has_ctx))"
| "forward_ops e (forget (ListForwards profileID))"
| "forward_ops e (forget (RestoreForwards e profile session))"

lemma keeps_unlocked_forget: "keeps_unlocked p \<Longrightarrow> keeps_unlocked (forget p)"
  unfolding keeps_unlocked_def forget_def by fastforce

lemma keeps_unlocked_ops: "forward_ops e p \<Longrightarrow> keeps_unlocked p"
proof (induction rule: forward_ops.induct)
  case (6 has_ctx profileID)
  show ?case using keeps_profile_wide keeps_StopForward
    by (cases has_ctx) (auto intro!: keeps_unlocked_forget simp: StopProfileForwards_def keeps_keeps_unlocked)
next
  case (7 has_ctx profileID)
  show ?case using keeps_profile_wide keeps_PauseForward
    by (cases has_ctx) (auto intro!: keeps_unlocked_forget simp: PauseProfileForwards_def keeps_keeps_unlocked)
next
  case (8 has_ctx profileID)
  show ?case using keeps_profile_wide keeps_releaseLocal
    by (cases has_ctx) (auto intro!: keeps_unlocked_forget simp: ReleaseProfileForwards_def keeps_keeps_unlocked)
qed (auto intro!: keeps_unlocked_forget keeps_StartForward keeps_ShutdownForwards
  intro: keeps_keeps_unlocked keeps_PauseForward keeps_ResumeForward keeps_DeleteForward keeps_StopForward keeps_ListForwards keeps_RestoreForwards)

text \<open>Operations that are called one after the other.\<close>

primrec one_by_one :: "('m, 'a) prog list \<Rightarrow> 'm \<Rightarrow> 'm option" where
  "one_by_one [] m = Some m"
| "one_by_one (p # ps) m = (case alone p m of None \<Rightarrow> None | Some (_, m') \<Rightarrow> one_by_one ps m')"

lemma one_by_one_ok:
  "\<forall>p\<in>set ps. forward_ops e p \<Longrightarrow> forwards_ok m \<Longrightarrow> locks m = (0, False) \<Longrightarrow>
    \<exists>m'. one_by_one ps m = Some m' \<and> forwards_ok m' \<and> locks m' = (0, False)"
proof (induction ps arbitrary: m)
  case (Cons p ps)
  then obtain x m1 where "alone p m = Some (x, m1)" "forwards_ok m1" "locks m1 = (0, False)"
    using keeps_unlocked_ops [of e p] unfolding keeps_unlocked_def by fastforce
  then show ?case using Cons by auto
qed simp

text \<open>C22. port forward operations that do not overlap all return, whatever the Gateway, the dialer and the sockets answer,
  and leave the listeners that hold a socket equal to those that the entries of the map name, an entry being active
  exactly when it names one, and no listener having two entries.\<close>
theorem forwards_hold_their_listeners:
  assumes "new_forwards True True = Inr m0" "\<forall>p\<in>set ps. forward_ops e p"
  shows "\<exists>m. one_by_one ps m0 = Some m \<and> forwards_ok m"
proof -
  have "forwards_ok m0" "locks m0 = (0, False)" using assms(1)
    by (auto simp: new_forwards_def forwards_ok_def forwards_core_def live_listeners_def owned_def locks_def)
      (auto simp: no_listeners_def)
  then show ?thesis using one_by_one_ok [OF assms(2)] by blast
qed


text \<open>A restore reads the list of tasks and writes nothing to the Gateway.\<close>

definition lists_only :: "forwards \<Rightarrow> forwards \<Rightarrow> bool" where
  "lists_only m m' \<longleftrightarrow> pm_events m' = pm_events m \<or> pm_events m' = pm_events m @ [ForwardList]"

lemma lists_onlyI: "pm_events m' = pm_events m \<Longrightarrow> lists_only m m'"
  by (simp add: lists_only_def)

lemma obeys_lists_startLocalForward: "obeys lists_only (startLocalForward e a task False)"
  unfolding startLocalForward_def get_dialer_def local_start_def adopt_listener_def local_stop_def if_True not_False_eq_True
  by (auto intro!: obeys_andThen obeys_atomic lists_onlyI simp del: andThen_atomic simp: Let_def split: sum.splits option.splits prod.splits)

lemma obeys_lists_restoreForward: "obeys lists_only (restoreForward e profile session task)"
  unfolding restoreForward_def find_restored_def local_stop_def
  by (auto intro!: obeys_andThen obeys_atomic obeys_lists_startLocalForward lists_onlyI simp del: andThen_atomic simp: Let_def
      split: found.splits option.splits prod.splits)

lemma stop_stale_events [simp]: "pm_events (stop_stale e profileID sessionID a m) = pm_events m"
  by (simp add: stop_stale_def)

lemma stop_all_events [simp]: "pm_events (foldl (\<lambda>m a. stop_stale e profileID sessionID a m) m as) = pm_events m"
  by (induction as arbitrary: m) simp_all

lemma obeys_quiet_ReleaseProfileForwards: "obeys (\<lambda>m m'. pm_events m' = pm_events m) (ReleaseProfileForwards e has_ctx profileID)"
  unfolding ReleaseProfileForwards_def profile_wide_def forwardsLock_def forwardsUnlock_def activeIDs_def releaseLocal_def find_active_def
    local_stop_def mark_paused_def
  by (auto intro!: obeys_andThen obeys_atomic obeys_await obeys_forEach simp del: andThen_atomic andThen_await simp: alter_def
      split: option.splits if_splits)

text \<open>Whatever other operations do between its steps, a restore of port forwards pauses, resumes, creates and deletes
  nothing at the Gateway: each of its steps leaves the calls made so far as they are, or lists the tasks. Releasing a
  profile's listeners calls the Gateway not at all.\<close>
theorem forward_restore_only_lists:
  "obeys lists_only (RestoreForwards e profile session) \<and>
   obeys (\<lambda>m m'. pm_events m' = pm_events m) (ReleaseProfileForwards e has_ctx profileID)"
proof (rule conjI [OF _ obeys_quiet_ReleaseProfileForwards])
  have "obeys lists_only (restoreForwards e profile session tasks)" for tasks
    by (induction tasks) (auto intro!: obeys_andThen obeys_lists_restoreForward)
  then show "obeys lists_only (RestoreForwards e profile session)" unfolding RestoreForwards_def dropStaleForwards_def ask_gateway_def
    by (auto intro!: obeys_andThen obeys_atomic simp del: andThen_atomic simp: lists_only_def split: prod.splits)
qed

section \<open>Restores that overlap\<close>

definition run_forwards :: "nat list \<Rightarrow> errs forward_prog list \<times> forwards \<Rightarrow> (errs forward_prog list \<times> forwards) option" where
  "run_forwards = run_schedule (\<lambda>_. []) id (\<lambda>_. False)"

lemma run_append:
  "run_schedule forked collected halted (is @ js) s =
    (case run_schedule forked collected halted is s of None \<Rightarrow> None | Some s' \<Rightarrow> run_schedule forked collected halted js s')"
  by (induction "is" arbitrary: s) (auto split: option.splits)

text \<open>A thread that is left to itself.\<close>

lemma run_alone:
  "alone p m = Some (x, m') \<Longrightarrow> i < length ps \<Longrightarrow> ps ! i = p \<Longrightarrow> \<exists>is. run_forwards is (ps, m) = Some (ps[i := Return x], m')"
proof (induction p arbitrary: m ps rule: prog_induct)
  case (Return y)
  then show ?case using list_update_id [of ps i] by (intro exI [of _ "[]"]) (simp add: run_forwards_def)
next
  case (Step g)
  obtain p1 m1 where g: "g m = Some (p1, m1)" "alone p1 m1 = Some (x, m')" using Step.prems(1) by (cases "g m") auto
  obtain "is" where "run_forwards is (ps[i := p1], m1) = Some (ps[i := p1, i := Return x], m')"
    using Step.IH [OF g(1) g(2), of "ps[i := p1]"] Step.prems(2) by auto
  then show ?case using Step.prems(2,3) g(1) by (intro exI [of _ "i # is"]) (simp add: run_forwards_def schedule_def)
qed

lemma run_then: "run_forwards is s = Some s' \<Longrightarrow> \<exists>js. run_forwards js s' = Some s'' \<Longrightarrow> \<exists>js. run_forwards js s = Some s''"
  by (metis run_forwards_def run_append option.simps(5))

text \<open>The Gateway lists one running task that asked for any local port, and everything succeeds.\<close>

definition one_free_forward :: "forward_env \<Rightarrow> Profile \<Rightarrow> RemoteSession \<Rightarrow> PortForwardTask \<Rightarrow> bool" where
  "one_free_forward e profile session task \<longleftrightarrow> fe_canList e \<and> fe_canPause e \<and> pt_State task = Running \<and> pt_LocalPort task = 0 \<and>
     (\<forall>n. fe_dialer e n = (True, []) \<and> fe_list e n = ([task], []) \<and> fe_pause e n = [] \<and> fe_close e n = None \<and>
       (\<forall>ls. \<not> isl (fst (StartResolved (fe_lower e) True (fe_listen e n) (listenRequest profile session task 0) (pt_DialAddress task) ls))))"

lemma StartResolved_next:
  assumes "\<not> isl (fst (StartResolved ul d listen request target ls))"
  obtains info where "StartResolved ul d listen request target ls =
    (Inr info, \<lparr> ls_nextID = Suc (ls_nextID ls), ls_active = AList.update (''pf-'' @ FormatUint (Suc (ls_nextID ls))) info (ls_active ls) \<rparr>)"
    "li_ID info = ''pf-'' @ FormatUint (Suc (ls_nextID ls))"
proof -
  obtain r ls' where s: "StartResolved ul d listen request target ls = (r, ls')" by fastforce
  show thesis by (rule StartResolved_cases [OF s]) (use assms s that in auto)
qed

text \<open>What is left of a restore that has found the task to start.\<close>

definition starting :: "forward_env \<Rightarrow> Profile \<Rightarrow> RemoteSession \<Rightarrow> PortForwardTask \<Rightarrow> errs forward_prog" where
  "starting e profile session task =
     andThen (startLocalForward e 0 task False) (\<lambda>(_, err). if err \<noteq> [] then Return err else restoreForwards e profile session [])"

definition given_forward :: "Profile \<Rightarrow> RemoteSession \<Rightarrow> PortForwardTask \<Rightarrow> ListenInfo \<Rightarrow> activeForward" where
  "given_forward profile session task info = (restored_entry profile session task)
     \<lparr> af_localID := li_ID info, af_info := (af_info (restored_entry profile session task))
        \<lparr> fi_State := forwardActive, fi_Address := li_Address info, fi_LocalPort := li_LocalPort info, fi_DialAddress := pt_DialAddress task \<rparr> \<rparr>"

lemma first_restore:
  assumes "one_free_forward e profile session task" "pm_active m = []" "pm_heap m = []"
  shows "alone (RestoreForwards e profile session) m = Some ([], m \<lparr> pm_active := [(pt_ID task, 0)], pm_heap := [restored_entry profile session task],
    pm_calls := Suc (pm_calls m), pm_events := pm_events m @ [ForwardList] \<rparr>)"
  using assms by (simp add: one_free_forward_def RestoreForwards_def ask_gateway_def dropStaleForwards_def restoreForward_def find_restored_def reconcilable_def)

lemma restore_finds:
  assumes "one_free_forward e profile session task" "pm_active m = [(pt_ID task, 0)]" "pm_heap m = [restored_entry profile session task]"
    "i < length ps" "ps ! i = RestoreForwards e profile session"
  shows "run_forwards [i, i, i] (ps, m) =
    Some (ps[i := starting e profile session task], m \<lparr> pm_calls := Suc (pm_calls m), pm_events := pm_events m @ [ForwardList] \<rparr>)"
  using assms by (simp add: run_forwards_def schedule_def one_free_forward_def RestoreForwards_def ask_gateway_def dropStaleForwards_def restoreForward_def
      find_restored_def reconcilable_def atomic_def starting_def is_stale_forward_def stop_stale_def alter_def Let_def restored_entry_def
      case_prod_unfold)

lemma one_free_starts:
  assumes "one_free_forward e profile session task"
  shows "\<exists>info. StartResolved (fe_lower e) True (fe_listen e n) (listenRequest profile session task 0) (pt_DialAddress task) ls =
    (Inr info, \<lparr> ls_nextID = Suc (ls_nextID ls), ls_active = AList.update (''pf-'' @ FormatUint (Suc (ls_nextID ls))) info (ls_active ls) \<rparr>) \<and>
    li_ID info = ''pf-'' @ FormatUint (Suc (ls_nextID ls))"
proof -
  have "\<not> isl (fst (StartResolved (fe_lower e) True (fe_listen e n) (listenRequest profile session task 0) (pt_DialAddress task) ls))"
    using assms unfolding one_free_forward_def by blast
  then show ?thesis by (rule StartResolved_next) blast
qed

lemma both_start:
  assumes e: "one_free_forward e profile session task" and m: "pm_active m = [(pt_ID task, 0)]" "pm_heap m = [restored_entry profile session task]"
    "pm_locals m = no_listeners"
  shows "\<exists>info info'. li_ID info' = ''pf-'' @ FormatUint 2 \<and>
    run_forwards [1, 1, 2, 2, 1, 2] ([x, starting e profile session task, starting e profile session task, y], m) =
      Some ([x, Return [], Return [], y], m \<lparr> pm_heap := [given_forward profile session task info'], pm_calls := pm_calls m + 4,
        pm_locals := \<lparr> ls_nextID = 2, ls_active = [(''pf-'' @ FormatUint 1, info), (''pf-'' @ FormatUint 2, info')] \<rparr> \<rparr>)"
proof -
  let ?start = "\<lambda>n. StartResolved (fe_lower e) True (fe_listen e n) (listenRequest profile session task 0) (pt_DialAddress task)"
  let ?n = "pm_calls m"
  obtain info ls1 where s1: "?start (Suc ?n) no_listeners = (Inr info, ls1)"
    "ls1 = \<lparr> ls_nextID = 1, ls_active = [(''pf-'' @ FormatUint 1, info)] \<rparr>"
    using one_free_starts [OF e, of "Suc ?n" no_listeners] by (auto simp: no_listeners_def)
  obtain info' ls2 where s2: "?start (Suc (Suc (Suc ?n))) ls1 = (Inr info', ls2)" "li_ID info' = ''pf-'' @ FormatUint 2"
    "ls2 = \<lparr> ls_nextID = 2, ls_active = [(''pf-'' @ FormatUint 1, info), (''pf-'' @ FormatUint 2, info')] \<rparr>"
    using one_free_starts [OF e, of "Suc (Suc (Suc ?n))" ls1] by (auto simp: s1(2) numeral_2_eq_2)
  have d: "fe_dialer e k = (True, [])" and p: "pt_LocalPort task = 0" for k using e by (simp_all add: one_free_forward_def)
  have "run_forwards [1, 1, 2, 2, 1, 2] ([x, starting e profile session task, starting e profile session task, y], m) =
      Some ([x, Return [], Return [], y], m \<lparr> pm_heap := [given_forward profile session task info'], pm_calls := pm_calls m + 4, pm_locals := ls2 \<rparr>)"
    by (simp add: s1(1) s2(1) d p m run_forwards_def schedule_def starting_def startLocalForward_def get_dialer_def local_start_def adopt_listener_def
        atomic_def alter_def Let_def restored_entry_def given_forward_def case_prod_unfold numeral_2_eq_2)
  then show ?thesis using s2(2,3) by blast
qed

lemma shutdown_stops_one:
  assumes e: "one_free_forward e profile session task" and m: "pm_active m = [(pt_ID task, 0)]" "pm_heap m = [given_forward profile session task info]"
    "ls_active (pm_locals m) = [(localID, info'), (li_ID info, info)]" "localID \<noteq> li_ID info" "locks m = (0, False)"
  shows "\<exists>m'. alone (ShutdownForwards e True) m = Some ([], m') \<and> pm_active m' = [] \<and> live_listeners m' = {localID}"
proof -
  have c: "fe_close e k = None" "fe_pause e k = []" "fe_canPause e" for k using e by (simp_all add: one_free_forward_def)
  have s: "SortFunc compareStrings [i] = [i]" for i by simp
  have a: "is_active (given_forward profile session task info)" "af_profile (given_forward profile session task info) = profile"
    "af_localID (given_forward profile session task info) = li_ID info"
    by (simp_all add: is_active_def forward_state_def given_forward_def restored_entry_def)
  show ?thesis using m(4,5)
    by (simp add: m(1-3) c a s ShutdownForwards_def forwardsLock_alone forwardsUnlock_def shutdown_round_def StopForward_def PauseForward_def
        find_active_def pausePortForward_def local_stop_def stop_listener_def mark_paused_def drop_forward_def StopListener_def ask_gateway_def
        alter_def live_listeners_def)
qed

text \<open>C24. two restores that overlap may both find a running port forward without a listener and start one each: the entry
  keeps the second, and both return no error. A shutdown that then completes without an error empties the map and stops
  the second; the first one goes on listening, and nothing refers to it any more.\<close>
theorem overlapping_restores_leave_a_listener:
  assumes "one_free_forward e profile session task" "new_forwards True True = Inr m0"
  shows "\<exists>is m. run_forwards is ([RestoreForwards e profile session, RestoreForwards e profile session, RestoreForwards e profile session,
      ShutdownForwards e True], m0) = Some ([Return [], Return [], Return [], Return []], m) \<and>
    pm_active m = [] \<and> live_listeners m = {''pf-1''}"
proof -
  let ?r = "RestoreForwards e profile session" and ?s = "ShutdownForwards e True" and ?t = "starting e profile session task"
  have m0: "pm_active m0 = []" "pm_heap m0 = []" "pm_locals m0 = no_listeners" "locks m0 = (0, False)"
    using assms(2) by (auto simp: new_forwards_def locks_def)
  let ?m1 = "m0 \<lparr> pm_active := [(pt_ID task, 0)], pm_heap := [restored_entry profile session task],
    pm_calls := Suc (pm_calls m0), pm_events := pm_events m0 @ [ForwardList] \<rparr>"
  obtain is1 where is1: "run_forwards is1 ([?r, ?r, ?r, ?s], m0) = Some ([Return [], ?r, ?r, ?s], ?m1)"
    using run_alone [OF first_restore [OF assms(1) m0(1,2)], of 0 "[?r, ?r, ?r, ?s]"] by auto
  let ?m2 = "?m1 \<lparr> pm_calls := Suc (pm_calls ?m1), pm_events := pm_events ?m1 @ [ForwardList] \<rparr>"
  let ?m3 = "?m2 \<lparr> pm_calls := Suc (pm_calls ?m2), pm_events := pm_events ?m2 @ [ForwardList] \<rparr>"
  have f1: "run_forwards [1, 1, 1] ([Return [], ?r, ?r, ?s], ?m1) = Some ([Return [], ?t, ?r, ?s], ?m2)"
    using restore_finds [OF assms(1), of ?m1 1 "[Return [], ?r, ?r, ?s]"] by simp
  have f2: "run_forwards [2, 2, 2] ([Return [], ?t, ?r, ?s], ?m2) = Some ([Return [], ?t, ?t, ?s], ?m3)"
    using restore_finds [OF assms(1), of ?m2 2 "[Return [], ?t, ?r, ?s]"] by simp
  obtain info info' m4 where g: "li_ID info' = ''pf-'' @ FormatUint 2"
    "run_forwards [1, 1, 2, 2, 1, 2] ([Return [], ?t, ?t, ?s], ?m3) = Some ([Return [], Return [], Return [], ?s], m4)"
    "m4 = ?m3 \<lparr> pm_heap := [given_forward profile session task info'], pm_calls := pm_calls ?m3 + 4,
        pm_locals := \<lparr> ls_nextID = 2, ls_active = [(''pf-'' @ FormatUint 1, info), (''pf-'' @ FormatUint 2, info')] \<rparr> \<rparr>"
    using both_start [OF assms(1), of ?m3 "Return []" ?s] m0(3) by auto
  have m4: "pm_active m4 = [(pt_ID task, 0)]" "pm_heap m4 = [given_forward profile session task info']"
    "ls_active (pm_locals m4) = [(''pf-'' @ FormatUint 1, info), (li_ID info', info')]" "''pf-'' @ FormatUint 1 \<noteq> li_ID info'" "locks m4 = (0, False)"
    using g(1,3) m0(4) by (simp_all add: locks_def)
  obtain m where m: "alone ?s m4 = Some ([], m)" "pm_active m = []" "live_listeners m = {''pf-'' @ FormatUint 1}"
    using shutdown_stops_one [OF assms(1) m4] by auto
  obtain is2 where is2: "run_forwards is2 ([Return [], Return [], Return [], ?s], m4) = Some ([Return [], Return [], Return [], Return []], m)"
    using run_alone [OF m(1), of 3 "[Return [], Return [], Return [], ?s]"] by (auto simp: numeral_3_eq_3)
  have "FormatUint 1 = ''1''" by code_simp
  then have "live_listeners m = {''pf-1''}" using m(3) by simp
  moreover have "\<exists>is. run_forwards is ([?r, ?r, ?r, ?s], m0) = Some ([Return [], Return [], Return [], Return []], m)"
    using run_then [OF is1 run_then [OF f1 run_then [OF f2 run_then [OF g(2)]]]] is2 by blast
  ultimately show ?thesis using m(2) by blast
qed

section \<open>At concrete inputs\<close>

definition forward_profile :: Profile where "forward_profile = \<lparr> pf_ID = ''dev'', pf_Rest = 0 \<rparr>"
definition forward_session :: RemoteSession where
  "forward_session = \<lparr> rs_ID = ''s1'', rs_Namespace = ''default'', rs_State = ''active'', rs_Rest = 0 \<rparr>"

definition sample_forward :: PortForwardTask where
  "sample_forward = \<lparr> pt_ID = ''f1'', pt_State = Running, pt_Kind = ''service'', pt_TaskName = ''web'', pt_TaskProtocol = ''tcp'',
     pt_RemotePort = 80, pt_LocalPort = 0, pt_DialAddress = ''10.96.0.7:80'' \<rparr>"

definition sample_forward_env :: forward_env where
  "sample_forward_env = \<lparr> fe_lower = id, fe_canPause = True, fe_canResume = True, fe_canDelete = True, fe_canList = True,
     fe_dialer = (\<lambda>_. (True, [])), fe_create = (\<lambda>_. (sample_forward, [])), fe_stop = (\<lambda>_. []), fe_pause = (\<lambda>_. []),
     fe_resume = (\<lambda>_. (sample_forward, [])), fe_delete = (\<lambda>_. []), fe_list = (\<lambda>_. ([sample_forward], [])),
     fe_listen = (\<lambda>_ _ _. Inr ''127.0.0.1:9000''), fe_close = (\<lambda>_. None), fe_order = (\<lambda>_ es. es) \<rparr>"

definition empty_forwards :: forwards where
  "empty_forwards = (case new_forwards True True of Inr m \<Rightarrow> m)"

lemma new_empty_forwards: "new_forwards True True = Inr empty_forwards"
  by (simp add: empty_forwards_def new_forwards_def)

lemma sample_split: "SplitHostPort (TrimSpace ''10.96.0.7:80'') = Some (''10.96.0.7'', ''80'')" "localPortFromAddress ''127.0.0.1:9000'' = Inr 9000"
  "ToLower id (TrimSpace ''service'') = ''service''" "ToLower id (TrimSpace ''tcp'') = ''tcp''"
  by (simp_all add: text_eval SplitHostPort_def last_index_of_def localPortFromAddress_def ParseUint16_def is_digit_def digits_value_def
      ToLower_def lower_char_def is_ascii_def)

lemma sample_starts:
  "StartResolved id True (\<lambda>_ _. Inr ''127.0.0.1:9000'') (listenRequest forward_profile forward_session sample_forward port) ''10.96.0.7:80'' ls =
    (Inr \<lparr> li_ID = ''pf-'' @ FormatUint (Suc (ls_nextID ls)), li_Context = ''dev'', li_Namespace = ''default'', li_Kind = ''service'',
       li_Name = ''web'', li_Protocol = ''tcp'', li_RemotePort = 80, li_LocalPort = 9000, li_Address = ''127.0.0.1:9000'' \<rparr>,
     \<lparr> ls_nextID = Suc (ls_nextID ls), ls_active = AList.update (''pf-'' @ FormatUint (Suc (ls_nextID ls)))
       \<lparr> li_ID = ''pf-'' @ FormatUint (Suc (ls_nextID ls)), li_Context = ''dev'', li_Namespace = ''default'', li_Kind = ''service'',
       li_Name = ''web'', li_Protocol = ''tcp'', li_RemotePort = 80, li_LocalPort = 9000, li_Address = ''127.0.0.1:9000'' \<rparr> (ls_active ls) \<rparr>)"
  by (simp add: StartResolved_def startRouted_def listenRequest_def sample_split sample_forward_def forward_profile_def forward_session_def Let_def
      del: append.simps)

lemma sample_one_free: "one_free_forward sample_forward_env forward_profile forward_session sample_forward"
proof -
  have "pt_DialAddress sample_forward = ''10.96.0.7:80''" by (simp add: sample_forward_def)
  then show ?thesis by (simp add: one_free_forward_def sample_forward_env_def sample_starts)
    (simp add: sample_forward_def)
qed

lemma overlapping_restores_leave_a_listener_witness:
  "\<exists>is m. run_forwards is ([RestoreForwards sample_forward_env forward_profile forward_session, RestoreForwards sample_forward_env forward_profile forward_session,
      RestoreForwards sample_forward_env forward_profile forward_session, ShutdownForwards sample_forward_env True], empty_forwards) =
        Some ([Return [], Return [], Return [], Return []], m) \<and>
     pm_active m = [] \<and> live_listeners m = {''pf-1''}"
  by (rule overlapping_restores_leave_a_listener [OF sample_one_free new_empty_forwards])

definition sample_forward_request :: ForwardRequest where
  "sample_forward_request = \<lparr> fr_ProfileID = ''dev'', fr_Kind = ''service'', fr_Name = ''web'', fr_Protocol = ''tcp'', fr_RemotePort = 80,
     fr_LocalPort = 0 \<rparr>"

lemma forwards_hold_their_listeners_witness:
  "\<exists>m. one_by_one [forget (StartForward sample_forward_env True forward_profile forward_session sample_forward_request)] empty_forwards = Some m \<and>
     forwards_ok m \<and> live_listeners m = {''pf-1''}"
proof -
  let ?ps = "[forget (StartForward sample_forward_env True forward_profile forward_session sample_forward_request)]"
  obtain m where m: "one_by_one ?ps empty_forwards = Some m" "forwards_ok m"
    using forwards_hold_their_listeners [OF new_empty_forwards, of ?ps sample_forward_env] by (auto intro: forward_ops.intros)
  have t: "TrimSpace ''dev'' = ''dev''" by (simp add: text_eval)
  have f: "FormatUint (Suc 0) = ''1''" by code_simp
  have d: "pt_DialAddress sample_forward = ''10.96.0.7:80''" by (simp add: sample_forward_def)
  have "live_listeners m = {''pf-1''}" using m(1)
    by (auto simp: forget_def StartForward_def forwardsRLock_def forwardsRUnlock_def start_forward_def get_dialer_def ask_gateway_def local_start_def
      new_forwards_def empty_forwards_def no_listeners_def sample_forward_env_def sample_forward_request_def t f d sample_starts Let_def
      live_listeners_def forward_session_def [THEN arg_cong, of rs_State] forward_profile_def [THEN arg_cong, of pf_ID] forwardActive_def)
  then show ?thesis using m by blast
qed


end
