(* ===== verification/TicketGuards.thy ===== *)
theory TicketGuards
  imports RelayTicket RelayControl
begin

text \<open>
  How a relay authenticates a request that carries a ticket: the guards against replays and old generations
  (\<^verbatim>\<open>internal/auth/relaybearer/verifier.go\<close>) and the authenticator that takes new keys from the Control Plane
  (\<^verbatim>\<open>internal/gateway/relay/agent/authenticator.go\<close>). The clock is a parameter, read by its number; \<open>expires\<close> is
  \<^verbatim>\<open>expiresAt.UTC().Unix()\<close>, which for \<^verbatim>\<open>time.Unix(claims.ExpiresAt, 0)\<close> is the claim itself. What is shown: an
  authenticator accepts a ticket once, and after a generation of a session no older one.
\<close>

section \<open>The replay guard\<close>

definition DefaultReplayEntries :: int where "DefaultReplayEntries = 65536"

record ReplayGuard =
  rp_expires :: "(string \<times> int) list"
  rp_maxEntries :: int

definition NewReplayGuard :: "int \<Rightarrow> string + ReplayGuard" where
  "NewReplayGuard maxEntries =
     (let maxEntries = if maxEntries = 0 then DefaultReplayEntries else maxEntries in
      if maxEntries < 1 \<or> maxEntries > 1000000 then Inl ''RelayTicket replay cache size is invalid''
      else Inr \<lparr> rp_expires = [], rp_maxEntries = maxEntries \<rparr>)"

definition Consume :: "time \<Rightarrow> string \<Rightarrow> int \<Rightarrow> ReplayGuard \<Rightarrow> bool \<times> ReplayGuard" where
  "Consume nowTime ticketID expires guard =
     (let now = Unix nowTime in
      if \<not> ValidIdentifier ticketID 128 \<or> expires \<le> now then (False, guard)
      else if map_of (rp_expires guard) ticketID \<noteq> None then (False, guard)
      else let kept = (if int (length (rp_expires guard)) \<ge> rp_maxEntries guard
                 then filter (\<lambda>(_, existingExpiry). \<not> existingExpiry \<le> now) (rp_expires guard) else rp_expires guard) in
        if int (length kept) \<ge> rp_maxEntries guard then (False, guard \<lparr> rp_expires := kept \<rparr>)
        else (True, guard \<lparr> rp_expires := AList.update ticketID expires kept \<rparr>))"

section \<open>The generation guard\<close>

record sessionGenerationEntry =
  ge_generation :: "64 word"
  ge_expiresAt :: int

record SessionGenerationGuard =
  gg_entries :: "(string \<times> sessionGenerationEntry) list"
  gg_maxEntries :: int

definition NewSessionGenerationGuard :: "int \<Rightarrow> string + SessionGenerationGuard" where
  "NewSessionGenerationGuard maxEntries =
     (let maxEntries = if maxEntries = 0 then DefaultReplayEntries else maxEntries in
      if maxEntries < 1 \<or> maxEntries > 1000000 then Inl ''RelayTicket Session generation cache size is invalid''
      else Inr \<lparr> gg_entries = [], gg_maxEntries = maxEntries \<rparr>)"

definition insert_generation ::
  "int \<Rightarrow> string \<Rightarrow> 64 word \<Rightarrow> int \<Rightarrow> SessionGenerationGuard \<Rightarrow> bool \<times> SessionGenerationGuard" where
  "insert_generation now sessionID generation expires guard =
     (let kept = (if int (length (gg_entries guard)) \<ge> gg_maxEntries guard
            then filter (\<lambda>(_, current). \<not> ge_expiresAt current \<le> now) (gg_entries guard) else gg_entries guard) in
      if int (length kept) \<ge> gg_maxEntries guard then (False, guard \<lparr> gg_entries := kept \<rparr>)
      else (True, guard \<lparr> gg_entries :=
        AList.update sessionID \<lparr> ge_generation = generation, ge_expiresAt = expires \<rparr> kept \<rparr>))"

definition Accept ::
  "time \<Rightarrow> string \<Rightarrow> 64 word \<Rightarrow> int \<Rightarrow> SessionGenerationGuard \<Rightarrow> bool \<times> SessionGenerationGuard" where
  "Accept nowTime sessionID generation expires guard =
     (let now = Unix nowTime in
      if \<not> ValidIdentifier sessionID 128 \<or> generation = 0 \<or> expires \<le> now then (False, guard)
      else case map_of (gg_entries guard) sessionID of
        None \<Rightarrow> insert_generation now sessionID generation expires guard
      | Some current \<Rightarrow>
          if ge_expiresAt current \<le> now
          then insert_generation now sessionID generation expires (guard \<lparr> gg_entries := AList.delete sessionID (gg_entries guard) \<rparr>)
          else if generation < ge_generation current then (False, guard)
          else (True, guard \<lparr> gg_entries := AList.update sessionID
            \<lparr> ge_generation = (if generation > ge_generation current then generation else ge_generation current),
              ge_expiresAt = (if expires > ge_expiresAt current then expires else ge_expiresAt current) \<rparr> (gg_entries guard) \<rparr>))"

section \<open>The request verifier\<close>

record RequestVerifier =
  rv_verifier :: Verifier
  rv_replay :: ReplayGuard
  rv_generations :: SessionGenerationGuard
  rv_revocations :: "(Claims \<Rightarrow> time \<Rightarrow> bool) option"

definition NewRequestVerifier :: "Verifier option \<Rightarrow> ReplayGuard option \<Rightarrow> string + RequestVerifier" where
  "NewRequestVerifier verifier replay = (case (verifier, replay) of
       (Some verifier, Some replay) \<Rightarrow> bindE (NewSessionGenerationGuard (rp_maxEntries replay)) (\<lambda>generations.
         Inr \<lparr> rv_verifier = verifier, rv_replay = replay, rv_generations = generations, rv_revocations = None \<rparr>)
     | _ \<Rightarrow> Inl ''relay ticket request verifier configuration is invalid'')"

definition UpdateVerifier :: "Verifier \<Rightarrow> (Claims \<Rightarrow> time \<Rightarrow> bool) option \<Rightarrow> RequestVerifier \<Rightarrow> RequestVerifier" where
  "UpdateVerifier verifier revocations rv = rv \<lparr> rv_verifier := verifier, rv_revocations := revocations \<rparr>"

text \<open>\<^verbatim>\<open>strings.Fields\<close>: the pieces between runs of white space.\<close>

fun fields_of :: "(nat \<times> string) list \<Rightarrow> string \<Rightarrow> string list" where
  "fields_of [] field = (if field = '''' then [] else [field])"
| "fields_of ((r, text) # chunks) field =
     (if is_space r then (if field = '''' then [] else [field]) @ fields_of chunks '''' else fields_of chunks (field @ text))"

definition Fields :: "string \<Rightarrow> string list" where
  "Fields s = fields_of (rune_chunks s) ''''"

text \<open>\<^verbatim>\<open>strings.EqualFold\<close> with a text of ASCII letters other than k and s, which no other rune folds to.\<close>

definition EqualFold :: "string \<Rightarrow> string \<Rightarrow> bool" where
  "EqualFold s ascii \<longleftrightarrow> map lower_char s = map lower_char ascii"

text \<open>\<^verbatim>\<open>bearer\<close>: the token of the only Authorization header.\<close>

definition bearer :: "string list \<Rightarrow> string option" where
  "bearer headers = (case headers of
       [header] \<Rightarrow> (case Fields header of
           [scheme, token] \<Rightarrow> if EqualFold scheme ''Bearer'' then Some token else None
         | _ \<Rightarrow> None)
     | _ \<Rightarrow> None)"

text \<open>
  The condition of \<^verbatim>\<open>verify\<close>, evaluated from left to right: the guards act only when what precedes holds. The clock is
  read once by each part.
\<close>

definition verify_request ::
  "crypto \<Rightarrow> (nat \<Rightarrow> time) \<Rightarrow> string list \<Rightarrow> bool \<Rightarrow> nat \<Rightarrow> RequestVerifier \<Rightarrow> (ticket_error + Claims) \<times> RequestVerifier" where
  "verify_request crypto clock headers consumeReplay n rv =
     (case bearer headers of
        None \<Rightarrow> (Inl ErrInvalid, rv)
      | Some token \<Rightarrow> (case Verify crypto (rv_verifier rv) (clock n) token of
            Inl _ \<Rightarrow> (Inl ErrInvalid, rv)
          | Inr claims \<Rightarrow>
              if (case rv_revocations rv of None \<Rightarrow> False | Some revoked \<Rightarrow> revoked claims (clock (n + 1))) then (Inl ErrInvalid, rv)
              else let expiresAt = sint (cl_ExpiresAt claims);
                       (fresh, replay) = (if consumeReplay then Consume (clock (n + 2)) (cl_TicketID claims) expiresAt (rv_replay rv)
                         else (True, rv_replay rv));
                       rv = rv \<lparr> rv_replay := replay \<rparr> in
                if \<not> fresh then (Inl ErrInvalid, rv)
                else let (current, generations) = Accept (clock (n + 3)) (cl_SessionID claims) (cl_SessionGeneration claims) expiresAt
                           (rv_generations rv);
                         rv = rv \<lparr> rv_generations := generations \<rparr> in
                  (if current then Inr claims else Inl ErrInvalid, rv)))"

section \<open>The authenticator\<close>

record TicketAuthenticator =
  ta_RequiredOperation :: string
  ta_ReplayEntries :: int
  ta_ClockSkew :: duration
  ta_requestVerifier :: "RequestVerifier option"
  ta_relayID :: string
  ta_issuer :: string
  ta_keyGeneration :: "64 word"

definition NewTicketAuthenticator :: "string \<Rightarrow> int \<Rightarrow> duration \<Rightarrow> string + TicketAuthenticator" where
  "NewTicketAuthenticator requiredOperation replayEntries clockSkew =
     (if requiredOperation = '''' then Inl ''dynamic RelayTicket authenticator configuration is invalid''
      else bindE (NewReplayGuard replayEntries) (\<lambda>_.
        Inr \<lparr> ta_RequiredOperation = requiredOperation, ta_ReplayEntries = replayEntries, ta_ClockSkew = clockSkew,
          ta_requestVerifier = None, ta_relayID = '''', ta_issuer = '''', ta_keyGeneration = 0 \<rparr>))"

definition verifier_config :: "TicketAuthenticator \<Rightarrow> string \<Rightarrow> string \<Rightarrow> (string \<times> ParsedVerificationKey) list \<Rightarrow> Verifier" where
  "verifier_config authenticator issuer relayID parsed =
     \<lparr> vr_keys = map (\<lambda>(keyID, key). (keyID, pk_PublicKey key)) parsed,
       vr_keyValidity = map (\<lambda>(keyID, key). (keyID, \<lparr> kv_NotBefore = pk_NotBefore key, kv_NotAfter = pk_NotAfter key \<rparr>)) parsed,
       vr_issuer = issuer, vr_audience = relayID, vr_requiredOperation = ta_RequiredOperation authenticator,
       vr_clockSkew = ta_ClockSkew authenticator \<rparr>"

datatype apply_error = KeysError failure | VerifierError ticket_error | ApplyError string

definition install_verifier :: "Verifier \<Rightarrow> TicketAuthenticator \<Rightarrow> string + RequestVerifier" where
  "install_verifier verifier authenticator = (case ta_requestVerifier authenticator of
       None \<Rightarrow> bindE (NewReplayGuard (ta_ReplayEntries authenticator)) (\<lambda>replay.
         bindE (NewRequestVerifier (Some verifier) (Some replay)) (\<lambda>rv. Inr (UpdateVerifier verifier None rv)))
     | Some rv \<Rightarrow> Inr (UpdateVerifier verifier None rv))"

definition Apply ::
  "key_parser \<Rightarrow> time \<Rightarrow> string \<Rightarrow> string \<Rightarrow> VerificationKeySet \<Rightarrow> TicketAuthenticator \<Rightarrow> (apply_error + unit) \<times> TicketAuthenticator" where
  "Apply parseKey now issuer relayID keys authenticator =
     (case VerificationKeySet_Parse parseKey keys now of
        Inl err \<Rightarrow> (Inl (KeysError err), authenticator)
      | Inr parsed \<Rightarrow> (case NewVerifier (verifier_config authenticator issuer relayID parsed) of
            Inl err \<Rightarrow> (Inl (VerifierError err), authenticator)
          | Inr verifier \<Rightarrow>
              if ta_relayID authenticator \<noteq> '''' \<and> ta_relayID authenticator \<noteq> relayID
              then (Inl (ApplyError ''relay identity changed within one Data Plane process''), authenticator)
              else if ta_issuer authenticator \<noteq> '''' \<and> ta_issuer authenticator \<noteq> issuer
              then (Inl (ApplyError ''RelayTicket issuer changed within one Data Plane process''), authenticator)
              else if vs_Generation keys < ta_keyGeneration authenticator
              then (Inl (ApplyError ''relay control generation moved backwards''), authenticator)
              else (case install_verifier verifier authenticator of
                  Inl err \<Rightarrow> (Inl (ApplyError err), authenticator)
                | Inr rv \<Rightarrow> (Inr (), authenticator \<lparr> ta_requestVerifier := Some rv, ta_relayID := relayID, ta_issuer := issuer,
                    ta_keyGeneration := vs_Generation keys \<rparr>))))"

definition VerifyTicket ::
  "crypto \<Rightarrow> (nat \<Rightarrow> time) \<Rightarrow> string list \<Rightarrow> bool \<Rightarrow> nat \<Rightarrow> TicketAuthenticator \<Rightarrow> (ticket_error + Claims) \<times> TicketAuthenticator" where
  "VerifyTicket crypto clock headers consumeReplay n authenticator = (case ta_requestVerifier authenticator of
       None \<Rightarrow> (Inl ErrInvalid, authenticator)
     | Some rv \<Rightarrow> let (result, rv) = verify_request crypto clock headers consumeReplay n rv in
         (result, authenticator \<lparr> ta_requestVerifier := Some rv \<rparr>))"

definition AppliedKeyGeneration :: "TicketAuthenticator \<Rightarrow> 64 word" where
  "AppliedKeyGeneration authenticator = ta_keyGeneration authenticator"

text \<open>What a relay is asked, one after the other: \<^verbatim>\<open>Verify\<close> and \<^verbatim>\<open>VerifyReusable\<close>, and key sets to apply.\<close>

datatype auth_request = TicketRequest "string list" bool | KeysRequest string string VerificationKeySet

datatype auth_answer = Admitted Claims bool | Refused | Applied "apply_error + unit"

definition serve_request ::
  "crypto \<Rightarrow> key_parser \<Rightarrow> (nat \<Rightarrow> time) \<Rightarrow> auth_request \<Rightarrow> nat \<Rightarrow> TicketAuthenticator \<Rightarrow> auth_answer \<times> TicketAuthenticator" where
  "serve_request crypto parseKey clock request n authenticator = (case request of
       TicketRequest headers consumeReplay \<Rightarrow>
         let (result, authenticator) = VerifyTicket crypto clock headers consumeReplay n authenticator in
         (case result of Inl _ \<Rightarrow> Refused | Inr claims \<Rightarrow> Admitted claims consumeReplay, authenticator)
     | KeysRequest issuer relayID keys \<Rightarrow>
         let (result, authenticator) = Apply parseKey (clock n) issuer relayID keys authenticator in (Applied result, authenticator))"

fun serve_requests ::
  "crypto \<Rightarrow> key_parser \<Rightarrow> (nat \<Rightarrow> time) \<Rightarrow> auth_request list \<Rightarrow> nat \<Rightarrow> TicketAuthenticator \<Rightarrow> auth_answer list \<times> TicketAuthenticator" where
  "serve_requests crypto parseKey clock [] n authenticator = ([], authenticator)"
| "serve_requests crypto parseKey clock (request # requests) n authenticator =
     (let (answer, authenticator) = serve_request crypto parseKey clock request n authenticator;
          (answers, authenticator) = serve_requests crypto parseKey clock requests (n + 4) authenticator in
      (answer # answers, authenticator))"

section \<open>What the guards remember\<close>

lemma map_of_filter_distinct:
  "distinct (map fst xs) \<Longrightarrow> map_of (filter P xs) i = (case map_of xs i of None \<Rightarrow> None | Some x \<Rightarrow> if P (i, x) then Some x else None)"
  by (induction xs) (auto split: option.splits simp: map_of_eq_None_iff image_iff)

lemma length_update_le: "length (AList.update k v xs) \<le> Suc (length xs)"
  by (induction xs) auto

lemma length_update_same: "map_of xs k \<noteq> None \<Longrightarrow> length (AList.update k v xs) = length xs"
  by (induction xs) auto

definition replay_ok :: "ReplayGuard \<Rightarrow> bool" where
  "replay_ok guard \<longleftrightarrow> distinct (map fst (rp_expires guard)) \<and> int (length (rp_expires guard)) \<le> rp_maxEntries guard"

definition generations_ok :: "SessionGenerationGuard \<Rightarrow> bool" where
  "generations_ok guard \<longleftrightarrow> distinct (map fst (gg_entries guard)) \<and> int (length (gg_entries guard)) \<le> gg_maxEntries guard"

text \<open>A guard forgets an entry only once it has expired.\<close>

lemma Consume_result:
  assumes "Consume nowTime ticketID expires guard = (fresh, guard')" "replay_ok guard"
  shows "replay_ok guard'" "map_of (rp_expires guard) i = Some x \<Longrightarrow> Unix nowTime < x \<Longrightarrow> map_of (rp_expires guard') i = Some x"
    "fresh \<Longrightarrow> map_of (rp_expires guard) ticketID = None \<and> map_of (rp_expires guard') ticketID = Some expires \<and> Unix nowTime < expires"
proof -
  define kept where "kept = (if int (length (rp_expires guard)) \<ge> rp_maxEntries guard
    then filter (\<lambda>(_, existingExpiry). \<not> existingExpiry \<le> Unix nowTime) (rp_expires guard) else rp_expires guard)"
  have d: "distinct (map fst (rp_expires guard))" "int (length (rp_expires guard)) \<le> rp_maxEntries guard"
    using assms(2) by (simp_all add: replay_ok_def)
  have k: "distinct (map fst kept)" "int (length kept) \<le> rp_maxEntries guard"
    "\<And>i x. map_of (rp_expires guard) i = Some x \<Longrightarrow> Unix nowTime < x \<Longrightarrow> map_of kept i = Some x"
    using d length_filter_le [of "\<lambda>(_, existingExpiry). \<not> existingExpiry \<le> Unix nowTime" "rp_expires guard"]
    by (auto simp: kept_def distinct_map_filter map_of_filter_distinct simp del: map_of_eq_Some_iff)
  have u: "int (length (AList.update ticketID expires kept)) \<le> rp_maxEntries guard" if "int (length kept) < rp_maxEntries guard"
    using length_update_le [of ticketID expires kept] that by linarith
  have "\<not> fresh \<and> guard' = guard \<or> \<not> fresh \<and> guard' = guard \<lparr> rp_expires := kept \<rparr> \<or>
    fresh \<and> Unix nowTime < expires \<and> map_of (rp_expires guard) ticketID = None \<and> int (length kept) < rp_maxEntries guard \<and>
      guard' = guard \<lparr> rp_expires := AList.update ticketID expires kept \<rparr>"
    using assms(1) unfolding Consume_def Let_def kept_def [symmetric] by (auto split: if_splits)
  then consider (same) "\<not> fresh" "guard' = guard" | (purged) "\<not> fresh" "guard' = guard \<lparr> rp_expires := kept \<rparr>" |
    (added) "fresh" "Unix nowTime < expires" "map_of (rp_expires guard) ticketID = None" "int (length kept) < rp_maxEntries guard"
      "guard' = guard \<lparr> rp_expires := AList.update ticketID expires kept \<rparr>" by (elim disjE conjE)
  note cases = this
  show "replay_ok guard'"
    using cases by cases (use assms(2) k u in \<open>auto simp: replay_ok_def distinct_update\<close>)
  show "map_of (rp_expires guard) i = Some x \<Longrightarrow> Unix nowTime < x \<Longrightarrow> map_of (rp_expires guard') i = Some x"
    using cases by cases (use k(3) in \<open>auto simp: update_conv' simp del: map_of_eq_Some_iff\<close>)
  show "fresh \<Longrightarrow> map_of (rp_expires guard) ticketID = None \<and> map_of (rp_expires guard') ticketID = Some expires \<and> Unix nowTime < expires"
    using cases by cases (auto simp: update_conv' simp del: map_of_eq_Some_iff)
qed

definition entry_covers :: "64 word \<Rightarrow> int \<Rightarrow> sessionGenerationEntry \<Rightarrow> bool" where
  "entry_covers generation expires entry \<longleftrightarrow> generation \<le> ge_generation entry \<and> expires \<le> ge_expiresAt entry"

lemma insert_generation_result:
  assumes "insert_generation now sessionID generation expires guard = (current, guard')" "generations_ok guard"
  shows "generations_ok guard'"
    "map_of (gg_entries guard) i = Some x \<Longrightarrow> i \<noteq> sessionID \<Longrightarrow> now < ge_expiresAt x \<Longrightarrow> map_of (gg_entries guard') i = Some x"
    "current \<Longrightarrow> map_of (gg_entries guard') sessionID = Some \<lparr> ge_generation = generation, ge_expiresAt = expires \<rparr>"
proof -
  define kept where "kept = (if int (length (gg_entries guard)) \<ge> gg_maxEntries guard
    then filter (\<lambda>(_, current). \<not> ge_expiresAt current \<le> now) (gg_entries guard) else gg_entries guard)"
  have d: "distinct (map fst (gg_entries guard))" "int (length (gg_entries guard)) \<le> gg_maxEntries guard"
    using assms(2) by (simp_all add: generations_ok_def)
  have k: "distinct (map fst kept)" "int (length kept) \<le> gg_maxEntries guard"
    "\<And>i x. map_of (gg_entries guard) i = Some x \<Longrightarrow> now < ge_expiresAt x \<Longrightarrow> map_of kept i = Some x"
    using d length_filter_le [of "\<lambda>(_, current). \<not> ge_expiresAt current \<le> now" "gg_entries guard"]
    by (auto simp: kept_def distinct_map_filter map_of_filter_distinct simp del: map_of_eq_Some_iff)
  let ?new = "AList.update sessionID \<lparr> ge_generation = generation, ge_expiresAt = expires \<rparr> kept"
  have u: "int (length ?new) \<le> gg_maxEntries guard" if "int (length kept) < gg_maxEntries guard"
    using length_update_le [of sessionID "\<lparr> ge_generation = generation, ge_expiresAt = expires \<rparr>" kept] that by linarith
  have "\<not> current \<and> guard' = guard \<lparr> gg_entries := kept \<rparr> \<or>
    current \<and> int (length kept) < gg_maxEntries guard \<and> guard' = guard \<lparr> gg_entries := ?new \<rparr>"
    using assms(1) unfolding insert_generation_def Let_def kept_def [symmetric] by (auto split: if_splits)
  then consider (full) "\<not> current" "guard' = guard \<lparr> gg_entries := kept \<rparr>" |
    (added) "current" "int (length kept) < gg_maxEntries guard" "guard' = guard \<lparr> gg_entries := ?new \<rparr>" by (elim disjE conjE)
  note cases = this
  show "generations_ok guard'" using cases by cases (use k u in \<open>auto simp: generations_ok_def distinct_update\<close>)
  show "map_of (gg_entries guard) i = Some x \<Longrightarrow> i \<noteq> sessionID \<Longrightarrow> now < ge_expiresAt x \<Longrightarrow> map_of (gg_entries guard') i = Some x"
    using cases by cases (use k(3) in \<open>auto simp: update_conv' simp del: map_of_eq_Some_iff\<close>)
  show "current \<Longrightarrow> map_of (gg_entries guard') sessionID = Some \<lparr> ge_generation = generation, ge_expiresAt = expires \<rparr>"
    using cases by cases (auto simp: update_conv' simp del: map_of_eq_Some_iff)
qed

lemma Accept_result:
  assumes a: "Accept nowTime sessionID generation expires guard = (current, guard')" and ok: "generations_ok guard"
  shows "generations_ok guard'"
    "map_of (gg_entries guard) i = Some x \<Longrightarrow> Unix nowTime < ge_expiresAt x \<Longrightarrow>
      \<exists>x'. map_of (gg_entries guard') i = Some x' \<and> entry_covers (ge_generation x) (ge_expiresAt x) x'"
    "current \<Longrightarrow> Unix nowTime < expires \<and> (\<exists>x'. map_of (gg_entries guard') sessionID = Some x' \<and> entry_covers generation expires x')"
    "current \<Longrightarrow> map_of (gg_entries guard) sessionID = Some y \<Longrightarrow> Unix nowTime < ge_expiresAt y \<Longrightarrow> ge_generation y \<le> generation"
proof -
  have r: "generations_ok guard' \<and>
    (\<forall>i x. map_of (gg_entries guard) i = Some x \<longrightarrow> Unix nowTime < ge_expiresAt x \<longrightarrow>
      (\<exists>x'. map_of (gg_entries guard') i = Some x' \<and> entry_covers (ge_generation x) (ge_expiresAt x) x')) \<and>
    (current \<longrightarrow> Unix nowTime < expires \<and> (\<exists>x'. map_of (gg_entries guard') sessionID = Some x' \<and> entry_covers generation expires x') \<and>
      (\<forall>y. map_of (gg_entries guard) sessionID = Some y \<longrightarrow> Unix nowTime < ge_expiresAt y \<longrightarrow> ge_generation y \<le> generation))"
    (is "?R")
  proof (cases "\<not> ValidIdentifier sessionID 128 \<or> generation = 0 \<or> expires \<le> Unix nowTime")
    case True
    then have "guard' = guard" "\<not> current" using a by (auto simp: Accept_def Let_def)
    then show ?R using ok by (auto simp: entry_covers_def)
  next
    case go: False
    show ?R
    proof (cases "map_of (gg_entries guard) sessionID")
      case None
      then have i: "insert_generation (Unix nowTime) sessionID generation expires guard = (current, guard')"
        using a go by (simp add: Accept_def Let_def)
      note n = insert_generation_result [OF i ok]
      have "\<exists>x'. map_of (gg_entries guard') i = Some x' \<and> entry_covers (ge_generation x) (ge_expiresAt x) x'"
        if "map_of (gg_entries guard) i = Some x" "Unix nowTime < ge_expiresAt x" for i x
      proof -
        have "i \<noteq> sessionID" using that(1) None by auto
        then show ?thesis using n(2) [OF that(1) _ that(2)] by (simp add: entry_covers_def)
      qed
      then show ?R using n(1,3) go None by (auto simp: entry_covers_def simp del: map_of_eq_Some_iff)
    next
      case (Some y)
      show ?R
      proof (cases "ge_expiresAt y \<le> Unix nowTime")
        case True
        let ?g = "guard \<lparr> gg_entries := AList.delete sessionID (gg_entries guard) \<rparr>"
        have i: "insert_generation (Unix nowTime) sessionID generation expires ?g = (current, guard')"
          using a go Some True by (simp add: Accept_def Let_def)
        have "length (AList.delete sessionID (gg_entries guard)) \<le> length (gg_entries guard)" by (simp add: AList.delete_eq)
        then have "generations_ok ?g" using ok by (auto simp: generations_ok_def distinct_delete)
        note n = insert_generation_result [OF i this]
        have "\<exists>x'. map_of (gg_entries guard') i = Some x' \<and> entry_covers (ge_generation x) (ge_expiresAt x) x'"
          if "map_of (gg_entries guard) i = Some x" "Unix nowTime < ge_expiresAt x" for i x
          using n(2) [of i x] that Some True by (cases "i = sessionID") (auto simp: delete_conv' entry_covers_def simp del: map_of_eq_Some_iff)
        then show ?R using n(1,3) go Some True by (auto simp: entry_covers_def simp del: map_of_eq_Some_iff)
      next
        case live: False
        show ?R
        proof (cases "generation < ge_generation y")
          case True
          then have "guard' = guard" "\<not> current" using a go Some live by (auto simp: Accept_def Let_def)
          then show ?R using ok by (auto simp: entry_covers_def)
        next
          case False
          let ?new = "\<lparr> ge_generation = (if generation > ge_generation y then generation else ge_generation y),
            ge_expiresAt = (if expires > ge_expiresAt y then expires else ge_expiresAt y) \<rparr>"
          have g: "current" "guard' = guard \<lparr> gg_entries := AList.update sessionID ?new (gg_entries guard) \<rparr>"
            using a go Some live False by (auto simp: Accept_def Let_def)
          have "length (AList.update sessionID ?new (gg_entries guard)) = length (gg_entries guard)"
            by (rule length_update_same) (simp add: Some)
          then have "generations_ok guard'" using ok g(2) by (auto simp: generations_ok_def distinct_update)
          moreover have "map_of (gg_entries guard') i = (if i = sessionID then Some ?new else map_of (gg_entries guard) i)" for i
            by (simp add: g(2) update_conv')
          moreover have "entry_covers generation expires ?new" "entry_covers (ge_generation y) (ge_expiresAt y) ?new"
            using False by (auto simp: entry_covers_def)
          ultimately show ?R using g(1) go Some False by (auto simp: entry_covers_def simp del: map_of_eq_Some_iff)
        qed
      qed
    qed
  qed
  then show "generations_ok guard'"
    "map_of (gg_entries guard) i = Some x \<Longrightarrow> Unix nowTime < ge_expiresAt x \<Longrightarrow>
      \<exists>x'. map_of (gg_entries guard') i = Some x' \<and> entry_covers (ge_generation x) (ge_expiresAt x) x'"
    "current \<Longrightarrow> Unix nowTime < expires \<and> (\<exists>x'. map_of (gg_entries guard') sessionID = Some x' \<and> entry_covers generation expires x')"
    "current \<Longrightarrow> map_of (gg_entries guard) sessionID = Some y \<Longrightarrow> Unix nowTime < ge_expiresAt y \<Longrightarrow> ge_generation y \<le> generation"
    by blast+
qed

section \<open>What an authenticator admits\<close>

definition ticket_expiry :: "Claims \<Rightarrow> int" where
  "ticket_expiry claims = sint (cl_ExpiresAt claims)"

text \<open>\<open>H\<close> are the tickets admitted so far, with whether their use was to be the only one.\<close>

definition remembers :: "int \<Rightarrow> (Claims \<times> bool) set \<Rightarrow> RequestVerifier \<Rightarrow> bool" where
  "remembers now H rv \<longleftrightarrow> replay_ok (rv_replay rv) \<and> generations_ok (rv_generations rv) \<and>
     (\<forall>(claims, consumed)\<in>H. now < ticket_expiry claims \<longrightarrow>
        (consumed \<longrightarrow> map_of (rp_expires (rv_replay rv)) (cl_TicketID claims) = Some (ticket_expiry claims)) \<and>
        (\<exists>x. map_of (gg_entries (rv_generations rv)) (cl_SessionID claims) = Some x \<and>
           entry_covers (cl_SessionGeneration claims) (ticket_expiry claims) x))"

lemma remembers_later: "remembers now H rv \<Longrightarrow> now \<le> now' \<Longrightarrow> remembers now' H rv"
  unfolding remembers_def by fastforce

lemma remembersD:
  "remembers now H rv \<Longrightarrow> (claims, consumed) \<in> H \<Longrightarrow> now < ticket_expiry claims \<Longrightarrow>
     (consumed \<longrightarrow> map_of (rp_expires (rv_replay rv)) (cl_TicketID claims) = Some (ticket_expiry claims)) \<and>
     (\<exists>x. map_of (gg_entries (rv_generations rv)) (cl_SessionID claims) = Some x \<and>
        entry_covers (cl_SessionGeneration claims) (ticket_expiry claims) x)"
  unfolding remembers_def by blast

text \<open>\<open>replaces\<close>: the first ticket stands in the way of the second.\<close>

definition replaces :: "Claims \<times> bool \<Rightarrow> Claims \<times> bool \<Rightarrow> bool" where
  "replaces admitted next_one \<longleftrightarrow>
     snd admitted \<and> snd next_one \<and> cl_TicketID (fst admitted) = cl_TicketID (fst next_one) \<or>
     cl_SessionID (fst admitted) = cl_SessionID (fst next_one) \<and>
     cl_SessionGeneration (fst next_one) < cl_SessionGeneration (fst admitted)"

lemma covers_trans: "entry_covers g e x \<Longrightarrow> entry_covers (ge_generation x) (ge_expiresAt x) y \<Longrightarrow> entry_covers g e y"
  by (auto simp: entry_covers_def)

lemma Consume_remembers:
  assumes c: "Consume now ticketID expires (rv_replay rv) = (fresh, replay)" and r: "remembers (Unix now) H rv"
  shows "remembers (Unix now) H (rv \<lparr> rv_replay := replay \<rparr>)"
    "fresh \<Longrightarrow> map_of (rp_expires replay) ticketID = Some expires \<and> Unix now < expires"
    "fresh \<Longrightarrow> (claims, True) \<in> H \<Longrightarrow> cl_TicketID claims = ticketID \<Longrightarrow> ticket_expiry claims \<le> Unix now"
proof -
  have ok: "replay_ok (rv_replay rv)" using r by (simp add: remembers_def)
  note k = Consume_result [OF c ok]
  show "remembers (Unix now) H (rv \<lparr> rv_replay := replay \<rparr>)"
    using r k(1,2) unfolding remembers_def by fastforce
  show "fresh \<Longrightarrow> map_of (rp_expires replay) ticketID = Some expires \<and> Unix now < expires" using k(3) by blast
  show "fresh \<Longrightarrow> (claims, True) \<in> H \<Longrightarrow> cl_TicketID claims = ticketID \<Longrightarrow> ticket_expiry claims \<le> Unix now"
    using remembersD [OF r, of claims True] k(3) by fastforce
qed

lemma Accept_remembers:
  assumes c: "Accept now sessionID generation expires (rv_generations rv) = (current, generations)" and r: "remembers (Unix now) H rv"
  shows "remembers (Unix now) H (rv \<lparr> rv_generations := generations \<rparr>)"
    "current \<Longrightarrow> Unix now < expires \<and> (\<exists>x. map_of (gg_entries generations) sessionID = Some x \<and> entry_covers generation expires x)"
    "current \<Longrightarrow> (claims, consumed) \<in> H \<Longrightarrow> cl_SessionID claims = sessionID \<Longrightarrow> generation < cl_SessionGeneration claims \<Longrightarrow>
      ticket_expiry claims \<le> Unix now"
proof -
  have ok: "generations_ok (rv_generations rv)" using r by (simp add: remembers_def)
  note k = Accept_result [OF c ok]
  have "\<exists>x. map_of (gg_entries generations) (cl_SessionID claims) = Some x \<and> entry_covers (cl_SessionGeneration claims) (ticket_expiry claims) x"
    if h: "(claims, consumed) \<in> H" "Unix now < ticket_expiry claims" for claims consumed
  proof -
    obtain x where x: "map_of (gg_entries (rv_generations rv)) (cl_SessionID claims) = Some x"
      "entry_covers (cl_SessionGeneration claims) (ticket_expiry claims) x" using remembersD [OF r h] by blast
    moreover have "Unix now < ge_expiresAt x" using x(2) h(2) by (simp add: entry_covers_def)
    ultimately show ?thesis using k(2) covers_trans by blast
  qed
  then show "remembers (Unix now) H (rv \<lparr> rv_generations := generations \<rparr>)"
    using r k(1) unfolding remembers_def by simp blast
  show "current \<Longrightarrow> Unix now < expires \<and> (\<exists>x. map_of (gg_entries generations) sessionID = Some x \<and> entry_covers generation expires x)"
    using k(3) by blast
  show "ticket_expiry claims \<le> Unix now"
    if cur: "current" "(claims, consumed) \<in> H" "cl_SessionID claims = sessionID" "generation < cl_SessionGeneration claims"
  proof (rule ccontr)
    assume e: "\<not> ticket_expiry claims \<le> Unix now"
    then obtain x where x: "map_of (gg_entries (rv_generations rv)) sessionID = Some x"
      "entry_covers (cl_SessionGeneration claims) (ticket_expiry claims) x" using remembersD [OF r cur(2)] cur(3) by auto
    then have "ge_generation x \<le> generation" using k(4) [OF cur(1) x(1)] e by (simp add: entry_covers_def)
    then show False using x(2) cur(4) unfolding entry_covers_def by (meson leD order_trans)
  qed
qed

lemma remembers_insert:
  assumes "remembers now H rv"
    "consumed \<Longrightarrow> map_of (rp_expires (rv_replay rv)) (cl_TicketID claims) = Some (ticket_expiry claims)"
    "\<exists>x. map_of (gg_entries (rv_generations rv)) (cl_SessionID claims) = Some x \<and>
       entry_covers (cl_SessionGeneration claims) (ticket_expiry claims) x"
  shows "remembers now (insert (claims, consumed) H) rv"
  using assms unfolding remembers_def by simp

lemma verify_request_remembers:
  assumes "mono clock" "remembers (Unix (clock n)) H rv" "verify_request crypto clock headers consumed n rv = (result, rv')"
  shows "case result of Inl _ \<Rightarrow> remembers (Unix (clock (n + 3))) H rv'
    | Inr claims \<Rightarrow> remembers (Unix (clock (n + 3))) (insert (claims, consumed) H) rv' \<and> Unix (clock (n + 3)) < ticket_expiry claims \<and>
        (\<forall>admitted\<in>H. replaces admitted (claims, consumed) \<longrightarrow> ticket_expiry (fst admitted) < ticket_expiry claims)"
proof -
  have t: "Unix (clock n) \<le> Unix (clock (n + 2))" "Unix (clock (n + 2)) \<le> Unix (clock (n + 3))" "Unix (clock n) \<le> Unix (clock (n + 3))"
    using assms(1) by (auto intro!: Unix_mono simp: mono_def)
  have same: "remembers (Unix (clock (n + 3))) H rv" using remembers_later [OF assms(2) t(3)] .
  show ?thesis
  proof (cases "bearer headers")
    case None
    then show ?thesis using assms(3) same by (auto simp: verify_request_def)
  next
    case (Some token)
    show ?thesis
    proof (cases "Verify crypto (rv_verifier rv) (clock n) token")
      case (Inl err)
      then show ?thesis using assms(3) same Some by (auto simp: verify_request_def)
    next
      case (Inr claims)
      show ?thesis
      proof (cases "case rv_revocations rv of None \<Rightarrow> False | Some revoked \<Rightarrow> revoked claims (clock (n + 1))")
        case True
        then show ?thesis using assms(3) same Some Inr by (auto simp: verify_request_def)
      next
        case allowed: False
        obtain fresh replay where c: "(if consumed then Consume (clock (n + 2)) (cl_TicketID claims) (ticket_expiry claims) (rv_replay rv)
            else (True, rv_replay rv)) = (fresh, replay)" by fastforce
        let ?rv = "rv \<lparr> rv_replay := replay \<rparr>"
        have r2: "remembers (Unix (clock (n + 2))) H rv" using remembers_later [OF assms(2) t(1)] .
        have rr: "remembers (Unix (clock (n + 2))) H ?rv"
          using c r2 Consume_remembers(1) [of "clock (n + 2)" "cl_TicketID claims" "ticket_expiry claims" rv fresh replay H]
          by (cases consumed) auto
        then have r3: "remembers (Unix (clock (n + 3))) H ?rv" using remembers_later t(2) by blast
        have once: "ticket_expiry claims' \<le> Unix (clock (n + 2))"
          if "consumed" "fresh" "(claims', True) \<in> H" "cl_TicketID claims' = cl_TicketID claims" for claims'
          using c that Consume_remembers(3) [OF _ r2, of "cl_TicketID claims" "ticket_expiry claims" fresh replay claims'] by auto
        have kept: "map_of (rp_expires replay) (cl_TicketID claims) = Some (ticket_expiry claims)" if "consumed" "fresh"
          using c that Consume_remembers(2) [OF _ r2, of "cl_TicketID claims" "ticket_expiry claims" fresh replay] by auto
        show ?thesis
        proof (cases fresh)
          case False
          then have "result = Inl ErrInvalid" "rv' = ?rv"
            using assms(3) Some Inr allowed c [unfolded ticket_expiry_def] by (simp_all add: verify_request_def Let_def)
          then show ?thesis using r3 by simp
        next
          case fresh: True
          obtain current generations where g: "Accept (clock (n + 3)) (cl_SessionID claims) (cl_SessionGeneration claims) (ticket_expiry claims)
              (rv_generations ?rv) = (current, generations)" by fastforce
          have res: "result = (if current then Inr claims else Inl ErrInvalid)" "rv' = ?rv \<lparr> rv_generations := generations \<rparr>"
            using assms(3) Some Inr allowed c [unfolded ticket_expiry_def] g [unfolded ticket_expiry_def] fresh
            by (simp_all add: verify_request_def Let_def)
          note k = Accept_remembers [OF g r3]
          show ?thesis
          proof (cases current)
            case False
            then show ?thesis using res k(1) by simp
          next
            case True
            have e: "Unix (clock (n + 3)) < ticket_expiry claims" using k(2) True by blast
            have "remembers (Unix (clock (n + 3))) (insert (claims, consumed) H) rv'"
              using remembers_insert [OF k(1), of consumed claims] kept fresh k(2) True by (auto simp: res(2))
            moreover have "ticket_expiry (fst a) < ticket_expiry claims" if "a \<in> H" "replaces a (claims, consumed)" for a
              using that once [of "fst a"] fresh k(3) [OF True, of "fst a" "snd a"] e t(2) unfolding replaces_def by (cases a) auto
            ultimately show ?thesis using res True e by simp
          qed
        qed
      qed
    qed
  qed
qed

definition auth_remembers :: "int \<Rightarrow> (Claims \<times> bool) set \<Rightarrow> TicketAuthenticator \<Rightarrow> bool" where
  "auth_remembers now H authenticator \<longleftrightarrow>
     (case ta_requestVerifier authenticator of None \<Rightarrow> H = {} | Some rv \<Rightarrow> remembers now H rv)"

lemma install_verifier_remembers:
  assumes "auth_remembers now H authenticator" "install_verifier verifier authenticator = Inr rv"
  shows "remembers now H rv"
proof (cases "ta_requestVerifier authenticator")
  case None
  then have "H = {}" using assms(1) by (simp add: auth_remembers_def)
  moreover have "replay_ok (rv_replay rv)" "generations_ok (rv_generations rv)"
    using assms(2) None by (auto simp: install_verifier_def bindE_eq_Inr NewReplayGuard_def NewRequestVerifier_def NewSessionGenerationGuard_def
        UpdateVerifier_def Let_def replay_ok_def generations_ok_def split: if_splits)
  ultimately show ?thesis by (simp add: remembers_def)
next
  case (Some old)
  then have "remembers now H old" "rv = UpdateVerifier verifier None old"
    using assms by (auto simp: auth_remembers_def install_verifier_def)
  then show ?thesis by (simp add: remembers_def UpdateVerifier_def)
qed

lemma Apply_remembers:
  assumes "auth_remembers now H authenticator" "Apply parseKey t issuer relayID keys authenticator = (result, authenticator')"
  shows "auth_remembers now H authenticator'"
proof -
  have "authenticator' = authenticator \<or> (\<exists>verifier rv. install_verifier verifier authenticator = Inr rv \<and>
      ta_requestVerifier authenticator' = Some rv)"
    using assms(2) unfolding Apply_def by (auto split: sum.splits if_splits)
  then show ?thesis using assms(1) install_verifier_remembers [OF assms(1)] by (auto simp: auth_remembers_def)
qed

definition admitted_by :: "auth_answer \<Rightarrow> (Claims \<times> bool) set" where
  "admitted_by answer = (case answer of Admitted claims consumed \<Rightarrow> {(claims, consumed)} | _ \<Rightarrow> {})"

lemma serve_request_remembers:
  assumes "mono clock" "auth_remembers (Unix (clock n)) H authenticator"
    "serve_request crypto parseKey clock request n authenticator = (answer, authenticator')"
  shows "auth_remembers (Unix (clock (n + 4))) (admitted_by answer \<union> H) authenticator'"
    "(claims, consumed) \<in> admitted_by answer \<Longrightarrow> admitted \<in> H \<Longrightarrow> replaces admitted (claims, consumed) \<Longrightarrow>
       ticket_expiry (fst admitted) < ticket_expiry claims"
proof -
  have t: "Unix (clock n) \<le> Unix (clock (n + 4))" "Unix (clock (n + 3)) \<le> Unix (clock (n + 4))"
    using assms(1) by (auto intro!: Unix_mono simp: mono_def)
  have later: "auth_remembers now' H' a" if "auth_remembers now H' a" "now \<le> now'" for now now' H' a
    using that remembers_later by (auto simp: auth_remembers_def split: option.splits)
  have "auth_remembers (Unix (clock (n + 4))) (admitted_by answer \<union> H) authenticator' \<and>
    ((claims, consumed) \<in> admitted_by answer \<longrightarrow> admitted \<in> H \<longrightarrow> replaces admitted (claims, consumed) \<longrightarrow>
       ticket_expiry (fst admitted) < ticket_expiry claims)"
  proof (cases request)
    case (KeysRequest issuer relayID keys)
    then obtain result where a: "Apply parseKey (clock n) issuer relayID keys authenticator = (result, authenticator')" "answer = Applied result"
      using assms(3) by (auto simp: serve_request_def split: prod.splits)
    show ?thesis using later [OF Apply_remembers [OF assms(2) a(1)] t(1)] a(2) by (simp add: admitted_by_def)
  next
    case (TicketRequest headers once)
    show ?thesis
    proof (cases "ta_requestVerifier authenticator")
      case None
      then have "answer = Refused" "authenticator' = authenticator"
        using assms(3) TicketRequest by (auto simp: serve_request_def VerifyTicket_def)
      then show ?thesis using later [OF assms(2) t(1)] by (simp add: admitted_by_def)
    next
      case (Some rv)
      obtain result rv' where v: "verify_request crypto clock headers once n rv = (result, rv')" by fastforce
      have a: "answer = (case result of Inl _ \<Rightarrow> Refused | Inr claims \<Rightarrow> Admitted claims once)" "ta_requestVerifier authenticator' = Some rv'"
        using assms(3) TicketRequest Some v by (auto simp: serve_request_def VerifyTicket_def)
      have r: "remembers (Unix (clock n)) H rv" using assms(2) Some by (simp add: auth_remembers_def)
      show ?thesis using verify_request_remembers [OF assms(1) r v] remembers_later [OF _ t(2)] a
        by (cases result) (auto simp: auth_remembers_def admitted_by_def)
    qed
  qed
  then show "auth_remembers (Unix (clock (n + 4))) (admitted_by answer \<union> H) authenticator'"
    "(claims, consumed) \<in> admitted_by answer \<Longrightarrow> admitted \<in> H \<Longrightarrow> replaces admitted (claims, consumed) \<Longrightarrow>
       ticket_expiry (fst admitted) < ticket_expiry claims" by blast+
qed

lemma serve_requests_remember:
  assumes "mono clock" "auth_remembers (Unix (clock n)) H authenticator"
    "serve_requests crypto parseKey clock requests n authenticator = (answers, authenticator')"
  shows "j < length answers \<Longrightarrow> answers ! j = Admitted claims consumed \<Longrightarrow>
      admitted \<in> H \<or> (\<exists>i<j. admitted \<in> admitted_by (answers ! i)) \<Longrightarrow> replaces admitted (claims, consumed) \<Longrightarrow>
      ticket_expiry (fst admitted) < ticket_expiry claims"
  using assms(2,3)
proof (induction requests arbitrary: n H authenticator answers j)
  case (Cons request requests)
  obtain answer a1 where s: "serve_request crypto parseKey clock request n authenticator = (answer, a1)" by fastforce
  obtain rest where r: "serve_requests crypto parseKey clock requests (n + 4) a1 = (rest, authenticator')" "answers = answer # rest"
    using Cons.prems(6) s by (auto split: prod.splits)
  note k = serve_request_remembers [OF assms(1) Cons.prems(5) s]
  show ?case
  proof (cases j)
    case 0
    then have "(claims, consumed) \<in> admitted_by answer" "admitted \<in> H" using Cons.prems(2,3) r(2) by (auto simp: admitted_by_def)
    then show ?thesis using k(2) Cons.prems(4) by blast
  next
    case (Suc l)
    have "admitted \<in> admitted_by answer \<union> H \<or> (\<exists>i<l. admitted \<in> admitted_by (rest ! i))"
      using Cons.prems(3) unfolding Suc r(2) by (metis Suc_less_eq UnCI less_Suc_eq_0_disj nth_Cons_0 nth_Cons_Suc)
    then show ?thesis using Cons.IH [OF _ _ _ Cons.prems(4) k(1) r(1), of l] Cons.prems(1,2) Suc r(2) by simp
  qed
qed simp


section \<open>At concrete inputs\<close>

lemma fields_visible:
  "list_all visible_ascii s \<Longrightarrow> fields_of (rune_chunks s) field = (if field @ s = '''' then [] else [field @ s])"
proof (induction s arbitrary: field)
  case (Cons c s)
  then have "\<not> is_space (code c)" "rune_chunks (c # s) = (code c, [c]) # rune_chunks s"
    using not_is_space_visible [of c] by (auto simp: visible_ascii_def simp del: rune_chunks.simps(2))
  then show ?case using Cons by (simp del: rune_chunks.simps(2))
qed simp

lemma bearer_visible:
  assumes "list_all visible_ascii ticket" "ticket \<noteq> ''''"
  shows "bearer [''Bearer '' @ ticket] = Some ticket"
  using assms fields_visible [OF assms(1), of "''''"]
  by (simp add: bearer_def Fields_def is_space_def EqualFold_def del: rune_chunks.simps(2))

definition g_claims :: "64 word \<Rightarrow> 64 word \<Rightarrow> 64 word \<Rightarrow> Claims" where
  "g_claims generation issued expires = t_claims \<lparr> cl_SessionGeneration := generation, cl_IssuedAt := issued,
     cl_NotBefore := issued, cl_ExpiresAt := expires \<rparr>"

definition g_crypto :: crypto where
  "g_crypto = t_crypto \<lparr> cr_decodeClaims := \<lambda>raw. Some (if raw = [2] then g_claims 2 1000 1060 else g_claims 1 1040 1100, True) \<rparr>"

definition g_ticket :: "bytes \<Rightarrow> string" where
  "g_ticket raw = b64Encode [1] @ ''.'' @ b64Encode raw @ ''.'' @ b64Encode (replicate 64 0)"

definition g_clock :: "nat \<Rightarrow> time" where
  "g_clock n = (unixToInternal + (if n < 8 then 1030 else 1070)) * Second"

definition g_keys :: VerificationKeySet where
  "g_keys = \<lparr> vs_Generation = 1, vs_Keys = [\<lparr> vk_ID = ''k1'', vk_Algorithm = ''EdDSA'', vk_PublicKey = ''key'', vk_NotBefore = 1,
     vk_NotAfter = (unixToInternal + 2000) * Second \<rparr>] \<rparr>"

definition g_verifier :: Verifier where
  "g_verifier = t_verifier \<lparr> vr_keyValidity := [(''k1'', \<lparr> kv_NotBefore = 1, kv_NotAfter = (unixToInternal + 2000) * Second \<rparr>)] \<rparr>"

abbreviation g_parse :: key_parser where
  "g_parse \<equiv> \<lambda>_. Some (''PUBLIC KEY'', Some (replicate 32 0), '''')"

lemma g_claims_valid: "validateClaims (g_claims 2 1000 1060) = Inr ()" "validateClaims (g_claims 1 1040 1100) = Inr ()"
proof -
  have "validLowerHex (replicate 64 CHR ''a'') 64" using t_claims_valid by (simp add: validateClaims_iff t_claims_def)
  then show "validateClaims (g_claims 2 1000 1060) = Inr ()" "validateClaims (g_claims 1 1040 1100) = Inr ()"
    by (simp_all add: validateClaims_iff g_claims_def t_simps Version_def claimedLifetime_def MaximumLifetime_def Minute_def Second_def)
qed

lemma g_verified:
  assumes "raw = [2] \<and> c = g_claims 2 1000 1060 \<and> n < 8 \<or> raw = [3] \<and> c = g_claims 1 1040 1100 \<and> 8 \<le> n"
  shows "Verify g_crypto g_verifier (g_clock n) (g_ticket raw) = Inr c"
proof -
  have "Split (g_ticket raw) CHR ''.'' = [b64Encode [1], b64Encode raw, b64Encode (replicate 64 0)]"
    unfolding g_ticket_def by (rule Split_dotted; rule b64_no_dot)
  moreover have "length (g_ticket raw) \<le> 8192"
    using assms length_sextets [of "map unat (replicate 64 0 :: bytes)"] by (auto simp: g_ticket_def b64Encode_def)
  moreover have "TrimSpace (g_ticket raw) = g_ticket raw" unfolding g_ticket_def by (rule dotted_trimmed)
  moreover have "validateClaims c = Inr ()" using assms g_claims_valid by blast
  ultimately show ?thesis
    using assms
    by (auto simp: Verify_parts signed_by_def b64Encode_nonempty decodePart_def DecodeStrictJSON_def g_crypto_def t_crypto_def
        g_verifier_def t_verifier_def keyInValidity_def claimsAccepted_def g_claims_def t_claims_def g_clock_def Unix_def Second_def
        unixToInternal_def MaximumTicketBytes_def t_simps g_ticket_def)
qed

definition g_authenticator :: TicketAuthenticator where
  "g_authenticator = \<lparr> ta_RequiredOperation = ''tunnel'', ta_ReplayEntries = 8, ta_ClockSkew = 0, ta_requestVerifier = None,
     ta_relayID = '''', ta_issuer = '''', ta_keyGeneration = 0 \<rparr>"

definition g_request_verifier :: RequestVerifier where
  "g_request_verifier = \<lparr> rv_verifier = g_verifier, rv_replay = \<lparr> rp_expires = [], rp_maxEntries = 8 \<rparr>,
     rv_generations = \<lparr> gg_entries = [], gg_maxEntries = 8 \<rparr>, rv_revocations = None \<rparr>"

lemma g_applied:
  "Apply g_parse (g_clock 0) ''https://cp'' ''relay-1'' g_keys g_authenticator =
     (Inr (), g_authenticator \<lparr> ta_requestVerifier := Some g_request_verifier, ta_relayID := ''relay-1'', ta_issuer := ''https://cp'',
        ta_keyGeneration := 1 \<rparr>)"
proof -
  have p: "VerificationKeySet_Parse g_parse g_keys (g_clock 0) = Inr [(''k1'', \<lparr> pk_PublicKey = replicate 32 0, pk_NotBefore = 1,
      pk_NotAfter = (unixToInternal + 2000) * Second \<rparr>)]"
    by (simp add: VerificationKeySet_Parse_def VerificationKeySet_validate_def g_keys_def g_clock_def bindE_def checkE_def
        safeIdentityValue_def text_eval identity_rune_def IsZero_def unixToInternal_def Second_def)
  have v: "NewVerifier (verifier_config g_authenticator ''https://cp'' ''relay-1'' [(''k1'', \<lparr> pk_PublicKey = replicate 32 0, pk_NotBefore = 1,
      pk_NotAfter = (unixToInternal + 2000) * Second \<rparr>)]) = Inr g_verifier"
    by (simp add: NewVerifier_def verifier_config_def g_authenticator_def t_simps DefaultClockSkew_def Minute_def Second_def IsZero_def
        unixToInternal_def bindE_def g_verifier_def t_verifier_def Let_def)
  show ?thesis
    by (simp add: Apply_def p v) (simp add: g_authenticator_def install_verifier_def NewReplayGuard_def NewRequestVerifier_def
        NewSessionGenerationGuard_def UpdateVerifier_def bindE_def g_request_verifier_def g_keys_def)
qed

definition g_requests :: "auth_request list" where
  "g_requests = [KeysRequest ''https://cp'' ''relay-1'' g_keys, TicketRequest [''Bearer '' @ g_ticket [2]] True,
     TicketRequest [''Bearer '' @ g_ticket [3]] False]"

lemma g_bearer: "bearer [''Bearer '' @ g_ticket raw] = Some (g_ticket raw)"
proof (rule bearer_visible)
  have "list_all visible_ascii (b64Encode bs)" for bs using b64Encode_visible [of bs] by (simp add: list_all_iff)
  then show "list_all visible_ascii (g_ticket raw)" by (simp add: g_ticket_def visible_ascii_def)
qed (simp add: g_ticket_def)

lemma g_served:
  "fst (serve_requests g_crypto g_parse g_clock g_requests 0 g_authenticator) =
     [Applied (Inr ()), Admitted (g_claims 2 1000 1060) True, Admitted (g_claims 1 1040 1100) False]"
proof -
  have v: "Verify g_crypto g_verifier (g_clock 4) (g_ticket [2]) = Inr (g_claims 2 1000 1060)"
    "Verify g_crypto g_verifier (g_clock 8) (g_ticket [3]) = Inr (g_claims 1 1040 1100)"
    using g_verified by auto
  have t: "Unix (g_clock n) = (if n < 8 then 1030 else 1070)" for n by (simp add: g_clock_def Unix_def Second_def)
  have i: "ValidIdentifier ''t1'' 128" "ValidIdentifier ''s1'' 128" by (simp_all add: t_simps)
  have c: "cl_TicketID (g_claims g x e) = ''t1''" "cl_SessionID (g_claims g x e) = ''s1''" "cl_SessionGeneration (g_claims g x e) = g"
    "cl_ExpiresAt (g_claims g x e) = e" for g x e
    by (simp_all add: g_claims_def t_claims_def)
  note g = g_bearer [unfolded append.simps]
  have s1: "verify_request g_crypto g_clock [''Bearer '' @ g_ticket [2]] True 4 g_request_verifier = (Inr (g_claims 2 1000 1060),
      g_request_verifier \<lparr> rv_replay := \<lparr> rp_expires = [(''t1'', 1060)], rp_maxEntries = 8 \<rparr>,
        rv_generations := \<lparr> gg_entries = [(''s1'', \<lparr> ge_generation = 2, ge_expiresAt = 1060 \<rparr>)], gg_maxEntries = 8 \<rparr> \<rparr>)"
    using v(1) by (simp add: verify_request_def g c i t Consume_def Accept_def insert_generation_def Let_def g_request_verifier_def)
  let ?rv = "g_request_verifier \<lparr> rv_replay := \<lparr> rp_expires = [(''t1'', 1060)], rp_maxEntries = 8 \<rparr>,
        rv_generations := \<lparr> gg_entries = [(''s1'', \<lparr> ge_generation = 2, ge_expiresAt = 1060 \<rparr>)], gg_maxEntries = 8 \<rparr> \<rparr>"
  have s2: "fst (verify_request g_crypto g_clock [''Bearer '' @ g_ticket [3]] False 8 ?rv) = Inr (g_claims 1 1040 1100)"
    using v(2) by (simp add: verify_request_def g c i t Accept_def insert_generation_def Let_def g_request_verifier_def)
  show ?thesis using s2
    by (simp add: g_requests_def serve_request_def g_applied VerifyTicket_def s1 case_prod_unfold Let_def del: append.simps)
qed


end
