(* ===== verification/Wss.thy ===== *)
theory Wss
  imports RelayTicket
begin

text \<open>
  The handshake of the tunnel's WebSocket, \<^verbatim>\<open>internal/protocol/wss\<close>: its messages and their validation, the codec around
  JSON, the negotiation of versions. Parsing and comparing release versions is a library; its parser is a parameter.
\<close>

section \<open>Messages\<close>

definition WssVersion :: string where "WssVersion = ''2.0''"
definition Subprotocol :: string where "Subprotocol = ''kubeloop-mux-v2''"
definition CapabilityTunnelControl :: string where "CapabilityTunnelControl = ''tunnel.control.v2''"
definition CapabilityTrafficWebSocket :: string where "CapabilityTrafficWebSocket = ''traffic.websocket.v1''"
definition CapabilityTrafficEncryption :: string where "CapabilityTrafficEncryption = ''traffic.noise.v1''"
definition MaximumHandshakeBytes :: int where "MaximumHandshakeBytes = 8192"
definition DefaultHandshakeTimeout :: duration where "DefaultHandshakeTimeout = 10 * Second"
definition KindClientHello :: string where "KindClientHello = ''client_hello''"
definition KindServerHello :: string where "KindServerHello = ''server_hello''"
definition KindReject :: string where "KindReject = ''reject''"

record ClientHello =
  ch_Type :: string
  ch_ProtocolVersions :: "string list"
  ch_ClientVersion :: string
  ch_DeviceID :: string
  ch_Capabilities :: "string list"

record Limits =
  li_MaximumFrameBytes :: int
  li_MaximumStreamFrameBytes :: int
  li_MaximumStreamsPerConnection :: int
  li_MaximumPhysicalConnections :: int
  li_MaximumConnectionsPerUser :: int
  li_StreamIdleTimeoutMillis :: int

record ServerHello =
  sh_Type :: string
  sh_ProtocolVersion :: string
  sh_ServerVersion :: string
  sh_Capabilities :: "string list"
  sh_Limits :: Limits

record Reject =
  rj_Type :: string
  rj_Code :: string
  rj_Message :: string
  rj_SupportedVersions :: "string list"

text \<open>A \<^verbatim>\<open>Message\<close> with exactly one of its three fields set.\<close>

datatype wss_message = ClientHelloMessage ClientHello | ServerHelloMessage ServerHello | RejectMessage Reject

definition developmentVersion :: string where "developmentVersion = ''dev''"

definition allCapabilities :: "string list" where
  "allCapabilities = [''cancel'', ''half-close'', ''ping-pong'', ''smux.v2'', CapabilityTrafficWebSocket, CapabilityTrafficEncryption,
     CapabilityTunnelControl]"

definition NewClientHello :: "string \<Rightarrow> string \<Rightarrow> ClientHello" where
  "NewClientHello clientVersion deviceID = \<lparr> ch_Type = KindClientHello, ch_ProtocolVersions = [WssVersion],
     ch_ClientVersion = (if TrimSpace clientVersion = '''' then developmentVersion else clientVersion),
     ch_DeviceID = deviceID, ch_Capabilities = allCapabilities \<rparr>"

definition NewServerHello :: "string \<Rightarrow> Limits \<Rightarrow> ServerHello" where
  "NewServerHello serverVersion limits = \<lparr> sh_Type = KindServerHello, sh_ProtocolVersion = WssVersion,
     sh_ServerVersion = (if TrimSpace serverVersion = '''' then developmentVersion else serverVersion),
     sh_Capabilities = allCapabilities, sh_Limits = limits \<rparr>"

definition NewReject :: "string \<Rightarrow> string \<Rightarrow> string list \<Rightarrow> Reject" where
  "NewReject reason message versions = \<lparr> rj_Type = KindReject, rj_Code = reason, rj_Message = message, rj_SupportedVersions = versions \<rparr>"

section \<open>Validation\<close>

definition control_rune :: "nat \<Rightarrow> bool" where
  "control_rune r \<longleftrightarrow> r < 32 \<or> r = 127"

definition wssSafeText :: "string \<Rightarrow> nat \<Rightarrow> bool" where
  "wssSafeText value maximum \<longleftrightarrow> \<not> (value = '''' \<or> length value > maximum \<or> TrimSpace value \<noteq> value) \<and>
     list_all (\<lambda>r. \<not> control_rune r) (runes value)"

definition wss_identifier_rune :: "nat \<Rightarrow> bool" where
  "wss_identifier_rune r \<longleftrightarrow> 97 \<le> r \<and> r \<le> 122 \<or> 65 \<le> r \<and> r \<le> 90 \<or> 48 \<le> r \<and> r \<le> 57 \<or> r \<in> code ` set ''-._''"

definition wssSafeIdentifier :: "string \<Rightarrow> nat \<Rightarrow> bool" where
  "wssSafeIdentifier value maximum \<longleftrightarrow> wssSafeText value maximum \<and> list_all wss_identifier_rune (runes value)"

fun unique_identifiers :: "nat \<Rightarrow> string list \<Rightarrow> string list \<Rightarrow> bool" where
  "unique_identifiers maximumLength seen [] \<longleftrightarrow> True"
| "unique_identifiers maximumLength seen (value # values) \<longleftrightarrow>
     wssSafeIdentifier value maximumLength \<and> value \<notin> set seen \<and> unique_identifiers maximumLength (value # seen) values"

definition validUniqueIdentifiers :: "string list \<Rightarrow> nat \<Rightarrow> nat \<Rightarrow> bool" where
  "validUniqueIdentifiers values maximumItems maximumLength \<longleftrightarrow>
     \<not> (length values = 0 \<or> length values > maximumItems) \<and> unique_identifiers maximumLength [] values"

definition ClientHello_Validate :: "ClientHello \<Rightarrow> bool" where
  "ClientHello_Validate hello \<longleftrightarrow>
     \<not> (ch_Type hello \<noteq> KindClientHello \<or> length (ch_ProtocolVersions hello) = 0 \<or> length (ch_ProtocolVersions hello) > 8 \<or>
        \<not> wssSafeText (ch_ClientVersion hello) 64 \<or> \<not> wssSafeIdentifier (ch_DeviceID hello) 256 \<or>
        \<not> validUniqueIdentifiers (ch_Capabilities hello) 32 64) \<and>
     validUniqueIdentifiers (ch_ProtocolVersions hello) 8 16"

definition Milliseconds :: "duration \<Rightarrow> int" where
  "Milliseconds d = (if d < 0 then - (- d div Millisecond) else d div Millisecond)"

definition ServerHello_Validate :: "ServerHello \<Rightarrow> bool" where
  "ServerHello_Validate hello \<longleftrightarrow>
     (let limits = sh_Limits hello;
          validConnectionLimits = (li_MaximumConnectionsPerUser limits \<ge> 1 \<and>
            li_MaximumConnectionsPerUser limits \<le> li_MaximumPhysicalConnections limits) in
      \<not> (sh_Type hello \<noteq> KindServerHello \<or> \<not> wssSafeIdentifier (sh_ProtocolVersion hello) 16 \<or>
        \<not> wssSafeText (sh_ServerVersion hello) 64 \<or> \<not> validUniqueIdentifiers (sh_Capabilities hello) 32 64 \<or>
        li_MaximumFrameBytes limits < MaximumHandshakeBytes \<or> li_MaximumFrameBytes limits > 16777216 \<or>
        li_MaximumStreamFrameBytes limits < 1 \<or> li_MaximumStreamFrameBytes limits > 1048576 \<or>
        li_MaximumStreamsPerConnection limits < 1 \<or> li_MaximumStreamsPerConnection limits > 1048576 \<or>
        li_MaximumPhysicalConnections limits < 1 \<or> li_MaximumPhysicalConnections limits > 1048576 \<or>
        \<not> validConnectionLimits \<or>
        li_StreamIdleTimeoutMillis limits \<le> 0 \<or> li_StreamIdleTimeoutMillis limits > Milliseconds (24 * Hour)))"

definition Reject_Validate :: "Reject \<Rightarrow> bool" where
  "Reject_Validate reject \<longleftrightarrow>
     \<not> (rj_Type reject \<noteq> KindReject \<or> \<not> wssSafeIdentifier (rj_Code reject) 64 \<or> \<not> wssSafeText (rj_Message reject) 256 \<or>
        length (rj_SupportedVersions reject) > 0 \<and> \<not> validUniqueIdentifiers (rj_SupportedVersions reject) 8 16)"

definition validateMessage :: "wss_message \<Rightarrow> bool" where
  "validateMessage message = (case message of ClientHelloMessage hello \<Rightarrow> ClientHello_Validate hello
     | ServerHelloMessage hello \<Rightarrow> ServerHello_Validate hello | RejectMessage reject \<Rightarrow> Reject_Validate reject)"

section \<open>Negotiation\<close>

definition WssNegotiate :: "string list \<Rightarrow> string list \<Rightarrow> string + string" where
  "WssNegotiate client server =
     (if \<not> validUniqueIdentifiers client 8 16 \<or> \<not> validUniqueIdentifiers server 8 16 then Inl ''invalid WSS v2 handshake''
      else case find (\<lambda>supported. supported \<in> set client) server of
        Some supported \<Rightarrow> Inr supported | None \<Rightarrow> Inl ''VERSION_MISMATCH'')"

text \<open>\<open>compare_versions\<close>: a parsed version below another one; \<open>None\<close> when one of them does not parse.\<close>

definition CheckClientVersion :: "(string \<Rightarrow> string \<Rightarrow> bool option) \<Rightarrow> string \<Rightarrow> string \<Rightarrow> bool" where
  "CheckClientVersion below current minimum =
     (let current = TrimSpace current; minimum = TrimSpace minimum in
      if minimum = '''' \<or> current = ''dev'' then True
      else case below (TrimPrefix current ''v'') (TrimPrefix minimum ''v'') of
        None \<Rightarrow> False | Some is_below \<Rightarrow> \<not> is_below)"

section \<open>The codec\<close>

record wss_json =
  wj_marshal :: "wss_message \<Rightarrow> bytes option"
  wj_type :: "bytes \<Rightarrow> string option"
  wj_clientHello :: "bytes \<Rightarrow> (ClientHello \<times> bool) option"
  wj_serverHello :: "bytes \<Rightarrow> (ServerHello \<times> bool) option"
  wj_reject :: "bytes \<Rightarrow> (Reject \<times> bool) option"

definition WssEncode :: "wss_json \<Rightarrow> wss_message \<Rightarrow> bytes option" where
  "WssEncode json message =
     (if \<not> validateMessage message then None
      else case wj_marshal json message of
        None \<Rightarrow> None
      | Some raw \<Rightarrow> if int (length raw) > MaximumHandshakeBytes then None else Some raw)"

definition WssDecode :: "wss_json \<Rightarrow> bytes \<Rightarrow> wss_message option" where
  "WssDecode json raw =
     (if length raw = 0 \<or> int (length raw) > MaximumHandshakeBytes then None
      else case wj_type json raw of
        None \<Rightarrow> None
      | Some kind \<Rightarrow>
          if kind = KindClientHello then
            (case DecodeStrictJSON (wj_clientHello json) raw of
               None \<Rightarrow> None | Some hello \<Rightarrow> if \<not> ClientHello_Validate hello then None else Some (ClientHelloMessage hello))
          else if kind = KindServerHello then
            (case DecodeStrictJSON (wj_serverHello json) raw of
               None \<Rightarrow> None | Some hello \<Rightarrow> if \<not> ServerHello_Validate hello then None else Some (ServerHelloMessage hello))
          else if kind = KindReject then
            (case DecodeStrictJSON (wj_reject json) raw of
               None \<Rightarrow> None | Some reject \<Rightarrow> if \<not> Reject_Validate reject then None else Some (RejectMessage reject))
          else None)"

text \<open>\<^verbatim>\<open>Read\<close> with the answer of the connection, the kind of frame and its bytes, and \<^verbatim>\<open>Write\<close> with its result.\<close>

definition WssRead :: "wss_json \<Rightarrow> (bool \<times> bytes) option \<Rightarrow> wss_message option" where
  "WssRead json answer = (case answer of
       None \<Rightarrow> None | Some (is_binary, raw) \<Rightarrow> if \<not> is_binary then None else WssDecode json raw)"

definition WssWrite :: "wss_json \<Rightarrow> wss_message \<Rightarrow> (bytes \<Rightarrow> bool) \<Rightarrow> bool" where
  "WssWrite json message write = (case WssEncode json message of None \<Rightarrow> False | Some raw \<Rightarrow> write raw)"

section \<open>What the codec and the negotiation promise\<close>

text \<open>The JSON library decodes what it encoded, and every message has its kind in the field \<^verbatim>\<open>type\<close>.\<close>

definition json_law :: "wss_json \<Rightarrow> bool" where
  "json_law json \<longleftrightarrow> (\<forall>message raw. wj_marshal json message = Some raw \<longrightarrow> raw \<noteq> [] \<and>
     (case message of
        ClientHelloMessage hello \<Rightarrow> wj_type json raw = Some (ch_Type hello) \<and> wj_clientHello json raw = Some (hello, True)
      | ServerHelloMessage hello \<Rightarrow> wj_type json raw = Some (sh_Type hello) \<and> wj_serverHello json raw = Some (hello, True)
      | RejectMessage reject \<Rightarrow> wj_type json raw = Some (rj_Type reject) \<and> wj_reject json raw = Some (reject, True)))"

lemma kinds_differ [simp]:
  "KindClientHello \<noteq> KindServerHello" "KindServerHello \<noteq> KindClientHello" "KindClientHello \<noteq> KindReject"
  "KindReject \<noteq> KindClientHello" "KindServerHello \<noteq> KindReject" "KindReject \<noteq> KindServerHello"
  by (simp_all add: KindClientHello_def KindServerHello_def KindReject_def)

lemma unique_identifiers_iff:
  "unique_identifiers maximum seen items \<longleftrightarrow>
     list_all (\<lambda>value. wssSafeIdentifier value maximum) items \<and> distinct items \<and> set items \<inter> set seen = {}"
  by (induction items arbitrary: seen) auto

text \<open>Every message that can be written is read back as it was.\<close>

theorem handshake_message_roundtrip:
  assumes "json_law json" "WssEncode json message = Some raw"
  shows "WssRead json (Some (True, raw)) = Some message"
proof -
  have m: "validateMessage message" "wj_marshal json message = Some raw" "int (length raw) \<le> MaximumHandshakeBytes"
    using assms(2) by (auto simp: WssEncode_def split: if_splits option.splits)
  then have law: "raw \<noteq> []" "case message of
        ClientHelloMessage hello \<Rightarrow> wj_type json raw = Some (ch_Type hello) \<and> wj_clientHello json raw = Some (hello, True)
      | ServerHelloMessage hello \<Rightarrow> wj_type json raw = Some (sh_Type hello) \<and> wj_serverHello json raw = Some (hello, True)
      | RejectMessage reject \<Rightarrow> wj_type json raw = Some (rj_Type reject) \<and> wj_reject json raw = Some (reject, True)"
    using assms(1) unfolding json_law_def by blast+
  have kind: "case message of ClientHelloMessage hello \<Rightarrow> ch_Type hello = KindClientHello
     | ServerHelloMessage hello \<Rightarrow> sh_Type hello = KindServerHello | RejectMessage reject \<Rightarrow> rj_Type reject = KindReject"
    using m(1) by (cases message) (auto simp: validateMessage_def ClientHello_Validate_def ServerHello_Validate_def Reject_Validate_def Let_def)
  show ?thesis using m law kind
    by (cases message) (simp_all add: WssRead_def WssDecode_def DecodeStrictJSON_def validateMessage_def)
qed

text \<open>The negotiated version is the first one of the server's that the client offers.\<close>

lemma WssNegotiate_result:
  "WssNegotiate client server = Inr chosen \<Longrightarrow> chosen \<in> set client \<and> chosen \<in> set server"
  by (auto simp: WssNegotiate_def find_Some_iff split: if_splits option.splits)

end
