(* ===== verification/Accounts.thy ===== *)
theory Accounts
  imports Threads "HOL-Library.Multiset"
begin

text \<open>
  Counters that threads of a pool raise and lower: what a thread has taken and will give back is its debt, a multiset
  of resources, and the counters of the memory are the sum of the debts of the pool's threads. As tokens, debts are in
  the proofs only. A debt is found from the rest of the thread's program, so a thread that has returned owes nothing.
  A thread may wait only for resources of the kind \<open>awaited\<close> to be given back, and only when it owes none of them: then
  some thread of the pool can always go on.
\<close>

locale accounts =
  fixes good :: "'m \<Rightarrow> bool"
    and held :: "'m \<Rightarrow> 'r \<Rightarrow> nat"
    and evolves :: "'m \<Rightarrow> 'm \<Rightarrow> bool"
    and given :: "'m \<Rightarrow> 'r multiset list"
    and awaited :: "'r \<Rightarrow> bool"
begin

text \<open>A step that turns the debt \<open>D\<close> into \<open>D'\<close> and hands \<open>given m'\<close> to the threads it starts.\<close>

definition settles :: "'r multiset \<Rightarrow> 'm \<Rightarrow> 'r multiset \<Rightarrow> 'm \<Rightarrow> bool" where
  "settles D m D' m' \<longleftrightarrow> good m' \<and> evolves m m' \<and> (\<forall>r. held m' r + count D r = held m r + count (D' + sum_list (given m')) r)"

definition covered :: "'r multiset \<Rightarrow> 'm \<Rightarrow> bool" where
  "covered D m \<longleftrightarrow> good m \<and> given m = [] \<and> (\<forall>r. count D r \<le> held m r)"

definition may_wait :: "'r multiset \<Rightarrow> 'm \<Rightarrow> bool" where
  "may_wait D m \<longleftrightarrow> (\<exists>r. awaited r \<and> held m r \<noteq> 0) \<and> (\<forall>r\<in>#D. \<not> awaited r)"

inductive owes :: "'r multiset \<Rightarrow> ('m, 'a) prog \<Rightarrow> ('a \<Rightarrow> 'r multiset) \<Rightarrow> bool" where
  owes_Return: "owes (Q x) (Return x) Q"
| owes_Step: "(\<And>m. covered D m \<Longrightarrow> g m = None \<Longrightarrow> may_wait D m) \<Longrightarrow> (\<And>m p m'. covered D m \<Longrightarrow> g m = Some (p, m') \<Longrightarrow> \<exists>D'. settles D m D' m' \<and> owes D' p Q) \<Longrightarrow> owes D (Step g) Q"

inductive_cases owes_ReturnE: "owes D (Return x) Q"

lemma owes_ReturnI: "D = Q x \<Longrightarrow> owes D (Return x) Q"
  by (simp add: owes_Return)

lemma owes_stepD:
  "owes D (Step g) Q \<Longrightarrow> covered D m \<Longrightarrow> g m = Some (p, m') \<Longrightarrow> \<exists>D'. settles D m D' m' \<and> owes D' p Q"
  by (erule owes.cases) auto

lemma owes_waitD: "owes D (Step g) Q \<Longrightarrow> covered D m \<Longrightarrow> g m = None \<Longrightarrow> may_wait D m"
  by (erule owes.cases) auto

lemma owes_andThen:
  assumes "owes D p Q" "\<And>x. owes (Q x) (f x) R"
  shows "owes D (andThen p f) R"
  using assms
proof (induction D p Q rule: owes.induct)
  case (owes_Return Q x)
  then show ?case by simp
next
  case (owes_Step D g Q)
  show ?case unfolding andThen.simps
  proof (rule owes.owes_Step)
    fix m assume "covered D m" "map_option (map_prod (\<lambda>p. andThen p f) id) (g m) = None"
    then show "may_wait D m" using owes_Step(1) by simp
  next
    fix m q m' assume c: "covered D m" and s: "map_option (map_prod (\<lambda>p. andThen p f) id) (g m) = Some (q, m')"
    obtain p where p: "g m = Some (p, m')" "q = andThen p f" using s by (cases "g m") auto
    show "\<exists>D'. settles D m D' m' \<and> owes D' q R" using owes_Step(2) [OF c p(1)] owes_Step(3) p(2) by blast
  qed
qed

lemma owes_atomic:
  fixes f :: "'m \<Rightarrow> 'a \<times> 'm"
  assumes "\<And>m x m'. covered D m \<Longrightarrow> f m = (x, m') \<Longrightarrow> settles D m (Q x) m'"
  shows "owes D (atomic f) Q"
  unfolding atomic_def
proof (rule owes.owes_Step)
  fix m assume "(let (x, m') = f m in Some (Return x, m')) = (None :: (('m, 'a) prog \<times> 'm) option)"
  then show "may_wait D m" by (simp split: prod.splits)
next
  fix m m' and p :: "('m, 'a) prog" assume "covered D m" "(let (x, m') = f m in Some (Return x, m')) = Some (p, m')"
  then show "\<exists>D'. settles D m D' m' \<and> owes D' p Q" using assms [of m] by (auto split: prod.splits intro: owes.owes_Return)
qed

lemma owes_await:
  fixes f :: "'m \<Rightarrow> ('a \<times> 'm) option"
  assumes "\<And>m. covered D m \<Longrightarrow> f m = None \<Longrightarrow> may_wait D m"
    and "\<And>m x m'. covered D m \<Longrightarrow> f m = Some (x, m') \<Longrightarrow> settles D m (Q x) m'"
  shows "owes D (await f) Q"
  unfolding await_def
proof (rule owes.owes_Step)
  fix m assume "covered D m" "map_option (map_prod Return id) (f m) = (None :: (('m, 'a) prog \<times> 'm) option)"
  then show "may_wait D m" using assms(1) by simp
next
  fix m m' and p :: "('m, 'a) prog" assume c: "covered D m" and s: "map_option (map_prod Return id) (f m) = Some (p, m')"
  obtain x where "f m = Some (x, m')" "p = Return x" using s by (cases "f m") auto
  then show "\<exists>D'. settles D m D' m' \<and> owes D' p Q" using assms(2) [OF c] by (auto intro: owes.owes_Return)
qed

end

text \<open>A pool whose threads pay their debts.\<close>

locale account_pool = accounts good held evolves given awaited
  for good :: "'m \<Rightarrow> bool" and held :: "'m \<Rightarrow> 'r \<Rightarrow> nat" and evolves :: "'m \<Rightarrow> 'm \<Rightarrow> bool" and given :: "'m \<Rightarrow> 'r multiset list"
    and awaited :: "'r \<Rightarrow> bool" +
  fixes forked :: "'m \<Rightarrow> ('m, 'res) prog list"
    and collected :: "'m \<Rightarrow> 'm"
    and halted :: "'m \<Rightarrow> bool"
  assumes given_forked: "length (given m) = length (forked m)"
    and forked_owes: "i < length (forked m) \<Longrightarrow> owes (given m ! i) (forked m ! i) (\<lambda>_. {#})"
    and collected_good: "good m \<Longrightarrow> good (collected m)"
    and collected_held: "held (collected m) r = held m r"
    and collected_given: "given (collected m) = []"
    and collected_evolves: "evolves m m' \<Longrightarrow> evolves m (collected m')"
begin

definition balanced :: "('m, 'res) prog list \<times> 'm \<Rightarrow> bool" where
  "balanced s \<longleftrightarrow> good (snd s) \<and> given (snd s) = [] \<and> (\<exists>Ds. length Ds = length (fst s) \<and>
     (\<forall>r. held (snd s) r = count (sum_list Ds) r) \<and> (\<forall>i<length (fst s). owes (Ds ! i) (fst s ! i) (\<lambda>_. {#})))"

lemma sum_list_split:
  fixes Ds :: "'r multiset list"
  assumes "i < length Ds"
  shows "sum_list Ds = Ds ! i + sum_list (Ds[i := {#}])" "sum_list (Ds[i := D]) = D + sum_list (Ds[i := {#}])"
proof -
  have "\<exists>E. \<forall>X. sum_list (Ds[i := X]) = X + E" using assms
  proof (induction Ds arbitrary: i)
    case (Cons A Ds)
    show ?case
    proof (cases i)
      case 0
      then show ?thesis by auto
    next
      case (Suc k)
      then obtain E where "\<forall>X. sum_list (Ds[k := X]) = X + E" using Cons by auto
      then show ?thesis using Suc by (intro exI [of _ "A + E"]) (simp add: ac_simps)
    qed
  qed simp
  then obtain E where E: "\<And>X. sum_list (Ds[i := X]) = X + E" by blast
  from E [of "Ds ! i"] E [of "{#}"] show "sum_list Ds = Ds ! i + sum_list (Ds[i := {#}])" by simp
  from E [of D] E [of "{#}"] show "sum_list (Ds[i := D]) = D + sum_list (Ds[i := {#}])" by simp
qed

lemma balanced_step:
  assumes "balanced s" "schedule forked collected halted i s = Some s'"
  shows "balanced s'" "evolves (snd s) (snd s')"
proof -
  obtain ps m where s: "s = (ps, m)" by (cases s)
  obtain Ds where gm: "good m" "given m = []" and Ds: "length Ds = length ps" "\<And>r. held m r = count (sum_list Ds) r"
    and ok: "\<And>j. j < length ps \<Longrightarrow> owes (Ds ! j) (ps ! j) (\<lambda>_. {#})"
    using assms(1) by (auto simp: balanced_def s)
  obtain g p m' where i: "i < length ps" and g: "ps ! i = Step g" "g m = Some (p, m')"
    and s': "s' = (ps[i := p] @ forked m', collected m')"
    using assms(2) by (auto simp: schedule_def s split: if_splits prog.splits option.splits)
  note split = sum_list_split [of i Ds]
  have c: "covered (Ds ! i) m" using gm Ds split(1) i by (simp add: covered_def)
  obtain D' where D': "settles (Ds ! i) m D' m'" "owes D' p (\<lambda>_. {#})"
    using owes_stepD [of "Ds ! i" g "\<lambda>_. {#}" m p m'] ok [OF i] g c by auto
  let ?Es = "Ds[i := D'] @ given m'"
  have "held (collected m') r = count (sum_list ?Es) r" for r
  proof -
    have "held m' r + count (Ds ! i) r = held m r + count (D' + sum_list (given m')) r" using D'(1) by (simp add: settles_def)
    then show ?thesis using Ds(2) [of r] split(1) split(2) [of D'] i Ds(1) by (simp add: collected_held)
  qed
  moreover have "length ?Es = length (ps[i := p] @ forked m')" using Ds(1) by (simp add: given_forked)
  moreover have "owes (?Es ! j) ((ps[i := p] @ forked m') ! j) (\<lambda>_. {#})" if j: "j < length (ps[i := p] @ forked m')" for j
  proof (cases "j < length ps")
    case True
    then show ?thesis using Ds(1) i D'(2) ok [OF True] by (cases "j = i") (auto simp: nth_append)
  next
    case False
    then show ?thesis using Ds(1) j forked_owes [of "j - length ps" m'] by (simp add: nth_append)
  qed
  moreover have "good (collected m')" using D'(1) collected_good by (simp add: settles_def)
  ultimately show "balanced s'" using collected_given unfolding balanced_def s' fst_conv snd_conv by blast
  show "evolves (snd s) (snd s')" using D'(1) by (simp add: s s' settles_def collected_evolves)
qed

theorem balanced_reached:
  assumes "reaches forked collected halted ops m0 s" "good m0" "given m0 = []" "\<And>r. held m0 r = 0" "\<And>p. p \<in> ops \<Longrightarrow> owes {#} p (\<lambda>_. {#})"
  shows "balanced s"
  using assms(1)
proof induction
  case start
  show ?case using assms(2-4) by (simp add: balanced_def)
next
  case (called ps m p)
  then obtain Ds where Ds: "good m" "given m = []" "length Ds = length ps" "\<forall>r. held m r = count (sum_list Ds) r"
    "\<forall>i<length ps. owes (Ds ! i) (ps ! i) (\<lambda>_. {#})" by (auto simp: balanced_def)
  then show ?case using assms(5) [OF called(2)] unfolding balanced_def
    by (auto simp: nth_append less_Suc_eq intro!: exI [of _ "Ds @ [{#}]"])
next
  case (stepped s i s')
  then show ?case using balanced_step by blast
qed

lemma balanced_good: "balanced s \<Longrightarrow> good (snd s)"
  by (simp add: balanced_def)

text \<open>When every thread has returned, nothing is held.\<close>

lemma balanced_returned:
  assumes "balanced s" "\<And>p. p \<in> set (fst s) \<Longrightarrow> \<exists>x. p = Return x"
  shows "held (snd s) r = 0"
proof -
  obtain Ds where Ds: "length Ds = length (fst s)" "\<And>r. held (snd s) r = count (sum_list Ds) r"
    "\<And>i. i < length (fst s) \<Longrightarrow> owes (Ds ! i) (fst s ! i) (\<lambda>_. {#})" using assms(1) by (auto simp: balanced_def)
  have "D = {#}" if "D \<in> set Ds" for D
  proof -
    obtain i where i: "i < length (fst s)" "D = Ds ! i" using \<open>D \<in> set Ds\<close> Ds(1) by (auto simp: in_set_conv_nth)
    obtain x where x: "fst s ! i = Return x" using assms(2) [of "fst s ! i"] i(1) by auto
    show ?thesis using Ds(3) [OF i(1)] unfolding x i(2) by (rule owes_ReturnE)
  qed
  then have "sum_list Ds = {#}" by (induction Ds) auto
  then show ?thesis using Ds(2) by simp
qed

text \<open>As long as a thread has not returned, some thread can make its next step.\<close>

lemma balanced_progress:
  assumes "balanced s" "\<not> halted (snd s)" "p \<in> set (fst s)" "\<And>x. p \<noteq> Return x"
  shows "\<exists>i s'. schedule forked collected halted i s = Some s'"
proof -
  obtain ps m where s: "s = (ps, m)" by (cases s)
  obtain Ds where gm: "good m" "given m = []" and Ds: "length Ds = length ps" "\<And>r. held m r = count (sum_list Ds) r"
    and ok: "\<And>j. j < length ps \<Longrightarrow> owes (Ds ! j) (ps ! j) (\<lambda>_. {#})"
    using assms(1) by (auto simp: balanced_def s)
  have c: "covered (Ds ! j) m" if "j < length ps" for j
    using gm Ds sum_list_split(1) [of j Ds] that by (simp add: covered_def)
  have goes: "\<exists>s'. schedule forked collected halted j s = Some s'" if "j < length ps" "ps ! j = Step g" "g m \<noteq> None" for j g
    using that assms(2) by (auto simp: schedule_def s)
  obtain i where i: "i < length ps" "ps ! i = p" using assms(3) by (auto simp: s in_set_conv_nth)
  obtain g where g: "p = Step g" using assms(4) by (cases p) auto
  show ?thesis
  proof (cases "g m")
    case None
    then obtain r where r: "awaited r" "held m r \<noteq> 0"
      using owes_waitD [of "Ds ! i" g "\<lambda>_. {#}" m] ok [OF i(1)] c [OF i(1)] i g by (auto simp: may_wait_def)
    have "r \<in># sum_list Ds" using r(2) Ds(2) [of r] by (metis count_eq_zero_iff)
    then have "\<exists>D\<in>set Ds. r \<in># D" by (induction Ds) auto
    then obtain j where j: "j < length ps" "r \<in># Ds ! j" using Ds(1) by (metis in_set_conv_nth)
    obtain h where h: "ps ! j = Step h"
    proof (cases "ps ! j")
      case (Return x)
      then have "Ds ! j = {#}" using ok [OF j(1)] by (auto elim: owes_ReturnE)
      then show ?thesis using j(2) by simp
    qed (rule that)
    have "h m \<noteq> None"
    proof
      assume "h m = None"
      then have "may_wait (Ds ! j) m" using owes_waitD [of "Ds ! j" h "\<lambda>_. {#}" m] ok [OF j(1)] c [OF j(1)] h by simp
      then show False using r(1) j(2) by (auto simp: may_wait_def)
    qed
    then show ?thesis using goes [OF j(1) h] by blast
  qed (use goes [of i g] i g in auto)
qed

end

end
