(* ===== verification/Admission.thy ===== *)
theory Admission
  imports Wss Accounts
begin

text \<open>
  How the Gateway admits tunnels: \<^verbatim>\<open>internal/gateway/websocketmux\<close> (\<open>handler.go\<close>, \<open>admission.go\<close>, \<open>server.go\<close>) and the
  identity that \<^verbatim>\<open>internal/gateway/run.go\<close> takes from a ticket. A request is a program of atomic steps, one for each
  critical section, channel operation and call; deferred functions run where Go runs them. The authenticator, the
  clock, the WebSocket library and the multiplexer are parameters by the number of the call; a session of the
  multiplexer accepts a finite number of streams before it ends.
\<close>

section \<open>Data\<close>

record RelayIdentity =
  id_RequestID :: string
  id_IdentityID :: string
  id_Groups :: "string list"
  id_DeviceID :: string
  id_SessionID :: string
  id_SessionGeneration :: "64 word"
  id_TicketID :: string
  id_Namespace :: string
  id_NetworkSpecHash :: string
  id_ExpiresAt :: time
  id_TrafficEncryption :: "bool option"
  id_NoisePublicKey :: string

text \<open>\<^verbatim>\<open>time.Unix(seconds, 0)\<close>.\<close>

definition unixTime :: "int \<Rightarrow> time" where
  "unixTime seconds = (seconds + unixToInternal) * Second"

definition gatewayIdentity :: "ticket_error + Claims \<Rightarrow> string + RelayIdentity" where
  "gatewayIdentity verified = (case verified of
       Inl _ \<Rightarrow> Inl ''relay ticket is invalid''
     | Inr claims \<Rightarrow>
         if length (cl_NetworkSpecHash claims) \<noteq> 64 then Inl ''RelayTicket NetworkSpec binding is required''
         else Inr \<lparr> id_RequestID = '''', id_IdentityID = cl_IdentityID claims, id_Groups = cl_Groups claims,
           id_DeviceID = cl_DeviceID claims, id_SessionID = cl_SessionID claims, id_SessionGeneration = cl_SessionGeneration claims,
           id_TicketID = cl_TicketID claims, id_Namespace = cl_Namespace claims, id_NetworkSpecHash = cl_NetworkSpecHash claims,
           id_ExpiresAt = unixTime (sint (cl_ExpiresAt claims)), id_TrafficEncryption = cl_TrafficEncryption claims,
           id_NoisePublicKey = cl_NoisePublicKey claims \<rparr>)"

record ServerConfig =
  sc_hasAuthenticator :: bool
  sc_MaxSessions :: int
  sc_MaxStreamsPerSession :: int
  sc_MaxSessionsPerUser :: int
  sc_MaxFrameBytes :: int
  sc_StreamIdleTimeout :: duration
  sc_HandshakeTimeout :: duration
  sc_ServerVersion :: string
  sc_MinClientVersion :: string
  sc_SupportedVersions :: "string list"
  sc_TrafficEncryption :: "bool option"
  sc_NoisePublicKey :: string
  sc_hasHandle :: bool

text \<open>What of a \<^verbatim>\<open>Handler\<close> never changes, and what does.\<close>

record Handler =
  hn_config :: ServerConfig
  hn_legacyUnpinnedEncryption :: bool

record activeGeneration =
  ag_latest :: "64 word"
  ag_sessions :: int

datatype mux_event =
    SessionOpened RelayIdentity ClientHello string
  | SessionClosed RelayIdentity
  | StreamOpened nat RelayIdentity
  | StreamClosed nat RelayIdentity
  | StreamStale nat RelayIdentity
  | StreamLimited nat RelayIdentity
  | RejectWritten Reject
  | MultiplexerClosed nat
  | ConnectionClosed

text \<open>
  \<open>mx_streams k\<close> is the number of values in the channel \<^verbatim>\<open>streams\<close> of the multiplexer that the call \<open>k\<close> made, and
  \<open>mx_running k\<close> the counter of its \<^verbatim>\<open>streamHandlers\<close>.
\<close>

record mux =
  mx_draining :: bool
  mx_limit :: nat
  mx_generations :: "(string \<times> activeGeneration) list"
  mx_users :: "(string \<times> int) list"
  mx_streams :: "nat \<Rightarrow> nat"
  mx_running :: "nat \<Rightarrow> nat"
  mx_started :: "(nat \<times> RelayIdentity) list"
  mx_calls :: nat
  mx_events :: "mux_event list"

type_synonym 'a mux_prog = "(mux, 'a) prog"

definition empty_mux :: mux where
  "empty_mux = \<lparr> mx_draining = False, mx_limit = 0, mx_generations = [], mx_users = [], mx_streams = (\<lambda>_. 0), mx_running = (\<lambda>_. 0),
     mx_started = [],
     mx_calls = 0, mx_events = [] \<rparr>"

definition defaultMaxStreams :: int where "defaultMaxStreams = 128"
definition defaultStreamIdleTimeout :: duration where "defaultStreamIdleTimeout = 30 * Minute"
definition maxStreamIdleTimeout :: duration where "maxStreamIdleTimeout = 24 * Hour"
definition MaximumStreamFrameBytes :: int where "MaximumStreamFrameBytes = 65536"

section \<open>The handler's configuration\<close>

definition NewHandler :: "ServerConfig \<Rightarrow> string + Handler" where
  "NewHandler config =
     (if \<not> sc_hasAuthenticator config then Inl ''gateway WebSocket authenticator is required''
      else let legacy = (sc_TrafficEncryption config = None);
               configuredEncryption = (case sc_TrafficEncryption config of None \<Rightarrow> True | Some value \<Rightarrow> value) in
      if configuredEncryption \<and> sc_NoisePublicKey config = '''' \<and> \<not> legacy then Inl ''gateway Noise public key is required''
      else if \<not> configuredEncryption \<and> sc_NoisePublicKey config \<noteq> ''''
      then Inl ''gateway Noise public key requires traffic encryption''
      else if \<not> sc_hasHandle config then Inl ''gateway stream handler is required''
      else let maxSessions = (if sc_MaxSessions config \<le> 0 then 256 else sc_MaxSessions config);
               maxStreams = (if sc_MaxStreamsPerSession config \<le> 0 then defaultMaxStreams else sc_MaxStreamsPerSession config);
               maxPerUser = (if sc_MaxSessionsPerUser config \<le> 0 then 8 else sc_MaxSessionsPerUser config) in
      if maxPerUser > maxSessions then Inl ''gateway per-user session limit exceeds the global limit''
      else let maxFrame = (if sc_MaxFrameBytes config = 0 then 1048576 else sc_MaxFrameBytes config) in
      if maxFrame < MaximumHandshakeBytes \<or> maxFrame > 16777216 then Inl ''gateway WebSocket frame limit is invalid''
      else let handshake = (if sc_HandshakeTimeout config \<le> 0 then DefaultHandshakeTimeout else sc_HandshakeTimeout config) in
      if handshake > Minute then Inl ''gateway WSS handshake timeout must not exceed one minute''
      else let versions = (if length (sc_SupportedVersions config) = 0 then [WssVersion] else sc_SupportedVersions config) in
      if versions \<noteq> [WssVersion] then Inl ''gateway WSS protocol versions are invalid''
      else let idle = (if sc_StreamIdleTimeout config \<le> 0 then defaultStreamIdleTimeout else sc_StreamIdleTimeout config) in
      if idle > maxStreamIdleTimeout then Inl ''gateway stream idle timeout must not exceed 24 hours''
      else Inr \<lparr> hn_config = config \<lparr> sc_TrafficEncryption := Some configuredEncryption, sc_MaxSessions := maxSessions,
          sc_MaxStreamsPerSession := maxStreams, sc_MaxSessionsPerUser := maxPerUser, sc_MaxFrameBytes := maxFrame,
          sc_HandshakeTimeout := handshake, sc_SupportedVersions := versions, sc_StreamIdleTimeout := idle \<rparr>,
        hn_legacyUnpinnedEncryption = legacy \<rparr>)"

section \<open>Admission\<close>

definition generation_of :: "mux \<Rightarrow> string \<Rightarrow> activeGeneration" where
  "generation_of m sessionID = (case map_of (mx_generations m) sessionID of
     None \<Rightarrow> \<lparr> ag_latest = 0, ag_sessions = 0 \<rparr> | Some current \<Rightarrow> current)"

definition acquireGeneration :: "RelayIdentity \<Rightarrow> bool mux_prog" where
  "acquireGeneration identity = atomic (\<lambda>m.
     let current = generation_of m (id_SessionID identity) in
     if id_SessionGeneration identity < ag_latest current then (False, m)
     else (True, m \<lparr> mx_generations := AList.update (id_SessionID identity)
       \<lparr> ag_latest = (if id_SessionGeneration identity > ag_latest current then id_SessionGeneration identity else ag_latest current),
         ag_sessions = ag_sessions current + 1 \<rparr> (mx_generations m) \<rparr>))"

definition releaseGeneration :: "RelayIdentity \<Rightarrow> unit mux_prog" where
  "releaseGeneration identity = atomic (\<lambda>m.
     let current = generation_of m (id_SessionID identity); sessions = ag_sessions current - 1 in
     ((), if sessions \<le> 0 then m \<lparr> mx_generations := AList.delete (id_SessionID identity) (mx_generations m) \<rparr>
       else m \<lparr> mx_generations := AList.update (id_SessionID identity) (current \<lparr> ag_sessions := sessions \<rparr>) (mx_generations m) \<rparr>))"

definition generationCurrent :: "RelayIdentity \<Rightarrow> bool mux_prog" where
  "generationCurrent identity = atomic (\<lambda>m. (id_SessionGeneration identity \<ge> ag_latest (generation_of m (id_SessionID identity)), m))"

definition user_count :: "mux \<Rightarrow> string \<Rightarrow> int" where
  "user_count m key = (case map_of (mx_users m) key of None \<Rightarrow> 0 | Some n \<Rightarrow> n)"

definition acquireUser :: "Handler \<Rightarrow> RelayIdentity \<Rightarrow> bool mux_prog" where
  "acquireUser h identity = atomic (\<lambda>m. let key = id_IdentityID identity in
     if user_count m key \<ge> sc_MaxSessionsPerUser (hn_config h) then (False, m)
     else (True, m \<lparr> mx_users := AList.update key (user_count m key + 1) (mx_users m) \<rparr>))"

definition releaseUser :: "RelayIdentity \<Rightarrow> unit mux_prog" where
  "releaseUser identity = atomic (\<lambda>m. let key = id_IdentityID identity in
     ((), if user_count m key \<le> 1 then m \<lparr> mx_users := AList.delete key (mx_users m) \<rparr>
       else m \<lparr> mx_users := AList.update key (user_count m key - 1) (mx_users m) \<rparr>))"

text \<open>The channel \<^verbatim>\<open>limit\<close>, by the number of values it holds.\<close>

definition acquireSlot :: "Handler \<Rightarrow> bool mux_prog" where
  "acquireSlot h = atomic (\<lambda>m. if mx_limit m < nat (sc_MaxSessions (hn_config h)) then (True, m \<lparr> mx_limit := Suc (mx_limit m) \<rparr>) else (False, m))"

definition releaseSlot :: "unit mux_prog" where
  "releaseSlot = await (\<lambda>m. if mx_limit m = 0 then None else Some ((), m \<lparr> mx_limit := mx_limit m - 1 \<rparr>))"

definition BeginDrain :: "unit mux_prog" where
  "BeginDrain = atomic (\<lambda>m. ((), m \<lparr> mx_draining := True \<rparr>))"

definition Draining :: "bool mux_prog" where
  "Draining = atomic (\<lambda>m. (mx_draining m, m))"

definition ActiveSessions :: "nat mux_prog" where
  "ActiveSessions = atomic (\<lambda>m. (mx_limit m, m))"

section \<open>The handshake\<close>

definition trafficEncryptionMatches :: "Handler \<Rightarrow> RelayIdentity \<Rightarrow> string list \<Rightarrow> bool \<times> bool" where
  "trafficEncryptionMatches h identity capabilities =
     (let configured = (sc_TrafficEncryption (hn_config h) = Some True);
          ticket = (if hn_legacyUnpinnedEncryption h \<and> id_TrafficEncryption identity = None then True
            else id_TrafficEncryption identity = Some True);
          client = (CapabilityTrafficEncryption \<in> set capabilities);
          keyMatches = (\<not> configured \<or> hn_legacyUnpinnedEncryption h \<or>
            id_NoisePublicKey identity = sc_NoisePublicKey (hn_config h)) in
      (configured, configured = ticket \<and> client = configured \<and> keyMatches))"

definition requiredCapabilitiesPresent :: "string list \<Rightarrow> bool" where
  "requiredCapabilitiesPresent capabilities \<longleftrightarrow>
     ''smux.v2'' \<in> set capabilities \<and> CapabilityTunnelControl \<in> set capabilities \<and> CapabilityTrafficWebSocket \<in> set capabilities"

text \<open>The checks of a message between its reading and the user's limit: the version chosen, or the reject to write.\<close>

definition check_hello ::
  "(string \<Rightarrow> string \<Rightarrow> bool option) \<Rightarrow> Handler \<Rightarrow> RelayIdentity \<Rightarrow> wss_message option \<Rightarrow> Reject + (ClientHello \<times> string)" where
  "check_hello below h identity message = (case message of
       Some (ClientHelloMessage hello) \<Rightarrow>
         (case WssNegotiate (ch_ProtocolVersions hello) (sc_SupportedVersions (hn_config h)) of
            Inl _ \<Rightarrow> Inl (NewReject ''VERSION_MISMATCH'' ''No compatible WSS protocol version'' (sc_SupportedVersions (hn_config h)))
          | Inr selectedVersion \<Rightarrow>
              if \<not> CheckClientVersion below (ch_ClientVersion hello) (sc_MinClientVersion (hn_config h))
              then Inl (NewReject ''CLIENT_VERSION_UNSUPPORTED'' ''Client version is not supported'' [])
              else if ch_DeviceID hello \<noteq> id_DeviceID identity
              then Inl (NewReject ''DEVICE_MISMATCH'' ''Device does not match RelayTicket'' [])
              else if \<not> snd (trafficEncryptionMatches h identity (ch_Capabilities hello))
              then Inl (NewReject ''ENCRYPTION_MISMATCH'' ''Traffic encryption negotiation does not match Control Plane and Gateway policy'' [])
              else if \<not> requiredCapabilitiesPresent (ch_Capabilities hello)
              then Inl (NewReject ''INVALID_HANDSHAKE'' ''Required capabilities are missing'' [])
              else Inr (hello, selectedVersion))
     | _ \<Rightarrow> Inl (NewReject ''INVALID_HANDSHAKE'' ''ClientHello is invalid'' []))"

definition server_hello :: "Handler \<Rightarrow> string \<Rightarrow> ServerHello" where
  "server_hello h selectedVersion =
     (let config = hn_config h;
          hello = (NewServerHello (sc_ServerVersion config) \<lparr> li_MaximumFrameBytes = sc_MaxFrameBytes config,
            li_MaximumStreamFrameBytes = MaximumStreamFrameBytes, li_MaximumStreamsPerConnection = sc_MaxStreamsPerSession config,
            li_MaximumPhysicalConnections = sc_MaxSessions config, li_MaximumConnectionsPerUser = sc_MaxSessionsPerUser config,
            li_StreamIdleTimeoutMillis = Milliseconds (sc_StreamIdleTimeout config) \<rparr>) \<lparr> sh_ProtocolVersion := selectedVersion \<rparr> in
      if sc_TrafficEncryption config = Some True then hello
      else hello \<lparr> sh_Capabilities := filter (\<lambda>value. value \<noteq> CapabilityTrafficEncryption) (sh_Capabilities hello) \<rparr>)"

section \<open>A request\<close>

record http_request =
  hr_Method :: string
  hr_responseRequestID :: string
  hr_RequestID :: string
  hr_Authorization :: string

text \<open>
  What the Gateway is given: the authenticator, the clock, the result of the upgrade (the negotiated subprotocol), what
  the connection answers and accepts, JSON, the comparison of versions, whether the multiplexer is set up and how many
  streams it accepts before it fails.
\<close>

record mux_env =
  ue_authenticate :: "nat \<Rightarrow> http_request \<Rightarrow> RelayIdentity option"
  ue_now :: "nat \<Rightarrow> time"
  ue_upgrade :: "nat \<Rightarrow> http_request \<Rightarrow> string option"
  ue_read :: "nat \<Rightarrow> (bool \<times> bytes) option"
  ue_write :: "nat \<Rightarrow> bytes \<Rightarrow> bool"
  ue_json :: wss_json
  ue_below :: "string \<Rightarrow> string \<Rightarrow> bool option"
  ue_smux :: "nat \<Rightarrow> bool"
  ue_streams :: "nat \<Rightarrow> nat"

datatype mux_response =
    Status int
  | UpgradeFailed
  | SubprotocolRequired
  | Rejected Reject
  | HandshakeFailed
  | SetupFailed
  | SessionEnded
  | StreamEnded

definition mux_call :: "nat mux_prog" where
  "mux_call = atomic (\<lambda>m. (mx_calls m, m \<lparr> mx_calls := Suc (mx_calls m) \<rparr>))"

definition mux_log :: "mux_event \<Rightarrow> unit mux_prog" where
  "mux_log e = atomic (\<lambda>m. ((), m \<lparr> mx_events := mx_events m @ [e] \<rparr>))"

definition deferring :: "'a mux_prog \<Rightarrow> unit mux_prog \<Rightarrow> 'a mux_prog" where
  "deferring body release = andThen body (\<lambda>x. andThen release (\<lambda>_. Return x))"

definition requestID :: "http_request \<Rightarrow> string" where
  "requestID request = (if hr_responseRequestID request = '''' then hr_RequestID request else hr_responseRequestID request)"

definition authenticated :: "mux_env \<Rightarrow> nat \<Rightarrow> http_request \<Rightarrow> RelayIdentity option" where
  "authenticated env n request = (case ue_authenticate env n request of
       None \<Rightarrow> None
     | Some identity \<Rightarrow>
         if id_IdentityID identity = '''' \<or> id_DeviceID identity = '''' \<or> id_SessionID identity = '''' \<or>
            id_SessionGeneration identity = 0 \<or> \<not> id_ExpiresAt identity > ue_now env n
         then None else Some identity)"

definition reject :: "mux_env \<Rightarrow> Reject \<Rightarrow> mux_response mux_prog" where
  "reject env rejection = andThen mux_call (\<lambda>n.
     if WssWrite (ue_json env) (RejectMessage rejection) (ue_write env n)
     then andThen (mux_log (RejectWritten rejection)) (\<lambda>_. Return (Rejected rejection))
     else Return (Rejected rejection))"

section \<open>Streams\<close>

definition take_stream :: "Handler \<Rightarrow> nat \<Rightarrow> bool mux_prog" where
  "take_stream h k = atomic (\<lambda>m. if mx_streams m k < nat (sc_MaxStreamsPerSession (hn_config h))
     then (True, m \<lparr> mx_streams := (mx_streams m)(k := Suc (mx_streams m k)) \<rparr>) else (False, m))"

definition free_stream :: "nat \<Rightarrow> unit mux_prog" where
  "free_stream k = await (\<lambda>m. if mx_streams m k = 0 then None
     else Some ((), m \<lparr> mx_streams := (mx_streams m)(k := mx_streams m k - 1) \<rparr>))"

text \<open>\<^verbatim>\<open>streamHandlers.Go\<close>, what the goroutine does at its end, and \<^verbatim>\<open>streamHandlers.Wait\<close>.\<close>

definition startStream :: "nat \<Rightarrow> RelayIdentity \<Rightarrow> unit mux_prog" where
  "startStream k identity = atomic (\<lambda>m. ((), m \<lparr> mx_running := (mx_running m)(k := Suc (mx_running m k)),
     mx_started := mx_started m @ [(k, identity)] \<rparr>))"

definition streamDone :: "nat \<Rightarrow> unit mux_prog" where
  "streamDone k = atomic (\<lambda>m. ((), m \<lparr> mx_running := (mx_running m)(k := mx_running m k - 1) \<rparr>))"

definition waitStreams :: "nat \<Rightarrow> unit mux_prog" where
  "waitStreams k = await (\<lambda>m. if mx_running m k = 0 then Some ((), m) else None)"

text \<open>The goroutine of a stream; the handler that \<^verbatim>\<open>config.Handle\<close> is returns after any time.\<close>

definition stream_handler :: "nat \<Rightarrow> RelayIdentity \<Rightarrow> mux_response mux_prog" where
  "stream_handler k identity =
     deferring
       (deferring
         (andThen (mux_log (StreamOpened k identity)) (\<lambda>_.
          andThen mux_call (\<lambda>_.
          andThen (mux_log (StreamClosed k identity)) (\<lambda>_. Return StreamEnded))))
         (free_stream k))
       (streamDone k)"

text \<open>The loop around \<^verbatim>\<open>session.AcceptStream\<close>, with the number of streams that it is still going to return.\<close>

primrec accept_loop :: "Handler \<Rightarrow> nat \<Rightarrow> RelayIdentity \<Rightarrow> nat \<Rightarrow> mux_response mux_prog" where
  "accept_loop h k identity 0 = andThen (mux_log (SessionClosed identity)) (\<lambda>_. Return SessionEnded)"
| "accept_loop h k identity (Suc n) =
     andThen (take_stream h k) (\<lambda>ok.
       if ok then
         andThen (generationCurrent identity) (\<lambda>current.
           if \<not> current
           then andThen (free_stream k) (\<lambda>_. andThen (mux_log (StreamStale k identity)) (\<lambda>_. accept_loop h k identity n))
           else andThen (startStream k identity) (\<lambda>_. accept_loop h k identity n))
       else andThen (mux_log (StreamLimited k identity)) (\<lambda>_. accept_loop h k identity n))"

section \<open>ServeHTTP\<close>

text \<open>From the hello that was accepted to the end of the session.\<close>

definition established :: "mux_env \<Rightarrow> Handler \<Rightarrow> RelayIdentity \<Rightarrow> ClientHello \<Rightarrow> string \<Rightarrow> mux_response mux_prog" where
  "established env h identity hello selectedVersion =
     andThen mux_call (\<lambda>n.
     if \<not> WssWrite (ue_json env) (ServerHelloMessage (server_hello h selectedVersion)) (ue_write env n)
     then Return HandshakeFailed
     else andThen (mux_log (SessionOpened identity hello selectedVersion)) (\<lambda>_.
     andThen mux_call (\<lambda>k.
     if \<not> ue_smux env k then Return SetupFailed
     else deferring
       (deferring (accept_loop h k identity (ue_streams env k)) (mux_log (MultiplexerClosed k)))
       (waitStreams k))))"

text \<open>From the reading of the hello to the user's limit.\<close>

definition handshake :: "mux_env \<Rightarrow> Handler \<Rightarrow> RelayIdentity \<Rightarrow> mux_response mux_prog" where
  "handshake env h identity =
     andThen mux_call (\<lambda>n.
     case check_hello (ue_below env) h identity (WssRead (ue_json env) (ue_read env n)) of
       Inl rejection \<Rightarrow> reject env rejection
     | Inr (hello, selectedVersion) \<Rightarrow>
         andThen (acquireUser h identity) (\<lambda>ok.
           if \<not> ok then reject env (NewReject ''USER_CAPACITY_EXCEEDED'' ''Per-user connection limit reached'' [])
           else deferring (established env h identity hello selectedVersion) (releaseUser identity)))"

definition serve_connection :: "mux_env \<Rightarrow> Handler \<Rightarrow> http_request \<Rightarrow> RelayIdentity \<Rightarrow> mux_response mux_prog" where
  "serve_connection env h request identity =
     andThen mux_call (\<lambda>n.
     case ue_upgrade env n request of
       None \<Rightarrow> Return UpgradeFailed
     | Some subprotocol \<Rightarrow>
         deferring
           (if subprotocol \<noteq> Subprotocol then Return SubprotocolRequired else handshake env h identity)
           (mux_log ConnectionClosed))"

definition ServeHTTP :: "mux_env \<Rightarrow> Handler \<Rightarrow> http_request \<Rightarrow> mux_response mux_prog" where
  "ServeHTTP env h request =
     andThen Draining (\<lambda>draining.
     if draining then Return (Status 503)
     else if hr_Method request \<noteq> ''GET'' then Return (Status 405)
     else andThen mux_call (\<lambda>n.
     case authenticated env n request of
       None \<Rightarrow> Return (Status 401)
     | Some identity \<Rightarrow>
         andThen (acquireGeneration identity) (\<lambda>ok.
         if \<not> ok then Return (Status 401)
         else let identity = identity \<lparr> id_RequestID := requestID request \<rparr> in
           deferring
             (andThen (acquireSlot h) (\<lambda>ok.
                if \<not> ok then Return (Status 503)
                else deferring (serve_connection env h request identity) releaseSlot))
             (releaseGeneration identity))))"

text \<open>The Gateway's process: its requests, its streams, and the call that begins the drain.\<close>

definition mux_started_threads :: "mux \<Rightarrow> mux_response mux_prog list" where
  "mux_started_threads m = map (\<lambda>(k, identity). stream_handler k identity) (mx_started m)"

definition mux_collect :: "mux \<Rightarrow> mux" where
  "mux_collect m = m \<lparr> mx_started := [] \<rparr>"

definition gateway_calls :: "mux_env \<Rightarrow> Handler \<Rightarrow> mux_response mux_prog set" where
  "gateway_calls env h = {p. \<exists>request. p = ServeHTTP env h request} \<union> {andThen BeginDrain (\<lambda>_. Return (Status 0))}"

abbreviation gateway_reaches :: "mux_env \<Rightarrow> Handler \<Rightarrow> mux_response mux_prog list \<times> mux \<Rightarrow> bool" where
  "gateway_reaches env h \<equiv> reaches mux_started_threads mux_collect (\<lambda>_. False) (gateway_calls env h) empty_mux"

end
