(* ===== verification/AdmissionSafety.thy ===== *)
theory AdmissionSafety
  imports Admission
begin

text \<open>
  What the admission of tunnels assures, whatever requests arrive and however their goroutines interleave: every slot,
  generation, user count and stream that a request takes is given back when it returns, the limits hold, a tunnel is
  opened only for a checked identity and hello, and a request never waits for something that nobody gives back.
\<close>

section \<open>Debts\<close>

datatype mux_debt = Slot | Gen string | User string | Strm nat | Running nat

fun mux_held :: "mux \<Rightarrow> mux_debt \<Rightarrow> nat" where
  "mux_held m Slot = mx_limit m"
| "mux_held m (Gen s) = nat (ag_sessions (generation_of m s))"
| "mux_held m (User u) = nat (user_count m u)"
| "mux_held m (Strm k) = mx_streams m k"
| "mux_held m (Running k) = mx_running m k"

text \<open>A tunnel may be opened for this identity with this hello.\<close>

definition admitted :: "mux_env \<Rightarrow> Handler \<Rightarrow> RelayIdentity \<Rightarrow> ClientHello \<Rightarrow> string \<Rightarrow> bool" where
  "admitted env h identity hello version \<longleftrightarrow>
     (\<exists>n request original. ue_authenticate env n request = Some original \<and> ue_now env n < id_ExpiresAt original \<and>
        identity = original \<lparr> id_RequestID := requestID request \<rparr>) \<and>
     (\<exists>i. WssRead (ue_json env) (ue_read env i) = Some (ClientHelloMessage hello)) \<and>
     id_IdentityID identity \<noteq> '''' \<and> id_SessionID identity \<noteq> '''' \<and> id_SessionGeneration identity \<noteq> 0 \<and>
     ch_DeviceID hello = id_DeviceID identity \<and> id_DeviceID identity \<noteq> '''' \<and>
     version \<in> set (ch_ProtocolVersions hello) \<and> version \<in> set (sc_SupportedVersions (hn_config h)) \<and>
     (CapabilityTrafficEncryption \<in> set (ch_Capabilities hello) \<longleftrightarrow> sc_TrafficEncryption (hn_config h) = Some True) \<and>
     (sc_TrafficEncryption (hn_config h) = Some True \<longrightarrow> hn_legacyUnpinnedEncryption h \<or>
        id_NoisePublicKey identity = sc_NoisePublicKey (hn_config h)) \<and>
     requiredCapabilitiesPresent (ch_Capabilities hello)"

definition mux_good :: "mux_env \<Rightarrow> Handler \<Rightarrow> mux \<Rightarrow> bool" where
  "mux_good env h m \<longleftrightarrow>
     mx_limit m \<le> nat (sc_MaxSessions (hn_config h)) \<and>
     (\<forall>s a. map_of (mx_generations m) s = Some a \<longrightarrow> 0 < ag_sessions a) \<and>
     (\<forall>u n. map_of (mx_users m) u = Some n \<longrightarrow> 0 < n \<and> n \<le> sc_MaxSessionsPerUser (hn_config h)) \<and>
     (\<forall>k. mx_streams m k \<le> nat (sc_MaxStreamsPerSession (hn_config h))) \<and>
     (\<forall>identity hello version. SessionOpened identity hello version \<in> set (mx_events m) \<longrightarrow> admitted env h identity hello version)"

text \<open>The fence of a session is never lowered while the session has a tunnel, and a drain is not taken back.\<close>

definition mux_evolves :: "mux \<Rightarrow> mux \<Rightarrow> bool" where
  "mux_evolves m m' \<longleftrightarrow> (mx_draining m \<longrightarrow> mx_draining m') \<and>
     (\<forall>s a a'. map_of (mx_generations m) s = Some a \<longrightarrow> map_of (mx_generations m') s = Some a' \<longrightarrow> ag_latest a \<le> ag_latest a')"

definition mux_given :: "mux \<Rightarrow> mux_debt multiset list" where
  "mux_given m = map (\<lambda>(k, _). {#Strm k, Running k#}) (mx_started m)"

definition mux_awaited :: "mux_debt \<Rightarrow> bool" where
  "mux_awaited r = (case r of Running _ \<Rightarrow> True | _ \<Rightarrow> False)"

lemma mux_awaited_simps [simp]:
  "mux_awaited (Running k)" "\<not> mux_awaited Slot" "\<not> mux_awaited (Gen s)" "\<not> mux_awaited (User u)" "\<not> mux_awaited (Strm k)"
  by (simp_all add: mux_awaited_def)

interpretation debt: accounts "mux_good env h" mux_held mux_evolves mux_given mux_awaited for env h .

lemmas settles_simps = debt.settles_def debt.covered_def mux_evolves_def mux_given_def

lemma settles_take:
  assumes "debt.covered env h D m" "mux_good env h m'" "mux_evolves m m'" "mx_started m' = mx_started m"
    "\<And>r. mux_held m' r = mux_held m r + count X r"
  shows "debt.settles env h D m (D + X) m'"
  using assms by (simp add: debt.settles_def debt.covered_def mux_given_def)

lemma settles_give:
  assumes "debt.covered env h (D + X) m" "mux_good env h m'" "mux_evolves m m'" "mx_started m' = mx_started m"
    "\<And>r. mux_held m' r + count X r = mux_held m r"
  shows "debt.settles env h (D + X) m D m'"
proof -
  have "mux_held m' r + (count D r + count X r) = mux_held m r + count D r" for r using assms(5) [of r] by simp
  then show ?thesis using assms(1-4) by (simp add: debt.settles_def debt.covered_def mux_given_def)
qed

lemma mux_good_counts: "mux_good env h m \<Longrightarrow> 0 \<le> user_count m u" "mux_good env h m \<Longrightarrow> 0 \<le> ag_sessions (generation_of m s)"
  by (fastforce simp: mux_good_def user_count_def generation_of_def split: option.splits)+

section \<open>What each step owes\<close>

text \<open>A step that leaves every counter as it is.\<close>

lemma owes_same:
  fixes f :: "mux \<Rightarrow> 'a \<times> mux"
  assumes "\<And>m. mux_good env h m \<Longrightarrow> mux_good env h (snd (f m))"
    and "\<And>m. mx_limit (snd (f m)) = mx_limit m \<and> mx_generations (snd (f m)) = mx_generations m \<and> mx_users (snd (f m)) = mx_users m \<and>
      mx_streams (snd (f m)) = mx_streams m \<and> mx_running (snd (f m)) = mx_running m \<and> mx_started (snd (f m)) = mx_started m \<and>
      (mx_draining m \<longrightarrow> mx_draining (snd (f m)))"
  shows "debt.owes env h D (atomic f) (\<lambda>_. D)"
proof (rule debt.owes_atomic)
  fix m x m' assume c: "debt.covered env h D m" and f: "f m = (x, m')"
  have e: "mx_limit m' = mx_limit m" "mx_generations m' = mx_generations m" "mx_users m' = mx_users m"
    "mx_streams m' = mx_streams m" "mx_running m' = mx_running m" "mx_started m' = mx_started m" "mx_draining m \<longrightarrow> mx_draining m'"
    using assms(2) [of m] f by auto
  have "mux_held m' r = mux_held m r" for r using e by (cases r) (simp_all add: generation_of_def user_count_def)
  moreover have "mux_good env h m'" using assms(1) [of m] c f by (simp add: debt.covered_def)
  ultimately show "debt.settles env h D m D m'" using c e by (simp add: settles_simps)
qed

lemma owes_call: "debt.owes env h D mux_call (\<lambda>_. D)"
  unfolding mux_call_def by (rule owes_same) (auto simp: mux_good_def)

lemma owes_draining: "debt.owes env h D Draining (\<lambda>_. D)" "debt.owes env h D BeginDrain (\<lambda>_. D)"
  unfolding Draining_def BeginDrain_def by (rule owes_same; auto simp: mux_good_def)+

lemma owes_current: "debt.owes env h D (generationCurrent identity) (\<lambda>_. D)"
  unfolding generationCurrent_def by (rule owes_same) auto

lemma owes_log:
  "(\<And>identity hello version. e = SessionOpened identity hello version \<Longrightarrow> admitted env h identity hello version) \<Longrightarrow>
    debt.owes env h D (mux_log e) (\<lambda>_. D)"
  unfolding mux_log_def by (rule owes_same) (auto simp: mux_good_def)

lemma owes_acquireSlot: "debt.owes env h D (acquireSlot h) (\<lambda>ok. if ok then D + {#Slot#} else D)"
  unfolding acquireSlot_def
proof (rule debt.owes_atomic)
  fix m x m'
  assume c: "debt.covered env h D m"
    and f: "(if mx_limit m < nat (sc_MaxSessions (hn_config h)) then (True, m \<lparr> mx_limit := Suc (mx_limit m) \<rparr>) else (False, m)) = (x, m')"
  have "mux_held m' r + count D r = mux_held m r + count (if x then D + {#Slot#} else D) r" for r
    using f by (cases r) (auto simp: generation_of_def user_count_def split: if_splits)
  then show "debt.settles env h D m (if x then D + {#Slot#} else D) m'"
    using c f by (auto simp: settles_simps mux_good_def split: if_splits)
qed

lemma owes_releaseSlot: "debt.owes env h (D + {#Slot#}) releaseSlot (\<lambda>_. D)"
  unfolding releaseSlot_def
proof (rule debt.owes_await)
  fix m assume "debt.covered env h (D + {#Slot#}) m"
  then have "0 < mux_held m Slot" by (auto simp: debt.covered_def dest!: spec [of _ Slot])
  moreover assume "(if mx_limit m = 0 then None else Some ((), m \<lparr> mx_limit := mx_limit m - 1 \<rparr>)) = None"
  ultimately show "debt.may_wait (D + {#Slot#}) m" by (simp split: if_splits)
next
  fix m x m'
  assume c: "debt.covered env h (D + {#Slot#}) m"
    and f: "(if mx_limit m = 0 then None else Some ((), m \<lparr> mx_limit := mx_limit m - 1 \<rparr>)) = Some (x, m')"
  have "mux_held m' r + count (D + {#Slot#}) r = mux_held m r + count D r" for r
    using f by (cases r) (auto simp: generation_of_def user_count_def split: if_splits)
  then show "debt.settles env h (D + {#Slot#}) m D m'"
    using c f by (auto simp: settles_simps mux_good_def split: if_splits)
qed

lemma owes_acquireGeneration:
  "debt.owes env h D (acquireGeneration identity) (\<lambda>ok. if ok then D + {#Gen (id_SessionID identity)#} else D)"
  unfolding acquireGeneration_def
proof (rule debt.owes_atomic)
  let ?s = "id_SessionID identity"
  fix m x m'
  let ?a = "generation_of m ?s"
  assume c: "debt.covered env h D m"
    and f: "(let current = ?a in
      if id_SessionGeneration identity < ag_latest current then (False, m)
      else (True, m \<lparr> mx_generations := AList.update ?s
        \<lparr> ag_latest = (if id_SessionGeneration identity > ag_latest current then id_SessionGeneration identity else ag_latest current),
          ag_sessions = ag_sessions current + 1 \<rparr> (mx_generations m) \<rparr>)) = (x, m')"
  show "debt.settles env h D m (if x then D + {#Gen ?s#} else D) m'"
  proof (cases "id_SessionGeneration identity < ag_latest ?a")
    case True
    then show ?thesis using c f by (auto simp: settles_simps Let_def)
  next
    case False
    have g: "mux_good env h m" using c by (simp add: debt.covered_def)
    note pos = mux_good_counts(2) [OF g, of ?s]
    define a' where "a' = \<lparr> ag_latest = max (id_SessionGeneration identity) (ag_latest ?a), ag_sessions = ag_sessions ?a + 1 \<rparr>"
    have m': "x = True" "m' = m \<lparr> mx_generations := AList.update ?s a' (mx_generations m) \<rparr>"
      using f False by (auto simp: Let_def a'_def max_def)
    have g': "map_of (mx_generations m') = (map_of (mx_generations m))(?s \<mapsto> a')" by (simp add: m' update_conv')
    have "mux_held m' r = mux_held m r + count {#Gen ?s#} r" for r
      using pos by (cases r) (auto simp: m' generation_of_def user_count_def update_conv' a'_def nat_add_distrib)
    moreover have "mux_good env h m'" using g pos g' unfolding mux_good_def by (auto simp: m' a'_def split: if_splits)
    moreover have "mux_evolves m m'" using g' by (auto simp: mux_evolves_def m' generation_of_def a'_def split: if_splits)
    moreover have "mx_started m' = mx_started m" by (simp add: m')
    ultimately have "debt.settles env h D m (D + {#Gen ?s#}) m'" by (intro settles_take [OF c])
    then show ?thesis using m'(1) by simp
  qed
qed

lemma owes_releaseGeneration:
  "debt.owes env h (D + {#Gen (id_SessionID identity)#}) (releaseGeneration identity) (\<lambda>_. D)"
  unfolding releaseGeneration_def
proof (rule debt.owes_atomic)
  let ?s = "id_SessionID identity"
  fix m x m'
  let ?a = "generation_of m ?s"
  assume c: "debt.covered env h (D + {#Gen ?s#}) m"
    and f: "(let current = ?a; sessions = ag_sessions current - 1 in
      ((), if sessions \<le> 0 then m \<lparr> mx_generations := AList.delete ?s (mx_generations m) \<rparr>
        else m \<lparr> mx_generations := AList.update ?s (current \<lparr> ag_sessions := sessions \<rparr>) (mx_generations m) \<rparr>)) = (x, m')"
  have g: "mux_good env h m" using c by (simp add: debt.covered_def)
  have pos: "1 \<le> ag_sessions ?a" using c by (auto simp: debt.covered_def dest!: spec [of _ "Gen ?s"])
  then obtain a where a: "map_of (mx_generations m) ?s = Some a" "?a = a" by (auto simp: generation_of_def split: option.splits)
  have g': "map_of (mx_generations m') =
      (map_of (mx_generations m))(?s := if ag_sessions a \<le> 1 then None else Some (a \<lparr> ag_sessions := ag_sessions a - 1 \<rparr>))"
    and same: "mx_limit m' = mx_limit m" "mx_users m' = mx_users m" "mx_streams m' = mx_streams m" "mx_running m' = mx_running m"
      "mx_started m' = mx_started m" "mx_events m' = mx_events m" "mx_draining m' = mx_draining m"
    using f a(2) by (auto simp: Let_def update_conv' delete_conv' split: if_splits)
  have "mux_held m' r + count {#Gen ?s#} r = mux_held m r" for r
    using pos a g' same by (cases r) (auto simp: generation_of_def user_count_def)
  moreover have "mux_good env h m'" using g a(1) g' same unfolding mux_good_def by (auto split: if_splits)
  moreover have "mux_evolves m m'" using g' a(1) same by (auto simp: mux_evolves_def split: if_splits)
  ultimately show "debt.settles env h (D + {#Gen ?s#}) m D m'" using settles_give [OF c] same by blast
qed

lemma owes_acquireUser:
  "debt.owes env h D (acquireUser h identity) (\<lambda>ok. if ok then D + {#User (id_IdentityID identity)#} else D)"
  unfolding acquireUser_def
proof (rule debt.owes_atomic)
  let ?u = "id_IdentityID identity"
  fix m x m'
  assume c: "debt.covered env h D m"
    and f: "(let key = ?u in if user_count m key \<ge> sc_MaxSessionsPerUser (hn_config h) then (False, m)
      else (True, m \<lparr> mx_users := AList.update key (user_count m key + 1) (mx_users m) \<rparr>)) = (x, m')"
  show "debt.settles env h D m (if x then D + {#User ?u#} else D) m'"
  proof (cases "user_count m ?u \<ge> sc_MaxSessionsPerUser (hn_config h)")
    case True
    then show ?thesis using c f by (auto simp: settles_simps Let_def)
  next
    case False
    have g: "mux_good env h m" using c by (simp add: debt.covered_def)
    note pos = mux_good_counts(1) [OF g, of ?u]
    have m': "x = True" "m' = m \<lparr> mx_users := AList.update ?u (user_count m ?u + 1) (mx_users m) \<rparr>"
      using f False by (auto simp: Let_def)
    have "mux_held m' r = mux_held m r + count {#User ?u#} r" for r
      using pos by (cases r) (auto simp: m' generation_of_def user_count_def update_conv' nat_add_distrib)
    moreover have "mux_good env h m'" using g pos False unfolding mux_good_def by (auto simp: m' update_conv' split: if_splits)
    moreover have "mux_evolves m m'" by (simp add: m' mux_evolves_def)
    moreover have "mx_started m' = mx_started m" by (simp add: m')
    ultimately have "debt.settles env h D m (D + {#User ?u#}) m'" by (intro settles_take [OF c])
    then show ?thesis using m'(1) by simp
  qed
qed

lemma owes_releaseUser:
  "debt.owes env h (D + {#User (id_IdentityID identity)#}) (releaseUser identity) (\<lambda>_. D)"
  unfolding releaseUser_def
proof (rule debt.owes_atomic)
  let ?u = "id_IdentityID identity"
  fix m x m'
  assume c: "debt.covered env h (D + {#User ?u#}) m"
    and f: "(let key = ?u in ((), if user_count m key \<le> 1 then m \<lparr> mx_users := AList.delete key (mx_users m) \<rparr>
      else m \<lparr> mx_users := AList.update key (user_count m key - 1) (mx_users m) \<rparr>)) = (x, m')"
  have g: "mux_good env h m" using c by (simp add: debt.covered_def)
  have pos: "1 \<le> user_count m ?u" using c by (auto simp: debt.covered_def dest!: spec [of _ "User ?u"])
  then obtain n where n: "map_of (mx_users m) ?u = Some n" "user_count m ?u = n" by (auto simp: user_count_def split: option.splits)
  have g': "map_of (mx_users m') = (map_of (mx_users m))(?u := if n \<le> 1 then None else Some (n - 1))"
    and same: "mx_limit m' = mx_limit m" "mx_generations m' = mx_generations m" "mx_streams m' = mx_streams m" "mx_running m' = mx_running m"
      "mx_started m' = mx_started m" "mx_events m' = mx_events m" "mx_draining m' = mx_draining m"
    using f n(2) by (auto simp: Let_def update_conv' delete_conv' split: if_splits)
  have "mux_held m' r + count {#User ?u#} r = mux_held m r" for r
    using pos n g' same by (cases r) (auto simp: generation_of_def user_count_def)
  moreover have "mux_good env h m'" using g n(1) g' same unfolding mux_good_def by (fastforce split: if_splits)
  moreover have "mux_evolves m m'" using same by (simp add: mux_evolves_def)
  ultimately show "debt.settles env h (D + {#User ?u#}) m D m'" using settles_give [OF c] same by blast
qed

lemma owes_take_stream: "debt.owes env h D (take_stream h k) (\<lambda>ok. if ok then D + {#Strm k#} else D)"
  unfolding take_stream_def
proof (rule debt.owes_atomic)
  fix m x m'
  assume c: "debt.covered env h D m"
    and f: "(if mx_streams m k < nat (sc_MaxStreamsPerSession (hn_config h))
      then (True, m \<lparr> mx_streams := (mx_streams m)(k := Suc (mx_streams m k)) \<rparr>) else (False, m)) = (x, m')"
  have "mux_held m' r + count D r = mux_held m r + count (if x then D + {#Strm k#} else D) r" for r
    using f by (cases r) (auto simp: generation_of_def user_count_def split: if_splits)
  then show "debt.settles env h D m (if x then D + {#Strm k#} else D) m'"
    using c f by (auto simp: settles_simps mux_good_def split: if_splits)
qed

lemma owes_free_stream: "debt.owes env h (D + {#Strm k#}) (free_stream k) (\<lambda>_. D)"
  unfolding free_stream_def
proof (rule debt.owes_await)
  fix m assume "debt.covered env h (D + {#Strm k#}) m"
  then have "0 < mux_held m (Strm k)" by (auto simp: debt.covered_def dest!: spec [of _ "Strm k"])
  moreover assume "(if mx_streams m k = 0 then None else Some ((), m \<lparr> mx_streams := (mx_streams m)(k := mx_streams m k - 1) \<rparr>)) = None"
  ultimately show "debt.may_wait (D + {#Strm k#}) m" by (simp split: if_splits)
next
  fix m x m'
  assume c: "debt.covered env h (D + {#Strm k#}) m"
    and f: "(if mx_streams m k = 0 then None else Some ((), m \<lparr> mx_streams := (mx_streams m)(k := mx_streams m k - 1) \<rparr>)) = Some (x, m')"
  then have m': "mx_streams m k \<noteq> 0" "m' = m \<lparr> mx_streams := (mx_streams m)(k := mx_streams m k - 1) \<rparr>" by (auto split: if_splits)
  have "mux_held m' r + count {#Strm k#} r = mux_held m r" for r
    using m' by (cases r) (auto simp: generation_of_def user_count_def)
  moreover have "mux_good env h m'" using c m' by (auto simp: debt.covered_def mux_good_def intro: le_trans [OF diff_le_self])
  ultimately show "debt.settles env h (D + {#Strm k#}) m D m'" using m'(2) by (intro settles_give [OF c]) (auto simp: mux_evolves_def)
qed

lemma owes_startStream: "debt.owes env h (D + {#Strm k#}) (startStream k identity) (\<lambda>_. D)"
  unfolding startStream_def
proof (rule debt.owes_atomic)
  fix m x m'
  assume c: "debt.covered env h (D + {#Strm k#}) m"
    and f: "((), m \<lparr> mx_running := (mx_running m)(k := Suc (mx_running m k)), mx_started := mx_started m @ [(k, identity)] \<rparr>) = (x, m')"
  then have m': "m' = m \<lparr> mx_running := (mx_running m)(k := Suc (mx_running m k)), mx_started := mx_started m @ [(k, identity)] \<rparr>" by simp
  have "mx_started m = []" using c by (simp add: debt.covered_def mux_given_def)
  then have given: "mux_given m' = [{#Strm k, Running k#}]" by (simp add: m' mux_given_def)
  have "mux_held m' r + count (D + {#Strm k#}) r = mux_held m r + count (D + sum_list (mux_given m')) r" for r
    unfolding given by (cases r) (auto simp: m' generation_of_def user_count_def)
  then show "debt.settles env h (D + {#Strm k#}) m D m'" using c
    by (auto simp: debt.settles_def debt.covered_def m' mux_good_def mux_evolves_def)
qed

lemma owes_streamDone: "debt.owes env h (D + {#Running k#}) (streamDone k) (\<lambda>_. D)"
  unfolding streamDone_def
proof (rule debt.owes_atomic)
  fix m x m'
  assume c: "debt.covered env h (D + {#Running k#}) m" and f: "((), m \<lparr> mx_running := (mx_running m)(k := mx_running m k - 1) \<rparr>) = (x, m')"
  then have m': "m' = m \<lparr> mx_running := (mx_running m)(k := mx_running m k - 1) \<rparr>" by simp
  have "0 < mux_held m (Running k)" using c by (auto simp: debt.covered_def dest!: spec [of _ "Running k"])
  then have "mux_held m' r + count {#Running k#} r = mux_held m r" for r
    by (cases r) (auto simp: m' generation_of_def user_count_def)
  moreover have "mux_good env h m'" using c by (simp add: debt.covered_def mux_good_def m')
  ultimately show "debt.settles env h (D + {#Running k#}) m D m'" using m' by (intro settles_give [OF c]) (auto simp: mux_evolves_def)
qed

lemma owes_waitStreams: "\<forall>r\<in>#D. \<not> mux_awaited r \<Longrightarrow> debt.owes env h D (waitStreams k) (\<lambda>_. D)"
  unfolding waitStreams_def
proof (rule debt.owes_await)
  fix m :: mux assume D: "\<forall>r\<in>#D. \<not> mux_awaited r" and "(if mx_running m k = 0 then Some ((), m) else None) = None"
  then have "mux_awaited (Running k)" "mux_held (m :: mux) (Running k) \<noteq> 0" by (auto split: if_splits)
  then show "debt.may_wait D m" using D unfolding debt.may_wait_def by blast
qed (auto simp: settles_simps split: if_splits)

section \<open>Requests and streams pay what they owe\<close>

lemma owes_deferring:
  assumes "debt.owes env h D body (\<lambda>_. E)" "debt.owes env h E release (\<lambda>_. D')"
  shows "debt.owes env h D (deferring body release) (\<lambda>_. D')"
  unfolding deferring_def
  by (rule debt.owes_andThen [OF assms(1)], rule debt.owes_andThen [OF assms(2)], rule debt.owes_ReturnI, rule refl)

lemmas owes_steps = owes_call owes_draining owes_current owes_log owes_deferring debt.owes_ReturnI

lemma owes_then: "debt.owes env h D p (\<lambda>_. D) \<Longrightarrow> (\<And>x. debt.owes env h D (f x) Q) \<Longrightarrow> debt.owes env h D (andThen p f) Q"
  by (rule debt.owes_andThen)

lemma owes_tried:
  assumes "debt.owes env h D p (\<lambda>ok. if ok then D + X else D)" "debt.owes env h (D + X) (f True) Q" "debt.owes env h D (f False) Q"
  shows "debt.owes env h D (andThen p f) Q"
proof (rule debt.owes_andThen [OF assms(1)])
  show "debt.owes env h (if ok then D + X else D) (f ok) Q" for ok using assms(2,3) by (cases ok) simp_all
qed

lemma owes_stream_handler: "debt.owes env h {#Strm k, Running k#} (stream_handler k identity) (\<lambda>_. {#})"
proof -
  let ?body = "andThen (mux_log (StreamOpened k identity)) (\<lambda>_. andThen mux_call (\<lambda>_.
    andThen (mux_log (StreamClosed k identity)) (\<lambda>_. Return StreamEnded)))"
  have "debt.owes env h {#Running k, Strm k#} ?body (\<lambda>_. {#Running k, Strm k#})"
    by (intro owes_then owes_steps) auto
  then have "debt.owes env h {#Running k, Strm k#} (deferring ?body (free_stream k)) (\<lambda>_. {#Running k#})"
    by (rule owes_deferring) (use owes_free_stream [of env h "{#Running k#}" k] in \<open>simp add: add_mset_commute\<close>)
  then show ?thesis unfolding stream_handler_def add_mset_commute [of "Strm k"]
    by (rule owes_deferring) (use owes_streamDone [of env h "{#}" k] in simp)
qed

lemma owes_accept_loop: "debt.owes env h D (accept_loop h k identity n) (\<lambda>_. D)"
proof (induction n)
  case 0
  show ?case unfolding accept_loop.simps by (intro owes_then owes_steps) auto
next
  case (Suc n)
  have stale: "debt.owes env h (D + {#Strm k#})
      (andThen (free_stream k) (\<lambda>_. andThen (mux_log (StreamStale k identity)) (\<lambda>_. accept_loop h k identity n))) (\<lambda>_. D)"
    by (rule debt.owes_andThen [OF owes_free_stream]) (intro owes_then owes_log Suc; simp)
  have start: "debt.owes env h (D + {#Strm k#}) (andThen (startStream k identity) (\<lambda>_. accept_loop h k identity n)) (\<lambda>_. D)"
    by (rule debt.owes_andThen [OF owes_startStream Suc])
  show ?case unfolding accept_loop.simps
  proof (rule owes_tried [OF owes_take_stream], goal_cases)
    case 1
    have "debt.owes env h (D + {#Strm k#}) (if \<not> current
        then andThen (free_stream k) (\<lambda>_. andThen (mux_log (StreamStale k identity)) (\<lambda>_. accept_loop h k identity n))
        else andThen (startStream k identity) (\<lambda>_. accept_loop h k identity n)) (\<lambda>_. D)" for current using stale start by simp
    then show ?case unfolding if_True by (rule owes_then [OF owes_current])
  next
    case 2
    show ?case unfolding if_False by (intro owes_then owes_log Suc; simp)
  qed
qed

lemma owes_reject: "debt.owes env h D (reject env rejection) (\<lambda>_. D)"
  unfolding reject_def by (rule owes_then [OF owes_call]) (auto intro!: owes_then owes_log debt.owes_ReturnI)

lemma owes_established:
  assumes "admitted env h identity hello version" "\<forall>r\<in>#D. \<not> mux_awaited r"
  shows "debt.owes env h D (established env h identity hello version) (\<lambda>_. D)"
proof -
  have "debt.owes env h D (deferring (deferring (accept_loop h k identity (ue_streams env k)) (mux_log (MultiplexerClosed k)))
      (waitStreams k)) (\<lambda>_. D)" for k
    by (rule owes_deferring [OF owes_deferring [OF owes_accept_loop owes_log] owes_waitStreams [OF assms(2)]]) simp
  then have "debt.owes env h D (andThen mux_call (\<lambda>k. if \<not> ue_smux env k then Return SetupFailed
      else deferring (deferring (accept_loop h k identity (ue_streams env k)) (mux_log (MultiplexerClosed k))) (waitStreams k))) (\<lambda>_. D)"
    by (intro owes_then [OF owes_call]) (simp add: debt.owes_ReturnI)
  then have "debt.owes env h D (andThen (mux_log (SessionOpened identity hello version)) (\<lambda>_.
      andThen mux_call (\<lambda>k. if \<not> ue_smux env k then Return SetupFailed
      else deferring (deferring (accept_loop h k identity (ue_streams env k)) (mux_log (MultiplexerClosed k))) (waitStreams k)))) (\<lambda>_. D)"
    by - (rule owes_then [OF owes_log], use assms(1) in blast, assumption)
  then show ?thesis unfolding established_def by (intro owes_then [OF owes_call]) (simp add: debt.owes_ReturnI)
qed

text \<open>An identity that passed the first checks, and what passing the checks of the hello adds to them.\<close>

definition checked_identity :: "mux_env \<Rightarrow> RelayIdentity \<Rightarrow> bool" where
  "checked_identity env identity \<longleftrightarrow>
     (\<exists>n request original. authenticated env n request = Some original \<and> identity = original \<lparr> id_RequestID := requestID request \<rparr>)"

lemma check_hello_admits:
  assumes "checked_identity env identity"
    and "check_hello (ue_below env) h identity (WssRead (ue_json env) (ue_read env i)) = Inr (hello, version)"
  shows "admitted env h identity hello version"
proof -
  have read: "WssRead (ue_json env) (ue_read env i) = Some (ClientHelloMessage hello)"
    and checks: "WssNegotiate (ch_ProtocolVersions hello) (sc_SupportedVersions (hn_config h)) = Inr version"
      "ch_DeviceID hello = id_DeviceID identity" "snd (trafficEncryptionMatches h identity (ch_Capabilities hello))"
      "requiredCapabilitiesPresent (ch_Capabilities hello)"
    using assms(2) by (auto simp: check_hello_def split: option.splits wss_message.splits sum.splits if_splits)
  obtain n request original where o: "authenticated env n request = Some original" "identity = original \<lparr> id_RequestID := requestID request \<rparr>"
    using assms(1) unfolding checked_identity_def by blast
  have id: "ue_authenticate env n request = Some original" "ue_now env n < id_ExpiresAt original"
    "id_IdentityID identity \<noteq> ''''" "id_SessionID identity \<noteq> ''''" "id_SessionGeneration identity \<noteq> 0" "id_DeviceID identity \<noteq> ''''"
    using o by (auto simp: authenticated_def split: option.splits if_splits)
  show ?thesis unfolding admitted_def using o(2) id read checks WssNegotiate_result [OF checks(1)]
    by (auto simp: trafficEncryptionMatches_def Let_def)
qed

lemma owes_handshake:
  assumes "checked_identity env identity" "\<forall>r\<in>#D. \<not> mux_awaited r"
  shows "debt.owes env h D (handshake env h identity) (\<lambda>_. D)"
  unfolding handshake_def
proof (rule owes_then [OF owes_call])
  fix n
  let ?check = "check_hello (ue_below env) h identity (WssRead (ue_json env) (ue_read env n))"
  show "debt.owes env h D (case ?check of Inl rejection \<Rightarrow> reject env rejection
     | Inr (hello, version) \<Rightarrow> andThen (acquireUser h identity) (\<lambda>ok.
         if \<not> ok then reject env (NewReject ''USER_CAPACITY_EXCEEDED'' ''Per-user connection limit reached'' [])
         else deferring (established env h identity hello version) (releaseUser identity))) (\<lambda>_. D)"
  proof (cases ?check)
    case (Inl rejection)
    then show ?thesis by (simp add: owes_reject)
  next
    case (Inr accepted)
    then obtain hello version where c: "?check = Inr (hello, version)" by (cases accepted) auto
    let ?D = "D + {#User (id_IdentityID identity)#}"
    have "debt.owes env h ?D (established env h identity hello version) (\<lambda>_. ?D)"
      by (rule owes_established [OF check_hello_admits [OF assms(1) c]]) (use assms(2) in auto)
    then have "debt.owes env h ?D (deferring (established env h identity hello version) (releaseUser identity)) (\<lambda>_. D)"
      by (rule owes_deferring [OF _ owes_releaseUser])
    then show ?thesis unfolding c by simp (rule owes_tried [OF owes_acquireUser], auto simp: owes_reject)
  qed
qed

lemma owes_serve_connection:
  assumes "checked_identity env identity" "\<forall>r\<in>#D. \<not> mux_awaited r"
  shows "debt.owes env h D (serve_connection env h request identity) (\<lambda>_. D)"
  unfolding serve_connection_def
proof (rule owes_then [OF owes_call])
  fix n
  have "debt.owes env h D (if subprotocol \<noteq> Subprotocol then Return SubprotocolRequired else handshake env h identity) (\<lambda>_. D)" for subprotocol
    using owes_handshake [OF assms] by (simp add: debt.owes_ReturnI)
  then have "debt.owes env h D (deferring (if subprotocol \<noteq> Subprotocol then Return SubprotocolRequired else handshake env h identity)
      (mux_log ConnectionClosed)) (\<lambda>_. D)" for subprotocol by (rule owes_deferring [OF _ owes_log]) simp
  then show "debt.owes env h D (case ue_upgrade env n request of None \<Rightarrow> Return UpgradeFailed
     | Some subprotocol \<Rightarrow> deferring (if subprotocol \<noteq> Subprotocol then Return SubprotocolRequired else handshake env h identity)
         (mux_log ConnectionClosed)) (\<lambda>_. D)" by (simp add: debt.owes_ReturnI split: option.split)
qed

lemma owes_admitted_request:
  assumes "checked_identity env identity"
  shows "debt.owes env h {#Gen (id_SessionID identity)#} (deferring
    (andThen (acquireSlot h) (\<lambda>ok. if \<not> ok then Return (Status 503) else deferring (serve_connection env h request identity) releaseSlot))
    (releaseGeneration identity)) (\<lambda>_. {#})"
proof (rule owes_deferring)
  let ?D = "{#Gen (id_SessionID identity)#}"
  show "debt.owes env h ?D (andThen (acquireSlot h) (\<lambda>ok. if \<not> ok then Return (Status 503)
      else deferring (serve_connection env h request identity) releaseSlot)) (\<lambda>_. ?D)"
  proof (rule owes_tried [OF owes_acquireSlot], goal_cases)
    case 1
    show ?case unfolding not_True_eq_False if_False
      by (rule owes_deferring [OF owes_serve_connection [OF assms] owes_releaseSlot]) auto
  qed (simp add: debt.owes_ReturnI)
  show "debt.owes env h ?D (releaseGeneration identity) (\<lambda>_. {#})"
    using owes_releaseGeneration [of env h "{#}" identity] by simp
qed

lemma owes_ServeHTTP: "debt.owes env h {#} (ServeHTTP env h request) (\<lambda>_. {#})"
proof -
  have "debt.owes env h {#} (andThen (acquireGeneration identity) (\<lambda>ok. if \<not> ok then Return (Status 401)
      else let identity = identity \<lparr> id_RequestID := requestID request \<rparr> in deferring
        (andThen (acquireSlot h) (\<lambda>ok. if \<not> ok then Return (Status 503) else deferring (serve_connection env h request identity) releaseSlot))
        (releaseGeneration identity))) (\<lambda>_. {#})" if "authenticated env n request = Some identity" for n identity
  proof (rule owes_tried [OF owes_acquireGeneration], goal_cases)
    case 1
    have "checked_identity env (identity \<lparr> id_RequestID := requestID request \<rparr>)"
      using \<open>authenticated env n request = Some identity\<close> unfolding checked_identity_def by blast
    from owes_admitted_request [OF this, of h request] show ?case by (simp add: Let_def)
  qed (simp add: debt.owes_ReturnI)
  then have "debt.owes env h {#} (andThen mux_call (\<lambda>n. case authenticated env n request of None \<Rightarrow> Return (Status 401)
     | Some identity \<Rightarrow> andThen (acquireGeneration identity) (\<lambda>ok. if \<not> ok then Return (Status 401)
      else let identity = identity \<lparr> id_RequestID := requestID request \<rparr> in deferring
        (andThen (acquireSlot h) (\<lambda>ok. if \<not> ok then Return (Status 503) else deferring (serve_connection env h request identity) releaseSlot))
        (releaseGeneration identity)))) (\<lambda>_. {#})"
    by (intro owes_then [OF owes_call]) (simp add: debt.owes_ReturnI split: option.split)
  then show ?thesis unfolding ServeHTTP_def by (intro owes_then [OF owes_draining(1)]) (simp add: debt.owes_ReturnI)
qed

interpretation gateway: account_pool "mux_good env h" mux_held mux_evolves mux_given mux_awaited
    mux_started_threads mux_collect "\<lambda>_. False" for env h
proof unfold_locales
  fix m and i
  show "length (mux_given m) = length (mux_started_threads m)" by (simp add: mux_given_def mux_started_threads_def)
  show "debt.owes env h (mux_given m ! i) (mux_started_threads m ! i) (\<lambda>_. {#})" if "i < length (mux_started_threads m)"
    using that owes_stream_handler by (auto simp: mux_given_def mux_started_threads_def split: prod.splits)
next
  fix m r show "mux_held (mux_collect m) r = mux_held m r"
    by (cases r) (simp_all add: mux_collect_def generation_of_def user_count_def)
qed (auto simp: mux_good_def mux_collect_def mux_evolves_def mux_given_def)

lemma gateway_balanced:
  assumes "gateway_reaches env h s"
  shows "gateway.balanced env h s"
  using assms
proof (rule gateway.balanced_reached)
  have drained: "debt.owes env h {#} (andThen BeginDrain (\<lambda>_. Return (Status 0))) (\<lambda>_. {#})"
    by (rule owes_then [OF owes_draining(2)]) (rule debt.owes_ReturnI, rule refl)
  show "debt.owes env h {#} p (\<lambda>_. {#})" if "p \<in> gateway_calls env h" for p
    using that owes_ServeHTTP drained by (auto simp: gateway_calls_def)
  show "mux_held empty_mux r = 0" for r by (cases r) (simp_all add: empty_mux_def generation_of_def user_count_def)
qed (simp_all add: mux_good_def mux_given_def empty_mux_def)

section \<open>What the Gateway's admission promises\<close>

lemma guarded_Inr: "(if c then Inl e else x) = Inr y \<longleftrightarrow> \<not> c \<and> x = Inr y"
  by simp

lemma NewHandler_limits:
  assumes "NewHandler config = Inr h"
  shows "1 \<le> sc_MaxSessionsPerUser (hn_config h)" "sc_MaxSessionsPerUser (hn_config h) \<le> sc_MaxSessions (hn_config h)"
    "1 \<le> sc_MaxStreamsPerSession (hn_config h)" "sc_SupportedVersions (hn_config h) = [WssVersion]"
    "MaximumHandshakeBytes \<le> sc_MaxFrameBytes (hn_config h)" "sc_MaxFrameBytes (hn_config h) \<le> 16777216"
    "0 < sc_StreamIdleTimeout (hn_config h)" "sc_StreamIdleTimeout (hn_config h) \<le> maxStreamIdleTimeout"
    "sc_ServerVersion (hn_config h) = sc_ServerVersion config"
proof -
  note h = assms [unfolded NewHandler_def Let_def guarded_Inr sum.inject]
  show "1 \<le> sc_MaxSessionsPerUser (hn_config h)" "sc_MaxSessionsPerUser (hn_config h) \<le> sc_MaxSessions (hn_config h)"
    "1 \<le> sc_MaxStreamsPerSession (hn_config h)" "sc_SupportedVersions (hn_config h) = [WssVersion]"
    "MaximumHandshakeBytes \<le> sc_MaxFrameBytes (hn_config h)" "sc_MaxFrameBytes (hn_config h) \<le> 16777216"
    "0 < sc_StreamIdleTimeout (hn_config h)" "sc_StreamIdleTimeout (hn_config h) \<le> maxStreamIdleTimeout"
    "sc_ServerVersion (hn_config h) = sc_ServerVersion config"
    using h by (clarsimp simp: defaultMaxStreams_def defaultStreamIdleTimeout_def duration_defs)+
qed

text \<open>C11. However requests, streams and a drain interleave: once every goroutine has returned, the Gateway holds nothing of
  them, no slot of the session limit, no generation, no user count, no stream and no running handler.
\<close>

theorem gateway_gives_everything_back:
  assumes "gateway_reaches env h (ps, m)" "\<forall>p\<in>set ps. \<exists>x. p = Return x"
  shows "mx_limit m = 0 \<and> mx_generations m = [] \<and> mx_users m = [] \<and> (\<forall>k. mx_streams m k = 0 \<and> mx_running m k = 0)"
proof -
  have held: "mux_held m r = 0" for r using gateway.balanced_returned [OF gateway_balanced [OF assms(1)]] assms(2) by simp
  have good: "mux_good env h m" using gateway.balanced_good [OF gateway_balanced [OF assms(1)]] by simp
  have "map_of (mx_generations m) s = None" for s
    using held [of "Gen s"] good by (fastforce simp: mux_good_def generation_of_def split: option.splits)
  moreover have "map_of (mx_users m) u = None" for u
    using held [of "User u"] good by (fastforce simp: mux_good_def user_count_def split: option.splits)
  ultimately have "map_of (mx_generations m) = Map.empty" "map_of (mx_users m) = Map.empty" by (simp_all add: fun_eq_iff)
  then show ?thesis using held [of Slot] held [of "Strm k" for k] held [of "Running k" for k] by (auto simp: map_of_eq_empty_iff)
qed

text \<open>C39. At any time the tunnels of the Gateway stay within the session limit, those of one user within the user's limit,
  and the streams of one tunnel within the stream limit.
\<close>

theorem admission_within_limits:
  assumes "NewHandler config = Inr h" "gateway_reaches env h (ps, m)"
  shows "int (mx_limit m) \<le> sc_MaxSessions (hn_config h) \<and> user_count m user \<le> sc_MaxSessionsPerUser (hn_config h) \<and>
    int (mx_streams m k) \<le> sc_MaxStreamsPerSession (hn_config h)"
proof -
  have "mux_good env h m" using gateway.balanced_good [OF gateway_balanced [OF assms(2)]] by simp
  then have "mx_limit m \<le> nat (sc_MaxSessions (hn_config h))" "mx_streams m k \<le> nat (sc_MaxStreamsPerSession (hn_config h))"
    "map_of (mx_users m) user = Some n \<Longrightarrow> n \<le> sc_MaxSessionsPerUser (hn_config h)" for n unfolding mux_good_def by blast+
  then show ?thesis using NewHandler_limits [OF assms(1)] by (auto simp: user_count_def nat_le_eq_zle split: option.splits)
qed

text \<open>C13. A tunnel is opened only for an identity that the authenticator returned and that had not expired, with a hello
  that the connection sent: of the identity's device, a common protocol version, the encryption and the key of the
  Gateway's policy and the required capabilities.
\<close>

theorem tunnel_opened_only_when_admitted:
  assumes "gateway_reaches env h (ps, m)" "SessionOpened identity hello version \<in> set (mx_events m)"
  shows "admitted env h identity hello version"
  using gateway.balanced_good [OF gateway_balanced [OF assms(1)]] assms(2) by (auto simp: mux_good_def)


text \<open>The fence of a session with tunnels is never lowered.\<close>

lemma fence_never_lowered:
  assumes "gateway_reaches env h s" "schedule mux_started_threads mux_collect (\<lambda>_. False) i s = Some s'"
    and "map_of (mx_generations (snd s)) sessionID = Some a" "map_of (mx_generations (snd s')) sessionID = Some a'"
  shows "ag_latest a \<le> ag_latest a'"
  using gateway.balanced_step(2) [OF gateway_balanced [OF assms(1)] assms(2)] assms(3,4) by (auto simp: mux_evolves_def)

section \<open>The Gateway's hello\<close>

lemma capabilities_valid:
  "validUniqueIdentifiers allCapabilities 32 64"
  "validUniqueIdentifiers (filter (\<lambda>value. value \<noteq> CapabilityTrafficEncryption) allCapabilities) 32 64"
  "wssSafeIdentifier WssVersion 16" "wssSafeText developmentVersion 64"
  by (simp_all add: validUniqueIdentifiers_def allCapabilities_def CapabilityTrafficEncryption_def CapabilityTrafficWebSocket_def
      CapabilityTunnelControl_def wssSafeIdentifier_def wssSafeText_def wss_identifier_rune_def control_rune_def WssVersion_def
      developmentVersion_def text_eval)

lemma server_hello_valid_iff:
  assumes "NewHandler config = Inr h"
  shows "ServerHello_Validate (server_hello h WssVersion) \<longleftrightarrow>
    (TrimSpace (sc_ServerVersion config) = '''' \<or> wssSafeText (sc_ServerVersion config) 64) \<and>
    sc_MaxSessions (hn_config h) \<le> 1048576 \<and> sc_MaxStreamsPerSession (hn_config h) \<le> 1048576 \<and>
    Millisecond \<le> sc_StreamIdleTimeout (hn_config h)"
proof -
  note limits = NewHandler_limits [OF assms]
  have idle: "0 < Milliseconds (sc_StreamIdleTimeout (hn_config h)) \<longleftrightarrow> Millisecond \<le> sc_StreamIdleTimeout (hn_config h)"
    using limits(7) by (simp add: Milliseconds_def Millisecond_def pos_imp_zdiv_pos_iff)
  have day: "Milliseconds (sc_StreamIdleTimeout (hn_config h)) \<le> Milliseconds (24 * Hour)"
    using limits(7,8) by (simp add: Milliseconds_def duration_defs maxStreamIdleTimeout_def)
  show ?thesis using limits(1-6,9) idle day capabilities_valid
    by (auto simp: ServerHello_Validate_def server_hello_def NewServerHello_def Let_def MaximumStreamFrameBytes_def)
qed


lemma capability_facts:
  "requiredCapabilitiesPresent allCapabilities" "CapabilityTrafficEncryption \<in> set allCapabilities"
  by (simp_all add: requiredCapabilitiesPresent_def allCapabilities_def CapabilityTrafficEncryption_def CapabilityTrafficWebSocket_def
      CapabilityTunnelControl_def)

section \<open>One tunnel with one stream\<close>

definition sample_server :: ServerConfig where
  "sample_server = \<lparr> sc_hasAuthenticator = True, sc_MaxSessions = 2, sc_MaxStreamsPerSession = 1, sc_MaxSessionsPerUser = 1,
     sc_MaxFrameBytes = 0, sc_StreamIdleTimeout = 0, sc_HandshakeTimeout = 0, sc_ServerVersion = '''', sc_MinClientVersion = '''',
     sc_SupportedVersions = [], sc_TrafficEncryption = Some True, sc_NoisePublicKey = ''key'', sc_hasHandle = True \<rparr>"

definition sample_handler :: Handler where
  "sample_handler = \<lparr> hn_config = sample_server \<lparr> sc_MaxFrameBytes := 1048576, sc_HandshakeTimeout := DefaultHandshakeTimeout,
     sc_SupportedVersions := [WssVersion], sc_StreamIdleTimeout := defaultStreamIdleTimeout \<rparr>, hn_legacyUnpinnedEncryption = False \<rparr>"

lemma sample_NewHandler: "NewHandler sample_server = Inr sample_handler"
  by (simp add: NewHandler_def sample_server_def sample_handler_def MaximumHandshakeBytes_def DefaultHandshakeTimeout_def duration_defs
      defaultStreamIdleTimeout_def maxStreamIdleTimeout_def)

definition sample_identity :: RelayIdentity where
  "sample_identity = \<lparr> id_RequestID = '''', id_IdentityID = ''u'', id_Groups = [], id_DeviceID = ''d'', id_SessionID = ''s'',
     id_SessionGeneration = 3, id_TicketID = ''t'', id_Namespace = ''n'', id_NetworkSpecHash = '''', id_ExpiresAt = 9,
     id_TrafficEncryption = Some True, id_NoisePublicKey = ''key'' \<rparr>"

definition sample_hello :: ClientHello where "sample_hello = NewClientHello ''dev'' ''d''"

definition sample_gateway_env :: mux_env where
  "sample_gateway_env = \<lparr> ue_authenticate = (\<lambda>_ _. Some sample_identity), ue_now = (\<lambda>_. 8), ue_upgrade = (\<lambda>_ _. Some Subprotocol),
     ue_read = (\<lambda>_. Some (True, [1])), ue_write = (\<lambda>_ _. True),
     ue_json = \<lparr> wj_marshal = (\<lambda>_. Some [1]), wj_type = (\<lambda>_. Some KindClientHello), wj_clientHello = (\<lambda>_. Some (sample_hello, True)),
       wj_serverHello = (\<lambda>_. None), wj_reject = (\<lambda>_. None) \<rparr>,
     ue_below = (\<lambda>_ _. None), ue_smux = (\<lambda>_. True), ue_streams = (\<lambda>_. 1) \<rparr>"

definition sample_http :: http_request where
  "sample_http = \<lparr> hr_Method = ''GET'', hr_responseRequestID = '''', hr_RequestID = ''r'', hr_Authorization = ''Bearer t'' \<rparr>"

lemma sample_read: "WssRead (ue_json sample_gateway_env) (ue_read sample_gateway_env i) = Some (ClientHelloMessage sample_hello)"
proof -
  have "ClientHello_Validate sample_hello" using capabilities_valid(1)
    by (simp add: ClientHello_Validate_def sample_hello_def NewClientHello_def validUniqueIdentifiers_def wssSafeIdentifier_def
        wssSafeText_def wss_identifier_rune_def control_rune_def WssVersion_def text_eval)
  then show ?thesis by (simp add: WssRead_def WssDecode_def DecodeStrictJSON_def sample_gateway_env_def MaximumHandshakeBytes_def)
qed

lemma sample_check:
  "check_hello (ue_below sample_gateway_env) sample_handler (sample_identity \<lparr> id_RequestID := ''r'' \<rparr>)
     (Some (ClientHelloMessage sample_hello)) = Inr (sample_hello, WssVersion)"
  using capability_facts
  by (simp add: check_hello_def WssNegotiate_def CheckClientVersion_def sample_hello_def NewClientHello_def sample_handler_def
      sample_server_def sample_identity_def trafficEncryptionMatches_def Let_def validUniqueIdentifiers_def capabilities_valid
      wssSafeIdentifier_def wssSafeText_def wss_identifier_rune_def control_rune_def WssVersion_def text_eval)

lemma tunnel_write:
  "WssWrite (ue_json sample_gateway_env) (ServerHelloMessage (server_hello sample_handler WssVersion)) (ue_write sample_gateway_env n)"
proof -
  have "ServerHello_Validate (server_hello sample_handler WssVersion)"
    using server_hello_valid_iff [OF sample_NewHandler]
    by (simp add: sample_handler_def sample_server_def defaultStreamIdleTimeout_def duration_defs text_eval)
  then show ?thesis by (simp add: WssWrite_def WssEncode_def validateMessage_def sample_gateway_env_def MaximumHandshakeBytes_def)
qed

lemmas admission_programs = ServeHTTP_def serve_connection_def handshake_def established_def reject_def deferring_def
  acquireGeneration_def releaseGeneration_def generationCurrent_def acquireSlot_def releaseSlot_def acquireUser_def releaseUser_def
  Draining_def mux_call_def mux_log_def take_stream_def free_stream_def startStream_def streamDone_def waitStreams_def
  stream_handler_def schedule_def mux_started_threads_def mux_collect_def atomic_def await_def

abbreviation tunnel_request :: "string \<Rightarrow> RelayIdentity" where
  "tunnel_request request \<equiv> sample_identity \<lparr> id_RequestID := request \<rparr>"

lemma tunnel_env:
  "authenticated sample_gateway_env n sample_http = Some sample_identity" "ue_upgrade sample_gateway_env n request = Some Subprotocol"
  "ue_smux sample_gateway_env n" "ue_streams sample_gateway_env n = 1" "requestID sample_http = ''r''" "hr_Method sample_http = ''GET''"
  "id_SessionID sample_identity = ''s''" "id_IdentityID sample_identity = ''u''" "id_SessionGeneration sample_identity = 3"
  by (simp_all add: authenticated_def sample_gateway_env_def sample_http_def requestID_def sample_identity_def)

lemma sample_limits:
  "sc_MaxSessions (hn_config sample_handler) = 2" "sc_MaxSessionsPerUser (hn_config sample_handler) = 1"
  "sc_MaxStreamsPerSession (hn_config sample_handler) = 1"
  by (simp_all add: sample_handler_def sample_server_def)

text \<open>A request with one stream, up to the point where it waits for the stream, and to its end.\<close>

lemma tunnel_run:
  "\<exists>p q m. run_schedule mux_started_threads mux_collect (\<lambda>_. False) [0, 0, 0, 0, 0, 0, 0, 0, 0, 0, 0, 0, 0, 0, 0]
     ([ServeHTTP sample_gateway_env sample_handler sample_http], empty_mux) = Some ([Step p, Step q], m) \<and>
     p m = None \<and> mx_limit m = 1 \<and> user_count m ''u'' = 1 \<and> mx_streams m 4 = 1 \<and>
     SessionOpened (tunnel_request ''r'') sample_hello WssVersion \<in> set (mx_events m)"
  by (simp add: admission_programs sample_check sample_read tunnel_write empty_mux_def tunnel_env sample_limits
      Let_def generation_of_def user_count_def)

lemma tunnel_end:
  "\<exists>m. run_schedule mux_started_threads mux_collect (\<lambda>_. False)
     [0, 0, 0, 0, 0, 0, 0, 0, 0, 0, 0, 0, 0, 0, 0, 1, 1, 1, 1, 1, 0, 0, 0, 0, 0]
     ([ServeHTTP sample_gateway_env sample_handler sample_http], empty_mux) = Some ([Return SessionEnded, Return StreamEnded], m)"
  by (simp add: admission_programs sample_check sample_read tunnel_write empty_mux_def tunnel_env sample_limits
      Let_def generation_of_def user_count_def)


lemma sample_reaches:
  "run_schedule mux_started_threads mux_collect (\<lambda>_. False) is ([ServeHTTP sample_gateway_env sample_handler sample_http], empty_mux) = Some s \<Longrightarrow>
    gateway_reaches sample_gateway_env sample_handler s"
  by (rule reaches_run [OF reaches_calls]) (auto simp: gateway_calls_def)

lemma gateway_gives_everything_back_witness:
  "\<exists>m. gateway_reaches sample_gateway_env sample_handler ([Return SessionEnded, Return StreamEnded], m) \<and>
     mx_limit m = 0 \<and> mx_generations m = [] \<and> mx_users m = []"
proof -
  obtain m where m: "gateway_reaches sample_gateway_env sample_handler ([Return SessionEnded, Return StreamEnded], m)"
    using tunnel_end sample_reaches by blast
  then show ?thesis using gateway_gives_everything_back [OF m] by auto
qed

lemma admission_within_limits_witness:
  "\<exists>ps m. gateway_reaches sample_gateway_env sample_handler (ps, m) \<and> mx_limit m = 1 \<and>
     int (mx_limit m) \<le> sc_MaxSessions (hn_config sample_handler) \<and> user_count m ''u'' \<le> 1 \<and> int (mx_streams m 4) \<le> 1"
proof -
  obtain ps m where m: "gateway_reaches sample_gateway_env sample_handler (ps, m)" "mx_limit m = 1"
    using tunnel_run sample_reaches by blast
  have "int (mx_limit m) \<le> sc_MaxSessions (hn_config sample_handler)" "user_count m ''u'' \<le> 1" "int (mx_streams m 4) \<le> 1"
    using admission_within_limits [OF sample_NewHandler m(1), of "''u''" 4] sample_limits by simp_all
  then show ?thesis using m by blast
qed

lemma tunnel_opened_only_when_admitted_witness:
  "\<exists>ps m. gateway_reaches sample_gateway_env sample_handler (ps, m) \<and>
     SessionOpened (tunnel_request ''r'') sample_hello WssVersion \<in> set (mx_events m) \<and>
     admitted sample_gateway_env sample_handler (tunnel_request ''r'') sample_hello WssVersion"
proof -
  obtain ps m where m: "gateway_reaches sample_gateway_env sample_handler (ps, m)"
    "SessionOpened (tunnel_request ''r'') sample_hello WssVersion \<in> set (mx_events m)"
    using tunnel_run sample_reaches by blast
  then show ?thesis using tunnel_opened_only_when_admitted [OF m] by blast
qed



end
