(* ===== verification/Spec2Isabelle.thy ===== *)
theory Spec2Isabelle
  imports Streamframe Execstream Filestream Tunnel TicketService SessionRegistry TaskLifecycle BindingRestore RelayTables
    NetworkDiscovery TrafficStart PortForwardSafety TicketGuards AdmissionSafety
begin

text \<open>
  A model of kube-loop in Isabelle/HOL, and the properties that make it correct.

  \<^bold>\<open>The program.\<close> kube-loop connects a desktop to the network of a Kubernetes cluster. The client (\<^verbatim>\<open>internal/client\<close>)
  asks the Control Plane (\<^verbatim>\<open>internal/controlplane\<close>) for sessions, tasks (exchange, mirror, preview, port forward, exec,
  files) and relay tickets. A relay of the Data Plane, the Gateway (\<^verbatim>\<open>internal/gateway\<close>), registers with the Control
  Plane, is allocated to sessions, accepts a client that shows a ticket, and carries its traffic as frames over one
  connection. A task that takes over a Service is a TrafficBinding resource, which the Operator
  (\<^verbatim>\<open>internal/controller\<close>) carries out on the Service, its EndpointSlices and its Endpoints. \<^verbatim>\<open>internal/protocol\<close> holds
  what the parts agree on.

  \<^bold>\<open>How it is modelled.\<close> Pure functions of the source are functions with the same name and the same branches; a Go
  \<^verbatim>\<open>(T, error)\<close> is a sum, a struct a record, a map an association list or a partial function, a fixed-width integer a
  word (or an \<open>int\<close> whose wrap-around is written out), a string a list of bytes, a time its number of nanoseconds
  (\<open>GoTime\<close>). State is passed explicitly. What happens at the same time is explicit too: by the operations that other
  writers perform before each statement (\<open>TaskLifecycle\<close>), by the answer or the failure of each call, indexed by the
  number of the call (\<open>BindingCluster\<close>), by step relations over any order of events (\<open>RelayRegistry\<close>,
  \<open>SessionRegistry\<close>, \<open>RelayPipes\<close>), or by programs of atomic steps that a scheduler interleaves (\<open>Threads\<close>).
  Services and libraries that the repository calls (the database driver, the Kubernetes API, signatures and hashes,
  JSON, Unicode case beyond ASCII, URL and IP text parsing, sockets) are parameters; what is relied on is a named
  hypothesis of the lemma that needs it and states documented behaviour of that code.

  \<^bold>\<open>The theories, and the code they model.\<close>

  \<^item> \<open>Prelude\<close>, \<open>GoText\<close>, \<open>GoTime\<close>: shared vocabulary. Results, big-endian integers, sorting, the text functions of
    Go that the source uses, times. \<open>FrameCodec\<close> is the locale every frame codec is an interpretation of.
  \<^item> \<open>Streamframe\<close>, \<open>Execstream\<close>, \<open>Filestream\<close>: the frame formats of \<^verbatim>\<open>internal/protocol/streamframe\<close> (with the contracts
    of exchange and mirror streams), \<^verbatim>\<open>execstream\<close> and \<^verbatim>\<open>filestream\<close>. Decoding inverts encoding and rejects every other
    input.
  \<^item> \<open>Tunnel\<close>: the handshake of \<^verbatim>\<open>internal/protocol/tunnel\<close>, with readers that deliver a message in any pieces.
  \<^item> \<open>RelayControl\<close>: the messages between relays and the Control Plane, \<^verbatim>\<open>internal/protocol/relaycontrol\<close>: validation,
    versions, identities and key sets.
  \<^item> \<open>RelayRegistry\<close>: \<^verbatim>\<open>internal/controlplane/relayregistry\<close>. A step relation of registrations, heartbeats, allocations
    and releases in any order. Reservations are exact, a generation of a session keeps its relay, an allocation goes to
    a least loaded relay.
  \<^item> \<open>RelayTicket\<close>, \<open>TicketService\<close>: \<^verbatim>\<open>internal/protocol/relayticket\<close> and
    \<^verbatim>\<open>internal/controlplane/ticketapi/service\<close>. What is issued is accepted, and what is accepted was signed by a trusted
    key for this relay and is in time. Signing and the text forms are parameters with the usual laws.
  \<^item> \<open>SessionRegistry\<close>: the runtime registry of sessions, tasks and streams
    (\<^verbatim>\<open>internal/controlplane/sessionregistry/registry*.go\<close>): which streams it holds, and that draining ends.
  \<^item> \<open>TaskStore\<close>, \<open>TaskLifecycle\<close>: the tables of tasks and sessions (\<^verbatim>\<open>internal/controlplane/storage\<close>), and stopping,
    deleting, finishing and recovering tasks and the leases of streams on top of them (\<^verbatim>\<open>tasklifecycle\<close>,
    \<^verbatim>\<open>taskstream\<close>, \<^verbatim>\<open>sessionregistry/reconciler.go\<close>, \<^verbatim>\<open>streamlease\<close>). Stopping tries eight times
    (\<open>stopTransitionAttempts\<close>, as the code does); the liveness property says when that is enough.
  \<^item> \<open>TrafficBinding\<close>, \<open>BindingCluster\<close>, \<open>BindingResources\<close>, \<open>BindingReconcile\<close>: the resource and its validation, the
    cluster as the Operator sees it, what the Operator does to Services, slices and Endpoints, and its reconcile loop
    (\<^verbatim>\<open>internal/controller\<close>). \<open>BindingSafety\<close>: an invariant of every run with failing calls and other writers.
    \<open>BindingSessions\<close>: the Control Plane's side of bindings (\<^verbatim>\<open>internal/controlplane/trafficbindingclient\<close>,
    \<^verbatim>\<open>trafficapi\<close>) and the composition with the Operator. \<open>BindingRestore\<close>: runs without failures end with the Service
    as it was captured.
  \<^item> \<open>ReverseRelay\<close>, \<open>RelayPipes\<close>, \<open>RelayTables\<close>: the two ends of a reverse stream (\<^verbatim>\<open>internal/gateway/relay/reverse\<close>,
    \<^verbatim>\<open>internal/client/reverserelay\<close>), their composition over a frame connection, which refines one pipe for each
    direction of each stream, and the tables of the Gateway's side. A round of a side is one turn of one of its
    goroutines under the relay's mutex.
  \<^item> \<open>NetAddr\<close>, \<open>NetworkSpec\<close>, \<open>NetworkDiscovery\<close>: addresses and prefixes, the network snapshot of a session with its
    canonical form (\<^verbatim>\<open>internal/protocol/networkspec\<close>, \<^verbatim>\<open>dns/cluster.go\<close>), and how the Control Plane discovers it
    (\<^verbatim>\<open>internal/controlplane/networkapi\<close>).
  \<^item> \<open>Threads\<close>: goroutines that share memory, their schedules, and a logic of tokens for the invariants of a pool.
    \<open>TaskRelay\<close>: the desktop's manager of relayed tasks (\<^verbatim>\<open>internal/client/taskrelay\<close>) as such programs;
    \<open>TaskRelaySafety\<close>: what holds in every interleaving, and three ways in which overlapping operations go wrong.
    \<open>TrafficTasks\<close>, \<open>TrafficStart\<close>: the Exchange, Mirror and Preview managers on top of it (\<^verbatim>\<open>internal/client/exchange\<close>,
    \<^verbatim>\<open>mirror\<close>, \<^verbatim>\<open>preview\<close>): what their adapters make of the Gateway's tasks, and that a start accounts for the task
    that was created for it.
  \<^item> \<open>PortListener\<close>, \<open>PortForward\<close>, \<open>PortForwardSafety\<close>: the port forwards of the desktop
    (\<^verbatim>\<open>internal/client/portforward\<close>): the loopback listeners, the manager's operations as programs of atomic steps, the
    invariant that relates the manager's entries to the listeners when operations do not overlap, and what is lost when
    they do.
  \<^item> \<open>TicketGuards\<close>: how the Gateway authenticates a request by its ticket (\<^verbatim>\<open>internal/auth/relaybearer\<close>,
    \<^verbatim>\<open>internal/gateway/relay/agent/authenticator.go\<close>): a single-use ticket is admitted once, and no older generation of a
    session after a newer one. \<open>Wss\<close>: the messages of the tunnel's handshake (\<^verbatim>\<open>internal/protocol/wss\<close>).
  \<^item> \<open>Accounts\<close>: a second logic on \<open>Threads\<close>, of what each goroutine has taken and will give back. \<open>Admission\<close>: the
    Gateway's tunnels, from the request to the last stream (\<^verbatim>\<open>internal/gateway/websocketmux\<close>); \<open>AdmissionSafety\<close>:
    everything taken is given back, limits hold, a tunnel is opened only when admitted, and no request waits for ever
    on another.

  \<^bold>\<open>Bounds and fuel.\<close> Recursion is structural or has a measure, with three exceptions. The write loop of
  \<open>ReverseRelay\<close> is a partial function over the connection's answers; its termination property says that it returns
  after at most one call for each byte. The lease's watch loop runs over a finite list of polls, and the reader of
  \<open>Tunnel\<close> over a finite list of pieces: every finite run of the code is one of them. Counters of calls and streams
  are natural numbers; where the code counts in 64 bits, runs with fewer than \<open>2 ^ 64\<close> events are meant, and where
  the code's arithmetic wraps around in practice (the lifetime of a ticket), it wraps around in the model.

  \<^bold>\<open>Not modelled.\<close> Cryptography, TLS, HTTP routing and JSON are libraries. The Data Plane of the client and the Trojan
  front end of the Gateway configure sing-box and talk to the operating system; what they do is decided there. The
  terminal UI, the desktop shell, the MCP server, the helper daemon and the installation code have no state of
  interest beyond that of the managers. The HTTP handlers of the Control Plane parse requests and call the modelled
  operations. Discovery leaves out the construction of the two API clients. Mirror's shadow relay and the
  forwarders that copy the bytes of a port forward are left out. The storage theories cover the statements
  on tasks and sessions, not those on users, clients and grants.
\<close>

end
